(* ===== verification/Prelude.thy ===== *)
theory Prelude
  imports Main "HOL-Library.Word" "HOL-Library.Sublist" "HOL-Library.Multiset"
begin

text \<open>
  Shared vocabulary of the development: byte strings, the exceptions the codec raises as
  values of one datatype, results as sums, Python dictionaries with integer keys as
  insertion-ordered association lists, and the list lemmas the component theories use.
  Collections: \<open>wr\<close> holds the inversion rules of writers (what a successful write
  says about its pieces), \<open>rd\<close> the composition rules of readers.
\<close>

named_theorems wr and rd

type_synonym byte = "8 word"
type_synonym bytes = "byte list"

section \<open>Exceptions as values\<close>

text \<open>
  One constructor per exception class the modelled code raises or catches. Classes carry
  what the code reads off them (a close code, a payload length and its limit), not the text of
  their messages. \<open>MOQTMalformedKVP\<close> is a subclass of \<open>MOQTProtocolViolation\<close>,
  itself a \<open>MOQTException\<close> with the close code PROTOCOL_VIOLATION; \<open>UnicodeError\<close> is
  a subclass of \<open>ValueError\<close>.
\<close>

datatype py_error =
    BufferReadError
  | BufferWriteError
  | MOQTUnderflow
  | MOQTProtocolViolation
  | MOQTMalformedKVP
  | MOQTException int
  | MOQTObjectTooLarge int int
  | ValueError
  | UnicodeError
  | TypeError
  | KeyError
  | IndexError
  | OverflowError
  | AttributeError
  | AssertionError

type_synonym 'a result = "py_error + 'a"

definition bindR :: "'a result \<Rightarrow> ('a \<Rightarrow> 'b result) \<Rightarrow> 'b result" where
  "bindR r k = (case r of Inl e \<Rightarrow> Inl e | Inr a \<Rightarrow> k a)"

definition guardR :: "bool \<Rightarrow> py_error \<Rightarrow> unit result" where
  "guardR ok e = (if ok then Inr () else Inl e)"

definition of_option :: "py_error \<Rightarrow> 'a option \<Rightarrow> 'a result" where
  "of_option e x = (case x of None \<Rightarrow> Inl e | Some a \<Rightarrow> Inr a)"

lemma bindR_simps [simp]:
  "bindR (Inl e) k = Inl e"
  "bindR (Inr a) k = k a"
  by (simp_all add: bindR_def)

lemma bindR_eq_Inr [wr]:
  "bindR r k = Inr b \<longleftrightarrow> (\<exists>a. r = Inr a \<and> k a = Inr b)"
  by (cases r) auto

lemma guardR_eq_Inr [wr]: "guardR p e = Inr u \<longleftrightarrow> p"
  by (simp add: guardR_def)

lemma guardR_True [simp]: "guardR True e = Inr ()"
  by (simp add: guardR_def)

lemma guardR_False [simp]: "guardR False e = Inl e"
  by (simp add: guardR_def)

lemma of_option_simps [simp]:
  "of_option e (Some a) = Inr a"
  "of_option e None = Inl e"
  by (simp_all add: of_option_def)

lemma of_option_eq_Inr [wr]: "of_option e x = Inr a \<longleftrightarrow> x = Some a"
  by (cases x) auto

section \<open>Sequencing writers\<close>

text \<open>
  A writer is the result of pushing values onto an output buffer: the bytes pushed, or the
  exception of the first push that raised. \<open>wseq\<close> is a sequence of pushes.
\<close>

fun wseq :: "bytes result list \<Rightarrow> bytes result" where
  "wseq [] = Inr []"
| "wseq (w # ws) = bindR w (\<lambda>a. bindR (wseq ws) (\<lambda>b. Inr (a @ b)))"

lemma wseq_Nil_eq [wr]: "wseq [] = Inr bs \<longleftrightarrow> bs = []"
  by auto

lemma wseq_Cons_eq [wr]:
  "wseq (w # ws) = Inr bs \<longleftrightarrow> (\<exists>a b. w = Inr a \<and> wseq ws = Inr b \<and> bs = a @ b)"
  by (auto simp: bindR_eq_Inr)

lemma wseq_append: "wseq (us @ vs) = bindR (wseq us) (\<lambda>a. bindR (wseq vs) (\<lambda>b. Inr (a @ b)))"
proof (induction us)
  case Nil
  then show ?case by (cases "wseq vs") auto
next
  case (Cons u us)
  then show ?case by (cases u; cases "wseq us"; cases "wseq vs") auto
qed

declare wseq.simps [simp del]

lemma wseq_Nil [simp]: "wseq [] = Inr []"
  by (simp add: wseq.simps)

text \<open>Mapping a fallible function over a list, stopping at the first exception.\<close>

fun mapR :: "('a \<Rightarrow> 'b result) \<Rightarrow> 'a list \<Rightarrow> 'b list result" where
  "mapR f [] = Inr []"
| "mapR f (x # xs) = bindR (f x) (\<lambda>y. bindR (mapR f xs) (\<lambda>ys. Inr (y # ys)))"

lemma mapR_eq_Inr_length: "mapR f xs = Inr ys \<Longrightarrow> length ys = length xs"
  by (induction xs arbitrary: ys) (auto simp: bindR_eq_Inr)

section \<open>Python dictionaries with integer keys\<close>

text \<open>
  Python dictionaries keep insertion order, which the wire shows where keys are not
  sorted. A dictionary is an association list with distinct keys; assignment replaces the
  value in place or appends; \<open>pop\<close> returns the value (or the default None) and removes it.
\<close>

type_synonym 'v dict = "(int \<times> 'v) list"

definition dict_get :: "'v dict \<Rightarrow> int \<Rightarrow> 'v option" where
  "dict_get d = map_of d"

fun dict_set :: "'v dict \<Rightarrow> int \<Rightarrow> 'v \<Rightarrow> 'v dict" where
  "dict_set [] k v = [(k, v)]"
| "dict_set ((k', v') # d) k v = (if k' = k then (k, v) # d else (k', v') # dict_set d k v)"

definition dict_pop :: "'v dict \<Rightarrow> int \<Rightarrow> 'v option \<times> 'v dict" where
  "dict_pop d k = (map_of d k, filter (\<lambda>(k', _). k' \<noteq> k) d)"

definition dict_ok :: "'v dict \<Rightarrow> bool" where
  "dict_ok d = distinct (map fst d)"

definition dict_sorted :: "'v dict \<Rightarrow> 'v dict" where
  "dict_sorted d = sort_key fst d"

definition set_opt :: "'v dict \<Rightarrow> int \<Rightarrow> 'v option \<Rightarrow> 'v dict" where
  "set_opt d k x = (case x of None \<Rightarrow> d | Some v \<Rightarrow> dict_set d k v)"

text \<open>The interface the codecs rely on.\<close>

locale int_dict =
  fixes get :: "'d \<Rightarrow> int \<Rightarrow> 'v option"
    and put :: "'d \<Rightarrow> int \<Rightarrow> 'v \<Rightarrow> 'd"
    and pop :: "'d \<Rightarrow> int \<Rightarrow> 'v option \<times> 'd"
    and invar :: "'d \<Rightarrow> bool"
  assumes get_put: "get (put d k v) = (get d)(k \<mapsto> v)"
    and pop_val: "fst (pop d k) = get d k"
    and get_pop: "get (snd (pop d k)) = (get d)(k := None)"
    and invar_put: "invar d \<Longrightarrow> invar (put d k v)"
    and invar_pop: "invar d \<Longrightarrow> invar (snd (pop d k))"
begin

lemma get_put_same: "get (put d k v) k = Some v"
  by (simp add: get_put)

lemma get_put_other: "j \<noteq> k \<Longrightarrow> get (put d k v) j = get d j"
  by (simp add: get_put)

lemma pop_put_same: "fst (pop (put d k v) k) = Some v"
  by (simp add: pop_val get_put)

lemma get_pop_put:
  "get d k = None \<Longrightarrow> get (snd (pop (put d k v) k)) = get d"
  by (simp add: get_pop get_put fun_upd_idem)

end

lemma map_of_dict_set: "map_of (dict_set d k v) = (map_of d)(k \<mapsto> v)"
  by (induction d) (auto simp: fun_eq_iff)

lemma set_fst_dict_set: "fst ` set (dict_set d k v) = insert k (fst ` set d)"
proof (induction d)
  case (Cons p d)
  then show ?case by (cases p) (simp add: insert_commute)
qed simp

lemma distinct_dict_set:
  "distinct (map fst d) \<Longrightarrow> distinct (map fst (dict_set d k v))"
proof (induction d)
  case (Cons p d)
  then show ?case
    using set_fst_dict_set [of d k v] by (cases p) auto
qed simp

lemma map_of_filter_neq:
  "map_of (filter (\<lambda>(k', _). k' \<noteq> k) d) = (map_of d)(k := None)"
  by (induction d) (auto simp: fun_eq_iff)

lemma distinct_fst_filter: "distinct (map fst d) \<Longrightarrow> distinct (map fst (filter P d))"
  by (rule distinct_map_filter)

interpretation pydict: int_dict dict_get dict_set dict_pop dict_ok
proof unfold_locales
  fix d :: "'v dict" and k v
  show "dict_get (dict_set d k v) = (dict_get d)(k \<mapsto> v)"
    unfolding dict_get_def by (rule map_of_dict_set)
  show "fst (dict_pop d k) = dict_get d k"
    by (simp add: dict_pop_def dict_get_def)
  show "dict_get (snd (dict_pop d k)) = (dict_get d)(k := None)"
    by (simp add: dict_pop_def dict_get_def map_of_filter_neq)
  show "dict_ok d \<Longrightarrow> dict_ok (dict_set d k v)"
    unfolding dict_ok_def by (rule distinct_dict_set)
  show "dict_ok d \<Longrightarrow> dict_ok (snd (dict_pop d k))"
    by (simp add: dict_ok_def dict_pop_def distinct_fst_filter)
qed

lemma dict_sorted_set [simp]: "set (dict_sorted d) = set d"
  by (simp add: dict_sorted_def)

lemma dict_sorted_sorted: "sorted (map fst (dict_sorted d))"
  by (simp add: dict_sorted_def)

lemma dict_sorted_ok: "dict_ok d \<Longrightarrow> dict_ok (dict_sorted d)"
proof -
  have "mset (map fst (sort_key fst d)) = mset (map fst d)"
    by simp
  then show "dict_ok d \<Longrightarrow> dict_ok (dict_sorted d)"
    unfolding dict_ok_def dict_sorted_def by (metis mset_eq_imp_distinct_iff)
qed

lemma map_of_dict_sorted: "dict_ok d \<Longrightarrow> map_of (dict_sorted d) = map_of d"
  using dict_sorted_ok [of d] map_of_inject_set [of "dict_sorted d" d]
  by (simp add: dict_ok_def)

section \<open>Lists\<close>

lemma prefix_drop_append:
  "prefix (xs @ ys) zs \<longleftrightarrow> prefix xs zs \<and> prefix ys (drop (length xs) zs)"
  by (auto simp: prefix_def)

lemma prefix_take_length: "prefix xs zs \<Longrightarrow> take (length xs) zs = xs"
  by (auto simp: prefix_def)

end
