(* ===== verification/Moqt_Types.thy ===== *)
theory Moqt_Types
  imports Prelude
begin

text \<open>
  The draft numbers, code points and small conversions of \<^verbatim>\<open>aiomoqt/types.py\<close>: version
  codes and ALPN strings, the draft arguments of the public API, the control message tables of
  each draft, and the mapping of MoQT priorities to transport bands. An \<open>IntEnum\<close> class is
  the list of its members (name and value), in declaration order. Strings are ASCII.
\<close>

section \<open>Enumerations\<close>

type_synonym int_enum = "(string \<times> int) list"

definition enum_name :: "int_enum \<Rightarrow> string \<Rightarrow> int option" where
  "enum_name E n = map_of E n"

fun enum_value :: "int_enum \<Rightarrow> int \<Rightarrow> string option" where
  "enum_value [] v = None"
| "enum_value ((n, x) # E) v = (if x = v then Some n else enum_value E v)"

definition enum_values :: "int_enum \<Rightarrow> int list" where
  "enum_values E = map snd E"

lemma enum_value_None_iff: "enum_value E v = None \<longleftrightarrow> v \<notin> set (enum_values E)"
proof (induction E)
  case (Cons p E)
  then show ?case by (cases p) (simp add: enum_values_def eq_commute)
qed (simp add: enum_values_def)

definition MOQT_VERSION_DRAFT14 :: int where "MOQT_VERSION_DRAFT14 = 0xff00000e"

definition MOQT_VERSIONS :: "int list" where
  "MOQT_VERSIONS = [0xff00000e, 0xff000010]"

definition MOQTDraft :: int_enum where
  "MOQTDraft = [(''DRAFT_14'', 14), (''DRAFT_16'', 16), (''DRAFT_18'', 18),
                (''DRAFT_20'', 20), (''DRAFT_22'', 22)]"

definition MOQT_DEFAULT_DRAFTS :: "int list" where
  "MOQT_DEFAULT_DRAFTS = [22, 20, 18, 16, 14]"

definition MOQTMessageType :: int_enum where
  "MOQTMessageType =
    [(''CLIENT_SETUP'', 0x20), (''SERVER_SETUP'', 0x21), (''SETUP'', 0x2F00),
     (''SUBSCRIBE_UPDATE'', 0x02), (''SUBSCRIBE'', 0x03), (''SUBSCRIBE_OK'', 0x04),
     (''PUBLISH_NAMESPACE'', 0x06), (''PUBLISH_NAMESPACE_DONE'', 0x09),
     (''UNSUBSCRIBE'', 0x0A), (''PUBLISH_DONE'', 0x0B),
     (''PUBLISH_NAMESPACE_CANCEL'', 0x0C), (''TRACK_STATUS'', 0x0D), (''GOAWAY'', 0x10),
     (''SUBSCRIBE_NAMESPACE'', 0x11), (''MAX_REQUEST_ID'', 0x15), (''FETCH'', 0x16),
     (''FETCH_CANCEL'', 0x17), (''FETCH_OK'', 0x18), (''REQUESTS_BLOCKED'', 0x1A),
     (''PUBLISH'', 0x1D), (''PUBLISH_OK'', 0x1E), (''SUBSCRIBE_ERROR'', 0x05),
     (''PUBLISH_NAMESPACE_OK'', 0x07), (''PUBLISH_NAMESPACE_ERROR'', 0x08),
     (''TRACK_STATUS_OK'', 0x0E), (''TRACK_STATUS_ERROR'', 0x0F),
     (''SUBSCRIBE_NAMESPACE_OK'', 0x12), (''SUBSCRIBE_NAMESPACE_ERROR'', 0x13),
     (''UNSUBSCRIBE_NAMESPACE'', 0x14), (''FETCH_ERROR'', 0x19), (''PUBLISH_ERROR'', 0x1F)]"

definition D16MessageType :: int_enum where
  "D16MessageType = [(''REQUEST_UPDATE'', 0x02), (''REQUEST_ERROR'', 0x05),
    (''REQUEST_OK'', 0x07), (''NAMESPACE'', 0x08), (''NAMESPACE_DONE'', 0x0E)]"

definition D18MessageType :: int_enum where
  "D18MessageType = [(''SUBSCRIBE_NAMESPACE'', 0x50), (''SUBSCRIBE_TRACKS'', 0x51),
    (''PUBLISH_BLOCKED'', 0x0F)]"

definition D20MessageType :: int_enum where
  "D20MessageType = [(''PUBLISH_STATE_NOTIFY'', 0x22), (''PUBLISH_SKIPPED'', 0x0F)]"

definition ParamType :: int_enum where
  "ParamType =
    [(''DELIVERY_TIMEOUT'', 0x02), (''AUTH_TOKEN'', 0x03), (''MAX_CACHE_DURATION'', 0x04),
     (''EXPIRES'', 0x08), (''LARGEST_OBJECT'', 0x09), (''PUBLISHER_PRIORITY'', 0x0E),
     (''FORWARD'', 0x10), (''SUBSCRIBER_PRIORITY'', 0x20), (''SUBSCRIPTION_FILTER'', 0x21),
     (''GROUP_ORDER'', 0x22), (''LOCATION_FILTER'', 0x21), (''GROUP_FILTER'', 0x23),
     (''SUBGROUP_FILTER'', 0x25), (''OBJECT_FILTER'', 0x27), (''DYNAMIC_GROUPS'', 0x30),
     (''NEW_GROUP_REQUEST'', 0x32), (''TRACK_NAMESPACE_PREFIX'', 0x34),
     (''GREASE_1_PARAM'', 0x55), (''GREASE_2_PARAM'', 0x8A)]"

definition SetupParamType :: int_enum where
  "SetupParamType =
    [(''PATH'', 0x01), (''MAX_REQUEST_ID'', 0x02), (''AUTH_TOKEN'', 0x03),
     (''MAX_AUTH_TOKEN_CACHE_SIZE'', 0x04), (''AUTHORITY'', 0x05), (''MAX_FILTER_RANGES'', 0x06),
     (''IMPLEMENTATION'', 0x07), (''MAX_REQUEST_UPDATES'', 0x08), (''GREASE_1_PARAM'', 0x77),
     (''GREASE_2_PARAM'', 0x92)]"

definition SessionCloseCode :: int_enum where
  "SessionCloseCode =
    [(''NO_ERROR'', 0x0), (''INTERNAL_ERROR'', 0x01), (''UNAUTHORIZED'', 0x02),
     (''PROTOCOL_VIOLATION'', 0x03), (''INVALID_REQUEST_ID'', 0x04),
     (''DUPLICATE_TRACK_ALIAS'', 0x05), (''KEY_VALUE_FORMATTING_ERROR'', 0x06),
     (''TOO_MANY_REQUESTS'', 0x07), (''INVALID_PATH'', 0x08), (''MALFORMED_PATH'', 0x09),
     (''GOAWAY_TIMEOUT'', 0x10), (''CONTROL_MESSAGE_TIMEOUT'', 0x11),
     (''DATA_STREAM_TIMEOUT'', 0x12), (''AUTH_TOKEN_CACHE_OVERFLOW'', 0x13),
     (''DUPLICATE_AUTH_TOKEN_ALIAS'', 0x14), (''VERSION_NEGOTIATION_FAILED'', 0x15),
     (''MALFORMED_AUTH_TOKEN'', 0x16), (''UNKNOWN_AUTH_TOKEN_ALIAS'', 0x17),
     (''EXPIRED_AUTH_TOKEN'', 0x18), (''INVALID_AUTHORITY'', 0x19),
     (''MALFORMED_AUTHORITY'', 0x1A), (''TOO_MANY_REQUEST_UPDATES'', 0x1B)]"

definition SubscribeErrorCode :: int_enum where
  "SubscribeErrorCode =
    [(''INTERNAL_ERROR'', 0x0), (''UNAUTHORIZED'', 0x01), (''TIMEOUT'', 0x02),
     (''NOT_SUPPORTED'', 0x03), (''TRACK_DOES_NOT_EXIST'', 0x04), (''INVALID_RANGE'', 0x05),
     (''MALFORMED_AUTH_TOKEN'', 0x10), (''EXPIRED_AUTH_TOKEN'', 0x12)]"

definition RequestErrorCode :: int_enum where
  "RequestErrorCode =
    [(''INTERNAL_ERROR'', 0x0), (''UNAUTHORIZED'', 0x01), (''TIMEOUT'', 0x02),
     (''NOT_SUPPORTED'', 0x03), (''MALFORMED_AUTH_TOKEN'', 0x04), (''EXPIRED_AUTH_TOKEN'', 0x05),
     (''GOING_AWAY'', 0x06), (''EXCESSIVE_LOAD'', 0x09), (''DOES_NOT_EXIST'', 0x10),
     (''INVALID_RANGE'', 0x11), (''MALFORMED_TRACK'', 0x12), (''DUPLICATE_SUBSCRIPTION'', 0x19),
     (''UNINTERESTED'', 0x20), (''PREFIX_OVERLAP'', 0x30), (''NAMESPACE_TOO_LARGE'', 0x31),
     (''INVALID_JOINING_REQUEST_ID'', 0x32), (''UNSUPPORTED_EXTENSION'', 0x33),
     (''REDIRECT'', 0x34), (''CONFLICTING_FILTERS'', 0x35), (''INVALID_FILTER'', 0x36)]"

definition SubscribeDoneCode :: int_enum where
  "SubscribeDoneCode =
    [(''INTERNAL_ERROR'', 0x0), (''UNAUTHORIZED'', 0x01), (''TRACK_ENDED'', 0x02),
     (''SUBSCRIPTION_ENDED'', 0x03), (''GOING_AWAY'', 0x04), (''EXPIRED'', 0x05),
     (''TOO_FAR_BEHIND'', 0x06), (''MALFORMED_TRACK'', 0x12), (''UPDATE_FAILED'', 0x08),
     (''EXCESSIVE_LOAD'', 0x09)]"

definition StreamResetCode :: int_enum where
  "StreamResetCode =
    [(''INTERNAL_ERROR'', 0x0), (''CANCELLED'', 0x01), (''DELIVERY_TIMEOUT'', 0x02),
     (''SESSION_CLOSED'', 0x03), (''GOING_AWAY'', 0x04), (''TOO_FAR_BEHIND'', 0x05),
     (''UNKNOWN_OBJECT_STATUS'', 0x06), (''EXPIRED_AUTH_TOKEN'', 0x07),
     (''EXCESSIVE_LOAD'', 0x09), (''MALFORMED_TRACK'', 0x12)]"

definition ObjectStatus :: int_enum where
  "ObjectStatus = [(''NORMAL'', 0x0), (''DOES_NOT_EXIST'', 0x01), (''END_OF_GROUP'', 0x03),
                   (''END_OF_TRACK'', 0x04)]"

definition PublishErrorCode :: int_enum where
  "PublishErrorCode = [(''INTERNAL_ERROR'', 0x0), (''UNAUTHORIZED'', 0x01), (''TIMEOUT'', 0x02),
                       (''NOT_SUPPORTED'', 0x03), (''UNINTERESTED'', 0x04)]"

section \<open>Control message tables\<close>

definition D20_CONTROL_TYPES :: "int list" where
  "D20_CONTROL_TYPES =
    [0x2F00, 0x10, 0x03, 0x04, 0x22, 0x1D, 0x0B, 0x16, 0x18, 0x0D,
     0x06, 0x50, 0x51, 0x08, 0x0E, 0x0F, 0x02, 0x07, 0x05]"

definition CONTROL_MESSAGE_TYPES :: "int list dict" where
  "CONTROL_MESSAGE_TYPES =
    [(14, [0x20, 0x21, 0x10, 0x15, 0x1A, 0x03, 0x04, 0x05, 0x02, 0x0A,
           0x0B, 0x1D, 0x1E, 0x1F, 0x16, 0x18, 0x19, 0x17, 0x0D, 0x0E,
           0x0F, 0x06, 0x07, 0x08, 0x09, 0x0C, 0x11, 0x12, 0x13, 0x14]),
     (16, [0x20, 0x21, 0x10, 0x15, 0x1A, 0x07, 0x05, 0x03, 0x04, 0x02,
           0x0A, 0x1D, 0x1E, 0x0B, 0x16, 0x18, 0x17, 0x0D, 0x06, 0x08,
           0x09, 0x0E, 0x0C, 0x11]),
     (18, [0x2F00, 0x10, 0x03, 0x04, 0x1D, 0x1E, 0x0B, 0x16, 0x18, 0x0D,
           0x06, 0x50, 0x51, 0x08, 0x0E, 0x0F, 0x02, 0x07, 0x05]),
     (20, D20_CONTROL_TYPES),
     (22, D20_CONTROL_TYPES)]"

definition D18_RENUMBERED :: "int dict" where
  "D18_RENUMBERED = [(0x11, 0x50), (0x1E, 0x07)]"

definition WIRE_TYPE_BY_DRAFT :: "int dict dict" where
  "WIRE_TYPE_BY_DRAFT =
    [(14, []), (16, []), (18, D18_RENUMBERED), (20, D18_RENUMBERED), (22, D18_RENUMBERED)]"

definition wire_control_type :: "int \<Rightarrow> int \<Rightarrow> int result" where
  "wire_control_type draft ty =
    (case dict_get WIRE_TYPE_BY_DRAFT draft of
       None \<Rightarrow> Inl ValueError
     | Some renumbered \<Rightarrow>
         Inr (case dict_get renumbered ty of None \<Rightarrow> ty | Some t \<Rightarrow> t))"

definition HANDLER_ALIASES :: "int list dict" where
  "HANDLER_ALIASES = [(0x11, [0x50]), (0x50, [0x11])]"

section \<open>Message parameter tables of draft-18\<close>

datatype param_kind =
    K_varint | K_bytes | K_location | K_uint8 | K_tuple | K_location_filter
  | K_range_filter | K_fill | K_namespace

definition D18_PARAM_KINDS :: "param_kind dict" where
  "D18_PARAM_KINDS =
    [(0x02, K_varint), (0x03, K_bytes), (0x04, K_varint), (0x06, K_varint), (0x08, K_varint),
     (0x09, K_location), (0x0A, K_varint), (0x10, K_uint8), (0x20, K_uint8), (0x21, K_bytes),
     (0x22, K_uint8), (0x32, K_varint), (0x34, K_tuple)]"

definition D18_PARAM_SCOPE :: "(string \<times> int list) list" where
  "D18_PARAM_SCOPE =
    [(''Subscribe'', [0x02, 0x03, 0x04, 0x06, 0x10, 0x20, 0x21, 0x22, 0x32]),
     (''Publish'', [0x03, 0x08, 0x09, 0x10]),
     (''Fetch'', [0x03, 0x0A, 0x20, 0x22]),
     (''TrackStatus'', [0x03]),
     (''PublishNamespace'', [0x03]),
     (''SubscribeNamespace'', [0x03]),
     (''SubscribeTracks'', [0x03, 0x10]),
     (''RequestUpdate'', [0x02, 0x03, 0x06, 0x10, 0x20, 0x21, 0x32, 0x34])]"

section \<open>Decimal strings\<close>

definition digit_char :: "nat \<Rightarrow> char" where
  "digit_char d = char_of (48 + d)"

definition char_digit :: "char \<Rightarrow> nat option" where
  "char_digit c = (let k = of_char c :: nat in if 48 \<le> k \<and> k \<le> 57 then Some (k - 48) else None)"

fun show_nat :: "nat \<Rightarrow> string" where
  "show_nat n = (if n < 10 then [digit_char n] else show_nat (n div 10) @ [digit_char (n mod 10)])"

declare show_nat.simps [simp del]

text \<open>The digits of \<^verbatim>\<open>int(s)\<close>: single underscores may separate digits.\<close>

fun py_digits :: "nat \<Rightarrow> bool \<Rightarrow> string \<Rightarrow> nat option" where
  "py_digits acc prev [] = (if prev then Some acc else None)"
| "py_digits acc prev (c # cs) =
     (case char_digit c of
        Some d \<Rightarrow> py_digits (10 * acc + d) True cs
      | None \<Rightarrow> if c = CHR ''_'' \<and> prev then py_digits acc False cs else None)"

definition int_space :: "char \<Rightarrow> bool" where
  "int_space c = (let k = of_char c :: nat in k = 32 \<or> (9 \<le> k \<and> k \<le> 13))"

definition str_space :: "char \<Rightarrow> bool" where
  "str_space c = (int_space c \<or> (let k = of_char c :: nat in 28 \<le> k \<and> k \<le> 31))"

definition strip_by :: "(char \<Rightarrow> bool) \<Rightarrow> string \<Rightarrow> string" where
  "strip_by sp s = rev (dropWhile sp (rev (dropWhile sp s)))"

definition py_int :: "string \<Rightarrow> int option" where
  "py_int s =
    (case strip_by int_space s of
       [] \<Rightarrow> None
     | c # cs \<Rightarrow>
         if c = CHR ''-'' then map_option (\<lambda>n. - int n) (py_digits 0 False cs)
         else if c = CHR ''+'' then map_option int (py_digits 0 False cs)
         else map_option int (py_digits 0 False (c # cs)))"

section \<open>Versions and ALPN\<close>

unbundle bit_operations_syntax

definition get_major_version :: "int \<Rightarrow> int" where
  "get_major_version version = (if version < 0x100 then version else version AND 0x0000ffff)"

definition is_draft16_or_later :: "int \<Rightarrow> bool" where
  "is_draft16_or_later version = (get_major_version version \<ge> 16)"

definition moqt_alpn_for_version :: "int \<Rightarrow> string" where
  "moqt_alpn_for_version version =
    (let major = get_major_version version
     in if major \<le> 14 then ''moq-00'' else ''moqt-'' @ show_nat (nat major))"

definition moqt_version_from_alpn :: "string \<Rightarrow> int result" where
  "moqt_version_from_alpn alpn =
    (if alpn = ''moq-00'' then Inr MOQT_VERSION_DRAFT14
     else if take 5 alpn = ''moqt-'' then
       (case py_int (drop 5 alpn) of None \<Rightarrow> Inl ValueError | Some n \<Rightarrow> Inr (0xff000000 + n))
     else Inl ValueError)"

definition moqt_version_from_draft :: "int \<Rightarrow> int result" where
  "moqt_version_from_draft draft =
    (if draft < 0 \<or> draft > 0xff then Inl ValueError
     else if draft \<notin> set (enum_values MOQTDraft) then Inl ValueError
     else Inr (0xff000000 OR (draft AND 0xff)))"

section \<open>Draft arguments\<close>

text \<open>The value of \<^verbatim>\<open>--draft\<close>: one pinned draft, or an ordered offer.\<close>

datatype draft_spec = Pin int | Offer "int list"

fun split_on :: "char \<Rightarrow> string \<Rightarrow> string list" where
  "split_on sep [] = [[]]"
| "split_on sep (c # cs) =
     (if c = sep then [] # split_on sep cs
      else (case split_on sep cs of [] \<Rightarrow> [[c]] | t # ts \<Rightarrow> (c # t) # ts))"

definition lower :: "char \<Rightarrow> char" where
  "lower c = (let k = of_char c :: nat in if 65 \<le> k \<and> k \<le> 90 then char_of (k + 32) else c)"

definition digits_1_3 :: "string \<Rightarrow> int option" where
  "digits_1_3 t =
    (if 1 \<le> length t \<and> length t \<le> 3 \<and> list_all (\<lambda>c. char_digit c \<noteq> None) t
     then map_option int (py_digits 0 False t) else None)"

definition drop_sep :: "string \<Rightarrow> string" where
  "drop_sep t = (case t of c # cs \<Rightarrow> if c = CHR ''-'' \<or> c = CHR ''_'' then cs else t | [] \<Rightarrow> [])"

text \<open>
  \<^verbatim>\<open>_DRAFT_TOKEN\<close>: an optional prefix (draft, moqt or d, any case) with an optional
  separator, then one to three digits. At most one alternative leaves only digits.
\<close>

definition draft_token :: "string \<Rightarrow> int option" where
  "draft_token t =
    (let l = map lower t;
         after = (\<lambda>p. if take (length p) l = p then digits_1_3 (drop_sep (drop (length p) l)) else None)
     in case digits_1_3 l of Some n \<Rightarrow> Some n | None \<Rightarrow>
       (case after ''draft'' of Some n \<Rightarrow> Some n | None \<Rightarrow>
         (case after ''moqt'' of Some n \<Rightarrow> Some n | None \<Rightarrow> after ''d'')))"

fun draft_tokens :: "string list \<Rightarrow> int list result" where
  "draft_tokens [] = Inr []"
| "draft_tokens (tok # toks) =
     (let token = strip_by str_space tok
      in if token = [] then draft_tokens toks
         else (case draft_token token of
                 None \<Rightarrow> Inl ValueError
               | Some n \<Rightarrow> bindR (draft_tokens toks) (\<lambda>ns. Inr (n # ns))))"

definition parse_draft_spec :: "string \<Rightarrow> draft_spec result" where
  "parse_draft_spec s =
    bindR (draft_tokens (split_on CHR '','' s)) (\<lambda>parts.
      case parts of [] \<Rightarrow> Inl ValueError | [n] \<Rightarrow> Inr (Pin n) | _ \<Rightarrow> Inr (Offer parts))"

text \<open>The \<^verbatim>\<open>supported_drafts\<close> argument: None, one draft, or a list of drafts.\<close>

datatype drafts_arg = DraftsAuto | DraftsOne int | DraftsList "int list"

fun normalize_loop :: "int list \<Rightarrow> int list \<Rightarrow> int list result" where
  "normalize_loop drafts [] = Inr drafts"
| "normalize_loop drafts (d # ds) =
     bindR (moqt_version_from_draft d) (\<lambda>_.
       normalize_loop (if d \<in> set drafts then drafts else drafts @ [d]) ds)"

definition normalize_supported_drafts :: "drafts_arg \<Rightarrow> int list result" where
  "normalize_supported_drafts arg =
    (case arg of
       DraftsAuto \<Rightarrow> Inr MOQT_DEFAULT_DRAFTS
     | DraftsOne d \<Rightarrow> bindR (normalize_loop [] [d]) (\<lambda>ds. if ds = [] then Inl ValueError else Inr ds)
     | DraftsList l \<Rightarrow> bindR (normalize_loop [] l) (\<lambda>ds. if ds = [] then Inl ValueError else Inr ds))"

section \<open>Transport stream scheduling\<close>

definition STREAM_BAND_CONTROL :: int where "STREAM_BAND_CONTROL = 8"
definition STREAM_BAND_DATA_FLOOR :: int where "STREAM_BAND_DATA_FLOOR = 10"
definition STREAM_BAND_PADDING :: int where "STREAM_BAND_PADDING = 255"

definition to_stream_priority :: "int \<Rightarrow> string \<Rightarrow> int result" where
  "to_stream_priority moqt_priority discipline =
    (if discipline \<notin> {''round_robin'', ''fifo''} then Inl ValueError
     else if \<not> (0 \<le> moqt_priority \<and> moqt_priority \<le> 255) then Inl ValueError
     else Inr (max STREAM_BAND_DATA_FLOOR (moqt_priority AND 0xFE)
               OR (if discipline = ''fifo'' then 1 else 0)))"

section \<open>Decimal strings round trip\<close>

lemma char_digit_digit_char [simp]: "d < 10 \<Longrightarrow> char_digit (digit_char d) = Some d"
  by (simp add: char_digit_def digit_char_def Let_def)

lemma int_space_digit_char [simp]: "d < 10 \<Longrightarrow> \<not> int_space (digit_char d)"
  by (simp add: int_space_def digit_char_def Let_def)

lemma digit_char_neq [simp]:
  "d < 10 \<Longrightarrow> digit_char d \<noteq> CHR ''-''" "d < 10 \<Longrightarrow> digit_char d \<noteq> CHR ''+''"
  by (auto dest!: arg_cong [where f = "of_char :: char \<Rightarrow> nat"] simp: digit_char_def)

lemma py_digits_show_nat:
  "py_digits acc p (show_nat n @ cs) = py_digits (acc * 10 ^ length (show_nat n) + n) True cs"
proof (induction n arbitrary: acc p cs rule: show_nat.induct)
  case (1 n)
  show ?case
  proof (cases "n < 10")
    case True
    then show ?thesis by (simp add: show_nat.simps [of n] mult.commute)
  next
    case False
    then show ?thesis
      using "1.IH" [OF False, of acc p "digit_char (n mod 10) # cs"]
      by (simp add: show_nat.simps [of n] algebra_simps)
  qed
qed

lemma set_show_nat: "c \<in> set (show_nat n) \<Longrightarrow> \<exists>d<10. c = digit_char d"
proof (induction n rule: show_nat.induct)
  case (1 n)
  show ?case
  proof (cases "n < 10")
    case True
    with "1.prems" show ?thesis by (auto simp: show_nat.simps [of n])
  next
    case False
    with "1.prems" have "c \<in> set (show_nat (n div 10)) \<or> c = digit_char (n mod 10)"
      by (simp add: show_nat.simps [of n] disj_commute)
    with "1.IH" [OF False] show ?thesis
      by (auto intro: exI [of _ "n mod 10"])
  qed
qed

lemma show_nat_neq_Nil [simp]: "show_nat n \<noteq> []"
  by (subst show_nat.simps) simp

lemma strip_by_none: "\<forall>c \<in> set s. \<not> sp c \<Longrightarrow> strip_by sp s = s"
proof -
  assume no: "\<forall>c \<in> set s. \<not> sp c"
  have id: "dropWhile sp t = t" if "set t \<subseteq> set s" for t
    using that no by (cases t) auto
  show "strip_by sp s = s"
    using id [of s] id [of "rev s"] by (simp add: strip_by_def)
qed

lemma strip_show_nat: "strip_by int_space (show_nat n) = show_nat n"
  by (rule strip_by_none) (auto dest: set_show_nat)

lemma py_int_show_nat: "py_int (show_nat n) = Some (int n)"
proof -
  have digs: "py_digits 0 False (show_nat n) = Some n"
    using py_digits_show_nat [of 0 False n "[]"] by simp
  obtain c cs where c: "show_nat n = c # cs"
    by (cases "show_nat n") auto
  then obtain d where "d < 10" "c = digit_char d"
    using set_show_nat [of c n] by auto
  then have "c \<noteq> CHR ''-''" "c \<noteq> CHR ''+''"
    by simp_all
  moreover have "strip_by int_space (c # cs) = c # cs"
    using strip_show_nat [of n] c by simp
  ultimately show ?thesis
    using digs by (simp add: py_int_def c)
qed

section \<open>Versions and ALPN\<close>

lemma supported_draft_cases:
  "moqt_version_from_draft d = Inr v \<longleftrightarrow>
     (d, v) \<in> {(14, 0xff00000e), (16, 0xff000010), (18, 0xff000012),
              (20, 0xff000014), (22, 0xff000016)}"
  by (auto simp: moqt_version_from_draft_def enum_values_def MOQTDraft_def split: if_splits)

lemma get_major_version_code:
  assumes "0 \<le> d" "d < 65536"
  shows "get_major_version (0xff000000 + d) = d"
proof -
  have "(0xff000000 + d) AND 0x0000ffff = (0xff000000 + d) mod 2 ^ 16"
    using take_bit_eq_mask [of 16 "0xff000000 + d"] by (simp add: take_bit_eq_mod mask_eq_exp_minus_1)
  moreover have "(0xff000000 + d) mod 2 ^ 16 = (d + 65280 * 2 ^ 16) mod 2 ^ 16"
    by (simp add: add.commute)
  moreover have "(d + 65280 * 2 ^ 16) mod 2 ^ 16 = d"
    using assms mod_mult_self1 [of d 65280 "2 ^ 16"] by simp
  ultimately show ?thesis
    using assms by (simp add: get_major_version_def)
qed

text \<open>
  the ALPN string of a version code names that version: every draft number above 14 that fits the
  16-bit field comes back as the same version code, and so does every draft the library speaks
  (draft-14 through the legacy string moq-00).
\<close>

theorem alpn_roundtrip:
  "(14 < d \<and> d < 65536 \<longrightarrow>
      moqt_version_from_alpn (moqt_alpn_for_version (0xff000000 + d)) = Inr (0xff000000 + d)) \<and>
   (moqt_version_from_draft s = Inr v \<longrightarrow>
      get_major_version v = s \<and> moqt_version_from_alpn (moqt_alpn_for_version v) = Inr v)"
proof -
  have code: "moqt_version_from_alpn (moqt_alpn_for_version (0xff000000 + d)) = Inr (0xff000000 + d)"
    if "14 < d" "d < 65536" for d
  proof -
    have "moqt_alpn_for_version (0xff000000 + d) = ''moqt-'' @ show_nat (nat d)"
      using that get_major_version_code [of d] by (simp add: moqt_alpn_for_version_def)
    then show ?thesis
      using that py_int_show_nat [of "nat d"] by (simp add: moqt_version_from_alpn_def)
  qed
  have legacy: "moqt_version_from_alpn (moqt_alpn_for_version (0xff000000 + 14)) = Inr (0xff000000 + 14)"
    using get_major_version_code [of 14]
    by (simp add: moqt_alpn_for_version_def moqt_version_from_alpn_def MOQT_VERSION_DRAFT14_def)
  have "get_major_version v = s \<and> moqt_version_from_alpn (moqt_alpn_for_version v) = Inr v"
    if "moqt_version_from_draft s = Inr v"
  proof -
    from that have v: "v = 0xff000000 + s" and s: "s = 14 \<or> 14 < s" "s < 65536"
      by (auto simp: supported_draft_cases)
    then show ?thesis
      using get_major_version_code [of s] code [of s] legacy by auto
  qed
  with code show ?thesis by blast
qed

theorem alpn_roundtrip_witness:
  "moqt_version_from_alpn (moqt_alpn_for_version (0xff000000 + 18)) = Inr (0xff000000 + 18) \<and>
   moqt_version_from_draft 14 = Inr 0xff00000e \<and>
   moqt_version_from_alpn (moqt_alpn_for_version 0xff00000e) = Inr 0xff00000e"
  using alpn_roundtrip [of 18 14 "0xff00000e"] by (simp add: supported_draft_cases)

section \<open>Draft arguments\<close>

lemma normalize_loop_spec:
  assumes "normalize_loop acc ds = Inr out" and "distinct acc"
  shows "distinct out \<and> set out = set acc \<union> set ds
         \<and> (\<exists>ys. out = acc @ ys \<and> subseq ys ds)
         \<and> (\<forall>d \<in> set ds. \<exists>v. moqt_version_from_draft d = Inr v)"
  using assms
proof (induction ds arbitrary: acc)
  case Nil
  then show ?case by auto
next
  case (Cons d ds)
  let ?acc = "if d \<in> set acc then acc else acc @ [d]"
  from Cons.prems(1) obtain v where v: "moqt_version_from_draft d = Inr v"
    and rest: "normalize_loop ?acc ds = Inr out"
    by (auto simp: bindR_eq_Inr)
  from Cons.prems(2) have "distinct ?acc" by simp
  from Cons.IH [OF rest this] v Cons.prems(2) show ?case
    by (cases "d \<in> set acc") auto
qed

text \<open>
  the offer a client or server works with is never empty, holds only drafts the library speaks,
  repeats none, and keeps the caller's order: it is a subsequence of the caller's list with the
  same members.
\<close>

theorem normalize_supported_drafts_offer:
  assumes "normalize_supported_drafts (DraftsList ds) = Inr out"
  shows "out \<noteq> [] \<and> distinct out \<and> set out = set ds \<and> subseq out ds
         \<and> (\<forall>d \<in> set out. d \<in> set (enum_values MOQTDraft))"
proof -
  from assms have l: "normalize_loop [] ds = Inr out" and ne: "out \<noteq> []"
    by (auto simp: normalize_supported_drafts_def bindR_eq_Inr split: if_splits)
  from normalize_loop_spec [OF l] ne show ?thesis
    by (fastforce simp: moqt_version_from_draft_def split: if_splits)
qed

theorem normalize_supported_drafts_offer_witness:
  "normalize_supported_drafts (DraftsList [16, 22, 16]) = Inr [16, 22] \<and>
   distinct [16, 22 :: int] \<and> subseq [16, 22 :: int] [16, 22, 16]"
proof -
  have "normalize_supported_drafts (DraftsList [16, 22, 16]) = Inr [16, 22]"
    by (simp add: normalize_supported_drafts_def moqt_version_from_draft_def enum_values_def
        MOQTDraft_def)
  then show ?thesis
    using normalize_supported_drafts_offer [of "[16, 22, 16]" "[16, 22]"] by blast
qed

section \<open>Transport stream scheduling\<close>

lemma and_0xFE:
  assumes "0 \<le> p" "p \<le> 255"
  shows "p AND 0xFE = 2 * (p div (2 :: int))"
proof -
  have "\<forall>q \<in> set [0..255]. q AND 0xFE = 2 * (q div (2 :: int))"
    by code_simp
  with assms show ?thesis by simp
qed

lemma to_stream_priority_eq:
  "to_stream_priority p disc = Inr b \<longleftrightarrow>
     0 \<le> p \<and> p \<le> 255 \<and> (disc = ''round_robin'' \<and> b = max 10 (2 * (p div 2))
       \<or> disc = ''fifo'' \<and> b = max 10 (2 * (p div 2)) + 1)"
proof -
  have "even (max 10 (2 * (p div 2)))"
    by (simp add: max_def)
  then show ?thesis
    by (auto simp: to_stream_priority_def STREAM_BAND_DATA_FLOOR_def and_0xFE or_one_eq)
qed

text \<open>
  a declared data priority never reaches the control band or above it: the band is between 10
  and 255, so below the control band 8 in urgency; its low bit is the discipline alone, a more
  urgent priority never gets a less urgent band under the same discipline, and only out-of-range
  priorities or unknown disciplines are refused.
\<close>

theorem to_stream_priority_band:
  assumes "to_stream_priority p disc = Inr b" and "to_stream_priority q disc = Inr c"
  shows "STREAM_BAND_CONTROL < b \<and> STREAM_BAND_DATA_FLOOR \<le> b \<and> b \<le> 255
         \<and> (odd b \<longleftrightarrow> disc = ''fifo'') \<and> (p \<le> q \<longrightarrow> b \<le> c)"
proof -
  let ?e = "\<lambda>p :: int. max 10 (2 * (p div 2))"
  have mono: "p \<le> q \<Longrightarrow> ?e p \<le> ?e q"
    by (simp add: zdiv_mono1 max.coboundedI2)
  have ev: "even (?e p)" and lo: "10 \<le> ?e p"
    by (simp_all add: max_def)
  have hi: "p \<le> 255 \<Longrightarrow> ?e p \<le> 254"
    by auto
  from assms consider "disc = ''round_robin''" "b = ?e p" "c = ?e q" "p \<le> 255"
    | "disc = ''fifo''" "b = ?e p + 1" "c = ?e q + 1" "p \<le> 255"
    by (auto simp: to_stream_priority_eq)
  then show ?thesis
    using mono ev lo hi
    by cases (auto simp: STREAM_BAND_CONTROL_def STREAM_BAND_DATA_FLOOR_def)
qed

theorem to_stream_priority_band_witness:
  "to_stream_priority 128 ''round_robin'' = Inr 128 \<and> to_stream_priority 3 ''round_robin'' = Inr 10
   \<and> STREAM_BAND_CONTROL < 10"
proof -
  have a: "to_stream_priority 3 ''round_robin'' = Inr 10"
    and b: "to_stream_priority 128 ''round_robin'' = Inr 128"
    by (simp_all add: to_stream_priority_eq)
  then show ?thesis using to_stream_priority_band [OF a b] by simp
qed

text \<open>
  under the fifo discipline the two least urgent data priorities, 254 and 255, are mapped onto the
  band reserved for PADDING streams, and they are the only ones; under round_robin none is.
\<close>

theorem fifo_data_reaches_padding_band:
  "to_stream_priority p disc = Inr STREAM_BAND_PADDING \<longleftrightarrow> disc = ''fifo'' \<and> p \<in> {254, 255}"
proof -
  have "max 10 (2 * (p div 2)) + 1 = 255 \<longleftrightarrow> p = 254 \<or> p = 255" if "p \<le> 255" for p :: int
    using that by (simp add: max_def) presburger
  moreover have "max 10 (2 * (p div 2)) \<noteq> 255" for p :: int
    by (simp add: max_def) presburger
  ultimately show ?thesis
    by (auto simp: to_stream_priority_eq STREAM_BAND_PADDING_def)
qed

section \<open>Control message tables\<close>

text \<open>
  for each draft with a table, the renumbering sends the canonical code points the draft uses to
  code points its table defines: SUBSCRIBE_NAMESPACE and PUBLISH_OK stay legal at every draft under
  their wire number, and a code point the draft does not renumber keeps its number.
\<close>

theorem wire_control_type_legal:
  assumes "dict_get CONTROL_MESSAGE_TYPES d = Some legal"
  shows "(\<exists>t. wire_control_type d 0x11 = Inr t \<and> t \<in> set legal)
       \<and> (\<exists>t. wire_control_type d 0x1E = Inr t \<and> t \<in> set legal)
       \<and> (ty \<notin> {0x11, 0x1E} \<longrightarrow> wire_control_type d ty = Inr ty)"
  using assms
  by (auto simp: CONTROL_MESSAGE_TYPES_def dict_get_def wire_control_type_def
      WIRE_TYPE_BY_DRAFT_def D18_RENUMBERED_def D20_CONTROL_TYPES_def split: if_splits)

theorem wire_control_type_legal_witness:
  "dict_get CONTROL_MESSAGE_TYPES 20 = Some D20_CONTROL_TYPES \<and>
   wire_control_type 20 0x03 = Inr 0x03 \<and> (\<exists>t. wire_control_type 20 0x11 = Inr t)"
proof -
  have h: "dict_get CONTROL_MESSAGE_TYPES 20 = Some D20_CONTROL_TYPES"
    by (simp add: CONTROL_MESSAGE_TYPES_def dict_get_def)
  show ?thesis using h wire_control_type_legal [OF h, of "0x03"] by auto
qed

end
