(* ===== verification/Draft_Context.thy ===== *)
theory Draft_Context
  imports Moqt_Types
begin

text \<open>
  \<^verbatim>\<open>aiomoqt/context.py\<close>: the per-draft capability row (\<open>DraftProfile\<close>), the table of
  profiles, and the translation of request error and stream reset codes between their names and
  each draft's wire values.
\<close>

section \<open>Profiles\<close>

record DraftProfile =
  draft :: int
  setup_carries_versions :: bool
  params_delta_coded :: bool
  varint :: string
  control_uni_pair :: bool
  reply_has_request_id :: bool
  uint8_params :: "int list"
  location_params :: "int list"
  two_level_discovery :: bool
  merged_datagram_layout :: bool
  subgroup_type_mask :: int
  object_statuses :: "int list"
  param_table :: int
  location_filter_typed :: bool
  relay_forwards_publish_namespace :: bool
  publish_ok_expires_only :: bool
  publish_done_subscription_ended :: bool
  goaway_request_id :: bool
  fetch_location_filter :: bool
  fetch_timed_out_range :: bool
  fetch_object_status :: bool
  error_table :: int
  padding :: bool
  namespace_scoped :: "string list"
  zero_delivery_timeout_closes :: bool
  track_properties :: bool
  reserved_period_namespaces :: bool
  request_fin_cancels_discovery :: bool
  truncated_request_closes :: bool
  update_has_location :: bool

text \<open>The dataclass defaults; the columns without one are filled in by every row below.\<close>

definition profile_defaults :: DraftProfile where
  "profile_defaults = \<lparr>
     draft = 0, setup_carries_versions = False, params_delta_coded = False, varint = ''rfc9000'',
     control_uni_pair = False, reply_has_request_id = False, uint8_params = [],
     location_params = [], two_level_discovery = False, merged_datagram_layout = False,
     subgroup_type_mask = 0x0F, object_statuses = [0x0, 0x3, 0x4], param_table = 18,
     location_filter_typed = False, relay_forwards_publish_namespace = True,
     publish_ok_expires_only = False, publish_done_subscription_ended = True,
     goaway_request_id = True, fetch_location_filter = False, fetch_timed_out_range = False,
     fetch_object_status = False, error_table = 18, padding = True,
     namespace_scoped = [''SubscribeNamespace'', ''PublishNamespace''],
     zero_delivery_timeout_closes = False, track_properties = True,
     reserved_period_namespaces = False, request_fin_cancels_discovery = True,
     truncated_request_closes = False, update_has_location = False\<rparr>"

definition vi64 :: "DraftProfile \<Rightarrow> bool" where
  "vi64 prof = (varint prof = ''vi64'')"

definition PROFILE_D14 :: DraftProfile where
  "PROFILE_D14 = profile_defaults\<lparr>
     draft := 14, setup_carries_versions := True, params_delta_coded := False,
     varint := ''rfc9000'', control_uni_pair := False, reply_has_request_id := True,
     uint8_params := [], object_statuses := [0x0, 0x1, 0x3, 0x4], error_table := 14,
     padding := False, update_has_location := True, track_properties := False,
     fetch_object_status := True\<rparr>"

definition PROFILE_D16 :: DraftProfile where
  "PROFILE_D16 = profile_defaults\<lparr>
     draft := 16, setup_carries_versions := False, params_delta_coded := True,
     varint := ''rfc9000'', control_uni_pair := False, reply_has_request_id := True,
     uint8_params := [], merged_datagram_layout := True, subgroup_type_mask := 0x2F,
     error_table := 16, padding := False, zero_delivery_timeout_closes := True\<rparr>"

definition PROFILE_D18 :: DraftProfile where
  "PROFILE_D18 = profile_defaults\<lparr>
     draft := 18, setup_carries_versions := False, params_delta_coded := True,
     varint := ''vi64'', control_uni_pair := True, reply_has_request_id := False,
     uint8_params := [0x10, 0x20, 0x22], location_params := [0x09],
     two_level_discovery := True, merged_datagram_layout := True, subgroup_type_mask := 0x6F,
     reserved_period_namespaces := True\<rparr>"

definition PROFILE_D20 :: DraftProfile where
  "PROFILE_D20 = PROFILE_D18\<lparr>
     draft := 20, param_table := 20, error_table := 20,
     namespace_scoped := [''SubscribeNamespace'', ''PublishNamespace'', ''SubscribeTracks''],
     publish_ok_expires_only := True, publish_done_subscription_ended := False,
     goaway_request_id := False, fetch_location_filter := True, fetch_timed_out_range := True,
     truncated_request_closes := True, request_fin_cancels_discovery := False\<rparr>"

definition PROFILE_D22 :: DraftProfile where
  "PROFILE_D22 = PROFILE_D20\<lparr>
     draft := 22, param_table := 22, location_filter_typed := True,
     relay_forwards_publish_namespace := False\<rparr>"

definition PROFILES :: "DraftProfile dict" where
  "PROFILES = [(14, PROFILE_D14), (16, PROFILE_D16), (18, PROFILE_D18),
               (20, PROFILE_D20), (22, PROFILE_D22)]"

definition profile_for :: "int \<Rightarrow> DraftProfile result" where
  "profile_for d = of_option ValueError (dict_get PROFILES (get_major_version d))"

section \<open>Error codes\<close>

text \<open>
  A code argument is a plain integer or a member of some \<open>IntEnum\<close> (its class, its name and
  its value). Tables keep the order of the source's dictionaries; keys are member names of
  \<open>RequestErrorCode\<close> or \<open>StreamResetCode\<close>.
\<close>

datatype enum_class = RequestErrorClass | StreamResetClass | OtherEnum

datatype code = PlainCode int | NamedCode enum_class string int

fun code_int :: "code \<Rightarrow> int" where
  "code_int (PlainCode n) = n"
| "code_int (NamedCode c name n) = n"

definition D14_SUBSCRIBE_ERRORS :: "(string \<times> int) list" where
  "D14_SUBSCRIBE_ERRORS =
    [(''INTERNAL_ERROR'', 0x0), (''UNAUTHORIZED'', 0x1), (''TIMEOUT'', 0x2),
     (''NOT_SUPPORTED'', 0x3), (''DOES_NOT_EXIST'', 0x4), (''INVALID_RANGE'', 0x5),
     (''MALFORMED_AUTH_TOKEN'', 0x10), (''EXPIRED_AUTH_TOKEN'', 0x12)]"

definition D14_FETCH_ERRORS :: "(string \<times> int) list" where
  "D14_FETCH_ERRORS = D14_SUBSCRIBE_ERRORS @
    [(''INVALID_JOINING_REQUEST_ID'', 0x7), (''MALFORMED_TRACK'', 0x9)]"

definition by_own_value :: "int_enum \<Rightarrow> string list \<Rightarrow> (string \<times> int) list" where
  "by_own_value E names = map (\<lambda>n. (n, the (enum_name E n))) names"

definition D16_ERRORS :: "(string \<times> int) list" where
  "D16_ERRORS = by_own_value RequestErrorCode
    [''INTERNAL_ERROR'', ''UNAUTHORIZED'', ''TIMEOUT'', ''NOT_SUPPORTED'',
     ''MALFORMED_AUTH_TOKEN'', ''EXPIRED_AUTH_TOKEN'', ''DOES_NOT_EXIST'',
     ''INVALID_RANGE'', ''MALFORMED_TRACK'', ''DUPLICATE_SUBSCRIPTION'',
     ''UNINTERESTED'', ''PREFIX_OVERLAP'', ''INVALID_JOINING_REQUEST_ID'']"

definition D18_ERRORS :: "(string \<times> int) list" where
  "D18_ERRORS = D16_ERRORS @ by_own_value RequestErrorCode
    [''GOING_AWAY'', ''EXCESSIVE_LOAD'', ''NAMESPACE_TOO_LARGE'', ''UNSUPPORTED_EXTENSION'',
     ''REDIRECT'']"

definition D20_ERRORS :: "(string \<times> int) list" where
  "D20_ERRORS =
    filter (\<lambda>(n, _). n \<notin> {''DUPLICATE_SUBSCRIPTION'', ''INVALID_JOINING_REQUEST_ID''}) D18_ERRORS
    @ [(''CONFLICTING_FILTERS'', 0x35), (''INVALID_FILTER'', 0x36)]"

definition REQUEST_ERRORS :: "((int \<times> bool) \<times> (string \<times> int) list) list" where
  "REQUEST_ERRORS =
    [((14, False), D14_SUBSCRIBE_ERRORS), ((14, True), D14_FETCH_ERRORS),
     ((16, False), D16_ERRORS), ((16, True), D16_ERRORS),
     ((18, False), D18_ERRORS), ((18, True), D18_ERRORS),
     ((20, False), D20_ERRORS), ((20, True), D20_ERRORS)]"

definition ERROR_ALIASES :: "(string \<times> string) list" where
  "ERROR_ALIASES = [(''TRACK_DOES_NOT_EXIST'', ''DOES_NOT_EXIST'')]"

definition D14_RESETS :: "(string \<times> int) list" where
  "D14_RESETS = by_own_value StreamResetCode
    [''INTERNAL_ERROR'', ''CANCELLED'', ''DELIVERY_TIMEOUT'', ''SESSION_CLOSED'']"

definition STREAM_RESETS :: "(string \<times> int) list dict" where
  "STREAM_RESETS =
    [(14, D14_RESETS),
     (16, D14_RESETS @ [(''UNKNOWN_OBJECT_STATUS'', 0x4), (''MALFORMED_TRACK'', 0x12)]),
     (18, StreamResetCode),
     (20, StreamResetCode)]"

definition request_error_code :: "code \<Rightarrow> DraftProfile \<Rightarrow> bool \<Rightarrow> int result" where
  "request_error_code code prof fetch =
    (case code of
       PlainCode n \<Rightarrow> Inr n
     | NamedCode c name0 n \<Rightarrow>
         (let name = (case map_of ERROR_ALIASES name0 of None \<Rightarrow> name0 | Some a \<Rightarrow> a)
          in case enum_name RequestErrorCode name of
               None \<Rightarrow> Inr n
             | Some _ \<Rightarrow>
                 (case map_of REQUEST_ERRORS (error_table prof, fetch) of
                    None \<Rightarrow> Inl KeyError
                  | Some table \<Rightarrow> Inr (case map_of table name of None \<Rightarrow> 0 | Some w \<Rightarrow> w))))"

fun first_with_value :: "(string \<times> int) list \<Rightarrow> int \<Rightarrow> string option" where
  "first_with_value [] w = None"
| "first_with_value ((n, v) # t) w = (if v = w then Some n else first_with_value t w)"

definition canonical_request_error :: "int \<Rightarrow> DraftProfile \<Rightarrow> bool \<Rightarrow> code result" where
  "canonical_request_error wire prof fetch =
    (case map_of REQUEST_ERRORS (error_table prof, fetch) of
       None \<Rightarrow> Inl KeyError
     | Some table \<Rightarrow>
         Inr (case first_with_value table wire of
                Some n \<Rightarrow> NamedCode RequestErrorClass n (the (enum_name RequestErrorCode n))
              | None \<Rightarrow> PlainCode wire))"

definition stream_reset_code :: "code \<Rightarrow> DraftProfile \<Rightarrow> int result" where
  "stream_reset_code code prof =
    (case code of
       NamedCode StreamResetClass name n \<Rightarrow>
         (case dict_get STREAM_RESETS (error_table prof) of
            None \<Rightarrow> Inl KeyError
          | Some table \<Rightarrow> Inr (case map_of table name of None \<Rightarrow> 0 | Some w \<Rightarrow> w))
     | _ \<Rightarrow> Inr (code_int code))"

definition canonical_stream_reset :: "int \<Rightarrow> DraftProfile \<Rightarrow> code result" where
  "canonical_stream_reset wire prof =
    (case dict_get STREAM_RESETS (error_table prof) of
       None \<Rightarrow> Inl KeyError
     | Some table \<Rightarrow>
         Inr (case first_with_value table wire of
                Some n \<Rightarrow> NamedCode StreamResetClass n (the (enum_name StreamResetCode n))
              | None \<Rightarrow> PlainCode wire))"

section \<open>Profiles: lookup and shape\<close>

lemmas profile_defs =
  PROFILE_D14_def PROFILE_D16_def PROFILE_D18_def PROFILE_D20_def PROFILE_D22_def
  profile_defaults_def

lemma profile_for_cases:
  assumes "profile_for d = Inr prof"
  obtains "prof = PROFILE_D14" | "prof = PROFILE_D16" | "prof = PROFILE_D18"
    | "prof = PROFILE_D20" | "prof = PROFILE_D22"
  using assms
  by (auto simp: profile_for_def of_option_eq_Inr dict_get_def PROFILES_def split: if_splits)

text \<open>
  What the codec theories use of a profile: the vi64 integer codec, delta-coded keys and the
  reply form go with the draft number.
\<close>

definition profile_shape :: "DraftProfile \<Rightarrow> bool" where
  "profile_shape prof \<longleftrightarrow>
     draft prof \<in> {14, 16, 18, 20, 22}
   \<and> (vi64 prof \<longleftrightarrow> draft prof \<ge> 18)
   \<and> (params_delta_coded prof \<longleftrightarrow> draft prof \<ge> 16)
   \<and> (reply_has_request_id prof \<longleftrightarrow> draft prof < 18)
   \<and> (control_uni_pair prof \<longleftrightarrow> draft prof \<ge> 18)
   \<and> (setup_carries_versions prof \<longleftrightarrow> draft prof = 14)
   \<and> (fetch_location_filter prof \<longleftrightarrow> draft prof \<ge> 20)
   \<and> (publish_ok_expires_only prof \<longleftrightarrow> draft prof \<ge> 20)
   \<and> (param_table prof = (if draft prof \<ge> 20 then draft prof else 18))"

text \<open>
  every draft the library speaks has a profile, found by its draft number and by its version
  code alike, carrying that draft number; and in every profile the integer codec, the key coding,
  the reply form, the control stream layout and the parameter table agree with the draft number.
\<close>

theorem profile_for_supported:
  assumes "moqt_version_from_draft d = Inr v"
  shows "\<exists>prof. profile_for d = Inr prof \<and> profile_for v = Inr prof \<and> draft prof = d
                \<and> profile_shape prof"
proof -
  have "get_major_version v = d" and "get_major_version d = d"
    using assms get_major_version_code [of d]
    by (auto simp: supported_draft_cases get_major_version_def [of d])
  then show ?thesis
    using assms
    by (auto simp: supported_draft_cases profile_for_def dict_get_def PROFILES_def profile_shape_def
        vi64_def profile_defs)
qed

theorem profile_for_supported_witness:
  "moqt_version_from_draft 20 = Inr 0xff000014 \<and> (\<exists>prof. profile_for 20 = Inr prof \<and> profile_shape prof)"
proof -
  have h: "moqt_version_from_draft 20 = Inr 0xff000014" by (simp add: supported_draft_cases)
  show ?thesis using h profile_for_supported [OF h] by blast
qed

section \<open>Error codes: round trips\<close>

lemma first_with_value_map_of:
  "distinct (map snd t) \<Longrightarrow> map_of t n = Some w \<Longrightarrow> first_with_value t w = Some n"
proof (induction t)
  case (Cons p t)
  have "w \<in> snd ` set t" if "map_of t n = Some w"
    using map_of_SomeD [OF that] by force
  with Cons show ?case by (cases p) (auto split: if_splits)
qed simp

lemma map_of_first_with_value:
  "distinct (map fst t) \<Longrightarrow> first_with_value t w = Some n \<Longrightarrow> map_of t n = Some w"
proof (induction t)
  case (Cons p t)
  have "n \<in> fst ` set t" if "first_with_value t w = Some n"
    using that by (induction t) (auto split: if_splits)
  with Cons show ?case
    by (cases p) (auto split: if_splits)
qed simp

definition table_ok :: "int_enum \<Rightarrow> (string \<times> int) list \<Rightarrow> bool" where
  "table_ok E t \<longleftrightarrow> distinct (map fst t) \<and> distinct (map snd t)
     \<and> list_all (\<lambda>(n, _). enum_name E n \<noteq> None) t"

lemma request_tables_ok:
  "list_all (\<lambda>(_, t). table_ok RequestErrorCode t
      \<and> list_all (\<lambda>(n, _). map_of ERROR_ALIASES n = None) t \<and> map_of t ''INTERNAL_ERROR'' = Some 0)
     REQUEST_ERRORS"
  by code_simp

lemma reset_tables_ok:
  "list_all (\<lambda>(_, t). table_ok StreamResetCode t) STREAM_RESETS"
  by code_simp

lemma profile_error_table:
  assumes "profile_for d = Inr prof"
  shows "\<exists>t. map_of REQUEST_ERRORS (error_table prof, f) = Some t"
    and "\<exists>t. dict_get STREAM_RESETS (error_table prof) = Some t"
  using assms
  by (auto elim!: profile_for_cases simp: profile_defs REQUEST_ERRORS_def STREAM_RESETS_def dict_get_def)

lemma table_ok_name: "table_ok E t \<Longrightarrow> map_of t n = Some w \<Longrightarrow> \<exists>v. enum_name E n = Some v"
  by (auto simp: table_ok_def list_all_iff dest!: map_of_SomeD)

text \<open>
  translating a received request error to its canonical name and sending that name again at the same
  draft puts the same wire value back, for every wire value, known to the draft or not, in both
  the SUBSCRIBE and the FETCH error space.
\<close>

theorem request_error_wire_roundtrip:
  assumes "profile_for d = Inr prof"
  shows "\<exists>c. canonical_request_error w prof fetch = Inr c \<and> request_error_code c prof fetch = Inr w"
proof -
  from profile_error_table(1) [OF assms] obtain t
    where t: "map_of REQUEST_ERRORS (error_table prof, fetch) = Some t" by blast
  then have ok: "table_ok RequestErrorCode t" "list_all (\<lambda>(n, _). map_of ERROR_ALIASES n = None) t"
    using request_tables_ok by (auto simp: list_all_iff dest!: map_of_SomeD)
  show ?thesis
  proof (cases "first_with_value t w")
    case None
    then show ?thesis by (simp add: canonical_request_error_def request_error_code_def t)
  next
    case (Some n)
    then have n: "map_of t n = Some w"
      using ok(1) by (simp add: map_of_first_with_value table_ok_def)
    moreover from n ok(2) have "map_of ERROR_ALIASES n = None"
      by (auto simp: list_all_iff dest!: map_of_SomeD)
    moreover from table_ok_name [OF ok(1) n] obtain v where "enum_name RequestErrorCode n = Some v" ..
    ultimately show ?thesis
      using Some by (simp add: canonical_request_error_def request_error_code_def t)
  qed
qed

theorem request_error_wire_roundtrip_witness:
  "profile_for 14 = Inr PROFILE_D14 \<and>
   (\<exists>c. canonical_request_error 0x9 PROFILE_D14 True = Inr c \<and> request_error_code c PROFILE_D14 True = Inr 0x9)"
proof -
  have h: "profile_for 14 = Inr PROFILE_D14"
    by (simp add: profile_for_def dict_get_def PROFILES_def get_major_version_def)
  show ?thesis using h request_error_wire_roundtrip [OF h] by blast
qed

text \<open>
  a stream reset code survives translation in both directions: every received code is resent
  unchanged, and a named code the draft defines comes back as the same name; one it lacks is sent
  as INTERNAL_ERROR (0).
\<close>

theorem stream_reset_roundtrip:
  assumes "profile_for d = Inr prof" and "dict_get STREAM_RESETS (error_table prof) = Some t"
  shows "(\<exists>c. canonical_stream_reset w prof = Inr c \<and> stream_reset_code c prof = Inr w)
       \<and> stream_reset_code (NamedCode StreamResetClass n v) prof
           = Inr (case map_of t n of None \<Rightarrow> 0 | Some w' \<Rightarrow> w')
       \<and> (map_of t n = Some w' \<longrightarrow>
           (\<exists>v'. canonical_stream_reset w' prof = Inr (NamedCode StreamResetClass n v')))"
proof -
  from assms(2) have ok: "table_ok StreamResetCode t"
    using reset_tables_ok by (auto simp: dict_get_def list_all_iff dest!: map_of_SomeD)
  have "\<exists>c. canonical_stream_reset w prof = Inr c \<and> stream_reset_code c prof = Inr w"
    using ok map_of_first_with_value [of t w]
    by (cases "first_with_value t w")
      (auto simp: canonical_stream_reset_def stream_reset_code_def assms(2) table_ok_def)
  moreover have "map_of t n = Some w' \<Longrightarrow> first_with_value t w' = Some n"
    using ok by (simp add: first_with_value_map_of table_ok_def)
  ultimately show ?thesis
    by (auto simp: canonical_stream_reset_def stream_reset_code_def assms(2))
qed

theorem stream_reset_roundtrip_witness:
  "profile_for 16 = Inr PROFILE_D16 \<and>
   (\<exists>c. canonical_stream_reset 0x4 PROFILE_D16 = Inr c \<and> stream_reset_code c PROFILE_D16 = Inr 0x4)"
proof -
  have h: "profile_for 16 = Inr PROFILE_D16"
    by (simp add: profile_for_def dict_get_def PROFILES_def get_major_version_def)
  moreover have "dict_get STREAM_RESETS (error_table PROFILE_D16)
      = Some (D14_RESETS @ [(''UNKNOWN_OBJECT_STATUS'', 0x4), (''MALFORMED_TRACK'', 0x12)])"
    by (simp add: dict_get_def STREAM_RESETS_def profile_defs)
  ultimately show ?thesis using stream_reset_roundtrip [of 16 PROFILE_D16] by blast
qed

end
