(* ===== verification/Buffer_Model.thy ===== *)
theory Buffer_Model
  imports Draft_Context
begin

text \<open>
  The byte buffers of \<^verbatim>\<open>aiopquic\<close> the message codec is written against. Their integer codecs
  are not part of the repository: they are the parameter \<open>vcodec\<close>, and the locale
  \<open>vcodec_laws\<close> states what the code relies on. \<^verbatim>\<open>push_*\<close> operations are writers,
  \<^verbatim>\<open>pull_*\<close> operations readers over a buffer with a position. \<open>reads\<close> is the contract
  between the two sides: a reader consumes exactly the bytes a writer produced and returns the value.
  The last section interprets the locale on the RFC 9000 and vi64 integer formats.
\<close>

section \<open>The integer codecs and the buffers\<close>

text \<open>
  \<open>enc_*\<close> is what a push appends, None when it raises; \<open>dec_*\<close> is the value read from
  the front of the remaining bytes and how many it takes, None on a short read. \<open>fits c n\<close> says
  that a buffer allocated with capacity \<open>c\<close> accepts \<open>n\<close> bytes.
\<close>

record vcodec =
  enc_var :: "int \<Rightarrow> bytes option"
  dec_var :: "bytes \<Rightarrow> (int \<times> nat) option"
  enc_vi64 :: "int \<Rightarrow> bytes option"
  dec_vi64 :: "bytes \<Rightarrow> (int \<times> nat) option"
  enc_u8 :: "int \<Rightarrow> bytes option"
  dec_u8 :: "bytes \<Rightarrow> (int \<times> nat) option"
  enc_u16 :: "int \<Rightarrow> bytes option"
  dec_u16 :: "bytes \<Rightarrow> (int \<times> nat) option"
  fits :: "nat \<Rightarrow> nat \<Rightarrow> bool"

text \<open>
  A readable buffer: a \<^verbatim>\<open>Buffer\<close> over given bytes, or a \<^verbatim>\<open>StreamChain\<close>
  (\<open>rb_chain\<close>), whose short reads raise a different class.
\<close>

record rbuf =
  rb_data :: bytes
  rb_pos :: nat
  rb_vi64 :: bool
  rb_chain :: bool

type_synonym 'a reader = "rbuf \<Rightarrow> ('a \<times> rbuf) result"

definition new_rbuf :: "bytes \<Rightarrow> bool \<Rightarrow> rbuf" where
  "new_rbuf data vi = \<lparr>rb_data = data, rb_pos = 0, rb_vi64 = vi, rb_chain = False\<rparr>"

definition capacity :: "rbuf \<Rightarrow> nat" where
  "capacity b = length (rb_data b)"

definition rest_of :: "rbuf \<Rightarrow> bytes" where
  "rest_of b = drop (rb_pos b) (rb_data b)"

definition adv :: "rbuf \<Rightarrow> nat \<Rightarrow> rbuf" where
  "adv b n = b\<lparr>rb_pos := rb_pos b + n\<rparr>"

definition short_read :: "rbuf \<Rightarrow> py_error" where
  "short_read b = (if rb_chain b then MOQTUnderflow else BufferReadError)"

definition is_short_read :: "py_error \<Rightarrow> bool" where
  "is_short_read e \<longleftrightarrow> e = BufferReadError \<or> e = MOQTUnderflow"

definition is_violation :: "py_error \<Rightarrow> bool" where
  "is_violation e \<longleftrightarrow> e = MOQTProtocolViolation \<or> e = MOQTMalformedKVP"

section \<open>Readers\<close>

definition rret :: "'a \<Rightarrow> 'a reader" where
  "rret a b = Inr (a, b)"

definition rfail :: "py_error \<Rightarrow> 'a reader" where
  "rfail e b = Inl e"

definition rbind :: "'a reader \<Rightarrow> ('a \<Rightarrow> 'b reader) \<Rightarrow> 'b reader" where
  "rbind r k b = (case r b of Inl e \<Rightarrow> Inl e | Inr (a, b') \<Rightarrow> k a b')"

definition rguard :: "bool \<Rightarrow> py_error \<Rightarrow> unit reader" where
  "rguard ok e = (if ok then rret () else rfail e)"

definition rlift :: "'a result \<Rightarrow> 'a reader" where
  "rlift x b = (case x of Inl e \<Rightarrow> Inl e | Inr a \<Rightarrow> Inr (a, b))"

definition rtell :: "nat reader" where
  "rtell b = Inr (rb_pos b, b)"

definition rcapacity :: "nat reader" where
  "rcapacity b = Inr (capacity b, b)"

definition rseek :: "nat \<Rightarrow> unit reader" where
  "rseek p b = Inr ((), b\<lparr>rb_pos := p\<rparr>)"

definition set_vi64 :: "bool \<Rightarrow> unit reader" where
  "set_vi64 v b = Inr ((), b\<lparr>rb_vi64 := v\<rparr>)"

text \<open>An integer occupies at least one byte and none past the data, whatever the codec.\<close>

definition pull_with :: "(bytes \<Rightarrow> (int \<times> nat) option) \<Rightarrow> int reader" where
  "pull_with dec b = (case dec (rest_of b) of
     None \<Rightarrow> Inl (short_read b)
   | Some (n, k) \<Rightarrow> if k = 0 \<or> length (rest_of b) < k then Inl (short_read b) else Inr (n, adv b k))"

definition pull_vint :: "vcodec \<Rightarrow> int reader" where
  "pull_vint C b = pull_with (if rb_vi64 b then dec_vi64 C else dec_var C) b"

definition pull_uint_var :: "vcodec \<Rightarrow> int reader" where
  "pull_uint_var C = pull_with (dec_var C)"

definition pull_uint_vi64 :: "vcodec \<Rightarrow> int reader" where
  "pull_uint_vi64 C = pull_with (dec_vi64 C)"

definition pull_uint8 :: "vcodec \<Rightarrow> int reader" where
  "pull_uint8 C = pull_with (dec_u8 C)"

definition pull_uint16 :: "vcodec \<Rightarrow> int reader" where
  "pull_uint16 C = pull_with (dec_u16 C)"

definition pull_bytes :: "int \<Rightarrow> bytes reader" where
  "pull_bytes n b =
    (if 0 \<le> n \<and> nat n \<le> length (rest_of b)
     then Inr (take (nat n) (rest_of b), adv b (nat n)) else Inl (short_read b))"

lemmas rsteps = rbind_def rguard_def rret_def rfail_def rlift_def rtell_def

text \<open>A handler for the short reads of a plain buffer only, and one for both classes.\<close>

definition rcatch :: "(py_error \<Rightarrow> bool) \<Rightarrow> 'a reader \<Rightarrow> (py_error \<Rightarrow> 'a reader) \<Rightarrow> 'a reader" where
  "rcatch p r h b = (case r b of Inl e \<Rightarrow> if p e then h e b else Inl e | Inr x \<Rightarrow> Inr x)"

section \<open>Readers only move forward\<close>

text \<open>
  A reader that returns leaves the data alone, never moves back and stays inside the data if it
  started there. Loops over readers terminate by it.
\<close>

definition forward :: "'a reader \<Rightarrow> bool" where
  "forward r \<longleftrightarrow> (\<forall>b v b'. r b = Inr (v, b') \<longrightarrow> rb_data b' = rb_data b \<and> rb_chain b' = rb_chain b
      \<and> rb_pos b \<le> rb_pos b' \<and> (rb_pos b \<le> capacity b \<longrightarrow> rb_pos b' \<le> capacity b))"

named_theorems fw

lemma forwardD:
  "forward r \<Longrightarrow> r b = Inr (v, b') \<Longrightarrow> rb_data b' = rb_data b \<and> rb_chain b' = rb_chain b
      \<and> rb_pos b \<le> rb_pos b' \<and> (rb_pos b \<le> capacity b \<longrightarrow> rb_pos b' \<le> capacity b)"
  by (simp add: forward_def)

lemma forward_basic [fw]:
  "forward (rret v)" "forward (rfail e)" "forward (rguard p e)" "forward (rlift x)"
  "forward rtell" "forward rcapacity" "forward (set_vi64 f)"
  by (auto simp: forward_def rret_def rfail_def rguard_def rlift_def rtell_def rcapacity_def
      set_vi64_def capacity_def split: sum.splits)

lemma forward_bind [fw]: "forward r \<Longrightarrow> (\<And>a. forward (k a)) \<Longrightarrow> forward (rbind r k)"
proof (unfold forward_def, intro allI impI)
  fix b v b'
  assume r: "\<forall>b v b'. r b = Inr (v, b') \<longrightarrow> rb_data b' = rb_data b \<and> rb_chain b' = rb_chain b
      \<and> rb_pos b \<le> rb_pos b' \<and> (rb_pos b \<le> capacity b \<longrightarrow> rb_pos b' \<le> capacity b)"
    and k: "\<And>a. \<forall>b v b'. k a b = Inr (v, b') \<longrightarrow> rb_data b' = rb_data b \<and> rb_chain b' = rb_chain b
      \<and> rb_pos b \<le> rb_pos b' \<and> (rb_pos b \<le> capacity b \<longrightarrow> rb_pos b' \<le> capacity b)"
    and "rbind r k b = Inr (v, b')"
  then obtain a b1 where 1: "r b = Inr (a, b1)" and 2: "k a b1 = Inr (v, b')"
    by (auto simp: rbind_def split: sum.splits)
  from r 1 have "rb_data b1 = rb_data b \<and> rb_chain b1 = rb_chain b
      \<and> rb_pos b \<le> rb_pos b1 \<and> (rb_pos b \<le> capacity b \<longrightarrow> rb_pos b1 \<le> capacity b)" by blast
  moreover from k 2 have "rb_data b' = rb_data b1 \<and> rb_chain b' = rb_chain b1
      \<and> rb_pos b1 \<le> rb_pos b' \<and> (rb_pos b1 \<le> capacity b1 \<longrightarrow> rb_pos b' \<le> capacity b1)" by blast
  ultimately show "rb_data b' = rb_data b \<and> rb_chain b' = rb_chain b
      \<and> rb_pos b \<le> rb_pos b' \<and> (rb_pos b \<le> capacity b \<longrightarrow> rb_pos b' \<le> capacity b)"
    by (simp add: capacity_def)
qed

lemma forward_if [fw]: "(c \<Longrightarrow> forward r) \<Longrightarrow> (\<not> c \<Longrightarrow> forward s) \<Longrightarrow> forward (if c then r else s)"
  by simp

lemma forward_catch [fw]: "forward r \<Longrightarrow> (\<And>e. forward (h e)) \<Longrightarrow> forward (rcatch p r h)"
  unfolding forward_def rcatch_def by (auto split: sum.splits if_splits)

lemma pull_with_advances: "pull_with dec b = Inr (n, b') \<Longrightarrow> \<exists>k>0. b' = adv b k \<and> rb_pos b + k \<le> capacity b"
  by (fastforce simp: pull_with_def rest_of_def capacity_def not_less split: option.splits if_splits)

lemma pull_vint_advances: "pull_vint C b = Inr (n, b') \<Longrightarrow> \<exists>k>0. b' = adv b k \<and> rb_pos b + k \<le> capacity b"
  unfolding pull_vint_def by (rule pull_with_advances)

lemma forward_pull_with [fw]: "forward (pull_with dec)"
  unfolding forward_def using pull_with_advances by (fastforce simp: adv_def)

lemma forward_pulls [fw]:
  "forward (pull_vint C)" "forward (pull_uint_var C)" "forward (pull_uint_vi64 C)"
  "forward (pull_uint8 C)" "forward (pull_uint16 C)"
proof -
  show "forward (pull_vint C)"
    unfolding forward_def using pull_vint_advances by (fastforce simp: adv_def)
qed (unfold pull_uint_var_def pull_uint_vi64_def pull_uint8_def pull_uint16_def, (rule forward_pull_with)+)

lemma forward_pull_bytes [fw]: "forward (pull_bytes n)"
  by (auto simp: forward_def pull_bytes_def adv_def rest_of_def capacity_def split: if_splits)

text \<open>A forward reader behind an integer leaves less to read.\<close>

lemma vint_then_less:
  assumes "pull_vint C b = Inr (n, b1)" "forward r" "r b1 = Inr (v, b2)"
  shows "rb_pos b < rb_pos b2" "capacity b2 - rb_pos b2 < capacity b - rb_pos b"
proof -
  obtain k where k: "0 < k" "b1 = adv b k" "rb_pos b + k \<le> capacity b"
    using pull_vint_advances [OF assms(1)] by blast
  have "rb_data b2 = rb_data b" "rb_pos b + k \<le> rb_pos b2"
    using forwardD [OF assms(2,3)] k by (simp_all add: adv_def)
  with k show "rb_pos b < rb_pos b2" "capacity b2 - rb_pos b2 < capacity b - rb_pos b"
    by (auto simp: capacity_def)
qed

section \<open>Writers\<close>

definition push_with :: "(int \<Rightarrow> bytes option) \<Rightarrow> int \<Rightarrow> bytes result" where
  "push_with enc n = of_option ValueError (enc n)"

definition push_vint :: "vcodec \<Rightarrow> bool \<Rightarrow> int \<Rightarrow> bytes result" where
  "push_vint C vi n = push_with (if vi then enc_vi64 C else enc_var C) n"

definition push_uint_var :: "vcodec \<Rightarrow> int \<Rightarrow> bytes result" where
  "push_uint_var C = push_with (enc_var C)"

definition push_uint_vi64 :: "vcodec \<Rightarrow> int \<Rightarrow> bytes result" where
  "push_uint_vi64 C = push_with (enc_vi64 C)"

definition push_uint8 :: "vcodec \<Rightarrow> int \<Rightarrow> bytes result" where
  "push_uint8 C = push_with (enc_u8 C)"

definition push_uint16 :: "vcodec \<Rightarrow> int \<Rightarrow> bytes result" where
  "push_uint16 C = push_with (enc_u16 C)"

definition push_bytes :: "bytes \<Rightarrow> bytes result" where
  "push_bytes bs = Inr bs"

text \<open>A buffer of the given capacity, filled by a writer.\<close>

definition in_buffer :: "vcodec \<Rightarrow> nat \<Rightarrow> bytes result \<Rightarrow> bytes result" where
  "in_buffer C cap w =
     bindR w (\<lambda>bs. if fits C cap (length bs) then Inr bs else Inl BufferWriteError)"

text \<open>A length-prefixed byte string.\<close>

definition push_sized :: "vcodec \<Rightarrow> bool \<Rightarrow> bytes \<Rightarrow> bytes result" where
  "push_sized C vi bs = wseq [push_vint C vi (int (length bs)), push_bytes bs]"

lemma push_bytes_eq [wr]: "push_bytes a = Inr bs \<longleftrightarrow> bs = a"
  by (auto simp: push_bytes_def)

lemma in_buffer_eq [wr]: "in_buffer C cap w = Inr bs \<longleftrightarrow> w = Inr bs \<and> fits C cap (length bs)"
  by (auto simp: in_buffer_def bindR_eq_Inr split: if_splits)

section \<open>The contract between writers and readers\<close>

text \<open>
  \<open>has f b bs\<close>: the buffer reads integers in flavour \<open>f\<close> and \<open>bs\<close> is what comes
  next. \<open>reads f r bs v\<close>: wherever \<open>bs\<close> comes next, \<open>r\<close> returns \<open>v\<close> and stands
  right behind \<open>bs\<close>. \<open>reads_in\<close> is the same for a reader bounded by any end at or
  behind \<open>bs\<close>, \<open>reads_to\<close> for a reader bounded by the end of \<open>bs\<close> itself.
\<close>

definition has :: "bool \<Rightarrow> rbuf \<Rightarrow> bytes \<Rightarrow> bool" where
  "has f b bs \<longleftrightarrow> rb_vi64 b = f \<and> rb_pos b \<le> length (rb_data b) \<and> prefix bs (rest_of b)"

definition reads :: "bool \<Rightarrow> 'a reader \<Rightarrow> bytes \<Rightarrow> 'a \<Rightarrow> bool" where
  "reads f r bs v \<longleftrightarrow> (\<forall>b. has f b bs \<longrightarrow> r b = Inr (v, adv b (length bs)))"

definition end_ok :: "nat option \<Rightarrow> nat \<Rightarrow> bool" where
  "end_ok e p \<longleftrightarrow> (case e of None \<Rightarrow> True | Some e' \<Rightarrow> p \<le> e')"

definition reads_in :: "bool \<Rightarrow> (nat option \<Rightarrow> 'a reader) \<Rightarrow> bytes \<Rightarrow> 'a \<Rightarrow> bool" where
  "reads_in f r bs v \<longleftrightarrow>
     (\<forall>b e. has f b bs \<longrightarrow> end_ok e (rb_pos b + length bs) \<longrightarrow> r e b = Inr (v, adv b (length bs)))"

definition reads_to :: "bool \<Rightarrow> (nat option \<Rightarrow> 'a reader) \<Rightarrow> bytes \<Rightarrow> 'a \<Rightarrow> bool" where
  "reads_to f r bs v \<longleftrightarrow>
     (\<forall>b. has f b bs \<longrightarrow> r (Some (rb_pos b + length bs)) b = Inr (v, adv b (length bs)))"

lemma adv_simps [simp]:
  "rb_data (adv b n) = rb_data b" "rb_vi64 (adv b n) = rb_vi64 b" "rb_chain (adv b n) = rb_chain b"
  "rb_pos (adv b n) = rb_pos b + n" "adv b 0 = b" "adv (adv b m) n = adv b (m + n)"
  "rest_of (adv b n) = drop n (rest_of b)" "capacity (adv b n) = capacity b"
  by (simp_all add: adv_def rest_of_def capacity_def add.commute add.assoc)

lemma has_append:
  "has f b (xs @ ys) \<longleftrightarrow> has f b xs \<and> has f (adv b (length xs)) ys"
proof -
  have "prefix xs (rest_of b) \<Longrightarrow> length xs \<le> length (rb_data b) - rb_pos b"
    by (auto simp: rest_of_def dest!: prefix_length_le)
  then show ?thesis
    by (auto simp: has_def prefix_drop_append)
qed

lemma has_length: "has f b bs \<Longrightarrow> rb_pos b + length bs \<le> capacity b"
  by (auto simp: has_def rest_of_def capacity_def dest!: prefix_length_le)

lemma readsI: "(\<And>b. has f b bs \<Longrightarrow> r b = Inr (v, adv b (length bs))) \<Longrightarrow> reads f r bs v"
  by (simp add: reads_def)

lemma readsD: "reads f r bs v \<Longrightarrow> has f b bs \<Longrightarrow> r b = Inr (v, adv b (length bs))"
  by (simp add: reads_def)

lemma reads_inI:
  "(\<And>b e. has f b bs \<Longrightarrow> end_ok e (rb_pos b + length bs) \<Longrightarrow> r e b = Inr (v, adv b (length bs)))
   \<Longrightarrow> reads_in f r bs v"
  by (simp add: reads_in_def)

lemma reads_inD:
  "reads_in f r bs v \<Longrightarrow> has f b bs \<Longrightarrow> end_ok e (rb_pos b + length bs) \<Longrightarrow>
   r e b = Inr (v, adv b (length bs))"
  by (simp add: reads_in_def)

lemma reads_toI:
  "(\<And>b. has f b bs \<Longrightarrow> r (Some (rb_pos b + length bs)) b = Inr (v, adv b (length bs)))
   \<Longrightarrow> reads_to f r bs v"
  by (simp add: reads_to_def)

lemma reads_toD:
  "reads_to f r bs v \<Longrightarrow> has f b bs \<Longrightarrow> r (Some (rb_pos b + length bs)) b = Inr (v, adv b (length bs))"
  by (simp add: reads_to_def)

lemma rbind_Inr [simp]: "r b = Inr (a, b') \<Longrightarrow> rbind r k b = k a b'"
  by (simp add: rbind_def)

lemma rbind_Inl [simp]: "r b = Inl e \<Longrightarrow> rbind r k b = Inl e"
  by (simp add: rbind_def)

lemma rbind_eq_Inr:
  "rbind r k b = Inr (v, b'') \<longleftrightarrow> (\<exists>a b'. r b = Inr (a, b') \<and> k a b' = Inr (v, b''))"
  by (auto simp: rbind_def split: sum.splits prod.splits)

lemma reads_ret [rd]: "reads f (rret v) [] v"
  by (simp add: reads_def rret_def)

lemma reads_bind [rd]:
  assumes "reads f r bs a" and "reads f (k a) cs v"
  shows "reads f (rbind r k) (bs @ cs) v"
proof (rule readsI)
  fix b assume h: "has f b (bs @ cs)"
  then have "r b = Inr (a, adv b (length bs))"
    using assms(1) by (simp add: has_append readsD)
  moreover have "k a (adv b (length bs)) = Inr (v, adv (adv b (length bs)) (length cs))"
    using assms(2) h by (simp add: has_append readsD)
  ultimately show "rbind r k b = Inr (v, adv b (length (bs @ cs)))"
    by simp
qed

lemma reads_bind0 [rd]:
  "reads f r [] a \<Longrightarrow> reads f (k a) cs v \<Longrightarrow> reads f (rbind r k) cs v"
  using reads_bind [of f r "[]" a k cs v] by simp

lemma reads_bind_end:
  "reads f r bs a \<Longrightarrow> reads f (k a) [] v \<Longrightarrow> reads f (rbind r k) bs v"
  using reads_bind [of f r bs a k "[]" v] by simp

lemma reads_guard [rd]: "p \<Longrightarrow> reads f (rguard p e) [] ()"
  by (simp add: reads_def rguard_def rret_def)

lemma reads_lift [rd]: "x = Inr a \<Longrightarrow> reads f (rlift x) [] a"
  by (simp add: reads_def rlift_def)

lemma reads_set_vi64 [rd]: "reads f (set_vi64 f) [] ()"
  by (auto simp: reads_def set_vi64_def has_def)

lemma reads_in_reads: "reads f r bs v \<Longrightarrow> reads_in f (\<lambda>e. r) bs v"
  by (simp add: reads_def reads_in_def)

lemma reads_in_to: "reads_in f r bs v \<Longrightarrow> reads_to f r bs v"
  by (simp add: reads_in_def reads_to_def end_ok_def)

lemma reads_in_None: "reads_in f r bs v \<Longrightarrow> reads f (r None) bs v"
  by (simp add: reads_in_def reads_def end_ok_def)

lemma reads_to_reads: "reads f r bs v \<Longrightarrow> reads_to f (\<lambda>e. r) bs v"
  by (simp add: reads_def reads_to_def)

lemma reads_in_bind:
  assumes "reads_in f r bs a" and "reads_in f (\<lambda>e. k e a) cs v"
  shows "reads_in f (\<lambda>e. rbind (r e) (k e)) (bs @ cs) v"
proof (rule reads_inI)
  fix b e assume h: "has f b (bs @ cs)" and e: "end_ok e (rb_pos b + length (bs @ cs))"
  then have e1: "end_ok e (rb_pos b + length bs)"
    by (auto simp: end_ok_def split: option.splits)
  have "r e b = Inr (a, adv b (length bs))"
    using assms(1) h e1 by (simp add: has_append reads_inD)
  moreover have "k e a (adv b (length bs)) = Inr (v, adv (adv b (length bs)) (length cs))"
    using h e reads_inD [OF assms(2), of "adv b (length bs)" e] by (simp add: has_append add.assoc)
  ultimately show "rbind (r e) (k e) b = Inr (v, adv b (length (bs @ cs)))"
    by simp
qed

lemma reads_to_bind:
  assumes "reads_in f r bs a" and "reads_to f (\<lambda>e. k e a) cs v"
  shows "reads_to f (\<lambda>e. rbind (r e) (k e)) (bs @ cs) v"
proof (rule reads_toI)
  fix b assume h: "has f b (bs @ cs)"
  let ?e = "Some (rb_pos b + length (bs @ cs))"
  have "r ?e b = Inr (a, adv b (length bs))"
    using assms(1) h by (simp add: has_append reads_inD end_ok_def)
  moreover have "k ?e a (adv b (length bs)) = Inr (v, adv (adv b (length bs)) (length cs))"
    using assms(2) h reads_toD [OF assms(2), of "adv b (length bs)"]
    by (simp add: has_append add.assoc)
  ultimately show "rbind (r ?e) (k ?e) b = Inr (v, adv b (length (bs @ cs)))"
    by simp
qed

lemma reads_to_bind_plain:
  "reads f r bs a \<Longrightarrow> reads_to f (\<lambda>e. k e a) cs v \<Longrightarrow> reads_to f (\<lambda>e. rbind r (k e)) (bs @ cs) v"
  by (rule reads_to_bind [OF reads_in_reads])

lemma reads_to_bind_last:
  "reads_to f r bs a \<Longrightarrow> (\<And>e. reads f (k e a) [] v) \<Longrightarrow> reads_to f (\<lambda>e. rbind (r e) (k e)) bs v"
proof (rule reads_toI)
  fix b assume r: "reads_to f r bs a" and k: "\<And>e. reads f (k e a) [] v" and h: "has f b bs"
  let ?e = "Some (rb_pos b + length bs)"
  have "r ?e b = Inr (a, adv b (length bs))"
    using reads_toD [OF r h] .
  moreover have "has f (adv b (length bs)) []"
    using h has_append [of f b bs "[]"] by simp
  then have "k ?e a (adv b (length bs)) = Inr (v, adv b (length bs))"
    using readsD [OF k] by fastforce
  ultimately show "rbind (r ?e) (k ?e) b = Inr (v, adv b (length bs))"
    by simp
qed

lemma reads_catch [rd]: "reads f r bs v \<Longrightarrow> reads f (rcatch p r h) bs v"
  by (simp add: reads_def rcatch_def)

lemma reads_in_catch: "reads_in f r bs v \<Longrightarrow> reads_in f (\<lambda>e. rcatch p (r e) (h e)) bs v"
  by (simp add: reads_in_def rcatch_def)

lemma reads_pull_bytes [rd]: "n = int (length bs) \<Longrightarrow> reads f (pull_bytes n) bs bs"
  by (auto simp: reads_def has_def pull_bytes_def prefix_take_length dest: prefix_length_le)

section \<open>What the code relies on\<close>

locale vcodec_laws =
  fixes C :: vcodec
  assumes var_rt: "enc_var C n = Some bs \<Longrightarrow> dec_var C (bs @ rest) = Some (n, length bs)"
    and vi64_rt: "enc_vi64 C n = Some bs \<Longrightarrow> dec_vi64 C (bs @ rest) = Some (n, length bs)"
    and var_range: "(\<exists>bs. enc_var C n = Some bs) \<longleftrightarrow> 0 \<le> n \<and> n < 2 ^ 62"
    and vi64_range: "(\<exists>bs. enc_vi64 C n = Some bs) \<longleftrightarrow> 0 \<le> n \<and> n < 2 ^ 64"
    and var_dec: "dec_var C bs = Some (n, k) \<Longrightarrow> 0 \<le> n \<and> n < 2 ^ 62 \<and> 0 < k \<and> k \<le> length bs"
    and vi64_dec: "dec_vi64 C bs = Some (n, k) \<Longrightarrow> 0 \<le> n \<and> n < 2 ^ 64 \<and> 0 < k \<and> k \<le> length bs"
    and one_byte: "0 \<le> n \<Longrightarrow> n < 64 \<Longrightarrow> enc_var C n = Some [word_of_int n] \<and> enc_vi64 C n = Some [word_of_int n]"
    and u8_enc: "enc_u8 C n = Some bs \<longleftrightarrow> 0 \<le> n \<and> n < 256 \<and> bs = [word_of_int n]"
    and u8_dec: "dec_u8 C bs = (case bs of [] \<Rightarrow> None | w # _ \<Rightarrow> Some (uint w, 1))"
    and u16_rt: "enc_u16 C n = Some bs \<Longrightarrow> length bs = 2 \<and> dec_u16 C (bs @ rest) = Some (n, 2)"
    and u16_range: "(\<exists>bs. enc_u16 C n = Some bs) \<longleftrightarrow> 0 \<le> n \<and> n < 65536"
    and u16_dec: "dec_u16 C bs = Some (n, k) \<Longrightarrow> 0 \<le> n \<and> n < 65536 \<and> k = 2 \<and> 2 \<le> length bs"
begin

lemma reads_pull_with:
  assumes "\<And>rest. dec (bs @ rest) = Some (n, length bs)" and "bs \<noteq> []"
  shows "reads f (pull_with dec) bs n"
proof (rule readsI)
  fix b assume "has f b bs"
  then obtain rest where "rest_of b = bs @ rest"
    by (auto simp: has_def prefix_def)
  then show "pull_with dec b = Inr (n, adv b (length bs))"
    using assms(1) [of rest] assms(2) by (simp add: pull_with_def)
qed

lemma enc_nonempty:
  "enc_var C n = Some bs \<Longrightarrow> bs \<noteq> []" "enc_vi64 C n = Some bs \<Longrightarrow> bs \<noteq> []"
  using var_rt [of n "[]" "[]"] var_dec [of "[]" n 0] vi64_rt [of n "[]" "[]"] vi64_dec [of "[]" n 0]
  by auto

lemma reads_vint [rd]:
  assumes "push_vint C f n = Inr bs"
  shows "reads f (pull_vint C) bs n"
proof (rule readsI)
  fix b assume h: "has f b bs"
  let ?d = "if f then dec_vi64 C else dec_var C"
  have "reads f (pull_with ?d) bs n"
    using assms var_rt vi64_rt enc_nonempty
    by (intro reads_pull_with) (auto simp: push_vint_def push_with_def of_option_eq_Inr split: if_splits)
  then have "pull_with ?d b = Inr (n, adv b (length bs))"
    using h by (rule readsD)
  then show "pull_vint C b = Inr (n, adv b (length bs))"
    using h by (auto simp: pull_vint_def has_def)
qed

lemma reads_uint_var [rd]: "push_uint_var C n = Inr bs \<Longrightarrow> reads f (pull_uint_var C) bs n"
  unfolding pull_uint_var_def
  by (rule reads_pull_with)
    (auto simp: push_uint_var_def push_with_def of_option_eq_Inr var_rt dest: enc_nonempty)

lemma reads_uint_vi64 [rd]: "push_uint_vi64 C n = Inr bs \<Longrightarrow> reads f (pull_uint_vi64 C) bs n"
  unfolding pull_uint_vi64_def
  by (rule reads_pull_with)
    (auto simp: push_uint_vi64_def push_with_def of_option_eq_Inr vi64_rt dest: enc_nonempty)

lemma reads_uint8 [rd]: "push_uint8 C n = Inr bs \<Longrightarrow> reads f (pull_uint8 C) bs n"
  unfolding pull_uint8_def
  by (rule reads_pull_with)
    (auto simp: push_uint8_def push_with_def of_option_eq_Inr u8_enc u8_dec uint_word_of_int)

lemma reads_uint16 [rd]: "push_uint16 C n = Inr bs \<Longrightarrow> reads f (pull_uint16 C) bs n"
  unfolding pull_uint16_def
proof (rule reads_pull_with)
  assume "push_uint16 C n = Inr bs"
  then have "enc_u16 C n = Some bs"
    by (simp add: push_uint16_def push_with_def of_option_eq_Inr)
  then have l: "length bs = 2" and d: "dec_u16 C (bs @ rest) = Some (n, 2)" for rest
    using u16_rt [of n bs] by blast+
  show "dec_u16 C (bs @ rest) = Some (n, length bs)" for rest using l d by simp
  show "bs \<noteq> []" using l by auto
qed

lemma push_vint_range:
  "(\<exists>bs. push_vint C f n = Inr bs) \<longleftrightarrow> 0 \<le> n \<and> n < (if f then 2 ^ 64 else 2 ^ 62)"
  using var_range [of n] vi64_range [of n]
  by (auto simp: push_vint_def push_with_def of_option_eq_Inr)

lemma push_vint_nonneg: "push_vint C f n = Inr bs \<Longrightarrow> 0 \<le> n \<and> n < 2 ^ 64"
  using push_vint_range [of f n] by (auto split: if_splits)

lemma push_vint_nonempty: "push_vint C f n = Inr bs \<Longrightarrow> bs \<noteq> []"
  by (auto simp: push_vint_def push_with_def of_option_eq_Inr dest: enc_nonempty split: if_splits)

lemma push_uint8_eq: "push_uint8 C n = Inr bs \<longleftrightarrow> 0 \<le> n \<and> n < 256 \<and> bs = [word_of_int n]"
  by (simp add: push_uint8_def push_with_def of_option_eq_Inr u8_enc)

lemma push_uint16_length: "push_uint16 C n = Inr bs \<Longrightarrow> length bs = 2 \<and> 0 \<le> n \<and> n < 65536"
  using u16_rt [of n bs "[]"] u16_range [of n] by (auto simp: push_uint16_def push_with_def of_option_eq_Inr)

text \<open>
  A type code point below 64 is the same single byte in both integer formats, so a header written
  with \<^verbatim>\<open>push_uint_var\<close> is read back by a vi64 buffer too.
\<close>

lemma push_small: "0 \<le> n \<Longrightarrow> n < 64 \<Longrightarrow> push_vint C f n = Inr [word_of_int n] \<and> push_uint_var C n = Inr [word_of_int n]"
  using one_byte [of n] by (simp add: push_vint_def push_uint_var_def push_with_def)

lemma reads_type_small [rd]:
  "push_uint_var C n = Inr bs \<Longrightarrow> 0 \<le> n \<Longrightarrow> n < 64 \<Longrightarrow> reads f (pull_vint C) bs n"
  using push_small [of n f] reads_vint [of f n bs] by simp

lemma reads_sized:
  assumes "push_sized C f bs = Inr out"
  shows "reads f (rbind (pull_vint C) pull_bytes) out bs"
  using assms
  by (auto simp: push_sized_def wr intro!: reads_bind reads_vint reads_pull_bytes)

lemma pull_vint_range: "pull_vint C b = Inr (n, b') \<Longrightarrow> 0 \<le> n \<and> n < 2 ^ 64"
  using var_dec [of "rest_of b" n] vi64_dec [of "rest_of b" n]
  by (fastforce simp: pull_vint_def pull_with_def split: option.splits if_splits)

lemma pull_uint8_range: "pull_uint8 C b = Inr (n, b') \<Longrightarrow> 0 \<le> n \<and> n < 256"
proof -
  assume "pull_uint8 C b = Inr (n, b')"
  then obtain w where "n = uint (w :: byte)"
    by (auto simp: pull_uint8_def pull_with_def u8_dec split: option.splits if_splits list.splits)
  then show ?thesis using uint_lt2p [of w] by simp
qed

text \<open>Successful reads stay inside the buffer and never return a negative integer.\<close>

lemma pull_vint_bounds:
  assumes "pull_vint C b = Inr (n, b')" and "rb_pos b \<le> capacity b"
  shows "0 \<le> n \<and> n < 2 ^ 64 \<and> rb_pos b < rb_pos b' \<and> rb_pos b' \<le> capacity b' \<and> rb_data b' = rb_data b
         \<and> rb_vi64 b' = rb_vi64 b \<and> rb_chain b' = rb_chain b"
proof -
  let ?d = "if rb_vi64 b then dec_vi64 C else dec_var C"
  from assms obtain k where k: "?d (rest_of b) = Some (n, k)" and b': "b' = adv b k"
    by (auto simp: pull_vint_def pull_with_def split: option.splits if_splits)
  from k have "0 \<le> n \<and> n < 2 ^ 64 \<and> 0 < k \<and> k \<le> length (rest_of b)"
    using var_dec [of "rest_of b" n k] vi64_dec [of "rest_of b" n k] by (auto split: if_splits)
  with assms(2) show ?thesis
    by (auto simp: b' rest_of_def capacity_def)
qed

end

lemma pull_bytes_bounds:
  assumes "pull_bytes n b = Inr (bs, b')" and "rb_pos b \<le> capacity b"
  shows "int (length bs) = n \<and> b' = adv b (length bs) \<and> rb_pos b' \<le> capacity b'"
  using assms by (auto simp: pull_bytes_def rest_of_def capacity_def split: if_splits)

section \<open>The RFC 9000 and vi64 formats\<close>

fun be_bytes :: "nat \<Rightarrow> int \<Rightarrow> bytes" where
  "be_bytes 0 n = []"
| "be_bytes (Suc k) n = be_bytes k (n div 256) @ [word_of_int n]"

definition be_int :: "bytes \<Rightarrow> int" where
  "be_int bs = foldl (\<lambda>a w. a * 256 + uint w) 0 bs"

lemma length_be_bytes [simp]: "length (be_bytes k n) = k"
  by (induction k arbitrary: n) auto

lemma be_int_be_bytes: "0 \<le> n \<Longrightarrow> n < 256 ^ k \<Longrightarrow> be_int (be_bytes k n) = n"
proof (induction k arbitrary: n)
  case 0
  then show ?case by (simp add: be_int_def)
next
  case (Suc k)
  have "be_int (be_bytes k (n div 256)) = n div 256"
    using Suc.prems by (intro Suc.IH) (auto simp: div_less_iff_less_mult mult.commute pos_imp_zdiv_nonneg_iff)
  moreover have "uint (word_of_int n :: byte) = n mod 256"
    by (simp add: uint_word_of_int)
  ultimately show ?case by (simp add: be_int_def)
qed

lemma be_int_bounds: "0 \<le> be_int bs \<and> be_int bs < 256 ^ length bs"
proof (induction bs rule: rev_induct)
  case Nil
  then show ?case by (simp add: be_int_def)
next
  case (snoc w bs)
  have "0 \<le> uint w \<and> uint w < 256"
    using uint_lt2p [of w] by simp
  with snoc show ?case by (simp add: be_int_def)
qed

text \<open>
  Both formats: the first byte holds the length and the top bits, further bytes follow in
  network order. A format is given by the largest \<open>n\<close>-byte prefix offset and payload bits.
\<close>

definition tag_enc :: "(int \<times> int) \<Rightarrow> nat \<Rightarrow> int \<Rightarrow> bytes" where
  "tag_enc t n v = word_of_int (fst t + v div 256 ^ (n - 1)) # be_bytes (n - 1) (v mod 256 ^ (n - 1))"

definition tag_dec :: "int \<Rightarrow> nat \<Rightarrow> bytes \<Rightarrow> (int \<times> nat) option" where
  "tag_dec off n bs =
     (if length bs < n then None
      else Some ((uint (hd bs) - off) * 256 ^ (n - 1) + be_int (take (n - 1) (tl bs)), n))"

lemma tag_roundtrip:
  assumes "0 < n" "0 \<le> v" "v div 256 ^ (n - 1) < span" "0 \<le> off" "off + span \<le> 256"
  shows "uint (hd (tag_enc (off, span) n v)) = off + v div 256 ^ (n - 1)"
    and "length (tag_enc (off, span) n v) = n"
    and "tag_dec off n (tag_enc (off, span) n v @ rest) = Some (v, n)"
proof -
  have top: "0 \<le> v div 256 ^ (n - 1)"
    using assms(2) by (simp add: pos_imp_zdiv_nonneg_iff)
  then show h: "uint (hd (tag_enc (off, span) n v)) = off + v div 256 ^ (n - 1)"
    using assms by (simp add: tag_enc_def uint_word_of_int del: of_int_add)
  show l: "length (tag_enc (off, span) n v) = n"
    using assms(1) by (simp add: tag_enc_def)
  have "be_int (be_bytes (n - 1) (v mod 256 ^ (n - 1))) = v mod 256 ^ (n - 1)"
    by (rule be_int_be_bytes) simp_all
  then show "tag_dec off n (tag_enc (off, span) n v @ rest) = Some (v, n)"
    using l h by (simp add: tag_dec_def tag_enc_def div_mult_mod_eq)
qed

lemma tag_dec_bounds:
  assumes "tag_dec off n bs = Some (v, k)" "0 < n" "off \<le> uint (hd bs)" "uint (hd bs) < off + span"
  shows "0 \<le> v \<and> v < span * 256 ^ (n - 1) \<and> k = n \<and> k \<le> length bs"
proof -
  from assms have v: "v = (uint (hd bs) - off) * 256 ^ (n - 1) + be_int (take (n - 1) (tl bs))"
    and k: "k = n" and n: "n \<le> length bs"
    by (auto simp: tag_dec_def split: if_splits)
  let ?t = "uint (hd bs) - off" and ?r = "be_int (take (n - 1) (tl bs))"
  have r: "0 \<le> ?r" "?r < 256 ^ (n - 1)"
    using be_int_bounds [of "take (n - 1) (tl bs)"] n by auto
  have t: "0 \<le> ?t" "?t + 1 \<le> span"
    using assms(3,4) by simp_all
  have "(?t + 1) * 256 ^ (n - 1) \<le> span * 256 ^ (n - 1)"
    using t by (intro mult_right_mono) auto
  then have hi: "?t * 256 ^ (n - 1) + 256 ^ (n - 1) \<le> span * 256 ^ (n - 1)"
    by (simp only: distrib_right mult_1)
  have lo: "0 \<le> ?t * 256 ^ (n - 1)"
    using t by simp
  show ?thesis
    unfolding v k using r lo hi n by linarith
qed

definition rfc9000_enc :: "int \<Rightarrow> bytes option" where
  "rfc9000_enc v =
    (if v < 0 then None
     else if v < 2 ^ 6 then Some (tag_enc (0, 64) 1 v)
     else if v < 2 ^ 14 then Some (tag_enc (64, 64) 2 v)
     else if v < 2 ^ 30 then Some (tag_enc (128, 64) 4 v)
     else if v < 2 ^ 62 then Some (tag_enc (192, 64) 8 v)
     else None)"

definition rfc9000_dec :: "bytes \<Rightarrow> (int \<times> nat) option" where
  "rfc9000_dec bs =
    (if bs = [] then None
     else let b0 = uint (hd bs)
       in if b0 < 64 then tag_dec 0 1 bs else if b0 < 128 then tag_dec 64 2 bs
       else if b0 < 192 then tag_dec 128 4 bs else tag_dec 192 8 bs)"

definition vi64_enc :: "int \<Rightarrow> bytes option" where
  "vi64_enc v =
    (if v < 0 then None
     else if v < 2 ^ 7 then Some (tag_enc (0, 128) 1 v)
     else if v < 2 ^ 14 then Some (tag_enc (128, 64) 2 v)
     else if v < 2 ^ 21 then Some (tag_enc (192, 32) 3 v)
     else if v < 2 ^ 28 then Some (tag_enc (224, 16) 4 v)
     else if v < 2 ^ 35 then Some (tag_enc (240, 8) 5 v)
     else if v < 2 ^ 42 then Some (tag_enc (248, 4) 6 v)
     else if v < 2 ^ 49 then Some (tag_enc (252, 2) 7 v)
     else if v < 2 ^ 56 then Some (tag_enc (254, 1) 8 v)
     else if v < 2 ^ 64 then Some (tag_enc (255, 1) 9 v)
     else None)"

definition vi64_dec :: "bytes \<Rightarrow> (int \<times> nat) option" where
  "vi64_dec bs =
    (if bs = [] then None
     else let b0 = uint (hd bs)
       in if b0 < 128 then tag_dec 0 1 bs else if b0 < 192 then tag_dec 128 2 bs
       else if b0 < 224 then tag_dec 192 3 bs else if b0 < 240 then tag_dec 224 4 bs
       else if b0 < 248 then tag_dec 240 5 bs else if b0 < 252 then tag_dec 248 6 bs
       else if b0 < 254 then tag_dec 252 7 bs else if b0 < 255 then tag_dec 254 8 bs
       else tag_dec 255 9 bs)"

definition u8_enc :: "int \<Rightarrow> bytes option" where
  "u8_enc n = (if 0 \<le> n \<and> n < 256 then Some [word_of_int n] else None)"

definition u8_dec :: "bytes \<Rightarrow> (int \<times> nat) option" where
  "u8_dec bs = (case bs of [] \<Rightarrow> None | w # _ \<Rightarrow> Some (uint w, 1))"

definition u16_enc :: "int \<Rightarrow> bytes option" where
  "u16_enc n = (if 0 \<le> n \<and> n < 65536 then Some (be_bytes 2 n) else None)"

definition u16_dec :: "bytes \<Rightarrow> (int \<times> nat) option" where
  "u16_dec bs = (if length bs < 2 then None else Some (be_int (take 2 bs), 2))"

text \<open>The formats as one codec, with buffers that grow as needed.\<close>

definition std_codec :: vcodec where
  "std_codec = \<lparr>enc_var = rfc9000_enc, dec_var = rfc9000_dec, enc_vi64 = vi64_enc, dec_vi64 = vi64_dec,
     enc_u8 = u8_enc, dec_u8 = u8_dec, enc_u16 = u16_enc, dec_u16 = u16_dec, fits = (\<lambda>_ _. True)\<rparr>"

lemma tag_step:
  assumes "0 < n" "0 \<le> v" "v < span * 256 ^ (n - 1)" "0 \<le> off" "off + span \<le> 256"
  shows "\<exists>t. uint (hd (tag_enc (off, span) n v)) = off + t \<and> 0 \<le> t \<and> t < span"
    and "length (tag_enc (off, span) n v) = n"
    and "tag_dec off n (tag_enc (off, span) n v @ rest) = Some (v, n)"
proof -
  have "v div 256 ^ (n - 1) * 256 ^ (n - 1) < span * 256 ^ (n - 1)"
  proof -
    have "0 \<le> v mod 256 ^ (n - 1)" by simp
    with assms(3) show ?thesis
      unfolding minus_mod_eq_div_mult [symmetric] by linarith
  qed
  then have "v div 256 ^ (n - 1) < span"
    by simp
  note r = tag_roundtrip [OF assms(1,2) this assms(4,5)]
  moreover have "0 \<le> v div 256 ^ (n - 1)"
    using assms(2) by (simp add: pos_imp_zdiv_nonneg_iff)
  ultimately show "\<exists>t. uint (hd (tag_enc (off, span) n v)) = off + t \<and> 0 \<le> t \<and> t < span"
    using \<open>v div 256 ^ (n - 1) < span\<close> by blast
  show "length (tag_enc (off, span) n v) = n" "tag_dec off n (tag_enc (off, span) n v @ rest) = Some (v, n)"
    using r by simp_all
qed

lemma tag_hd_append [simp]: "hd (tag_enc t n v @ rest) = hd (tag_enc t n v)" "tag_enc t n v \<noteq> []"
  by (simp_all add: tag_enc_def)

lemma rfc9000_roundtrip:
  assumes "rfc9000_enc v = Some bs"
  shows "rfc9000_dec (bs @ rest) = Some (v, length bs)"
proof -
  from assms consider "0 \<le> v" "v < 64 * 256 ^ 0" "bs = tag_enc (0, 64) 1 v"
    | "0 \<le> v" "v < 64 * 256 ^ 1" "bs = tag_enc (64, 64) 2 v"
    | "0 \<le> v" "v < 64 * 256 ^ 3" "bs = tag_enc (128, 64) 4 v"
    | "0 \<le> v" "v < 64 * 256 ^ 7" "bs = tag_enc (192, 64) 8 v"
    by (auto simp: rfc9000_enc_def split: if_splits)
  then show ?thesis
  proof cases
    case 1
    then show ?thesis using tag_step [of 1 v 64 0] by (auto simp: rfc9000_dec_def Let_def)
  next
    case 2
    then show ?thesis using tag_step [of 2 v 64 64] by (auto simp: rfc9000_dec_def Let_def)
  next
    case 3
    then show ?thesis using tag_step [of 4 v 64 128] by (auto simp: rfc9000_dec_def Let_def)
  next
    case 4
    then show ?thesis using tag_step [of 8 v 64 192] by (auto simp: rfc9000_dec_def Let_def)
  qed
qed

lemma vi64_roundtrip:
  assumes "vi64_enc v = Some bs"
  shows "vi64_dec (bs @ rest) = Some (v, length bs)"
proof -
  from assms consider "0 \<le> v" "v < 128 * 256 ^ 0" "bs = tag_enc (0, 128) 1 v"
    | "0 \<le> v" "v < 64 * 256 ^ 1" "bs = tag_enc (128, 64) 2 v"
    | "0 \<le> v" "v < 32 * 256 ^ 2" "bs = tag_enc (192, 32) 3 v"
    | "0 \<le> v" "v < 16 * 256 ^ 3" "bs = tag_enc (224, 16) 4 v"
    | "0 \<le> v" "v < 8 * 256 ^ 4" "bs = tag_enc (240, 8) 5 v"
    | "0 \<le> v" "v < 4 * 256 ^ 5" "bs = tag_enc (248, 4) 6 v"
    | "0 \<le> v" "v < 2 * 256 ^ 6" "bs = tag_enc (252, 2) 7 v"
    | "0 \<le> v" "v < 1 * 256 ^ 7" "bs = tag_enc (254, 1) 8 v"
    | "0 \<le> v" "v < 1 * 256 ^ 8" "bs = tag_enc (255, 1) 9 v"
    by (auto simp: vi64_enc_def split: if_splits)
  then show ?thesis
  proof cases
    case 1
    then show ?thesis using tag_step [of 1 v 128 0] by (auto simp: vi64_dec_def Let_def)
  next
    case 2
    then show ?thesis using tag_step [of 2 v 64 128] by (auto simp: vi64_dec_def Let_def)
  next
    case 3
    then show ?thesis using tag_step [of 3 v 32 192] by (auto simp: vi64_dec_def Let_def)
  next
    case 4
    then show ?thesis using tag_step [of 4 v 16 224] by (auto simp: vi64_dec_def Let_def)
  next
    case 5
    then show ?thesis using tag_step [of 5 v 8 240] by (auto simp: vi64_dec_def Let_def)
  next
    case 6
    then show ?thesis using tag_step [of 6 v 4 248] by (auto simp: vi64_dec_def Let_def)
  next
    case 7
    then show ?thesis using tag_step [of 7 v 2 252] by (auto simp: vi64_dec_def Let_def)
  next
    case 8
    then show ?thesis using tag_step [of 8 v 1 254] by (auto simp: vi64_dec_def Let_def)
  next
    case 9
    then show ?thesis using tag_step [of 9 v 1 255] by (auto simp: vi64_dec_def Let_def)
  qed
qed

lemma rfc9000_dec_bounds:
  assumes "rfc9000_dec bs = Some (n, k)"
  shows "0 \<le> n \<and> n < 2 ^ 62 \<and> 0 < k \<and> k \<le> length bs"
proof -
  have b: "uint (hd bs) < 256" "0 \<le> uint (hd bs)"
    using uint_lt2p [of "hd bs"] by simp_all
  from assms consider "uint (hd bs) < 64" "tag_dec 0 1 bs = Some (n, k)"
    | "64 \<le> uint (hd bs)" "uint (hd bs) < 128" "tag_dec 64 2 bs = Some (n, k)"
    | "128 \<le> uint (hd bs)" "uint (hd bs) < 192" "tag_dec 128 4 bs = Some (n, k)"
    | "192 \<le> uint (hd bs)" "tag_dec 192 8 bs = Some (n, k)"
    by (auto simp: rfc9000_dec_def Let_def split: if_splits)
  then show ?thesis
  proof cases
    case 1
    then show ?thesis using tag_dec_bounds [of 0 1 bs n k 64] b by simp
  next
    case 2
    then show ?thesis using tag_dec_bounds [of 64 2 bs n k 64] b by simp
  next
    case 3
    then show ?thesis using tag_dec_bounds [of 128 4 bs n k 64] b by simp
  next
    case 4
    then show ?thesis using tag_dec_bounds [of 192 8 bs n k 64] b by simp
  qed
qed

lemma vi64_dec_bounds:
  assumes "vi64_dec bs = Some (n, k)"
  shows "0 \<le> n \<and> n < 2 ^ 64 \<and> 0 < k \<and> k \<le> length bs"
proof -
  let ?b = "uint (hd bs)"
  have b: "?b < 256" "0 \<le> ?b"
    using uint_lt2p [of "hd bs"] by simp_all
  from assms consider "0 \<le> ?b" "?b < 128" "tag_dec 0 1 bs = Some (n, k)"
    | "128 \<le> ?b" "?b < 192" "tag_dec 128 2 bs = Some (n, k)"
    | "192 \<le> ?b" "?b < 224" "tag_dec 192 3 bs = Some (n, k)"
    | "224 \<le> ?b" "?b < 240" "tag_dec 224 4 bs = Some (n, k)"
    | "240 \<le> ?b" "?b < 248" "tag_dec 240 5 bs = Some (n, k)"
    | "248 \<le> ?b" "?b < 252" "tag_dec 248 6 bs = Some (n, k)"
    | "252 \<le> ?b" "?b < 254" "tag_dec 252 7 bs = Some (n, k)"
    | "254 \<le> ?b" "?b < 255" "tag_dec 254 8 bs = Some (n, k)"
    | "255 \<le> ?b" "?b < 256" "tag_dec 255 9 bs = Some (n, k)"
    using b by (auto simp: vi64_dec_def Let_def split: if_splits)
  then show ?thesis
  proof cases
    case 1
    then show ?thesis using tag_dec_bounds [of 0 1 bs n k 128] by simp
  next
    case 2
    then show ?thesis using tag_dec_bounds [of 128 2 bs n k 64] by simp
  next
    case 3
    then show ?thesis using tag_dec_bounds [of 192 3 bs n k 32] by simp
  next
    case 4
    then show ?thesis using tag_dec_bounds [of 224 4 bs n k 16] by simp
  next
    case 5
    then show ?thesis using tag_dec_bounds [of 240 5 bs n k 8] by simp
  next
    case 6
    then show ?thesis using tag_dec_bounds [of 248 6 bs n k 4] by simp
  next
    case 7
    then show ?thesis using tag_dec_bounds [of 252 7 bs n k 2] by simp
  next
    case 8
    then show ?thesis using tag_dec_bounds [of 254 8 bs n k 1] by simp
  next
    case 9
    then show ?thesis using tag_dec_bounds [of 255 9 bs n k 1] by simp
  qed
qed

lemma be_int_two: "be_int [a, b] = uint a * 256 + uint b"
  by (simp add: be_int_def)

interpretation std: vcodec_laws std_codec
proof unfold_locales
  fix n k :: int and bs rest :: bytes and j
  show "enc_var std_codec n = Some bs \<Longrightarrow> dec_var std_codec (bs @ rest) = Some (n, length bs)"
    by (simp add: std_codec_def rfc9000_roundtrip)
  show "enc_vi64 std_codec n = Some bs \<Longrightarrow> dec_vi64 std_codec (bs @ rest) = Some (n, length bs)"
    by (simp add: std_codec_def vi64_roundtrip)
  show "(\<exists>bs. enc_var std_codec n = Some bs) \<longleftrightarrow> 0 \<le> n \<and> n < 2 ^ 62"
    by (auto simp: std_codec_def rfc9000_enc_def)
  show "(\<exists>bs. enc_vi64 std_codec n = Some bs) \<longleftrightarrow> 0 \<le> n \<and> n < 2 ^ 64"
    by (auto simp: std_codec_def vi64_enc_def)
  show "dec_var std_codec bs = Some (n, j) \<Longrightarrow> 0 \<le> n \<and> n < 2 ^ 62 \<and> 0 < j \<and> j \<le> length bs"
    by (simp only: std_codec_def vcodec.simps rfc9000_dec_bounds)
  show "dec_vi64 std_codec bs = Some (n, j) \<Longrightarrow> 0 \<le> n \<and> n < 2 ^ 64 \<and> 0 < j \<and> j \<le> length bs"
    by (simp only: std_codec_def vcodec.simps vi64_dec_bounds)
  show "0 \<le> n \<Longrightarrow> n < 64 \<Longrightarrow>
      enc_var std_codec n = Some [word_of_int n] \<and> enc_vi64 std_codec n = Some [word_of_int n]"
    by (simp add: std_codec_def rfc9000_enc_def vi64_enc_def tag_enc_def)
  show "enc_u8 std_codec n = Some bs \<longleftrightarrow> 0 \<le> n \<and> n < 256 \<and> bs = [word_of_int n]"
    by (auto simp: std_codec_def u8_enc_def)
  show "dec_u8 std_codec bs = (case bs of [] \<Rightarrow> None | w # _ \<Rightarrow> Some (uint w, 1))"
    by (simp add: std_codec_def u8_dec_def)
  show "enc_u16 std_codec n = Some bs \<Longrightarrow> length bs = 2 \<and> dec_u16 std_codec (bs @ rest) = Some (n, 2)"
  proof -
    assume "enc_u16 std_codec n = Some bs"
    then have n: "0 \<le> n" "n < 65536" and bs: "bs = be_bytes 2 n"
      by (auto simp: std_codec_def u16_enc_def split: if_splits)
    have "length bs = 2" by (simp only: bs length_be_bytes)
    moreover have "be_int bs = n"
      using be_int_be_bytes [of n 2] n by (simp only: bs) simp
    ultimately show ?thesis by (simp add: std_codec_def u16_dec_def)
  qed
  show "(\<exists>bs. enc_u16 std_codec n = Some bs) \<longleftrightarrow> 0 \<le> n \<and> n < 65536"
    by (simp add: std_codec_def u16_enc_def)
  show "dec_u16 std_codec bs = Some (n, j) \<Longrightarrow> 0 \<le> n \<and> n < 65536 \<and> j = 2 \<and> 2 \<le> length bs"
    using be_int_bounds [of "take 2 bs"]
    by (auto simp: std_codec_def u16_dec_def split: if_splits)
qed

end
