(* ===== verification/Py_Str.thy ===== *)
theory Py_Str
  imports Prelude
begin

text \<open>
  Python strings as lists of code points, with \<^verbatim>\<open>str.encode()\<close> and
  \<^verbatim>\<open>bytes.decode()\<close> in UTF-8: encoding a surrogate raises \<open>UnicodeEncodeError\<close>; strict
  decoding raises on the first malformed sequence; \<^verbatim>\<open>errors='replace'\<close> puts U+FFFD for each
  maximal prefix of a sequence that turns out malformed.
\<close>

type_synonym pystr = "nat list"

definition scalar :: "nat \<Rightarrow> bool" where
  "scalar c \<longleftrightarrow> c < 0x110000 \<and> \<not> (0xD800 \<le> c \<and> c \<le> 0xDFFF)"

text \<open>One code point as byte values.\<close>

definition utf8_char :: "nat \<Rightarrow> nat list" where
  "utf8_char c =
    (if c < 0x80 then [c]
     else if c < 0x800 then [0xC0 + c div 64, 0x80 + c mod 64]
     else if c < 0x10000 then [0xE0 + c div 4096, 0x80 + c div 64 mod 64, 0x80 + c mod 64]
     else [0xF0 + c div 262144, 0x80 + c div 4096 mod 64, 0x80 + c div 64 mod 64, 0x80 + c mod 64])"

definition cont :: "nat \<Rightarrow> bool" where
  "cont b \<longleftrightarrow> 0x80 \<le> b \<and> b \<le> 0xBF"

text \<open>The second byte allowed after a lead byte of a three- or four-byte sequence.\<close>

definition second_ok :: "nat \<Rightarrow> nat \<Rightarrow> bool" where
  "second_ok a b \<longleftrightarrow>
     (if a = 0xE0 then 0xA0 \<le> b \<and> b \<le> 0xBF
      else if a = 0xED then 0x80 \<le> b \<and> b \<le> 0x9F
      else if a = 0xF0 then 0x90 \<le> b \<and> b \<le> 0xBF
      else if a = 0xF4 then 0x80 \<le> b \<and> b \<le> 0x8F
      else cont b)"

text \<open>
  The next code point and the bytes it takes; None for a malformed sequence, with the length of
  its maximal well-formed prefix (at least one byte).
\<close>

fun utf8_next :: "nat list \<Rightarrow> nat option \<times> nat" where
  "utf8_next [] = (None, 1)"
| "utf8_next (a # t) =
    (if a < 0x80 then (Some a, 1)
     else if 0xC2 \<le> a \<and> a \<le> 0xDF then
       (case t of
          b # _ \<Rightarrow> if cont b then (Some ((a - 0xC0) * 64 + (b - 0x80)), 2) else (None, 1)
        | [] \<Rightarrow> (None, 1))
     else if 0xE0 \<le> a \<and> a \<le> 0xEF then
       (case t of
          [] \<Rightarrow> (None, 1)
        | b # t' \<Rightarrow> if \<not> second_ok a b then (None, 1) else
            (case t' of
               [] \<Rightarrow> (None, 2)
             | c # _ \<Rightarrow> if cont c
                 then (Some ((a - 0xE0) * 4096 + (b - 0x80) * 64 + (c - 0x80)), 3) else (None, 2)))
     else if 0xF0 \<le> a \<and> a \<le> 0xF4 then
       (case t of
          [] \<Rightarrow> (None, 1)
        | b # t' \<Rightarrow> if \<not> second_ok a b then (None, 1) else
            (case t' of
               [] \<Rightarrow> (None, 2)
             | c # t'' \<Rightarrow> if \<not> cont c then (None, 2) else
                 (case t'' of
                    [] \<Rightarrow> (None, 3)
                  | d # _ \<Rightarrow> if cont d
                      then (Some ((a - 0xF0) * 262144 + (b - 0x80) * 4096 + (c - 0x80) * 64 + (d - 0x80)), 4)
                      else (None, 3))))
     else (None, 1))"

lemma utf8_next_pos: "0 < snd (utf8_next bs)"
  by (cases bs) (simp_all split: list.splits)

lemma utf8_next_shorter: "(x, k) = utf8_next bs \<Longrightarrow> bs \<noteq> [] \<Longrightarrow> length bs - k < length bs"
  using utf8_next_pos [of bs] by (cases bs) (auto simp del: utf8_next.simps dest!: arg_cong [where f = snd])

function utf8_decode_with :: "'e option \<Rightarrow> nat list \<Rightarrow> 'e + nat list" where
  "utf8_decode_with strict bs =
    (if bs = [] then Inr []
     else case utf8_next bs of
       (Some c, k) \<Rightarrow>
         (case utf8_decode_with strict (drop k bs) of Inl e \<Rightarrow> Inl e | Inr cs \<Rightarrow> Inr (c # cs))
     | (None, k) \<Rightarrow>
         (case strict of
            Some e \<Rightarrow> Inl e
          | None \<Rightarrow>
              (case utf8_decode_with strict (drop k bs) of Inl e \<Rightarrow> Inl e | Inr cs \<Rightarrow> Inr (0xFFFD # cs))))"
  by pat_completeness auto
termination
  by (relation "measure (length \<circ> snd)") (auto dest: utf8_next_shorter)

declare utf8_decode_with.simps [simp del]

definition str_encode :: "pystr \<Rightarrow> bytes result" where
  "str_encode s = (if list_all scalar s then Inr (map word_of_nat (concat (map utf8_char s)))
                   else Inl UnicodeError)"

definition bytes_decode :: "bytes \<Rightarrow> pystr result" where
  "bytes_decode bs = utf8_decode_with (Some UnicodeError) (map unat bs)"

definition bytes_decode_replace :: "bytes \<Rightarrow> pystr" where
  "bytes_decode_replace bs =
    (case utf8_decode_with (None :: unit option) (map unat bs) of Inl _ \<Rightarrow> [] | Inr cs \<Rightarrow> cs)"

section \<open>Round trip\<close>

lemma utf8_char_bytes: "scalar c \<Longrightarrow> b \<in> set (utf8_char c) \<Longrightarrow> b < 256"
  by (auto simp: utf8_char_def scalar_def split: if_splits)

text \<open>A code point cut into six-bit digits.\<close>

lemma six_bit_digits:
  fixes c :: nat
  obtains p s r where "c = p * 4096 + s * 64 + r" "s < 64" "r < 64"
    "c div 4096 = p" "c div 64 mod 64 = s" "c mod 64 = r"
proof
  have a: "c div 4096 = c div 64 div 64" by (simp add: div_mult2_eq [symmetric])
  have "c = c div 64 * 64 + c mod 64" by simp
  moreover have "c div 64 = c div 64 div 64 * 64 + c div 64 mod 64" by simp
  ultimately show "c = c div 4096 * 4096 + c div 64 mod 64 * 64 + c mod 64"
    unfolding a by linarith
qed simp_all

lemma second_ok3:
  assumes "p < 16" "s < 64" "p = 0 \<Longrightarrow> 32 \<le> s" "p = 13 \<Longrightarrow> s \<le> 31"
  shows "second_ok (0xE0 + p) (0x80 + s)"
  using assms by (auto simp: second_ok_def cont_def)

lemma second_ok4:
  assumes "p \<le> 4" "s < 64" "p = 0 \<Longrightarrow> 16 \<le> s" "p = 4 \<Longrightarrow> s \<le> 15"
  shows "second_ok (0xF0 + p) (0x80 + s)"
  using assms by (auto simp: second_ok_def cont_def)

lemma utf8_next3:
  assumes "p < 16" "s < 64" "r < 64" "p = 0 \<Longrightarrow> 32 \<le> s" "p = 13 \<Longrightarrow> s \<le> 31"
  shows "utf8_next ([0xE0 + p, 0x80 + s, 0x80 + r] @ rest) = (Some (p * 4096 + s * 64 + r), 3)"
  using assms(1,3) second_ok3 [OF assms(1,2,4,5)] by (simp add: cont_def)

lemma utf8_next4:
  assumes "p \<le> 4" "s < 64" "r < 64" "q < 64" "p = 0 \<Longrightarrow> 16 \<le> s" "p = 4 \<Longrightarrow> s \<le> 15"
  shows "utf8_next ([0xF0 + p, 0x80 + s, 0x80 + r, 0x80 + q] @ rest)
         = (Some (p * 262144 + s * 4096 + r * 64 + q), 4)"
  using assms(1,3,4) second_ok4 [OF assms(1,2,5,6)] by (simp add: cont_def)

lemma utf8_next_char:
  assumes "scalar c"
  shows "utf8_next (utf8_char c @ rest) = (Some c, length (utf8_char c))"
proof -
  have top: "c < 0x110000" and gap: "c < 0xD800 \<or> 0xDFFF < c"
    using assms by (auto simp: scalar_def)
  consider "c < 0x80" | "0x80 \<le> c" "c < 0x800" | "0x800 \<le> c" "c < 0x10000" | "0x10000 \<le> c"
    by linarith
  then show ?thesis
  proof cases
    case 1
    then show ?thesis by (simp add: utf8_char_def)
  next
    case 2
    have "0xC2 \<le> 0xC0 + c div 64" "0xC0 + c div 64 \<le> 0xDF"
      using 2 by auto
    then show ?thesis using 2 by (simp add: utf8_char_def cont_def)
  next
    case 3
    obtain p s r where c: "c = p * 4096 + s * 64 + r" "s < 64" "r < 64"
      and d: "c div 4096 = p" "c div 64 mod 64 = s" "c mod 64 = r"
      by (rule six_bit_digits)
    have "p < 16" "p = 0 \<Longrightarrow> 32 \<le> s" "p = 13 \<Longrightarrow> s \<le> 31"
      using 3 c gap by linarith+
    then have "utf8_next ([0xE0 + p, 0x80 + s, 0x80 + r] @ rest) = (Some c, 3)"
      unfolding c(1) using c(2,3) by (intro utf8_next3)
    moreover have "utf8_char c = [0xE0 + p, 0x80 + s, 0x80 + r]"
      using 3 by (simp only: utf8_char_def d) simp
    ultimately show ?thesis by simp
  next
    case 4
    obtain t r q where c: "c = t * 4096 + r * 64 + q" "r < 64" "q < 64"
      and d: "c div 4096 = t" "c div 64 mod 64 = r" "c mod 64 = q"
      by (rule six_bit_digits)
    have t: "t = t div 64 * 64 + t mod 64" "t mod 64 < 64" by simp_all
    have e: "c div 262144 = t div 64" "c div 4096 mod 64 = t mod 64"
      unfolding d(1) [symmetric] by (simp_all add: div_mult2_eq [symmetric])
    have "t div 64 \<le> 4" "t div 64 = 0 \<Longrightarrow> 16 \<le> t mod 64" "t div 64 = 4 \<Longrightarrow> t mod 64 \<le> 15"
      using 4 c top t by linarith+
    then have "utf8_next ([0xF0 + t div 64, 0x80 + t mod 64, 0x80 + r, 0x80 + q] @ rest)
        = (Some (t div 64 * 262144 + t mod 64 * 4096 + r * 64 + q), 4)"
      using c(2,3) t(2) by (intro utf8_next4)
    moreover have "t div 64 * 262144 + t mod 64 * 4096 + r * 64 + q = c"
      using c(1) t(1) by linarith
    moreover have "utf8_char c = [0xF0 + t div 64, 0x80 + t mod 64, 0x80 + r, 0x80 + q]"
      using 4 by (simp only: utf8_char_def e d(2,3)) simp
    ultimately show ?thesis by simp
  qed
qed

lemma utf8_char_neq_Nil [simp]: "utf8_char c \<noteq> []"
  by (simp add: utf8_char_def)

lemma utf8_decode_concat:
  "list_all scalar s \<Longrightarrow> utf8_decode_with strict (concat (map utf8_char s)) = Inr s"
proof (induction s)
  case Nil
  then show ?case by (simp add: utf8_decode_with.simps)
next
  case (Cons c s)
  then show ?case
    by (subst utf8_decode_with.simps) (simp add: utf8_next_char)
qed

lemma map_unat_word_of_nat:
  "\<forall>b \<in> set bs. b < 256 \<Longrightarrow> map unat (map (word_of_nat :: nat \<Rightarrow> byte) bs) = bs"
  by (induction bs) (simp_all add: unat_of_nat)

text \<open>Both decoders give back what was encoded.\<close>

theorem str_roundtrip:
  assumes "str_encode s = Inr bs"
  shows "bytes_decode bs = Inr s" and "bytes_decode_replace bs = s"
proof -
  from assms have s: "list_all scalar s" and bs: "bs = map word_of_nat (concat (map utf8_char s))"
    by (auto simp: str_encode_def split: if_splits)
  have "map unat bs = concat (map utf8_char s)"
    unfolding bs using s by (intro map_unat_word_of_nat) (auto simp: list_all_iff dest: utf8_char_bytes)
  then show "bytes_decode bs = Inr s" "bytes_decode_replace bs = s"
    using s by (simp_all add: bytes_decode_def bytes_decode_replace_def utf8_decode_concat)
qed

end
