(* ===== verification/Filters.thy ===== *)
theory Filters
  imports Buffer_Model Py_Str
begin

text \<open>
  \<^verbatim>\<open>messages/params.py\<close>: the parameter tables of draft 20 and 22, the Location Filter and the Range
  Filter with their wire codecs and their evaluation. The decoded value of a message parameter is a
  \<open>pval\<close>: Python's dynamically typed values are its constructors, and using a value where
  the code expects another class is the exception Python raises.
\<close>

section \<open>Tables\<close>

definition U64_MAX :: int where "U64_MAX = 2 ^ 64 - 1"

definition D20ParamType :: int_enum where
  "D20ParamType =
    [(''FILL_TIMEOUT'', 0x0A), (''LOCATION_FILTER'', 0x21), (''FILL_PARAMETERS'', 0x23),
     (''SUBGROUP_FILTER'', 0x25), (''OBJECTID_FILTER'', 0x26), (''PRIORITY_FILTER'', 0x27),
     (''OBJECT_PROPERTY_FILTER'', 0x28), (''TRACK_PROPERTY_FILTER'', 0x29),
     (''INCLUDE_PROPERTIES'', 0x35)]"

definition RANGE_FILTERS :: "int list" where "RANGE_FILTERS = [0x25, 0x26, 0x27, 0x28, 0x29]"
definition PROPERTY_FILTERS :: "int list" where "PROPERTY_FILTERS = [0x28, 0x29]"

definition D20_KINDS :: "param_kind dict" where
  "D20_KINDS =
    [(0x02, K_varint), (0x03, K_bytes), (0x04, K_varint), (0x06, K_varint), (0x08, K_varint),
     (0x09, K_location), (0x0A, K_varint), (0x10, K_uint8), (0x20, K_uint8),
     (0x21, K_location_filter), (0x22, K_uint8), (0x23, K_fill), (0x25, K_range_filter),
     (0x26, K_range_filter), (0x27, K_range_filter), (0x28, K_range_filter),
     (0x29, K_range_filter), (0x32, K_varint), (0x34, K_tuple), (0x35, K_uint8)]"

definition D22_KINDS :: "param_kind dict" where
  "D22_KINDS = dict_set D20_KINDS 0x34 K_namespace"

definition SUBSCRIBE_PARAMS :: "int list" where
  "SUBSCRIBE_PARAMS = [0x02, 0x03, 0x04, 0x06, 0x10, 0x20, 0x21, 0x22, 0x23, 0x25, 0x26, 0x27, 0x28, 0x32, 0x35]"
definition UPDATE_SUBSCRIPTION :: "int list" where
  "UPDATE_SUBSCRIPTION = [0x02, 0x03, 0x06, 0x10, 0x20, 0x21, 0x23, 0x25, 0x26, 0x27, 0x28, 0x32]"
definition UPDATE_FETCH :: "int list" where "UPDATE_FETCH = [0x03, 0x20]"
definition UPDATE_PUBLISH_NAMESPACE :: "int list" where "UPDATE_PUBLISH_NAMESPACE = [0x03]"
definition UPDATE_SUBSCRIBE_NAMESPACE :: "int list" where "UPDATE_SUBSCRIBE_NAMESPACE = [0x03, 0x34]"
definition UPDATE_SUBSCRIBE_TRACKS :: "int list" where "UPDATE_SUBSCRIBE_TRACKS = [0x03, 0x10, 0x29, 0x34]"

definition D20_SCOPE :: "(string \<times> int list) list" where
  "D20_SCOPE =
    [(''Subscribe'', SUBSCRIBE_PARAMS),
     (''SubscribeOk'', [0x08, 0x09]),
     (''Publish'', [0x02, 0x03, 0x06, 0x08, 0x09, 0x10, 0x20, 0x21, 0x22]),
     (''PublishOk'', [0x08]),
     (''PublishStateNotify'', [0x09, 0x10, 0x21]),
     (''Fetch'', [0x03, 0x0A, 0x20, 0x21, 0x22, 0x25, 0x26, 0x27, 0x28, 0x35]),
     (''FetchOk'', []),
     (''TrackStatus'', [0x03, 0x35]),
     (''PublishNamespace'', [0x03]),
     (''SubscribeNamespace'', [0x03]),
     (''SubscribeTracks'', SUBSCRIBE_PARAMS @ [0x29]),
     (''RequestUpdate'', UPDATE_SUBSCRIPTION @ UPDATE_FETCH @ UPDATE_SUBSCRIBE_NAMESPACE
        @ UPDATE_SUBSCRIBE_TRACKS),
     (''RequestOk'', [0x08, 0x09]),
     (''FillParameters'', [0x0A, 0x20, 0x21, 0x22, 0x25, 0x26, 0x27, 0x28]),
     (''RequestUpdate:Subscription'', UPDATE_SUBSCRIPTION),
     (''RequestUpdate:Fetch'', UPDATE_FETCH),
     (''RequestUpdate:PublishNamespace'', UPDATE_PUBLISH_NAMESPACE),
     (''RequestUpdate:SubscribeNamespace'', UPDATE_SUBSCRIBE_NAMESPACE),
     (''RequestUpdate:SubscribeTracks'', UPDATE_SUBSCRIBE_TRACKS),
     (''RequestOk:Publish'', [0x08]),
     (''RequestOk:RequestUpdate'', [0x08, 0x09]),
     (''RequestOk:TrackStatus'', [0x09]),
     (''RequestOk:SubscribeNamespace'', [0x08]),
     (''RequestOk:SubscribeTracks'', [0x08]),
     (''RequestOk:PublishNamespace'', [0x08])]"

definition KINDS :: "param_kind dict dict" where
  "KINDS = [(18, D18_PARAM_KINDS), (20, D20_KINDS), (22, D22_KINDS)]"
definition SCOPES :: "(string \<times> int list) list dict" where
  "SCOPES = [(18, D18_PARAM_SCOPE), (20, D20_SCOPE), (22, D20_SCOPE)]"

definition REPEATABLE :: "int list" where "REPEATABLE = 0x03 # RANGE_FILTERS"
definition VALUE_RANGES :: "(int \<times> int) dict" where "VALUE_RANGES = [(0x35, (0, 1))]"

definition param_kinds :: "DraftProfile \<Rightarrow> param_kind dict result" where
  "param_kinds prof = of_option KeyError (dict_get KINDS (param_table prof))"

definition param_scope :: "DraftProfile \<Rightarrow> (string \<times> int list) list result" where
  "param_scope prof = of_option KeyError (dict_get SCOPES (param_table prof))"

definition d20_params :: "DraftProfile \<Rightarrow> bool" where
  "d20_params prof \<longleftrightarrow> 18 \<le> draft prof \<and> 20 \<le> param_table prof"

definition uses_location_filter :: "DraftProfile \<Rightarrow> bool" where
  "uses_location_filter prof = d20_params prof"

definition check_param_scope :: "int list \<Rightarrow> string \<Rightarrow> DraftProfile \<Rightarrow> unit result" where
  "check_param_scope params scope prof =
    (if draft prof < 18 \<or> param_table prof < 20 then Inr ()
     else case map_of D20_SCOPE scope of
       None \<Rightarrow> Inr ()
     | Some allowed \<Rightarrow> guardR (\<forall>t \<in> set params. t \<in> set allowed) MOQTProtocolViolation)"

section \<open>Location Filter\<close>

datatype LocationFilterType =
    LF_NONE | LF_RELATIVE_START | LF_ABSOLUTE_START | LF_ABSOLUTE_GROUP_END | LF_ABSOLUTE_RANGE
  | LF_NEXT_OBJECT

fun lft_int :: "LocationFilterType \<Rightarrow> int" where
  "lft_int LF_NONE = 0"
| "lft_int LF_RELATIVE_START = 1"
| "lft_int LF_ABSOLUTE_START = 2"
| "lft_int LF_ABSOLUTE_GROUP_END = 3"
| "lft_int LF_ABSOLUTE_RANGE = 4"
| "lft_int LF_NEXT_OBJECT = 5"

definition lft_of_int :: "int \<Rightarrow> LocationFilterType result" where
  "lft_of_int n =
    (if n = 0 then Inr LF_NONE else if n = 1 then Inr LF_RELATIVE_START
     else if n = 2 then Inr LF_ABSOLUTE_START else if n = 3 then Inr LF_ABSOLUTE_GROUP_END
     else if n = 4 then Inr LF_ABSOLUTE_RANGE else if n = 5 then Inr LF_NEXT_OBJECT
     else Inl ValueError)"

record LocationFilter =
  lf_type :: LocationFilterType
  lf_start_group :: "int option"
  lf_start_object :: "int option"
  lf_end_group :: "int option"
  lf_end_object :: "int option"

text \<open>\<^verbatim>\<open>_FIELDS\<close>: the number of leading fields (start group, start object, end group, end object) a form has.\<close>

fun lf_need :: "LocationFilterType \<Rightarrow> nat" where
  "lf_need LF_NONE = 0"
| "lf_need LF_RELATIVE_START = 1"
| "lf_need LF_ABSOLUTE_START = 2"
| "lf_need LF_ABSOLUTE_GROUP_END = 3"
| "lf_need LF_ABSOLUTE_RANGE = 4"
| "lf_need LF_NEXT_OBJECT = 0"

definition lf_attrs :: "LocationFilter \<Rightarrow> int option list" where
  "lf_attrs lf = [lf_start_group lf, lf_start_object lf, lf_end_group lf, lf_end_object lf]"

text \<open>\<^verbatim>\<open>__post_init__\<close>: exactly the fields of the form are set, in range, and the end is not before the start.\<close>

definition lf_ok :: "LocationFilter \<Rightarrow> bool" where
  "lf_ok lf \<longleftrightarrow>
    list_all (\<lambda>(i, x). (x = None) = (lf_need (lf_type lf) \<le> i)
                       \<and> (case x of None \<Rightarrow> True | Some v \<Rightarrow> 0 \<le> v \<and> v \<le> U64_MAX))
             (enumerate 0 (lf_attrs lf))
    \<and> (case (lf_start_group lf, lf_end_group lf) of (Some s, Some e) \<Rightarrow> s \<le> e | _ \<Rightarrow> True)"

definition LocationFilter_new ::
    "LocationFilterType \<Rightarrow> int option \<Rightarrow> int option \<Rightarrow> int option \<Rightarrow> int option \<Rightarrow> LocationFilter result" where
  "LocationFilter_new t sg so eg eo =
    (let lf = \<lparr>lf_type = t, lf_start_group = sg, lf_start_object = so, lf_end_group = eg, lf_end_object = eo\<rparr>
     in if lf_ok lf then Inr lf else Inl ValueError)"

definition lf_none :: "LocationFilter result" where
  "lf_none = LocationFilter_new LF_NONE None None None None"
definition lf_next_object :: "LocationFilter result" where
  "lf_next_object = LocationFilter_new LF_NEXT_OBJECT None None None None"
definition lf_relative :: "int \<Rightarrow> LocationFilter result" where
  "lf_relative groups = LocationFilter_new LF_RELATIVE_START (Some groups) None None None"

definition lf_absolute :: "int \<Rightarrow> int \<Rightarrow> int option \<Rightarrow> int option \<Rightarrow> LocationFilter result" where
  "lf_absolute sg so eg eo =
    (case eg of
       None \<Rightarrow> (case eo of
           Some _ \<Rightarrow> Inl ValueError
         | None \<Rightarrow> LocationFilter_new LF_ABSOLUTE_START (Some sg) (Some so) None None)
     | Some e \<Rightarrow> (case eo of
           None \<Rightarrow> LocationFilter_new LF_ABSOLUTE_GROUP_END (Some sg) (Some so) (Some e) None
         | Some o' \<Rightarrow> LocationFilter_new LF_ABSOLUTE_RANGE (Some sg) (Some so) (Some e) (Some o')))"

text \<open>A field the form is known to have (the constructor refuses a filter without it).\<close>

definition attr :: "int option \<Rightarrow> int" where
  "attr x = (case x of None \<Rightarrow> 0 | Some v \<Rightarrow> v)"

definition lf_fields :: "LocationFilter \<Rightarrow> int list" where
  "lf_fields lf =
    (let values = map attr (take (lf_need (lf_type lf)) (lf_attrs lf))
     in if 3 \<le> length values then values[2 := values ! 2 - attr (lf_start_group lf)] else values)"

definition lf_wire_fields :: "LocationFilter \<Rightarrow> int list" where
  "lf_wire_fields lf =
    (if lf_type lf = LF_NEXT_OBJECT then [0, 0]
     else if lf_type lf = LF_ABSOLUTE_START \<and> lf_start_group lf = Some 0 \<and> lf_start_object lf = Some 0 then []
     else lf_fields lf)"

text \<open>\<open>f\<close> is the integer flavour of the target buffer.\<close>

definition lf_encode :: "vcodec \<Rightarrow> bool \<Rightarrow> DraftProfile \<Rightarrow> LocationFilter \<Rightarrow> bytes result" where
  "lf_encode C f prof lf =
    (if location_filter_typed prof
     then wseq (push_vint C f (lft_int (lf_type lf)) # map (push_vint C f) (lf_fields lf))
     else bindR (in_buffer C 64 (wseq (map (push_vint C (vi64 prof)) (lf_wire_fields lf)))) (push_sized C f))"

fun pull_vints :: "vcodec \<Rightarrow> nat \<Rightarrow> int list reader" where
  "pull_vints C 0 = rret []"
| "pull_vints C (Suc n) = rbind (pull_vint C) (\<lambda>v. rbind (pull_vints C n) (\<lambda>vs. rret (v # vs)))"

text \<open>The fields up to the end of the value, refusing a fifth one.\<close>

function lf_loop :: "vcodec \<Rightarrow> nat \<Rightarrow> int list \<Rightarrow> int list reader" where
  "lf_loop C stop fs b =
    (if rb_pos b < stop then
       if length fs = 4 then Inl MOQTProtocolViolation
       else case pull_vint C b of Inl e \<Rightarrow> Inl e | Inr (v, b') \<Rightarrow> lf_loop C stop (fs @ [v]) b'
     else Inr (fs, b))"
  by pat_completeness auto
termination
  by (relation "measure (\<lambda>(C, stop, fs, b). stop - rb_pos b)") (auto dest!: pull_vint_advances simp: adv_def)

declare lf_loop.simps [simp del]

definition past :: "nat option \<Rightarrow> nat \<Rightarrow> bool" where
  "past buf_end p \<longleftrightarrow> (case buf_end of None \<Rightarrow> False | Some e \<Rightarrow> e < p)"

definition lf_pull_typed :: "vcodec \<Rightarrow> nat option \<Rightarrow> (LocationFilterType \<times> int list) reader" where
  "lf_pull_typed C buf_end =
    rbind (pull_vint C) (\<lambda>raw.
    rbind (rguard (raw \<le> 5) MOQTProtocolViolation) (\<lambda>_.
    rbind (rlift (lft_of_int raw)) (\<lambda>ftype.
    rbind (pull_vints C (lf_need ftype)) (\<lambda>fields.
    rbind rtell (\<lambda>p.
    rbind (rguard (\<not> past buf_end p) MOQTProtocolViolation) (\<lambda>_. rret (ftype, fields)))))))"

definition lf_pull_counted :: "vcodec \<Rightarrow> nat option \<Rightarrow> (LocationFilterType \<times> int list) reader" where
  "lf_pull_counted C buf_end =
    rbind (pull_vint C) (\<lambda>n.
    rbind rtell (\<lambda>p. let stop = p + nat n in
    rbind (rguard (\<not> past buf_end stop) MOQTProtocolViolation) (\<lambda>_.
    rbind (lf_loop C stop []) (\<lambda>fields.
    rbind rtell (\<lambda>p'.
    rbind (rguard (p' = stop) MOQTProtocolViolation) (\<lambda>_.
    if fields = [0, 0] then rret (LF_NEXT_OBJECT, [])
    else rbind (rlift (lft_of_int (int (length fields)))) (\<lambda>ftype.
      rret (ftype, if ftype = LF_NEXT_OBJECT then [] else fields))))))))"

definition nth_opt :: "'a list \<Rightarrow> nat \<Rightarrow> 'a option" where
  "nth_opt xs i = (if i < length xs then Some (xs ! i) else None)"

text \<open>Only the short read of a plain buffer is turned into a violation here.\<close>

definition lf_decode :: "vcodec \<Rightarrow> DraftProfile \<Rightarrow> nat option \<Rightarrow> LocationFilter reader" where
  "lf_decode C prof buf_end =
    rbind (rcatch (\<lambda>e. e = BufferReadError)
        (if location_filter_typed prof then lf_pull_typed C buf_end else lf_pull_counted C buf_end)
        (\<lambda>_. rfail MOQTProtocolViolation)) (\<lambda>(ftype, fields).
    let fields' = (if 3 \<le> length fields then fields[2 := fields ! 2 + fields ! 0] else fields) in
    rbind (rguard (length fields < 3 \<or> fields' ! 2 \<le> U64_MAX) MOQTProtocolViolation) (\<lambda>_.
    rlift (LocationFilter_new ftype (nth_opt fields' 0) (nth_opt fields' 1) (nth_opt fields' 2)
             (nth_opt fields' 3))))"

text \<open>The forms of drafts 14 to 18. \<^verbatim>\<open>x or 0\<close> of an optional integer is \<^term>\<open>attr\<close>.\<close>

definition lf_from_subscription_filter ::
    "int \<Rightarrow> int option \<Rightarrow> int option \<Rightarrow> int option \<Rightarrow> LocationFilter result" where
  "lf_from_subscription_filter filter_type sg so eg =
    (if filter_type = 1 then lf_relative 0
     else if filter_type = 2 then lf_next_object
     else if filter_type = 3 then lf_absolute (attr sg) (attr so) None None
     else if filter_type = 4 then lf_absolute (attr sg) (attr so) (Some (attr eg)) None
     else Inl ValueError)"

definition lf_subscription_filter ::
    "LocationFilter \<Rightarrow> (int option \<times> int option \<times> int option \<times> int option) option" where
  "lf_subscription_filter lf =
    (case lf_type lf of
       LF_NONE \<Rightarrow> Some (None, None, None, None)
     | LF_RELATIVE_START \<Rightarrow> if lf_start_group lf = Some 0 then Some (Some 1, None, None, None) else None
     | LF_NEXT_OBJECT \<Rightarrow> Some (Some 2, None, None, None)
     | LF_ABSOLUTE_START \<Rightarrow> Some (Some 3, lf_start_group lf, lf_start_object lf, None)
     | LF_ABSOLUTE_GROUP_END \<Rightarrow> Some (Some 4, lf_start_group lf, lf_start_object lf, lf_end_group lf)
     | LF_ABSOLUTE_RANGE \<Rightarrow> None)"

definition lf_from_fetch_range ::
    "int option \<Rightarrow> int option \<Rightarrow> int option \<Rightarrow> int option \<Rightarrow> LocationFilter result" where
  "lf_from_fetch_range sg so eg eo =
    (case eg of
       None \<Rightarrow> lf_absolute (attr sg) (attr so) None None
     | Some e \<Rightarrow>
         if attr eo = 0 then lf_absolute (attr sg) (attr so) (Some e) None
         else lf_absolute (attr sg) (attr so) (Some e) (Some (attr eo - 1)))"

definition lf_fetch_range :: "LocationFilter \<Rightarrow> (int \<times> int \<times> int option \<times> int option) option" where
  "lf_fetch_range lf =
    (let sg = attr (lf_start_group lf); so = attr (lf_start_object lf) in
     case lf_type lf of
       LF_NONE \<Rightarrow> Some (0, 0, None, None)
     | LF_ABSOLUTE_START \<Rightarrow> Some (sg, so, None, None)
     | LF_ABSOLUTE_GROUP_END \<Rightarrow> Some (sg, so, lf_end_group lf, Some 0)
     | LF_ABSOLUTE_RANGE \<Rightarrow> Some (sg, so, lf_end_group lf, Some (attr (lf_end_object lf) + 1))
     | _ \<Rightarrow> None)"

type_synonym location = "int \<times> int"

text \<open>Python compares tuples lexicographically.\<close>

definition loc_less :: "location \<Rightarrow> location \<Rightarrow> bool" where
  "loc_less p q \<longleftrightarrow> fst p < fst q \<or> fst p = fst q \<and> snd p < snd q"

definition loc_le :: "location \<Rightarrow> location \<Rightarrow> bool" where
  "loc_le p q \<longleftrightarrow> \<not> loc_less q p"

definition loc_min :: "location \<Rightarrow> location \<Rightarrow> location" where
  "loc_min p q = (if loc_less q p then q else p)"

definition lf_resolve :: "LocationFilter \<Rightarrow> location option \<Rightarrow> bool \<Rightarrow> location \<times> location option" where
  "lf_resolve lf largest fetch =
    (let t = lf_type lf;
         start = (if t = LF_RELATIVE_START then
                    (let group = (case largest of None \<Rightarrow> 0 | Some l \<Rightarrow> fst l + 1)
                     in (max 0 (group - attr (lf_start_group lf)), 0))
                  else if t = LF_NEXT_OBJECT then
                    (case largest of None \<Rightarrow> (0, 0) | Some l \<Rightarrow> (fst l, snd l + 1))
                  else if t = LF_NONE then (0, 0)
                  else (attr (lf_start_group lf), attr (lf_start_object lf)));
         e = (if t = LF_ABSOLUTE_GROUP_END then Some (attr (lf_end_group lf), U64_MAX)
              else if t = LF_ABSOLUTE_RANGE then Some (attr (lf_end_group lf), attr (lf_end_object lf))
              else None);
         e' = (case (fetch, largest) of
                 (True, Some l) \<Rightarrow> (case e of None \<Rightarrow> Some l | Some x \<Rightarrow> Some (loc_min x l))
               | _ \<Rightarrow> e)
     in (start, e'))"

section \<open>Range Filter\<close>

record RangeFilter =
  rf_set_id :: "int option"
  rf_ranges :: "(int \<times> int option) list"
  rf_property_type :: "int option"

fun rf_push_ranges :: "vcodec \<Rightarrow> bool \<Rightarrow> int \<Rightarrow> (int \<times> int option) list \<Rightarrow> bytes result" where
  "rf_push_ranges C f prev [] = Inr []"
| "rf_push_ranges C f prev ((start, stop) # rs) =
    bindR (guardR (\<not> (start < prev \<or> (case stop of None \<Rightarrow> False | Some e \<Rightarrow> e < start))) ValueError) (\<lambda>_.
    bindR (guardR (stop \<noteq> None \<or> rs = []) ValueError) (\<lambda>_.
    case stop of
      None \<Rightarrow> wseq [push_vint C f (start - prev), rf_push_ranges C f prev rs]
    | Some e \<Rightarrow> wseq [push_vint C f (start - prev), push_vint C f (e - start), rf_push_ranges C f e rs]))"

definition rf_push_body :: "vcodec \<Rightarrow> bool \<Rightarrow> int \<Rightarrow> RangeFilter \<Rightarrow> bytes result" where
  "rf_push_body C f ptype rf =
    (case rf_set_id rf of
       None \<Rightarrow> Inr []
     | Some sid \<Rightarrow>
         bindR (guardR (0 \<le> sid \<and> sid \<le> 255) ValueError) (\<lambda>_.
         wseq [push_uint8 C sid,
               if ptype \<in> set PROPERTY_FILTERS then
                 bindR (of_option ValueError (rf_property_type rf)) (push_vint C f)
               else bindR (guardR (rf_property_type rf = None) ValueError) (\<lambda>_. Inr []),
               rf_push_ranges C f 0 (rf_ranges rf)]))"

definition rf_encode :: "vcodec \<Rightarrow> bool \<Rightarrow> DraftProfile \<Rightarrow> int \<Rightarrow> RangeFilter \<Rightarrow> bytes result" where
  "rf_encode C f prof ptype rf =
    bindR (in_buffer C 1024 (rf_push_body C (vi64 prof) ptype rf)) (push_sized C f)"

function rf_loop :: "vcodec \<Rightarrow> nat \<Rightarrow> int \<Rightarrow> (int \<times> int option) list reader" where
  "rf_loop C stop prev b =
    (if rb_pos b < stop then
       (case pull_vint C b of
          Inl e \<Rightarrow> Inl e
        | Inr (d, b1) \<Rightarrow>
            (let start = prev + d in
             if rb_pos b1 < stop then
               (case pull_vint C b1 of
                  Inl e \<Rightarrow> Inl e
                | Inr (d2, b2) \<Rightarrow>
                    (case rf_loop C stop (start + d2) b2 of
                       Inl e \<Rightarrow> Inl e
                     | Inr (rs, b3) \<Rightarrow> Inr ((start, Some (start + d2)) # rs, b3)))
             else
               (case rf_loop C stop prev b1 of
                  Inl e \<Rightarrow> Inl e | Inr (rs, b3) \<Rightarrow> Inr ((start, None) # rs, b3))))
     else Inr ([], b))"
  by pat_completeness auto
termination
  by (relation "measure (\<lambda>(C, stop, prev, b). stop - rb_pos b)")
    (auto dest!: pull_vint_advances simp: adv_def)

declare rf_loop.simps [simp del]

definition rf_decode :: "vcodec \<Rightarrow> DraftProfile \<Rightarrow> int \<Rightarrow> nat option \<Rightarrow> RangeFilter reader" where
  "rf_decode C prof ptype buf_end =
    rbind (rcatch (\<lambda>e. e = BufferReadError)
      (rbind (pull_vint C) (\<lambda>n.
       rbind rtell (\<lambda>p. let stop = p + nat n in
       rbind (rguard (\<not> past buf_end stop) MOQTProtocolViolation) (\<lambda>_.
       if n = 0 then rret (None, stop) else
       rbind (pull_uint8 C) (\<lambda>sid.
       rbind (if ptype \<in> set PROPERTY_FILTERS then rbind (pull_vint C) (\<lambda>v. rret (Some v)) else rret None) (\<lambda>pt.
       rbind (rf_loop C stop 0) (\<lambda>rs. rret (Some (sid, pt, rs), stop))))))))
      (\<lambda>_. rfail MOQTProtocolViolation)) (\<lambda>(x, stop).
    case x of
      None \<Rightarrow> rret \<lparr>rf_set_id = None, rf_ranges = [], rf_property_type = None\<rparr>
    | Some (sid, pt, rs) \<Rightarrow>
        rbind rtell (\<lambda>p. rbind (rguard (p = stop) MOQTProtocolViolation) (\<lambda>_.
        rret \<lparr>rf_set_id = Some sid, rf_ranges = rs, rf_property_type = pt\<rparr>)))"

section \<open>Parameter values\<close>

record AuthTokenRef =
  at_alias_type :: int
  at_alias :: int
  at_token_type :: "int option"
  at_value :: "bytes option"

text \<open>
  \<open>PToken t v\<close> is an \<^verbatim>\<open>AuthToken\<close>, a \<^verbatim>\<open>bytes\<close> with a Token Type; \<open>PSeq\<close> is a list or tuple: a
  Location is one of two integers, a Track Namespace one of byte strings.
\<close>

datatype pval =
    PInt int
  | PBytes bytes
  | PStr pystr
  | PToken int bytes
  | PTokRef AuthTokenRef
  | PLocF LocationFilter
  | PRange RangeFilter
  | PSeq "pval list"
  | PDict "(int \<times> pval) list"

type_synonym params = "pval dict"

definition pv_range :: "pval \<Rightarrow> RangeFilter result" where
  "pv_range v = (case v of PRange f \<Rightarrow> Inr f | _ \<Rightarrow> Inl AttributeError)"

definition pv_items :: "pval \<Rightarrow> pval list" where
  "pv_items v = (case v of PSeq vs \<Rightarrow> vs | _ \<Rightarrow> [v])"

definition range_filter_items :: "params \<Rightarrow> (int \<times> pval) list" where
  "range_filter_items ps =
    concat (map (\<lambda>ptype. case dict_get ps ptype of
        None \<Rightarrow> [] | Some v \<Rightarrow> map (Pair ptype) (pv_items v)) RANGE_FILTERS)"

definition range_filter_count :: "params \<Rightarrow> nat result" where
  "range_filter_count ps =
     bindR (mapR (\<lambda>(_, v). pv_range v) (range_filter_items ps)) (\<lambda>fs.
     Inr (sum_list (map (\<lambda>f. length (rf_ranges f)) fs)))"

text \<open>Why a request must be refused; the code's messages as constructors.\<close>

datatype filter_refusal = RepeatedFilter | OddPropertyType | ValueTooLarge | TooManyRanges

fun range_filter_scan ::
    "(int \<times> int \<times> int option) list \<Rightarrow> (int \<times> pval) list \<Rightarrow> filter_refusal option result" where
  "range_filter_scan seen [] = Inr None"
| "range_filter_scan seen ((ptype, v) # xs) = bindR (pv_range v) (\<lambda>f.
    case rf_set_id f of
      None \<Rightarrow> range_filter_scan seen xs
    | Some sid \<Rightarrow>
        (let key = (ptype, sid, rf_property_type f) in
         if key \<in> set seen then Inr (Some RepeatedFilter)
         else if ptype \<in> set PROPERTY_FILTERS \<and> rf_property_type f = None then Inl TypeError
         else if ptype \<in> set PROPERTY_FILTERS \<and> attr (rf_property_type f) mod 2 \<noteq> 0 then Inr (Some OddPropertyType)
         else (let top = (if ptype = 0x27 then 255 else U64_MAX) in
           if list_ex (\<lambda>(start, stop). top < start \<or> (case stop of None \<Rightarrow> False | Some e \<Rightarrow> top < e)) (rf_ranges f)
           then Inr (Some ValueTooLarge)
           else range_filter_scan (key # seen) xs)))"

definition range_filter_error :: "params \<Rightarrow> nat option \<Rightarrow> filter_refusal option result" where
  "range_filter_error ps max_ranges =
    bindR (range_filter_scan [] (range_filter_items ps)) (\<lambda>r.
    case r of
      Some e \<Rightarrow> Inr (Some e)
    | None \<Rightarrow>
        (case max_ranges of
           None \<Rightarrow> Inr None
         | Some m \<Rightarrow> bindR (range_filter_count ps) (\<lambda>n. Inr (if m < n then Some TooManyRanges else None))))"

fun merge_loop :: "params \<Rightarrow> params \<Rightarrow> int list \<Rightarrow> RangeFilter list dict result" where
  "merge_loop current update [] = Inr []"
| "merge_loop current update (ptype # ts) =
    (let src = (if dict_get update ptype \<noteq> None then update else current) in
     bindR (mapR (\<lambda>(_, v). pv_range v)
       (range_filter_items (case dict_get src ptype of None \<Rightarrow> [] | Some v \<Rightarrow> [(ptype, v)]))) (\<lambda>fs.
     let kept = filter (\<lambda>f. rf_set_id f \<noteq> None) fs in
     bindR (merge_loop current update ts) (\<lambda>out.
     Inr (if kept = [] then out else (ptype, kept) # out))))"

definition merge_range_filters :: "params \<Rightarrow> params \<Rightarrow> RangeFilter list dict result" where
  "merge_range_filters current update = merge_loop current update RANGE_FILTERS"

definition in_ranges :: "RangeFilter \<Rightarrow> pval option \<Rightarrow> bool" where
  "in_ranges f value =
    (case value of
       Some (PInt v) \<Rightarrow>
         list_ex (\<lambda>(start, stop). start \<le> v \<and> (case stop of None \<Rightarrow> True | Some e \<Rightarrow> v \<le> e)) (rf_ranges f)
     | _ \<Rightarrow> False)"

text \<open>
  \<^verbatim>\<open>RangeFilters.sets\<close>: one list of typed filters per SetID. \<open>prop_get\<close> is
  \<^verbatim>\<open>props.get(f.property_type)\<close>.
\<close>

type_synonym RangeFilters = "(int \<times> RangeFilter) list list"

fun by_set :: "(int \<times> RangeFilter) list dict \<Rightarrow> (int \<times> pval) list \<Rightarrow> (int \<times> RangeFilter) list dict result" where
  "by_set d [] = Inr d"
| "by_set d ((ptype, v) # xs) = bindR (pv_range v) (\<lambda>f.
    case rf_set_id f of
      None \<Rightarrow> by_set d xs
    | Some sid \<Rightarrow>
        by_set (dict_set d sid ((case dict_get d sid of None \<Rightarrow> [] | Some l \<Rightarrow> l) @ [(ptype, f)])) xs)"

definition RangeFilters_from_params :: "params option \<Rightarrow> RangeFilters result" where
  "RangeFilters_from_params ps =
    bindR (by_set [] (range_filter_items (case ps of None \<Rightarrow> [] | Some d \<Rightarrow> d))) (\<lambda>d.
    Inr (map snd (dict_sorted d)))"

definition prop_get :: "params option \<Rightarrow> int option \<Rightarrow> pval option" where
  "prop_get props pt =
    (case pt of None \<Rightarrow> None | Some t \<Rightarrow> (case props of None \<Rightarrow> None | Some d \<Rightarrow> dict_get d t))"

definition track_passes :: "(int \<times> RangeFilter) list \<Rightarrow> params option \<Rightarrow> bool" where
  "track_passes fs props \<longleftrightarrow>
     (\<forall>(p, f) \<in> set fs. p = 0x29 \<longrightarrow> in_ranges f (prop_get props (rf_property_type f)))"

definition for_track :: "RangeFilters \<Rightarrow> params option \<Rightarrow> RangeFilters option" where
  "for_track sets props =
    (if sets = [] then Some sets
     else
       (let kept = map (filter (\<lambda>(p, f). p \<noteq> 0x29))
                     (filter (\<lambda>fs. track_passes fs props) sets)
        in if kept = [] then None
           else if \<not> (\<forall>fs \<in> set kept. fs \<noteq> []) then Some []
           else Some kept))"

text \<open>One filter against an object; None for a filter the object test does not look at.\<close>

definition object_value :: "int \<Rightarrow> RangeFilter \<Rightarrow> int \<Rightarrow> int \<Rightarrow> int \<Rightarrow> params option \<Rightarrow> pval option option" where
  "object_value ptype f subgroup_id object_id priority props =
    (if ptype = 0x25 then Some (Some (PInt subgroup_id))
     else if ptype = 0x26 then Some (Some (PInt object_id))
     else if ptype = 0x27 then Some (Some (PInt priority))
     else if ptype = 0x28 then Some (prop_get props (rf_property_type f))
     else None)"

fun set_admits :: "(int \<times> RangeFilter) list \<Rightarrow> int \<Rightarrow> int \<Rightarrow> int \<Rightarrow> params option \<Rightarrow> bool" where
  "set_admits [] sg ob pr props = True"
| "set_admits ((ptype, f) # fs) sg ob pr props =
    (case object_value ptype f sg ob pr props of
       None \<Rightarrow> set_admits fs sg ob pr props
     | Some v \<Rightarrow> if in_ranges f v then set_admits fs sg ob pr props else False)"

fun some_set_admits :: "RangeFilters \<Rightarrow> int \<Rightarrow> int \<Rightarrow> int \<Rightarrow> params option \<Rightarrow> bool" where
  "some_set_admits [] sg ob pr props = False"
| "some_set_admits (fs # sets) sg ob pr props =
    (if set_admits fs sg ob pr props then True else some_set_admits sets sg ob pr props)"

definition admits :: "RangeFilters \<Rightarrow> int \<Rightarrow> int \<Rightarrow> int \<Rightarrow> params option \<Rightarrow> bool" where
  "admits sets subgroup_id object_id priority props =
    (if sets = [] then True else some_set_admits sets subgroup_id object_id priority props)"

section \<open>Fill range\<close>

definition fill_range ::
    "params option \<Rightarrow> LocationFilter option \<Rightarrow> location option \<Rightarrow> (location \<times> location) option result" where
  "fill_range fill subscription_filter largest =
    (case largest of
       None \<Rightarrow> Inr None
     | Some l \<Rightarrow>
         bindR (case dict_get (case fill of None \<Rightarrow> [] | Some d \<Rightarrow> d) 0x21 of
             Some (PLocF lf) \<Rightarrow> Inr lf
           | Some _ \<Rightarrow> Inl AttributeError
           | None \<Rightarrow> (case subscription_filter of Some lf \<Rightarrow> Inr lf | None \<Rightarrow> lf_none)) (\<lambda>lf.
         case lf_resolve lf (Some l) True of
           (start, None) \<Rightarrow> Inr None
         | (start, Some e) \<Rightarrow> Inr (if loc_less e start then None else Some (start, e))))"

section \<open>Forward reading\<close>

lemma forward_pull_vints [fw]: "forward (pull_vints C n)"
  by (induction n) (auto intro!: fw)

lemma forward_lf_loop [fw]: "forward (lf_loop C stop fs)"
proof -
  have "lf_loop C stop fs b = Inr (v, b') \<Longrightarrow> rb_data b' = rb_data b \<and> rb_chain b' = rb_chain b
      \<and> rb_pos b \<le> rb_pos b' \<and> (rb_pos b \<le> capacity b \<longrightarrow> rb_pos b' \<le> capacity b)" for b v b'
  proof (induction C stop fs b rule: lf_loop.induct)
    case (1 C stop fs b)
    show ?case
    proof (cases "rb_pos b < stop")
      case True
      then obtain n b1 where p: "pull_vint C b = Inr (n, b1)" "length fs \<noteq> 4"
          and r: "lf_loop C stop (fs @ [n]) b1 = Inr (v, b')"
        using 1(2) by (subst (asm) lf_loop.simps) (auto split: if_splits sum.splits)
      from forwardD [OF forward_pulls(1) p(1)] 1(1) [OF True p(2) p(1) refl r] show ?thesis
        by (auto simp: capacity_def)
    next
      case False
      then show ?thesis using 1(2) by (subst (asm) lf_loop.simps) auto
    qed
  qed
  then show ?thesis unfolding forward_def by blast
qed

lemma forward_rf_loop [fw]: "forward (rf_loop C stop prev)"
proof -
  have "rf_loop C stop prev b = Inr (v, b') \<Longrightarrow> rb_data b' = rb_data b \<and> rb_chain b' = rb_chain b
      \<and> rb_pos b \<le> rb_pos b' \<and> (rb_pos b \<le> capacity b \<longrightarrow> rb_pos b' \<le> capacity b)" for b v b'
  proof (induction C stop prev b arbitrary: v b' rule: rf_loop.induct)
    case (1 C stop prev b)
    show ?case
    proof (cases "rb_pos b < stop")
      case True
      then obtain n b1 where p: "pull_vint C b = Inr (n, b1)"
        using 1(3) by (subst (asm) rf_loop.simps) (auto split: sum.splits)
      note f1 = forwardD [OF forward_pulls(1) p]
      show ?thesis
      proof (cases "rb_pos b1 < stop")
        case t: True
        then obtain d b2 rs where q: "pull_vint C b1 = Inr (d, b2)"
            and r: "rf_loop C stop (prev + n + d) b2 = Inr (rs, b')"
          using 1(3) True p by (subst (asm) rf_loop.simps) (auto simp: Let_def split: sum.splits)
        from 1(1) [OF True p refl refl t q refl r] forwardD [OF forward_pulls(1) q] f1 show ?thesis
          by (auto simp: capacity_def)
      next
        case t: False
        then obtain rs where r: "rf_loop C stop prev b1 = Inr (rs, b')"
          using 1(3) True p by (subst (asm) rf_loop.simps) (auto simp: Let_def split: sum.splits)
        from 1(2) [OF True p refl refl t r] f1 show ?thesis
          by (auto simp: capacity_def)
      qed
    next
      case False
      then show ?thesis using 1(3) by (subst (asm) rf_loop.simps) auto
    qed
  qed
  then show ?thesis unfolding forward_def by blast
qed

lemma forward_lf_decode [fw]: "forward (lf_decode C prof buf_end)"
  unfolding lf_decode_def lf_pull_typed_def lf_pull_counted_def Let_def
  by (auto intro!: fw split: prod.splits)

lemma forward_rf_decode [fw]: "forward (rf_decode C prof ptype buf_end)"
  unfolding rf_decode_def Let_def by (auto intro!: fw split: prod.splits option.splits)

section \<open>Location Filter round trip\<close>

lemma push_sized_eq [wr]:
  "push_sized C f bs = Inr out \<longleftrightarrow> (\<exists>l. push_vint C f (int (length bs)) = Inr l \<and> out = l @ bs)"
  by (auto simp: push_sized_def wr)

lemma lf_ok_cases:
  assumes "lf_ok lf"
  obtains "lf = \<lparr>lf_type = LF_NONE, lf_start_group = None, lf_start_object = None, lf_end_group = None, lf_end_object = None\<rparr>"
  | "lf = \<lparr>lf_type = LF_NEXT_OBJECT, lf_start_group = None, lf_start_object = None, lf_end_group = None, lf_end_object = None\<rparr>"
  | g where "lf = \<lparr>lf_type = LF_RELATIVE_START, lf_start_group = Some g, lf_start_object = None, lf_end_group = None, lf_end_object = None\<rparr>"
  | g ob where "lf = \<lparr>lf_type = LF_ABSOLUTE_START, lf_start_group = Some g, lf_start_object = Some ob, lf_end_group = None, lf_end_object = None\<rparr>"
  | g ob e where "lf = \<lparr>lf_type = LF_ABSOLUTE_GROUP_END, lf_start_group = Some g, lf_start_object = Some ob, lf_end_group = Some e, lf_end_object = None\<rparr>"
      "g \<le> e"
  | g ob e eo where "lf = \<lparr>lf_type = LF_ABSOLUTE_RANGE, lf_start_group = Some g, lf_start_object = Some ob, lf_end_group = Some e, lf_end_object = Some eo\<rparr>"
      "g \<le> e"
proof (cases lf)
  case (fields t sg so eg eo)
  with assms that show ?thesis
    by (cases t) (auto simp: lf_ok_def lf_attrs_def split: option.splits)
qed

lemma lft_of_int_inverse [simp]: "lft_of_int (lft_int t) = Inr t" "lft_int t \<le> 5" "0 \<le> lft_int t"
  by (cases t; simp add: lft_of_int_def)+

lemma lf_loop_done: "stop \<le> rb_pos b \<Longrightarrow> lf_loop C stop fs b = Inr (fs, b)"
  by (subst lf_loop.simps) simp

context vcodec_laws
begin

lemma reads_vints:
  "wseq (map (push_vint C f) vs) = Inr bs \<Longrightarrow> n = length vs \<Longrightarrow> reads f (pull_vints C n) bs vs"
proof (induction vs arbitrary: bs n)
  case (Cons v vs)
  then obtain a c where ac: "push_vint C f v = Inr a" "wseq (map (push_vint C f) vs) = Inr c" "bs = a @ c"
    by (auto simp: wr)
  have "reads f (rbind (pull_vints C (length vs)) (\<lambda>us. rret (v # us))) c (v # vs)"
    by (rule reads_bind_end [OF Cons.IH [OF ac(2) refl]]) (rule reads_ret)
  then show ?case
    using ac Cons.prems(2) by (auto intro!: reads_bind reads_vint)
qed (auto simp: wr reads_ret)

lemma lf_loop_reads:
  assumes "wseq (map (push_vint C f) vs) = Inr bs" "has f b bs" "length fs + length vs \<le> 4"
  shows "lf_loop C (rb_pos b + length bs) fs b = Inr (fs @ vs, adv b (length bs))"
  using assms
proof (induction vs arbitrary: bs b fs)
  case Nil
  then show ?case by (simp add: wr lf_loop_done)
next
  case (Cons v vs)
  then obtain a c where ac: "push_vint C f v = Inr a" "wseq (map (push_vint C f) vs) = Inr c" "bs = a @ c"
    by (auto simp: wr)
  have h: "has f b a" "has f (adv b (length a)) c"
    using Cons.prems(2) ac(3) by (simp_all add: has_append)
  have "pull_vint C b = Inr (v, adv b (length a))"
    using reads_vint [OF ac(1)] h(1) by (rule readsD)
  moreover have "lf_loop C (rb_pos (adv b (length a)) + length c) (fs @ [v]) (adv b (length a))
      = Inr ((fs @ [v]) @ vs, adv (adv b (length a)) (length c))"
    using Cons.prems(3) by (intro Cons.IH ac(2) h(2)) simp
  ultimately show ?case
    using push_vint_nonempty [OF ac(1)] Cons.prems(3)
    by (subst lf_loop.simps) (simp add: ac(3) add.assoc)
qed

text \<open>Both wire forms return the form and the fields that were written.\<close>

lemma reads_in_typed:
  assumes "wseq (push_vint C f (lft_int t) # map (push_vint C f) vs) = Inr bs" "length vs = lf_need t"
  shows "reads_in f (lf_pull_typed C) bs (t, vs)"
proof (rule reads_inI)
  fix b e assume h: "has f b bs" and e: "end_ok e (rb_pos b + length bs)"
  obtain a c where ac: "push_vint C f (lft_int t) = Inr a" "wseq (map (push_vint C f) vs) = Inr c" "bs = a @ c"
    using assms(1) by (auto simp: wr)
  have 1: "pull_vint C b = Inr (lft_int t, adv b (length a))"
    using reads_vint [OF ac(1)] h ac(3) by (simp add: has_append readsD)
  have 2: "pull_vints C (lf_need t) (adv b (length a)) = Inr (vs, adv b (length bs))"
    using reads_vints [OF ac(2) assms(2) [symmetric]] h ac(3) by (simp add: has_append readsD)
  have "\<not> past e (rb_pos b + length bs)"
    using e by (auto simp: past_def end_ok_def split: option.splits)
  then show "lf_pull_typed C e b = Inr ((t, vs), adv b (length bs))"
    by (simp add: lf_pull_typed_def rbind_def 1 2 rguard_def rret_def rlift_def rtell_def)
qed

lemma reads_in_counted:
  assumes "wseq (map (push_vint C f) vs) = Inr body" "push_sized C f body = Inr bs" "length vs \<le> 4"
    "(vs = [0, 0] \<and> t = LF_NEXT_OBJECT \<and> us = []) \<or> (vs \<noteq> [0, 0] \<and> lft_of_int (int (length vs)) = Inr t \<and> us = vs)"
  shows "reads_in f (lf_pull_counted C) bs (t, us)"
proof (rule reads_inI)
  fix b e assume h: "has f b bs" and e: "end_ok e (rb_pos b + length bs)"
  obtain l where l: "push_vint C f (int (length body)) = Inr l" "bs = l @ body"
    using assms(2) by (auto simp: wr)
  have 1: "pull_vint C b = Inr (int (length body), adv b (length l))"
    using reads_vint [OF l(1)] h l(2) by (simp add: has_append readsD)
  have 2: "lf_loop C (rb_pos b + (length l + length body)) [] (adv b (length l)) = Inr (vs, adv b (length bs))"
    using lf_loop_reads [OF assms(1), of "adv b (length l)" "[]"] h l(2) assms(3)
    by (simp add: has_append add.assoc)
  have "\<not> past e (rb_pos b + (length l + length body))"
    using e l(2) by (auto simp: past_def end_ok_def split: option.splits)
  moreover have "t \<noteq> LF_NEXT_OBJECT" if "vs \<noteq> [0, 0]"
    using assms(3,4) that by (auto simp: lft_of_int_def split: if_splits)
  ultimately show "lf_pull_counted C e b = Inr ((t, us), adv b (length bs))"
    using assms(4) l(2)
    by (auto simp: lf_pull_counted_def rbind_def 1 2 rguard_def rret_def rlift_def rtell_def Let_def add.assoc)
qed

lemma reads_in_lf_decode:
  assumes "reads_in f (if location_filter_typed prof then lf_pull_typed C else lf_pull_counted C) bs (t, vs)"
    and "vs' = (if 3 \<le> length vs then vs[2 := vs ! 2 + vs ! 0] else vs)"
    and "length vs < 3 \<or> vs' ! 2 \<le> U64_MAX"
    and "LocationFilter_new t (nth_opt vs' 0) (nth_opt vs' 1) (nth_opt vs' 2) (nth_opt vs' 3) = Inr lf"
  shows "reads_in f (lf_decode C prof) bs lf"
proof (rule reads_inI)
  fix b e assume h: "has f b bs" and e: "end_ok e (rb_pos b + length bs)"
  have "(if location_filter_typed prof then lf_pull_typed C e else lf_pull_counted C e) b
      = Inr ((t, vs), adv b (length bs))"
    using reads_inD [OF assms(1) h e] by (simp split: if_splits)
  then show "lf_decode C prof e b = Inr (lf, adv b (length bs))"
    using assms(2-4) by (auto simp: lf_decode_def rbind_def rcatch_def Let_def rguard_def rret_def rfail_def rlift_def)
qed

end

lemma lf_new_ok: "lf_ok lf \<Longrightarrow>
  LocationFilter_new (lf_type lf) (lf_start_group lf) (lf_start_object lf) (lf_end_group lf) (lf_end_object lf) = Inr lf"
  by (cases lf) (simp add: LocationFilter_new_def Let_def)

lemma lf_fields_need: "length (lf_fields lf) = lf_need (lf_type lf)"
  by (cases "lf_type lf") (simp_all add: lf_fields_def lf_attrs_def)

lemma lf_fields_back:
  assumes "lf_ok lf" and "vs' = (if 3 \<le> length (lf_fields lf) then (lf_fields lf)[2 := lf_fields lf ! 2 + lf_fields lf ! 0] else lf_fields lf)"
  shows "LocationFilter_new (lf_type lf) (nth_opt vs' 0) (nth_opt vs' 1) (nth_opt vs' 2) (nth_opt vs' 3) = Inr lf"
    and "length (lf_fields lf) < 3 \<or> vs' ! 2 \<le> U64_MAX"
proof -
  have "LocationFilter_new (lf_type lf) (lf_start_group lf) (lf_start_object lf) (lf_end_group lf) (lf_end_object lf) = Inr lf"
    using assms(1) by (rule lf_new_ok)
  moreover from assms(1) have "nth_opt vs' 0 = lf_start_group lf \<and> nth_opt vs' 1 = lf_start_object lf \<and>
      nth_opt vs' 2 = lf_end_group lf \<and> nth_opt vs' 3 = lf_end_object lf"
    by (rule lf_ok_cases) (simp_all add: assms(2) lf_fields_def lf_attrs_def attr_def nth_opt_def numeral_2_eq_2 numeral_3_eq_3)
  ultimately show "LocationFilter_new (lf_type lf) (nth_opt vs' 0) (nth_opt vs' 1) (nth_opt vs' 2) (nth_opt vs' 3) = Inr lf"
    by simp
  from assms(1) show "length (lf_fields lf) < 3 \<or> vs' ! 2 \<le> U64_MAX"
    using assms(1) by (rule_tac lf_ok_cases [OF assms(1)])
      (auto simp: assms(2) lf_fields_def lf_attrs_def attr_def numeral_2_eq_2 numeral_3_eq_3 lf_ok_def)
qed

text \<open>What comes back: the same filter, except that the untyped form has no code point for an open filter from \<open>(0, 0)\<close>.\<close>

definition lf_received :: "DraftProfile \<Rightarrow> LocationFilter \<Rightarrow> LocationFilter" where
  "lf_received prof lf =
    (if \<not> location_filter_typed prof \<and> lf_type lf = LF_ABSOLUTE_START \<and> lf_start_group lf = Some 0
        \<and> lf_start_object lf = Some 0
     then \<lparr>lf_type = LF_NONE, lf_start_group = None, lf_start_object = None, lf_end_group = None, lf_end_object = None\<rparr>
     else lf)"

lemma lf_received_ok: "lf_ok lf \<Longrightarrow> lf_ok (lf_received prof lf)"
  by (simp add: lf_received_def lf_ok_def lf_attrs_def)

lemma lf_received_resolve: "lf_resolve (lf_received prof lf) l fetch = lf_resolve lf l fetch"
  by (simp add: lf_received_def lf_resolve_def Let_def attr_def)

lemma lf_wire_fields_received:
  assumes "lf_ok lf" "\<not> location_filter_typed prof"
  shows "(lf_wire_fields lf = [0, 0] \<and> lf_type lf = LF_NEXT_OBJECT \<and> lf_received prof lf = lf \<and> lf_fields lf = [])
    \<or> (lf_wire_fields lf \<noteq> [0, 0]
       \<and> lft_of_int (int (length (lf_wire_fields lf))) = Inr (lf_type (lf_received prof lf))
       \<and> lf_fields (lf_received prof lf) = lf_wire_fields lf)"
  using assms(1)
  by (rule lf_ok_cases)
    (use assms(2) in \<open>auto simp: lf_wire_fields_def lf_received_def lf_fields_def lf_attrs_def attr_def lft_of_int_def\<close>)

context vcodec_laws
begin

lemma lf_roundtrip:
  assumes "lf_ok lf" "lf_encode C (vi64 prof) prof lf = Inr bs"
  shows "reads_in (vi64 prof) (lf_decode C prof) bs (lf_received prof lf)"
proof (cases "location_filter_typed prof")
  case True
  then have r: "lf_received prof lf = lf" by (simp add: lf_received_def)
  have "reads_in (vi64 prof) (lf_pull_typed C) bs (lf_type lf, lf_fields lf)"
    using assms(2) True by (intro reads_in_typed lf_fields_need) (simp add: lf_encode_def)
  then show ?thesis
    unfolding r using lf_fields_back [OF assms(1) refl] True
    by (intro reads_in_lf_decode [OF _ refl]) simp_all
next
  case False
  let ?r = "lf_received prof lf"
  obtain body where body: "wseq (map (push_vint C (vi64 prof)) (lf_wire_fields lf)) = Inr body"
      "push_sized C (vi64 prof) body = Inr bs"
    using assms(2) False by (auto simp: lf_encode_def bindR_eq_Inr in_buffer_eq)
  have "length (lf_wire_fields lf) \<le> 4"
    using lf_fields_need [of lf] by (cases "lf_type lf") (auto simp: lf_wire_fields_def)
  then have "reads_in (vi64 prof) (lf_pull_counted C) bs (lf_type ?r, lf_fields ?r)"
    using lf_wire_fields_received [OF assms(1) False] by (intro reads_in_counted [OF body]) auto
  then show ?thesis
    using lf_fields_back [OF lf_received_ok [OF assms(1)] refl, of prof] False
    by (intro reads_in_lf_decode [OF _ refl]) simp_all
qed

end

text \<open>
  C39: a Location Filter that the constructor accepts and the encoder writes, in the length-prefixed
  draft 20 form or the typed draft 22 form, is decoded from exactly those bytes, wherever they stand
  in a message and whatever follows, to a filter that selects the same Objects for every Largest
  Object; the typed form returns the filter itself.
\<close>

theorem location_filter_roundtrip:
  assumes "vcodec_laws C" "lf_ok lf" "lf_encode C (vi64 prof) prof lf = Inr bs"
  shows "\<exists>lf'. reads_in (vi64 prof) (lf_decode C prof) bs lf' \<and> lf_ok lf'
    \<and> (\<forall>largest fetch. lf_resolve lf' largest fetch = lf_resolve lf largest fetch)
    \<and> (location_filter_typed prof \<longrightarrow> lf' = lf)"
proof (intro exI conjI allI impI)
  show "reads_in (vi64 prof) (lf_decode C prof) bs (lf_received prof lf)"
    using assms by (rule vcodec_laws.lf_roundtrip)
  show "lf_ok (lf_received prof lf)"
    using assms(2) by (rule lf_received_ok)
  show "lf_resolve (lf_received prof lf) largest fetch = lf_resolve lf largest fetch" for largest fetch
    by (rule lf_received_resolve)
  show "location_filter_typed prof \<Longrightarrow> lf_received prof lf = lf"
    by (simp add: lf_received_def)
qed

theorem location_filter_roundtrip_witness:
  "\<exists>lf'. reads_in True (lf_decode std_codec PROFILE_D20) [4, 7, 0, 2, 9] lf' \<and> lf_ok lf'
    \<and> (\<forall>largest fetch. lf_resolve lf' largest fetch =
         ((7, 0), if fetch \<and> largest \<noteq> None then Some (loc_min (9, 9) (the largest)) else Some (9, 9)))"
proof -
  let ?lf = "\<lparr>lf_type = LF_ABSOLUTE_RANGE, lf_start_group = Some 7, lf_start_object = Some 0,
      lf_end_group = Some 9, lf_end_object = Some 9\<rparr>"
  have v: "vi64 PROFILE_D20" by code_simp
  have "lf_ok ?lf" by code_simp
  moreover have "lf_encode std_codec (vi64 PROFILE_D20) PROFILE_D20 ?lf = Inr [4, 7, 0, 2, 9]" by code_simp
  moreover have "lf_resolve ?lf largest fetch =
      ((7, 0), if fetch \<and> largest \<noteq> None then Some (loc_min (9, 9) (the largest)) else Some (9, 9))" for largest fetch
    by (cases fetch; cases largest) (simp_all add: lf_resolve_def attr_def Let_def)
  ultimately show ?thesis
    using location_filter_roundtrip [OF std.vcodec_laws_axioms, of ?lf PROFILE_D20] v by auto
qed

section \<open>The older filter forms and the resolved range\<close>

lemma lf_new_eq: "LocationFilter_new t a b c d = Inr lf \<longleftrightarrow>
    lf = \<lparr>lf_type = t, lf_start_group = a, lf_start_object = b, lf_end_group = c, lf_end_object = d\<rparr> \<and> lf_ok lf"
  by (auto simp: LocationFilter_new_def Let_def split: if_splits)

lemma lf_subscription_back:
  assumes "lf_ok lf"
  shows "case lf_subscription_filter lf of
      Some (Some t, sg, so, eg) \<Rightarrow> lf_from_subscription_filter t sg so eg = Inr lf
    | Some (None, _) \<Rightarrow> lf_type lf = LF_NONE
    | None \<Rightarrow> lf_type lf = LF_ABSOLUTE_RANGE \<or> (lf_type lf = LF_RELATIVE_START \<and> lf_start_group lf \<noteq> Some 0)"
  using assms
  by (rule lf_ok_cases)
    (use assms in \<open>auto simp: lf_subscription_filter_def lf_from_subscription_filter_def lf_relative_def
      lf_next_object_def lf_absolute_def attr_def lf_new_eq\<close>)

lemma lf_fetch_back:
  assumes "lf_ok lf"
  shows "case lf_fetch_range lf of
      Some (sg, so, eg, eo) \<Rightarrow>
        (\<exists>lf'. lf_from_fetch_range (Some sg) (Some so) eg eo = Inr lf' \<and>
           (\<forall>largest fetch. lf_resolve lf' largest fetch = lf_resolve lf largest fetch))
    | None \<Rightarrow> lf_type lf \<in> {LF_RELATIVE_START, LF_NEXT_OBJECT}"
proof -
  have U: "0 \<le> U64_MAX" by (simp add: U64_MAX_def)
  show ?thesis
    using assms
    by (rule lf_ok_cases)
      (use assms U in \<open>auto simp: lf_fetch_range_def lf_from_fetch_range_def lf_absolute_def attr_def lf_new_eq
        lf_ok_def lf_attrs_def lf_resolve_def Let_def\<close>)
qed

text \<open>
  converting a Location Filter to the Filter Type fields of drafts 14 to 18, or to their FETCH
  range, and back gives a filter that selects the same Objects for every Largest Object. What cannot
  be converted is exactly the absolute range and a relative start other than the next group in the
  first case, and the forms relative to the Largest Object in the second.
\<close>

theorem filter_forms_roundtrip:
  assumes "lf_ok lf"
  shows "(case lf_subscription_filter lf of
      Some (Some t, sg, so, eg) \<Rightarrow> lf_from_subscription_filter t sg so eg = Inr lf
    | Some (None, _) \<Rightarrow> lf_type lf = LF_NONE
    | None \<Rightarrow> lf_type lf = LF_ABSOLUTE_RANGE \<or> (lf_type lf = LF_RELATIVE_START \<and> lf_start_group lf \<noteq> Some 0))
   \<and> (case lf_fetch_range lf of
      Some (sg, so, eg, eo) \<Rightarrow>
        (\<exists>lf'. lf_from_fetch_range (Some sg) (Some so) eg eo = Inr lf' \<and>
           (\<forall>largest fetch. lf_resolve lf' largest fetch = lf_resolve lf largest fetch))
    | None \<Rightarrow> lf_type lf \<in> {LF_RELATIVE_START, LF_NEXT_OBJECT})"
  using lf_subscription_back [OF assms] lf_fetch_back [OF assms] ..

theorem filter_forms_roundtrip_witness:
  "(\<exists>lf. LocationFilter_new LF_ABSOLUTE_GROUP_END (Some 3) (Some 1) (Some 8) None = Inr lf
     \<and> lf_from_subscription_filter 4 (Some 3) (Some 1) (Some 8) = Inr lf)"
proof -
  let ?lf = "\<lparr>lf_type = LF_ABSOLUTE_GROUP_END, lf_start_group = Some 3, lf_start_object = Some 1,
      lf_end_group = Some 8, lf_end_object = None\<rparr>"
  have ok: "lf_ok ?lf" by code_simp
  then have "lf_from_subscription_filter 4 (Some 3) (Some 1) (Some 8) = Inr ?lf"
    using filter_forms_roundtrip [of ?lf] by (simp add: lf_subscription_filter_def)
  then show ?thesis using ok by (auto simp: lf_new_eq)
qed

lemma loc_le_simps: "loc_le p q \<longleftrightarrow> fst p < fst q \<or> fst p = fst q \<and> snd p \<le> snd q"
  by (auto simp: loc_le_def loc_less_def)

lemma loc_min_le: "loc_le (loc_min p q) p" "loc_le (loc_min p q) q"
  by (auto simp: loc_min_def loc_le_simps loc_less_def)

lemma loc_le_refl: "loc_le p p"
  by (simp add: loc_le_simps)

lemma lf_resolve_fetch_end:
  obtains e where "snd (lf_resolve lf (Some l) True) = Some e" "loc_le e l"
proof -
  have "\<exists>e. snd (lf_resolve lf (Some l) True) = Some e \<and> loc_le e l"
    by (auto simp: lf_resolve_def Let_def loc_min_le loc_le_refl simp del: split_paired_Ex)
  with that show thesis by blast
qed

text \<open>
  a fill fetch stream is opened only once something was published, carries a non-empty range
  \<open>start \<le> end\<close> that never goes past the Largest Object, and it is the range the fill
  parameters' own LOCATION_FILTER selects, or the subscription's when they have none.
\<close>

theorem fill_range_within_published:
  assumes "fill_range fill sub largest = Inr (Some (start, stop))"
  shows "\<exists>l lf. largest = Some l \<and> loc_le start stop \<and> loc_le stop l
    \<and> lf_resolve lf (Some l) True = (start, Some stop)
    \<and> (case dict_get (case fill of None \<Rightarrow> [] | Some d \<Rightarrow> d) 0x21 of
         Some v \<Rightarrow> v = PLocF lf | None \<Rightarrow> (case sub of Some s \<Rightarrow> lf = s | None \<Rightarrow> lf_none = Inr lf))"
proof -
  from assms obtain l where l: "largest = Some l"
    by (auto simp: fill_range_def split: option.splits)
  from assms l obtain lf where lf: "case dict_get (case fill of None \<Rightarrow> [] | Some d \<Rightarrow> d) 0x21 of
         Some v \<Rightarrow> v = PLocF lf | None \<Rightarrow> (case sub of Some s \<Rightarrow> lf = s | None \<Rightarrow> lf_none = Inr lf)"
      and r: "lf_resolve lf (Some l) True = (start, Some stop)" and le: "\<not> loc_less stop start"
    by (auto simp: fill_range_def bindR_eq_Inr split: option.splits pval.splits prod.splits if_splits)
  obtain e where "snd (lf_resolve lf (Some l) True) = Some e" "loc_le e l"
    by (rule lf_resolve_fetch_end)
  then have "loc_le stop l" using r by simp
  with l lf r le show ?thesis by (auto simp: loc_le_def)
qed

theorem fill_range_within_published_witness:
  "fill_range None None (Some (5, 2)) = Inr (Some ((0, 0), (5, 2))) \<and> loc_le (5, 2) (5, 2)"
proof -
  have "fill_range None None (Some (5, 2)) = Inr (Some ((0, 0), (5, 2)))" by code_simp
  then show ?thesis using fill_range_within_published [of None None "Some (5, 2)" "(0, 0)" "(5, 2)"] by auto
qed

section \<open>Range Filter round trip\<close>

text \<open>Ascending ranges, of which only the last may be open; what the parser can produce.\<close>

fun ranges_ok :: "int \<Rightarrow> (int \<times> int option) list \<Rightarrow> bool" where
  "ranges_ok prev [] = True"
| "ranges_ok prev ((start, stop) # rs) =
    (prev \<le> start \<and> (case stop of None \<Rightarrow> rs = [] | Some e \<Rightarrow> start \<le> e \<and> ranges_ok e rs))"

definition rf_wf :: "int \<Rightarrow> RangeFilter \<Rightarrow> bool" where
  "rf_wf ptype rf \<longleftrightarrow>
    (case rf_set_id rf of
       None \<Rightarrow> rf_ranges rf = [] \<and> rf_property_type rf = None
     | Some sid \<Rightarrow> 0 \<le> sid \<and> sid \<le> 255 \<and> (rf_property_type rf \<noteq> None) = (ptype \<in> set PROPERTY_FILTERS)
         \<and> ranges_ok 0 (rf_ranges rf))"

lemma rf_loop_done: "stop \<le> rb_pos b \<Longrightarrow> rf_loop C stop prev b = Inr ([], b)"
  by (subst rf_loop.simps) simp

lemma rf_push_ranges_ok: "rf_push_ranges C f prev rs = Inr bs \<Longrightarrow> ranges_ok prev rs"
  by (induction C f prev rs arbitrary: bs rule: rf_push_ranges.induct)
    (auto simp: wr split: option.splits)

lemma rf_loop_ranges_ok:
  assumes "rf_loop C stop prev b = Inr (rs, b')" "\<And>b n b'. pull_vint C b = Inr (n, b') \<Longrightarrow> 0 \<le> n"
  shows "ranges_ok prev rs"
  using assms
proof (induction C stop prev b arbitrary: rs b' rule: rf_loop.induct)
  case (1 C stop prev b)
  show ?case
  proof (cases "rb_pos b < stop")
    case True
    then obtain n b1 where p: "pull_vint C b = Inr (n, b1)" and n: "0 \<le> n"
      using 1(3,4) by (subst (asm) rf_loop.simps) (auto split: sum.splits)
    show ?thesis
    proof (cases "rb_pos b1 < stop")
      case t: True
      then obtain d b2 rs' where q: "pull_vint C b1 = Inr (d, b2)" and d: "0 \<le> d"
          and r: "rf_loop C stop (prev + n + d) b2 = Inr (rs', b')" and rs: "rs = (prev + n, Some (prev + n + d)) # rs'"
        using 1(3,4) True p by (subst (asm) rf_loop.simps) (auto simp: Let_def split: sum.splits)
      have "ranges_ok (prev + n + d) rs'"
        using 1(1) [OF True p refl refl t q refl r 1(4)] by simp
      then show ?thesis using n d by (simp add: rs)
    next
      case t: False
      then have "rs = [(prev + n, None)]"
        using 1(3) True p by (subst (asm) rf_loop.simps) (auto simp: Let_def rf_loop_done split: sum.splits)
      then show ?thesis using n by simp
    qed
  next
    case False
    then show ?thesis using 1(3) by (subst (asm) rf_loop.simps) auto
  qed
qed

context vcodec_laws
begin

lemma rf_loop_reads:
  assumes "rf_push_ranges C f prev rs = Inr bs" "has f b bs"
  shows "rf_loop C (rb_pos b + length bs) prev b = Inr (rs, adv b (length bs))"
  using assms
proof (induction rs arbitrary: bs b prev)
  case Nil
  then show ?case by (simp add: rf_loop_done)
next
  case (Cons r rs)
  obtain start stop where r: "r = (start, stop)" by force
  show ?case
  proof (cases stop)
    case None
    with Cons.prems r have rs: "rs = []" and p: "push_vint C f (start - prev) = Inr bs"
      by (auto simp: wr)
    have "pull_vint C b = Inr (start - prev, adv b (length bs))"
      using reads_vint [OF p] Cons.prems(2) by (rule readsD)
    then show ?thesis
      using push_vint_nonempty [OF p] by (subst rf_loop.simps) (simp add: r None rs rf_loop_done)
  next
    case (Some e)
    with Cons.prems r obtain a c d where p: "push_vint C f (start - prev) = Inr a"
        "push_vint C f (e - start) = Inr c" "rf_push_ranges C f e rs = Inr d" "bs = a @ c @ d"
      by (auto simp: wr)
    have h: "has f b a" "has f (adv b (length a)) c" "has f (adv b (length a + length c)) d"
      using Cons.prems(2) p(4) by (simp_all add: has_append)
    have "pull_vint C b = Inr (start - prev, adv b (length a))"
      "pull_vint C (adv b (length a)) = Inr (e - start, adv b (length a + length c))"
      using readsD [OF reads_vint [OF p(1)] h(1)] readsD [OF reads_vint [OF p(2)] h(2)] by simp_all
    moreover have "rf_loop C (rb_pos b + length bs) e (adv b (length a + length c)) = Inr (rs, adv b (length bs))"
      using Cons.IH [OF p(3) h(3)] by (simp add: p(4) add.assoc)
    ultimately show ?thesis
      using push_vint_nonempty [OF p(1)] push_vint_nonempty [OF p(2)] p(4)
      by (subst rf_loop.simps) (simp add: r Some)
  qed
qed

lemma reads_property_type:
  assumes "(if ptype \<in> set PROPERTY_FILTERS then bindR (of_option ValueError pt) (push_vint C f)
      else bindR (guardR (pt = None) ValueError) (\<lambda>_. Inr [])) = Inr bs"
  shows "reads f (if ptype \<in> set PROPERTY_FILTERS then rbind (pull_vint C) (\<lambda>v. rret (Some v)) else rret None) bs pt"
  using assms by (auto simp: wr split: if_splits intro!: reads_bind_end [OF reads_vint] reads_ret)

lemma rf_roundtrip:
  assumes "rf_encode C (vi64 prof) prof ptype rf = Inr bs" "rf_set_id rf = None \<longrightarrow> rf_ranges rf = [] \<and> rf_property_type rf = None"
  shows "reads_in (vi64 prof) (rf_decode C prof ptype) bs rf"
proof (rule reads_inI)
  fix b e assume h: "has (vi64 prof) b bs" and e: "end_ok e (rb_pos b + length bs)"
  obtain body l where body: "rf_push_body C (vi64 prof) ptype rf = Inr body"
    and l: "push_vint C (vi64 prof) (int (length body)) = Inr l" and bs: "bs = l @ body"
    using assms(1) by (auto simp: rf_encode_def wr)
  have 1: "pull_vint C b = Inr (int (length body), adv b (length l))"
    using reads_vint [OF l] h bs by (simp add: has_append readsD)
  have np: "\<not> past e (rb_pos b + (length l + length body))"
    using e bs by (auto simp: past_def end_ok_def split: option.splits)
  show "rf_decode C prof ptype e b = Inr (rf, adv b (length bs))"
  proof (cases "rf_set_id rf")
    case None
    with body assms(2) have "body = []" "rf = \<lparr>rf_set_id = None, rf_ranges = [], rf_property_type = None\<rparr>"
      by (auto simp: rf_push_body_def)
    then show ?thesis using np by (simp add: rf_decode_def rsteps rcatch_def 1 Let_def bs)
  next
    case (Some sid)
    with body obtain u p rs where u: "push_uint8 C sid = Inr u"
      and p: "(if ptype \<in> set PROPERTY_FILTERS then bindR (of_option ValueError (rf_property_type rf)) (push_vint C (vi64 prof))
          else bindR (guardR (rf_property_type rf = None) ValueError) (\<lambda>_. Inr [])) = Inr p"
      and rs: "rf_push_ranges C (vi64 prof) 0 (rf_ranges rf) = Inr rs" and b': "body = u @ p @ rs"
      by (auto simp: rf_push_body_def wr)
    have h': "has (vi64 prof) (adv b (length l)) u" "has (vi64 prof) (adv b (length l + length u)) p"
      "has (vi64 prof) (adv b (length l + (length u + length p))) rs"
      using h by (simp_all add: bs b' has_append add.assoc)
    note r1 = readsD [OF reads_uint8 [OF u] h'(1)] readsD [OF reads_property_type [OF p] h'(2)]
    have r2: "rf_loop C (rb_pos b + (length l + length body)) 0 (adv b (length l + (length u + length p)))
        = Inr (rf_ranges rf, adv b (length l + length body))"
      using rf_loop_reads [OF rs h'(3)] by (simp add: b' add.assoc)
    have "0 < length body" using u by (auto simp: b' push_uint8_eq)
    then show ?thesis
      using np r1 r2 Some by (cases rf) (simp add: rf_decode_def rsteps rcatch_def 1 Let_def bs add.assoc)
  qed
qed

lemma rf_decode_wf:
  assumes "rf_decode C prof ptype buf_end b = Inr (rf, b')"
  shows "rf_wf ptype rf"
proof -
  have *: "ranges_ok 0 rs" if "rf_loop C stop 0 b1 = Inr (rs, b2)" for stop rs b1 b2
    using that pull_vint_range by (intro rf_loop_ranges_ok) auto
  show ?thesis
    using assms
    by (auto simp: rf_decode_def rbind_eq_Inr rsteps rcatch_def rf_wf_def Let_def dest!: * pull_uint8_range
        split: sum.splits prod.splits option.splits if_splits)
qed

end

text \<open>
  a Range Filter the encoder accepts is decoded from exactly the bytes written, wherever they
  stand; and whatever bytes a peer sends, a filter the decoder returns has ascending ranges of which
  only the last is open, a SetID in one byte, and a property type exactly for the property filters.
\<close>

theorem range_filter_roundtrip:
  assumes "vcodec_laws C"
  shows "(rf_wf ptype rf \<and> rf_encode C (vi64 prof) prof ptype rf = Inr bs
          \<longrightarrow> reads_in (vi64 prof) (rf_decode C prof ptype) bs rf)
       \<and> (rf_decode C prof ptype buf_end b = Inr (rf', b') \<longrightarrow> rf_wf ptype rf')"
proof (intro conjI impI)
  assume "rf_wf ptype rf \<and> rf_encode C (vi64 prof) prof ptype rf = Inr bs"
  then show "reads_in (vi64 prof) (rf_decode C prof ptype) bs rf"
    by (intro vcodec_laws.rf_roundtrip [OF assms]) (auto simp: rf_wf_def)
next
  assume "rf_decode C prof ptype buf_end b = Inr (rf', b')"
  then show "rf_wf ptype rf'"
    by (rule vcodec_laws.rf_decode_wf [OF assms])
qed

theorem range_filter_roundtrip_witness:
  "reads_in True (rf_decode std_codec PROFILE_D22 0x28) [5, 3, 6, 10, 5, 25]
     \<lparr>rf_set_id = Some 3, rf_ranges = [(10, Some 15), (40, None)], rf_property_type = Some 6\<rparr>"
proof -
  let ?rf = "\<lparr>rf_set_id = Some 3, rf_ranges = [(10, Some 15), (40, None)], rf_property_type = Some 6\<rparr>"
  have "rf_wf 0x28 ?rf" by code_simp
  moreover have "rf_encode std_codec (vi64 PROFILE_D22) PROFILE_D22 0x28 ?rf = Inr [5, 3, 6, 10, 5, 25]" by code_simp
  moreover have "vi64 PROFILE_D22" by code_simp
  ultimately show ?thesis
    using range_filter_roundtrip [OF std.vcodec_laws_axioms, of "0x28" ?rf PROFILE_D22] by simp
qed

section \<open>Evaluation of Range Filters\<close>

text \<open>The typed filters among the parameters, in the order the code visits them.\<close>

definition typed_filters :: "params \<Rightarrow> (int \<times> RangeFilter) list result" where
  "typed_filters ps = mapR (\<lambda>(t, v). bindR (pv_range v) (\<lambda>f. Inr (t, f))) (range_filter_items ps)"

definition object_passes :: "int \<times> RangeFilter \<Rightarrow> int \<Rightarrow> int \<Rightarrow> int \<Rightarrow> params option \<Rightarrow> bool" where
  "object_passes tf sg ob pr props \<longleftrightarrow>
    (case object_value (fst tf) (snd tf) sg ob pr props of None \<Rightarrow> True | Some v \<Rightarrow> in_ranges (snd tf) v)"

lemma set_admits_iff: "set_admits fs sg ob pr props \<longleftrightarrow> (\<forall>tf \<in> set fs. object_passes tf sg ob pr props)"
  by (induction fs sg ob pr props rule: set_admits.induct)
    (auto simp: object_passes_def split: option.splits if_splits)

lemma some_set_admits_iff: "some_set_admits sets sg ob pr props \<longleftrightarrow> (\<exists>fs \<in> set sets. set_admits fs sg ob pr props)"
  by (induction sets) auto

text \<open>The dictionary by SetID holds each SetID's filters in order.\<close>

definition of_set :: "(int \<times> RangeFilter) list \<Rightarrow> int \<Rightarrow> (int \<times> RangeFilter) list" where
  "of_set tfs sid = filter (\<lambda>(_, f). rf_set_id f = Some sid) tfs"

lemma by_set_spec:
  assumes "by_set d xs = Inr d'" "dict_ok d"
  shows "\<exists>tfs. mapR (\<lambda>(t, v). bindR (pv_range v) (\<lambda>f. Inr (t, f))) xs = Inr tfs \<and> dict_ok d' \<and>
    (\<forall>sid. (case dict_get d' sid of None \<Rightarrow> [] | Some l \<Rightarrow> l)
         = (case dict_get d sid of None \<Rightarrow> [] | Some l \<Rightarrow> l) @ of_set tfs sid) \<and>
    (\<forall>sid. dict_get d' sid = None \<longleftrightarrow> dict_get d sid = None \<and> of_set tfs sid = [])"
  using assms
proof (induction d xs rule: by_set.induct)
  case (1 d)
  then show ?case by (simp add: of_set_def)
next
  case (2 d ptype v xs)
  then obtain f where f: "pv_range v = Inr f" by (auto simp: wr)
  show ?case
  proof (cases "rf_set_id f")
    case None
    with 2 f obtain tfs where "mapR (\<lambda>(t, v). bindR (pv_range v) (\<lambda>f. Inr (t, f))) xs = Inr tfs \<and> dict_ok d' \<and>
      (\<forall>sid. (case dict_get d' sid of None \<Rightarrow> [] | Some l \<Rightarrow> l)
         = (case dict_get d sid of None \<Rightarrow> [] | Some l \<Rightarrow> l) @ of_set tfs sid) \<and>
      (\<forall>sid. dict_get d' sid = None \<longleftrightarrow> dict_get d sid = None \<and> of_set tfs sid = [])"
      by fastforce
    then show ?thesis using f None by (auto simp: of_set_def intro!: exI [of _ "(ptype, f) # tfs"])
  next
    case (Some s)
    let ?d = "dict_set d s ((case dict_get d s of None \<Rightarrow> [] | Some l \<Rightarrow> l) @ [(ptype, f)])"
    have "by_set ?d xs = Inr d'" "dict_ok ?d"
      using 2(3,4) f Some pydict.invar_put by auto
    with 2(2) [OF Some] obtain tfs where tfs: "mapR (\<lambda>(t, v). bindR (pv_range v) (\<lambda>f. Inr (t, f))) xs = Inr tfs" "dict_ok d'"
      and l: "\<And>sid. (case dict_get d' sid of None \<Rightarrow> [] | Some l \<Rightarrow> l)
         = (case dict_get ?d sid of None \<Rightarrow> [] | Some l \<Rightarrow> l) @ of_set tfs sid"
      and n: "\<And>sid. dict_get d' sid = None \<longleftrightarrow> dict_get ?d sid = None \<and> of_set tfs sid = []"
      by blast
    have "(case dict_get d' sid of None \<Rightarrow> [] | Some l \<Rightarrow> l)
         = (case dict_get d sid of None \<Rightarrow> [] | Some l \<Rightarrow> l) @ of_set ((ptype, f) # tfs) sid" for sid
      using l [of sid] Some by (auto simp: pydict.get_put of_set_def)
    moreover have "dict_get d' sid = None \<longleftrightarrow> dict_get d sid = None \<and> of_set ((ptype, f) # tfs) sid = []" for sid
      using n [of sid] Some by (auto simp: pydict.get_put of_set_def)
    ultimately show ?thesis
      using tfs f by (intro exI [of _ "(ptype, f) # tfs"]) auto
  qed
qed

lemma from_params_sets:
  assumes "RangeFilters_from_params (Some ps) = Inr sets"
  obtains tfs where "typed_filters ps = Inr tfs"
    "set sets = {of_set tfs sid | sid. of_set tfs sid \<noteq> []}"
proof -
  from assms obtain d where d: "by_set [] (range_filter_items ps) = Inr d"
    and sets: "sets = map snd (dict_sorted d)"
    by (auto simp: RangeFilters_from_params_def wr)
  from by_set_spec [OF d] obtain tfs where tfs: "typed_filters ps = Inr tfs" and ok: "dict_ok d"
    and l: "\<And>sid. (case dict_get d sid of None \<Rightarrow> [] | Some l \<Rightarrow> l) = of_set tfs sid"
    and n: "\<And>sid. dict_get d sid = None \<longleftrightarrow> of_set tfs sid = []"
    by (auto simp: dict_ok_def dict_get_def typed_filters_def)
  have iff: "(sid, fs) \<in> set d \<longleftrightarrow> fs = of_set tfs sid \<and> of_set tfs sid \<noteq> []" for sid fs
  proof -
    have "(sid, fs) \<in> set d \<longleftrightarrow> dict_get d sid = Some fs"
      using ok by (simp add: dict_ok_def dict_get_def)
    then show ?thesis
      using l [of sid] n [of sid] by (cases "dict_get d sid") auto
  qed
  have "set sets = snd ` set d" by (simp add: sets)
  also have "\<dots> = {fs. \<exists>sid. (sid, fs) \<in> set d}" by force
  also have "\<dots> = {of_set tfs sid | sid. of_set tfs sid \<noteq> []}" unfolding iff by blast
  finally have "set sets = {of_set tfs sid | sid. of_set tfs sid \<noteq> []}" .
  with tfs that show thesis by blast
qed

text \<open>
  C40: the compiled Range Filters of a request admit an Object exactly when the request has no Range
  Filter, or all the filters of one SetID accept it: SetIDs are alternatives, the filters of a SetID
  are conjoined, zero-length filters (no SetID) count for nothing, and TRACK_PROPERTY_FILTERs are
  not looked at here.
\<close>

theorem admits_iff_some_set_passes:
  assumes "RangeFilters_from_params (Some ps) = Inr sets" "typed_filters ps = Inr tfs"
  shows "admits sets sg ob pr props \<longleftrightarrow>
    (\<forall>(t, f) \<in> set tfs. rf_set_id f = None) \<or>
    (\<exists>sid. (\<exists>(t, f) \<in> set tfs. rf_set_id f = Some sid) \<and>
       (\<forall>(t, f) \<in> set tfs. rf_set_id f = Some sid \<longrightarrow> object_passes (t, f) sg ob pr props))"
proof -
  obtain tfs' where "typed_filters ps = Inr tfs'"
    and sets: "set sets = {of_set tfs' sid | sid. of_set tfs' sid \<noteq> []}"
    using assms(1) by (rule from_params_sets)
  with assms(2) have s: "set sets = {of_set tfs sid | sid. of_set tfs sid \<noteq> []}" by simp
  have e0: "of_set tfs sid = [] \<longleftrightarrow> (\<forall>tf \<in> set tfs. rf_set_id (snd tf) \<noteq> Some sid)" for sid
    by (auto simp: of_set_def filter_empty_conv split: prod.splits)
  have "(\<forall>sid. of_set tfs sid = []) \<longleftrightarrow> (\<forall>tf \<in> set tfs. \<forall>sid. rf_set_id (snd tf) \<noteq> Some sid)"
    unfolding e0 by (rule iffI; intro ballI allI; simp)
  then have all: "(\<forall>sid. of_set tfs sid = []) \<longleftrightarrow> (\<forall>(t, f) \<in> set tfs. rf_set_id f = None)"
    by (simp add: case_prod_beta)
  have ne: "of_set tfs sid \<noteq> [] \<longleftrightarrow> (\<exists>(t, f) \<in> set tfs. rf_set_id f = Some sid)" for sid
    by (auto simp: of_set_def filter_empty_conv)
  have "sets = [] \<longleftrightarrow> (\<forall>sid. of_set tfs sid = [])"
    using s by auto
  also note all
  finally have e: "sets = [] \<longleftrightarrow> (\<forall>(t, f) \<in> set tfs. rf_set_id f = None)" .
  have "(\<exists>fs \<in> set sets. set_admits fs sg ob pr props) \<longleftrightarrow>
      (\<exists>sid. of_set tfs sid \<noteq> [] \<and> set_admits (of_set tfs sid) sg ob pr props)"
    unfolding s by blast
  also have "\<dots> \<longleftrightarrow> (\<exists>sid. (\<exists>(t, f) \<in> set tfs. rf_set_id f = Some sid) \<and>
       (\<forall>(t, f) \<in> set tfs. rf_set_id f = Some sid \<longrightarrow> object_passes (t, f) sg ob pr props))"
    by (intro arg_cong [where f = Ex] ext conj_cong ne) (auto simp: set_admits_iff of_set_def)
  finally have x: "(\<exists>fs \<in> set sets. set_admits fs sg ob pr props) \<longleftrightarrow> (\<exists>sid. (\<exists>(t, f) \<in> set tfs. rf_set_id f = Some sid) \<and>
       (\<forall>(t, f) \<in> set tfs. rf_set_id f = Some sid \<longrightarrow> object_passes (t, f) sg ob pr props))" .
  have "admits sets sg ob pr props \<longleftrightarrow> sets = [] \<or> (\<exists>fs \<in> set sets. set_admits fs sg ob pr props)"
    by (simp add: admits_def some_set_admits_iff)
  then show ?thesis unfolding e x .
qed

theorem admits_iff_some_set_passes_witness:
  "\<exists>sets. RangeFilters_from_params (Some [(0x26, PSeq [PRange \<lparr>rf_set_id = Some 0, rf_ranges = [(2, Some 4)], rf_property_type = None\<rparr>])])
       = Inr sets \<and> admits sets 0 3 128 None \<and> \<not> admits sets 0 5 128 None"
proof -
  let ?f = "\<lparr>rf_set_id = Some 0, rf_ranges = [(2, Some 4)], rf_property_type = None\<rparr>"
  let ?ps = "[(0x26, PSeq [PRange ?f])]"
  have 1: "RangeFilters_from_params (Some ?ps) = Inr [[(0x26, ?f)]]" by code_simp
  have 2: "typed_filters ?ps = Inr [(0x26, ?f)]" by code_simp
  have "admits [[(0x26, ?f)]] 0 3 128 None" "\<not> admits [[(0x26, ?f)]] 0 5 128 None"
    using admits_iff_some_set_passes [OF 1 2, of 0 3 128 None] admits_iff_some_set_passes [OF 1 2, of 0 5 128 None]
    by (simp_all add: object_passes_def object_value_def in_ranges_def)
  with 1 show ?thesis by blast
qed

lemma set_admits_drop_track:
  "set_admits (filter (\<lambda>(p, f). p \<noteq> 0x29) fs) sg ob pr props \<longleftrightarrow> set_admits fs sg ob pr props"
proof -
  have "object_passes tf sg ob pr props" if "fst tf = 0x29" for tf
    using that by (simp add: object_passes_def object_value_def)
  then show ?thesis
    unfolding set_admits_iff set_filter case_prod_beta by blast
qed

text \<open>
  splitting a request's Range Filters between a track and its Objects is exact: no SetID admits the
  track exactly when the split gives nothing, and otherwise the filters left for the track admit an
  Object exactly when some SetID accepts both the Track Properties and the Object.
\<close>

theorem for_track_splits_filters:
  "case for_track sets tprops of
     None \<Rightarrow> sets \<noteq> [] \<and> (\<forall>fs \<in> set sets. \<not> track_passes fs tprops)
   | Some sets' \<Rightarrow>
       admits sets' sg ob pr props \<longleftrightarrow>
         sets = [] \<or> (\<exists>fs \<in> set sets. track_passes fs tprops \<and> set_admits fs sg ob pr props)"
proof (cases "sets = []")
  case True
  then show ?thesis by (simp add: for_track_def admits_def)
next
  case False
  let ?p = "filter (\<lambda>fs. track_passes fs tprops) sets"
  let ?kept = "map (filter (\<lambda>(p, f). p \<noteq> 0x29)) ?p"
  have ft: "for_track sets tprops =
      (if ?kept = [] then None else if \<not> (\<forall>fs \<in> set ?kept. fs \<noteq> []) then Some [] else Some ?kept)"
    unfolding for_track_def Let_def using False by simp
  have k: "(\<exists>fs \<in> set ?kept. set_admits fs sg ob pr props) \<longleftrightarrow>
      (\<exists>fs \<in> set sets. track_passes fs tprops \<and> set_admits fs sg ob pr props)"
    by (auto simp: set_admits_drop_track)
  consider (none) "?kept = []" | (all) "?kept \<noteq> []" "\<not> (\<forall>fs \<in> set ?kept. fs \<noteq> [])"
    | (some) "?kept \<noteq> []" "\<forall>fs \<in> set ?kept. fs \<noteq> []"
    by blast
  then show ?thesis
  proof cases
    case none
    then have "\<forall>fs \<in> set sets. \<not> track_passes fs tprops" by (simp add: filter_empty_conv)
    with none False show ?thesis by (simp only: ft) simp
  next
    case all
    then have "\<exists>fs \<in> set ?kept. set_admits fs sg ob pr props" by force
    with k have "\<exists>fs \<in> set sets. track_passes fs tprops \<and> set_admits fs sg ob pr props" by (rule iffD1)
    moreover have "for_track sets tprops = Some []" using all by (simp only: ft) simp
    ultimately show ?thesis by (simp add: admits_def)
  next
    case some
    then have "for_track sets tprops = Some ?kept" by (simp only: ft) simp
    moreover have "admits ?kept sg ob pr props \<longleftrightarrow> (\<exists>fs \<in> set ?kept. set_admits fs sg ob pr props)"
      using some(1) by (simp only: admits_def some_set_admits_iff if_False)
    ultimately show ?thesis using k False by simp
  qed
qed

theorem for_track_splits_filters_witness:
  "for_track [[(0x29, \<lparr>rf_set_id = Some 0, rf_ranges = [(1, Some 2)], rf_property_type = Some 4\<rparr>),
               (0x26, \<lparr>rf_set_id = Some 0, rf_ranges = [(0, Some 9)], rf_property_type = None\<rparr>)]] (Some [(4, PInt 2)])
     = Some [[(0x26, \<lparr>rf_set_id = Some 0, rf_ranges = [(0, Some 9)], rf_property_type = None\<rparr>)]]
   \<and> \<not> admits [[(0x26, \<lparr>rf_set_id = Some 0, rf_ranges = [(0, Some 9)], rf_property_type = None\<rparr>)]] 0 10 0 None"
proof -
  let ?t = "(0x29, \<lparr>rf_set_id = Some 0, rf_ranges = [(1, Some 2)], rf_property_type = Some 4\<rparr>)"
  let ?o = "(0x26, \<lparr>rf_set_id = Some 0, rf_ranges = [(0, Some 9)], rf_property_type = None\<rparr>)"
  have 1: "for_track [[?t, ?o]] (Some [(4, PInt 2)]) = Some [[?o]]" by code_simp
  have "\<not> set_admits [?t, ?o] 0 10 0 None" by code_simp
  then have "\<not> admits [[?o]] 0 10 0 None"
    using for_track_splits_filters [of "[[?t, ?o]]" "Some [(4, PInt 2)]" 0 10 0 None] 1 by simp
  with 1 show ?thesis by blast
qed

section \<open>Updates and refusals\<close>

text \<open>The filters of one type after an update.\<close>

definition merged_type :: "params \<Rightarrow> params \<Rightarrow> int \<Rightarrow> RangeFilter list result" where
  "merged_type current update t =
    mapR (\<lambda>(_, v). pv_range v) (range_filter_items
       (case dict_get (if dict_get update t \<noteq> None then update else current) t of None \<Rightarrow> [] | Some v \<Rightarrow> [(t, v)]))"

lemma merge_loop_Cons:
  assumes "merge_loop current update (t # ts) = Inr out"
  obtains fs out' where "merged_type current update t = Inr fs" "merge_loop current update ts = Inr out'"
    "out = (let kept = filter (\<lambda>f. rf_set_id f \<noteq> None) fs in if kept = [] then out' else (t, kept) # out')"
  using assms by (auto simp: Let_def bindR_eq_Inr merged_type_def)

lemma merge_loop_keys: "merge_loop current update ts = Inr out \<Longrightarrow> fst ` set out \<subseteq> set ts"
proof (induction ts arbitrary: out)
  case (Cons t ts)
  from Cons.prems obtain fs out' where "merge_loop current update ts = Inr out'"
    "out = (let kept = filter (\<lambda>f. rf_set_id f \<noteq> None) fs in if kept = [] then out' else (t, kept) # out')"
    by (rule merge_loop_Cons)
  with Cons.IH [of out'] show ?case by (auto simp: Let_def split: if_splits)
qed simp

lemma merge_loop_get:
  "merge_loop current update ts = Inr out \<Longrightarrow> distinct ts \<Longrightarrow> t \<in> set ts \<Longrightarrow>
   \<exists>fs. merged_type current update t = Inr fs \<and>
     dict_get out t = (let kept = filter (\<lambda>f. rf_set_id f \<noteq> None) fs in if kept = [] then None else Some kept)"
proof (induction ts arbitrary: out)
  case (Cons u ts)
  from Cons.prems(1) obtain fs out' where fs: "merged_type current update u = Inr fs"
    and o': "merge_loop current update ts = Inr out'"
    and o: "out = (let kept = filter (\<lambda>f. rf_set_id f \<noteq> None) fs in if kept = [] then out' else (u, kept) # out')"
    by (rule merge_loop_Cons)
  show ?case
  proof (cases "t = u")
    case True
    then have "dict_get out' t = None"
      using merge_loop_keys [OF o'] Cons.prems(2) by (auto simp: dict_get_def map_of_eq_None_iff)
    then show ?thesis using fs o True by (auto simp: Let_def dict_get_def)
  next
    case False
    then show ?thesis using Cons.IH [OF o'] Cons.prems o by (auto simp: Let_def dict_get_def)
  qed
qed simp

text \<open>What the items of a single-entry dictionary are.\<close>

lemma range_filter_items_single:
  assumes "t \<in> set RANGE_FILTERS"
  shows "range_filter_items [(t, v)] = map (Pair t) (pv_items v)"
  using assms by (auto simp: RANGE_FILTERS_def range_filter_items_def dict_get_def)

lemma range_filter_items_Nil: "range_filter_items [] = []"
  by (simp add: range_filter_items_def dict_get_def)

lemma mapR_pair: "mapR (\<lambda>(_, v). g v) (map (Pair t) xs) = mapR g xs"
  by (induction xs) auto

text \<open>
  after an update, each Range Filter type holds the non-removing filters of the update when the
  update carries that type (none left: the type is gone), and those of the current parameters
  otherwise; nothing but Range Filter types is in the result.
\<close>

theorem merge_range_filters_spec:
  assumes "merge_range_filters current update = Inr out"
  shows "dict_get out t =
    (if t \<notin> set RANGE_FILTERS then None
     else case (case dict_get update t of None \<Rightarrow> dict_get current t | Some v \<Rightarrow> Some v) of
       None \<Rightarrow> None
     | Some v \<Rightarrow>
         (case mapR pv_range (pv_items v) of
            Inl _ \<Rightarrow> None
          | Inr fs \<Rightarrow> (let kept = filter (\<lambda>f. rf_set_id f \<noteq> None) fs in if kept = [] then None else Some kept)))"
proof (cases "t \<in> set RANGE_FILTERS")
  case False
  then have "dict_get out t = None"
    using merge_loop_keys [OF assms [unfolded merge_range_filters_def]]
    by (auto simp: dict_get_def map_of_eq_None_iff)
  with False show ?thesis by simp
next
  case True
  have "distinct RANGE_FILTERS" by (simp add: RANGE_FILTERS_def)
  from merge_loop_get [OF assms [unfolded merge_range_filters_def] this True] obtain fs
    where fs: "merged_type current update t = Inr fs"
      and o: "dict_get out t = (let kept = filter (\<lambda>f. rf_set_id f \<noteq> None) fs in if kept = [] then None else Some kept)"
    by blast
  have "case (case dict_get update t of None \<Rightarrow> dict_get current t | Some v \<Rightarrow> Some v) of
      None \<Rightarrow> fs = [] | Some v \<Rightarrow> mapR pv_range (pv_items v) = Inr fs"
    using fs True
    by (auto simp: merged_type_def range_filter_items_single range_filter_items_Nil mapR_pair split: option.splits)
  with o True show ?thesis by (auto simp: Let_def split: option.splits)
qed

theorem merge_range_filters_spec_witness:
  "\<exists>out. merge_range_filters
      [(0x25, PSeq [PRange \<lparr>rf_set_id = Some 1, rf_ranges = [(0, None)], rf_property_type = None\<rparr>]),
       (0x26, PSeq [PRange \<lparr>rf_set_id = Some 1, rf_ranges = [(4, None)], rf_property_type = None\<rparr>])]
      [(0x25, PRange \<lparr>rf_set_id = None, rf_ranges = [], rf_property_type = None\<rparr>)] = Inr out
    \<and> dict_get out 0x25 = None \<and> dict_get out 0x26 \<noteq> None"
proof -
  let ?c = "[(0x25, PSeq [PRange \<lparr>rf_set_id = Some 1, rf_ranges = [(0, None)], rf_property_type = None\<rparr>]),
       (0x26, PSeq [PRange \<lparr>rf_set_id = Some 1, rf_ranges = [(4, None)], rf_property_type = None\<rparr>])]"
  let ?u = "[(0x25, PRange \<lparr>rf_set_id = None, rf_ranges = [], rf_property_type = None\<rparr>)]"
  let ?o = "[(0x26, [\<lparr>rf_set_id = Some 1, rf_ranges = [(4, None)], rf_property_type = None\<rparr>])]"
  have m: "merge_range_filters ?c ?u = Inr ?o" by code_simp
  have "dict_get ?o 0x25 = None" "dict_get ?o 0x26 \<noteq> None"
    using merge_range_filters_spec [OF m, of "0x25"] merge_range_filters_spec [OF m, of "0x26"]
    by (simp_all add: dict_get_def RANGE_FILTERS_def pv_items_def pv_range_def)
  with m show ?thesis by blast
qed

end
