(* ===== verification/Message_Base.thy ===== *)
theory Message_Base
  imports Filters
begin

text \<open>
  \<^verbatim>\<open>messages/base.py\<close>: the codecs every message is built from, i.e. Key-Value-Pair blocks (extensions and
  setup options), reason phrases, namespaces and track names, authorization tokens, and the message
  parameter block in all its draft-dependent forms. Values have the types the code documents; a value
  of a class the code does not expect gives the exception it raises for it (conversions through
  \<^verbatim>\<open>int()\<close> and \<^verbatim>\<open>bytes()\<close> of other classes are left out).
\<close>

definition BUF_SIZE :: nat where "BUF_SIZE = 4096"
definition EXTENSIONS_LEN_LIMIT :: int where "EXTENSIONS_LEN_LIMIT = 16384"
definition REASON_PHRASE_MAX :: int where "REASON_PHRASE_MAX = 1024"
definition NAMESPACE_MAX_FIELDS :: int where "NAMESPACE_MAX_FIELDS = 32"
definition FULL_TRACK_NAME_MAX :: int where "FULL_TRACK_NAME_MAX = 4096"
definition KVP_TYPE_MAX :: int where "KVP_TYPE_MAX = 2 ^ 64 - 1"
definition KVP_VALUE_MAX :: int where "KVP_VALUE_MAX = 2 ^ 16 - 1"
definition AUTH_TOKEN :: int where "AUTH_TOKEN = 0x03"
definition DELIVERY_TIMEOUT :: int where "DELIVERY_TIMEOUT = 0x02"
definition IMMUTABLE_PROPERTIES :: int where "IMMUTABLE_PROPERTIES = 0x0B"

definition PARAM_VALUE_RANGES :: "(int \<times> int) dict" where
  "PARAM_VALUE_RANGES = [(0x10, (0, 1)), (0x22, (1, 2)), (0x20, (0, 255))]"

definition TRACK_PROPERTY_RANGES :: "(int \<times> int) dict" where
  "TRACK_PROPERTY_RANGES = [(0x22, (1, 2)), (0x30, (0, 1))]"

text \<open>\<^verbatim>\<open>lo <= value <= hi\<close> on a value that is not an integer raises \<open>TypeError\<close>.\<close>

definition check_range :: "pval \<Rightarrow> int \<times> int \<Rightarrow> unit result" where
  "check_range v r = (case v of
     PInt n \<Rightarrow> guardR (fst r \<le> n \<and> n \<le> snd r) MOQTProtocolViolation
   | _ \<Rightarrow> Inl TypeError)"

lemma reader_eqs:
  "rret v b = Inr (a, b') \<longleftrightarrow> a = v \<and> b' = b"
  "rfail e b = Inr (a, b') \<longleftrightarrow> False"
  "rguard p e b = Inr (u, b') \<longleftrightarrow> p \<and> b' = b"
  "rlift x b = Inr (a, b') \<longleftrightarrow> x = Inr a \<and> b' = b"
  "rtell b = Inr (n, b') \<longleftrightarrow> n = rb_pos b \<and> b' = b"
  by (auto simp: rret_def rfail_def rguard_def rlift_def rtell_def split: sum.splits)

lemmas rinv = rbind_eq_Inr reader_eqs

section \<open>Key-Value-Pair blocks\<close>

definition push_int :: "vcodec \<Rightarrow> bool \<Rightarrow> pval \<Rightarrow> bytes result" where
  "push_int C f v = (case v of PInt n \<Rightarrow> push_vint C f n | _ \<Rightarrow> Inl TypeError)"

definition ext_push_value :: "vcodec \<Rightarrow> bool \<Rightarrow> int \<Rightarrow> pval \<Rightarrow> bytes result" where
  "ext_push_value C f ext_id v =
    (if ext_id mod 2 = 0 then push_int C f v
     else case v of
       PStr s \<Rightarrow> bindR (str_encode s) (push_sized C f)
     | PBytes bs \<Rightarrow> push_sized C f bs
     | PToken _ bs \<Rightarrow> push_sized C f bs
     | _ \<Rightarrow> Inl AssertionError)"

fun ext_push_items :: "vcodec \<Rightarrow> bool \<Rightarrow> bool \<Rightarrow> int \<Rightarrow> params \<Rightarrow> bytes result" where
  "ext_push_items C f delta prev [] = Inr []"
| "ext_push_items C f delta prev ((ext_id, v) # xs) =
    wseq [push_vint C f (if delta then ext_id - prev else ext_id), ext_push_value C f ext_id v,
          ext_push_items C f delta (if delta then ext_id else prev) xs]"

text \<open>\<open>f\<close> is the integer flavour of the target buffer, which the block's own buffer copies.\<close>

definition extensions_encode :: "vcodec \<Rightarrow> bool \<Rightarrow> params option \<Rightarrow> bool \<Rightarrow> bool \<Rightarrow> bytes result" where
  "extensions_encode C f exts with_length delta =
    (case exts of
       None \<Rightarrow> if with_length then push_vint C f 0 else Inr []
     | Some [] \<Rightarrow> if with_length then push_vint C f 0 else Inr []
     | Some d \<Rightarrow>
         bindR (in_buffer C BUF_SIZE (ext_push_items C f delta 0 (if delta then dict_sorted d else d)))
           (if with_length then push_sized C f else push_bytes))"

definition pull_kvp :: "vcodec \<Rightarrow> bool \<Rightarrow> bool \<Rightarrow> bool \<Rightarrow> int \<Rightarrow> nat \<Rightarrow> (int \<times> pval) reader" where
  "pull_kvp C with_length lenient delta prev exts_end =
    rbind (pull_vint C) (\<lambda>raw. let ext_id = (if delta then raw + prev else raw) in
    rbind (rguard (delta \<longrightarrow> ext_id \<le> KVP_TYPE_MAX) MOQTProtocolViolation) (\<lambda>_.
    if ext_id mod 2 = 0 then rbind (pull_vint C) (\<lambda>n. rret (ext_id, PInt n))
    else
      rbind (pull_vint C) (\<lambda>value_len.
      rbind (rguard (value_len \<le> KVP_VALUE_MAX) MOQTProtocolViolation) (\<lambda>_.
      rbind rtell (\<lambda>p.
      rbind (rguard (value_len \<le> int exts_end - int p)
               (if with_length \<or> \<not> lenient then MOQTMalformedKVP else BufferReadError)) (\<lambda>_.
      rbind (pull_bytes value_len) (\<lambda>bs. rret (ext_id, PBytes bs))))))))"

lemma forward_pull_kvp [fw]: "forward (pull_kvp C with_length lenient delta prev exts_end)"
  unfolding pull_kvp_def Let_def by (auto intro!: fw)

text \<open>The dictionary read so far and the types seen more than once.\<close>

type_synonym kvps = "params \<times> int list"

definition kvps_result :: "kvps \<Rightarrow> kvps option" where
  "kvps_result x = (if fst x = [] then None else Some x)"

definition kvps_add :: "kvps \<Rightarrow> int \<Rightarrow> pval \<Rightarrow> kvps" where
  "kvps_add x k v =
    (dict_set (fst x) k v,
     if dict_get (fst x) k \<noteq> None \<and> k \<notin> set (snd x) then snd x @ [k] else snd x)"

lemma vint_bind_progress:
  assumes "rbind (pull_vint C) k b = Inr (x, b1)" "\<And>a. forward (k a)"
  shows "rb_pos b < rb_pos b1"
proof -
  obtain n b0 where "pull_vint C b = Inr (n, b0)" "k n b0 = Inr (x, b1)"
    using assms(1) by (auto simp: rbind_eq_Inr)
  then show ?thesis using vint_then_less(1) [of C b n b0 "k n" x b1] assms(2) [of n] by simp
qed

lemma kvp_progress: "pull_kvp C wl ln delta prev e b = Inr (x, b1) \<Longrightarrow> rb_pos b < rb_pos b1"
  unfolding pull_kvp_def by (erule vint_bind_progress) (auto simp: Let_def intro!: fw)

function extensions_loop ::
    "vcodec \<Rightarrow> bool \<Rightarrow> bool \<Rightarrow> bool \<Rightarrow> bool \<Rightarrow> nat \<Rightarrow> int \<Rightarrow> kvps \<Rightarrow> kvps option reader" where
  "extensions_loop C tol with_length lenient delta exts_end prev acc b =
    (if rb_pos b < exts_end then
       (case pull_kvp C with_length lenient delta prev exts_end b of
          Inl e \<Rightarrow>
            if is_short_read e \<and> \<not> (with_length \<or> \<not> lenient) then
              (if \<not> tol then Inl MOQTMalformedKVP else Inr (kvps_result acc, b\<lparr>rb_pos := exts_end\<rparr>))
            else Inl e
        | Inr ((ext_id, v), b') \<Rightarrow>
            if exts_end < rb_pos b' then Inl MOQTMalformedKVP
            else extensions_loop C tol with_length lenient delta exts_end ext_id (kvps_add acc ext_id v) b')
     else Inr (kvps_result acc, b))"
  by pat_completeness auto
termination
  by (relation "measure (\<lambda>(C, tol, wl, ln, delta, e, prev, acc, b). e - rb_pos b)")
    (auto dest!: kvp_progress)

declare extensions_loop.simps [simp del]

text \<open>
  \<open>tol\<close> is the class attribute \<^verbatim>\<open>_tolerate_trailing_extensions\<close>. Without a length the caller gives the
  end of the message.
\<close>

definition extensions_decode ::
    "vcodec \<Rightarrow> bool \<Rightarrow> bool \<Rightarrow> nat option \<Rightarrow> bool \<Rightarrow> bool \<Rightarrow> kvps option reader" where
  "extensions_decode C tol with_length buf_end delta lenient =
    (if with_length then
       rbind (pull_vint C) (\<lambda>exts_len.
       rbind (rguard (exts_len \<le> EXTENSIONS_LEN_LIMIT) MOQTMalformedKVP) (\<lambda>_.
       if exts_len = 0 then rret None
       else rbind rtell (\<lambda>p. extensions_loop C tol True lenient delta (p + nat exts_len) 0 ([], []))))
     else
       (case buf_end of
          None \<Rightarrow> rfail ValueError
        | Some e \<Rightarrow>
            rbind rtell (\<lambda>p. if p = e then rret None
              else extensions_loop C tol False lenient delta e 0 ([], []))))"

section \<open>Field readers\<close>

definition pull_reason :: "vcodec \<Rightarrow> pystr reader" where
  "pull_reason C =
    rbind (pull_vint C) (\<lambda>n.
    rbind (rguard (n \<le> REASON_PHRASE_MAX) MOQTProtocolViolation) (\<lambda>_.
    rbind (pull_bytes n) (\<lambda>bs. rret (bytes_decode_replace bs))))"

definition pull_sized :: "int \<Rightarrow> bytes reader" where
  "pull_sized n =
    rbind rcapacity (\<lambda>c. rbind rtell (\<lambda>p.
    rbind (rguard (n \<le> int c - int p) MOQTProtocolViolation) (\<lambda>_. pull_bytes n)))"

fun pull_fields :: "vcodec \<Rightarrow> nat option \<Rightarrow> nat \<Rightarrow> bytes list reader" where
  "pull_fields C buf_end 0 = rret []"
| "pull_fields C buf_end (Suc n) =
    rbind (pull_vint C) (\<lambda>flen.
    rbind rtell (\<lambda>p.
    rbind (rguard (\<not> past buf_end (p + nat flen)) MOQTProtocolViolation) (\<lambda>_.
    rbind (pull_sized flen) (\<lambda>fld.
    rbind (pull_fields C buf_end n) (\<lambda>fs. rret (fld # fs))))))"

definition fields_size :: "bytes list \<Rightarrow> int" where
  "fields_size fs = int (sum_list (map length fs))"

definition pull_tuple :: "vcodec \<Rightarrow> DraftProfile \<Rightarrow> nat option \<Rightarrow> bytes list reader" where
  "pull_tuple C prof buf_end =
    rbind (pull_vint C) (\<lambda>n.
    rbind (rguard (n \<le> NAMESPACE_MAX_FIELDS) MOQTProtocolViolation) (\<lambda>_.
    rbind (pull_fields C buf_end (nat n)) (\<lambda>parts.
    if 16 \<le> draft prof then
      rbind (rguard (\<forall>p \<in> set parts. p \<noteq> []) MOQTProtocolViolation) (\<lambda>_.
      rbind (rguard (fields_size parts \<le> FULL_TRACK_NAME_MAX) MOQTProtocolViolation) (\<lambda>_. rret parts))
    else rret parts)))"

definition pull_full_track_name :: "vcodec \<Rightarrow> DraftProfile \<Rightarrow> (bytes list \<times> bytes) reader" where
  "pull_full_track_name C prof =
    rbind (pull_tuple C prof None) (\<lambda>ns.
    rbind (pull_vint C) (\<lambda>n.
    rbind (pull_sized n) (\<lambda>name.
    rbind (rguard (fields_size ns + int (length name) \<le> FULL_TRACK_NAME_MAX) MOQTProtocolViolation) (\<lambda>_.
    rret (ns, name)))))"

text \<open>The namespace as the serializers write it: a count, then each field with its length.\<close>

definition push_tuple :: "vcodec \<Rightarrow> bool \<Rightarrow> bytes list \<Rightarrow> bytes result" where
  "push_tuple C f fs = wseq (push_vint C f (int (length fs)) # map (push_sized C f) fs)"

definition decode_filter ::
    "vcodec \<Rightarrow> DraftProfile \<Rightarrow> bytes \<Rightarrow> (int \<times> int option \<times> int option \<times> int option) result" where
  "decode_filter C prof raw =
    (case (rbind (pull_vint C) (\<lambda>t.
           rbind (rguard (t \<in> {1, 2, 3, 4}) MOQTProtocolViolation) (\<lambda>_.
           if t = 3 \<or> t = 4 then
             rbind (pull_vint C) (\<lambda>sg.
             rbind (pull_vint C) (\<lambda>so.
             if t = 4 then
               rbind (pull_vint C) (\<lambda>eg. let eg' = (if vi64 prof then eg + sg else eg) in
               rbind (rguard (vi64 prof \<longrightarrow> eg' \<le> 2 ^ 64 - 1) MOQTProtocolViolation) (\<lambda>_.
               rret (t, Some sg, Some so, Some eg')))
             else rret (t, Some sg, Some so, None)))
           else rret (t, None, None, None)))) (new_rbuf raw (vi64 prof)) of
       Inl e \<Rightarrow> Inl e | Inr (x, _) \<Rightarrow> Inr x)"

section \<open>Track Properties\<close>

fun check_ranges :: "(int \<times> int) dict \<Rightarrow> params \<Rightarrow> unit result" where
  "check_ranges [] props = Inr ()"
| "check_ranges ((t, r) # rs) props =
    bindR (case dict_get props t of None \<Rightarrow> Inr () | Some v \<Rightarrow> check_range v r) (\<lambda>_. check_ranges rs props)"

definition check_property_ranges :: "params \<Rightarrow> unit result" where
  "check_property_ranges props = check_ranges TRACK_PROPERTY_RANGES props"

definition check_delivery_timeout :: "params \<Rightarrow> DraftProfile \<Rightarrow> unit result" where
  "check_delivery_timeout values prof =
    guardR (\<not> (zero_delivery_timeout_closes prof \<and> dict_get values DELIVERY_TIMEOUT = Some (PInt 0)))
      MOQTProtocolViolation"

definition is_value_error :: "py_error \<Rightarrow> bool" where
  "is_value_error e \<longleftrightarrow> e = ValueError \<or> e = UnicodeError"

definition check_track_properties :: "vcodec \<Rightarrow> bool \<Rightarrow> params option \<Rightarrow> DraftProfile \<Rightarrow> unit result" where
  "check_track_properties C tol props prof =
    (case props of
       None \<Rightarrow> Inr ()
     | Some d \<Rightarrow>
         if d = [] then Inr ()
         else
           bindR (check_property_ranges d) (\<lambda>_.
           bindR (check_delivery_timeout d prof) (\<lambda>_.
           case dict_get d IMMUTABLE_PROPERTIES of
             None \<Rightarrow> Inr ()
           | Some inner \<Rightarrow>
               bindR (case inner of PBytes raw \<Rightarrow> Inr raw | PToken _ raw \<Rightarrow> Inr raw | _ \<Rightarrow> Inl MOQTProtocolViolation) (\<lambda>raw.
               bindR (case extensions_decode C tol False (Some (length raw)) True False (new_rbuf raw (vi64 prof)) of
                   Inl e \<Rightarrow> Inl (if is_short_read e \<or> e = MOQTMalformedKVP \<or> is_value_error e
                                 then MOQTProtocolViolation else e)
                 | Inr (x, _) \<Rightarrow> Inr (case x of None \<Rightarrow> [] | Some (n, _) \<Rightarrow> n)) (\<lambda>nested.
               bindR (guardR (dict_get nested IMMUTABLE_PROPERTIES = None) MOQTProtocolViolation) (\<lambda>_.
               bindR (check_property_ranges nested) (\<lambda>_.
               check_delivery_timeout nested prof)))))))"

section \<open>Authorization tokens\<close>

definition AuthTokenAliasType :: int_enum where
  "AuthTokenAliasType = [(''DELETE'', 0), (''REGISTER'', 1), (''USE_ALIAS'', 2), (''USE_VALUE'', 3)]"

definition auth_token_wrap :: "vcodec \<Rightarrow> pval \<Rightarrow> DraftProfile \<Rightarrow> bytes result" where
  "auth_token_wrap C v prof =
    in_buffer C BUF_SIZE
      (let push = push_vint C (vi64 prof) in
       case v of
         PTokRef r \<Rightarrow>
           wseq ([push (at_alias_type r), push (at_alias r)] @
             (if at_alias_type r = 1
              then [push (attr (at_token_type r)), push_bytes (case at_value r of None \<Rightarrow> [] | Some b \<Rightarrow> b)] else []))
       | PToken t bs \<Rightarrow> wseq [push 3, push t, push_bytes bs]
       | PBytes bs \<Rightarrow> wseq [push 3, push 0, push_bytes bs]
       | PStr s \<Rightarrow> bindR (str_encode s) (\<lambda>bs. wseq [push 3, push 0, push_bytes bs])
       | _ \<Rightarrow> Inl TypeError)"

definition pull_rest :: "nat \<Rightarrow> bytes reader" where
  "pull_rest n = rbind rtell (\<lambda>p. pull_bytes (int n - int p))"

definition KEY_VALUE_FORMATTING_ERROR :: int where "KEY_VALUE_FORMATTING_ERROR = 0x6"

definition auth_token_unwrap :: "vcodec \<Rightarrow> bytes \<Rightarrow> DraftProfile \<Rightarrow> pval result" where
  "auth_token_unwrap C raw prof =
    (case (rbind (pull_vint C) (\<lambda>alias_type.
           if alias_type = 3 then
             rbind (pull_vint C) (\<lambda>t. rbind (pull_rest (length raw)) (\<lambda>bs. rret (Some (PToken t bs))))
           else if alias_type = 1 then
             rbind (pull_vint C) (\<lambda>a. rbind (pull_vint C) (\<lambda>t. rbind (pull_rest (length raw)) (\<lambda>bs.
             rret (Some (PTokRef \<lparr>at_alias_type = alias_type, at_alias = a, at_token_type = Some t, at_value = Some bs\<rparr>)))))
           else if alias_type = 0 \<or> alias_type = 2 then
             rbind (pull_vint C) (\<lambda>a. rbind rtell (\<lambda>p.
             rret (if p = length raw
                   then Some (PTokRef \<lparr>at_alias_type = alias_type, at_alias = a, at_token_type = None, at_value = None\<rparr>)
                   else None)))
           else rret None)) (new_rbuf raw (vi64 prof)) of
       Inr (Some v, _) \<Rightarrow> Inr v
     | Inr (None, _) \<Rightarrow> Inl (MOQTException KEY_VALUE_FORMATTING_ERROR)
     | Inl e \<Rightarrow> Inl (if is_short_read e then MOQTException KEY_VALUE_FORMATTING_ERROR else e))"

section \<open>Writing a parameter block\<close>

definition pv_encoded :: "pval \<Rightarrow> bytes result" where
  "pv_encoded v = (case v of PStr s \<Rightarrow> str_encode s | PBytes bs \<Rightarrow> Inr bs | PToken _ bs \<Rightarrow> Inr bs | _ \<Rightarrow> Inl TypeError)"

definition push_location :: "vcodec \<Rightarrow> bool \<Rightarrow> pval \<Rightarrow> bytes result" where
  "push_location C f v = (case v of
     PSeq [g, ob] \<Rightarrow> wseq [push_int C f g, push_int C f ob]
   | PSeq _ \<Rightarrow> Inl ValueError
   | _ \<Rightarrow> Inl TypeError)"

definition push_namespace_value :: "vcodec \<Rightarrow> bool \<Rightarrow> pval \<Rightarrow> bytes result" where
  "push_namespace_value C f v = (case v of
     PSeq vs \<Rightarrow> wseq (push_vint C f (int (length vs)) # map (\<lambda>x. bindR (pv_encoded x) (push_sized C f)) vs)
   | _ \<Rightarrow> Inl TypeError)"

text \<open>The value of a draft 18+ parameter by its kind; \<open>fillw\<close> writes the block inside FILL_PARAMETERS.\<close>

definition push_kind :: "vcodec \<Rightarrow> DraftProfile \<Rightarrow> (params \<Rightarrow> bytes result) \<Rightarrow> param_kind \<Rightarrow> int \<Rightarrow> pval \<Rightarrow> bytes result" where
  "push_kind C prof fillw kind ptype v =
    (let f = vi64 prof in
     case kind of
       K_location \<Rightarrow> push_location C f v
     | K_location_filter \<Rightarrow> (case v of PLocF lf \<Rightarrow> lf_encode C f prof lf | PStr _ \<Rightarrow> Inl TypeError | _ \<Rightarrow> Inl AttributeError)
     | K_range_filter \<Rightarrow> (case v of PRange rf \<Rightarrow> rf_encode C f prof ptype rf | PStr _ \<Rightarrow> Inl TypeError | _ \<Rightarrow> Inl AttributeError)
     | K_fill \<Rightarrow> (case v of
           PDict d \<Rightarrow> bindR (in_buffer C BUF_SIZE (fillw d)) (push_sized C f)
         | _ \<Rightarrow> Inl AttributeError)
     | K_namespace \<Rightarrow> push_namespace_value C f v
     | K_uint8 \<Rightarrow> (case v of PInt n \<Rightarrow> push_uint8 C n | _ \<Rightarrow> Inl TypeError)
     | K_varint \<Rightarrow> push_int C f v
     | K_tuple \<Rightarrow> bindR (in_buffer C BUF_SIZE (push_namespace_value C f v)) (push_sized C f)
     | K_bytes \<Rightarrow>
         bindR (if ptype = AUTH_TOKEN then auth_token_wrap C v prof else pv_encoded v) (push_sized C f))"

definition push_value :: "vcodec \<Rightarrow> DraftProfile \<Rightarrow> (params \<Rightarrow> bytes result) \<Rightarrow> int \<Rightarrow> pval \<Rightarrow> bytes result" where
  "push_value C prof fillw ptype v =
    (if 18 \<le> draft prof then
       bindR (param_kinds prof) (\<lambda>kinds.
       bindR (of_option ValueError (dict_get kinds ptype)) (\<lambda>kind.
       push_kind C prof fillw kind ptype v))
     else if ptype \<in> set (location_params prof) then push_location C (vi64 prof) v
     else if ptype mod 2 = 1 then
       bindR (if ptype = AUTH_TOKEN then auth_token_wrap C v prof else pv_encoded v) (push_sized C (vi64 prof))
     else (case v of
         PInt n \<Rightarrow> if ptype \<in> set (uint8_params prof) then push_uint8 C n else push_vint C (vi64 prof) n
       | _ \<Rightarrow> Inl TypeError))"

definition expand_item :: "int \<times> pval \<Rightarrow> (int \<times> pval) list" where
  "expand_item x = (case x of
     (t, PSeq vs) \<Rightarrow> if t \<in> set REPEATABLE then map (Pair t) vs else [x]
   | _ \<Rightarrow> [x])"

definition expand_items :: "DraftProfile \<Rightarrow> params \<Rightarrow> (int \<times> pval) list" where
  "expand_items prof ps = (if d20_params prof then concat (map expand_item ps) else ps)"

fun push_items :: "vcodec \<Rightarrow> DraftProfile \<Rightarrow> (params \<Rightarrow> bytes result) \<Rightarrow> bool \<Rightarrow> int \<Rightarrow> (int \<times> pval) list \<Rightarrow> bytes result" where
  "push_items C prof fillw delta prev [] = Inr []"
| "push_items C prof fillw delta prev ((t, v) # xs) =
    wseq [push_vint C (vi64 prof) (if delta then t - prev else t), push_value C prof fillw t v,
          push_items C prof fillw delta (if delta then t else prev) xs]"

definition ordered :: "bool \<Rightarrow> params \<Rightarrow> params" where
  "ordered delta ps = (if delta then dict_sorted ps else ps)"

definition push_block :: "vcodec \<Rightarrow> DraftProfile \<Rightarrow> (params \<Rightarrow> bytes result) \<Rightarrow> bool \<Rightarrow> params \<Rightarrow> bytes result" where
  "push_block C prof fillw delta ps =
    (let items = expand_items prof (ordered delta ps)
     in wseq [push_vint C (vi64 prof) (int (length items)), push_items C prof fillw delta 0 items])"

lemma push_value_cong [fundef_cong]:
  "(\<And>d. v = PDict d \<Longrightarrow> g d = h d) \<Longrightarrow> v = v' \<Longrightarrow> push_value C prof g t v = push_value C prof h t v'"
  by (cases v) (auto simp: push_value_def push_kind_def Let_def intro!: arg_cong2 [of _ _ _ _ bindR] ext split: param_kind.splits)

lemma push_items_cong:
  "(\<And>t d. (t, PDict d) \<in> set xs \<Longrightarrow> g d = h d) \<Longrightarrow> push_items C prof g delta prev xs = push_items C prof h delta prev xs"
proof (induction xs arbitrary: prev)
  case (Cons x xs)
  obtain t v where x: "x = (t, v)" by force
  have "push_value C prof g t v = push_value C prof h t v"
    using Cons.prems x by (intro push_value_cong) auto
  moreover have "push_items C prof g delta p xs = push_items C prof h delta p xs" for p
    using Cons.prems by (intro Cons.IH) auto
  ultimately show ?case by (simp add: x)
qed simp

text \<open>Nesting depth: a block nested in FILL_PARAMETERS is smaller than the block that holds it.\<close>

lemma expand_item_elem:
  "y \<in> set (expand_item x) \<Longrightarrow> y = x \<or> (\<exists>vs v. x = (fst y, PSeq vs) \<and> y = (fst y, v) \<and> v \<in> set vs)"
  by (cases x; cases "snd x") (auto simp: expand_item_def split: if_splits)

lemma expand_items_size:
  assumes "(t, PDict d) \<in> set (expand_items prof (ordered delta ps))"
  shows "size_list (size_prod (\<lambda>_. 0) size) d < size_list (size_prod (\<lambda>_. 0) size) ps"
proof -
  let ?s = "size_prod (\<lambda>_. 0) size :: int \<times> pval \<Rightarrow> nat"
  have set: "set (ordered delta ps) = set ps" by (simp add: ordered_def)
  from assms consider "(t, PDict d) \<in> set ps" | vs where "(t, PSeq vs) \<in> set ps" "PDict d \<in> set vs"
    using expand_item_elem [of "(t, PDict d)"] set by (auto simp: expand_items_def split: if_splits)
  then show ?thesis
  proof cases
    case 1
    then have "?s (t, PDict d) \<le> size_list ?s ps" by (rule size_list_estimation') simp
    then show ?thesis by simp
  next
    case 2
    have "size (PDict d) \<le> size_list size vs" using 2(2) by (rule size_list_estimation') simp
    moreover have "?s (t, PSeq vs) \<le> size_list ?s ps" using 2(1) by (rule size_list_estimation') simp
    ultimately show ?thesis by simp
  qed
qed

lemma push_block_cong [fundef_cong]:
  "ps = ps' \<Longrightarrow> (\<And>t d. (t, PDict d) \<in> set (expand_items prof (ordered delta ps')) \<Longrightarrow> g d = h d) \<Longrightarrow>
   push_block C prof g delta ps = push_block C prof h delta ps'"
  unfolding push_block_def Let_def by (metis push_items_cong)

function serialize_params :: "vcodec \<Rightarrow> DraftProfile \<Rightarrow> bool option \<Rightarrow> params \<Rightarrow> bytes result" where
  "serialize_params C prof delta_keys ps =
    push_block C prof (\<lambda>d. serialize_params C prof None d)
      (case delta_keys of None \<Rightarrow> params_delta_coded prof | Some x \<Rightarrow> x) ps"
  by pat_completeness auto
termination
  by (relation "measure (\<lambda>(C, prof, delta, ps). size_list (size_prod (\<lambda>_. 0) size) ps)")
    (auto dest!: expand_items_size)

declare serialize_params.simps [simp del]

section \<open>Reading a parameter block\<close>

text \<open>
  \<^verbatim>\<open>_suffix_parses\<close>: whether the rest of the message parses as \<open>remaining\<close> more parameters and then
  Key-Value-Pairs up to the end; every exception counts as no.
\<close>

definition seek_past :: "vcodec \<Rightarrow> nat \<Rightarrow> unit reader" where
  "seek_past C buf_end =
    rbind (pull_vint C) (\<lambda>n. rbind rtell (\<lambda>p.
    rbind (rguard (p + nat n \<le> buf_end) MOQTProtocolViolation) (\<lambda>_. rseek (p + nat n))))"

fun suffix_params :: "vcodec \<Rightarrow> DraftProfile \<Rightarrow> nat \<Rightarrow> bool \<Rightarrow> nat \<Rightarrow> int \<Rightarrow> unit reader" where
  "suffix_params C prof buf_end delta 0 pk = rret ()"
| "suffix_params C prof buf_end delta (Suc n) pk =
    rbind (pull_vint C) (\<lambda>raw. let ptype = (if delta then pk + raw else raw) in
    rbind (if ptype \<in> set (location_params prof) then rbind (pull_vint C) (\<lambda>_. rbind (pull_vint C) (\<lambda>_. rret ()))
           else if ptype mod 2 = 1 then seek_past C buf_end
           else if ptype \<in> set (uint8_params prof) then rbind (pull_uint8 C) (\<lambda>_. rret ())
           else rbind (pull_vint C) (\<lambda>_. rret ())) (\<lambda>_.
    rbind rtell (\<lambda>p.
    rbind (rguard (p \<le> buf_end) MOQTProtocolViolation) (\<lambda>_.
    suffix_params C prof buf_end delta n (if delta then ptype else pk)))))"

definition suffix_kvp :: "vcodec \<Rightarrow> nat \<Rightarrow> int \<Rightarrow> int reader" where
  "suffix_kvp C buf_end kk =
    rbind (pull_vint C) (\<lambda>d.
    rbind (if (kk + d) mod 2 = 1 then seek_past C buf_end else rbind (pull_vint C) (\<lambda>_. rret ())) (\<lambda>_.
    rret (kk + d)))"

lemma seek_past_progress: "seek_past C e b = Inr (x, b') \<Longrightarrow> rb_pos b < rb_pos b'"
  by (auto simp: seek_past_def rinv rseek_def adv_def split: if_splits dest!: pull_vint_advances)

lemma suffix_kvp_progress: "suffix_kvp C e kk b = Inr (x, b') \<Longrightarrow> rb_pos b < rb_pos b'"
  by (auto simp: suffix_kvp_def rbind_eq_Inr rret_def adv_def split: if_splits
      dest!: pull_vint_advances seek_past_progress)

function suffix_kvps :: "vcodec \<Rightarrow> nat \<Rightarrow> int \<Rightarrow> rbuf \<Rightarrow> bool" where
  "suffix_kvps C buf_end kk b =
    (if rb_pos b < buf_end then
       (case suffix_kvp C buf_end kk b of
          Inl _ \<Rightarrow> False
        | Inr (kk', b') \<Rightarrow> if buf_end < rb_pos b' then False else suffix_kvps C buf_end kk' b')
     else rb_pos b = buf_end)"
  by pat_completeness auto
termination
  by (relation "measure (\<lambda>(C, e, kk, b). e - rb_pos b)") (auto dest!: suffix_kvp_progress)

declare suffix_kvps.simps [simp del]

definition suffix_parses :: "vcodec \<Rightarrow> DraftProfile \<Rightarrow> nat \<Rightarrow> nat \<Rightarrow> int \<Rightarrow> bool \<Rightarrow> nat \<Rightarrow> rbuf \<Rightarrow> bool" where
  "suffix_parses C prof buf_end remaining prev_key delta start b =
    (case suffix_params C prof buf_end delta remaining prev_key (b\<lparr>rb_pos := start\<rparr>) of
       Inl _ \<Rightarrow> False
     | Inr (_, b') \<Rightarrow> suffix_kvps C buf_end 0 b')"

definition pull_pair :: "vcodec \<Rightarrow> location reader" where
  "pull_pair C = rbind (pull_vint C) (\<lambda>g. rbind (pull_vint C) (\<lambda>ob. rret (g, ob)))"

definition inline_location :: "vcodec \<Rightarrow> nat option \<Rightarrow> rbuf \<Rightarrow> (location \<times> nat) option" where
  "inline_location C buf_end b =
    (case pull_pair C b of
       Inl _ \<Rightarrow> None
     | Inr (loc, b') \<Rightarrow> if past buf_end (rb_pos b') then None else Some (loc, rb_pos b'))"

definition prefixed_location :: "vcodec \<Rightarrow> nat option \<Rightarrow> rbuf \<Rightarrow> (location \<times> nat) option" where
  "prefixed_location C buf_end b =
    (case pull_vint C b of
       Inl _ \<Rightarrow> None
     | Inr (n, b1) \<Rightarrow>
         (let loc_end = rb_pos b1 + nat n in
          if n = 0 \<or> past buf_end loc_end then None
          else (case pull_pair C b1 of
                  Inl _ \<Rightarrow> None
                | Inr (loc, b2) \<Rightarrow> if rb_pos b2 = loc_end then Some (loc, loc_end) else None)))"

definition pull_location_param ::
    "vcodec \<Rightarrow> DraftProfile \<Rightarrow> nat option \<Rightarrow> nat \<Rightarrow> int \<Rightarrow> bool \<Rightarrow> pval reader" where
  "pull_location_param C prof buf_end remaining prev_key delta b =
    (let inline = inline_location C buf_end b;
         prefixed = prefixed_location C buf_end b;
         pick = (case (inline, prefixed, buf_end) of
             (Some i, Some p, Some e) \<Rightarrow>
               if snd i \<noteq> snd p \<and> \<not> suffix_parses C prof e remaining prev_key delta (snd i) b
                  \<and> suffix_parses C prof e remaining prev_key delta (snd p) b
               then Some p else Some i
           | (Some i, _, _) \<Rightarrow> Some i
           | (None, p, _) \<Rightarrow> p)
     in case pick of
          None \<Rightarrow> Inl MOQTProtocolViolation
        | Some ((g, ob), pos) \<Rightarrow> Inr (PSeq [PInt g, PInt ob], b\<lparr>rb_pos := pos\<rparr>))"

text \<open>
  The arguments of one \<^verbatim>\<open>_pull_params\<close> call that do not change: the end, the key form, the scope and what
  it allows, and whether FILL_PARAMETERS has no length.
\<close>

record param_cfg =
  pc_end :: "nat option"
  pc_delta :: bool
  pc_scope :: "string option"
  pc_allowed :: "int list option"
  pc_fill_counted :: bool

definition pull_len :: "vcodec \<Rightarrow> nat option \<Rightarrow> int reader" where
  "pull_len C buf_end =
    rbind (pull_vint C) (\<lambda>n.
    rbind (rguard (n \<le> 65535) MOQTProtocolViolation) (\<lambda>_.
    rbind rtell (\<lambda>p.
    rbind (rguard (\<not> past buf_end (p + nat n)) MOQTProtocolViolation) (\<lambda>_. rret n))))"

definition pull_bytes_value :: "vcodec \<Rightarrow> DraftProfile \<Rightarrow> nat option \<Rightarrow> int \<Rightarrow> pval reader" where
  "pull_bytes_value C prof buf_end ptype =
    rbind (pull_len C buf_end) (\<lambda>n.
    rbind (pull_bytes n) (\<lambda>raw.
    if ptype = AUTH_TOKEN then rlift (auth_token_unwrap C raw prof) else rret (PBytes raw)))"

definition pull_kind ::
    "vcodec \<Rightarrow> DraftProfile \<Rightarrow> param_cfg \<Rightarrow> pval reader \<Rightarrow> nat option \<Rightarrow> int \<Rightarrow> param_kind \<Rightarrow> int \<Rightarrow> pval reader" where
  "pull_kind C prof cfg fillr remaining prev_key kind ptype =
    (case kind of
       K_location \<Rightarrow>
         if d20_params prof then rbind (pull_pair C) (\<lambda>(g, ob). rret (PSeq [PInt g, PInt ob]))
         else (case remaining of
             None \<Rightarrow> rfail TypeError
           | Some r \<Rightarrow> pull_location_param C prof (pc_end cfg) r prev_key (pc_delta cfg))
     | K_location_filter \<Rightarrow> rbind (lf_decode C prof (pc_end cfg)) (\<lambda>lf. rret (PLocF lf))
     | K_range_filter \<Rightarrow> rbind (rf_decode C prof ptype (pc_end cfg)) (\<lambda>rf. rret (PRange rf))
     | K_fill \<Rightarrow> fillr
     | K_namespace \<Rightarrow> rbind (pull_tuple C prof (pc_end cfg)) (\<lambda>fs. rret (PSeq (map PBytes fs)))
     | K_uint8 \<Rightarrow> rbind (pull_uint8 C) (\<lambda>n. rret (PInt n))
     | K_varint \<Rightarrow> rbind (pull_vint C) (\<lambda>n. rret (PInt n))
     | K_tuple \<Rightarrow>
         rbind (pull_vint C) (\<lambda>n. rbind rtell (\<lambda>p. let value_end = p + nat n in
         rbind (rguard (\<not> past (pc_end cfg) value_end) MOQTProtocolViolation) (\<lambda>_.
         rbind (pull_tuple C prof (Some value_end)) (\<lambda>fs.
         rbind rtell (\<lambda>p'.
         rbind (rguard (p' = value_end) MOQTProtocolViolation) (\<lambda>_. rret (PSeq (map PBytes fs))))))))
     | K_bytes \<Rightarrow> pull_bytes_value C prof (pc_end cfg) ptype)"

definition pull_value ::
    "vcodec \<Rightarrow> DraftProfile \<Rightarrow> param_cfg \<Rightarrow> pval reader \<Rightarrow> nat option \<Rightarrow> int \<Rightarrow> int \<Rightarrow> pval reader" where
  "pull_value C prof cfg fillr remaining prev_key ptype =
    (if 18 \<le> draft prof then
       rbind (rlift (param_kinds prof)) (\<lambda>kinds.
       rbind (rlift (of_option MOQTProtocolViolation (dict_get kinds ptype))) (\<lambda>kind.
       rbind (rguard (case pc_allowed cfg of None \<Rightarrow> True | Some a \<Rightarrow> ptype \<in> set a) MOQTProtocolViolation) (\<lambda>_.
       pull_kind C prof cfg fillr remaining prev_key kind ptype)))
     else if ptype \<in> set (location_params prof) then
       (case remaining of
          None \<Rightarrow> rfail TypeError
        | Some r \<Rightarrow> pull_location_param C prof (pc_end cfg) r prev_key (pc_delta cfg))
     else if ptype mod 2 = 1 then pull_bytes_value C prof (pc_end cfg) ptype
     else if ptype \<in> set (uint8_params prof) then rbind (pull_uint8 C) (\<lambda>n. rret (PInt n))
     else rbind (pull_vint C) (\<lambda>n. rret (PInt n)))"

text \<open>The checks behind the value: the frame bound, the value ranges.\<close>

definition param_bounds :: "DraftProfile \<Rightarrow> int \<Rightarrow> (int \<times> int) option" where
  "param_bounds prof ptype =
    (case dict_get PARAM_VALUE_RANGES ptype of
       Some r \<Rightarrow> Some r
     | None \<Rightarrow> if d20_params prof then dict_get VALUE_RANGES ptype else None)"

definition check_value :: "DraftProfile \<Rightarrow> param_cfg \<Rightarrow> int \<Rightarrow> pval \<Rightarrow> unit result" where
  "check_value prof cfg ptype v =
    bindR (if pc_scope cfg \<noteq> None \<and> ptype = DELIVERY_TIMEOUT then check_delivery_timeout [(ptype, v)] prof else Inr ()) (\<lambda>_.
    case param_bounds prof ptype of
      None \<Rightarrow> Inr ()
    | Some r \<Rightarrow> if 16 \<le> draft prof then check_range v r else Inr ())"

definition store_param :: "DraftProfile \<Rightarrow> params \<Rightarrow> int \<Rightarrow> pval \<Rightarrow> params result" where
  "store_param prof ps ptype v =
    (case dict_get ps ptype of
       Some prior \<Rightarrow>
         if d20_params prof then
           if ptype \<notin> set REPEATABLE then Inl MOQTProtocolViolation
           else Inr (dict_set ps ptype (case prior of PSeq vs \<Rightarrow> PSeq (vs @ [v]) | _ \<Rightarrow> PSeq [prior, v]))
         else Inr (dict_set ps ptype v)
     | None \<Rightarrow> Inr (dict_set ps ptype (if d20_params prof \<and> ptype \<in> set RANGE_FILTERS then PSeq [v] else v)))"

definition pull_key :: "vcodec \<Rightarrow> param_cfg \<Rightarrow> int \<Rightarrow> int reader" where
  "pull_key C cfg prev =
    rbind rtell (\<lambda>p.
    rbind (rguard (case pc_end cfg of None \<Rightarrow> True | Some e \<Rightarrow> p < e) MOQTProtocolViolation) (\<lambda>_.
    rbind (pull_vint C) (\<lambda>raw. rret (if pc_delta cfg then prev + raw else raw))))"

definition pull_rest_of_param ::
    "vcodec \<Rightarrow> DraftProfile \<Rightarrow> param_cfg \<Rightarrow> pval reader \<Rightarrow> nat option \<Rightarrow> int \<Rightarrow> params \<Rightarrow> int \<Rightarrow> params reader" where
  "pull_rest_of_param C prof cfg fillr remaining prev ps ptype =
    rbind (pull_value C prof cfg fillr remaining prev ptype) (\<lambda>v.
    rbind rtell (\<lambda>p.
    rbind (rguard (\<not> past (pc_end cfg) p) MOQTProtocolViolation) (\<lambda>_.
    rbind (rlift (check_value prof cfg ptype v)) (\<lambda>_.
    rlift (store_param prof ps ptype v)))))"

text \<open>Whether reading this parameter appends to \<^verbatim>\<open>fill_seen\<close>.\<close>

definition fill_reached :: "DraftProfile \<Rightarrow> param_cfg \<Rightarrow> int \<Rightarrow> bool" where
  "fill_reached prof cfg ptype \<longleftrightarrow>
    18 \<le> draft prof \<and> (case param_kinds prof of Inl _ \<Rightarrow> False | Inr ks \<Rightarrow> dict_get ks ptype = Some K_fill)
    \<and> (case pc_allowed cfg of None \<Rightarrow> True | Some a \<Rightarrow> ptype \<in> set a) \<and> \<not> pc_fill_counted cfg"

text \<open>
  The counted loop; beside the result it says whether a length-prefixed FILL_PARAMETERS was reached,
  also when it raised.
\<close>

fun params_loop ::
    "vcodec \<Rightarrow> DraftProfile \<Rightarrow> param_cfg \<Rightarrow> pval reader \<Rightarrow> nat \<Rightarrow> int \<Rightarrow> params \<Rightarrow> rbuf \<Rightarrow> bool \<times> (params \<times> rbuf) result" where
  "params_loop C prof cfg fillr 0 prev ps b = (False, Inr (ps, b))"
| "params_loop C prof cfg fillr (Suc n) prev ps b =
    (case pull_key C cfg prev b of
       Inl e \<Rightarrow> (False, Inl e)
     | Inr (ptype, b1) \<Rightarrow>
         (let prev' = (if pc_delta cfg then ptype else prev); seen = fill_reached prof cfg ptype in
          case pull_rest_of_param C prof cfg fillr (Some n) prev' ps ptype b1 of
            Inl e \<Rightarrow> (seen, Inl e)
          | Inr (ps', b2) \<Rightarrow>
              (case params_loop C prof cfg fillr n prev' ps' b2 of (s, r) \<Rightarrow> (seen \<or> s, r))))"

lemma forward_pull_pair [fw]: "forward (pull_pair C)"
  unfolding pull_pair_def by (auto intro!: fw)

lemma forward_pull_location_param [fw]: "forward (pull_location_param C prof e r prev delta)"
proof -
  have i: "rb_pos b \<le> p \<and> (rb_pos b \<le> capacity b \<longrightarrow> p \<le> capacity b)" if "inline_location C e' b = Some (l, p)" for e' b l p
    using that forwardD [OF forward_pull_pair, of C b]
    by (fastforce simp: inline_location_def split: sum.splits if_splits)
  have p: "rb_pos b \<le> p \<and> (rb_pos b \<le> capacity b \<longrightarrow> p \<le> capacity b)" if pr: "prefixed_location C e' b = Some (l, p)" for e' b l p
  proof -
    from pr obtain n b1 b2 where 1: "pull_vint C b = Inr (n, b1)" "pull_pair C b1 = Inr (l, b2)" "p = rb_pos b2"
      by (auto simp: prefixed_location_def Let_def split: sum.splits if_splits)
    from forwardD [OF forward_pulls(1) 1(1)] forwardD [OF forward_pull_pair 1(2)] 1(3)
    show ?thesis by (auto simp: capacity_def)
  qed
  show ?thesis
    unfolding forward_def
    by (auto simp: pull_location_param_def Let_def split: option.splits if_splits dest!: i p)
qed

lemma forward_pull_sized [fw]: "forward (pull_sized n)"
  unfolding pull_sized_def by (auto intro!: fw)

lemma forward_pull_fields [fw]: "forward (pull_fields C e n)"
  by (induction n) (auto intro!: fw)

lemma forward_pull_tuple [fw]: "forward (pull_tuple C prof e)"
  unfolding pull_tuple_def by (auto intro!: fw)

lemma forward_pull_bytes_value [fw]: "forward (pull_bytes_value C prof e t)"
  unfolding pull_bytes_value_def pull_len_def by (auto intro!: fw)

lemma forward_pull_kind:
  assumes "forward fillr"
  shows "forward (pull_kind C prof cfg fillr r prev kind t)"
  unfolding pull_kind_def Let_def
  by (cases kind; cases r) (auto intro!: fw assms split: prod.splits)

lemma forward_pull_value:
  assumes "forward fillr"
  shows "forward (pull_value C prof cfg fillr r prev t)"
  unfolding pull_value_def by (cases r) (auto intro!: fw forward_pull_kind assms)

lemma forward_pull_rest_of_param:
  "forward fillr \<Longrightarrow> forward (pull_rest_of_param C prof cfg fillr r prev ps t)"
  unfolding pull_rest_of_param_def by (intro fw forward_pull_value)

lemma pull_key_progress:
  assumes "pull_key C cfg prev b = Inr (t, b1)"
  shows "rb_pos b < rb_pos b1 \<and> rb_data b1 = rb_data b \<and> rb_chain b1 = rb_chain b \<and> rb_pos b1 \<le> capacity b"
  using assms by (auto simp: pull_key_def rinv adv_def capacity_def split: if_splits dest!: pull_vint_advances)

text \<open>
  FILL_PARAMETERS is not allowed inside FILL_PARAMETERS, so a block read with that scope never reaches
  its reader; \<open>no_fill\<close> stands there.
\<close>

definition no_fill :: "pval reader" where
  "no_fill = rfail MOQTProtocolViolation"

lemma bare_progress:
  assumes "pull_key C cfg prev b = Inr (t, b1)"
    "pull_rest_of_param C prof cfg no_fill None prev' ps t b1 = Inr (ps', b2)"
  shows "rb_pos b < rb_pos b2"
proof -
  have "forward (pull_rest_of_param C prof cfg no_fill None prev' ps t)"
    by (rule forward_pull_rest_of_param) (auto simp: no_fill_def intro!: fw)
  from forwardD [OF this assms(2)] pull_key_progress [OF assms(1)] show ?thesis by linarith
qed

function bare_loop :: "vcodec \<Rightarrow> DraftProfile \<Rightarrow> param_cfg \<Rightarrow> nat \<Rightarrow> int \<Rightarrow> params \<Rightarrow> params reader" where
  "bare_loop C prof cfg buf_end prev ps b =
    (if buf_end \<le> rb_pos b then Inr (ps, b)
     else case pull_key C cfg prev b of
       Inl e \<Rightarrow> Inl e
     | Inr (ptype, b1) \<Rightarrow>
         (let prev' = (if pc_delta cfg then ptype else prev) in
          case pull_rest_of_param C prof cfg no_fill None prev' ps ptype b1 of
            Inl e \<Rightarrow> Inl e
          | Inr (ps', b2) \<Rightarrow> bare_loop C prof cfg buf_end prev' ps' b2))"
  by pat_completeness auto
termination
  by (relation "measure (\<lambda>(C, prof, cfg, e, prev, ps, b). e - rb_pos b)")
    (auto dest!: bare_progress)

declare bare_loop.simps [simp del]

definition params_cfg :: "DraftProfile \<Rightarrow> nat option \<Rightarrow> bool option \<Rightarrow> string option \<Rightarrow> bool \<Rightarrow> param_cfg result" where
  "params_cfg prof buf_end delta_keys scope fill_counted =
    bindR (if 18 \<le> draft prof
           then bindR (param_scope prof) (\<lambda>sc. Inr (case scope of None \<Rightarrow> None | Some s \<Rightarrow> map_of sc s))
           else Inr None) (\<lambda>allowed.
    Inr \<lparr>pc_end = buf_end,
         pc_delta = (case delta_keys of None \<Rightarrow> params_delta_coded prof | Some x \<Rightarrow> x),
         pc_scope = scope, pc_allowed = allowed, pc_fill_counted = fill_counted\<rparr>)"

text \<open>
  \<^verbatim>\<open>_pull_params\<close> on a block inside FILL_PARAMETERS (counted, or bare up to its end), and the readers of a
  FILL_PARAMETERS value: without a length, or bounded by it.
\<close>

definition pull_params_fill :: "vcodec \<Rightarrow> DraftProfile \<Rightarrow> nat option \<Rightarrow> params reader" where
  "pull_params_fill C prof buf_end =
    rbind (set_vi64 (vi64 prof)) (\<lambda>_.
    rbind (pull_vint C) (\<lambda>n.
    rbind (rlift (params_cfg prof buf_end None (Some ''FillParameters'') False)) (\<lambda>cfg.
    \<lambda>b. snd (params_loop C prof cfg no_fill (nat n) 0 [] b))))"

definition pull_params_bare :: "vcodec \<Rightarrow> DraftProfile \<Rightarrow> nat \<Rightarrow> params reader" where
  "pull_params_bare C prof buf_end =
    rbind (set_vi64 (vi64 prof)) (\<lambda>_.
    rbind (rlift (params_cfg prof (Some buf_end) None (Some ''FillParameters'') False)) (\<lambda>cfg.
    bare_loop C prof cfg buf_end 0 []))"

definition is_param_fault :: "py_error \<Rightarrow> bool" where
  "is_param_fault e \<longleftrightarrow> is_violation e \<or> is_short_read e"

definition pull_fill_value :: "vcodec \<Rightarrow> DraftProfile \<Rightarrow> nat \<Rightarrow> params reader" where
  "pull_fill_value C prof value_end b =
    (case pull_vint C b of
       Inl e \<Rightarrow> Inl e
     | Inr (n, _) \<Rightarrow>
         if 0x0A \<le> n then
           (case pull_params_fill C prof (Some value_end) b of
              Inr (ps, b') \<Rightarrow> if rb_pos b' = value_end then Inr (ps, b') else pull_params_bare C prof value_end b
            | Inl e \<Rightarrow> if is_param_fault e then pull_params_bare C prof value_end b else Inl e)
         else pull_params_fill C prof (Some value_end) b)"

definition pull_fill :: "vcodec \<Rightarrow> DraftProfile \<Rightarrow> param_cfg \<Rightarrow> pval reader" where
  "pull_fill C prof cfg =
    (if pc_fill_counted cfg then rbind (pull_params_fill C prof (pc_end cfg)) (\<lambda>ps. rret (PDict ps))
     else
       rbind (pull_vint C) (\<lambda>n. rbind rtell (\<lambda>p. let value_end = p + nat n in
       rbind (rguard (\<not> past (pc_end cfg) value_end) MOQTProtocolViolation) (\<lambda>_.
       rbind (if n \<noteq> 0 then pull_fill_value C prof value_end else rret []) (\<lambda>ps.
       rbind rtell (\<lambda>p'.
       rbind (rguard (p' = value_end) MOQTProtocolViolation) (\<lambda>_. rret (PDict ps))))))))"

text \<open>\<^verbatim>\<open>_pull_params\<close> on the block of a message, with the flag.\<close>

definition pull_params ::
    "vcodec \<Rightarrow> DraftProfile \<Rightarrow> nat option \<Rightarrow> bool option \<Rightarrow> string option \<Rightarrow> bool \<Rightarrow> rbuf \<Rightarrow> bool \<times> (params \<times> rbuf) result" where
  "pull_params C prof buf_end delta_keys scope fill_counted b0 =
    (let b = b0\<lparr>rb_vi64 := vi64 prof\<rparr> in
     case pull_vint C b of
       Inl e \<Rightarrow> (False, Inl e)
     | Inr (n, b1) \<Rightarrow>
         (case params_cfg prof buf_end delta_keys scope fill_counted of
            Inl e \<Rightarrow> (False, Inl e)
          | Inr cfg \<Rightarrow> params_loop C prof cfg (pull_fill C prof cfg) (nat n) 0 [] b1))"

text \<open>
  \<^verbatim>\<open>_deserialize_params\<close>: a block with a FILL_PARAMETERS that did not parse, or that does not end the
  message, is read again with the value counted and unprefixed; when both fail the error is a violation.
\<close>

definition deserialize_params ::
    "vcodec \<Rightarrow> DraftProfile \<Rightarrow> bool option \<Rightarrow> string option \<Rightarrow> nat option \<Rightarrow> params reader" where
  "deserialize_params C prof delta_keys scope buf_end b =
    (case pull_params C prof buf_end delta_keys scope False b of
       (fill, r) \<Rightarrow>
         (let retry = (case snd (pull_params C prof buf_end delta_keys scope True b) of
                Inr x \<Rightarrow> Inr x
              | Inl e \<Rightarrow> Inl (if is_param_fault e then MOQTProtocolViolation else e))
          in case r of
               Inr (ps, b') \<Rightarrow>
                 if \<not> fill \<or> buf_end = None \<or> buf_end = Some (rb_pos b') then Inr (ps, b') else retry
             | Inl e \<Rightarrow> if \<not> is_param_fault e \<or> \<not> fill \<or> buf_end = None then Inl e else retry))"

section \<open>Setup options\<close>

fun push_kvp_items :: "vcodec \<Rightarrow> DraftProfile \<Rightarrow> int \<Rightarrow> params \<Rightarrow> bytes result" where
  "push_kvp_items C prof prev [] = Inr []"
| "push_kvp_items C prof prev ((key, v) # xs) =
    wseq [push_vint C (vi64 prof) (key - prev),
          if key mod 2 = 1 then
            bindR (if key = AUTH_TOKEN then auth_token_wrap C v prof else pv_encoded v) (push_sized C (vi64 prof))
          else push_int C (vi64 prof) v,
          push_kvp_items C prof key xs]"

definition serialize_kvp_to_end :: "vcodec \<Rightarrow> DraftProfile \<Rightarrow> params \<Rightarrow> bytes result" where
  "serialize_kvp_to_end C prof kvps = push_kvp_items C prof 0 (dict_sorted kvps)"

definition pull_option :: "vcodec \<Rightarrow> DraftProfile \<Rightarrow> nat \<Rightarrow> int \<Rightarrow> (int \<times> pval) reader" where
  "pull_option C prof buf_end prev =
    rbind (pull_vint C) (\<lambda>d. let key = prev + d in
    rbind (rguard (key \<le> KVP_TYPE_MAX) MOQTProtocolViolation) (\<lambda>_.
    if key mod 2 = 1 then
      rbind (pull_bytes_value C prof (Some buf_end) key) (\<lambda>v. rret (key, v))
    else
      rbind (pull_vint C) (\<lambda>n. rbind rtell (\<lambda>p.
      rbind (rguard (p \<le> buf_end) MOQTProtocolViolation) (\<lambda>_. rret (key, PInt n))))))"

lemma forward_pull_option [fw]: "forward (pull_option C prof e prev)"
  unfolding pull_option_def by (auto simp: Let_def intro!: fw)

lemma pull_option_progress: "pull_option C prof e prev b = Inr (x, b1) \<Longrightarrow> rb_pos b < rb_pos b1"
  unfolding pull_option_def by (erule vint_bind_progress) (auto simp: Let_def intro!: fw)

function kvp_loop :: "vcodec \<Rightarrow> DraftProfile \<Rightarrow> nat \<Rightarrow> int \<Rightarrow> params \<Rightarrow> params reader" where
  "kvp_loop C prof buf_end prev kvps b =
    (if rb_pos b < buf_end then
       (case pull_option C prof buf_end prev b of
          Inl e \<Rightarrow> Inl e
        | Inr ((key, v), b') \<Rightarrow> kvp_loop C prof buf_end key (dict_set kvps key v) b')
     else Inr (kvps, b))"
  by pat_completeness auto
termination
  by (relation "measure (\<lambda>(C, prof, e, prev, kvps, b). e - rb_pos b)") (auto dest!: pull_option_progress)

declare kvp_loop.simps [simp del]

definition deserialize_kvp_to_end :: "vcodec \<Rightarrow> DraftProfile \<Rightarrow> nat \<Rightarrow> params reader" where
  "deserialize_kvp_to_end C prof buf_end =
    rbind (set_vi64 (vi64 prof)) (\<lambda>_. kvp_loop C prof buf_end 0 [])"

text \<open>\<^verbatim>\<open>decode()\<close>: an unanticipated data-dependent failure of a message's \<^verbatim>\<open>deserialize\<close> is a violation.\<close>

definition is_decode_fault :: "py_error \<Rightarrow> bool" where
  "is_decode_fault e \<longleftrightarrow> e \<in> {ValueError, UnicodeError, IndexError, KeyError, OverflowError}"

definition msg_decode :: "'a reader \<Rightarrow> 'a reader" where
  "msg_decode deserialize = rcatch is_decode_fault deserialize (\<lambda>_. rfail MOQTProtocolViolation)"

section \<open>Round trips of the field codecs\<close>

lemma dict_set_new: "map_of d k = None \<Longrightarrow> dict_set d k v = d @ [(k, v)]"
  by (induction d) (auto split: if_splits)

lemma has_adv: "has f b bs \<Longrightarrow> has f (adv b (length bs)) []"
  using has_append [of f b bs "[]"] by simp

text \<open>The form in which the receiver sees a Key-Value-Pair value.\<close>

definition ext_norm :: "pval \<Rightarrow> pval" where
  "ext_norm v = (case v of PStr s \<Rightarrow> (case str_encode s of Inr bs \<Rightarrow> PBytes bs | Inl _ \<Rightarrow> v) | PToken _ bs \<Rightarrow> PBytes bs | _ \<Rightarrow> v)"

definition ext_small :: "pval \<Rightarrow> bool" where
  "ext_small v \<longleftrightarrow> (case ext_norm v of PBytes bs \<Rightarrow> int (length bs) \<le> KVP_VALUE_MAX | _ \<Rightarrow> True)"

lemma ext_push_value_cases:
  assumes "ext_push_value C f k v = Inr bs"
  shows "(k mod 2 = 0 \<and> (\<exists>n. v = PInt n \<and> ext_norm v = PInt n \<and> push_vint C f n = Inr bs)) \<or>
         (k mod 2 = 1 \<and> (\<exists>raw. ext_norm v = PBytes raw \<and> push_sized C f raw = Inr bs))"
proof (cases "k mod 2 = 0")
  case True
  then show ?thesis using assms by (cases v) (auto simp: ext_push_value_def push_int_def ext_norm_def)
next
  case False
  then have "k mod 2 = 1" by presburger
  then show ?thesis using assms by (cases v) (auto simp: ext_push_value_def ext_norm_def bindR_eq_Inr)
qed

context vcodec_laws
begin

lemma pull_kvp_reads:
  assumes "push_vint C f (if delta then k - prev else k) = Inr kb" "ext_push_value C f k v = Inr vb"
    and "has f b (kb @ vb)" "rb_pos b + length (kb @ vb) \<le> e" "k \<le> KVP_TYPE_MAX" "ext_small v"
  shows "pull_kvp C wl ln delta prev e b = Inr ((k, ext_norm v), adv b (length (kb @ vb)))"
proof -
  have h: "has f b kb" "has f (adv b (length kb)) vb"
    using assms(3) by (simp_all add: has_append)
  have 1: "pull_vint C b = Inr (if delta then k - prev else k, adv b (length kb))"
    using reads_vint [OF assms(1)] h(1) by (rule readsD)
  from ext_push_value_cases [OF assms(2)] show ?thesis
  proof
    assume "k mod 2 = 0 \<and> (\<exists>n. v = PInt n \<and> ext_norm v = PInt n \<and> push_vint C f n = Inr vb)"
    then obtain n where n: "k mod 2 = 0" "ext_norm v = PInt n" "push_vint C f n = Inr vb" by auto
    have "pull_vint C (adv b (length kb)) = Inr (n, adv (adv b (length kb)) (length vb))"
      using reads_vint [OF n(3)] h(2) by (rule readsD)
    then show ?thesis using assms(5) n(1,2) 1 by (simp add: pull_kvp_def rsteps Let_def)
  next
    assume "k mod 2 = 1 \<and> (\<exists>raw. ext_norm v = PBytes raw \<and> push_sized C f raw = Inr vb)"
    then obtain raw l where k: "k mod 2 = 1" "ext_norm v = PBytes raw"
        and l: "push_vint C f (int (length raw)) = Inr l" "vb = l @ raw"
      by (auto simp: push_sized_eq)
    have h2: "has f (adv b (length kb)) l" "has f (adv b (length kb + length l)) raw"
      using h(2) by (simp_all add: l(2) has_append)
    have "pull_vint C (adv b (length kb)) = Inr (int (length raw), adv b (length kb + length l))"
      using readsD [OF reads_vint [OF l(1)] h2(1)] by simp
    moreover have "pull_bytes (int (length raw)) (adv b (length kb + length l))
        = Inr (raw, adv b (length kb + length l + length raw))"
      using readsD [OF reads_pull_bytes [OF refl] h2(2)] by simp
    moreover have "int (length raw) \<le> KVP_VALUE_MAX" using assms(6) k(2) by (simp add: ext_small_def)
    ultimately show ?thesis
      using assms(4,5) k 1 by (simp add: pull_kvp_def rsteps Let_def l(2) add.assoc)
  qed
qed

lemma extensions_loop_reads:
  assumes "ext_push_items C f delta prev xs = Inr bs" "has f b bs"
    and "distinct (map fst (fst acc) @ map fst xs)"
    and "\<forall>(k, v) \<in> set xs. k \<le> KVP_TYPE_MAX \<and> ext_small v" "delta \<longrightarrow> prev' = prev"
  shows "extensions_loop C tol wl ln delta (rb_pos b + length bs) prev' acc b
    = Inr (kvps_result (fst acc @ map (\<lambda>(k, v). (k, ext_norm v)) xs, snd acc), adv b (length bs))"
  using assms
proof (induction xs arbitrary: prev prev' bs b acc)
  case Nil
  then show ?case by (simp add: extensions_loop.simps)
next
  case (Cons x xs)
  obtain k v where x: "x = (k, v)" by force
  obtain kb vb rest where p: "push_vint C f (if delta then k - prev else k) = Inr kb" "ext_push_value C f k v = Inr vb"
      "ext_push_items C f delta (if delta then k else prev) xs = Inr rest" and bs: "bs = (kb @ vb) @ rest"
    using Cons.prems(1) by (auto simp: x wr)
  have h: "has f b (kb @ vb)" "has f (adv b (length (kb @ vb))) rest"
    using Cons.prems(2) by (simp_all only: bs has_append)
  have "pull_kvp C wl ln delta prev' (rb_pos b + length bs) b = Inr ((k, ext_norm v), adv b (length (kb @ vb)))"
    using Cons.prems(4,5) p(1) by (intro pull_kvp_reads [OF _ p(2) h(1)]) (auto simp: x bs)
  moreover have "rb_pos b < rb_pos b + length bs"
    using push_vint_nonempty [OF p(1)] by (simp add: bs)
  moreover have acc: "kvps_add acc k (ext_norm v) = (fst acc @ [(k, ext_norm v)], snd acc)"
    using Cons.prems(3) by (auto simp: x kvps_add_def dict_get_def map_of_eq_None_iff [THEN iffD2] dict_set_new)
  moreover have "extensions_loop C tol wl ln delta (rb_pos (adv b (length (kb @ vb))) + length rest) k
      (fst acc @ [(k, ext_norm v)], snd acc) (adv b (length (kb @ vb)))
    = Inr (kvps_result ((fst acc @ [(k, ext_norm v)]) @ map (\<lambda>(k, v). (k, ext_norm v)) xs, snd acc),
        adv (adv b (length (kb @ vb))) (length rest))"
    using Cons.IH [OF p(3) h(2), of "(fst acc @ [(k, ext_norm v)], snd acc)" k] Cons.prems(3,4) by (auto simp: x)
  ultimately show ?case
    by (subst extensions_loop.simps) (simp add: bs x add.assoc)
qed

end

text \<open>The dictionary the receiver gets, and the blocks the limits allow.\<close>

definition ext_received :: "bool \<Rightarrow> params option \<Rightarrow> kvps option" where
  "ext_received delta exts = (case exts of
     None \<Rightarrow> None
   | Some d \<Rightarrow> kvps_result (map (\<lambda>(k, v). (k, ext_norm v)) (ordered delta d), []))"

definition exts_ok :: "params option \<Rightarrow> bool" where
  "exts_ok exts \<longleftrightarrow> (case exts of None \<Rightarrow> True
     | Some d \<Rightarrow> dict_ok d \<and> (\<forall>(k, v) \<in> set d. k \<le> KVP_TYPE_MAX \<and> ext_small v))"

lemma ordered_simps [simp]: "set (ordered delta d) = set d" "ordered delta [] = []"
  "ordered delta d = [] \<longleftrightarrow> d = []" "dict_ok d \<Longrightarrow> distinct (map fst (ordered delta d))"
proof -
  show "ordered delta d = [] \<longleftrightarrow> d = []"
    by (metis dict_sorted_set ordered_def set_empty2)
qed (auto simp: ordered_def dict_sorted_def dict_ok_def distinct_map inj_on_def dest: dict_sorted_ok [unfolded dict_sorted_def dict_ok_def])

context vcodec_laws
begin

lemma extensions_payload_reads:
  assumes "ext_push_items C f delta 0 (ordered delta d) = Inr bs" "has f b bs" "exts_ok (Some d)"
  shows "extensions_loop C tol wl ln delta (rb_pos b + length bs) 0 ([], []) b
    = Inr (ext_received delta (Some d), adv b (length bs))"
  using extensions_loop_reads [OF assms(1,2), of "([], [])" 0 tol wl ln] assms(3)
  by (simp add: ext_received_def exts_ok_def)

lemma ext_items_nonempty:
  assumes "ext_push_items C f delta p xs = Inr bs" "xs \<noteq> []"
  shows "bs \<noteq> []"
  using assms by (cases xs) (auto simp: wr dest: push_vint_nonempty)

lemma extensions_prefixed_reads:
  assumes "extensions_encode C f exts True delta = Inr bs" "exts_ok exts"
    and "int (length bs) \<le> EXTENSIONS_LEN_LIMIT"
  shows "reads f (extensions_decode C tol True buf_end delta ln) bs (ext_received delta exts)"
proof (cases "exts = None \<or> exts = Some []")
  case True
  then have p: "push_vint C f 0 = Inr bs" and r: "ext_received delta exts = None"
    using assms(1) by (auto simp: extensions_encode_def ext_received_def kvps_result_def)
  show ?thesis
  proof (rule readsI)
    fix b assume "has f b bs"
    then have "pull_vint C b = Inr (0, adv b (length bs))" by (rule readsD [OF reads_vint [OF p]])
    then show "extensions_decode C tol True buf_end delta ln b = Inr (ext_received delta exts, adv b (length bs))"
      by (simp add: extensions_decode_def rsteps r EXTENSIONS_LEN_LIMIT_def)
  qed
next
  case False
  then obtain d where d: "exts = Some d" "d \<noteq> []" by auto
  then obtain body l where body: "ext_push_items C f delta 0 (ordered delta d) = Inr body"
    and l: "push_vint C f (int (length body)) = Inr l" "bs = l @ body"
    using assms(1) by (cases d) (auto simp: extensions_encode_def ordered_def wr)
  have ne: "length body \<noteq> 0" using ext_items_nonempty [OF body] d(2) by simp
  show ?thesis
  proof (rule readsI)
    fix b assume h: "has f b bs"
    then have 1: "pull_vint C b = Inr (int (length body), adv b (length l))"
      using reads_vint [OF l(1)] by (simp add: l(2) has_append readsD)
    have "extensions_loop C tol True ln delta (rb_pos (adv b (length l)) + length body) 0 ([], []) (adv b (length l))
        = Inr (ext_received delta exts, adv (adv b (length l)) (length body))"
      using h assms(2) d(1) by (simp only: d(1)) (intro extensions_payload_reads [OF body], auto simp: l(2) has_append)
    then show "extensions_decode C tol True buf_end delta ln b = Inr (ext_received delta exts, adv b (length bs))"
      using 1 ne assms(3) l(2) by (simp add: extensions_decode_def rsteps)
  qed
qed

lemma extensions_trailing_reads:
  assumes "extensions_encode C f exts False delta = Inr bs" "exts_ok exts"
  shows "reads_to f (\<lambda>e. extensions_decode C tol False e delta ln) bs (ext_received delta exts)"
proof (cases "exts = None \<or> exts = Some []")
  case True
  then have "bs = []" and r: "ext_received delta exts = None"
    using assms(1) by (auto simp: extensions_encode_def ext_received_def kvps_result_def)
  then show ?thesis by (auto simp: reads_to_def extensions_decode_def rsteps)
next
  case False
  then obtain d where d: "exts = Some d" "d \<noteq> []" by auto
  then have body: "ext_push_items C f delta 0 (ordered delta d) = Inr bs"
    using assms(1) by (cases d) (auto simp: extensions_encode_def ordered_def wr)
  have ne: "bs \<noteq> []" using ext_items_nonempty [OF body] d(2) by simp
  show ?thesis
  proof (rule reads_toI)
    fix b assume h: "has f b bs"
    show "extensions_decode C tol False (Some (rb_pos b + length bs)) delta ln b
        = Inr (ext_received delta exts, adv b (length bs))"
      using extensions_payload_reads [OF body h, of tol False ln] assms(2) d(1) ne
      by (simp add: extensions_decode_def rsteps)
  qed
qed

lemma pull_sized_reads: "n = int (length bs) \<Longrightarrow> reads f (pull_sized n) bs bs"
proof (rule readsI)
  fix b assume n: "n = int (length bs)" and h: "has f b bs"
  show "pull_sized n b = Inr (bs, adv b (length bs))"
    using has_length [OF h] readsD [OF reads_pull_bytes [OF n] h]
    by (simp add: pull_sized_def rsteps rcapacity_def n)
qed

lemma pull_fields_reads:
  "wseq (map (push_sized C f) fs) = Inr bs \<Longrightarrow> reads_in f (\<lambda>e. pull_fields C e (length fs)) bs fs"
proof (induction fs arbitrary: bs)
  case Nil
  then show ?case by (auto simp: wr intro!: reads_in_reads reads_ret)
next
  case (Cons x fs)
  then obtain l rest where l: "push_vint C f (int (length x)) = Inr l" and rest: "wseq (map (push_sized C f) fs) = Inr rest"
    and bs: "bs = l @ x @ rest" by (auto simp: wr)
  show ?case
  proof (rule reads_inI)
    fix b e assume h: "has f b bs" and e: "end_ok e (rb_pos b + length bs)"
    have h': "has f b l" "has f (adv b (length l)) x" "has f (adv b (length l + length x)) rest"
      using h by (simp_all add: bs has_append)
    have "pull_fields C e (length fs) (adv b (length l + length x)) = Inr (fs, adv b (length bs))"
      using reads_inD [OF Cons.IH [OF rest] h'(3), of e] e by (simp add: bs add.assoc)
    moreover have "\<not> past e (rb_pos b + length l + length x)"
      using e by (auto simp: bs past_def end_ok_def split: option.splits)
    ultimately show "pull_fields C e (length (x # fs)) b = Inr (x # fs, adv b (length bs))"
      using readsD [OF reads_vint [OF l] h'(1)] readsD [OF pull_sized_reads [OF refl] h'(2)]
      by (simp add: rsteps bs add.assoc)
  qed
qed

end

definition ns_ok :: "DraftProfile \<Rightarrow> bytes list \<Rightarrow> bool" where
  "ns_ok prof fs \<longleftrightarrow> int (length fs) \<le> NAMESPACE_MAX_FIELDS \<and>
     (16 \<le> draft prof \<longrightarrow> (\<forall>p \<in> set fs. p \<noteq> []) \<and> fields_size fs \<le> FULL_TRACK_NAME_MAX)"

context vcodec_laws
begin

lemma pull_tuple_reads:
  assumes "push_tuple C f fs = Inr bs" "ns_ok prof fs"
  shows "reads_in f (pull_tuple C prof) bs fs"
proof (rule reads_inI)
  fix b e assume h: "has f b bs" and e: "end_ok e (rb_pos b + length bs)"
  obtain l rest where l: "push_vint C f (int (length fs)) = Inr l" and rest: "wseq (map (push_sized C f) fs) = Inr rest"
    and bs: "bs = l @ rest"
    using assms(1) by (auto simp: push_tuple_def wr)
  have h': "has f b l" "has f (adv b (length l)) rest" using h by (simp_all add: bs has_append)
  have "pull_fields C e (length fs) (adv b (length l)) = Inr (fs, adv b (length bs))"
    using reads_inD [OF pull_fields_reads [OF rest] h'(2), of e] e by (simp add: bs add.assoc)
  then show "pull_tuple C prof e b = Inr (fs, adv b (length bs))"
    using readsD [OF reads_vint [OF l] h'(1)] assms(2)
    by (simp add: pull_tuple_def rsteps ns_ok_def)
qed

lemma pull_full_track_name_reads:
  assumes "push_tuple C f ns = Inr a" "push_sized C f name = Inr c" "ns_ok prof ns"
    and "fields_size ns + int (length name) \<le> FULL_TRACK_NAME_MAX"
  shows "reads f (pull_full_track_name C prof) (a @ c) (ns, name)"
proof -
  obtain l where l: "push_vint C f (int (length name)) = Inr l" "c = l @ name"
    using assms(2) by (auto simp: wr)
  show ?thesis
    unfolding pull_full_track_name_def l(2)
    by (intro reads_bind [OF reads_in_None [OF pull_tuple_reads [OF assms(1,3)]]] reads_bind [OF reads_vint [OF l(1)]]
        reads_bind_end [OF pull_sized_reads [OF refl]] reads_bind0 [OF reads_guard [OF assms(4)]] reads_ret)
qed

lemma pull_reason_reads:
  assumes "str_encode s = Inr raw" "push_sized C f raw = Inr bs" "int (length raw) \<le> REASON_PHRASE_MAX"
  shows "reads f (pull_reason C) bs s"
proof -
  obtain l where l: "push_vint C f (int (length raw)) = Inr l" "bs = l @ raw"
    using assms(2) by (auto simp: wr)
  have "bytes_decode_replace raw = s" using str_roundtrip(2) [OF assms(1)] .
  then have "reads f (rret (bytes_decode_replace raw)) [] s" by (simp add: reads_ret)
  then show ?thesis
    unfolding pull_reason_def l(2)
    by (intro reads_bind [OF reads_vint [OF l(1)]] reads_bind0 [OF reads_guard [OF assms(3)]]
        reads_bind_end [OF reads_pull_bytes [OF refl]])
qed

end

section \<open>Authorization token round trip\<close>

text \<open>The token a receiver gets: a plain value travels as an out-of-band token.\<close>

definition tok_received :: "pval \<Rightarrow> pval" where
  "tok_received v = (case v of
     PBytes bs \<Rightarrow> PToken 0 bs
   | PStr s \<Rightarrow> (case str_encode s of Inr bs \<Rightarrow> PToken 0 bs | Inl _ \<Rightarrow> v)
   | PTokRef r \<Rightarrow> PTokRef (if at_alias_type r = 1
       then r\<lparr>at_token_type := Some (attr (at_token_type r)), at_value := Some (case at_value r of None \<Rightarrow> [] | Some b \<Rightarrow> b)\<rparr>
       else r\<lparr>at_token_type := None, at_value := None\<rparr>)
   | _ \<Rightarrow> v)"

definition tok_ok :: "pval \<Rightarrow> bool" where
  "tok_ok v = (case v of PTokRef r \<Rightarrow> at_alias_type r \<in> {0, 1, 2} | _ \<Rightarrow> True)"

lemma has_new_rbuf: "has f (new_rbuf raw f) raw"
  by (simp add: has_def new_rbuf_def rest_of_def)

context vcodec_laws
begin

lemma pull_rest_at:
  assumes "has f b bs" "rb_pos b + length bs = n"
  shows "pull_rest n b = Inr (bs, adv b (length bs))"
  using readsD [OF reads_pull_bytes [OF refl] assms(1)] assms(2)
  by (simp add: pull_rest_def rsteps flip: assms(2))

lemma unwrap_use_value:
  assumes "push_vint C (vi64 prof) 3 = Inr a" "push_vint C (vi64 prof) t = Inr c" "raw = a @ c @ bs"
  shows "auth_token_unwrap C raw prof = Inr (PToken t bs)"
proof -
  let ?b = "new_rbuf raw (vi64 prof)"
  have h: "has (vi64 prof) ?b a" "has (vi64 prof) (adv ?b (length a)) c" "has (vi64 prof) (adv ?b (length a + length c)) bs"
    using has_new_rbuf [of "vi64 prof" raw] by (simp_all add: assms(3) has_append)
  have "pull_rest (length raw) (adv ?b (length a + length c)) = Inr (bs, adv ?b (length raw))"
    using pull_rest_at [OF h(3), of "length raw"] by (simp add: assms(3) new_rbuf_def add.assoc)
  then show ?thesis
    using readsD [OF reads_vint [OF assms(1)] h(1)] readsD [OF reads_vint [OF assms(2)] h(2)]
    by (simp add: auth_token_unwrap_def rsteps)
qed

lemma unwrap_register:
  assumes "push_vint C (vi64 prof) 1 = Inr a" "push_vint C (vi64 prof) al = Inr c" "push_vint C (vi64 prof) t = Inr d"
    "raw = a @ c @ d @ bs"
  shows "auth_token_unwrap C raw prof =
    Inr (PTokRef \<lparr>at_alias_type = 1, at_alias = al, at_token_type = Some t, at_value = Some bs\<rparr>)"
proof -
  let ?b = "new_rbuf raw (vi64 prof)"
  have h: "has (vi64 prof) ?b a" "has (vi64 prof) (adv ?b (length a)) c"
      "has (vi64 prof) (adv ?b (length a + length c)) d" "has (vi64 prof) (adv ?b (length a + length c + length d)) bs"
    using has_new_rbuf [of "vi64 prof" raw] by (simp_all add: assms(4) has_append)
  have "pull_rest (length raw) (adv ?b (length a + length c + length d)) = Inr (bs, adv ?b (length raw))"
    using pull_rest_at [OF h(4), of "length raw"] by (simp add: assms(4) new_rbuf_def add.assoc)
  then show ?thesis
    using readsD [OF reads_vint [OF assms(1)] h(1)] readsD [OF reads_vint [OF assms(2)] h(2)]
      readsD [OF reads_vint [OF assms(3)] h(3)]
    by (simp add: auth_token_unwrap_def rsteps)
qed

lemma unwrap_alias:
  assumes "push_vint C (vi64 prof) k = Inr a" "push_vint C (vi64 prof) al = Inr c" "raw = a @ c" "k = 0 \<or> k = 2"
  shows "auth_token_unwrap C raw prof =
    Inr (PTokRef \<lparr>at_alias_type = k, at_alias = al, at_token_type = None, at_value = None\<rparr>)"
proof -
  let ?b = "new_rbuf raw (vi64 prof)"
  have h: "has (vi64 prof) ?b a" "has (vi64 prof) (adv ?b (length a)) c"
    using has_new_rbuf [of "vi64 prof" raw] by (simp_all add: assms(3) has_append)
  have "rb_pos ?b = 0" by (simp add: new_rbuf_def)
  then show ?thesis
    using readsD [OF reads_vint [OF assms(1)] h(1)] readsD [OF reads_vint [OF assms(2)] h(2)] assms(3,4)
    by (auto simp: auth_token_unwrap_def rsteps)
qed

lemma auth_token_roundtrip:
  assumes "auth_token_wrap C v prof = Inr raw" "tok_ok v"
  shows "auth_token_unwrap C raw prof = Inr (tok_received v)"
proof (cases v)
  case (PTokRef r)
  show ?thesis
  proof (cases "at_alias_type r = 1")
    case True
    with assms(1) PTokRef obtain a c d where "push_vint C (vi64 prof) 1 = Inr a"
      "push_vint C (vi64 prof) (at_alias r) = Inr c" "push_vint C (vi64 prof) (attr (at_token_type r)) = Inr d"
      "raw = a @ c @ d @ (case at_value r of None \<Rightarrow> [] | Some b \<Rightarrow> b)"
      by (auto simp: auth_token_wrap_def Let_def wr)
    from unwrap_register [OF this] show ?thesis by (cases r) (use True in \<open>simp add: PTokRef tok_received_def\<close>)
  next
    case False
    with assms PTokRef obtain a c where "push_vint C (vi64 prof) (at_alias_type r) = Inr a"
      "push_vint C (vi64 prof) (at_alias r) = Inr c" "raw = a @ c" "at_alias_type r = 0 \<or> at_alias_type r = 2"
      by (auto simp: auth_token_wrap_def Let_def wr tok_ok_def)
    from unwrap_alias [OF this] show ?thesis by (cases r) (use False in \<open>simp add: PTokRef tok_received_def\<close>)
  qed
qed (use assms(1) in \<open>auto simp: auth_token_wrap_def tok_received_def Let_def wr intro!: unwrap_use_value\<close>)

end

section \<open>Parameter block round trip\<close>

text \<open>
  A single parameter value in the form the receiver stores. A draft 18 Location is left out: whether
  its two integers are read back depends on what follows in the message.
\<close>

definition bytes_ok :: "vcodec \<Rightarrow> DraftProfile \<Rightarrow> int \<Rightarrow> pval \<Rightarrow> bool" where
  "bytes_ok C prof t v =
    (if t = AUTH_TOKEN then
       tok_ok v \<and> tok_received v = v \<and>
       (case auth_token_wrap C v prof of Inr raw \<Rightarrow> int (length raw) \<le> 65535 | Inl _ \<Rightarrow> False)
     else (case v of PBytes raw \<Rightarrow> int (length raw) \<le> 65535 | _ \<Rightarrow> False))"

definition ns_value :: "DraftProfile \<Rightarrow> pval \<Rightarrow> bool" where
  "ns_value prof v = (case v of
     PSeq vs \<Rightarrow> (\<forall>x \<in> set vs. case x of PBytes _ \<Rightarrow> True | _ \<Rightarrow> False)
       \<and> ns_ok prof (map (\<lambda>x. case x of PBytes bs \<Rightarrow> bs | _ \<Rightarrow> []) vs)
   | _ \<Rightarrow> False)"

definition kind_ok :: "vcodec \<Rightarrow> DraftProfile \<Rightarrow> (params \<Rightarrow> bool) \<Rightarrow> param_kind \<Rightarrow> int \<Rightarrow> pval \<Rightarrow> bool" where
  "kind_ok C prof fok kind t v =
    (case kind of
       K_location \<Rightarrow> d20_params prof \<and> (case v of PSeq [PInt _, PInt _] \<Rightarrow> True | _ \<Rightarrow> False)
     | K_location_filter \<Rightarrow> (case v of PLocF lf \<Rightarrow> lf_ok lf \<and> lf_received prof lf = lf | _ \<Rightarrow> False)
     | K_range_filter \<Rightarrow> (case v of PRange rf \<Rightarrow> rf_wf t rf | _ \<Rightarrow> False)
     | K_fill \<Rightarrow> (case v of PDict d \<Rightarrow> fok d | _ \<Rightarrow> False)
     | K_namespace \<Rightarrow> ns_value prof v
     | K_tuple \<Rightarrow> ns_value prof v
     | K_uint8 \<Rightarrow> (case v of PInt _ \<Rightarrow> True | _ \<Rightarrow> False)
     | K_varint \<Rightarrow> (case v of PInt _ \<Rightarrow> True | _ \<Rightarrow> False)
     | K_bytes \<Rightarrow> bytes_ok C prof t v)"

definition item_ok :: "vcodec \<Rightarrow> DraftProfile \<Rightarrow> param_cfg \<Rightarrow> (params \<Rightarrow> bool) \<Rightarrow> int \<times> pval \<Rightarrow> bool" where
  "item_ok C prof cfg fok x = (case x of (t, v) \<Rightarrow>
     (if 18 \<le> draft prof then
        (case param_kinds prof of
           Inl _ \<Rightarrow> False
         | Inr ks \<Rightarrow> (case dict_get ks t of None \<Rightarrow> False | Some kind \<Rightarrow> kind_ok C prof fok kind t v))
        \<and> (case pc_allowed cfg of None \<Rightarrow> True | Some a \<Rightarrow> t \<in> set a)
      else t \<notin> set (location_params prof) \<and>
        (if t mod 2 = 1 then bytes_ok C prof t v else (case v of PInt _ \<Rightarrow> True | _ \<Rightarrow> False)))
     \<and> check_value prof cfg t v = Inr ())"

text \<open>How the entries of a dictionary look when some parameters may repeat.\<close>

definition not_seq :: "pval \<Rightarrow> bool" where
  "not_seq v = (case v of PSeq _ \<Rightarrow> False | _ \<Rightarrow> True)"

definition entry_ok :: "DraftProfile \<Rightarrow> int \<times> pval \<Rightarrow> bool" where
  "entry_ok prof x = (case x of (t, v) \<Rightarrow> d20_params prof \<longrightarrow>
     (t \<in> set RANGE_FILTERS \<longrightarrow> (case v of PSeq (_ # _) \<Rightarrow> True | _ \<Rightarrow> False)) \<and>
     (t = AUTH_TOKEN \<longrightarrow> (case v of PSeq (v1 # v2 # vs) \<Rightarrow> not_seq v1 | PSeq _ \<Rightarrow> False | _ \<Rightarrow> True)))"

definition block_ok :: "vcodec \<Rightarrow> DraftProfile \<Rightarrow> param_cfg \<Rightarrow> (params \<Rightarrow> bool) \<Rightarrow> params \<Rightarrow> bool" where
  "block_ok C prof cfg fok ps \<longleftrightarrow>
     dict_ok ps \<and> list_all (entry_ok prof) ps \<and> list_all (item_ok C prof cfg fok) (expand_items prof ps)"

lemma ns_value_push:
  assumes "ns_value prof v"
  obtains fs where "v = PSeq (map PBytes fs)" "ns_ok prof fs" "push_namespace_value C f v = push_tuple C f fs"
proof (cases v)
  case (PSeq vs)
  let ?fs = "map (\<lambda>x. case x of PBytes bs \<Rightarrow> bs | _ \<Rightarrow> []) vs"
  have vs: "vs = map PBytes ?fs"
    using assms PSeq by (auto simp: ns_value_def list_eq_iff_nth_eq split: pval.splits)
  have "push_namespace_value C f (PSeq (map PBytes fs)) = push_tuple C f fs" for fs
    by (simp add: push_namespace_value_def push_tuple_def comp_def pv_encoded_def)
  moreover have "ns_ok prof ?fs" using assms PSeq by (simp add: ns_value_def)
  ultimately show thesis
    using that [of ?fs] PSeq vs by metis
qed (use assms in \<open>auto simp: ns_value_def\<close>)

context vcodec_laws
begin

lemma reads_bindD:
  assumes "r b = Inr (x, adv b n)" "k x (adv b n) = Inr (y, adv (adv b n) m)"
  shows "rbind r k b = Inr (y, adv b (n + m))"
  using assms by (simp add: rbind_def)

lemma pull_bytes_value_reads:
  assumes "bindR (if t = AUTH_TOKEN then auth_token_wrap C v prof else pv_encoded v) (push_sized C (vi64 prof)) = Inr bs"
    and "bytes_ok C prof t v" "has (vi64 prof) b bs" "end_ok e (rb_pos b + length bs)"
  shows "pull_bytes_value C prof e t b = Inr (v, adv b (length bs))"
proof -
  from assms(1) obtain raw l where raw: "(if t = AUTH_TOKEN then auth_token_wrap C v prof else pv_encoded v) = Inr raw"
    and l: "push_vint C (vi64 prof) (int (length raw)) = Inr l" and bs: "bs = l @ raw"
    by (auto simp: wr)
  have small: "length raw \<le> 65535"
    using assms(2) raw by (auto simp: bytes_ok_def pv_encoded_def split: if_splits pval.splits)
  have h: "has (vi64 prof) b l" "has (vi64 prof) (adv b (length l)) raw"
    using assms(3) by (simp_all add: bs has_append)
  have np: "\<not> past e (rb_pos b + length l + length raw)"
    using assms(4) by (auto simp: bs past_def end_ok_def split: option.splits)
  note 1 = readsD [OF reads_vint [OF l] h(1)] readsD [OF reads_pull_bytes [OF refl] h(2)]
  show ?thesis
  proof (cases "t = AUTH_TOKEN")
    case True
    then have "auth_token_unwrap C raw prof = Inr v"
      using auth_token_roundtrip [of v prof raw] raw assms(2) by (simp add: bytes_ok_def)
    with True 1 small np show ?thesis
      by (simp add: pull_bytes_value_def pull_len_def rsteps bs add.assoc)
  next
    case False
    then have "v = PBytes raw"
      using raw assms(2) by (auto simp: bytes_ok_def pv_encoded_def split: pval.splits)
    with False 1 small np show ?thesis
      by (simp add: pull_bytes_value_def pull_len_def rsteps bs add.assoc)
  qed
qed

text \<open>The reader of FILL_PARAMETERS gives back what was written into it.\<close>

definition fill_reads :: "DraftProfile \<Rightarrow> param_cfg \<Rightarrow> (params \<Rightarrow> bytes result) \<Rightarrow> (params \<Rightarrow> bool) \<Rightarrow> pval reader \<Rightarrow> bool" where
  "fill_reads prof cfg fillw fok fillr \<longleftrightarrow>
    (\<forall>d bs b. bindR (in_buffer C BUF_SIZE (fillw d)) (push_sized C (vi64 prof)) = Inr bs \<longrightarrow> fok d \<longrightarrow>
       has (vi64 prof) b bs \<longrightarrow> end_ok (pc_end cfg) (rb_pos b + length bs) \<longrightarrow>
       fillr b = Inr (PDict d, adv b (length bs)))"

lemma pull_pair_reads:
  "push_vint C f g = Inr a \<Longrightarrow> push_vint C f ob = Inr c \<Longrightarrow> reads f (pull_pair C) (a @ c) (g, ob)"
  unfolding pull_pair_def
  by (rule reads_bind [OF reads_vint], assumption, rule reads_bind_end [OF reads_vint], assumption, rule reads_ret)

lemma pull_kind_tuple:
  assumes "bindR (in_buffer C BUF_SIZE (push_tuple C (vi64 prof) fs)) (push_sized C (vi64 prof)) = Inr bs"
    and "ns_ok prof fs" "has (vi64 prof) b bs" "end_ok (pc_end cfg) (rb_pos b + length bs)"
  shows "pull_kind C prof cfg fillr r prev K_tuple t b = Inr (PSeq (map PBytes fs), adv b (length bs))"
proof -
  from assms(1) obtain body l where body: "push_tuple C (vi64 prof) fs = Inr body"
    and l: "push_vint C (vi64 prof) (int (length body)) = Inr l" and bs: "bs = l @ body"
    by (auto simp: wr)
  have h: "has (vi64 prof) b l" "has (vi64 prof) (adv b (length l)) body"
    using assms(3) by (simp_all add: bs has_append)
  have "\<not> past (pc_end cfg) (rb_pos b + length l + length body)"
    using assms(4) by (auto simp: bs past_def end_ok_def split: option.splits)
  moreover have "pull_tuple C prof (Some (rb_pos b + length l + length body)) (adv b (length l)) = Inr (fs, adv b (length bs))"
    using reads_inD [OF pull_tuple_reads [OF body assms(2)] h(2), of "Some (rb_pos b + length l + length body)"]
    by (simp add: bs end_ok_def)
  ultimately show ?thesis
    using readsD [OF reads_vint [OF l] h(1)] by (simp add: pull_kind_def rsteps Let_def bs add.assoc)
qed

lemma pull_kind_reads:
  assumes "push_kind C prof fillw kind t v = Inr bs" "kind_ok C prof fok kind t v"
    and "has (vi64 prof) b bs" "end_ok (pc_end cfg) (rb_pos b + length bs)"
    and "fill_reads prof cfg fillw fok fillr"
  shows "pull_kind C prof cfg fillr r prev kind t b = Inr (v, adv b (length bs))"
proof (cases kind)
  case K_location
  then obtain g ob a c where v: "v = PSeq [PInt g, PInt ob]" and d20: "d20_params prof"
    and p: "push_vint C (vi64 prof) g = Inr a" "push_vint C (vi64 prof) ob = Inr c" "bs = a @ c"
    using assms(1,2) by (auto simp: push_kind_def kind_ok_def push_location_def push_int_def Let_def wr split: pval.splits list.splits)
  from readsD [OF pull_pair_reads [OF p(1,2)], of b] assms(3) p(3)
  show ?thesis by (simp add: K_location pull_kind_def d20 v rsteps)
next
  case K_location_filter
  then obtain lf where v: "v = PLocF lf" "lf_ok lf" "lf_received prof lf = lf" and p: "lf_encode C (vi64 prof) prof lf = Inr bs"
    using assms(1,2) by (auto simp: push_kind_def kind_ok_def Let_def split: pval.splits)
  from reads_inD [OF lf_roundtrip [OF v(2) p] assms(3,4)] v
  show ?thesis by (simp add: K_location_filter pull_kind_def rsteps)
next
  case K_range_filter
  then obtain rf where v: "v = PRange rf" "rf_wf t rf" and p: "rf_encode C (vi64 prof) prof t rf = Inr bs"
    using assms(1,2) by (auto simp: push_kind_def kind_ok_def Let_def split: pval.splits)
  have "reads_in (vi64 prof) (rf_decode C prof t) bs rf"
    using p v(2) by (intro rf_roundtrip) (auto simp: rf_wf_def)
  from reads_inD [OF this assms(3,4)] v show ?thesis by (simp add: K_range_filter pull_kind_def rsteps)
next
  case K_fill
  then show ?thesis
    using assms by (auto simp: push_kind_def kind_ok_def Let_def pull_kind_def fill_reads_def split: pval.splits)
next
  case K_namespace
  then obtain fs where v: "v = PSeq (map PBytes fs)" "ns_ok prof fs" and p: "push_tuple C (vi64 prof) fs = Inr bs"
    using assms(1,2) by (auto simp: push_kind_def kind_ok_def Let_def elim!: ns_value_push [of prof v C "vi64 prof"])
  from reads_inD [OF pull_tuple_reads [OF p v(2)] assms(3,4)] v
  show ?thesis by (simp add: K_namespace pull_kind_def rsteps)
next
  case K_tuple
  then obtain fs where v: "v = PSeq (map PBytes fs)" "ns_ok prof fs"
      and p: "bindR (in_buffer C BUF_SIZE (push_tuple C (vi64 prof) fs)) (push_sized C (vi64 prof)) = Inr bs"
    using assms(1,2) by (auto simp: push_kind_def kind_ok_def Let_def elim!: ns_value_push [of prof v C "vi64 prof"])
  from pull_kind_tuple [OF p v(2) assms(3,4)] v show ?thesis by (simp add: K_tuple)
next
  case K_uint8
  then obtain n where v: "v = PInt n" and p: "push_uint8 C n = Inr bs"
    using assms(1,2) by (auto simp: push_kind_def kind_ok_def Let_def split: pval.splits)
  from readsD [OF reads_uint8 [OF p] assms(3)] v show ?thesis by (simp add: K_uint8 pull_kind_def rsteps)
next
  case K_varint
  then obtain n where v: "v = PInt n" and p: "push_vint C (vi64 prof) n = Inr bs"
    using assms(1,2) by (auto simp: push_kind_def kind_ok_def push_int_def Let_def split: pval.splits)
  from readsD [OF reads_vint [OF p] assms(3)] v show ?thesis by (simp add: K_varint pull_kind_def rsteps)
next
  case K_bytes
  then show ?thesis
    using assms(1-4) by (auto simp: push_kind_def kind_ok_def Let_def pull_kind_def intro!: pull_bytes_value_reads)
qed

lemma pull_value_reads:
  assumes "push_value C prof fillw t v = Inr bs" "item_ok C prof cfg fok (t, v)"
    and "has (vi64 prof) b bs" "end_ok (pc_end cfg) (rb_pos b + length bs)"
    and "fill_reads prof cfg fillw fok fillr" "uint8_params prof = [] \<or> 18 \<le> draft prof"
  shows "pull_value C prof cfg fillr r prev t b = Inr (v, adv b (length bs))"
proof (cases "18 \<le> draft prof")
  case True
  then obtain ks kind where k: "param_kinds prof = Inr ks" "dict_get ks t = Some kind" "kind_ok C prof fok kind t v"
      "push_kind C prof fillw kind t v = Inr bs" "case pc_allowed cfg of None \<Rightarrow> True | Some a \<Rightarrow> t \<in> set a"
    using assms(1,2) by (auto simp: push_value_def item_ok_def wr split: sum.splits option.splits)
  from pull_kind_reads [OF k(4,3) assms(3-5)] k True show ?thesis
    by (simp add: pull_value_def rsteps)
next
  case False
  then have nl: "t \<notin> set (location_params prof)" "uint8_params prof = []" using assms(2,6) by (auto simp: item_ok_def)
  show ?thesis
  proof (cases "t mod 2 = 1")
    case True
    with False nl assms(1-4) show ?thesis
      by (auto simp: push_value_def item_ok_def pull_value_def intro!: pull_bytes_value_reads)
  next
    case even: False
    with False nl assms(1,2) obtain n where v: "v = PInt n" and p: "push_vint C (vi64 prof) n = Inr bs"
      by (auto simp: push_value_def item_ok_def split: pval.splits)
    from readsD [OF reads_vint [OF p] assms(3)] v even False nl show ?thesis
      by (simp add: pull_value_def rsteps)
  qed
qed

end

text \<open>Storing the read items one by one rebuilds the dictionary.\<close>

fun store_all :: "DraftProfile \<Rightarrow> params \<Rightarrow> (int \<times> pval) list \<Rightarrow> params result" where
  "store_all prof ps [] = Inr ps"
| "store_all prof ps ((t, v) # xs) = bindR (store_param prof ps t v) (\<lambda>ps'. store_all prof ps' xs)"

lemma store_all_append: "store_all prof ps (xs @ ys) = bindR (store_all prof ps xs) (\<lambda>ps'. store_all prof ps' ys)"
proof (induction xs arbitrary: ps)
  case (Cons x xs)
  obtain t v where x: "x = (t, v)" by force
  show ?case using Cons by (cases "store_param prof ps t v") (simp_all add: x)
qed simp

lemma dict_set_snoc: "map_of d k = None \<Longrightarrow> dict_set (d @ [(k, u)]) k v = d @ [(k, v)]"
  by (induction d) (auto split: if_splits)

lemma get_snoc: "map_of d k = None \<Longrightarrow> dict_get (d @ [(k, u)]) k = Some u"
  by (simp add: dict_get_def map_add_def)

lemma store_repeat:
  assumes "d20_params prof" "t \<in> set REPEATABLE" "map_of ps t = None"
  shows "store_all prof (ps @ [(t, PSeq vs)]) (map (Pair t) us) = Inr (ps @ [(t, PSeq (vs @ us))])"
proof (induction us arbitrary: vs)
  case (Cons u us)
  have "dict_get (ps @ [(t, PSeq vs)]) t = Some (PSeq vs)" using assms(3) by (rule get_snoc)
  then have "store_param prof (ps @ [(t, PSeq vs)]) t u = Inr (ps @ [(t, PSeq (vs @ [u]))])"
    using assms by (simp add: store_param_def dict_set_snoc)
  then show ?case using Cons [of "vs @ [u]"] by simp
qed simp

lemma store_entry:
  assumes "entry_ok prof (t, v)" "map_of ps t = None"
  shows "store_all prof ps (if d20_params prof then expand_item (t, v) else [(t, v)]) = Inr (ps @ [(t, v)])"
proof (cases "d20_params prof")
  case False
  then show ?thesis using assms(2) by (simp add: store_param_def dict_get_def dict_set_new)
next
  case d20: True
  have new: "dict_get ps t = None" using assms(2) by (simp add: dict_get_def)
  consider (range) u us where "t \<in> set RANGE_FILTERS" "v = PSeq (u # us)"
    | (tok) u w us where "t = AUTH_TOKEN" "v = PSeq (u # w # us)" "not_seq u"
    | (one) "expand_item (t, v) = [(t, v)]" "t \<notin> set RANGE_FILTERS"
    using assms(1) d20
    by (cases "t \<in> set RANGE_FILTERS"; cases "t = AUTH_TOKEN")
      (auto simp: entry_ok_def expand_item_def REPEATABLE_def AUTH_TOKEN_def split: pval.splits list.splits)
  then show ?thesis
  proof cases
    case range
    then have "t \<in> set REPEATABLE" by (simp add: REPEATABLE_def)
    then show ?thesis
      using store_repeat [OF d20 _ assms(2), of "[u]" us] range d20 new assms(2)
      by (simp add: expand_item_def store_param_def dict_set_new)
  next
    case tok
    then have t: "t \<in> set REPEATABLE" "t \<notin> set RANGE_FILTERS" by (simp_all add: REPEATABLE_def AUTH_TOKEN_def RANGE_FILTERS_def)
    have "store_param prof ps t u = Inr (ps @ [(t, u)])"
      using new d20 t(2) assms(2) by (simp add: store_param_def dict_set_new)
    moreover have "store_param prof (ps @ [(t, u)]) t w = Inr (ps @ [(t, PSeq [u, w])])"
      using tok(3) d20 t assms(2) by (cases u) (simp_all add: store_param_def get_snoc dict_set_snoc not_seq_def)
    ultimately show ?thesis
      using store_repeat [OF d20 t(1) assms(2), of "[u, w]" us] tok d20 t by (simp add: expand_item_def)
  next
    case one
    then show ?thesis using d20 new assms(2) by (simp add: store_param_def dict_set_new)
  qed
qed

lemma store_block:
  assumes "list_all (entry_ok prof) xs" "distinct (map fst (ps @ xs))"
  shows "store_all prof ps (expand_items prof xs) = Inr (ps @ xs)"
  using assms
proof (induction xs arbitrary: ps)
  case Nil
  then show ?case by (simp add: expand_items_def)
next
  case (Cons x xs)
  obtain t v where x: "x = (t, v)" by force
  let ?e = "if d20_params prof then expand_item (t, v) else [(t, v)]"
  have "expand_items prof (x # xs) = ?e @ expand_items prof xs"
    by (simp add: expand_items_def x)
  moreover have "map_of ps t = None"
    using Cons.prems(2) by (auto simp: x map_of_eq_None_iff)
  then have "store_all prof ps ?e = Inr (ps @ [(t, v)])"
    using Cons.prems(1) by (intro store_entry) (simp_all add: x)
  moreover have "store_all prof (ps @ [(t, v)]) (expand_items prof xs) = Inr ((ps @ [(t, v)]) @ xs)"
    using Cons.prems by (intro Cons.IH) (simp_all add: x)
  ultimately show ?case
    by (simp only: store_all_append bindR_simps) (simp add: x)
qed

lemma expand_ordered_items:
  "list_all P (expand_items prof (ordered delta ps)) \<longleftrightarrow> list_all P (expand_items prof ps)"
  by (auto simp: expand_items_def list_all_iff)

context vcodec_laws
begin

lemma params_loop_reads:
  assumes "push_items C prof fillw delta prev xs = Inr bs" "has (vi64 prof) b bs"
    and "end_ok (pc_end cfg) (rb_pos b + length bs)" "pc_delta cfg = delta"
    and "list_all (item_ok C prof cfg fok) xs" "store_all prof ps xs = Inr ps'"
    and "fill_reads prof cfg fillw fok fillr" "uint8_params prof = [] \<or> 18 \<le> draft prof"
  shows "params_loop C prof cfg fillr (length xs) prev ps b =
    (list_ex (\<lambda>(t, v). fill_reached prof cfg t) xs, Inr (ps', adv b (length bs)))"
  using assms
proof (induction xs arbitrary: prev ps bs b)
  case Nil
  then show ?case by simp
next
  case (Cons x xs)
  obtain t v where x: "x = (t, v)" by force
  let ?prev = "if delta then t else prev"
  obtain kb vb rest where p: "push_vint C (vi64 prof) (if delta then t - prev else t) = Inr kb"
      "push_value C prof fillw t v = Inr vb" "push_items C prof fillw delta ?prev xs = Inr rest" and bs: "bs = kb @ vb @ rest"
    using Cons.prems(1) by (auto simp: x wr)
  have h: "has (vi64 prof) b kb" "has (vi64 prof) (adv b (length kb)) vb" "has (vi64 prof) (adv b (length kb + length vb)) rest"
    using Cons.prems(2) by (simp_all add: bs has_append)
  obtain m where kl: "length kb = Suc m"
    using push_vint_nonempty [OF p(1)] by (cases kb) auto
  have lt: "case pc_end cfg of None \<Rightarrow> True | Some e \<Rightarrow> rb_pos b < e"
    and e: "end_ok (pc_end cfg) (rb_pos (adv b (length kb)) + length vb)"
      "end_ok (pc_end cfg) (rb_pos (adv b (length kb + length vb)) + length rest)"
    and np: "\<not> past (pc_end cfg) (rb_pos b + length kb + length vb)"
    using Cons.prems(3) kl by (auto simp: bs end_ok_def past_def split: option.splits)
  obtain ps1 where st: "store_param prof ps t v = Inr ps1" "store_all prof ps1 xs = Inr ps'"
    using Cons.prems(6) by (auto simp: x wr)
  have ok: "item_ok C prof cfg fok (t, v)" "check_value prof cfg t v = Inr ()"
    using Cons.prems(5) by (auto simp: x item_ok_def)
  have key: "pull_key C cfg prev b = Inr (t, adv b (length kb))"
    using readsD [OF reads_vint [OF p(1)] h(1)] lt Cons.prems(4) by (simp add: pull_key_def rsteps)
  have rest: "pull_rest_of_param C prof cfg fillr (Some (length xs)) ?prev ps t (adv b (length kb))
      = Inr (ps1, adv b (length kb + length vb))"
    using pull_value_reads [OF p(2) ok(1) h(2) e(1) Cons.prems(7,8)] np ok(2) st(1)
    by (simp add: pull_rest_of_param_def rsteps add.assoc)
  have "params_loop C prof cfg fillr (length xs) ?prev ps1 (adv b (length kb + length vb)) =
    (list_ex (\<lambda>(t, v). fill_reached prof cfg t) xs, Inr (ps', adv (adv b (length kb + length vb)) (length rest)))"
    using Cons.prems(4,5,7,8) by (intro Cons.IH [OF p(3) h(3) e(2)] st(2)) (simp_all add: x)
  then show ?case
    using key rest Cons.prems(4) by (simp add: x bs Let_def add.assoc)
qed

lemma block_reads:
  assumes "push_block C prof fillw delta ps = Inr bs" "has (vi64 prof) b bs"
    and "end_ok (pc_end cfg) (rb_pos b + length bs)" "pc_delta cfg = delta"
    and "block_ok C prof cfg fok ps"
    and "fill_reads prof cfg fillw fok fillr" "uint8_params prof = [] \<or> 18 \<le> draft prof"
  obtains n b1 where "pull_vint C b = Inr (n, b1)"
    "params_loop C prof cfg fillr (nat n) 0 [] b1 =
       (list_ex (\<lambda>(t, v). fill_reached prof cfg t) (expand_items prof ps), Inr (ordered delta ps, adv b (length bs)))"
proof -
  let ?items = "expand_items prof (ordered delta ps)"
  obtain l rest where l: "push_vint C (vi64 prof) (int (length ?items)) = Inr l"
    and rest: "push_items C prof fillw delta 0 ?items = Inr rest" and bs: "bs = l @ rest"
    using assms(1) by (auto simp: push_block_def Let_def wr)
  have h: "has (vi64 prof) b l" "has (vi64 prof) (adv b (length l)) rest"
    using assms(2) by (simp_all add: bs has_append)
  have e: "end_ok (pc_end cfg) (rb_pos (adv b (length l)) + length rest)"
    using assms(3) by (simp add: bs add.assoc)
  have ok: "list_all (item_ok C prof cfg fok) ?items"
    using assms(5) by (simp add: block_ok_def expand_ordered_items)
  have "list_all (entry_ok prof) (ordered delta ps)" "distinct (map fst (ordered delta ps))"
    using assms(5) by (simp_all add: block_ok_def list_all_iff)
  then have st: "store_all prof [] ?items = Inr (ordered delta ps)"
    using store_block [of prof "ordered delta ps" "[]"] by simp
  have "list_ex P ?items = list_ex P (expand_items prof ps)" for P
    by (auto simp: expand_items_def list_ex_iff)
  then show thesis
    using that [OF readsD [OF reads_vint [OF l] h(1)]] params_loop_reads [OF rest h(2) e assms(4) ok st assms(6,7)]
    by (simp add: bs)
qed

end

text \<open>A block inside FILL_PARAMETERS: the scope does not allow another FILL_PARAMETERS.\<close>

definition fill_cfg :: "DraftProfile \<Rightarrow> nat option \<Rightarrow> param_cfg result" where
  "fill_cfg prof e = params_cfg prof e None (Some ''FillParameters'') False"

definition inner_ok :: "vcodec \<Rightarrow> DraftProfile \<Rightarrow> params \<Rightarrow> bool" where
  "inner_ok C prof ps = (case fill_cfg prof None of Inl _ \<Rightarrow> False | Inr cfg \<Rightarrow> block_ok C prof cfg (\<lambda>_. False) ps)"

lemma params_cfg_end:
  "params_cfg prof e dk scope fc = (case params_cfg prof None dk scope fc of Inl x \<Rightarrow> Inl x | Inr cfg \<Rightarrow> Inr (cfg\<lparr>pc_end := e\<rparr>))"
  by (auto simp: params_cfg_def bindR_def split: sum.splits)

lemma block_ok_end: "block_ok C prof (cfg\<lparr>pc_end := e\<rparr>) fok ps = block_ok C prof cfg fok ps"
proof -
  have "item_ok C prof (cfg\<lparr>pc_end := e\<rparr>) fok = item_ok C prof cfg fok"
    by (auto simp: item_ok_def check_value_def fun_eq_iff)
  then show ?thesis by (simp add: block_ok_def)
qed

lemma set_vi64_has: "has f b bs \<Longrightarrow> set_vi64 f b = Inr ((), b)"
  by (simp add: has_def set_vi64_def)

context vcodec_laws
begin

lemma fill_block_reads:
  assumes "serialize_params C prof None d = Inr bs" "inner_ok C prof d" "uint8_params prof = [] \<or> 18 \<le> draft prof"
  shows "reads_in (vi64 prof) (pull_params_fill C prof) bs (ordered (params_delta_coded prof) d)"
proof (rule reads_inI)
  fix b e assume h: "has (vi64 prof) b bs" and e: "end_ok e (rb_pos b + length bs)"
  obtain cfg where cfg: "fill_cfg prof None = Inr cfg" and ok: "block_ok C prof cfg (\<lambda>_. False) d"
    using assms(2) by (auto simp: inner_ok_def split: sum.splits)
  let ?cfg = "cfg\<lparr>pc_end := e\<rparr>"
  have d: "pc_delta ?cfg = params_delta_coded prof"
    using cfg by (auto simp: fill_cfg_def params_cfg_def wr)
  have p: "push_block C prof (\<lambda>d. serialize_params C prof None d) (params_delta_coded prof) d = Inr bs"
    using assms(1) by (subst (asm) serialize_params.simps) simp
  have "fill_reads prof ?cfg (\<lambda>d. serialize_params C prof None d) (\<lambda>_. False) no_fill"
    by (simp add: fill_reads_def)
  then obtain n b1 where "pull_vint C b = Inr (n, b1)"
    "params_loop C prof ?cfg no_fill (nat n) 0 [] b1 =
       (list_ex (\<lambda>(t, v). fill_reached prof ?cfg t) (expand_items prof d),
        Inr (ordered (params_delta_coded prof) d, adv b (length bs)))"
    using block_reads [OF p h _ d _ _ assms(3), of "\<lambda>_. False" no_fill] ok e by (auto simp: block_ok_end)
  moreover have "params_cfg prof e None (Some ''FillParameters'') False = Inr ?cfg"
    using cfg by (subst params_cfg_end) (simp add: fill_cfg_def)
  ultimately show "pull_params_fill C prof e b = Inr (ordered (params_delta_coded prof) d, adv b (length bs))"
    using set_vi64_has [OF h] by (simp add: pull_params_fill_def rsteps)
qed

lemma fill_value_reads:
  assumes "serialize_params C prof None d = Inr bs" "inner_ok C prof d" "uint8_params prof = [] \<or> 18 \<le> draft prof"
    and "has (vi64 prof) b bs"
  shows "pull_fill_value C prof (rb_pos b + length bs) b = Inr (ordered (params_delta_coded prof) d, adv b (length bs))"
proof -
  have r: "pull_params_fill C prof (Some (rb_pos b + length bs)) b = Inr (ordered (params_delta_coded prof) d, adv b (length bs))"
    using reads_inD [OF fill_block_reads [OF assms(1-3)] assms(4)] by (simp add: end_ok_def)
  then have "\<exists>n b1. pull_vint C b = Inr (n, b1)"
    using set_vi64_has [OF assms(4)] by (auto simp: pull_params_fill_def rbind_eq_Inr)
  then show ?thesis using r by (auto simp: pull_fill_value_def)
qed

lemma serialize_params_nonempty: "serialize_params C prof dk d = Inr bs \<Longrightarrow> bs \<noteq> []"
  by (subst (asm) serialize_params.simps) (auto simp: push_block_def Let_def wr dest: push_vint_nonempty)

lemma fill_reads_pull_fill:
  assumes "uint8_params prof = [] \<or> 18 \<le> draft prof" "\<not> pc_fill_counted cfg"
  shows "fill_reads prof cfg (\<lambda>d. serialize_params C prof None d)
    (\<lambda>d. inner_ok C prof d \<and> ordered (params_delta_coded prof) d = d) (pull_fill C prof cfg)"
  unfolding fill_reads_def
proof (intro allI impI)
  fix d bs b
  assume p: "bindR (in_buffer C BUF_SIZE (serialize_params C prof None d)) (push_sized C (vi64 prof)) = Inr bs"
    and ok: "inner_ok C prof d \<and> ordered (params_delta_coded prof) d = d"
    and h: "has (vi64 prof) b bs" and e: "end_ok (pc_end cfg) (rb_pos b + length bs)"
  obtain body l where body: "serialize_params C prof None d = Inr body"
    and l: "push_vint C (vi64 prof) (int (length body)) = Inr l" and bs: "bs = l @ body"
    using p by (auto simp: wr)
  have h': "has (vi64 prof) b l" "has (vi64 prof) (adv b (length l)) body"
    using h by (simp_all add: bs has_append)
  have "\<not> past (pc_end cfg) (rb_pos b + length l + length body)"
    using e by (auto simp: bs past_def end_ok_def split: option.splits)
  then show "pull_fill C prof cfg b = Inr (PDict d, adv b (length bs))"
    using readsD [OF reads_vint [OF l] h'(1)] fill_value_reads [OF body _ assms(1) h'(2)] ok assms(2)
      serialize_params_nonempty [OF body]
    by (simp add: pull_fill_def rsteps Let_def bs add.assoc)
qed

end

text \<open>What a whole parameter block must satisfy to be read back.\<close>

definition params_ok :: "vcodec \<Rightarrow> DraftProfile \<Rightarrow> bool option \<Rightarrow> string option \<Rightarrow> params \<Rightarrow> bool" where
  "params_ok C prof dk scope ps =
    ((uint8_params prof = [] \<or> 18 \<le> draft prof) \<and>
     (case params_cfg prof None dk scope False of
        Inl _ \<Rightarrow> False
      | Inr cfg \<Rightarrow> block_ok C prof cfg (\<lambda>d. inner_ok C prof d \<and> ordered (params_delta_coded prof) d = d) ps))"

definition has_fill :: "DraftProfile \<Rightarrow> params \<Rightarrow> bool" where
  "has_fill prof ps \<longleftrightarrow> d20_params prof \<and> 0x23 \<in> fst ` set ps"

definition delta_of :: "DraftProfile \<Rightarrow> bool option \<Rightarrow> bool" where
  "delta_of prof dk = (case dk of None \<Rightarrow> params_delta_coded prof | Some x \<Rightarrow> x)"

context vcodec_laws
begin

lemma pull_params_reads:
  assumes "serialize_params C prof dk ps = Inr bs" "params_ok C prof dk scope ps"
    and "has (vi64 prof) b bs" "end_ok e (rb_pos b + length bs)"
  obtains cfg where "params_cfg prof e dk scope False = Inr cfg"
    "pull_params C prof e dk scope False b =
      (list_ex (\<lambda>(t, v). fill_reached prof cfg t) (expand_items prof ps), Inr (ordered (delta_of prof dk) ps, adv b (length bs)))"
proof -
  let ?fok = "\<lambda>d. inner_ok C prof d \<and> ordered (params_delta_coded prof) d = d"
  obtain cfg where cfg: "params_cfg prof None dk scope False = Inr cfg" and ok: "block_ok C prof cfg ?fok ps"
    and u: "uint8_params prof = [] \<or> 18 \<le> draft prof"
    using assms(2) by (auto simp: params_ok_def split: sum.splits)
  let ?cfg = "cfg\<lparr>pc_end := e\<rparr>"
  have d: "pc_delta ?cfg = delta_of prof dk" and nc: "\<not> pc_fill_counted ?cfg"
    using cfg by (auto simp: params_cfg_def delta_of_def wr)
  have p: "push_block C prof (\<lambda>d. serialize_params C prof None d) (delta_of prof dk) ps = Inr bs"
    using assms(1) by (subst (asm) serialize_params.simps) (simp add: delta_of_def)
  obtain n b1 where "pull_vint C b = Inr (n, b1)"
    "params_loop C prof ?cfg (pull_fill C prof ?cfg) (nat n) 0 [] b1 =
       (list_ex (\<lambda>(t, v). fill_reached prof ?cfg t) (expand_items prof ps),
        Inr (ordered (delta_of prof dk) ps, adv b (length bs)))"
    using block_reads [OF p assms(3) _ d _ fill_reads_pull_fill [OF u nc] u] ok assms(4)
    by (auto simp: block_ok_end)
  moreover have c: "params_cfg prof e dk scope False = Inr ?cfg"
    using cfg by (subst params_cfg_end) simp
  moreover have "b\<lparr>rb_vi64 := vi64 prof\<rparr> = b" using assms(3) by (auto simp: has_def)
  ultimately show thesis
    using that [of ?cfg] by (simp add: pull_params_def Let_def)
qed

end

lemma kind_fill: "param_kinds prof = Inr ks \<Longrightarrow> dict_get ks t = Some K_fill \<Longrightarrow> t = 0x23 \<and> 20 \<le> param_table prof"
  by (auto simp: param_kinds_def KINDS_def dict_get_def wr D18_PARAM_KINDS_def D20_KINDS_def D22_KINDS_def split: if_splits)

lemma expand_item_fst: "fst ` set (expand_item x) \<subseteq> {fst x}"
  by (auto dest!: expand_item_elem)

lemma expand_items_fst: "fst ` set (expand_items prof ps) \<subseteq> fst ` set ps"
proof (cases "d20_params prof")
  case True
  have "fst y = fst x" if "y \<in> set (expand_item x)" for x y
    using that expand_item_fst [of x] by auto
  then show ?thesis using True by (auto simp: expand_items_def) (metis fst_conv image_eqI)
qed (simp add: expand_items_def)

lemma no_fill_reached:
  assumes "\<not> has_fill prof ps"
  shows "\<not> list_ex (\<lambda>(t, v). fill_reached prof cfg t) (expand_items prof ps)"
proof -
  have "t = 0x23 \<and> d20_params prof" if "fill_reached prof cfg t" for t
    using that kind_fill [of prof _ t] by (auto simp: fill_reached_def d20_params_def split: sum.splits)
  moreover have "fst x \<in> fst ` set ps" if "x \<in> set (expand_items prof ps)" for x
    using that expand_items_fst [of prof ps] by blast
  ultimately show ?thesis
    using assms by (force simp: list_ex_iff has_fill_def)
qed

context vcodec_laws
begin

lemma deserialize_params_reads_to:
  assumes "serialize_params C prof dk ps = Inr bs" "params_ok C prof dk scope ps"
  shows "reads_to (vi64 prof) (deserialize_params C prof dk scope) bs (ordered (delta_of prof dk) ps)"
proof (rule reads_toI)
  fix b assume h: "has (vi64 prof) b bs"
  let ?e = "Some (rb_pos b + length bs)"
  obtain cfg where "pull_params C prof ?e dk scope False b =
      (list_ex (\<lambda>(t, v). fill_reached prof cfg t) (expand_items prof ps), Inr (ordered (delta_of prof dk) ps, adv b (length bs)))"
    using pull_params_reads [OF assms h, of ?e] by (auto simp: end_ok_def)
  then show "deserialize_params C prof dk scope ?e b = Inr (ordered (delta_of prof dk) ps, adv b (length bs))"
    by (simp add: deserialize_params_def Let_def)
qed

lemma deserialize_params_reads_in:
  assumes "serialize_params C prof dk ps = Inr bs" "params_ok C prof dk scope ps" "\<not> has_fill prof ps"
  shows "reads_in (vi64 prof) (deserialize_params C prof dk scope) bs (ordered (delta_of prof dk) ps)"
proof (rule reads_inI)
  fix b e assume h: "has (vi64 prof) b bs" and e: "end_ok e (rb_pos b + length bs)"
  obtain cfg where "pull_params C prof e dk scope False b =
      (list_ex (\<lambda>(t, v). fill_reached prof cfg t) (expand_items prof ps), Inr (ordered (delta_of prof dk) ps, adv b (length bs)))"
    using pull_params_reads [OF assms(1,2) h e] by blast
  then show "deserialize_params C prof dk scope e b = Inr (ordered (delta_of prof dk) ps, adv b (length bs))"
    using no_fill_reached [OF assms(3), of cfg] by (simp add: deserialize_params_def Let_def)
qed

end

text \<open>
  C36: a parameter block in the receiver's form that the serializer accepts, at any draft, with delta or
  absolute keys, with repeated tokens and range filters and with nested FILL_PARAMETERS, is read back
  as the same dictionary (its keys in wire order) from exactly the bytes written when the message ends
  there, and, when it has no FILL_PARAMETERS, also when more of the message follows.
\<close>

theorem params_roundtrip:
  assumes "vcodec_laws C" "params_ok C prof dk scope ps" "serialize_params C prof dk ps = Inr bs"
  shows "reads_to (vi64 prof) (deserialize_params C prof dk scope) bs (ordered (delta_of prof dk) ps)
    \<and> (\<not> has_fill prof ps \<longrightarrow>
        reads_in (vi64 prof) (deserialize_params C prof dk scope) bs (ordered (delta_of prof dk) ps))
    \<and> set (ordered (delta_of prof dk) ps) = set ps"
  using vcodec_laws.deserialize_params_reads_to [OF assms(1,3,2)]
    vcodec_laws.deserialize_params_reads_in [OF assms(1,3,2)]
  by simp

theorem params_roundtrip_witness:
  "reads_to True (deserialize_params std_codec PROFILE_D20 None (Some ''Subscribe''))
     [4, 3, 3, 3, 5, 0xAA, 0x1D, 128, 3, 3, 1, 0x0A, 100, 2, 2, 0, 7]
     [(0x03, PToken 5 [0xAA]), (0x20, PInt 128), (0x23, PDict [(0x0A, PInt 100)]),
      (0x25, PSeq [PRange \<lparr>rf_set_id = Some 0, rf_ranges = [(7, None)], rf_property_type = None\<rparr>])]"
proof -
  let ?ps = "[(0x25, PSeq [PRange \<lparr>rf_set_id = Some 0, rf_ranges = [(7, None)], rf_property_type = None\<rparr>]),
     (0x20, PInt 128), (0x03, PToken 5 [0xAA]), (0x23, PDict [(0x0A, PInt 100)])]"
  let ?bs = "[4, 3, 3, 3, 5, 0xAA, 0x1D, 128, 3, 3, 1, 0x0A, 100, 2, 2, 0, 7] :: bytes"
  have 1: "params_ok std_codec PROFILE_D20 None (Some ''Subscribe'') ?ps" by code_simp
  have 2: "serialize_params std_codec PROFILE_D20 None ?ps = Inr ?bs" by code_simp
  have 3: "ordered (delta_of PROFILE_D20 None) ?ps = [(0x03, PToken 5 [0xAA]), (0x20, PInt 128), (0x23, PDict [(0x0A, PInt 100)]),
      (0x25, PSeq [PRange \<lparr>rf_set_id = Some 0, rf_ranges = [(7, None)], rf_property_type = None\<rparr>])]" by code_simp
  have 4: "vi64 PROFILE_D20 = True" by code_simp
  show ?thesis
    using params_roundtrip [OF std.vcodec_laws_axioms 1 2] unfolding 3 4 by blast
qed

section \<open>Setup options and the properties of the field codecs\<close>

definition option_ok :: "vcodec \<Rightarrow> DraftProfile \<Rightarrow> int \<times> pval \<Rightarrow> bool" where
  "option_ok C prof x = (case x of (k, v) \<Rightarrow> k \<le> KVP_TYPE_MAX \<and>
     (if k mod 2 = 1 then bytes_ok C prof k v else (case v of PInt _ \<Rightarrow> True | _ \<Rightarrow> False)))"

context vcodec_laws
begin

lemma kvp_loop_reads:
  assumes "push_kvp_items C prof prev xs = Inr bs" "has (vi64 prof) b bs"
    and "distinct (map fst (ps @ xs))" "list_all (option_ok C prof) xs"
  shows "kvp_loop C prof (rb_pos b + length bs) prev ps b = Inr (ps @ xs, adv b (length bs))"
  using assms
proof (induction xs arbitrary: prev bs b ps)
  case Nil
  then show ?case by (simp add: kvp_loop.simps)
next
  case (Cons x xs)
  obtain k v where x: "x = (k, v)" by force
  obtain kb vb rest where p: "push_vint C (vi64 prof) (k - prev) = Inr kb"
      "(if k mod 2 = 1 then
            bindR (if k = AUTH_TOKEN then auth_token_wrap C v prof else pv_encoded v) (push_sized C (vi64 prof))
          else push_int C (vi64 prof) v) = Inr vb"
      "push_kvp_items C prof k xs = Inr rest" and bs: "bs = kb @ vb @ rest"
    using Cons.prems(1) by (auto simp: x wr)
  let ?e = "rb_pos b + length bs"
  have h: "has (vi64 prof) b kb" "has (vi64 prof) (adv b (length kb)) vb" "has (vi64 prof) (adv b (length kb + length vb)) rest"
    using Cons.prems(2) by (simp_all add: bs has_append)
  obtain m where kl: "length kb = Suc m" using push_vint_nonempty [OF p(1)] by (cases kb) auto
  have ok: "k \<le> KVP_TYPE_MAX" using Cons.prems(4) by (simp add: x option_ok_def)
  have 1: "pull_vint C b = Inr (k - prev, adv b (length kb))" using readsD [OF reads_vint [OF p(1)] h(1)] .
  have opt: "pull_option C prof ?e prev b = Inr ((k, v), adv b (length kb + length vb))"
  proof (cases "k mod 2 = 1")
    case True
    have "pull_bytes_value C prof (Some ?e) k (adv b (length kb)) = Inr (v, adv (adv b (length kb)) (length vb))"
      using p(2) True Cons.prems(4) by (intro pull_bytes_value_reads h(2)) (simp_all add: x option_ok_def end_ok_def bs)
    then show ?thesis using 1 ok True by (simp add: pull_option_def rsteps Let_def)
  next
    case False
    then obtain n where v: "v = PInt n" "push_vint C (vi64 prof) n = Inr vb"
      using p(2) Cons.prems(4) by (auto simp: x option_ok_def push_int_def split: pval.splits)
    from readsD [OF reads_vint [OF v(2)] h(2)] 1 ok False show ?thesis
      by (simp add: pull_option_def rsteps Let_def v(1) bs)
  qed
  have "dict_set ps k v = ps @ [(k, v)]"
    using Cons.prems(3) by (intro dict_set_new) (auto simp: x map_of_eq_None_iff)
  moreover have "kvp_loop C prof (rb_pos (adv b (length kb + length vb)) + length rest) k (ps @ [(k, v)]) (adv b (length kb + length vb))
      = Inr ((ps @ [(k, v)]) @ xs, adv (adv b (length kb + length vb)) (length rest))"
    using Cons.prems(3,4) by (intro Cons.IH p(3) h(3)) (simp_all add: x)
  ultimately show ?case
    using opt kl by (subst kvp_loop.simps) (simp add: x bs add.assoc)
qed

lemma setup_options_reads:
  assumes "serialize_kvp_to_end C prof d = Inr bs" "dict_ok d" "list_all (option_ok C prof) d"
  shows "reads_to (vi64 prof) (\<lambda>e. case e of None \<Rightarrow> rfail TypeError | Some x \<Rightarrow> deserialize_kvp_to_end C prof x) bs (dict_sorted d)"
proof (rule reads_toI)
  fix b assume h: "has (vi64 prof) b bs"
  have "kvp_loop C prof (rb_pos b + length bs) 0 [] b = Inr ([] @ dict_sorted d, adv b (length bs))"
    using assms h dict_sorted_ok [OF assms(2)]
    by (intro kvp_loop_reads) (simp_all add: serialize_kvp_to_end_def dict_ok_def list_all_iff)
  then show "(case Some (rb_pos b + length bs) of None \<Rightarrow> rfail TypeError | Some x \<Rightarrow> deserialize_kvp_to_end C prof x) b
      = Inr (dict_sorted d, adv b (length bs))"
    using set_vi64_has [OF h] by (simp add: deserialize_kvp_to_end_def rsteps)
qed

end

text \<open>
  C37: an extension block (object properties or track properties) within the limits is read back by the
  receiver as the same types with the same values, in both framings: behind its own length wherever
  it stands, and without one up to the end of the message.
\<close>

theorem extensions_roundtrip:
  assumes "vcodec_laws C" "exts_ok exts" "extensions_encode C f exts with_length delta = Inr bs"
    and "with_length \<longrightarrow> int (length bs) \<le> EXTENSIONS_LEN_LIMIT"
  shows "if with_length then reads f (extensions_decode C tol True buf_end delta lenient) bs (ext_received delta exts)
    else reads_to f (\<lambda>e. extensions_decode C tol False e delta lenient) bs (ext_received delta exts)"
  using vcodec_laws.extensions_prefixed_reads [OF assms(1) _ assms(2)]
    vcodec_laws.extensions_trailing_reads [OF assms(1) _ assms(2)] assms(3,4)
  by (cases with_length) simp_all

theorem extensions_roundtrip_witness:
  "reads True (extensions_decode std_codec False True None True True) [5, 2, 9, 1, 1, 0xFF]
     (Some ([(2, PInt 9), (3, PBytes [0xFF])], []))"
proof -
  let ?d = "Some [(3, PBytes [0xFF]), (2, PInt 9)]"
  have 1: "exts_ok ?d" by code_simp
  have 2: "extensions_encode std_codec True ?d True True = Inr [5, 2, 9, 1, 1, 0xFF]" by code_simp
  have 3: "int (length ([5, 2, 9, 1, 1, 0xFF] :: bytes)) \<le> EXTENSIONS_LEN_LIMIT" by (simp add: EXTENSIONS_LEN_LIMIT_def)
  have 4: "ext_received True ?d = Some ([(2, PInt 9), (3, PBytes [0xFF])], [])" by code_simp
  show ?thesis
    using extensions_roundtrip [OF std.vcodec_laws_axioms 1 2, of False None True] 3 4 by simp
qed

text \<open>
  a full track name within the limits is read back exactly; and whatever a peer sends, a track name
  that is accepted has at most 32 namespace fields and at most 4096 bytes in all, and from draft 16 on
  no empty namespace field.
\<close>

theorem full_track_name_limits:
  assumes "vcodec_laws C"
  shows "(push_tuple C f ns = Inr a \<and> push_sized C f name = Inr c \<and> ns_ok prof ns
          \<and> fields_size ns + int (length name) \<le> FULL_TRACK_NAME_MAX
          \<longrightarrow> reads f (pull_full_track_name C prof) (a @ c) (ns, name))
    \<and> (pull_full_track_name C prof b = Inr ((ns', name'), b')
          \<longrightarrow> ns_ok prof ns' \<and> fields_size ns' + int (length name') \<le> FULL_TRACK_NAME_MAX)"
proof -
  have fl: "length fs = k" if "pull_fields C e k b1 = Inr (fs, b2)" for e k b1 fs b2
    using that by (induction k arbitrary: b1 fs b2) (auto simp: rinv)
  have nn: "0 \<le> n" if "pull_vint C b1 = Inr (n, b2)" for b1 n b2
    using vcodec_laws.pull_vint_range [OF assms that] by simp
  have "ns_ok prof ns' \<and> fields_size ns' + int (length name') \<le> FULL_TRACK_NAME_MAX"
    if "pull_full_track_name C prof b = Inr ((ns', name'), b')"
    using that by (auto simp: pull_full_track_name_def pull_tuple_def rinv ns_ok_def split: if_splits dest!: fl nn)
  then show ?thesis
    using vcodec_laws.pull_full_track_name_reads [OF assms] by blast
qed

theorem full_track_name_limits_witness:
  "reads True (pull_full_track_name std_codec PROFILE_D18) [1, 2, 0x61, 0x62, 1, 0x63] ([[0x61, 0x62]], [0x63])"
proof -
  have 1: "push_tuple std_codec True [[0x61, 0x62]] = Inr [1, 2, 0x61, 0x62]" by code_simp
  have 2: "push_sized std_codec True [0x63] = Inr [1, 0x63]" by code_simp
  have 3: "ns_ok PROFILE_D18 [[0x61, 0x62]] \<and> fields_size [[0x61, 0x62]] + int (length [0x63 :: byte]) \<le> FULL_TRACK_NAME_MAX" by code_simp
  show ?thesis
    using full_track_name_limits [OF std.vcodec_laws_axioms, of True "[[0x61, 0x62]]" "[1, 2, 0x61, 0x62]" "[0x63]" "[1, 0x63]" PROFILE_D18] 1 2 3
    by simp
qed

text \<open>
  an authorization token that can be sent (a value, or a cache operation DELETE, REGISTER or
  USE_ALIAS) is decoded from its bytes to the same token; a plain value arrives as an out-of-band token.
\<close>

theorem auth_token_wire_roundtrip:
  assumes "vcodec_laws C" "tok_ok v" "auth_token_wrap C v prof = Inr raw"
  shows "auth_token_unwrap C raw prof = Inr (tok_received v)"
  using vcodec_laws.auth_token_roundtrip [OF assms(1,3,2)] .

theorem auth_token_wire_roundtrip_witness:
  "auth_token_unwrap std_codec [1, 7, 2, 0xAB] PROFILE_D16 =
     Inr (PTokRef \<lparr>at_alias_type = 1, at_alias = 7, at_token_type = Some 2, at_value = Some [0xAB]\<rparr>)"
proof -
  let ?v = "PTokRef \<lparr>at_alias_type = 1, at_alias = 7, at_token_type = Some 2, at_value = Some [0xAB]\<rparr>"
  have 1: "tok_ok ?v" by code_simp
  have 2: "auth_token_wrap std_codec ?v PROFILE_D16 = Inr [1, 7, 2, 0xAB]" by code_simp
  have 3: "tok_received ?v = ?v" by code_simp
  show ?thesis using auth_token_wire_roundtrip [OF std.vcodec_laws_axioms 1 2] unfolding 3 .
qed

text \<open>
  the options of a draft 18 SETUP message, written without a count and with delta-coded types, are
  read back up to the end of the message as the same options, in ascending order.
\<close>

theorem setup_options_roundtrip:
  assumes "vcodec_laws C" "dict_ok d" "list_all (option_ok C prof) d" "serialize_kvp_to_end C prof d = Inr bs"
  shows "has (vi64 prof) b bs \<longrightarrow>
    deserialize_kvp_to_end C prof (rb_pos b + length bs) b = Inr (dict_sorted d, adv b (length bs))"
  using reads_toD [OF vcodec_laws.setup_options_reads [OF assms(1,4,2,3)], of b] by simp

theorem setup_options_roundtrip_witness:
  "deserialize_kvp_to_end std_codec PROFILE_D18 5 (new_rbuf [1, 1, 0x2F, 1, 4] True) =
     Inr ([(1, PBytes [0x2F]), (2, PInt 4)], adv (new_rbuf [1, 1, 0x2F, 1, 4] True) 5)"
proof -
  let ?d = "[(2, PInt 4), (1, PBytes [0x2F])]" and ?bs = "[1, 1, 0x2F, 1, 4] :: bytes"
  have 1: "dict_ok ?d" by code_simp
  have 2: "list_all (option_ok std_codec PROFILE_D18) ?d" by code_simp
  have 3: "serialize_kvp_to_end std_codec PROFILE_D18 ?d = Inr ?bs" by code_simp
  have 4: "vi64 PROFILE_D18 = True" by code_simp
  have 5: "dict_sorted ?d = [(1, PBytes [0x2F]), (2, PInt 4)]" by code_simp
  have 6: "rb_pos (new_rbuf ?bs True) + length ?bs = 5" by (simp add: new_rbuf_def)
  show ?thesis
    using setup_options_roundtrip [OF std.vcodec_laws_axioms 1 2 3, of "new_rbuf ?bs True"] has_new_rbuf [of True ?bs]
    unfolding 4 5 6 by simp
qed

end
