(* ===== verification/Base_Errors.thy ===== *)
theory Base_Errors
  imports Message_Base
begin

text \<open>
  What the parameter reader can raise. \<open>raises E r\<close> bounds the exceptions of a reader by a set; the rules in
  \<open>er\<close> compose it. For every draft profile and every byte sequence the parameter block either parses or
  raises a protocol violation, a short read or the token formatting error, never a Python error such
  as \<open>TypeError\<close> or \<open>KeyError\<close> that would escape the protocol's error handling.
\<close>

named_theorems er

definition raises :: "py_error set \<Rightarrow> 'a reader \<Rightarrow> bool" where
  "raises E r \<longleftrightarrow> (\<forall>b e. r b = Inl e \<longrightarrow> e \<in> E)"

definition lift_raises :: "py_error set \<Rightarrow> 'a result \<Rightarrow> bool" where
  "lift_raises E x \<longleftrightarrow> (\<forall>e. x = Inl e \<longrightarrow> e \<in> E)"

definition WIRE_FAULTS :: "py_error set" where
  "WIRE_FAULTS = {MOQTProtocolViolation, BufferReadError, MOQTUnderflow, MOQTException KEY_VALUE_FORMATTING_ERROR}"

lemma raises_basic [er]:
  "raises E (rret v)" "e \<in> E \<Longrightarrow> raises E (rfail e)" "e \<in> E \<Longrightarrow> raises E (rguard p e)" "raises E rtell" "raises E rcapacity"
  "raises E (set_vi64 f)" "lift_raises E x \<Longrightarrow> raises E (rlift x)"
  by (auto simp: raises_def rret_def rfail_def rguard_def rtell_def rcapacity_def set_vi64_def rlift_def lift_raises_def split: sum.splits)

lemma raises_bind [er]: "raises E r \<Longrightarrow> (\<And>a. raises E (k a)) \<Longrightarrow> raises E (rbind r k)"
  unfolding raises_def rbind_def by (auto split: sum.splits)

lemma raises_if [er]: "(c \<Longrightarrow> raises E r) \<Longrightarrow> (\<not> c \<Longrightarrow> raises E s) \<Longrightarrow> raises E (if c then r else s)"
  by simp

lemma raises_catch [er]: "raises E r \<Longrightarrow> (\<And>e. raises E (h e)) \<Longrightarrow> raises E (rcatch p r h)"
  unfolding raises_def rcatch_def by (auto split: sum.splits if_splits)

lemma raises_guard_bind: "(p \<Longrightarrow> raises E r) \<Longrightarrow> e \<in> E \<Longrightarrow> raises E (rbind (rguard p e) (\<lambda>_. r))"
  by (auto simp: raises_def rbind_def rguard_def rret_def rfail_def)

lemma raises_bindD:
  assumes "raises E r" "\<And>b a b'. r b = Inr (a, b') \<Longrightarrow> raises E (k a)"
  shows "raises E (rbind r k)"
  using assms unfolding raises_def rbind_def by (auto split: sum.splits)

lemma short_read_fault: "BufferReadError \<in> E \<Longrightarrow> MOQTUnderflow \<in> E \<Longrightarrow> short_read b \<in> E"
  by (simp add: short_read_def)

lemma faults [simp]: "MOQTProtocolViolation \<in> WIRE_FAULTS" "BufferReadError \<in> WIRE_FAULTS" "MOQTUnderflow \<in> WIRE_FAULTS"
  "MOQTException KEY_VALUE_FORMATTING_ERROR \<in> WIRE_FAULTS"
  by (simp_all add: WIRE_FAULTS_def)

lemma raises_pulls [er]:
  "raises WIRE_FAULTS (pull_vint C)" "raises WIRE_FAULTS (pull_uint8 C)" "raises WIRE_FAULTS (pull_bytes n)"
  by (auto simp: raises_def pull_vint_def pull_uint8_def pull_with_def pull_bytes_def intro!: short_read_fault
      split: option.splits if_splits)

lemma raises_field_readers [er]:
  "raises WIRE_FAULTS (pull_sized n)" "raises WIRE_FAULTS (pull_fields C e k)" "raises WIRE_FAULTS (pull_tuple C prof e)"
  "raises WIRE_FAULTS (pull_pair C)" "raises WIRE_FAULTS (pull_len C e)" "raises WIRE_FAULTS (pull_vints C k)"
proof -
  show s: "raises WIRE_FAULTS (pull_sized n)" for n unfolding pull_sized_def by (intro er faults)
  show f: "raises WIRE_FAULTS (pull_fields C e k)" for k by (induction k) (auto intro!: er s)
  show "raises WIRE_FAULTS (pull_tuple C prof e)" unfolding pull_tuple_def by (intro er faults f)
  show "raises WIRE_FAULTS (pull_pair C)" unfolding pull_pair_def by (intro er)
  show "raises WIRE_FAULTS (pull_len C e)" unfolding pull_len_def by (intro er faults)
  show "raises WIRE_FAULTS (pull_vints C k)" by (induction k) (auto intro!: er)
qed

lemma raises_lf_loop [er]: "raises WIRE_FAULTS (lf_loop C stop fs)"
proof -
  have "lf_loop C stop fs b = Inl e \<Longrightarrow> e \<in> WIRE_FAULTS" for b e
  proof (induction C stop fs b rule: lf_loop.induct)
    case (1 C stop fs b)
    then show ?case
      using raises_pulls(1) [of C, unfolded raises_def]
      by (subst (asm) (2) lf_loop.simps) (auto split: if_splits sum.splits)
  qed
  then show ?thesis by (simp add: raises_def)
qed

lemma raises_rf_loop [er]: "raises WIRE_FAULTS (rf_loop C stop prev)"
proof -
  have "rf_loop C stop prev b = Inl e \<Longrightarrow> e \<in> WIRE_FAULTS" for b e
  proof (induction C stop prev b rule: rf_loop.induct)
    case (1 C stop prev b)
    have p: "pull_vint C b = Inl e \<Longrightarrow> e \<in> WIRE_FAULTS" for b
      using raises_pulls(1) [of C] by (simp add: raises_def)
    show ?case
    proof (cases "pull_vint C b")
      case (Inl x)
      then show ?thesis using 1(3) p by (subst (asm) rf_loop.simps) (simp split: if_splits)
    next
      case (Inr x)
      obtain n b1 where x: "pull_vint C b = Inr (n, b1)" using Inr by (cases x) simp
      have pos: "rb_pos b < stop" using 1(3) by (subst (asm) rf_loop.simps) (simp split: if_splits)
      show ?thesis
      proof (cases "rb_pos b1 < stop")
        case False
        then have "rf_loop C stop prev b1 = Inl e"
          using 1(3) x pos by (subst (asm) rf_loop.simps) (simp add: Let_def split: sum.splits prod.splits)
        then show ?thesis using 1(2) [OF pos x refl refl False] by simp
      next
        case True
        show ?thesis
        proof (cases "pull_vint C b1")
          case (Inl y)
          then show ?thesis using 1(3) x pos True p by (subst (asm) rf_loop.simps) (simp add: Let_def)
        next
          case (Inr y)
          obtain d b2 where y: "pull_vint C b1 = Inr (d, b2)" using Inr by (cases y) simp
          then have "rf_loop C stop (prev + n + d) b2 = Inl e"
            using 1(3) x pos True by (subst (asm) rf_loop.simps) (simp add: Let_def split: sum.splits prod.splits)
          then show ?thesis using 1(1) [OF pos x refl refl True y refl] by simp
        qed
      qed
    qed
  qed
  then show ?thesis by (simp add: raises_def)
qed

lemma raises_rf_decode [er]: "raises WIRE_FAULTS (rf_decode C prof t e)"
  unfolding rf_decode_def Let_def by (auto intro!: er split: prod.splits option.splits)

lemma raises_auth_token_unwrap: "lift_raises WIRE_FAULTS (auth_token_unwrap C raw prof)"
proof -
  have r: "raises WIRE_FAULTS (pull_rest n)" for n unfolding pull_rest_def by (intro er)
  let ?r = "rbind (pull_vint C) (\<lambda>alias_type.
           if alias_type = 3 then
             rbind (pull_vint C) (\<lambda>t. rbind (pull_rest (length raw)) (\<lambda>bs. rret (Some (PToken t bs))))
           else if alias_type = 1 then
             rbind (pull_vint C) (\<lambda>a. rbind (pull_vint C) (\<lambda>t. rbind (pull_rest (length raw)) (\<lambda>bs.
             rret (Some (PTokRef \<lparr>at_alias_type = alias_type, at_alias = a, at_token_type = Some t, at_value = Some bs\<rparr>)))))
           else if alias_type = 0 \<or> alias_type = 2 then
             rbind (pull_vint C) (\<lambda>a. rbind rtell (\<lambda>p.
             rret (if p = length raw
                   then Some (PTokRef \<lparr>at_alias_type = alias_type, at_alias = a, at_token_type = None, at_value = None\<rparr>)
                   else None)))
           else rret None)"
  have "raises WIRE_FAULTS ?r" by (intro er r)
  then show ?thesis
    unfolding auth_token_unwrap_def lift_raises_def raises_def by (auto split: sum.splits option.splits if_splits)
qed

lemma raises_pull_bytes_value [er]: "raises WIRE_FAULTS (pull_bytes_value C prof e t)"
  unfolding pull_bytes_value_def by (intro er raises_auth_token_unwrap)

lemma raises_pull_location_param [er]: "raises WIRE_FAULTS (pull_location_param C prof e r prev delta)"
  by (auto simp: raises_def pull_location_param_def Let_def split: option.splits if_splits)

section \<open>A decoded Location Filter satisfies its constructor\<close>

definition u64s :: "int list \<Rightarrow> bool" where
  "u64s vs \<longleftrightarrow> (\<forall>v \<in> set vs. 0 \<le> v \<and> v \<le> U64_MAX)"

lemma lf_loop_values:
  assumes "lf_loop C stop fs b = Inr (vs, b')" "\<And>b n b'. pull_vint C b = Inr (n, b') \<Longrightarrow> 0 \<le> n \<and> n \<le> U64_MAX"
    and "u64s fs" "length fs \<le> 4"
  shows "u64s vs \<and> length vs \<le> 4"
  using assms
proof (induction C stop fs b rule: lf_loop.induct)
  case (1 C stop fs b)
  show ?case
  proof (cases "rb_pos b < stop")
    case True
    then obtain n b1 where p: "pull_vint C b = Inr (n, b1)" "length fs \<noteq> 4"
        and r: "lf_loop C stop (fs @ [n]) b1 = Inr (vs, b')"
      using 1(2) by (subst (asm) lf_loop.simps) (auto split: if_splits sum.splits)
    have "u64s (fs @ [n])" "length (fs @ [n]) \<le> 4"
      using 1(3) [OF p(1)] 1(4,5) p(2) by (auto simp: u64s_def)
    then show ?thesis using 1(1) [OF True p(2,1) refl r] 1(3) by blast
  next
    case False
    then show ?thesis using 1(2,4,5) by (subst (asm) lf_loop.simps) auto
  qed
qed

lemma pull_vints_values:
  assumes "pull_vints C k b = Inr (vs, b')" "\<And>b n b'. pull_vint C b = Inr (n, b') \<Longrightarrow> 0 \<le> n \<and> n \<le> U64_MAX"
  shows "u64s vs \<and> length vs = k"
  using assms(1)
proof (induction k arbitrary: b vs b')
  case (Suc k)
  then obtain n b1 us b2 where "pull_vint C b = Inr (n, b1)" "pull_vints C k b1 = Inr (us, b2)" "vs = n # us"
    by (auto simp: rinv)
  then show ?case using Suc.IH assms(2) by (fastforce simp: u64s_def)
qed (simp add: rret_def u64s_def)

lemma lf_new_from_fields:
  assumes "u64s vs" "length vs = lf_need t" "vs' = (if 3 \<le> length vs then vs[2 := vs ! 2 + vs ! 0] else vs)"
    and "length vs < 3 \<or> vs' ! 2 \<le> U64_MAX"
  shows "\<exists>lf. LocationFilter_new t (nth_opt vs' 0) (nth_opt vs' 1) (nth_opt vs' 2) (nth_opt vs' 3) = Inr lf"
proof -
  note d = u64s_def LocationFilter_new_def Let_def lf_ok_def lf_attrs_def nth_opt_def numeral_2_eq_2 numeral_3_eq_3
  consider "vs = []" "t = LF_NONE \<or> t = LF_NEXT_OBJECT" | a where "vs = [a]" "t = LF_RELATIVE_START"
    | a c where "vs = [a, c]" "t = LF_ABSOLUTE_START" | a c g where "vs = [a, c, g]" "t = LF_ABSOLUTE_GROUP_END"
    | a c g h where "vs = [a, c, g, h]" "t = LF_ABSOLUTE_RANGE"
    using assms(2) by (cases t) (auto simp: length_Suc_conv numeral_2_eq_2 numeral_3_eq_3 numeral_nat)
  then show ?thesis
  proof cases
    case 1
    then show ?thesis using assms(3) by (auto simp: d)
  next
    case 2
    then show ?thesis using assms(1,3) by (simp add: d)
  next
    case 3
    then show ?thesis using assms(1,3) by (simp add: d)
  next
    case 4
    then show ?thesis using assms(1,3,4) by (simp add: d)
  next
    case 5
    then show ?thesis using assms(1,3,4) by (simp add: d)
  qed
qed

context vcodec_laws
begin

lemma vint_u64: "pull_vint C b = Inr (n, b') \<Longrightarrow> 0 \<le> n \<and> n \<le> U64_MAX"
  using pull_vint_range [of b n b'] by (simp add: U64_MAX_def)

lemma lf_loop_length: "lf_loop C stop [] b = Inr (fs, b') \<Longrightarrow> length fs \<le> 4"
proof -
  assume l: "lf_loop C stop [] b = Inr (fs, b')"
  have "u64s []" "length ([] :: int list) \<le> 4" by (simp_all add: u64s_def)
  from lf_loop_values [OF l vint_u64 this] show ?thesis by simp
qed

lemma lf_pull_values:
  assumes "(if location_filter_typed prof then lf_pull_typed C e else lf_pull_counted C e) b = Inr ((t, vs), b')"
  shows "u64s vs \<and> length vs = lf_need t"
proof (cases "location_filter_typed prof")
  case True
  then have "lf_pull_typed C e b = Inr ((t, vs), b')" using assms by simp
  then obtain b1 b2 where "pull_vints C (lf_need t) b1 = Inr (vs, b2)"
    by (auto simp: lf_pull_typed_def rinv split: if_splits sum.splits)
  then show ?thesis using pull_vints_values [of C] vint_u64 by blast
next
  case False
  then have "lf_pull_counted C e b = Inr ((t, vs), b')" using assms by simp
  then obtain stop b1 fs b2 where l: "lf_loop C stop [] b1 = Inr (fs, b2)"
    and c: "fs = [0, 0] \<and> t = LF_NEXT_OBJECT \<and> vs = [] \<or>
       lft_of_int (int (length fs)) = Inr t \<and> vs = (if t = LF_NEXT_OBJECT then [] else fs)"
    by (auto simp: lf_pull_counted_def Let_def rinv split: if_splits sum.splits)
  have "u64s fs \<and> length fs \<le> 4"
    using lf_loop_values [OF l vint_u64] by (simp add: u64s_def)
  with c show ?thesis
    by (auto simp: lft_of_int_def u64s_def split: if_splits)
qed

lemma raises_lf_pull_typed: "raises WIRE_FAULTS (lf_pull_typed C e)"
proof -
  have "raises WIRE_FAULTS (rbind (rlift (lft_of_int raw)) (\<lambda>ftype. rbind (pull_vints C (lf_need ftype)) (\<lambda>fields.
      rbind rtell (\<lambda>p. rbind (rguard (\<not> past e p) MOQTProtocolViolation) (\<lambda>_. rret (ftype, fields))))))"
    if "0 \<le> raw" "raw \<le> 5" for raw
  proof -
    have "lift_raises WIRE_FAULTS (lft_of_int raw)" using that by (auto simp: lift_raises_def lft_of_int_def)
    then show ?thesis by (intro er faults)
  qed
  then have *: "raises WIRE_FAULTS (rbind (rguard (raw \<le> 5) MOQTProtocolViolation) (\<lambda>_. rbind (rlift (lft_of_int raw)) (\<lambda>ftype.
      rbind (pull_vints C (lf_need ftype)) (\<lambda>fields.
      rbind rtell (\<lambda>p. rbind (rguard (\<not> past e p) MOQTProtocolViolation) (\<lambda>_. rret (ftype, fields)))))))"
    if "0 \<le> raw" for raw
    using that by (intro raises_guard_bind faults) auto
  show ?thesis
    unfolding lf_pull_typed_def
    by (rule raises_bindD [OF raises_pulls(1)]) (use * vint_u64 in blast)
qed

lemma raises_lf_pull_counted: "raises WIRE_FAULTS (lf_pull_counted C e)"
proof -
  have **: "lift_raises WIRE_FAULTS (lft_of_int (int (length fs)))" if "length fs \<le> 4" for fs :: "int list"
  proof -
    have "length fs = 0 \<or> length fs = 1 \<or> length fs = 2 \<or> length fs = 3 \<or> length fs = 4" using that by linarith
    then have "int (length fs) \<in> {0, 1, 2, 3, 4}" by auto
    then show ?thesis by (auto simp: lift_raises_def lft_of_int_def)
  qed
  have *: "raises WIRE_FAULTS (rbind rtell (\<lambda>p'. rbind (rguard (p' = stop) MOQTProtocolViolation) (\<lambda>_.
      if fs = [0, 0] then rret (LF_NEXT_OBJECT, [])
      else rbind (rlift (lft_of_int (int (length fs)))) (\<lambda>ftype. rret (ftype, if ftype = LF_NEXT_OBJECT then [] else fs)))))"
    if "length fs \<le> 4" for fs :: "int list" and stop
    by (rule raises_bind [OF raises_basic(4)], rule raises_bind [OF raises_basic(3) [OF faults(1)]], rule raises_if,
        rule raises_basic(1), rule raises_bind [OF raises_basic(7) [OF ** [OF that]]], rule raises_basic(1))
  have "raises WIRE_FAULTS (rbind (lf_loop C stop []) (\<lambda>fs. rbind rtell (\<lambda>p'. rbind (rguard (p' = stop) MOQTProtocolViolation) (\<lambda>_.
      if fs = [0, 0] then rret (LF_NEXT_OBJECT, [])
      else rbind (rlift (lft_of_int (int (length fs)))) (\<lambda>ftype. rret (ftype, if ftype = LF_NEXT_OBJECT then [] else fs))))))" for stop
  proof (rule raises_bindD [OF raises_lf_loop])
    fix b fs b' assume "lf_loop C stop [] b = Inr (fs, b')"
    then have "length fs \<le> 4" by (rule lf_loop_length)
    then show "raises WIRE_FAULTS (rbind rtell (\<lambda>p'. rbind (rguard (p' = stop) MOQTProtocolViolation) (\<lambda>_.
        if fs = [0, 0] then rret (LF_NEXT_OBJECT, [])
        else rbind (rlift (lft_of_int (int (length fs)))) (\<lambda>ftype. rret (ftype, if ftype = LF_NEXT_OBJECT then [] else fs)))))"
      by (rule *)
  qed
  note l = this
  show ?thesis
    unfolding lf_pull_counted_def Let_def
    by (rule raises_bind [OF raises_pulls(1)], rule raises_bind [OF raises_basic(4)],
        rule raises_bind [OF raises_basic(3) [OF faults(1)]], rule l)
qed

lemma raises_lf_decode: "raises WIRE_FAULTS (lf_decode C prof e)"
  unfolding lf_decode_def
proof (rule raises_bindD)
  show "raises WIRE_FAULTS (rcatch (\<lambda>e. e = BufferReadError)
        (if location_filter_typed prof then lf_pull_typed C e else lf_pull_counted C e) (\<lambda>_. rfail MOQTProtocolViolation))"
    by (intro er faults raises_lf_pull_typed raises_lf_pull_counted)
next
  fix b x b'
  assume "rcatch (\<lambda>e. e = BufferReadError) (if location_filter_typed prof then lf_pull_typed C e else lf_pull_counted C e)
      (\<lambda>_. rfail MOQTProtocolViolation) b = Inr (x, b')"
  moreover obtain t vs where x: "x = (t, vs)" by force
  ultimately have "(if location_filter_typed prof then lf_pull_typed C e else lf_pull_counted C e) b = Inr ((t, vs), b')"
    by (auto simp: rcatch_def rfail_def split: sum.splits if_splits)
  from lf_pull_values [OF this] have v: "u64s vs" "length vs = lf_need t" by simp_all
  let ?vs = "if 3 \<le> length vs then vs[2 := vs ! 2 + vs ! 0] else vs"
  have "raises WIRE_FAULTS (rbind (rguard (length vs < 3 \<or> ?vs ! 2 \<le> U64_MAX) MOQTProtocolViolation) (\<lambda>_.
      rlift (LocationFilter_new t (nth_opt ?vs 0) (nth_opt ?vs 1) (nth_opt ?vs 2) (nth_opt ?vs 3))))"
    using lf_new_from_fields [OF v refl]
    by (intro raises_guard_bind er faults) (auto simp: lift_raises_def)
  then show "raises WIRE_FAULTS (case x of (ftype, fs) \<Rightarrow>
      let gs = (if 3 \<le> length fs then fs[2 := fs ! 2 + fs ! 0] else fs) in
      rbind (rguard (length fs < 3 \<or> gs ! 2 \<le> U64_MAX) MOQTProtocolViolation) (\<lambda>_.
      rlift (LocationFilter_new ftype (nth_opt gs 0) (nth_opt gs 1) (nth_opt gs 2) (nth_opt gs 3))))"
    by (simp only: x prod.case Let_def)
qed

end

section \<open>The parameter block\<close>

text \<open>The profiles' tables: every table exists, and a parameter with a restricted value is an integer.\<close>

lemma profile_tables:
  assumes "profile_for v = Inr prof"
  shows "\<exists>ks. param_kinds prof = Inr ks" "\<exists>sc. param_scope prof = Inr sc"
    "18 \<le> draft prof \<Longrightarrow> \<not> d20_params prof \<Longrightarrow> param_table prof = 18"
    "draft prof < 18 \<Longrightarrow> location_params prof = []"
    "param_bounds prof t \<noteq> None \<Longrightarrow> 18 \<le> draft prof \<Longrightarrow> param_kinds prof = Inr ks \<Longrightarrow> dict_get ks t \<in> {None, Some K_uint8}"
    "param_bounds prof t \<noteq> None \<Longrightarrow> draft prof < 18 \<Longrightarrow> t mod 2 = 0"
  using assms
  by (auto elim!: profile_for_cases simp: profile_defs param_kinds_def param_scope_def KINDS_def SCOPES_def dict_get_def d20_params_def
      param_bounds_def PARAM_VALUE_RANGES_def VALUE_RANGES_def D18_PARAM_KINDS_def D20_KINDS_def D22_KINDS_def split: if_splits)

lemma pull_value_restricted:
  assumes "pull_value C prof cfg fillr r prev t b = Inr (v, b')" "profile_for w = Inr prof" "param_bounds prof t \<noteq> None"
  shows "\<exists>n. v = PInt n"
proof (cases "18 \<le> draft prof")
  case True
  then obtain ks kind where "param_kinds prof = Inr ks" "dict_get ks t = Some kind"
    and p: "pull_kind C prof cfg fillr r prev kind t b = Inr (v, b')"
    using assms(1) by (auto simp: pull_value_def rinv wr)
  then have "kind = K_uint8" using profile_tables(5) [OF assms(2,3) True] by auto
  then show ?thesis using p by (auto simp: pull_kind_def rinv)
next
  case False
  then have "t mod 2 = 0" "location_params prof = []"
    using profile_tables(4,6) [OF assms(2)] assms(3) by auto
  then show ?thesis using assms(1) False by (auto simp: pull_value_def rinv split: if_splits)
qed

lemma raises_check_value:
  assumes "profile_for w = Inr prof" "param_bounds prof t \<noteq> None \<Longrightarrow> \<exists>n. v = PInt n"
  shows "lift_raises WIRE_FAULTS (check_value prof cfg t v)"
  using assms(2)
  by (auto simp: lift_raises_def check_value_def check_delivery_timeout_def check_range_def guardR_def bindR_def
      split: option.splits if_splits sum.splits)

lemma raises_store_param: "lift_raises WIRE_FAULTS (store_param prof ps t v)"
  by (auto simp: lift_raises_def store_param_def split: option.splits if_splits)

lemma raises_pull_key: "raises WIRE_FAULTS (pull_key C cfg prev)"
  unfolding pull_key_def by (rule raises_bind [OF raises_basic(4)], rule raises_bind [OF raises_basic(3) [OF faults(1)]],
      rule raises_bind [OF raises_pulls(1)], rule raises_basic(1))

lemma raises_pull_kind_tuple: "raises WIRE_FAULTS (pull_kind C prof cfg fillr r prev K_tuple t)"
  unfolding pull_kind_def param_kind.case Let_def
  by (rule raises_bind [OF raises_pulls(1)], rule raises_bind [OF raises_basic(4)],
      rule raises_bind [OF raises_basic(3) [OF faults(1)]], rule raises_bind [OF raises_field_readers(3)],
      rule raises_bind [OF raises_basic(4)], rule raises_bind [OF raises_basic(3) [OF faults(1)]], rule raises_basic(1))

context vcodec_laws
begin

lemma raises_pull_kind:
  assumes "kind = K_fill \<Longrightarrow> raises WIRE_FAULTS fillr" "kind = K_location \<Longrightarrow> d20_params prof \<or> r \<noteq> None"
  shows "raises WIRE_FAULTS (pull_kind C prof cfg fillr r prev kind t)"
proof (cases kind)
  case K_tuple
  then show ?thesis using raises_pull_kind_tuple by simp
next
  case K_location
  have "raises WIRE_FAULTS (rbind (pull_pair C) (\<lambda>(g, ob). rret (PSeq [PInt g, PInt ob])))"
    by (intro er) (auto intro: raises_basic(1))
  then show ?thesis using assms(2) [OF K_location] raises_pull_location_param
    by (auto simp: pull_kind_def K_location)
next
  case K_fill
  then show ?thesis using assms(1) by (simp add: pull_kind_def)
qed (simp_all add: pull_kind_def er raises_bind [OF raises_lf_decode])

lemma raises_pull_value:
  assumes "profile_for w = Inr prof" "d20_params prof \<Longrightarrow> raises WIRE_FAULTS fillr" "d20_params prof \<or> r \<noteq> None"
  shows "raises WIRE_FAULTS (pull_value C prof cfg fillr r prev t)"
proof (cases "18 \<le> draft prof")
  case True
  obtain ks where ks: "param_kinds prof = Inr ks" using profile_tables(1) [OF assms(1)] by blast
  show ?thesis
  proof (cases "dict_get ks t")
    case None
    then show ?thesis by (simp add: raises_def pull_value_def True ks rsteps)
  next
    case (Some kind)
    have "raises WIRE_FAULTS (pull_kind C prof cfg fillr r prev kind t)"
    proof (rule raises_pull_kind)
      show "raises WIRE_FAULTS fillr" if "kind = K_fill"
        using that kind_fill [OF ks, of t] Some True assms(2) by (simp add: d20_params_def)
    qed (use assms(3) in simp)
    then have "raises WIRE_FAULTS (rbind (rguard (case pc_allowed cfg of None \<Rightarrow> True | Some a \<Rightarrow> t \<in> set a) MOQTProtocolViolation) (\<lambda>_.
        pull_kind C prof cfg fillr r prev kind t))"
      by (intro raises_guard_bind faults)
    then show ?thesis by (simp add: raises_def pull_value_def True ks Some rbind_def rlift_def)
  qed
next
  case False
  then have "location_params prof = []" using profile_tables(4) [OF assms(1)] by simp
  then show ?thesis unfolding pull_value_def using False by (simp add: er)
qed

lemma raises_rest_of_param:
  assumes "profile_for w = Inr prof" "d20_params prof \<Longrightarrow> raises WIRE_FAULTS fillr" "d20_params prof \<or> r \<noteq> None"
  shows "raises WIRE_FAULTS (pull_rest_of_param C prof cfg fillr r prev ps t)"
  unfolding pull_rest_of_param_def
proof (rule raises_bindD [OF raises_pull_value [OF assms]])
  fix b v b' assume "pull_value C prof cfg fillr r prev t b = Inr (v, b')"
  then have "lift_raises WIRE_FAULTS (check_value prof cfg t v)"
    using pull_value_restricted assms(1) by (intro raises_check_value) blast+
  then show "raises WIRE_FAULTS (rbind rtell (\<lambda>p. rbind (rguard (\<not> past (pc_end cfg) p) MOQTProtocolViolation) (\<lambda>_.
      rbind (rlift (check_value prof cfg t v)) (\<lambda>_. rlift (store_param prof ps t v)))))"
    by (intro er faults raises_store_param)
qed

lemma params_loop_faults:
  assumes "profile_for w = Inr prof" "d20_params prof \<Longrightarrow> raises WIRE_FAULTS fillr"
  shows "snd (params_loop C prof cfg fillr n prev ps b) = Inl e \<Longrightarrow> e \<in> WIRE_FAULTS"
proof (induction n arbitrary: prev ps b)
  case (Suc n)
  have r: "raises WIRE_FAULTS (pull_rest_of_param C prof cfg fillr (Some n) p q t)" for p q t
    using raises_rest_of_param [OF assms] by simp
  show ?case
  proof (cases "pull_key C cfg prev b")
    case (Inl y)
    then show ?thesis using Suc.prems raises_pull_key [of C cfg prev] by (simp add: raises_def)
  next
    case (Inr y)
    obtain t b1 where y: "pull_key C cfg prev b = Inr (t, b1)" using Inr by (cases y) simp
    define q where "q = (if pc_delta cfg then t else prev)"
    show ?thesis
    proof (cases "pull_rest_of_param C prof cfg fillr (Some n) q ps t b1")
      case (Inl z)
      then show ?thesis using Suc.prems y r by (simp add: Let_def raises_def flip: q_def)
    next
      case (Inr z)
      obtain ps' b2 where z: "pull_rest_of_param C prof cfg fillr (Some n) q ps t b1 = Inr (ps', b2)" using Inr by (cases z) simp
      have "snd (params_loop C prof cfg fillr n q ps' b2) = Inl e"
        using Suc.prems y z by (simp add: Let_def split: prod.splits flip: q_def)
      then show ?thesis by (rule Suc.IH)
    qed
  qed
qed simp

lemma raises_bare_loop:
  assumes "profile_for w = Inr prof" "d20_params prof"
  shows "raises WIRE_FAULTS (bare_loop C prof cfg e prev ps)"
proof -
  have nf: "raises WIRE_FAULTS no_fill" by (simp add: no_fill_def er)
  have "bare_loop C' prof' cfg e prev ps b = Inl x \<Longrightarrow> C' = C \<Longrightarrow> prof' = prof \<Longrightarrow> x \<in> WIRE_FAULTS" for b x C' prof'
  proof (induction C' prof' cfg e prev ps b rule: bare_loop.induct)
    case (1 C' prof' cfg e prev ps b)
    have r: "raises WIRE_FAULTS (pull_rest_of_param C prof cfg no_fill None p q t)" for p q t
      using raises_rest_of_param [OF assms(1) nf] assms(2) by simp
    show ?case
    proof (cases "e \<le> rb_pos b")
      case True
      then show ?thesis using 1(2) by (subst (asm) bare_loop.simps) simp
    next
      case False
      show ?thesis
      proof (cases "pull_key C cfg prev b")
        case (Inl y)
        then show ?thesis using 1(2-4) False raises_pull_key [of C cfg prev]
          by (subst (asm) bare_loop.simps) (simp add: raises_def)
      next
        case (Inr y)
        obtain t b1 where y: "pull_key C cfg prev b = Inr (t, b1)" using Inr by (cases y) simp
        let ?prev = "if pc_delta cfg then t else prev"
        show ?thesis
        proof (cases "pull_rest_of_param C prof cfg no_fill None ?prev ps t b1")
          case (Inl z)
          then show ?thesis using 1(2-4) False y r
            by (subst (asm) bare_loop.simps) (simp add: Let_def raises_def)
        next
          case (Inr z)
          obtain ps' b2 where z: "pull_rest_of_param C prof cfg no_fill None ?prev ps t b1 = Inr (ps', b2)" using Inr by (cases z) simp
          then have "bare_loop C prof cfg e ?prev ps' b2 = Inl x"
            using 1(2-4) False y by (subst (asm) bare_loop.simps) (simp add: Let_def)
          then show ?thesis using 1(1) [of "(t, b1)" t b1 ?prev "(ps', b2)" ps' b2] 1(3,4) False y z by simp
        qed
      qed
    qed
  qed
  then show ?thesis by (simp add: raises_def)
qed

end

lemma params_cfg_ok:
  "profile_for w = Inr prof \<Longrightarrow> \<exists>cfg. params_cfg prof e dk scope fc = Inr cfg"
  using profile_tables(2) [of w prof] by (auto simp: params_cfg_def)

context vcodec_laws
begin

lemma raises_pull_params_fill:
  assumes "profile_for w = Inr prof"
  shows "raises WIRE_FAULTS (pull_params_fill C prof e)"
proof -
  obtain cfg where cfg: "params_cfg prof e None (Some ''FillParameters'') False = Inr cfg"
    using params_cfg_ok [OF assms] by blast
  have "raises WIRE_FAULTS (\<lambda>b. snd (params_loop C prof cfg no_fill n 0 [] b))" for n
    using params_loop_faults [OF assms, of no_fill cfg] by (simp add: raises_def no_fill_def rfail_def)
  moreover have "lift_raises WIRE_FAULTS (Inr cfg)" by (simp add: lift_raises_def)
  ultimately show ?thesis
    unfolding pull_params_fill_def cfg
    by (auto simp: raises_def rbind_def rlift_def set_vi64_def split: sum.splits dest: raises_pulls(1) [unfolded raises_def, rule_format])
qed

lemma raises_pull_params_bare:
  assumes "profile_for w = Inr prof" "d20_params prof"
  shows "raises WIRE_FAULTS (pull_params_bare C prof e)"
proof -
  obtain cfg where cfg: "params_cfg prof (Some e) None (Some ''FillParameters'') False = Inr cfg"
    using params_cfg_ok [OF assms(1)] by blast
  show ?thesis
    unfolding pull_params_bare_def cfg using raises_bare_loop [OF assms, of cfg e 0 "[]"]
    by (auto simp: raises_def rbind_def rlift_def set_vi64_def)
qed

lemma raises_pull_fill:
  assumes "profile_for w = Inr prof" "d20_params prof"
  shows "raises WIRE_FAULTS (pull_fill C prof cfg)"
proof -
  have v: "raises WIRE_FAULTS (pull_fill_value C prof e)" for e
    using raises_pull_params_fill [OF assms(1), of "Some e"] raises_pull_params_bare [OF assms, of e] raises_pulls(1) [of C]
    by (auto simp: raises_def pull_fill_value_def split: sum.splits if_splits)
  then have "raises WIRE_FAULTS (if n \<noteq> 0 then pull_fill_value C prof e else rret [])" for n :: int and e
    by (simp add: raises_basic(1))
  note p = this
  show ?thesis
    unfolding pull_fill_def Let_def
    by (rule raises_if, rule raises_bind [OF raises_pull_params_fill [OF assms(1)]], rule raises_basic(1),
        rule raises_bind [OF raises_pulls(1)], rule raises_bind [OF raises_basic(4)],
        rule raises_bind [OF raises_basic(3) [OF faults(1)]], rule raises_bind [OF p],
        rule raises_bind [OF raises_basic(4)], rule raises_bind [OF raises_basic(3) [OF faults(1)]], rule raises_basic(1))
qed

lemma pull_params_faults:
  assumes "profile_for w = Inr prof" "snd (pull_params C prof e dk scope fc b) = Inl x"
  shows "x \<in> WIRE_FAULTS"
proof -
  obtain cfg where cfg: "params_cfg prof e dk scope fc = Inr cfg"
    using params_cfg_ok [OF assms(1)] by blast
  note l = params_loop_faults [OF assms(1) raises_pull_fill [OF assms(1)], of cfg]
  show ?thesis
    using assms(2) l raises_pulls(1) [of C]
    by (auto simp: pull_params_def Let_def cfg raises_def split: sum.splits)
qed

end

text \<open>
  C38: whatever bytes a peer sends as a parameter block, at every supported draft and for every message
  scope, the reader returns a dictionary or raises a protocol violation, a short read or the
  token formatting error. No \<open>TypeError\<close>, \<open>KeyError\<close>, \<open>ValueError\<close> or other Python error comes out of it,
  although it goes through dictionary lookups, dataclass constructors and comparisons that raise them.
\<close>

theorem deserialize_params_faults:
  assumes "vcodec_laws C" "profile_for v = Inr prof" "deserialize_params C prof dk scope buf_end b = Inl e"
  shows "e \<in> WIRE_FAULTS"
proof -
  note f = vcodec_laws.pull_params_faults [OF assms(1,2)]
  show ?thesis
    using assms(3) f [of buf_end dk scope False b] f [of buf_end dk scope True b]
    by (auto simp: deserialize_params_def Let_def split: prod.splits sum.splits if_splits)
qed

theorem deserialize_params_faults_witness:
  "deserialize_params std_codec PROFILE_D22 None (Some ''Fetch'') (Some 3) (new_rbuf [1, 0x23, 0] True) = Inl MOQTProtocolViolation
   \<and> MOQTProtocolViolation \<in> WIRE_FAULTS"
proof -
  have 1: "profile_for 22 = Inr PROFILE_D22" by code_simp
  have 2: "deserialize_params std_codec PROFILE_D22 None (Some ''Fetch'') (Some 3) (new_rbuf [1, 0x23, 0] True) = Inl MOQTProtocolViolation"
    by code_simp
  show ?thesis using deserialize_params_faults [OF std.vcodec_laws_axioms 1 2] 2 by blast
qed

end
