(* ===== verification/Data_Plane.thy ===== *)
theory Data_Plane
  imports Message_Base
begin

text \<open>
  \<^verbatim>\<open>messages/data.py\<close>: the data plane. Subgroup headers and the objects of a subgroup stream (Object IDs as
  deltas), fetch streams in their three wire forms (explicit at draft 14, flags at draft 16, deltas
  against a prior object from draft 18), object datagrams and padding, together with the parts of
  \<^verbatim>\<open>protocol.py\<close> that thread the state of a stream through its objects. The fused C parsers and encoders
  of \<^verbatim>\<open>aiopquic\<close> are parameters.
\<close>

unbundle bit_operations_syntax

definition MOQT_DEFAULT_PRIORITY :: int where "MOQT_DEFAULT_PRIORITY = 128"
definition SUBGROUP_HEADER_BASE :: int where "SUBGROUP_HEADER_BASE = 0x10"
definition SUBGROUP_ID_ZERO :: int where "SUBGROUP_ID_ZERO = 0"
definition SUBGROUP_ID_FIRST_OBJ :: int where "SUBGROUP_ID_FIRST_OBJ = 1"
definition SUBGROUP_ID_EXPLICIT :: int where "SUBGROUP_ID_EXPLICIT = 2"
definition OBJECT_DATAGRAM_BASE :: int where "OBJECT_DATAGRAM_BASE = 0"
definition OBJECT_DATAGRAM_STATUS_BASE :: int where "OBJECT_DATAGRAM_STATUS_BASE = 0x20"
definition PADDING_STREAM_TYPE :: int where "PADDING_STREAM_TYPE = 0x132B3E28"
definition PADDING_DATAGRAM_TYPE :: int where "PADDING_DATAGRAM_TYPE = 0x132B3E29"

definition STATUS_NORMAL :: int where "STATUS_NORMAL = 0"
definition STATUS_END_OF_GROUP :: int where "STATUS_END_OF_GROUP = 3"

text \<open>\<^verbatim>\<open>bool(x & m)\<close>.\<close>

definition bit_set :: "int \<Rightarrow> int \<Rightarrow> bool" where
  "bit_set x m \<longleftrightarrow> x AND m \<noteq> 0"

definition push_as :: "vcodec \<Rightarrow> bool \<Rightarrow> int \<Rightarrow> bytes result" where
  "push_as C vi = (if vi then push_uint_vi64 C else push_uint_var C)"

definition pull_as :: "vcodec \<Rightarrow> bool \<Rightarrow> int reader" where
  "pull_as C vi = (if vi then pull_uint_vi64 C else pull_uint_var C)"

definition check_payload_len :: "int \<Rightarrow> int \<Rightarrow> unit result" where
  "check_payload_len n limit = guardR (limit = 0 \<or> n \<le> limit) (MOQTObjectTooLarge n limit)"

definition object_status :: "int \<Rightarrow> int result" where
  "object_status raw = (if raw \<in> set (enum_values ObjectStatus) then Inr raw else Inl MOQTProtocolViolation)"

definition encode_padding :: "vcodec \<Rightarrow> int \<Rightarrow> DraftProfile \<Rightarrow> bool \<Rightarrow> bytes result" where
  "encode_padding C sz prof datagram =
    bindR (guardR (padding prof) ValueError) (\<lambda>_.
    bindR (guardR (0 \<le> sz) ValueError) (\<lambda>_.
    bindR (in_buffer C 16 (push_vint C (vi64 prof) (if datagram then PADDING_DATAGRAM_TYPE else PADDING_STREAM_TYPE))) (\<lambda>t.
    Inr (t @ replicate (nat sz) 0))))"

section \<open>Subgroup streams\<close>

text \<open>\<^verbatim>\<open>_vi64\<close> and \<^verbatim>\<open>_kvp_delta\<close> are derived from the profile once.\<close>

record SubgroupHeader =
  sh_track_alias :: int
  sh_group_id :: int
  sh_subgroup_id :: "int option"
  sh_publisher_priority :: int
  sh_extensions_present :: bool
  sh_end_of_group :: bool
  sh_subgroup_id_mode :: int
  sh_first_object :: bool
  sh_default_priority :: bool
  sh_prof :: "DraftProfile option"
  sh_last_object_id :: "int option"

definition sh_vi64 :: "SubgroupHeader \<Rightarrow> bool" where
  "sh_vi64 h = (case sh_prof h of None \<Rightarrow> False | Some p \<Rightarrow> vi64 p)"

definition sh_kvp_delta :: "SubgroupHeader \<Rightarrow> bool" where
  "sh_kvp_delta h = (case sh_prof h of None \<Rightarrow> False | Some p \<Rightarrow> params_delta_coded p)"

definition has_first_bit :: "DraftProfile option \<Rightarrow> bool" where
  "has_first_bit prof = (case prof of None \<Rightarrow> False | Some p \<Rightarrow> bit_set (subgroup_type_mask p) 0x40)"

definition sh_compute_type :: "SubgroupHeader \<Rightarrow> int" where
  "sh_compute_type h =
    (let t0 = SUBGROUP_HEADER_BASE;
         t1 = (if sh_extensions_present h then t0 OR 0x01 else t0);
         t2 = t1 OR push_bit 1 (sh_subgroup_id_mode h AND 0x03);
         t3 = (if sh_end_of_group h then t2 OR 0x08 else t2);
         t4 = (if sh_default_priority h then t3 OR 0x20 else t3)
     in if sh_first_object h \<and> has_first_bit (sh_prof h) then t4 OR 0x40 else t4)"

definition sh_serialize :: "vcodec \<Rightarrow> SubgroupHeader \<Rightarrow> bytes result" where
  "sh_serialize C h =
    (let push = push_as C (sh_vi64 h) in
     in_buffer C BUF_SIZE (wseq
       [push (sh_compute_type h), push (sh_track_alias h), push (sh_group_id h),
        if sh_subgroup_id_mode h = SUBGROUP_ID_EXPLICIT then push (attr (sh_subgroup_id h)) else Inr [],
        if \<not> sh_default_priority h then push_uint8 C (sh_publisher_priority h) else Inr []]))"

definition sh_deserialize :: "vcodec \<Rightarrow> int \<Rightarrow> DraftProfile option \<Rightarrow> SubgroupHeader reader" where
  "sh_deserialize C type_val prof =
    (let pull = pull_as C (case prof of None \<Rightarrow> False | Some p \<Rightarrow> vi64 p);
         mode = drop_bit 1 type_val AND 0x03;
         default_priority = bit_set type_val 0x20 in
     rbind pull (\<lambda>track_alias.
     rbind pull (\<lambda>group_id.
     rbind (if mode = SUBGROUP_ID_EXPLICIT then rbind pull (\<lambda>s. rret (Some s))
            else if mode = SUBGROUP_ID_ZERO then rret (Some 0) else rret None) (\<lambda>subgroup_id.
     rbind (if default_priority then rret MOQT_DEFAULT_PRIORITY else pull_uint8 C) (\<lambda>priority.
     rret \<lparr>sh_track_alias = track_alias, sh_group_id = group_id, sh_subgroup_id = subgroup_id,
           sh_publisher_priority = priority, sh_extensions_present = bit_set type_val 0x01,
           sh_end_of_group = bit_set type_val 0x08, sh_subgroup_id_mode = mode,
           sh_first_object = bit_set type_val 0x40, sh_default_priority = default_priority,
           sh_prof = prof, sh_last_object_id = None\<rparr>)))))"

text \<open>An extension block is a dictionary with the types that appeared twice; one built by a sender has none.\<close>

record ObjectHeader =
  oh_object_id :: int
  oh_extensions :: "kvps option"
  oh_status :: int
  oh_payload :: bytes

definition oh_serialize :: "vcodec \<Rightarrow> bool \<Rightarrow> int option \<Rightarrow> bool \<Rightarrow> bool \<Rightarrow> ObjectHeader \<Rightarrow> bytes result" where
  "oh_serialize C extensions_present prev vi kvp_delta o' =
    (let push = push_as C vi;
         delta = (case prev of None \<Rightarrow> oh_object_id o' | Some p \<Rightarrow> oh_object_id o' - p - 1) in
     in_buffer C (BUF_SIZE + length (oh_payload o')) (wseq
       [push delta,
        if extensions_present \<and> oh_status o' = STATUS_NORMAL
          then extensions_encode C vi (map_option fst (oh_extensions o')) True kvp_delta
        else if extensions_present then extensions_encode C vi None True False
        else Inr [],
        if oh_status o' = STATUS_NORMAL \<and> oh_payload o' \<noteq> []
          then wseq [push (int (length (oh_payload o'))), push_bytes (oh_payload o')]
        else wseq [push 0, push (oh_status o')]]))"

text \<open>
  What the fused parser of \<^verbatim>\<open>StreamChain\<close> does with an object: its fields and the chain behind it, or
  one of the exceptions the code maps (an overflow, with or without \<^verbatim>\<open>exceeds its block\<close> in its text; a
  runtime error; an underflow with the bytes it needs; any other).
\<close>

datatype fused_result =
    FusedOk int "kvps option" int bytes rbuf
  | FusedOverflow bool
  | FusedRuntime
  | FusedUnderflow int int
  | FusedOther py_error

type_synonym fused_parser = "bool \<Rightarrow> int \<Rightarrow> bool \<Rightarrow> rbuf \<Rightarrow> fused_result"

definition fused_object :: "fused_parser \<Rightarrow> bool \<Rightarrow> bool \<Rightarrow> int \<Rightarrow> (int \<times> kvps option \<times> int \<times> bytes) reader" where
  "fused_object fused extensions_present kvp_delta max_payload b =
    (case fused extensions_present EXTENSIONS_LEN_LIMIT kvp_delta b of
       FusedOk delta exts status payload b' \<Rightarrow>
         if max_payload \<noteq> 0 \<and> max_payload < int (length payload)
         then Inl (MOQTObjectTooLarge (int (length payload)) max_payload)
         else Inr ((delta, exts, status, payload), b')
     | FusedOverflow in_block \<Rightarrow> Inl (if in_block then MOQTMalformedKVP else MOQTProtocolViolation)
     | FusedRuntime \<Rightarrow> Inl MOQTMalformedKVP
     | FusedUnderflow needed pos \<Rightarrow>
         (case check_payload_len (needed - pos) max_payload of Inl e \<Rightarrow> Inl e | Inr _ \<Rightarrow> Inl MOQTUnderflow)
     | FusedOther e \<Rightarrow> Inl e)"

definition slow_object ::
    "vcodec \<Rightarrow> bool \<Rightarrow> int \<Rightarrow> bool \<Rightarrow> bool \<Rightarrow> bool \<Rightarrow> int \<Rightarrow> (int \<times> kvps option \<times> int \<times> bytes) reader" where
  "slow_object C tol buf_len extensions_present vi kvp_delta max_payload =
    (let pull = pull_as C vi in
     rbind pull (\<lambda>delta.
     rbind (if extensions_present then extensions_decode C tol True None kvp_delta True else rret None) (\<lambda>exts.
     rbind pull (\<lambda>payload_len.
     rbind (rlift (check_payload_len payload_len max_payload)) (\<lambda>_.
     rbind rtell (\<lambda>p.
     if payload_len = 0 then rbind pull (\<lambda>status. rret (delta, exts, status, []))
     else if buf_len - int p < payload_len then rfail MOQTUnderflow
     else rbind (rcatch (\<lambda>e. e = BufferReadError) (pull_bytes payload_len) (\<lambda>_. rfail MOQTUnderflow)) (\<lambda>payload.
       rret (delta, exts, 0, payload))))))))"

definition oh_deserialize_into ::
    "vcodec \<Rightarrow> bool \<Rightarrow> fused_parser option \<Rightarrow> int \<Rightarrow> bool \<Rightarrow> int option \<Rightarrow> bool \<Rightarrow> bool \<Rightarrow> int \<Rightarrow> ObjectHeader reader" where
  "oh_deserialize_into C tol fused buf_len extensions_present prev vi kvp_delta max_payload =
    rbind (case fused of
        Some fp \<Rightarrow> rcatch (\<lambda>e. e = AttributeError) (fused_object fp extensions_present kvp_delta max_payload)
          (\<lambda>_. slow_object C tol buf_len extensions_present vi kvp_delta max_payload)
      | None \<Rightarrow> slow_object C tol buf_len extensions_present vi kvp_delta max_payload) (\<lambda>(delta, exts, status, payload).
    rbind (rlift (object_status status)) (\<lambda>st.
    rret \<lparr>oh_object_id = (case prev of None \<Rightarrow> delta | Some p \<Rightarrow> p + delta + 1), oh_extensions = exts,
          oh_status = st, oh_payload = payload\<rparr>))"

text \<open>The sender's stream state: Object IDs count up unless given, the first one may name the subgroup.\<close>

definition sh_next_object_id :: "SubgroupHeader \<Rightarrow> int" where
  "sh_next_object_id h = (case sh_last_object_id h of None \<Rightarrow> 0 | Some l \<Rightarrow> l + 1)"

definition sh_advance :: "SubgroupHeader \<Rightarrow> int \<Rightarrow> SubgroupHeader" where
  "sh_advance h object_id =
    h\<lparr>sh_last_object_id := Some object_id,
      sh_subgroup_id := (if sh_subgroup_id_mode h = SUBGROUP_ID_FIRST_OBJ \<and> sh_subgroup_id h = None
                         then Some object_id else sh_subgroup_id h)\<rparr>"

definition sh_next_object ::
    "vcodec \<Rightarrow> SubgroupHeader \<Rightarrow> bytes \<Rightarrow> kvps option \<Rightarrow> int \<Rightarrow> int option \<Rightarrow> (bytes \<times> SubgroupHeader) result" where
  "sh_next_object C h payload extensions status object_id =
    (let obj_id = (case object_id of Some i \<Rightarrow> i | None \<Rightarrow> sh_next_object_id h);
         o' = \<lparr>oh_object_id = obj_id, oh_extensions = extensions, oh_status = status, oh_payload = payload\<rparr> in
     bindR (oh_serialize C (sh_extensions_present h) (sh_last_object_id h) (sh_vi64 h) (sh_kvp_delta h) o') (\<lambda>bs.
     Inr (bs, sh_advance h obj_id)))"

definition sh_end_group :: "vcodec \<Rightarrow> SubgroupHeader \<Rightarrow> kvps option \<Rightarrow> int option \<Rightarrow> (bytes \<times> SubgroupHeader) result" where
  "sh_end_group C h extensions object_id = sh_next_object C h [] extensions STATUS_END_OF_GROUP object_id"

definition sh_encoding_state :: "SubgroupHeader \<Rightarrow> bool \<times> bool \<times> bool \<times> int option" where
  "sh_encoding_state h = (sh_vi64 h, sh_kvp_delta h, sh_extensions_present h, sh_last_object_id h)"

text \<open>The fast path; \<open>encode\<close> is the C encoder of the stream's integer flavour.\<close>

definition sh_next_object_bytes ::
    "(bool \<Rightarrow> int \<Rightarrow> kvps option \<Rightarrow> int \<Rightarrow> bytes \<Rightarrow> bool \<Rightarrow> bool \<Rightarrow> bytes result) \<Rightarrow>
     SubgroupHeader \<Rightarrow> bytes \<Rightarrow> kvps option \<Rightarrow> int \<Rightarrow> int option \<Rightarrow> (bytes \<times> SubgroupHeader) result" where
  "sh_next_object_bytes encode h payload extensions status object_id =
    (let obj_id = (case object_id of Some i \<Rightarrow> i | None \<Rightarrow> sh_next_object_id h);
         delta = (case sh_last_object_id h of None \<Rightarrow> obj_id | Some l \<Rightarrow> obj_id - l - 1) in
     bindR (encode (sh_vi64 h) delta extensions status payload (sh_extensions_present h) (sh_kvp_delta h)) (\<lambda>bs.
     Inr (bs, sh_advance h obj_id)))"

text \<open>The receiver's side of a subgroup stream: one object, and the header state behind it.\<close>

definition recv_object ::
    "vcodec \<Rightarrow> bool \<Rightarrow> fused_parser option \<Rightarrow> int \<Rightarrow> int \<Rightarrow> SubgroupHeader \<Rightarrow> (ObjectHeader \<times> SubgroupHeader) reader" where
  "recv_object C tol fused buf_len max_payload h =
    rbind (oh_deserialize_into C tol fused buf_len (sh_extensions_present h) (sh_last_object_id h) (sh_vi64 h)
        (sh_kvp_delta h) max_payload) (\<lambda>o'. rret (o', sh_advance h (oh_object_id o')))"

section \<open>Fetch streams\<close>

definition FETCH_HEADER :: int where "FETCH_HEADER = 0x05"

definition fh_serialize :: "vcodec \<Rightarrow> DraftProfile option \<Rightarrow> int \<Rightarrow> bytes result" where
  "fh_serialize C prof request_id =
    (let f = (case prof of None \<Rightarrow> False | Some p \<Rightarrow> vi64 p) in
     in_buffer C BUF_SIZE (wseq [push_vint C f FETCH_HEADER, push_vint C f request_id]))"

definition fh_deserialize :: "vcodec \<Rightarrow> int reader" where
  "fh_deserialize C = pull_vint C"

definition FETCH_FLAG_SUBGROUP_MASK :: int where "FETCH_FLAG_SUBGROUP_MASK = 0x03"
definition FETCH_FLAG_SG_ZERO :: int where "FETCH_FLAG_SG_ZERO = 0x00"
definition FETCH_FLAG_SG_PRIOR :: int where "FETCH_FLAG_SG_PRIOR = 0x01"
definition FETCH_FLAG_SG_PRIOR_PLUS :: int where "FETCH_FLAG_SG_PRIOR_PLUS = 0x02"
definition FETCH_FLAG_SG_PRESENT :: int where "FETCH_FLAG_SG_PRESENT = 0x03"
definition FETCH_FLAG_OBJECT_ID_PRESENT :: int where "FETCH_FLAG_OBJECT_ID_PRESENT = 0x04"
definition FETCH_FLAG_GROUP_ID_PRESENT :: int where "FETCH_FLAG_GROUP_ID_PRESENT = 0x08"
definition FETCH_FLAG_PRIORITY_PRESENT :: int where "FETCH_FLAG_PRIORITY_PRESENT = 0x10"
definition FETCH_FLAG_EXTENSIONS_PRESENT :: int where "FETCH_FLAG_EXTENSIONS_PRESENT = 0x20"
definition FETCH_FLAG_DATAGRAM :: int where "FETCH_FLAG_DATAGRAM = 0x40"
definition FETCH_FLAGS_END_NON_EXISTENT :: int where "FETCH_FLAGS_END_NON_EXISTENT = 0x8C"
definition FETCH_FLAGS_END_UNKNOWN :: int where "FETCH_FLAGS_END_UNKNOWN = 0x10C"
definition FETCH_FLAGS_END_TIMED_OUT :: int where "FETCH_FLAGS_END_TIMED_OUT = 0x20C"

lemmas fetch_flag_defs = FETCH_FLAG_SUBGROUP_MASK_def FETCH_FLAG_SG_ZERO_def FETCH_FLAG_SG_PRIOR_def
  FETCH_FLAG_SG_PRIOR_PLUS_def FETCH_FLAG_SG_PRESENT_def FETCH_FLAG_OBJECT_ID_PRESENT_def
  FETCH_FLAG_GROUP_ID_PRESENT_def FETCH_FLAG_PRIORITY_PRESENT_def FETCH_FLAG_EXTENSIONS_PRESENT_def
  FETCH_FLAG_DATAGRAM_def FETCH_FLAGS_END_NON_EXISTENT_def FETCH_FLAGS_END_UNKNOWN_def FETCH_FLAGS_END_TIMED_OUT_def

definition end_of_range_flags :: "DraftProfile \<Rightarrow> int list" where
  "end_of_range_flags prof =
    (if fetch_timed_out_range prof
     then [FETCH_FLAGS_END_NON_EXISTENT, FETCH_FLAGS_END_UNKNOWN, FETCH_FLAGS_END_TIMED_OUT]
     else [FETCH_FLAGS_END_NON_EXISTENT, FETCH_FLAGS_END_UNKNOWN])"

record FetchObject =
  fo_group_id :: int
  fo_subgroup_id :: int
  fo_object_id :: int
  fo_publisher_priority :: int
  fo_extensions :: "kvps option"
  fo_status :: int
  fo_payload :: bytes
  fo_end_of_range :: "int option"
  fo_datagram :: bool

definition fo_has_props :: "FetchObject \<Rightarrow> bool" where
  "fo_has_props o' = (case fo_extensions o' of None \<Rightarrow> False | Some x \<Rightarrow> fst x \<noteq> [])"

text \<open>The group, object and priority part of the flags, with the fields they announce.\<close>

definition fo_ids_d18 :: "FetchObject \<Rightarrow> FetchObject option \<Rightarrow> int \<Rightarrow> (int \<times> int option \<times> int option) result" where
  "fo_ids_d18 o' prior group_order =
    (case prior of
       None \<Rightarrow>
         Inr (FETCH_FLAG_GROUP_ID_PRESENT OR FETCH_FLAG_OBJECT_ID_PRESENT OR FETCH_FLAG_PRIORITY_PRESENT,
              Some (fo_group_id o'), Some (fo_object_id o'))
     | Some p \<Rightarrow>
         bindR (if fo_group_id o' \<noteq> fo_group_id p then
                  (let delta = (if group_order = 2 then fo_group_id p - fo_group_id o' - 1
                                else fo_group_id o' - fo_group_id p - 1) in
                   if delta < 0 then Inl ValueError
                   else Inr (FETCH_FLAG_GROUP_ID_PRESENT OR FETCH_FLAG_OBJECT_ID_PRESENT, Some delta, Some (fo_object_id o')))
                else if fo_object_id o' \<noteq> fo_object_id p + 1 then
                  (let delta = fo_object_id o' - fo_object_id p in
                   if delta < 0 then Inl ValueError else Inr (FETCH_FLAG_OBJECT_ID_PRESENT, None, Some delta))
                else Inr (0, None, None)) (\<lambda>(flags, g, ob).
         Inr (if fo_publisher_priority o' \<noteq> fo_publisher_priority p then flags OR FETCH_FLAG_PRIORITY_PRESENT else flags, g, ob)))"

definition fo_subgroup_d18 :: "FetchObject \<Rightarrow> FetchObject option \<Rightarrow> int \<times> int option" where
  "fo_subgroup_d18 o' prior =
    (let prior_sg = (case prior of None \<Rightarrow> None | Some p \<Rightarrow> Some (if fo_datagram p then 0 else fo_subgroup_id p)) in
     if fo_datagram o' then (FETCH_FLAG_DATAGRAM, None)
     else if fo_subgroup_id o' = 0 then (0, None)
     else if prior_sg = Some (fo_subgroup_id o') then (FETCH_FLAG_SG_PRIOR, None)
     else if (case prior_sg of None \<Rightarrow> False | Some s \<Rightarrow> fo_subgroup_id o' = s + 1) then (FETCH_FLAG_SG_PRIOR_PLUS, None)
     else (FETCH_FLAG_SG_PRESENT, Some (fo_subgroup_id o')))"

definition push_opt :: "(int \<Rightarrow> bytes result) \<Rightarrow> int option \<Rightarrow> bytes result" where
  "push_opt push x = (case x of None \<Rightarrow> Inr [] | Some v \<Rightarrow> push v)"

definition fo_serialize_d18 :: "vcodec \<Rightarrow> FetchObject option \<Rightarrow> int \<Rightarrow> DraftProfile \<Rightarrow> FetchObject \<Rightarrow> bytes result" where
  "fo_serialize_d18 C prior group_order prof o' =
    (let push = push_vint C True in
     in_buffer C (BUF_SIZE + length (fo_payload o'))
     (case fo_end_of_range o' of
        Some e \<Rightarrow>
          bindR (guardR (e \<in> set (end_of_range_flags prof)) ValueError) (\<lambda>_.
          wseq [push e, push (fo_group_id o'), push (fo_object_id o')])
      | None \<Rightarrow>
          bindR (fo_ids_d18 o' prior group_order) (\<lambda>(flags1, group_field, object_field).
          case fo_subgroup_d18 o' prior of (flags2, subgroup_field) \<Rightarrow>
          bindR (guardR (fo_status o' = STATUS_NORMAL \<or>
                   fetch_object_status prof \<and> fo_payload o' = [] \<and> \<not> fo_has_props o') ValueError) (\<lambda>_.
          let flags = (if fo_has_props o' then flags1 OR flags2 OR FETCH_FLAG_EXTENSIONS_PRESENT else flags1 OR flags2) in
          wseq [push flags, push_opt push group_field, push_opt push subgroup_field, push_opt push object_field,
                if bit_set flags FETCH_FLAG_PRIORITY_PRESENT then push_uint8 C (fo_publisher_priority o') else Inr [],
                if fo_has_props o' then extensions_encode C True (map_option fst (fo_extensions o')) True True else Inr [],
                if fo_payload o' \<noteq> [] then wseq [push (int (length (fo_payload o'))), push_bytes (fo_payload o')]
                else wseq [push 0, if fetch_object_status prof then push (fo_status o') else Inr []]]))))"

definition fo_serialize_d14 :: "vcodec \<Rightarrow> FetchObject \<Rightarrow> bytes result" where
  "fo_serialize_d14 C o' =
    (let push = push_uint_var C in
     in_buffer C (BUF_SIZE + length (fo_payload o')) (wseq
       [push (fo_group_id o'), push (fo_subgroup_id o'), push (fo_object_id o'), push_uint8 C (fo_publisher_priority o'),
        extensions_encode C False (map_option fst (fo_extensions o')) True False,
        if fo_status o' = STATUS_NORMAL \<and> fo_payload o' \<noteq> []
          then wseq [push (int (length (fo_payload o'))), push_bytes (fo_payload o')]
        else wseq [push 0, push (fo_status o')]]))"

definition fo_serialize_d16 :: "vcodec \<Rightarrow> FetchObject \<Rightarrow> bytes result" where
  "fo_serialize_d16 C o' =
    (let push = push_uint_var C in
     in_buffer C (BUF_SIZE + length (fo_payload o'))
     (case fo_end_of_range o' of
        Some e \<Rightarrow> wseq [push e, push (fo_group_id o'), push (fo_object_id o')]
      | None \<Rightarrow>
          bindR (guardR (fo_status o' = STATUS_NORMAL) ValueError) (\<lambda>_.
          let flags0 = FETCH_FLAG_OBJECT_ID_PRESENT OR FETCH_FLAG_GROUP_ID_PRESENT OR FETCH_FLAG_PRIORITY_PRESENT
                OR (if fo_datagram o' then FETCH_FLAG_DATAGRAM else FETCH_FLAG_SG_PRESENT);
              flags = (if fo_has_props o' then flags0 OR FETCH_FLAG_EXTENSIONS_PRESENT else flags0) in
          wseq [push flags, push (fo_group_id o'), if fo_datagram o' then Inr [] else push (fo_subgroup_id o'),
                push (fo_object_id o'), push_uint8 C (fo_publisher_priority o'),
                if bit_set flags FETCH_FLAG_EXTENSIONS_PRESENT
                  then extensions_encode C False (map_option fst (fo_extensions o')) True True else Inr [],
                push (int (length (fo_payload o'))), push_bytes (fo_payload o')])))"

definition fo_serialize :: "vcodec \<Rightarrow> DraftProfile \<Rightarrow> FetchObject option \<Rightarrow> int \<Rightarrow> FetchObject \<Rightarrow> bytes result" where
  "fo_serialize C prof prior group_order o' =
    (if vi64 prof then fo_serialize_d18 C prior group_order prof o'
     else if is_draft16_or_later (draft prof) then fo_serialize_d16 C o'
     else fo_serialize_d14 C o')"

definition fo_marker :: "int \<Rightarrow> int \<Rightarrow> int \<Rightarrow> int \<Rightarrow> int \<Rightarrow> FetchObject" where
  "fo_marker g ob e sg pr = \<lparr>fo_group_id = g, fo_subgroup_id = sg, fo_object_id = ob, fo_publisher_priority = pr,
     fo_extensions = None, fo_status = STATUS_NORMAL, fo_payload = [], fo_end_of_range = Some e, fo_datagram = False\<rparr>"

definition fo_group_d18 :: "vcodec \<Rightarrow> int \<Rightarrow> FetchObject option \<Rightarrow> int \<Rightarrow> int reader" where
  "fo_group_d18 C flags prior group_order =
    (if bit_set flags FETCH_FLAG_GROUP_ID_PRESENT then
       rbind (pull_vint C) (\<lambda>gd.
       case prior of
         None \<Rightarrow> rret gd
       | Some p \<Rightarrow>
           if group_order = 2 then
             rbind (rguard (0 \<le> fo_group_id p - gd - 1) MOQTProtocolViolation) (\<lambda>_. rret (fo_group_id p - gd - 1))
           else
             rbind (rguard (fo_group_id p + gd + 1 \<le> U64_MAX) MOQTProtocolViolation) (\<lambda>_. rret (fo_group_id p + gd + 1)))
     else (case prior of None \<Rightarrow> rfail AttributeError | Some p \<Rightarrow> rret (fo_group_id p)))"

definition fo_pull_subgroup_d18 :: "vcodec \<Rightarrow> int \<Rightarrow> FetchObject option \<Rightarrow> int reader" where
  "fo_pull_subgroup_d18 C flags prior =
    (let sg_mode = flags AND FETCH_FLAG_SUBGROUP_MASK;
         of_prior = (\<lambda>k. case prior of
             None \<Rightarrow> rfail MOQTProtocolViolation
           | Some p \<Rightarrow> if fo_subgroup_id p < 0 then rfail MOQTProtocolViolation else rret (fo_subgroup_id p + k)) in
     if bit_set flags FETCH_FLAG_DATAGRAM then rret 0
     else if sg_mode = FETCH_FLAG_SG_ZERO then rret 0
     else if sg_mode = FETCH_FLAG_SG_PRIOR then of_prior 0
     else if sg_mode = FETCH_FLAG_SG_PRIOR_PLUS then of_prior 1
     else pull_vint C)"

definition fo_object_d18 :: "vcodec \<Rightarrow> int \<Rightarrow> FetchObject option \<Rightarrow> int reader" where
  "fo_object_d18 C flags prior =
    rbind (if bit_set flags FETCH_FLAG_OBJECT_ID_PRESENT then
             rbind (pull_vint C) (\<lambda>od.
             rret (case prior of
                 None \<Rightarrow> od
               | Some p \<Rightarrow> if bit_set flags FETCH_FLAG_GROUP_ID_PRESENT then od else fo_object_id p + od))
           else (case prior of None \<Rightarrow> rfail AttributeError | Some p \<Rightarrow> rret (fo_object_id p + 1))) (\<lambda>object_id.
    rbind (rguard (object_id \<le> U64_MAX) MOQTProtocolViolation) (\<lambda>_. rret object_id))"

definition fo_priority_d18 :: "vcodec \<Rightarrow> int \<Rightarrow> FetchObject option \<Rightarrow> int reader" where
  "fo_priority_d18 C flags prior =
    (if bit_set flags FETCH_FLAG_PRIORITY_PRESENT then pull_uint8 C
     else (case prior of
         None \<Rightarrow> rfail MOQTProtocolViolation
       | Some p \<Rightarrow> if 0 \<le> fo_publisher_priority p then rret (fo_publisher_priority p) else rfail MOQTProtocolViolation))"

definition fo_payload_d18 :: "vcodec \<Rightarrow> DraftProfile \<Rightarrow> int \<Rightarrow> kvps option \<Rightarrow> (int \<times> bytes) reader" where
  "fo_payload_d18 C prof max_payload exts =
    rbind (pull_vint C) (\<lambda>n.
    rbind (rlift (check_payload_len n max_payload)) (\<lambda>_.
    if n = 0 then
      rbind (if fetch_object_status prof then rbind (pull_vint C) (\<lambda>s. rlift (object_status s)) else rret STATUS_NORMAL) (\<lambda>status.
      rbind (rguard (\<not> (exts \<noteq> None \<and> status \<noteq> STATUS_NORMAL)) MOQTProtocolViolation) (\<lambda>_. rret (status, [])))
    else rbind (pull_bytes n) (\<lambda>payload. rret (STATUS_NORMAL, payload))))"

definition fo_deserialize_d18 ::
    "vcodec \<Rightarrow> bool \<Rightarrow> FetchObject option \<Rightarrow> int \<Rightarrow> DraftProfile \<Rightarrow> int \<Rightarrow> FetchObject reader" where
  "fo_deserialize_d18 C tol prior group_order prof max_payload =
    rbind (pull_vint C) (\<lambda>flags.
    if flags \<in> set (end_of_range_flags prof) then
      rbind (pull_vint C) (\<lambda>g. rbind (pull_vint C) (\<lambda>ob.
      rret (fo_marker g ob flags (case prior of None \<Rightarrow> -1 | Some p \<Rightarrow> fo_subgroup_id p)
              (case prior of None \<Rightarrow> -1 | Some p \<Rightarrow> fo_publisher_priority p))))
    else
      rbind (rguard (flags < 0x80) MOQTProtocolViolation) (\<lambda>_.
      rbind (rguard (prior \<noteq> None \<or> (bit_set flags FETCH_FLAG_GROUP_ID_PRESENT \<and> bit_set flags FETCH_FLAG_OBJECT_ID_PRESENT))
               MOQTProtocolViolation) (\<lambda>_.
      rbind (fo_group_d18 C flags prior group_order) (\<lambda>group_id.
      rbind (fo_pull_subgroup_d18 C flags prior) (\<lambda>subgroup_id.
      rbind (fo_object_d18 C flags prior) (\<lambda>object_id.
      rbind (fo_priority_d18 C flags prior) (\<lambda>priority.
      rbind (if bit_set flags FETCH_FLAG_EXTENSIONS_PRESENT
             then extensions_decode C tol True None True True else rret None) (\<lambda>exts.
      rbind (fo_payload_d18 C prof max_payload exts) (\<lambda>(status, payload).
      rret \<lparr>fo_group_id = group_id, fo_subgroup_id = subgroup_id, fo_object_id = object_id,
            fo_publisher_priority = priority, fo_extensions = exts, fo_status = status, fo_payload = payload,
            fo_end_of_range = None, fo_datagram = bit_set flags FETCH_FLAG_DATAGRAM\<rparr>)))))))))"

definition fo_deserialize_d14 :: "vcodec \<Rightarrow> bool \<Rightarrow> int \<Rightarrow> FetchObject reader" where
  "fo_deserialize_d14 C tol max_payload =
    (let pull = pull_uint_var C in
     rbind pull (\<lambda>g. rbind pull (\<lambda>sg. rbind pull (\<lambda>ob. rbind (pull_uint8 C) (\<lambda>pr.
     rbind (extensions_decode C tol True None False True) (\<lambda>exts.
     rbind pull (\<lambda>n.
     rbind (rlift (check_payload_len n max_payload)) (\<lambda>_.
     rbind (if n = 0 then rbind pull (\<lambda>s. rbind (rlift (object_status s)) (\<lambda>st. rret (st, [])))
            else rbind (pull_bytes n) (\<lambda>p. rret (STATUS_NORMAL, p))) (\<lambda>(status, payload).
     rret \<lparr>fo_group_id = g, fo_subgroup_id = sg, fo_object_id = ob, fo_publisher_priority = pr, fo_extensions = exts,
           fo_status = status, fo_payload = payload, fo_end_of_range = None, fo_datagram = False\<rparr>)))))))))"

definition fo_pull_subgroup_d16 :: "vcodec \<Rightarrow> int \<Rightarrow> FetchObject option \<Rightarrow> int reader" where
  "fo_pull_subgroup_d16 C flags prior =
    (let sg_mode = flags AND FETCH_FLAG_SUBGROUP_MASK in
     if bit_set flags FETCH_FLAG_DATAGRAM then rret 0
     else if sg_mode = FETCH_FLAG_SG_ZERO then rret 0
     else if sg_mode = FETCH_FLAG_SG_PRIOR then rret (case prior of None \<Rightarrow> 0 | Some p \<Rightarrow> fo_subgroup_id p)
     else if sg_mode = FETCH_FLAG_SG_PRIOR_PLUS then rret (case prior of None \<Rightarrow> 1 | Some p \<Rightarrow> fo_subgroup_id p + 1)
     else pull_uint_var C)"

definition fo_deserialize_d16 :: "vcodec \<Rightarrow> bool \<Rightarrow> FetchObject option \<Rightarrow> int \<Rightarrow> FetchObject reader" where
  "fo_deserialize_d16 C tol prior max_payload =
    (let pull = pull_uint_var C in
     rbind pull (\<lambda>flags.
     if flags = FETCH_FLAGS_END_NON_EXISTENT \<or> flags = FETCH_FLAGS_END_UNKNOWN then
       rbind pull (\<lambda>g. rbind pull (\<lambda>ob. rret (fo_marker g ob flags 0 MOQT_DEFAULT_PRIORITY)))
     else
       rbind (rguard (flags < 0x80) MOQTProtocolViolation) (\<lambda>_.
       rbind (rguard (prior \<noteq> None \<or> (bit_set flags FETCH_FLAG_OBJECT_ID_PRESENT \<and> bit_set flags FETCH_FLAG_GROUP_ID_PRESENT))
                MOQTProtocolViolation) (\<lambda>_.
       rbind (if bit_set flags FETCH_FLAG_GROUP_ID_PRESENT then pull
              else (case prior of None \<Rightarrow> rfail AttributeError | Some p \<Rightarrow> rret (fo_group_id p))) (\<lambda>g.
       rbind (fo_pull_subgroup_d16 C flags prior) (\<lambda>sg.
       rbind (if bit_set flags FETCH_FLAG_OBJECT_ID_PRESENT then pull
              else (case prior of None \<Rightarrow> rfail AttributeError | Some p \<Rightarrow> rret (fo_object_id p + 1))) (\<lambda>ob.
       rbind (if bit_set flags FETCH_FLAG_PRIORITY_PRESENT then pull_uint8 C
              else rret (case prior of None \<Rightarrow> MOQT_DEFAULT_PRIORITY | Some p \<Rightarrow> fo_publisher_priority p)) (\<lambda>pr.
       rbind (if bit_set flags FETCH_FLAG_EXTENSIONS_PRESENT
              then extensions_decode C tol True None True True else rret None) (\<lambda>exts.
       rbind pull (\<lambda>n.
       rbind (rlift (check_payload_len n max_payload)) (\<lambda>_.
       rbind (if n \<noteq> 0 then pull_bytes n else rret []) (\<lambda>payload.
       rret \<lparr>fo_group_id = g, fo_subgroup_id = sg, fo_object_id = ob, fo_publisher_priority = pr, fo_extensions = exts,
             fo_status = STATUS_NORMAL, fo_payload = payload, fo_end_of_range = None,
             fo_datagram = bit_set flags FETCH_FLAG_DATAGRAM\<rparr>))))))))))))"

definition fo_deserialize ::
    "vcodec \<Rightarrow> bool \<Rightarrow> FetchObject option \<Rightarrow> DraftProfile \<Rightarrow> int \<Rightarrow> int \<Rightarrow> FetchObject reader" where
  "fo_deserialize C tol prior prof group_order max_payload =
    (if vi64 prof then fo_deserialize_d18 C tol prior group_order prof max_payload
     else if is_draft16_or_later (draft prof) then fo_deserialize_d16 C tol prior max_payload
     else fo_deserialize_d14 C tol max_payload)"

text \<open>
  The two ends of a fetch stream (\<^verbatim>\<open>serve_fetch\<close> and the FetchHeader branch of the data stream parser): how the
  prior object of the next one is chosen behind an object and behind an End-of-Range marker.
\<close>

definition serve_prior :: "FetchObject option \<Rightarrow> FetchObject \<Rightarrow> FetchObject" where
  "serve_prior prior o' =
    (if fo_end_of_range o' = None then o'
     else \<lparr>fo_group_id = fo_group_id o',
           fo_subgroup_id = (case prior of None \<Rightarrow> -1 | Some p \<Rightarrow> fo_subgroup_id p),
           fo_object_id = fo_object_id o',
           fo_publisher_priority = (case prior of None \<Rightarrow> -1 | Some p \<Rightarrow> fo_publisher_priority p),
           fo_extensions = None, fo_status = STATUS_NORMAL, fo_payload = [], fo_end_of_range = None, fo_datagram = False\<rparr>)"

definition serve_skips :: "DraftProfile \<Rightarrow> FetchObject \<Rightarrow> bool" where
  "serve_skips prof o' \<longleftrightarrow> \<not> fetch_object_status prof \<and> fo_end_of_range o' = None \<and> fo_status o' \<noteq> STATUS_NORMAL"

fun serve_objects :: "vcodec \<Rightarrow> DraftProfile \<Rightarrow> int \<Rightarrow> FetchObject option \<Rightarrow> FetchObject list \<Rightarrow> bytes result" where
  "serve_objects C prof group_order prior [] = Inr []"
| "serve_objects C prof group_order prior (o' # os) =
    (if serve_skips prof o' then serve_objects C prof group_order prior os
     else wseq [fo_serialize C prof prior group_order o',
                serve_objects C prof group_order (Some (serve_prior prior o')) os])"

definition recv_fetch_object ::
    "vcodec \<Rightarrow> bool \<Rightarrow> DraftProfile \<Rightarrow> int \<Rightarrow> int \<Rightarrow> FetchObject option \<Rightarrow> FetchObject reader" where
  "recv_fetch_object C tol prof group_order max_payload prior =
    rbind (fo_deserialize C tol prior prof group_order max_payload) (\<lambda>o'.
    rret (case (fo_end_of_range o', prior) of
        (Some _, Some p) \<Rightarrow> o'\<lparr>fo_subgroup_id := fo_subgroup_id p, fo_publisher_priority := fo_publisher_priority p\<rparr>
      | _ \<Rightarrow> o'))"

text \<open>The next \<open>n\<close> objects of a fetch stream.\<close>

fun recv_fetch ::
    "vcodec \<Rightarrow> bool \<Rightarrow> DraftProfile \<Rightarrow> int \<Rightarrow> int \<Rightarrow> nat \<Rightarrow> FetchObject option \<Rightarrow> FetchObject list reader" where
  "recv_fetch C tol prof group_order max_payload 0 prior = rret []"
| "recv_fetch C tol prof group_order max_payload (Suc n) prior =
    rbind (recv_fetch_object C tol prof group_order max_payload prior) (\<lambda>o'.
    rbind (recv_fetch C tol prof group_order max_payload n (Some o')) (\<lambda>os. rret (o' # os)))"

section \<open>Datagrams\<close>

record ObjectDatagram =
  od_track_alias :: int
  od_group_id :: int
  od_object_id :: int
  od_publisher_priority :: int
  od_extensions :: "kvps option"
  od_payload :: bytes
  od_end_of_group :: bool
  od_status :: int

definition has_exts :: "kvps option \<Rightarrow> bool" where
  "has_exts e = (case e of None \<Rightarrow> False | Some x \<Rightarrow> fst x \<noteq> [])"

definition opt_vi64 :: "DraftProfile option \<Rightarrow> bool" where
  "opt_vi64 prof = (case prof of None \<Rightarrow> False | Some p \<Rightarrow> vi64 p)"

definition opt_merged :: "DraftProfile option \<Rightarrow> bool" where
  "opt_merged prof = (case prof of None \<Rightarrow> False | Some p \<Rightarrow> merged_datagram_layout p)"

definition opt_delta :: "DraftProfile option \<Rightarrow> bool" where
  "opt_delta prof = (case prof of None \<Rightarrow> False | Some p \<Rightarrow> params_delta_coded p)"

definition od_is_status :: "DraftProfile option \<Rightarrow> ObjectDatagram \<Rightarrow> bool" where
  "od_is_status prof d \<longleftrightarrow> opt_merged prof \<and> od_status d \<noteq> STATUS_NORMAL"

definition od_type :: "DraftProfile option \<Rightarrow> ObjectDatagram \<Rightarrow> int" where
  "od_type prof d =
    (if opt_merged prof then
       (let t0 = OBJECT_DATAGRAM_BASE;
            t1 = (if has_exts (od_extensions d) then t0 OR 0x01 else t0);
            t2 = (if od_end_of_group d \<and> \<not> od_is_status prof d then t1 OR 0x02 else t1);
            t3 = (if od_object_id d = 0 then t2 OR 0x04 else t2)
        in if od_is_status prof d then t3 OR 0x20 else t3)
     else
       (let t0 = OBJECT_DATAGRAM_BASE;
            t1 = (if has_exts (od_extensions d) then t0 OR 0x01 else t0);
            t2 = (if od_end_of_group d then t1 OR 0x02 else t1)
        in if od_object_id d = 0 then t2 OR 0x04 else t2))"

definition od_serialize :: "vcodec \<Rightarrow> DraftProfile option \<Rightarrow> ObjectDatagram \<Rightarrow> bytes result" where
  "od_serialize C prof d =
    (let push = push_as C (opt_vi64 prof) in
     in_buffer C (BUF_SIZE + length (od_payload d)) (wseq
       [push (od_type prof d), push (od_track_alias d), push (od_group_id d),
        if od_object_id d = 0 then Inr [] else push (od_object_id d),
        push_uint8 C (od_publisher_priority d),
        if has_exts (od_extensions d)
          then extensions_encode C (opt_vi64 prof) (map_option fst (od_extensions d)) True (opt_delta prof) else Inr [],
        if od_is_status prof d then push (od_status d) else push_bytes (od_payload d)]))"

definition od_deserialize :: "vcodec \<Rightarrow> bool \<Rightarrow> int \<Rightarrow> int \<Rightarrow> DraftProfile option \<Rightarrow> ObjectDatagram reader" where
  "od_deserialize C tol buf_len type_val prof =
    (let pull = pull_as C (opt_vi64 prof);
         is_status = (opt_merged prof \<and> bit_set type_val 0x20);
         default_priority = (opt_merged prof \<and> bit_set type_val 0x08) in
     rbind pull (\<lambda>ta. rbind pull (\<lambda>g.
     rbind (if bit_set type_val 0x04 then rret 0 else pull) (\<lambda>ob.
     rbind (if default_priority then rret MOQT_DEFAULT_PRIORITY else pull_uint8 C) (\<lambda>pr.
     rbind (if bit_set type_val 0x01 then extensions_decode C tol True None (opt_delta prof) True else rret None) (\<lambda>exts.
     rbind (if is_status then rbind pull (\<lambda>s. rbind (rlift (object_status s)) (\<lambda>st. rret (st, [])))
            else rbind rtell (\<lambda>p. rbind (pull_bytes (buf_len - int p)) (\<lambda>payload. rret (STATUS_NORMAL, payload)))) (\<lambda>(status, payload).
     rret \<lparr>od_track_alias = ta, od_group_id = g, od_object_id = ob, od_publisher_priority = pr, od_extensions = exts,
           od_payload = payload, od_end_of_group = bit_set type_val 0x02, od_status = status\<rparr>)))))))"

text \<open>\<^verbatim>\<open>ObjectDatagramStatus\<close>, the draft 14 status datagram; its record reuses the datagram's fields without a payload.\<close>

definition ods_type :: "ObjectDatagram \<Rightarrow> int" where
  "ods_type d = (if has_exts (od_extensions d) then OBJECT_DATAGRAM_STATUS_BASE OR 0x01 else OBJECT_DATAGRAM_STATUS_BASE)"

definition ods_serialize :: "vcodec \<Rightarrow> DraftProfile option \<Rightarrow> ObjectDatagram \<Rightarrow> bytes result" where
  "ods_serialize C prof d =
    (let push = push_uint_var C in
     in_buffer C BUF_SIZE (wseq
       [push (ods_type d), push (od_track_alias d), push (od_group_id d), push (od_object_id d),
        push_uint8 C (od_publisher_priority d),
        if has_exts (od_extensions d)
          then extensions_encode C False (map_option fst (od_extensions d)) True (opt_delta prof) else Inr [],
        push (od_status d)]))"

definition ods_deserialize :: "vcodec \<Rightarrow> bool \<Rightarrow> int \<Rightarrow> DraftProfile option \<Rightarrow> ObjectDatagram reader" where
  "ods_deserialize C tol type_val prof =
    (let pull = pull_uint_var C in
     rbind pull (\<lambda>ta. rbind pull (\<lambda>g. rbind pull (\<lambda>ob. rbind (pull_uint8 C) (\<lambda>pr.
     rbind (if bit_set type_val 0x01 then extensions_decode C tol True None (opt_delta prof) True else rret None) (\<lambda>exts.
     rbind pull (\<lambda>s. rbind (rlift (object_status s)) (\<lambda>st.
     rret \<lparr>od_track_alias = ta, od_group_id = g, od_object_id = ob, od_publisher_priority = pr, od_extensions = exts,
           od_payload = [], od_end_of_group = False, od_status = st\<rparr>))))))))"

section \<open>Subgroup stream round trip\<close>

context vcodec_laws
begin

lemma reads_as [rd]: "push_as C vi n = Inr bs \<Longrightarrow> reads f (pull_as C vi) bs n"
  by (auto simp: push_as_def pull_as_def intro: reads_uint_vi64 reads_uint_var split: if_splits)

lemma push_as_vint: "push_as C vi n = push_vint C vi n"
  by (simp add: push_as_def push_vint_def push_uint_vi64_def push_uint_var_def)

end

lemma sh_type_bits:
  assumes "sh_subgroup_id_mode h \<in> {0, 1, 2}"
  shows "bit_set (sh_compute_type h) 0x01 = sh_extensions_present h"
    "drop_bit 1 (sh_compute_type h) AND 0x03 = sh_subgroup_id_mode h"
    "bit_set (sh_compute_type h) 0x08 = sh_end_of_group h"
    "bit_set (sh_compute_type h) 0x20 = sh_default_priority h"
    "bit_set (sh_compute_type h) 0x40 = (sh_first_object h \<and> has_first_bit (sh_prof h))"
  using assms
  by (auto simp: bit_set_def sh_compute_type_def Let_def SUBGROUP_HEADER_BASE_def drop_bit_eq_div push_bit_eq_mult)

text \<open>The header as the receiver builds it.\<close>

definition sh_received :: "SubgroupHeader \<Rightarrow> SubgroupHeader" where
  "sh_received h = h\<lparr>
     sh_subgroup_id := (if sh_subgroup_id_mode h = SUBGROUP_ID_EXPLICIT then Some (attr (sh_subgroup_id h))
                        else if sh_subgroup_id_mode h = SUBGROUP_ID_ZERO then Some 0 else None),
     sh_publisher_priority := (if sh_default_priority h then MOQT_DEFAULT_PRIORITY else sh_publisher_priority h),
     sh_first_object := (sh_first_object h \<and> has_first_bit (sh_prof h)),
     sh_last_object_id := None\<rparr>"

context vcodec_laws
begin

lemma sh_roundtrip:
  assumes "sh_serialize C h = Inr bs" "sh_subgroup_id_mode h \<in> {0, 1, 2}"
  obtains t rest where "bs = t @ rest" "push_vint C (sh_vi64 h) (sh_compute_type h) = Inr t"
    "\<And>f. reads f (sh_deserialize C (sh_compute_type h) (sh_prof h)) rest (sh_received h)"
proof -
  let ?push = "push_as C (sh_vi64 h)" and ?pull = "pull_as C (sh_vi64 h)"
  obtain t a g s p where t: "?push (sh_compute_type h) = Inr t" and a: "?push (sh_track_alias h) = Inr a"
    and g: "?push (sh_group_id h) = Inr g"
    and s: "(if sh_subgroup_id_mode h = SUBGROUP_ID_EXPLICIT then ?push (attr (sh_subgroup_id h)) else Inr []) = Inr s"
    and p: "(if \<not> sh_default_priority h then push_uint8 C (sh_publisher_priority h) else Inr []) = Inr p"
    and bs: "bs = t @ a @ g @ s @ p"
    using assms(1) by (auto simp: sh_serialize_def Let_def wr)
  have vi: "(case sh_prof h of None \<Rightarrow> False | Some p \<Rightarrow> vi64 p) = sh_vi64 h" by (simp add: sh_vi64_def)
  have rs: "reads f (if sh_subgroup_id_mode h = SUBGROUP_ID_EXPLICIT then rbind ?pull (\<lambda>s. rret (Some s))
      else if sh_subgroup_id_mode h = SUBGROUP_ID_ZERO then rret (Some 0) else rret None) s (sh_subgroup_id (sh_received h))" for f
    using s by (auto simp: sh_received_def intro!: reads_bind_end [OF reads_as] reads_ret split: if_splits)
  have rp: "reads f (if sh_default_priority h then rret MOQT_DEFAULT_PRIORITY else pull_uint8 C) p (sh_publisher_priority (sh_received h))" for f
    using p by (auto simp: sh_received_def intro!: reads_uint8 reads_ret split: if_splits)
  have "reads f (sh_deserialize C (sh_compute_type h) (sh_prof h)) (a @ g @ s @ p) (sh_received h)" for f
    unfolding sh_deserialize_def Let_def vi sh_type_bits [OF assms(2)]
    apply (rule reads_bind [OF reads_as [OF a]], rule reads_bind [OF reads_as [OF g]], rule reads_bind [OF rs],
        rule reads_bind_end [OF rp])
    apply (simp add: reads_def rret_def sh_received_def)
    done
  then show thesis using that [of t "a @ g @ s @ p"] t by (simp add: bs push_as_vint)
qed

end

definition oh_ok :: "ObjectHeader \<Rightarrow> bool" where
  "oh_ok o' \<longleftrightarrow> oh_status o' \<in> set (enum_values ObjectStatus)
     \<and> (oh_status o' \<noteq> STATUS_NORMAL \<longrightarrow> oh_payload o' = [])
     \<and> exts_ok (map_option fst (oh_extensions o'))"

text \<open>The limits under which a block is accepted: the extension block's own, and the receiver's payload limit.\<close>

definition exts_fit :: "vcodec \<Rightarrow> bool \<Rightarrow> kvps option \<Rightarrow> bool \<Rightarrow> bool" where
  "exts_fit C f exts delta = (case extensions_encode C f (map_option fst exts) True delta of
     Inl _ \<Rightarrow> False | Inr bs \<Rightarrow> int (length bs) \<le> EXTENSIONS_LEN_LIMIT)"

definition payload_fits :: "bytes \<Rightarrow> int \<Rightarrow> bool" where
  "payload_fits payload limit \<longleftrightarrow> limit = 0 \<or> 0 < limit \<and> int (length payload) \<le> limit"

definition oh_received :: "bool \<Rightarrow> bool \<Rightarrow> ObjectHeader \<Rightarrow> ObjectHeader" where
  "oh_received extensions_present delta o' = o'\<lparr>oh_extensions :=
     (if extensions_present \<and> oh_status o' = STATUS_NORMAL then ext_received delta (map_option fst (oh_extensions o')) else None)\<rparr>"

lemma object_status_ok: "s \<in> set (enum_values ObjectStatus) \<Longrightarrow> object_status s = Inr s"
  by (simp add: object_status_def)

lemma ext_received_None [simp]: "ext_received delta None = None"
  by (simp add: ext_received_def)

context vcodec_laws
begin

lemma exts_field_reads:
  assumes "(if ep \<and> st = STATUS_NORMAL then extensions_encode C vi (map_option fst exts) True delta
      else if ep then extensions_encode C vi None True False else Inr []) = Inr bs"
    and "exts_ok (map_option fst exts)" "ep \<and> st = STATUS_NORMAL \<longrightarrow> exts_fit C vi exts delta"
  shows "reads vi (if ep then extensions_decode C tol True None delta True else rret None) bs
    (if ep \<and> st = STATUS_NORMAL then ext_received delta (map_option fst exts) else None)"
proof (cases "ep \<and> st = STATUS_NORMAL")
  case True
  then show ?thesis
    using assms extensions_prefixed_reads [of vi "map_option fst exts" delta bs tol None True]
    by (auto simp: exts_fit_def)
next
  case no: False
  show ?thesis
  proof (cases ep)
    case True
    have "push_vint C vi 0 = Inr bs" using assms(1) no True by (simp add: extensions_encode_def)
    then have "extensions_encode C vi None True delta = Inr bs" "int (length bs) \<le> EXTENSIONS_LEN_LIMIT"
      using push_small [of 0 vi] by (auto simp: extensions_encode_def EXTENSIONS_LEN_LIMIT_def)
    from extensions_prefixed_reads [OF this(1) _ this(2), of tol None True] show ?thesis
      using no True by (simp add: exts_ok_def)
  next
    case False
    then show ?thesis using assms(1) no by (simp add: reads_ret)
  qed
qed

lemma slow_object_reads:
  assumes "oh_serialize C ep prev vi delta o' = Inr bs" "oh_ok o'" "has vi b bs" "buf_len = int (capacity b)"
    and "ep \<and> oh_status o' = STATUS_NORMAL \<longrightarrow> exts_fit C vi (oh_extensions o') delta" "payload_fits (oh_payload o') limit"
  shows "oh_deserialize_into C tol None buf_len ep prev vi delta limit b = Inr (oh_received ep delta o', adv b (length bs))"
proof -
  let ?push = "push_as C vi" and ?pull = "pull_as C vi"
  let ?d = "case prev of None \<Rightarrow> oh_object_id o' | Some p \<Rightarrow> oh_object_id o' - p - 1"
  let ?r = "if ep \<and> oh_status o' = STATUS_NORMAL then ext_received delta (map_option fst (oh_extensions o')) else None"
  obtain db eb pb where d: "?push ?d = Inr db"
    and e: "(if ep \<and> oh_status o' = STATUS_NORMAL then extensions_encode C vi (map_option fst (oh_extensions o')) True delta
        else if ep then extensions_encode C vi None True False else Inr []) = Inr eb"
    and p: "(if oh_status o' = STATUS_NORMAL \<and> oh_payload o' \<noteq> []
          then wseq [?push (int (length (oh_payload o'))), push_bytes (oh_payload o')]
        else wseq [?push 0, ?push (oh_status o')]) = Inr pb" and bs: "bs = db @ eb @ pb"
    using assms(1) by (auto simp: oh_serialize_def Let_def wr)
  have h: "has vi b db" "has vi (adv b (length db)) eb" "has vi (adv b (length db + length eb)) pb"
    using assms(3) by (simp_all add: bs has_append)
  have ok: "exts_ok (map_option fst (oh_extensions o'))" "object_status (oh_status o') = Inr (oh_status o')"
    using assms(2) by (simp_all add: oh_ok_def object_status_ok)
  note r1 = readsD [OF reads_as [OF d] h(1)] readsD [OF exts_field_reads [OF e ok(1) assms(5), of tol] h(2)]
  have id: "(case prev of None \<Rightarrow> ?d | Some p \<Rightarrow> p + ?d + 1) = oh_object_id o'"
    by (cases prev) auto
  show ?thesis
  proof (cases "oh_status o' = STATUS_NORMAL \<and> oh_payload o' \<noteq> []")
    case True
    then obtain l where l: "?push (int (length (oh_payload o'))) = Inr l" "pb = l @ oh_payload o'"
      using p by (auto simp: wr)
    let ?b = "adv b (length db + length eb)"
    have h2: "has vi ?b l" "has vi (adv ?b (length l)) (oh_payload o')" using h(3) by (simp_all add: l(2) has_append)
    have cap: "rb_pos b + length bs \<le> capacity b" using has_length [OF assms(3)] .
    have "check_payload_len (int (length (oh_payload o'))) limit = Inr ()"
      using assms(6) by (auto simp: check_payload_len_def payload_fits_def guardR_def)
    moreover have "oh_status o' = 0" "object_status 0 = Inr 0" using True ok(2) by (simp_all add: STATUS_NORMAL_def)
    ultimately show ?thesis
      using r1 readsD [OF reads_as [OF l(1)] h2(1)] readsD [OF reads_pull_bytes [OF refl] h2(2)] True cap id
      by (cases o') (simp add: oh_deserialize_into_def slow_object_def Let_def rsteps rcatch_def assms(4) bs l(2) oh_received_def
          STATUS_NORMAL_def add.assoc)
  next
    case False
    then obtain z s where z: "?push 0 = Inr z" "?push (oh_status o') = Inr s" "pb = z @ s" using p by (auto simp: wr)
    let ?b = "adv b (length db + length eb)"
    have h2: "has vi ?b z" "has vi (adv ?b (length z)) s" using h(3) by (simp_all add: z(3) has_append)
    have empty: "oh_payload o' = []" using False assms(2) by (auto simp: oh_ok_def)
    have "check_payload_len 0 limit = Inr ()"
      using assms(6) by (auto simp: check_payload_len_def payload_fits_def guardR_def)
    then show ?thesis
      using r1 readsD [OF reads_as [OF z(1)] h2(1)] readsD [OF reads_as [OF z(2)] h2(2)] empty id ok(2)
      by (cases o') (simp add: oh_deserialize_into_def slow_object_def Let_def rsteps bs z(3) oh_received_def add.assoc)
  qed
qed

end

text \<open>
  A whole subgroup stream: what the application publishes (payload, extensions, status and, if it
  chooses one, the Object ID), the bytes of the objects, and the receiver's reading of them.
\<close>

type_synonym publication = "bytes \<times> kvps option \<times> int \<times> int option"

fun send_objects :: "vcodec \<Rightarrow> SubgroupHeader \<Rightarrow> publication list \<Rightarrow> (bytes \<times> SubgroupHeader) result" where
  "send_objects C h [] = Inr ([], h)"
| "send_objects C h ((payload, exts, status, oid) # xs) =
    bindR (sh_next_object C h payload exts status oid) (\<lambda>(bs, h').
    bindR (send_objects C h' xs) (\<lambda>(cs, h''). Inr (bs @ cs, h'')))"

fun recv_objects ::
    "vcodec \<Rightarrow> bool \<Rightarrow> fused_parser option \<Rightarrow> int \<Rightarrow> int \<Rightarrow> nat \<Rightarrow> SubgroupHeader \<Rightarrow> (ObjectHeader list \<times> SubgroupHeader) reader" where
  "recv_objects C tol fused buf_len limit 0 h = rret ([], h)"
| "recv_objects C tol fused buf_len limit (Suc n) h =
    rbind (recv_object C tol fused buf_len limit h) (\<lambda>(o', h').
    rbind (recv_objects C tol fused buf_len limit n h') (\<lambda>(os, h''). rret (o' # os, h'')))"

text \<open>The objects a receiver should see, with the Object IDs the sender assigned.\<close>

fun published :: "SubgroupHeader \<Rightarrow> publication list \<Rightarrow> ObjectHeader list" where
  "published h [] = []"
| "published h ((payload, exts, status, oid) # xs) =
    (let i = (case oid of Some i \<Rightarrow> i | None \<Rightarrow> sh_next_object_id h) in
     oh_received (sh_extensions_present h) (sh_kvp_delta h)
       \<lparr>oh_object_id = i, oh_extensions = exts, oh_status = status, oh_payload = payload\<rparr> # published (sh_advance h i) xs)"

definition publication_ok :: "vcodec \<Rightarrow> SubgroupHeader \<Rightarrow> int \<Rightarrow> publication \<Rightarrow> bool" where
  "publication_ok C h limit x = (case x of (payload, exts, status, oid) \<Rightarrow>
     oh_ok \<lparr>oh_object_id = 0, oh_extensions = exts, oh_status = status, oh_payload = payload\<rparr>
     \<and> (sh_extensions_present h \<and> status = STATUS_NORMAL \<longrightarrow> exts_fit C (sh_vi64 h) exts (sh_kvp_delta h))
     \<and> payload_fits payload limit)"

text \<open>The receiver's header agrees with the sender's on what the bytes of the next object depend on.\<close>

lemma advance_state [simp]:
  "sh_encoding_state (sh_advance h i) = (sh_vi64 h, sh_kvp_delta h, sh_extensions_present h, Some i)"
  "sh_extensions_present (sh_advance h i) = sh_extensions_present h" "sh_vi64 (sh_advance h i) = sh_vi64 h"
  "sh_kvp_delta (sh_advance h i) = sh_kvp_delta h" "sh_last_object_id (sh_advance h i) = Some i"
  by (simp_all add: sh_advance_def sh_encoding_state_def sh_vi64_def sh_kvp_delta_def)

lemma publication_ok_advance [simp]: "publication_ok C (sh_advance h i) limit = publication_ok C h limit"
  by (rule ext) (simp add: publication_ok_def split: prod.splits)

context vcodec_laws
begin

lemma recv_objects_reads:
  assumes "send_objects C h xs = Inr (bs, h')" "sh_encoding_state rh = sh_encoding_state h"
    and "list_all (publication_ok C h limit) xs" "has (sh_vi64 h) b bs" "buf_len = int (capacity b)"
  shows "\<exists>rh'. recv_objects C tol None buf_len limit (length xs) rh b = Inr ((published h xs, rh'), adv b (length bs))
    \<and> sh_last_object_id rh' = sh_last_object_id h'"
  using assms
proof (induction xs arbitrary: h rh bs b)
  case Nil
  then show ?case by (auto simp: rret_def sh_encoding_state_def)
next
  case (Cons x xs)
  obtain payload exts status oid where x: "x = (payload, exts, status, oid)" by (cases x) auto
  let ?i = "case oid of Some i \<Rightarrow> i | None \<Rightarrow> sh_next_object_id h"
  let ?o = "\<lparr>oh_object_id = ?i, oh_extensions = exts, oh_status = status, oh_payload = payload\<rparr>"
  obtain a c where a: "oh_serialize C (sh_extensions_present h) (sh_last_object_id h) (sh_vi64 h) (sh_kvp_delta h) ?o = Inr a"
    and c: "send_objects C (sh_advance h ?i) xs = Inr (c, h')" and bs: "bs = a @ c"
    using Cons.prems(1) by (auto simp: x sh_next_object_def Let_def wr split: prod.splits)
  have st: "sh_vi64 rh = sh_vi64 h" "sh_kvp_delta rh = sh_kvp_delta h" "sh_extensions_present rh = sh_extensions_present h"
      "sh_last_object_id rh = sh_last_object_id h"
    using Cons.prems(2) by (simp_all add: sh_encoding_state_def)
  have h: "has (sh_vi64 h) b a" "has (sh_vi64 h) (adv b (length a)) c"
    using Cons.prems(4) by (simp_all add: bs has_append)
  let ?r = "oh_received (sh_extensions_present h) (sh_kvp_delta h) ?o"
  have id: "oh_object_id ?r = ?i" by (simp add: oh_received_def)
  have "oh_deserialize_into C tol None buf_len (sh_extensions_present h) (sh_last_object_id h) (sh_vi64 h) (sh_kvp_delta h) limit b
      = Inr (?r, adv b (length a))"
    using Cons.prems(3,5) by (intro slow_object_reads [OF a _ h(1)]) (auto simp: x publication_ok_def oh_ok_def)
  then have 1: "recv_object C tol None buf_len limit rh b = Inr ((?r, sh_advance rh ?i), adv b (length a))"
    using id by (simp add: recv_object_def rsteps st)
  have "list_all (publication_ok C (sh_advance h ?i) limit) xs" using Cons.prems(3) by simp
  moreover have "sh_encoding_state (sh_advance rh ?i) = sh_encoding_state (sh_advance h ?i)" by (simp add: st)
  ultimately obtain rh' where "recv_objects C tol None buf_len limit (length xs) (sh_advance rh ?i) (adv b (length a))
      = Inr ((published (sh_advance h ?i) xs, rh'), adv (adv b (length a)) (length c))" "sh_last_object_id rh' = sh_last_object_id h'"
    using Cons.IH [OF c] h(2) Cons.prems(5) by fastforce
  then show ?case using 1 by (auto simp: x Let_def rsteps bs intro!: exI [of _ rh'])
qed

end

text \<open>
  C25: a subgroup stream carries its header and its objects intact. The header a publisher writes is read
  back from its type byte and fields (the subgroup ID by its mode, the inherited priority as such), and
  any sequence of objects published on it, with Object IDs counted up or chosen by the application, is
  read by the receiver as the same objects with the same IDs, whatever the extension and draft flavour.
\<close>

theorem subgroup_stream_roundtrip:
  assumes "vcodec_laws C" "sh_subgroup_id_mode h \<in> {0, 1, 2}" "sh_last_object_id h = None"
    and "sh_serialize C h = Inr hb" "send_objects C h xs = Inr (ob, h')" "list_all (publication_ok C h limit) xs"
  shows "\<exists>t rest. hb = t @ rest \<and> push_vint C (sh_vi64 h) (sh_compute_type h) = Inr t
    \<and> (\<forall>b. has (sh_vi64 h) b (rest @ ob) \<longrightarrow>
        sh_deserialize C (sh_compute_type h) (sh_prof h) b = Inr (sh_received h, adv b (length rest))
        \<and> (\<exists>rh. recv_objects C tol None (int (capacity b)) limit (length xs) (sh_received h) (adv b (length rest))
             = Inr ((published h xs, rh), adv b (length (rest @ ob)))))"
proof -
  obtain t rest where t: "hb = t @ rest" "push_vint C (sh_vi64 h) (sh_compute_type h) = Inr t"
    and d: "\<And>f. reads f (sh_deserialize C (sh_compute_type h) (sh_prof h)) rest (sh_received h)"
    using vcodec_laws.sh_roundtrip [OF assms(1,4,2)] by blast
  have st: "sh_encoding_state (sh_received h) = sh_encoding_state h"
    using assms(3) by (simp add: sh_encoding_state_def sh_received_def sh_vi64_def sh_kvp_delta_def)
  show ?thesis
  proof (rule exI [of _ t], rule exI [of _ rest], intro conjI t allI impI)
    fix b assume h: "has (sh_vi64 h) b (rest @ ob)"
    then show "sh_deserialize C (sh_compute_type h) (sh_prof h) b = Inr (sh_received h, adv b (length rest))"
      using readsD [OF d, of "sh_vi64 h" b] by (simp add: has_append)
    have "has (sh_vi64 h) (adv b (length rest)) ob" using h by (simp add: has_append)
    from vcodec_laws.recv_objects_reads [OF assms(1,5) st assms(6) this, of "int (capacity b)" tol]
    show "\<exists>rh. recv_objects C tol None (int (capacity b)) limit (length xs) (sh_received h) (adv b (length rest))
             = Inr ((published h xs, rh), adv b (length (rest @ ob)))"
      by auto
  qed
qed

theorem subgroup_stream_roundtrip_witness:
  "let h = \<lparr>sh_track_alias = 5, sh_group_id = 9, sh_subgroup_id = Some 0, sh_publisher_priority = 128,
      sh_extensions_present = False, sh_end_of_group = False, sh_subgroup_id_mode = 0, sh_first_object = True,
      sh_default_priority = False, sh_prof = Some PROFILE_D18, sh_last_object_id = None\<rparr>;
      b = new_rbuf [5, 9, 128, 0, 1, 0xAA, 2, 0, 3] True in
    sh_deserialize std_codec 0x50 (Some PROFILE_D18) b = Inr (h, adv b 3)
    \<and> (\<exists>rh. recv_objects std_codec False None 9 0 2 h (adv b 3) =
         Inr (([\<lparr>oh_object_id = 0, oh_extensions = None, oh_status = 0, oh_payload = [0xAA]\<rparr>,
               \<lparr>oh_object_id = 3, oh_extensions = None, oh_status = 3, oh_payload = []\<rparr>], rh), adv b 9))"
proof -
  let ?h = "\<lparr>sh_track_alias = 5, sh_group_id = 9, sh_subgroup_id = Some 0, sh_publisher_priority = 128,
      sh_extensions_present = False, sh_end_of_group = False, sh_subgroup_id_mode = 0, sh_first_object = True,
      sh_default_priority = False, sh_prof = Some PROFILE_D18, sh_last_object_id = None\<rparr> :: SubgroupHeader"
  let ?xs = "[([0xAA], None, 0, None), ([], None, 3, Some 3)] :: publication list"
  let ?b = "new_rbuf [5, 9, 128, 0, 1, 0xAA, 2, 0, 3] True"
  have 1: "sh_serialize std_codec ?h = Inr [0x50, 5, 9, 128]" by code_simp
  have 2: "send_objects std_codec ?h ?xs = Inr ([0, 1, 0xAA, 2, 0, 3], ?h\<lparr>sh_last_object_id := Some 3\<rparr>)" by code_simp
  have 3: "list_all (publication_ok std_codec ?h 0) ?xs" by code_simp
  have 4: "sh_compute_type ?h = 0x50" "sh_vi64 ?h = True" "sh_received ?h = ?h" "push_vint std_codec True 0x50 = Inr [0x50]"
      "published ?h ?xs = [\<lparr>oh_object_id = 0, oh_extensions = None, oh_status = 0, oh_payload = [0xAA]\<rparr>,
               \<lparr>oh_object_id = 3, oh_extensions = None, oh_status = 3, oh_payload = []\<rparr>]"
    by code_simp+
  have 5: "has True ?b ([5, 9, 128] @ [0, 1, 0xAA, 2, 0, 3])" by code_simp
  have 6: "length ?xs = 2" "capacity ?b = 9" by code_simp+
  have 7: "sh_subgroup_id_mode ?h \<in> {0, 1, 2}" "sh_last_object_id ?h = None" "sh_prof ?h = Some PROFILE_D18" by simp_all
  obtain t rest where t: "[0x50, 5, 9, 128] = t @ rest" "t = [0x50]" and r: "\<forall>b. has True b (rest @ [0, 1, 0xAA, 2, 0, 3]) \<longrightarrow>
      sh_deserialize std_codec 0x50 (Some PROFILE_D18) b = Inr (?h, adv b (length rest))
      \<and> (\<exists>rh. recv_objects std_codec False None (int (capacity b)) 0 2 ?h (adv b (length rest)) =
        Inr (([\<lparr>oh_object_id = 0, oh_extensions = None, oh_status = 0, oh_payload = [0xAA]\<rparr>,
               \<lparr>oh_object_id = 3, oh_extensions = None, oh_status = 3, oh_payload = []\<rparr>], rh),
             adv b (length (rest @ [0, 1, 0xAA, 2, 0, 3]))))"
    using subgroup_stream_roundtrip [OF std.vcodec_laws_axioms 7(1,2) 1 2 3, of False, unfolded 4 6 7(3)] by auto
  have "rest = [5, 9, 128]" using t by simp
  then show ?thesis using spec [OF r, of ?b] 5 unfolding 6 Let_def by (simp add: eval_nat_numeral)
qed

end
