(* ===== verification/Fetch_Stream.thy ===== *)
theory Fetch_Stream
  imports Data_Plane
begin

text \<open>
  The correctness of fetch streams: whatever a publisher serves is what a fetcher reads, at every draft.
  From draft 18 an object is written as its difference from the object before it, so the two ends have to
  agree on that prior object through ordinary objects, datagrams and End-of-Range markers; the proof keeps
  exactly that agreement as an invariant of the stream.
\<close>

unbundle bit_operations_syntax

section \<open>The object a fetcher should see\<close>

definition fo_received :: "DraftProfile \<Rightarrow> FetchObject \<Rightarrow> FetchObject" where
  "fo_received prof o' =
    (if \<not> vi64 prof \<and> \<not> is_draft16_or_later (draft prof)
     then o'\<lparr>fo_extensions := ext_received False (map_option fst (fo_extensions o')), fo_end_of_range := None, fo_datagram := False\<rparr>
     else o'\<lparr>fo_extensions := (if fo_has_props o' then ext_received True (map_option fst (fo_extensions o')) else None)\<rparr>)"

definition fo_ok :: "vcodec \<Rightarrow> DraftProfile \<Rightarrow> int \<Rightarrow> FetchObject \<Rightarrow> bool" where
  "fo_ok C prof limit o' \<longleftrightarrow>
    (case fo_end_of_range o' of
       Some e \<Rightarrow> (vi64 prof \<or> is_draft16_or_later (draft prof)) \<and> e \<in> set (end_of_range_flags prof)
     | None \<Rightarrow>
         0 \<le> fo_group_id o' \<and> fo_group_id o' \<le> U64_MAX \<and> 0 \<le> fo_object_id o' \<and> fo_object_id o' \<le> U64_MAX
         \<and> 0 \<le> fo_subgroup_id o' \<and> 0 \<le> fo_publisher_priority o'
         \<and> (fo_datagram o' \<longrightarrow> fo_subgroup_id o' = 0)
         \<and> fo_status o' \<in> set (enum_values ObjectStatus) \<and> (fo_status o' \<noteq> STATUS_NORMAL \<longrightarrow> fo_payload o' = [])
         \<and> exts_ok (map_option fst (fo_extensions o'))
         \<and> exts_fit C (vi64 prof) (fo_extensions o') (vi64 prof \<or> is_draft16_or_later (draft prof))
         \<and> payload_fits (fo_payload o') limit)"

text \<open>An End-of-Range marker takes over the subgroup and the priority of the object before it.\<close>

definition marker_received :: "DraftProfile \<Rightarrow> FetchObject option \<Rightarrow> FetchObject \<Rightarrow> FetchObject" where
  "marker_received prof prior o' = fo_marker (fo_group_id o') (fo_object_id o') (the (fo_end_of_range o'))
     (case prior of None \<Rightarrow> if vi64 prof then -1 else 0 | Some p \<Rightarrow> fo_subgroup_id p)
     (case prior of None \<Rightarrow> if vi64 prof then -1 else MOQT_DEFAULT_PRIORITY | Some p \<Rightarrow> fo_publisher_priority p)"

fun fetched :: "DraftProfile \<Rightarrow> FetchObject option \<Rightarrow> FetchObject list \<Rightarrow> FetchObject list" where
  "fetched prof prior [] = []"
| "fetched prof prior (o' # os) =
    (if serve_skips prof o' then fetched prof prior os
     else let r = (if fo_end_of_range o' = None then fo_received prof o' else marker_received prof prior o') in
       r # fetched prof (Some r) os)"

section \<open>Agreement on the prior object\<close>

definition agree :: "FetchObject option \<Rightarrow> FetchObject option \<Rightarrow> bool" where
  "agree p q = (case (p, q) of
     (None, None) \<Rightarrow> True
   | (Some a, Some b) \<Rightarrow> fo_group_id a = fo_group_id b \<and> fo_object_id a = fo_object_id b
       \<and> fo_subgroup_id a = fo_subgroup_id b \<and> fo_publisher_priority a = fo_publisher_priority b
       \<and> (fo_datagram a \<longrightarrow> fo_subgroup_id a = 0)
   | _ \<Rightarrow> False)"

lemma agree_None [simp]: "agree None q \<longleftrightarrow> q = None" "agree p None \<longleftrightarrow> p = None"
  by (auto simp: agree_def split: option.splits)

lemma agree_Some [simp]: "agree (Some a) (Some b) \<longleftrightarrow> fo_group_id a = fo_group_id b \<and> fo_object_id a = fo_object_id b
       \<and> fo_subgroup_id a = fo_subgroup_id b \<and> fo_publisher_priority a = fo_publisher_priority b
       \<and> (fo_datagram a \<longrightarrow> fo_subgroup_id a = 0)"
  by (auto simp: agree_def)

lemma agree_cases:
  assumes "agree p q"
  obtains "p = None" "q = None" | a b where "p = Some a" "q = Some b" "fo_group_id b = fo_group_id a" "fo_object_id b = fo_object_id a"
    "fo_subgroup_id b = fo_subgroup_id a" "fo_publisher_priority b = fo_publisher_priority a" "fo_datagram a \<Longrightarrow> fo_subgroup_id a = 0"
  using assms by (cases p; cases q) auto

section \<open>The flags of draft 18\<close>

definition fo_flags :: "FetchObject \<Rightarrow> int \<Rightarrow> int \<Rightarrow> int" where
  "fo_flags o' f1 f2 = (if fo_has_props o' then f1 OR f2 OR FETCH_FLAG_EXTENSIONS_PRESENT else f1 OR f2)"

lemma fo_ids_d18_flags:
  assumes "fo_ids_d18 o' prior ord' = Inr (f1, g, ob)"
  shows "f1 = (if g \<noteq> None then 0x08 else 0) OR (if ob \<noteq> None then 0x04 else 0)
      OR (case prior of None \<Rightarrow> 0x10 | Some p \<Rightarrow> if fo_publisher_priority o' \<noteq> fo_publisher_priority p then 0x10 else 0)"
  using assms
  by (auto simp: fo_ids_d18_def fetch_flag_defs Let_def bindR_def split: option.splits if_splits)

definition fo_sg_mode :: "FetchObject \<Rightarrow> FetchObject option \<Rightarrow> int" where
  "fo_sg_mode o' prior = fst (fo_subgroup_d18 o' prior)"

lemma fo_sg_mode_range: "fo_sg_mode o' prior \<in> {0, 1, 2, 3, 0x40}"
  by (auto simp: fo_sg_mode_def fo_subgroup_d18_def Let_def fetch_flag_defs)

definition fo_flags_ok :: "bool \<Rightarrow> bool \<Rightarrow> bool \<Rightarrow> bool \<Rightarrow> int \<Rightarrow> bool" where
  "fo_flags_ok g ob pr ex f2 =
    (let f1 = (if g then 0x08 else 0) OR (if ob then 0x04 else 0) OR (if pr then 0x10 else 0);
         f = (if ex then f1 OR f2 OR FETCH_FLAG_EXTENSIONS_PRESENT else f1 OR f2) in
     bit_set f FETCH_FLAG_GROUP_ID_PRESENT = g \<and> bit_set f FETCH_FLAG_OBJECT_ID_PRESENT = ob
     \<and> bit_set f FETCH_FLAG_PRIORITY_PRESENT = pr \<and> bit_set f FETCH_FLAG_EXTENSIONS_PRESENT = ex
     \<and> bit_set f FETCH_FLAG_DATAGRAM = (f2 = 0x40) \<and> (f2 \<noteq> 0x40 \<longrightarrow> f AND FETCH_FLAG_SUBGROUP_MASK = f2)
     \<and> f < 0x80)"

lemma fo_flags_table: "\<forall>g ob pr ex. \<forall>f2 \<in> set [0, 1, 2, 3, 0x40]. fo_flags_ok g ob pr ex f2"
  by code_simp

lemma end_flags_large: "f < 0x80 \<Longrightarrow> f \<notin> set (end_of_range_flags prof)"
  by (auto simp: end_of_range_flags_def fetch_flag_defs)

lemma flag_bits:
  assumes "f1 = (if g then 0x08 else 0) OR (if ob then 0x04 else 0) OR (if pr then 0x10 else 0)" "f2 \<in> {0, 1, 2, 3, 0x40}"
  shows "bit_set (fo_flags o' f1 f2) FETCH_FLAG_GROUP_ID_PRESENT = g"
    "bit_set (fo_flags o' f1 f2) FETCH_FLAG_OBJECT_ID_PRESENT = ob"
    "bit_set (fo_flags o' f1 f2) FETCH_FLAG_PRIORITY_PRESENT = pr"
    "bit_set (fo_flags o' f1 f2) FETCH_FLAG_EXTENSIONS_PRESENT = fo_has_props o'"
    "bit_set (fo_flags o' f1 f2) FETCH_FLAG_DATAGRAM = (f2 = 0x40)"
    "f2 \<noteq> 0x40 \<Longrightarrow> fo_flags o' f1 f2 AND FETCH_FLAG_SUBGROUP_MASK = f2"
    "fo_flags o' f1 f2 < 0x80"
proof -
  have "fo_flags_ok g ob pr (fo_has_props o') f2" using fo_flags_table assms(2) by auto
  then show "bit_set (fo_flags o' f1 f2) FETCH_FLAG_GROUP_ID_PRESENT = g"
    "bit_set (fo_flags o' f1 f2) FETCH_FLAG_OBJECT_ID_PRESENT = ob"
    "bit_set (fo_flags o' f1 f2) FETCH_FLAG_PRIORITY_PRESENT = pr"
    "bit_set (fo_flags o' f1 f2) FETCH_FLAG_EXTENSIONS_PRESENT = fo_has_props o'"
    "bit_set (fo_flags o' f1 f2) FETCH_FLAG_DATAGRAM = (f2 = 0x40)"
    "f2 \<noteq> 0x40 \<Longrightarrow> fo_flags o' f1 f2 AND FETCH_FLAG_SUBGROUP_MASK = f2"
    "fo_flags o' f1 f2 < 0x80"
    unfolding fo_flags_ok_def Let_def fo_flags_def assms(1) by blast+
qed

section \<open>Reading the fields back\<close>

context vcodec_laws
begin

lemma push_opt_reads:
  "push_opt (push_vint C f) (Some v) = Inr bs \<Longrightarrow> reads f (pull_vint C) bs v"
  by (simp add: push_opt_def reads_vint)

lemma fo_group_reads:
  assumes "fo_ids_d18 o' p ord' = Inr (f1, g, ob)" "push_opt (push_vint C True) g = Inr gb" "agree p q"
    and "bit_set flags FETCH_FLAG_GROUP_ID_PRESENT = (g \<noteq> None)" "0 \<le> fo_group_id o'" "fo_group_id o' \<le> U64_MAX"
  shows "reads True (fo_group_d18 C flags q ord') gb (fo_group_id o')"
  using assms(3)
proof (cases rule: agree_cases)
  case 1
  then have "g = Some (fo_group_id o')" using assms(1) by (simp add: fo_ids_d18_def)
  then show ?thesis using assms(2,4) 1
    by (auto simp: fo_group_d18_def intro!: reads_bind_end [OF push_opt_reads] reads_ret)
next
  case (2 a b)
  show ?thesis
  proof (cases g)
    case None
    then have "fo_group_id o' = fo_group_id a"
      using assms(1) 2 by (auto simp: fo_ids_d18_def Let_def bindR_def split: if_splits)
    then show ?thesis using None assms(2,4) 2 by (simp add: fo_group_d18_def push_opt_def reads_ret)
  next
    case (Some d)
    then have d: "d = (if ord' = 2 then fo_group_id a - fo_group_id o' - 1 else fo_group_id o' - fo_group_id a - 1)"
      using assms(1) 2 by (auto simp: fo_ids_d18_def Let_def bindR_def split: if_splits)
    show ?thesis using assms(2,4,5,6) Some 2 d
      by (auto simp: fo_group_d18_def intro!: reads_bind_end [OF push_opt_reads [where v = d]] reads_bind0 [OF reads_guard] reads_ret)
  qed
qed

lemma fo_object_reads:
  assumes "fo_ids_d18 o' p ord' = Inr (f1, g, ob)" "push_opt (push_vint C True) ob = Inr bs" "agree p q"
    and "bit_set flags FETCH_FLAG_GROUP_ID_PRESENT = (g \<noteq> None)" "bit_set flags FETCH_FLAG_OBJECT_ID_PRESENT = (ob \<noteq> None)"
    and "fo_object_id o' \<le> U64_MAX"
  shows "reads True (fo_object_d18 C flags q) bs (fo_object_id o')"
proof -
  have fin: "reads True (rbind (rguard (fo_object_id o' \<le> U64_MAX) MOQTProtocolViolation) (\<lambda>_. rret (fo_object_id o'))) [] (fo_object_id o')"
    using assms(6) by (intro reads_bind0 [OF reads_guard] reads_ret)
  show ?thesis using assms(3)
  proof (cases rule: agree_cases)
    case 1
    then have "ob = Some (fo_object_id o')" using assms(1) by (simp add: fo_ids_d18_def)
    then show ?thesis using assms(2,5) 1 fin
      by (auto simp: fo_object_d18_def intro!: reads_bind_end [OF reads_bind_end [OF push_opt_reads]] reads_ret)
  next
    case (2 a b)
    show ?thesis
    proof (cases ob)
      case None
      then have "fo_object_id o' = fo_object_id a + 1"
        using assms(1) 2 by (auto simp: fo_ids_d18_def Let_def bindR_def split: if_splits)
      then show ?thesis using None assms(2,5) 2 fin
        by (auto simp: fo_object_d18_def push_opt_def intro!: reads_bind0 [OF reads_ret])
    next
      case (Some d)
      then have d: "d = (if g \<noteq> None then fo_object_id o' else fo_object_id o' - fo_object_id a)"
        using assms(1) 2 by (auto simp: fo_ids_d18_def Let_def bindR_def split: if_splits)
      show ?thesis unfolding fo_object_d18_def
        using assms(2,4,5) Some 2 d fin
        by (auto intro!: reads_bind_end [OF reads_bind_end [OF push_opt_reads [where v = d] reads_ret]] split del: if_split)
    qed
  qed
qed

lemma fo_subgroup_reads:
  assumes "fo_subgroup_d18 o' p = (f2, sg)" "push_opt (push_vint C True) sg = Inr bs" "agree p q"
    and "bit_set flags FETCH_FLAG_DATAGRAM = (f2 = 0x40)" "f2 \<noteq> 0x40 \<Longrightarrow> flags AND FETCH_FLAG_SUBGROUP_MASK = f2"
    and "0 \<le> fo_subgroup_id o'" "fo_datagram o' \<longrightarrow> fo_subgroup_id o' = 0"
  shows "reads True (fo_pull_subgroup_d18 C flags q) bs (fo_subgroup_id o')"
  using assms(3)
proof (cases rule: agree_cases)
  case 1
  then show ?thesis using assms
    by (auto simp: fo_subgroup_d18_def fo_pull_subgroup_d18_def Let_def fetch_flag_defs push_opt_def
        intro!: reads_vint reads_ret split: if_splits)
next
  case (2 a b)
  then have 3: "(if fo_datagram a then 0 else fo_subgroup_id a) = fo_subgroup_id a" by auto
  show ?thesis using assms 2
    unfolding fo_subgroup_d18_def fo_pull_subgroup_d18_def Let_def fetch_flag_defs 2(1,2) option.case 3
    by (auto simp: push_opt_def intro!: reads_vint reads_ret split: if_splits)
qed

lemma fo_priority_reads:
  assumes "(if bit_set flags FETCH_FLAG_PRIORITY_PRESENT then push_uint8 C (fo_publisher_priority o') else Inr []) = Inr bs" "agree p q"
    and "bit_set flags FETCH_FLAG_PRIORITY_PRESENT = (case p of None \<Rightarrow> True | Some a \<Rightarrow> fo_publisher_priority o' \<noteq> fo_publisher_priority a)"
    and "0 \<le> fo_publisher_priority o'"
  shows "reads True (fo_priority_d18 C flags q) bs (fo_publisher_priority o')"
  using assms(2)
proof (cases rule: agree_cases)
  case 1
  then show ?thesis using assms by (simp add: fo_priority_d18_def reads_uint8)
next
  case (2 a b)
  then show ?thesis using assms
    by (auto simp: fo_priority_d18_def intro!: reads_uint8 reads_ret split: if_splits)
qed

lemma payload_guard: "payload_fits xs limit \<Longrightarrow> check_payload_len (int (length xs)) limit = Inr ()"
  by (auto simp: check_payload_len_def payload_fits_def guardR_def)

lemma fo_payload_reads:
  assumes "(if fo_payload o' \<noteq> [] then wseq [push_vint C True (int (length (fo_payload o'))), push_bytes (fo_payload o')]
      else wseq [push_vint C True 0, if fetch_object_status prof then push_vint C True (fo_status o') else Inr []]) = Inr bs"
    and "fo_status o' = STATUS_NORMAL \<or> fetch_object_status prof \<and> fo_payload o' = [] \<and> exts = None"
    and "fo_status o' \<in> set (enum_values ObjectStatus)" "payload_fits (fo_payload o') limit"
  shows "reads True (fo_payload_d18 C prof limit exts) bs (fo_status o', fo_payload o')"
proof (cases "fo_payload o' = []")
  case True
  then obtain z s where z: "push_vint C True 0 = Inr z" "bs = z @ s"
    and s: "(if fetch_object_status prof then push_vint C True (fo_status o') else Inr []) = Inr s"
    using assms(1) by (auto simp: wr)
  have len: "check_payload_len 0 limit = Inr ()" using payload_guard [OF assms(4)] True by simp
  have st: "reads True (if fetch_object_status prof then rbind (pull_vint C) (\<lambda>s. rlift (object_status s)) else rret STATUS_NORMAL) s (fo_status o')"
    using s assms(2,3) by (auto intro!: reads_bind_end [OF reads_vint] reads_ret reads_lift object_status_ok split: if_splits)
  have fin: "reads True (rbind (rguard (\<not> (exts \<noteq> None \<and> fo_status o' \<noteq> STATUS_NORMAL)) MOQTProtocolViolation)
      (\<lambda>_. rret (fo_status o', []))) [] (fo_status o', [])"
    using assms(2) by (intro reads_bind0 [OF reads_guard] reads_ret) auto
  show ?thesis unfolding fo_payload_d18_def z(2) True
    apply (rule reads_bind [OF reads_vint [OF z(1)]], rule reads_bind0 [OF reads_lift [OF len]])
    apply (simp only: simp_thms if_True)
    apply (rule reads_bind_end [OF st], rule fin)
    done
next
  case False
  then obtain l where l: "push_vint C True (int (length (fo_payload o'))) = Inr l" "bs = l @ fo_payload o'"
    using assms(1) by (auto simp: wr)
  have "fo_status o' = STATUS_NORMAL" using False assms(2) by auto
  then show ?thesis unfolding fo_payload_d18_def l(2) using False
    by (intro reads_bind [OF reads_vint [OF l(1)]] reads_bind0 [OF reads_lift [OF payload_guard [OF assms(4)]]])
      (auto intro!: reads_bind_end [OF reads_pull_bytes] reads_ret)
qed

lemma fo_exts_reads:
  assumes "(if ep then extensions_encode C vi (map_option fst exts) True delta else Inr []) = Inr bs"
    and "exts_ok (map_option fst exts)" "exts_fit C vi exts delta"
  shows "reads vi (if ep then extensions_decode C tol True None delta True else rret None) bs
    (if ep then ext_received delta (map_option fst exts) else None)"
  using assms extensions_prefixed_reads [of vi "map_option fst exts" delta bs tol None True]
  by (auto simp: exts_fit_def intro: reads_ret split: if_splits)

lemma fo_serialize_d18_eq:
  assumes "fo_end_of_range o' = None" "fo_ids_d18 o' p ord' = Inr (f1, g, ob)" "fo_subgroup_d18 o' p = (f2, sg)"
  shows "fo_serialize_d18 C p ord' prof o' = in_buffer C (BUF_SIZE + length (fo_payload o'))
    (bindR (guardR (fo_status o' = STATUS_NORMAL \<or>
        fetch_object_status prof \<and> fo_payload o' = [] \<and> \<not> fo_has_props o') ValueError) (\<lambda>_.
     wseq [push_vint C True (fo_flags o' f1 f2), push_opt (push_vint C True) g, push_opt (push_vint C True) sg,
       push_opt (push_vint C True) ob,
       if bit_set (fo_flags o' f1 f2) FETCH_FLAG_PRIORITY_PRESENT then push_uint8 C (fo_publisher_priority o') else Inr [],
       if fo_has_props o' then extensions_encode C True (map_option fst (fo_extensions o')) True True else Inr [],
       if fo_payload o' \<noteq> [] then wseq [push_vint C True (int (length (fo_payload o'))), push_bytes (fo_payload o')]
       else wseq [push_vint C True 0, if fetch_object_status prof then push_vint C True (fo_status o') else Inr []]]))"
  using assms by (simp add: fo_serialize_d18_def fo_flags_def Let_def bindR_def)

lemma fo_roundtrip_d18:
  assumes s: "fo_serialize_d18 C p ord' prof o' = Inr bs" and e: "fo_end_of_range o' = None" and ok: "fo_ok C prof limit o'"
    and vi: "vi64 prof" and a: "agree p q"
  shows "reads True (fo_deserialize_d18 C tol q ord' prof limit) bs (fo_received prof o')"
proof -
  let ?push = "push_vint C True"
  obtain f2 sg where sgs: "fo_subgroup_d18 o' p = (f2, sg)" by (cases "fo_subgroup_d18 o' p") auto
  obtain f1 g ob where ids: "fo_ids_d18 o' p ord' = Inr (f1, g, ob)"
    using s e by (cases "fo_ids_d18 o' p ord'") (auto simp: fo_serialize_d18_def in_buffer_eq bindR_def)
  let ?f = "fo_flags o' f1 f2"
  obtain fb gb sb obb pb eb xb where
      fb: "?push ?f = Inr fb" and gb: "push_opt ?push g = Inr gb" and sb: "push_opt ?push sg = Inr sb"
    and obb: "push_opt ?push ob = Inr obb"
    and pb: "(if bit_set ?f FETCH_FLAG_PRIORITY_PRESENT then push_uint8 C (fo_publisher_priority o') else Inr []) = Inr pb"
    and eb: "(if fo_has_props o' then extensions_encode C True (map_option fst (fo_extensions o')) True True else Inr []) = Inr eb"
    and xb: "(if fo_payload o' \<noteq> [] then wseq [?push (int (length (fo_payload o'))), push_bytes (fo_payload o')]
                else wseq [?push 0, if fetch_object_status prof then ?push (fo_status o') else Inr []]) = Inr xb"
    and st: "fo_status o' = STATUS_NORMAL \<or> fetch_object_status prof \<and> fo_payload o' = [] \<and> \<not> fo_has_props o'"
    and bs: "bs = fb @ gb @ sb @ obb @ pb @ eb @ xb"
    using s unfolding fo_serialize_d18_eq [OF e ids sgs] by (auto simp: wr)
  note okD = ok [unfolded fo_ok_def e option.case vi simp_thms]
  let ?pr = "case p of None \<Rightarrow> True | Some a \<Rightarrow> fo_publisher_priority o' \<noteq> fo_publisher_priority a"
  have f1: "f1 = (if g \<noteq> None then 0x08 else 0) OR (if ob \<noteq> None then 0x04 else 0) OR (if ?pr then 0x10 else 0)"
    using fo_ids_d18_flags [OF ids] by (auto split: option.splits)
  have f2: "f2 \<in> {0, 1, 2, 3, 0x40}" using fo_sg_mode_range [of o' p] sgs by (simp add: fo_sg_mode_def)
  note fl = flag_bits [OF f1 f2, of o']
  have dg: "fo_datagram o' = (f2 = 0x40)" using sgs by (auto simp: fo_subgroup_d18_def Let_def fetch_flag_defs split: if_splits)
  have pg: "q \<noteq> None \<or> (g \<noteq> None \<and> ob \<noteq> None)" using ids a by (cases p) (auto simp: fo_ids_d18_def)
  have rg: "reads True (fo_group_d18 C ?f q ord') gb (fo_group_id o')"
    using okD by (intro fo_group_reads [OF ids gb a fl(1)]) auto
  have rs: "reads True (fo_pull_subgroup_d18 C ?f q) sb (fo_subgroup_id o')"
    using okD by (intro fo_subgroup_reads [OF sgs sb a fl(5) fl(6)]) auto
  have ro: "reads True (fo_object_d18 C ?f q) obb (fo_object_id o')"
    using okD by (intro fo_object_reads [OF ids obb a fl(1,2)]) auto
  have rp: "reads True (fo_priority_d18 C ?f q) pb (fo_publisher_priority o')"
    using okD by (intro fo_priority_reads [OF pb a fl(3)]) auto
  let ?x = "if fo_has_props o' then ext_received True (map_option fst (fo_extensions o')) else None"
  have re: "reads True (if bit_set ?f FETCH_FLAG_EXTENSIONS_PRESENT then extensions_decode C tol True None True True else rret None) eb ?x"
    unfolding fl(4) using okD vi by (intro fo_exts_reads [OF eb]) auto
  have rx: "reads True (fo_payload_d18 C prof limit ?x) xb (fo_status o', fo_payload o')"
    using okD st by (intro fo_payload_reads [OF xb]) auto
  show ?thesis unfolding fo_deserialize_d18_def bs
    apply (rule reads_bind [OF reads_vint [OF fb]])
    apply (subst if_not_P [OF end_flags_large [OF fl(7)]])
    apply (rule reads_bind0 [OF reads_guard [OF fl(7)]])
    apply (rule reads_bind0 [OF reads_guard], use pg fl(1,2) in blast)
    apply (rule reads_bind [OF rg], rule reads_bind [OF rs], rule reads_bind [OF ro], rule reads_bind [OF rp])
    apply (rule reads_bind [OF re], rule reads_bind_end [OF rx])
    using e dg fl(5) vi by (cases o') (auto simp: reads_def rret_def fo_received_def)
qed

lemma fo_marker_d18:
  assumes "fo_serialize_d18 C p ord' prof o' = Inr bs" "fo_end_of_range o' = Some e" "vi64 prof"
  shows "reads True (fo_deserialize_d18 C tol q ord' prof limit) bs (marker_received prof q o')"
proof -
  obtain eb gb ob where eb: "push_vint C True e = Inr eb" and gb: "push_vint C True (fo_group_id o') = Inr gb"
    and ob: "push_vint C True (fo_object_id o') = Inr ob" and bs: "bs = eb @ gb @ ob" and m: "e \<in> set (end_of_range_flags prof)"
    using assms(1,2) by (auto simp: fo_serialize_d18_def Let_def wr)
  show ?thesis unfolding fo_deserialize_d18_def bs
    apply (rule reads_bind [OF reads_vint [OF eb]], subst if_P [OF m])
    apply (rule reads_bind [OF reads_vint [OF gb]], rule reads_bind_end [OF reads_vint [OF ob]])
    using assms(2,3) by (auto simp: reads_def rret_def marker_received_def split: option.splits)
qed

lemma fo_serialize_d16_eq:
  assumes "fo_end_of_range o' = None" "f2 = (if fo_datagram o' then 0x40 else 3)"
  shows "fo_serialize_d16 C o' = in_buffer C (BUF_SIZE + length (fo_payload o'))
    (bindR (guardR (fo_status o' = STATUS_NORMAL) ValueError) (\<lambda>_.
     wseq [push_uint_var C (fo_flags o' 0x1C f2), push_uint_var C (fo_group_id o'),
       if fo_datagram o' then Inr [] else push_uint_var C (fo_subgroup_id o'),
       push_uint_var C (fo_object_id o'), push_uint8 C (fo_publisher_priority o'),
       if fo_has_props o' then extensions_encode C False (map_option fst (fo_extensions o')) True True else Inr [],
       push_uint_var C (int (length (fo_payload o'))), push_bytes (fo_payload o')]))"
  using assms
  by (simp add: fo_serialize_d16_def fo_flags_def Let_def bindR_def guardR_def fetch_flag_defs bit_set_def)

lemma fo_roundtrip_d16:
  assumes s: "fo_serialize_d16 C o' = Inr bs" and e: "fo_end_of_range o' = None" and ok: "fo_ok C prof limit o'"
    and d: "\<not> vi64 prof" "is_draft16_or_later (draft prof)"
  shows "reads False (fo_deserialize_d16 C tol q limit) bs (fo_received prof o')"
proof -
  define f2 :: int where "f2 = (if fo_datagram o' then 0x40 else 3)"
  let ?push = "push_uint_var C" and ?f = "fo_flags o' 0x1C f2"
  obtain fb gb sb ob pb eb lb where
      fb: "?push ?f = Inr fb" and gb: "?push (fo_group_id o') = Inr gb"
    and sb: "(if fo_datagram o' then Inr [] else ?push (fo_subgroup_id o')) = Inr sb"
    and ob: "?push (fo_object_id o') = Inr ob" and pb: "push_uint8 C (fo_publisher_priority o') = Inr pb"
    and eb: "(if fo_has_props o' then extensions_encode C False (map_option fst (fo_extensions o')) True True else Inr []) = Inr eb"
    and lb: "?push (int (length (fo_payload o'))) = Inr lb" and st: "fo_status o' = STATUS_NORMAL"
    and bs: "bs = fb @ gb @ sb @ ob @ pb @ eb @ lb @ fo_payload o'"
    using s unfolding fo_serialize_d16_eq [OF e f2_def] by (auto simp: wr)
  note okD = ok [unfolded fo_ok_def e option.case]
  have f1: "0x1C = (if True then 0x08 else 0) OR (if True then 0x04 else 0) OR (if True then 0x10 else 0::int)" by simp
  have f2: "f2 \<in> {0, 1, 2, 3, 0x40}" by (simp add: f2_def)
  note fl = flag_bits [OF f1 f2, of o', unfolded simp_thms]
  have dg: "(f2 = 0x40) = fo_datagram o'" by (simp add: f2_def)
  have mk: "\<not> (?f = FETCH_FLAGS_END_NON_EXISTENT \<or> ?f = FETCH_FLAGS_END_UNKNOWN)"
    using fl(7) by (auto simp: fetch_flag_defs)
  have rs: "reads False (fo_pull_subgroup_d16 C ?f q) sb (fo_subgroup_id o')"
    using sb okD fl(6) unfolding fo_pull_subgroup_d16_def Let_def fl(5) dg
    by (auto simp: f2_def fetch_flag_defs intro!: reads_ret reads_uint_var split: if_splits)
  let ?x = "if fo_has_props o' then ext_received True (map_option fst (fo_extensions o')) else None"
  have re: "reads False (if fo_has_props o' then extensions_decode C tol True None True True else rret None) eb ?x"
    using okD d by (intro fo_exts_reads [OF eb]) auto
  have rx: "reads False (if int (length (fo_payload o')) \<noteq> 0 then pull_bytes (int (length (fo_payload o'))) else rret [])
      (fo_payload o') (fo_payload o')"
    by (auto intro: reads_pull_bytes reads_ret)
  have lim: "payload_fits (fo_payload o') limit" using okD by simp
  show ?thesis unfolding fo_deserialize_d16_def Let_def bs
    apply (rule reads_bind [OF reads_uint_var [OF fb]], subst if_not_P [OF mk])
    apply (rule reads_bind0 [OF reads_guard [OF fl(7)]], rule reads_bind0 [OF reads_guard], use fl(1,2) in blast)
    apply (simp only: fl(1-5) dg if_True)
    apply (rule reads_bind [OF reads_uint_var [OF gb]], rule reads_bind [OF rs], rule reads_bind [OF reads_uint_var [OF ob]])
    apply (rule reads_bind [OF reads_uint8 [OF pb]], rule reads_bind [OF re], rule reads_bind [OF reads_uint_var [OF lb]])
    apply (rule reads_bind0 [OF reads_lift [OF payload_guard [OF lim]]], rule reads_bind_end [OF rx])
    using e d st by (cases o') (auto simp: reads_def rret_def fo_received_def)
qed

lemma fo_marker_d16:
  assumes "fo_serialize_d16 C o' = Inr bs" "fo_end_of_range o' = Some e" "e \<in> set (end_of_range_flags prof)"
    and "\<not> fetch_timed_out_range prof"
  shows "reads False (fo_deserialize_d16 C tol q limit) bs (fo_marker (fo_group_id o') (fo_object_id o') e 0 MOQT_DEFAULT_PRIORITY)"
proof -
  obtain eb gb ob where eb: "push_uint_var C e = Inr eb" and gb: "push_uint_var C (fo_group_id o') = Inr gb"
    and ob: "push_uint_var C (fo_object_id o') = Inr ob" and bs: "bs = eb @ gb @ ob"
    using assms(1,2) by (auto simp: fo_serialize_d16_def Let_def wr)
  have m: "e = FETCH_FLAGS_END_NON_EXISTENT \<or> e = FETCH_FLAGS_END_UNKNOWN"
    using assms(3,4) by (auto simp: end_of_range_flags_def)
  show ?thesis unfolding fo_deserialize_d16_def Let_def bs
    apply (rule reads_bind [OF reads_uint_var [OF eb]], subst if_P [OF m])
    apply (rule reads_bind [OF reads_uint_var [OF gb]], rule reads_bind_end [OF reads_uint_var [OF ob]], rule reads_ret)
    done
qed

lemma fo_roundtrip_d14:
  assumes s: "fo_serialize_d14 C o' = Inr bs" and e: "fo_end_of_range o' = None" and ok: "fo_ok C prof limit o'"
    and d: "\<not> vi64 prof" "\<not> is_draft16_or_later (draft prof)"
  shows "reads False (fo_deserialize_d14 C tol limit) bs (fo_received prof o')"
proof -
  let ?push = "push_uint_var C"
  obtain gb sb ob pb eb xb where gb: "?push (fo_group_id o') = Inr gb" and sb: "?push (fo_subgroup_id o') = Inr sb"
    and ob: "?push (fo_object_id o') = Inr ob" and pb: "push_uint8 C (fo_publisher_priority o') = Inr pb"
    and eb: "(if True then extensions_encode C False (map_option fst (fo_extensions o')) True False else Inr []) = Inr eb"
    and xb: "(if fo_status o' = STATUS_NORMAL \<and> fo_payload o' \<noteq> []
          then wseq [?push (int (length (fo_payload o'))), push_bytes (fo_payload o')]
        else wseq [?push 0, ?push (fo_status o')]) = Inr xb"
    and bs: "bs = gb @ sb @ ob @ pb @ eb @ xb"
    using s by (auto simp: fo_serialize_d14_def Let_def wr)
  note okD = ok [unfolded fo_ok_def e option.case]
  have re: "reads False (if True then extensions_decode C tol True None False True else rret None) eb
      (if True then ext_received False (map_option fst (fo_extensions o')) else None)"
    using okD d by (intro fo_exts_reads [OF eb]) auto
  let ?k = "\<lambda>n. rbind (if n = 0 then rbind (pull_uint_var C) (\<lambda>s. rbind (rlift (object_status s)) (\<lambda>st. rret (st, [])))
            else rbind (pull_bytes n) (\<lambda>p. rret (STATUS_NORMAL, p))) (\<lambda>(status, payload).
     rret \<lparr>fo_group_id = fo_group_id o', fo_subgroup_id = fo_subgroup_id o', fo_object_id = fo_object_id o',
           fo_publisher_priority = fo_publisher_priority o', fo_extensions = ext_received False (map_option fst (fo_extensions o')),
           fo_status = status, fo_payload = payload, fo_end_of_range = None, fo_datagram = False\<rparr>)"
  have fin: "reads False (rbind (pull_uint_var C) (\<lambda>n. rbind (rlift (check_payload_len n limit)) (\<lambda>_. ?k n))) xb (fo_received prof o')"
  proof (cases "fo_payload o' = []")
    case True
    then obtain z s where z: "?push 0 = Inr z" "?push (fo_status o') = Inr s" "xb = z @ s" using xb by (auto simp: wr)
    have st: "object_status (fo_status o') = Inr (fo_status o')" using okD by (intro object_status_ok) auto
    have len: "check_payload_len 0 limit = Inr ()" using okD True payload_guard [of "[]" limit] by simp
    show ?thesis unfolding z(3)
      apply (rule reads_bind [OF reads_uint_var [OF z(1)]], rule reads_bind0 [OF reads_lift [OF len]])
      apply (simp only: simp_thms if_True)
      apply (rule reads_bind_end [OF reads_bind_end [OF reads_uint_var [OF z(2)]]])
       apply (rule reads_bind0 [OF reads_lift [OF st]], rule reads_ret)
      using True e d by (cases o') (simp add: reads_def rret_def fo_received_def)
  next
    case False
    then have st: "fo_status o' = STATUS_NORMAL" using okD by auto
    then obtain l where l: "?push (int (length (fo_payload o'))) = Inr l" "xb = l @ fo_payload o'" using False xb by (auto simp: wr)
    have len: "check_payload_len (int (length (fo_payload o'))) limit = Inr ()" using okD by (intro payload_guard) auto
    have n0: "int (length (fo_payload o')) \<noteq> 0" using False by simp
    show ?thesis unfolding l(2)
      apply (rule reads_bind [OF reads_uint_var [OF l(1)]], rule reads_bind0 [OF reads_lift [OF len]])
      apply (subst if_not_P [OF n0])
      apply (rule reads_bind_end [OF reads_bind_end [OF reads_pull_bytes [OF refl]]], rule reads_ret)
      using st e d by (cases o') (simp add: reads_def rret_def fo_received_def)
  qed
  show ?thesis unfolding fo_deserialize_d14_def Let_def bs
    by (rule reads_bind [OF reads_uint_var [OF gb]], rule reads_bind [OF reads_uint_var [OF sb]],
        rule reads_bind [OF reads_uint_var [OF ob]], rule reads_bind [OF reads_uint8 [OF pb]],
        rule reads_bind [OF re [simplified]], rule fin)
qed

end

section \<open>The whole stream\<close>

lemma profiles_table: "list_all (\<lambda>(_, p). vi64 p \<or> \<not> fetch_timed_out_range p) PROFILES"
  by code_simp

lemma profiles_timed_out: "prof \<in> snd ` set PROFILES \<Longrightarrow> \<not> vi64 prof \<Longrightarrow> \<not> fetch_timed_out_range prof"
  using profiles_table by (auto simp: list_all_iff)

definition fetch_view :: "DraftProfile \<Rightarrow> FetchObject option \<Rightarrow> FetchObject \<Rightarrow> FetchObject" where
  "fetch_view prof prior o' = (if fo_end_of_range o' = None then fo_received prof o' else marker_received prof prior o')"

lemma agree_step:
  assumes "vi64 prof" "agree p q" "fo_ok C prof limit o'"
  shows "agree (Some (serve_prior p o')) (Some (fetch_view prof q o'))"
  using assms(2)
  by (cases rule: agree_cases)
    (use assms(1,3) in \<open>auto simp: fetch_view_def serve_prior_def fo_received_def marker_received_def fo_marker_def fo_ok_def
      split: option.splits\<close>)

context vcodec_laws
begin

lemma fetch_object_reads:
  assumes "fo_serialize C prof p ord' o' = Inr bs" "fo_ok C prof limit o'" "vi64 prof \<Longrightarrow> agree p q" "prof \<in> snd ` set PROFILES"
  shows "reads (vi64 prof) (recv_fetch_object C tol prof ord' limit q) bs (fetch_view prof q o')"
proof -
  define r where "r = (if fo_end_of_range o' = None then fo_received prof o'
      else if vi64 prof then marker_received prof q o'
      else fo_marker (fo_group_id o') (fo_object_id o') (the (fo_end_of_range o')) 0 MOQT_DEFAULT_PRIORITY)"
  have "reads (vi64 prof) (fo_deserialize C tol q prof ord' limit) bs r"
  proof (cases "fo_end_of_range o'")
    case None
    then show ?thesis using assms fo_roundtrip_d18 fo_roundtrip_d16 fo_roundtrip_d14
      by (auto simp: fo_serialize_def fo_deserialize_def r_def split: if_splits)
  next
    case (Some e)
    then show ?thesis using assms(1,2) fo_marker_d18 fo_marker_d16 profiles_timed_out [OF assms(4)]
      by (auto simp: fo_serialize_def fo_deserialize_def r_def fo_ok_def split: if_splits)
  qed
  then show ?thesis unfolding recv_fetch_object_def
    by (rule reads_bind_end)
      (auto simp: reads_def rret_def r_def fetch_view_def fo_received_def marker_received_def fo_marker_def split: option.splits)
qed

lemma fetch_stream_reads:
  assumes "serve_objects C prof ord' p os = Inr bs" "list_all (fo_ok C prof limit) os" "vi64 prof \<Longrightarrow> agree p q"
    and "prof \<in> snd ` set PROFILES"
  shows "reads (vi64 prof) (recv_fetch C tol prof ord' limit (length (fetched prof q os)) q) bs (fetched prof q os)"
  using assms(1-3)
proof (induction os arbitrary: p q bs)
  case Nil
  then show ?case by (simp add: reads_ret)
next
  case (Cons o' os)
  show ?case
  proof (cases "serve_skips prof o'")
    case True
    then show ?thesis using Cons by simp
  next
    case False
    then obtain a c where a: "fo_serialize C prof p ord' o' = Inr a" and bs: "bs = a @ c"
      and c: "serve_objects C prof ord' (Some (serve_prior p o')) os = Inr c"
      using Cons.prems(1) by (auto simp: wr)
    let ?r = "fetch_view prof q o'"
    have ok: "fo_ok C prof limit o'" "list_all (fo_ok C prof limit) os" using Cons.prems(2) by auto
    have ag: "agree (Some (serve_prior p o')) (Some ?r)" if "vi64 prof" using that agree_step ok(1) Cons.prems(3) by blast
    have "fetched prof q (o' # os) = ?r # fetched prof (Some ?r) os" using False by (simp add: fetch_view_def Let_def)
    then show ?thesis unfolding bs
      by (simp, intro reads_bind [OF fetch_object_reads [OF a ok(1) Cons.prems(3) assms(4)]] reads_bind_end
          [OF Cons.IH [OF c ok(2) ag]] reads_ret)
  qed
qed

end

text \<open>
  C23: a fetch stream delivers what was served. Whatever list of objects, datagrams and End-of-Range markers
  a publisher serves, in ascending or descending group order and at any supported draft, the receiver of
  those bytes reads exactly that list, in order: each object with its group, subgroup, object ID, priority,
  status, extensions and payload, each marker with its location and kind (and, from the object before it,
  the subgroup and priority), and nothing for an object whose status the draft cannot carry. In particular
  the two ends never disagree on the prior object that the deltas of draft 18 refer to.
\<close>

theorem fetch_stream_roundtrip:
  assumes "vcodec_laws C" "prof \<in> snd ` set PROFILES" "list_all (fo_ok C prof limit) os"
    and "serve_objects C prof ord' None os = Inr bs"
  shows "reads (vi64 prof) (recv_fetch C tol prof ord' limit (length (fetched prof None os)) None) bs (fetched prof None os)"
  using vcodec_laws.fetch_stream_reads [OF assms(1,4,3) _ assms(2)] by simp

theorem fetch_stream_roundtrip_witness:
  "let os = [\<lparr>fo_group_id = 7, fo_subgroup_id = 2, fo_object_id = 0, fo_publisher_priority = 9, fo_extensions = None,
        fo_status = 0, fo_payload = [1, 2], fo_end_of_range = None, fo_datagram = False\<rparr>,
       fo_marker 7 4 0x8C 2 9,
       \<lparr>fo_group_id = 6, fo_subgroup_id = 2, fo_object_id = 1, fo_publisher_priority = 9, fo_extensions = None,
        fo_status = 0, fo_payload = [3], fo_end_of_range = None, fo_datagram = False\<rparr>] in
   reads True (recv_fetch std_codec False PROFILE_D18 2 100 3 None)
     [31, 7, 2, 0, 9, 2, 1, 2, 128, 140, 7, 4, 13, 0, 1, 1, 3] os"
proof -
  let ?os = "[\<lparr>fo_group_id = 7, fo_subgroup_id = 2, fo_object_id = 0, fo_publisher_priority = 9, fo_extensions = None,
        fo_status = 0, fo_payload = [1, 2], fo_end_of_range = None, fo_datagram = False\<rparr>,
       fo_marker 7 4 0x8C 2 9,
       \<lparr>fo_group_id = 6, fo_subgroup_id = 2, fo_object_id = 1, fo_publisher_priority = 9, fo_extensions = None,
        fo_status = 0, fo_payload = [3], fo_end_of_range = None, fo_datagram = False\<rparr>]"
  have 1: "PROFILE_D18 \<in> snd ` set PROFILES" by (simp add: PROFILES_def)
  have 2: "list_all (fo_ok std_codec PROFILE_D18 100) ?os" by code_simp
  have 3: "serve_objects std_codec PROFILE_D18 2 None ?os = Inr [31, 7, 2, 0, 9, 2, 1, 2, 128, 140, 7, 4, 13, 0, 1, 1, 3]"
    by code_simp
  have 4: "fetched PROFILE_D18 None ?os = ?os" "length ?os = 3" "vi64 PROFILE_D18 = True" by code_simp+
  show ?thesis
    using fetch_stream_roundtrip [OF std.vcodec_laws_axioms 1 2 3, of False] unfolding 4 by (simp only: Let_def)
qed

section \<open>Datagrams\<close>

definition od_received :: "DraftProfile option \<Rightarrow> ObjectDatagram \<Rightarrow> ObjectDatagram" where
  "od_received prof d = d\<lparr>
     od_extensions := (if has_exts (od_extensions d) then ext_received (opt_delta prof) (map_option fst (od_extensions d)) else None),
     od_payload := (if od_is_status prof d then [] else od_payload d),
     od_end_of_group := (od_end_of_group d \<and> \<not> od_is_status prof d),
     od_status := (if od_is_status prof d then od_status d else STATUS_NORMAL)\<rparr>"

definition od_ok :: "vcodec \<Rightarrow> DraftProfile option \<Rightarrow> ObjectDatagram \<Rightarrow> bool" where
  "od_ok C prof d \<longleftrightarrow> od_status d \<in> set (enum_values ObjectStatus) \<and> exts_ok (map_option fst (od_extensions d))
     \<and> exts_fit C (opt_vi64 prof) (od_extensions d) (opt_delta prof)"

definition od_type_ok :: "bool \<Rightarrow> bool \<Rightarrow> bool \<Rightarrow> bool \<Rightarrow> bool" where
  "od_type_ok ex eg z st =
    (let t0 = OBJECT_DATAGRAM_BASE; t1 = (if ex then t0 OR 0x01 else t0); t2 = (if eg then t1 OR 0x02 else t1);
         t3 = (if z then t2 OR 0x04 else t2); t = (if st then t3 OR 0x20 else t3) in
     bit_set t 0x01 = ex \<and> bit_set t 0x02 = eg \<and> bit_set t 0x04 = z \<and> bit_set t 0x20 = st \<and> \<not> bit_set t 0x08)"

lemma od_type_table: "\<forall>ex eg z st. od_type_ok ex eg z st"
  by code_simp

lemma od_type_eq:
  "od_type prof d =
    (let t0 = OBJECT_DATAGRAM_BASE; t1 = (if has_exts (od_extensions d) then t0 OR 0x01 else t0);
         t2 = (if od_end_of_group d \<and> \<not> od_is_status prof d then t1 OR 0x02 else t1);
         t3 = (if od_object_id d = 0 then t2 OR 0x04 else t2)
     in if od_is_status prof d then t3 OR 0x20 else t3)"
  by (cases "opt_merged prof") (simp_all only: od_type_def od_is_status_def simp_thms if_True if_False Let_def)

lemma od_type_bits:
  shows "bit_set (od_type prof d) 0x01 = has_exts (od_extensions d)"
    "bit_set (od_type prof d) 0x02 = (od_end_of_group d \<and> \<not> od_is_status prof d)"
    "bit_set (od_type prof d) 0x04 = (od_object_id d = 0)"
    "opt_merged prof \<Longrightarrow> bit_set (od_type prof d) 0x20 = od_is_status prof d"
    "opt_merged prof \<Longrightarrow> \<not> bit_set (od_type prof d) 0x08"
proof -
  have "od_type_ok (has_exts (od_extensions d)) (od_end_of_group d \<and> \<not> od_is_status prof d) (od_object_id d = 0) (od_is_status prof d)"
    using od_type_table by blast
  then show "bit_set (od_type prof d) 0x01 = has_exts (od_extensions d)"
    "bit_set (od_type prof d) 0x02 = (od_end_of_group d \<and> \<not> od_is_status prof d)"
    "bit_set (od_type prof d) 0x04 = (od_object_id d = 0)"
    "opt_merged prof \<Longrightarrow> bit_set (od_type prof d) 0x20 = od_is_status prof d"
    "opt_merged prof \<Longrightarrow> \<not> bit_set (od_type prof d) 0x08"
    unfolding od_type_eq od_type_ok_def Let_def by blast+
qed

lemma od_merged_bits:
  "(opt_merged prof \<and> bit_set (od_type prof d) 0x20) = od_is_status prof d"
  "(opt_merged prof \<and> bit_set (od_type prof d) 0x08) = False"
  using od_type_bits(4,5) by (auto simp: od_is_status_def)

context vcodec_laws
begin

lemma od_reads:
  assumes s: "od_serialize C prof d = Inr bs" and ok: "od_ok C prof d"
  obtains t rest where "bs = t @ rest" "push_vint C (opt_vi64 prof) (od_type prof d) = Inr t"
    "\<And>b buf_len. has (opt_vi64 prof) b rest \<Longrightarrow> buf_len = int (rb_pos b + length rest) \<Longrightarrow>
       od_deserialize C tol buf_len (od_type prof d) prof b = Inr (od_received prof d, adv b (length rest))"
proof -
  let ?push = "push_as C (opt_vi64 prof)" and ?f = "opt_vi64 prof"
  obtain tb ab gb ob pb eb xb where tb: "?push (od_type prof d) = Inr tb" and ab: "?push (od_track_alias d) = Inr ab"
    and gb: "?push (od_group_id d) = Inr gb" and ob: "(if od_object_id d = 0 then Inr [] else ?push (od_object_id d)) = Inr ob"
    and pb: "push_uint8 C (od_publisher_priority d) = Inr pb"
    and eb: "(if has_exts (od_extensions d)
          then extensions_encode C ?f (map_option fst (od_extensions d)) True (opt_delta prof) else Inr []) = Inr eb"
    and xb: "(if od_is_status prof d then ?push (od_status d) else push_bytes (od_payload d)) = Inr xb"
    and bs: "bs = tb @ ab @ gb @ ob @ pb @ eb @ xb"
    using s unfolding od_serialize_def Let_def by (auto simp: wr)
  let ?rest = "ab @ gb @ ob @ pb @ eb @ xb"
  have ro: "reads ?f (if od_object_id d = 0 then rret 0 else pull_as C ?f) ob (od_object_id d)"
    using ob by (auto intro: reads_ret reads_as split: if_splits)
  let ?x = "if has_exts (od_extensions d) then ext_received (opt_delta prof) (map_option fst (od_extensions d)) else None"
  have re: "reads ?f (if has_exts (od_extensions d) then extensions_decode C tol True None (opt_delta prof) True else rret None) eb ?x"
    using ok by (intro fo_exts_reads [OF eb]) (auto simp: od_ok_def)
  have st: "object_status (od_status d) = Inr (od_status d)" using ok by (intro object_status_ok) (simp add: od_ok_def)
  have "od_deserialize C tol buf_len (od_type prof d) prof b = Inr (od_received prof d, adv b (length ?rest))"
    if h: "has ?f b ?rest" and n: "buf_len = int (rb_pos b + length ?rest)" for b buf_len
  proof -
    have hs: "has ?f b ab" "has ?f (adv b (length ab)) gb" "has ?f (adv b (length (ab @ gb))) ob"
        "has ?f (adv b (length (ab @ gb @ ob))) pb" "has ?f (adv b (length (ab @ gb @ ob @ pb))) eb"
        "has ?f (adv b (length (ab @ gb @ ob @ pb @ eb))) xb"
      using h by (simp_all add: has_append add.assoc)
    note r = readsD [OF reads_as [OF ab] hs(1)] readsD [OF reads_as [OF gb] hs(2)] readsD [OF ro hs(3)]
      readsD [OF reads_uint8 [OF pb] hs(4)] readsD [OF re hs(5)]
    show ?thesis
    proof (cases "od_is_status prof d")
      case True
      then have x: "?push (od_status d) = Inr xb" using xb by simp
      show ?thesis using r readsD [OF reads_as [OF x] hs(6)] True st
        unfolding od_deserialize_def Let_def od_merged_bits od_type_bits(1-3)
        by (cases d) (simp add: rsteps od_received_def add.assoc)
    next
      case False
      then have x: "xb = od_payload d" using xb by (simp add: wr)
      show ?thesis using r readsD [OF reads_pull_bytes [OF refl] hs(6)] False
        unfolding od_deserialize_def Let_def od_merged_bits od_type_bits(1-3)
        by (cases d) (simp add: rsteps od_received_def add.assoc n x)
    qed
  qed
  then show thesis using that [of tb ?rest] tb by (simp add: bs push_as_vint)
qed

end

text \<open>
  an object datagram carries its object intact at every draft and with no profile: behind its type, the
  receiver reads the alias, group, object ID (also the elided ID 0), priority, extensions and the payload
  up to the end of the datagram, or the status where the draft merges status datagrams.
\<close>

theorem object_datagram_roundtrip:
  assumes "vcodec_laws C" "od_serialize C prof d = Inr bs" "od_ok C prof d"
  shows "\<exists>t rest. bs = t @ rest \<and> push_vint C (opt_vi64 prof) (od_type prof d) = Inr t
    \<and> (\<forall>b. has (opt_vi64 prof) b rest \<longrightarrow>
         od_deserialize C tol (int (rb_pos b + length rest)) (od_type prof d) prof b = Inr (od_received prof d, adv b (length rest)))"
  using vcodec_laws.od_reads [OF assms, of tol] by metis

theorem object_datagram_roundtrip_witness:
  "od_deserialize std_codec False 7 0x05 (Some PROFILE_D18) (new_rbuf [5, 9, 128, 2, 2, 7, 0xAA] True) =
     Inr (\<lparr>od_track_alias = 5, od_group_id = 9, od_object_id = 0, od_publisher_priority = 128,
            od_extensions = Some ([(2, PInt 7)], []), od_payload = [0xAA], od_end_of_group = False, od_status = 0\<rparr>,
          adv (new_rbuf [5, 9, 128, 2, 2, 7, 0xAA] True) 7)"
proof -
  let ?d = "\<lparr>od_track_alias = 5, od_group_id = 9, od_object_id = 0, od_publisher_priority = 128,
            od_extensions = Some ([(2, PInt 7)], []), od_payload = [0xAA], od_end_of_group = False, od_status = 0\<rparr>"
  let ?b = "new_rbuf [5, 9, 128, 2, 2, 7, 0xAA] True"
  have 1: "od_serialize std_codec (Some PROFILE_D18) ?d = Inr [0x05, 5, 9, 128, 2, 2, 7, 0xAA]" by code_simp
  have 2: "od_ok std_codec (Some PROFILE_D18) ?d" by code_simp
  have 3: "od_received (Some PROFILE_D18) ?d = ?d" "od_type (Some PROFILE_D18) ?d = 0x05" "opt_vi64 (Some PROFILE_D18) = True"
    by code_simp+
  have 4: "push_vint std_codec True 0x05 = Inr [0x05]" "has True ?b [5, 9, 128, 2, 2, 7, 0xAA]" "rb_pos ?b = 0" by code_simp+
  obtain t rest where t: "[0x05, 5, 9, 128, 2, 2, 7, 0xAA] = t @ rest" "push_vint std_codec True 0x05 = Inr t"
    and r: "\<forall>b. has True b rest \<longrightarrow>
       od_deserialize std_codec False (int (rb_pos b + length rest)) 0x05 (Some PROFILE_D18) b = Inr (?d, adv b (length rest))"
    using object_datagram_roundtrip [OF std.vcodec_laws_axioms 1 2, of False] unfolding 3 by blast
  have "rest = [5, 9, 128, 2, 2, 7, 0xAA]" using t 4(1) by auto
  then show ?thesis using spec [OF r, of ?b] 4(2,3) by (simp add: eval_nat_numeral)
qed

end
