(* ===== verification/Control_Codec.thy ===== *)
theory Control_Codec
  imports Data_Plane
begin

text \<open>
  The control messages of \<^verbatim>\<open>messages/session_setup.py\<close> (with \<^verbatim>\<open>d18\<close> and \<^verbatim>\<open>d20\<close>), \<^verbatim>\<open>request.py\<close> and \<^verbatim>\<open>namespace.py\<close>,
  and the short messages of \<^verbatim>\<open>subscribe.py\<close>, \<^verbatim>\<open>publish.py\<close> and \<^verbatim>\<open>fetch.py\<close>: for each class its fields, its
  \<^verbatim>\<open>serialize\<close> and its \<^verbatim>\<open>deserialize\<close>. The contract every class keeps with the dispatcher, that the body it
  writes is the body it reads up to the message Length, is the locale \<open>message_codec\<close>.
\<close>

section \<open>Frames and field writers\<close>

text \<open>A control message: the Type as the class writes it, a 16-bit Length, the body.\<close>

definition frame :: "vcodec \<Rightarrow> bytes result \<Rightarrow> bytes result \<Rightarrow> bytes result" where
  "frame C ty payload =
    bindR payload (\<lambda>p. in_buffer C BUF_SIZE (wseq [ty, push_uint16 C (int (length p)), push_bytes p]))"

text \<open>A body in its own buffer.\<close>

definition body :: "vcodec \<Rightarrow> bytes result list \<Rightarrow> bytes result" where
  "body C ws = in_buffer C BUF_SIZE (wseq ws)"

text \<open>\<^verbatim>\<open>push_vint\<close> and \<^verbatim>\<open>push_uint8\<close> of a field that may be \<^verbatim>\<open>None\<close>, and of a field whose value came from a parameter.\<close>

definition push_req :: "vcodec \<Rightarrow> bool \<Rightarrow> int option \<Rightarrow> bytes result" where
  "push_req C f x = (case x of None \<Rightarrow> Inl TypeError | Some n \<Rightarrow> push_vint C f n)"

definition push_u8 :: "vcodec \<Rightarrow> int option \<Rightarrow> bytes result" where
  "push_u8 C x = (case x of None \<Rightarrow> Inl TypeError | Some n \<Rightarrow> push_uint8 C n)"

definition push_u8v :: "vcodec \<Rightarrow> pval option \<Rightarrow> bytes result" where
  "push_u8v C x = (case x of Some (PInt n) \<Rightarrow> push_uint8 C n | _ \<Rightarrow> Inl TypeError)"

definition push_reason :: "vcodec \<Rightarrow> bool \<Rightarrow> pystr option \<Rightarrow> bytes result" where
  "push_reason C f s = (case s of None \<Rightarrow> Inl AttributeError | Some x \<Rightarrow> bindR (str_encode x) (push_sized C f))"

text \<open>\<^verbatim>\<open>parameters or {}\<close>, and a dictionary that must be there.\<close>

definition or_empty :: "params option \<Rightarrow> params" where
  "or_empty ps = (case ps of None \<Rightarrow> [] | Some d \<Rightarrow> d)"

definition push_params :: "vcodec \<Rightarrow> DraftProfile \<Rightarrow> params option \<Rightarrow> bytes result" where
  "push_params C prof ps = (case ps of None \<Rightarrow> Inl AttributeError | Some d \<Rightarrow> serialize_params C prof None d)"

definition pull_msg_params :: "vcodec \<Rightarrow> DraftProfile \<Rightarrow> string \<Rightarrow> nat option \<Rightarrow> params reader" where
  "pull_msg_params C prof scope = deserialize_params C prof None (Some scope)"

text \<open>A field read into an optional attribute.\<close>

definition pull_some :: "'a reader \<Rightarrow> 'a option reader" where
  "pull_some r = rbind r (\<lambda>x. rret (Some x))"

definition pull_if :: "bool \<Rightarrow> 'a reader \<Rightarrow> 'a option reader" where
  "pull_if p r = (if p then pull_some r else rret None)"

section \<open>Session setup\<close>

record ServerSetup =
  ss_selected_version :: "int option"
  ss_parameters :: "params option"

definition ServerSetup_payload :: "vcodec \<Rightarrow> DraftProfile \<Rightarrow> ServerSetup \<Rightarrow> bytes result" where
  "ServerSetup_payload C prof m = body C
    [if setup_carries_versions prof then push_req C False (ss_selected_version m) else Inr [],
     push_params C prof (ss_parameters m)]"

definition ServerSetup_serialize :: "vcodec \<Rightarrow> DraftProfile \<Rightarrow> ServerSetup \<Rightarrow> bytes result" where
  "ServerSetup_serialize C prof m = frame C (push_uint_var C 0x21) (ServerSetup_payload C prof m)"

definition ServerSetup_deserialize :: "vcodec \<Rightarrow> DraftProfile \<Rightarrow> nat option \<Rightarrow> ServerSetup reader" where
  "ServerSetup_deserialize C prof e =
    rbind (pull_if (setup_carries_versions prof) (pull_uint_var C)) (\<lambda>v.
    rbind (deserialize_params C prof None None e) (\<lambda>ps.
    rret \<lparr>ss_selected_version = v, ss_parameters = Some ps\<rparr>))"

record ClientSetup =
  cs_versions :: "int list"
  cs_parameters :: "params option"

definition ClientSetup_payload :: "vcodec \<Rightarrow> DraftProfile \<Rightarrow> ClientSetup \<Rightarrow> bytes result" where
  "ClientSetup_payload C prof m = body C
    [if setup_carries_versions prof
       then wseq (push_uint_var C (int (length (cs_versions m))) # map (push_uint_var C) (cs_versions m)) else Inr [],
     push_params C prof (cs_parameters m)]"

definition ClientSetup_serialize :: "vcodec \<Rightarrow> DraftProfile \<Rightarrow> ClientSetup \<Rightarrow> bytes result" where
  "ClientSetup_serialize C prof m = frame C (push_uint_var C 0x20) (ClientSetup_payload C prof m)"

fun pull_versions :: "vcodec \<Rightarrow> nat \<Rightarrow> int list reader" where
  "pull_versions C 0 = rret []"
| "pull_versions C (Suc n) = rbind (pull_uint_var C) (\<lambda>v. rbind (pull_versions C n) (\<lambda>vs. rret (v # vs)))"

definition ClientSetup_deserialize :: "vcodec \<Rightarrow> DraftProfile \<Rightarrow> nat option \<Rightarrow> ClientSetup reader" where
  "ClientSetup_deserialize C prof e =
    rbind (if setup_carries_versions prof then rbind (pull_uint_var C) (\<lambda>n. pull_versions C (nat n)) else rret []) (\<lambda>vs.
    rbind (deserialize_params C prof None None e) (\<lambda>ps.
    rret \<lparr>cs_versions = vs, cs_parameters = Some ps\<rparr>))"

record GoAway =
  ga_new_session_uri :: pystr
  ga_timeout :: int
  ga_request_id :: "int option"

definition MAX_URI_LENGTH :: int where "MAX_URI_LENGTH = 8192"

definition GoAway_payload :: "vcodec \<Rightarrow> DraftProfile \<Rightarrow> GoAway \<Rightarrow> bytes result" where
  "GoAway_payload C prof m =
    (let f = vi64 prof in
     bindR (str_encode (ga_new_session_uri m)) (\<lambda>uri.
     bindR (guardR (int (length uri) \<le> MAX_URI_LENGTH) ValueError) (\<lambda>_. body C
       [push_sized C f uri,
        if 18 \<le> draft prof then push_vint C f (ga_timeout m) else Inr [],
        if 18 \<le> draft prof \<and> goaway_request_id prof then push_opt (push_vint C f) (ga_request_id m) else Inr []])))"

definition GoAway_serialize :: "vcodec \<Rightarrow> DraftProfile \<Rightarrow> GoAway \<Rightarrow> bytes result" where
  "GoAway_serialize C prof m = frame C (push_vint C (vi64 prof) 0x10) (GoAway_payload C prof m)"

definition GoAway_deserialize :: "vcodec \<Rightarrow> DraftProfile \<Rightarrow> nat option \<Rightarrow> GoAway reader" where
  "GoAway_deserialize C prof e =
    rbind (set_vi64 (vi64 prof)) (\<lambda>_.
    rbind (pull_vint C) (\<lambda>n.
    rbind (rguard (n \<le> MAX_URI_LENGTH) BufferReadError) (\<lambda>_.
    rbind (pull_bytes n) (\<lambda>raw.
    rbind (case bytes_decode raw of Inr s \<Rightarrow> rret s | Inl _ \<Rightarrow> rfail MOQTProtocolViolation) (\<lambda>uri.
    rbind (if 18 \<le> draft prof then pull_vint C else rret 0) (\<lambda>timeout.
    rbind rtell (\<lambda>p.
    rbind (pull_if (18 \<le> draft prof \<and> goaway_request_id prof \<and> (case e of None \<Rightarrow> False | Some x \<Rightarrow> p < x)) (pull_vint C)) (\<lambda>rid.
    rret \<lparr>ga_new_session_uri = uri, ga_timeout = timeout, ga_request_id = rid\<rparr>))))))))"

text \<open>SETUP of draft 18: count-less options up to the Length; the Type is always in the draft 18 flavour.\<close>

definition Setup18_payload :: "vcodec \<Rightarrow> DraftProfile \<Rightarrow> params option \<Rightarrow> bytes result" where
  "Setup18_payload C prof options = body C [serialize_kvp_to_end C prof (or_empty options)]"

definition Setup18_serialize :: "vcodec \<Rightarrow> DraftProfile \<Rightarrow> params option \<Rightarrow> bytes result" where
  "Setup18_serialize C prof options = frame C (push_uint_vi64 C 0x2F00) (Setup18_payload C prof options)"

definition the_end :: "nat option \<Rightarrow> (nat \<Rightarrow> 'a reader) \<Rightarrow> 'a reader" where
  "the_end e r = (case e of None \<Rightarrow> rbind rcapacity (\<lambda>n. r n) | Some x \<Rightarrow> r x)"

definition Setup18_deserialize :: "vcodec \<Rightarrow> DraftProfile \<Rightarrow> nat option \<Rightarrow> params option reader" where
  "Setup18_deserialize C prof e = the_end e (\<lambda>n. pull_some (deserialize_kvp_to_end C prof n))"

text \<open>SETUP from draft 20: known options only, values checked on both sides.\<close>

definition SETUP_OPTIONS :: "int list" where "SETUP_OPTIONS = [0x01, 0x03, 0x04, 0x05, 0x06, 0x07, 0x08]"
definition REPEATABLE_OPTIONS :: "int list" where "REPEATABLE_OPTIONS = [0x03]"
definition SETUP_LENGTH_MAX :: int where "SETUP_LENGTH_MAX = 0xFFFF"
definition OPTION_VALUE_MAX :: int where "OPTION_VALUE_MAX = 0xFFFF"
definition OPTION_TYPE_MAX :: int where "OPTION_TYPE_MAX = 2 ^ 64 - 1"

record Setup20 =
  su_options :: "params option"
  su_ignored :: "int list"

fun push_setup_options :: "vcodec \<Rightarrow> DraftProfile \<Rightarrow> int \<Rightarrow> params \<Rightarrow> bytes result" where
  "push_setup_options C prof prev [] = Inr []"
| "push_setup_options C prof prev ((key, v) # xs) =
    bindR (guardR (0 \<le> key \<and> key \<le> OPTION_TYPE_MAX) ValueError) (\<lambda>_. wseq
      [push_vint C (vi64 prof) (key - prev),
       if key mod 2 = 1 then
         bindR (if key = AUTH_TOKEN then auth_token_wrap C v prof else pv_encoded v) (\<lambda>bs.
         bindR (guardR (int (length bs) \<le> OPTION_VALUE_MAX) ValueError) (\<lambda>_. push_sized C (vi64 prof) bs))
       else (case v of
           PInt n \<Rightarrow> bindR (guardR (0 \<le> n \<and> n \<le> OPTION_TYPE_MAX) ValueError) (\<lambda>_. push_vint C (vi64 prof) n)
         | _ \<Rightarrow> Inl TypeError),
       push_setup_options C prof key xs])"

definition Setup20_payload :: "vcodec \<Rightarrow> DraftProfile \<Rightarrow> Setup20 \<Rightarrow> bytes result" where
  "Setup20_payload C prof m = body C [push_setup_options C prof 0 (dict_sorted (or_empty (su_options m)))]"

definition Setup20_serialize :: "vcodec \<Rightarrow> DraftProfile \<Rightarrow> Setup20 \<Rightarrow> bytes result" where
  "Setup20_serialize C prof m =
    bindR (Setup20_payload C prof m) (\<lambda>p.
    bindR (guardR (int (length p) \<le> SETUP_LENGTH_MAX) ValueError) (\<lambda>_.
    in_buffer C (length p + 16) (wseq [push_vint C (vi64 prof) 0x2F00, push_uint16 C (int (length p)), push_bytes p])))"

definition check_extent :: "nat \<Rightarrow> unit reader" where
  "check_extent e = rbind rtell (\<lambda>p. rguard (p \<le> e) MOQTProtocolViolation)"

definition pull_setup_option :: "vcodec \<Rightarrow> nat \<Rightarrow> int \<Rightarrow> (int \<times> pval) reader" where
  "pull_setup_option C e prev =
    rbind (pull_vint C) (\<lambda>d. let key = prev + d in
    rbind (check_extent e) (\<lambda>_.
    rbind (rguard (key \<le> OPTION_TYPE_MAX) MOQTProtocolViolation) (\<lambda>_.
    if key mod 2 = 1 then
      rbind (pull_vint C) (\<lambda>n.
      rbind (check_extent e) (\<lambda>_.
      rbind (rguard (n \<le> OPTION_VALUE_MAX) MOQTProtocolViolation) (\<lambda>_.
      rbind rtell (\<lambda>p.
      rbind (rguard (p + nat n \<le> e) MOQTProtocolViolation) (\<lambda>_.
      rbind (pull_bytes n) (\<lambda>bs. rret (key, PBytes bs)))))))
    else
      rbind (pull_vint C) (\<lambda>n. rbind (check_extent e) (\<lambda>_. rret (key, PInt n))))))"

lemma forward_check_extent [fw]: "forward (check_extent e)"
  unfolding check_extent_def by (auto intro!: fw)

lemma pull_setup_option_progress: "pull_setup_option C e prev b = Inr (x, b1) \<Longrightarrow> rb_pos b < rb_pos b1"
  unfolding pull_setup_option_def by (erule vint_bind_progress) (auto simp: Let_def intro!: fw)

text \<open>What a parsed option does to the options and to the ignored types.\<close>

definition store_option :: "vcodec \<Rightarrow> DraftProfile \<Rightarrow> params \<Rightarrow> int list \<Rightarrow> int \<Rightarrow> pval \<Rightarrow> (params \<times> int list) result" where
  "store_option C prof opts ign key v =
    (if key \<notin> set SETUP_OPTIONS then Inr (opts, ign @ [key])
     else if dict_get opts key \<noteq> None then
       (if key \<in> set REPEATABLE_OPTIONS then Inr (opts, ign) else Inl MOQTProtocolViolation)
     else if key = AUTH_TOKEN then
       bindR (case v of PBytes bs \<Rightarrow> auth_token_unwrap C bs prof | _ \<Rightarrow> Inl TypeError) (\<lambda>v'. Inr (dict_set opts key v', ign))
     else Inr (dict_set opts key v, ign))"

function setup_options_loop :: "vcodec \<Rightarrow> DraftProfile \<Rightarrow> nat \<Rightarrow> int \<Rightarrow> params \<Rightarrow> int list \<Rightarrow> Setup20 reader" where
  "setup_options_loop C prof e prev opts ign b =
    (if rb_pos b < e then
       (case pull_setup_option C e prev b of
          Inl x \<Rightarrow> Inl x
        | Inr ((key, v), b') \<Rightarrow>
            (case store_option C prof opts ign key v of
               Inl x \<Rightarrow> Inl x
             | Inr (opts', ign') \<Rightarrow> setup_options_loop C prof e key opts' ign' b'))
     else Inr (\<lparr>su_options = Some opts, su_ignored = ign\<rparr>, b))"
  by pat_completeness auto
termination
  by (relation "measure (\<lambda>(C, prof, e, prev, opts, ign, b). e - rb_pos b)") (auto dest!: pull_setup_option_progress)

declare setup_options_loop.simps [simp del]

definition Setup20_deserialize :: "vcodec \<Rightarrow> DraftProfile \<Rightarrow> nat option \<Rightarrow> Setup20 reader" where
  "Setup20_deserialize C prof e = the_end e (\<lambda>n.
    rbind (set_vi64 (vi64 prof)) (\<lambda>_.
    rcatch is_short_read (setup_options_loop C prof n 0 [] []) (\<lambda>_. rfail MOQTProtocolViolation)))"

section \<open>Errors, and messages of one Request ID\<close>

text \<open>The error replies of draft 14 and 16 share one format.\<close>

record ErrorReply =
  er_request_id :: "int option"
  er_error_code :: "int option"
  er_reason :: "pystr option"

definition error_payload :: "vcodec \<Rightarrow> bool \<Rightarrow> ErrorReply \<Rightarrow> bytes result" where
  "error_payload C f m = body C [push_req C f (er_request_id m), push_req C f (er_error_code m), push_reason C f (er_reason m)]"

definition error_deserialize :: "vcodec \<Rightarrow> ErrorReply reader" where
  "error_deserialize C =
    rbind (pull_some (pull_vint C)) (\<lambda>rid. rbind (pull_some (pull_vint C)) (\<lambda>code. rbind (pull_some (pull_reason C)) (\<lambda>reason.
    rret \<lparr>er_request_id = rid, er_error_code = code, er_reason = reason\<rparr>)))"

definition SubscribeError_serialize :: "vcodec \<Rightarrow> DraftProfile \<Rightarrow> ErrorReply \<Rightarrow> bytes result" where
  "SubscribeError_serialize C prof m = frame C (push_uint_var C 0x05) (error_payload C (vi64 prof) m)"
definition SubscribeError_deserialize :: "vcodec \<Rightarrow> DraftProfile \<Rightarrow> nat option \<Rightarrow> ErrorReply reader" where
  "SubscribeError_deserialize C prof e = error_deserialize C"
definition TrackStatusError_serialize :: "vcodec \<Rightarrow> DraftProfile \<Rightarrow> ErrorReply \<Rightarrow> bytes result" where
  "TrackStatusError_serialize C prof m = frame C (push_uint_var C 0x0F) (error_payload C (vi64 prof) m)"
definition TrackStatusError_deserialize :: "vcodec \<Rightarrow> DraftProfile \<Rightarrow> nat option \<Rightarrow> ErrorReply reader" where
  "TrackStatusError_deserialize C prof e = error_deserialize C"
definition PublishError_serialize :: "vcodec \<Rightarrow> DraftProfile \<Rightarrow> ErrorReply \<Rightarrow> bytes result" where
  "PublishError_serialize C prof m = frame C (push_uint_var C 0x1F) (error_payload C (vi64 prof) m)"
definition PublishError_deserialize :: "vcodec \<Rightarrow> DraftProfile \<Rightarrow> nat option \<Rightarrow> ErrorReply reader" where
  "PublishError_deserialize C prof e = error_deserialize C"
definition PublishNamespaceError_serialize :: "vcodec \<Rightarrow> DraftProfile \<Rightarrow> ErrorReply \<Rightarrow> bytes result" where
  "PublishNamespaceError_serialize C prof m = frame C (push_uint_var C 0x08) (error_payload C (vi64 prof) m)"
definition PublishNamespaceError_deserialize :: "vcodec \<Rightarrow> DraftProfile \<Rightarrow> nat option \<Rightarrow> ErrorReply reader" where
  "PublishNamespaceError_deserialize C prof e = error_deserialize C"
definition SubscribeNamespaceError_serialize :: "vcodec \<Rightarrow> DraftProfile \<Rightarrow> ErrorReply \<Rightarrow> bytes result" where
  "SubscribeNamespaceError_serialize C prof m = frame C (push_uint_var C 0x13) (error_payload C (vi64 prof) m)"
definition SubscribeNamespaceError_deserialize :: "vcodec \<Rightarrow> DraftProfile \<Rightarrow> nat option \<Rightarrow> ErrorReply reader" where
  "SubscribeNamespaceError_deserialize C prof e = error_deserialize C"

text \<open>FETCH_ERROR and FETCH_CANCEL always write RFC 9000 integers.\<close>

definition FetchError_serialize :: "vcodec \<Rightarrow> DraftProfile \<Rightarrow> ErrorReply \<Rightarrow> bytes result" where
  "FetchError_serialize C prof m = frame C (push_vint C False 0x19) (error_payload C False m)"
definition FetchError_deserialize :: "vcodec \<Rightarrow> DraftProfile \<Rightarrow> nat option \<Rightarrow> ErrorReply reader" where
  "FetchError_deserialize C prof e = error_deserialize C"

definition id_payload :: "vcodec \<Rightarrow> bool \<Rightarrow> int option \<Rightarrow> bytes result" where
  "id_payload C f request_id = body C [push_req C f request_id]"

definition id_deserialize :: "vcodec \<Rightarrow> int option reader" where
  "id_deserialize C = pull_some (pull_vint C)"

definition Unsubscribe_serialize :: "vcodec \<Rightarrow> DraftProfile \<Rightarrow> int option \<Rightarrow> bytes result" where
  "Unsubscribe_serialize C prof m = frame C (push_uint_var C 0x0A) (id_payload C (vi64 prof) m)"
definition Unsubscribe_deserialize :: "vcodec \<Rightarrow> DraftProfile \<Rightarrow> nat option \<Rightarrow> int option reader" where
  "Unsubscribe_deserialize C prof e = id_deserialize C"
definition MaxSubscribeId_serialize :: "vcodec \<Rightarrow> DraftProfile \<Rightarrow> int option \<Rightarrow> bytes result" where
  "MaxSubscribeId_serialize C prof m = frame C (push_uint_var C 0x15) (id_payload C (vi64 prof) m)"
definition MaxSubscribeId_deserialize :: "vcodec \<Rightarrow> DraftProfile \<Rightarrow> nat option \<Rightarrow> int option reader" where
  "MaxSubscribeId_deserialize C prof e = id_deserialize C"
definition SubscribesBlocked_serialize :: "vcodec \<Rightarrow> DraftProfile \<Rightarrow> int option \<Rightarrow> bytes result" where
  "SubscribesBlocked_serialize C prof m = frame C (push_uint_var C 0x1A) (id_payload C (vi64 prof) m)"
definition SubscribesBlocked_deserialize :: "vcodec \<Rightarrow> DraftProfile \<Rightarrow> nat option \<Rightarrow> int option reader" where
  "SubscribesBlocked_deserialize C prof e = id_deserialize C"
definition PublishNamespaceOk_serialize :: "vcodec \<Rightarrow> DraftProfile \<Rightarrow> int option \<Rightarrow> bytes result" where
  "PublishNamespaceOk_serialize C prof m = frame C (push_uint_var C 0x07) (id_payload C (vi64 prof) m)"
definition PublishNamespaceOk_deserialize :: "vcodec \<Rightarrow> DraftProfile \<Rightarrow> nat option \<Rightarrow> int option reader" where
  "PublishNamespaceOk_deserialize C prof e = id_deserialize C"
definition SubscribeNamespaceOk_serialize :: "vcodec \<Rightarrow> DraftProfile \<Rightarrow> int option \<Rightarrow> bytes result" where
  "SubscribeNamespaceOk_serialize C prof m = frame C (push_uint_var C 0x12) (id_payload C (vi64 prof) m)"
definition SubscribeNamespaceOk_deserialize :: "vcodec \<Rightarrow> DraftProfile \<Rightarrow> nat option \<Rightarrow> int option reader" where
  "SubscribeNamespaceOk_deserialize C prof e = id_deserialize C"
definition FetchCancel_serialize :: "vcodec \<Rightarrow> DraftProfile \<Rightarrow> int option \<Rightarrow> bytes result" where
  "FetchCancel_serialize C prof m = frame C (push_vint C False 0x17) (id_payload C False m)"
definition FetchCancel_deserialize :: "vcodec \<Rightarrow> DraftProfile \<Rightarrow> nat option \<Rightarrow> int option reader" where
  "FetchCancel_deserialize C prof e = id_deserialize C"

section \<open>Requests of draft 16 and later\<close>

record RequestOk =
  ro_request_id :: "int option"
  ro_parameters :: "params option"
  ro_track_properties :: "kvps option"

definition has_props :: "kvps option \<Rightarrow> bool" where
  "has_props x = (case x of None \<Rightarrow> False | Some kv \<Rightarrow> fst kv \<noteq> [])"

definition RequestOk_payload :: "vcodec \<Rightarrow> DraftProfile \<Rightarrow> RequestOk \<Rightarrow> bytes result" where
  "RequestOk_payload C prof m = body C
    [if reply_has_request_id prof then push_req C (vi64 prof) (ro_request_id m) else Inr [],
     serialize_params C prof None (or_empty (ro_parameters m)),
     if 18 \<le> draft prof \<and> has_props (ro_track_properties m)
       then extensions_encode C (vi64 prof) (map_option fst (ro_track_properties m)) False True else Inr []]"

definition RequestOk_serialize :: "vcodec \<Rightarrow> DraftProfile \<Rightarrow> RequestOk \<Rightarrow> bytes result" where
  "RequestOk_serialize C prof m = frame C (push_uint_var C 0x07) (RequestOk_payload C prof m)"

definition before_end :: "nat option \<Rightarrow> nat \<Rightarrow> bool" where
  "before_end e p = (case e of None \<Rightarrow> False | Some x \<Rightarrow> p < x)"

definition RequestOk_deserialize :: "vcodec \<Rightarrow> bool \<Rightarrow> DraftProfile \<Rightarrow> nat option \<Rightarrow> RequestOk reader" where
  "RequestOk_deserialize C tol prof e =
    rbind (pull_if (reply_has_request_id prof) (pull_vint C)) (\<lambda>rid.
    rbind (pull_msg_params C prof ''RequestOk'' e) (\<lambda>ps.
    rbind rtell (\<lambda>p.
    rbind (if 18 \<le> draft prof \<and> before_end e p then
             rbind (extensions_decode C tol False e True True) (\<lambda>props.
             rbind (rlift (check_track_properties C tol (map_option fst props) prof)) (\<lambda>_. rret props))
           else rret None) (\<lambda>props.
    rret \<lparr>ro_request_id = rid, ro_parameters = Some ps, ro_track_properties = props\<rparr>))))"

record RequestError =
  re_request_id :: "int option"
  re_error_code :: "int option"
  re_retry_interval :: int
  re_reason :: "pystr option"
  re_redirect :: "(bytes \<times> bytes list \<times> bytes) option"

definition REDIRECT :: int where "REDIRECT = 0x34"

definition push_redirect :: "vcodec \<Rightarrow> bool \<Rightarrow> bytes \<times> bytes list \<times> bytes \<Rightarrow> bytes result" where
  "push_redirect C f x = (case x of (uri, ns, name) \<Rightarrow> wseq [push_sized C f uri, push_tuple C f ns, push_sized C f name])"

definition RequestError_payload :: "vcodec \<Rightarrow> DraftProfile \<Rightarrow> RequestError \<Rightarrow> bytes result" where
  "RequestError_payload C prof m = (let f = vi64 prof in body C
    [if reply_has_request_id prof then push_req C f (re_request_id m) else Inr [],
     push_req C f (re_error_code m), push_vint C f (re_retry_interval m),
     push_reason C f (Some (case re_reason m of None \<Rightarrow> [] | Some s \<Rightarrow> s)),
     if re_error_code m = Some REDIRECT \<and> \<not> reply_has_request_id prof
       then (case re_redirect m of None \<Rightarrow> Inr [] | Some x \<Rightarrow> push_redirect C f x) else Inr []])"

definition RequestError_serialize :: "vcodec \<Rightarrow> DraftProfile \<Rightarrow> RequestError \<Rightarrow> bytes result" where
  "RequestError_serialize C prof m = frame C (push_uint_var C 0x05) (RequestError_payload C prof m)"

definition RequestError_deserialize :: "vcodec \<Rightarrow> DraftProfile \<Rightarrow> nat option \<Rightarrow> RequestError reader" where
  "RequestError_deserialize C prof e =
    rbind (pull_if (reply_has_request_id prof) (pull_vint C)) (\<lambda>rid.
    rbind (pull_vint C) (\<lambda>code.
    rbind (pull_vint C) (\<lambda>retry.
    rbind (pull_reason C) (\<lambda>reason.
    rbind rtell (\<lambda>p.
    rbind (pull_if (code = REDIRECT \<and> \<not> reply_has_request_id prof \<and> (e = None \<or> before_end e p))
             (rbind (pull_vint C) (\<lambda>n. rbind (pull_bytes n) (\<lambda>uri.
              rbind (pull_full_track_name C prof) (\<lambda>(ns, name). rret (uri, ns, name)))))) (\<lambda>redirect.
    rret \<lparr>re_request_id = rid, re_error_code = Some code, re_retry_interval = retry, re_reason = Some reason,
          re_redirect = redirect\<rparr>))))))"

record RequestUpdate =
  ru_request_id :: "int option"
  ru_existing_request_id :: "int option"
  ru_parameters :: "params option"

definition RequestUpdate_payload :: "vcodec \<Rightarrow> DraftProfile \<Rightarrow> RequestUpdate \<Rightarrow> bytes result" where
  "RequestUpdate_payload C prof m = (let f = vi64 prof in body C
    [push_req C f (ru_request_id m), if draft prof < 18 then push_req C f (ru_existing_request_id m) else Inr [],
     serialize_params C prof None (or_empty (ru_parameters m))])"

definition RequestUpdate_serialize :: "vcodec \<Rightarrow> DraftProfile \<Rightarrow> RequestUpdate \<Rightarrow> bytes result" where
  "RequestUpdate_serialize C prof m = frame C (push_uint_var C 0x02) (RequestUpdate_payload C prof m)"

definition RequestUpdate_deserialize :: "vcodec \<Rightarrow> DraftProfile \<Rightarrow> nat option \<Rightarrow> RequestUpdate reader" where
  "RequestUpdate_deserialize C prof e =
    rbind (pull_some (pull_vint C)) (\<lambda>rid.
    rbind (pull_if (draft prof < 18) (pull_vint C)) (\<lambda>existing.
    rbind (pull_msg_params C prof ''RequestUpdate'' e) (\<lambda>ps.
    rret \<lparr>ru_request_id = rid, ru_existing_request_id = existing, ru_parameters = Some ps\<rparr>)))"

text \<open>NAMESPACE, NAMESPACE_DONE and UNSUBSCRIBE_NAMESPACE carry one namespace tuple.\<close>

definition tuple_payload :: "vcodec \<Rightarrow> DraftProfile \<Rightarrow> bytes list \<Rightarrow> bytes result" where
  "tuple_payload C prof ns = body C [push_tuple C (vi64 prof) ns]"

definition Namespace_serialize :: "vcodec \<Rightarrow> DraftProfile \<Rightarrow> bytes list \<Rightarrow> bytes result" where
  "Namespace_serialize C prof ns = frame C (push_uint_var C 0x08) (tuple_payload C prof ns)"
definition Namespace_deserialize :: "vcodec \<Rightarrow> DraftProfile \<Rightarrow> nat option \<Rightarrow> bytes list reader" where
  "Namespace_deserialize C prof e = pull_tuple C prof None"
definition NamespaceDone_serialize :: "vcodec \<Rightarrow> DraftProfile \<Rightarrow> bytes list \<Rightarrow> bytes result" where
  "NamespaceDone_serialize C prof ns = frame C (push_uint_var C 0x0E) (tuple_payload C prof ns)"
definition NamespaceDone_deserialize :: "vcodec \<Rightarrow> DraftProfile \<Rightarrow> nat option \<Rightarrow> bytes list reader" where
  "NamespaceDone_deserialize C prof e = pull_tuple C prof None"
definition UnsubscribeNamespace_serialize :: "vcodec \<Rightarrow> DraftProfile \<Rightarrow> bytes list \<Rightarrow> bytes result" where
  "UnsubscribeNamespace_serialize C prof ns = frame C (push_uint_var C 0x14) (tuple_payload C prof ns)"
definition UnsubscribeNamespace_deserialize :: "vcodec \<Rightarrow> DraftProfile \<Rightarrow> nat option \<Rightarrow> bytes list reader" where
  "UnsubscribeNamespace_deserialize C prof e = pull_tuple C prof None"

section \<open>Namespace messages\<close>

record PublishNamespace =
  pn_request_id :: int
  pn_namespace :: "bytes list"
  pn_parameters :: "params option"

definition PublishNamespace_payload :: "vcodec \<Rightarrow> DraftProfile \<Rightarrow> PublishNamespace \<Rightarrow> bytes result" where
  "PublishNamespace_payload C prof m = body C
    [push_vint C (vi64 prof) (pn_request_id m), push_tuple C (vi64 prof) (pn_namespace m), push_params C prof (pn_parameters m)]"

definition PublishNamespace_serialize :: "vcodec \<Rightarrow> DraftProfile \<Rightarrow> PublishNamespace \<Rightarrow> bytes result" where
  "PublishNamespace_serialize C prof m = frame C (push_uint_var C 0x06) (PublishNamespace_payload C prof m)"

definition PublishNamespace_deserialize :: "vcodec \<Rightarrow> DraftProfile \<Rightarrow> nat option \<Rightarrow> PublishNamespace reader" where
  "PublishNamespace_deserialize C prof e =
    rbind (pull_vint C) (\<lambda>rid. rbind (pull_tuple C prof None) (\<lambda>ns.
    rbind (pull_msg_params C prof ''PublishNamespace'' e) (\<lambda>ps.
    rret \<lparr>pn_request_id = rid, pn_namespace = ns, pn_parameters = Some ps\<rparr>)))"

text \<open>From draft 16 the namespace of a withdrawal is named by its request.\<close>

record PublishNamespaceDone =
  pnd_namespace :: "bytes list option"
  pnd_request_id :: "int option"

definition push_tuple_opt :: "vcodec \<Rightarrow> bool \<Rightarrow> bytes list option \<Rightarrow> bytes result" where
  "push_tuple_opt C f x = (case x of None \<Rightarrow> Inl TypeError | Some ns \<Rightarrow> push_tuple C f ns)"

definition PublishNamespaceDone_payload :: "vcodec \<Rightarrow> DraftProfile \<Rightarrow> PublishNamespaceDone \<Rightarrow> bytes result" where
  "PublishNamespaceDone_payload C prof m = body C
    [if is_draft16_or_later (draft prof) then push_req C (vi64 prof) (pnd_request_id m)
     else push_tuple_opt C (vi64 prof) (pnd_namespace m)]"

definition PublishNamespaceDone_serialize :: "vcodec \<Rightarrow> DraftProfile \<Rightarrow> PublishNamespaceDone \<Rightarrow> bytes result" where
  "PublishNamespaceDone_serialize C prof m = frame C (push_uint_var C 0x09) (PublishNamespaceDone_payload C prof m)"

definition PublishNamespaceDone_deserialize :: "vcodec \<Rightarrow> DraftProfile \<Rightarrow> nat option \<Rightarrow> PublishNamespaceDone reader" where
  "PublishNamespaceDone_deserialize C prof e =
    (if is_draft16_or_later (draft prof)
     then rbind (pull_vint C) (\<lambda>rid. rret \<lparr>pnd_namespace = None, pnd_request_id = Some rid\<rparr>)
     else rbind (pull_tuple C prof None) (\<lambda>ns. rret \<lparr>pnd_namespace = Some ns, pnd_request_id = None\<rparr>))"

record PublishNamespaceCancel =
  pnc_namespace :: "bytes list option"
  pnc_error_code :: "int option"
  pnc_reason :: "pystr option"
  pnc_request_id :: "int option"

definition PublishNamespaceCancel_payload :: "vcodec \<Rightarrow> DraftProfile \<Rightarrow> PublishNamespaceCancel \<Rightarrow> bytes result" where
  "PublishNamespaceCancel_payload C prof m = (let f = vi64 prof in body C
    [if is_draft16_or_later (draft prof) then push_req C f (pnc_request_id m) else push_tuple_opt C f (pnc_namespace m),
     push_req C f (pnc_error_code m), push_reason C f (Some (case pnc_reason m of None \<Rightarrow> [] | Some s \<Rightarrow> s))])"

definition PublishNamespaceCancel_serialize :: "vcodec \<Rightarrow> DraftProfile \<Rightarrow> PublishNamespaceCancel \<Rightarrow> bytes result" where
  "PublishNamespaceCancel_serialize C prof m = frame C (push_uint_var C 0x0C) (PublishNamespaceCancel_payload C prof m)"

definition PublishNamespaceCancel_deserialize :: "vcodec \<Rightarrow> DraftProfile \<Rightarrow> nat option \<Rightarrow> PublishNamespaceCancel reader" where
  "PublishNamespaceCancel_deserialize C prof e =
    rbind (pull_if (is_draft16_or_later (draft prof)) (pull_vint C)) (\<lambda>rid.
    rbind (pull_if (\<not> is_draft16_or_later (draft prof)) (pull_tuple C prof None)) (\<lambda>ns.
    rbind (pull_vint C) (\<lambda>code. rbind (pull_reason C) (\<lambda>reason.
    rret \<lparr>pnc_namespace = ns, pnc_error_code = Some code, pnc_reason = Some reason, pnc_request_id = rid\<rparr>))))"

record SubscribeNamespace =
  sn_request_id :: int
  sn_namespace_prefix :: "bytes list"
  sn_subscribe_options :: int
  sn_parameters :: "params option"

definition carries_options :: "DraftProfile \<Rightarrow> bool" where
  "carries_options prof \<longleftrightarrow> is_draft16_or_later (draft prof) \<and> \<not> vi64 prof"

definition SubscribeNamespace_payload :: "vcodec \<Rightarrow> DraftProfile \<Rightarrow> SubscribeNamespace \<Rightarrow> bytes result" where
  "SubscribeNamespace_payload C prof m = (let f = vi64 prof in body C
    [push_vint C f (sn_request_id m), push_tuple C f (sn_namespace_prefix m),
     if carries_options prof then push_vint C f (sn_subscribe_options m) else Inr [],
     push_params C prof (sn_parameters m)])"

definition SubscribeNamespace_serialize :: "vcodec \<Rightarrow> DraftProfile \<Rightarrow> SubscribeNamespace \<Rightarrow> bytes result" where
  "SubscribeNamespace_serialize C prof m =
    frame C (bindR (wire_control_type (draft prof) 0x11) (push_vint C (vi64 prof))) (SubscribeNamespace_payload C prof m)"

definition SubscribeNamespace_deserialize :: "vcodec \<Rightarrow> DraftProfile \<Rightarrow> nat option \<Rightarrow> SubscribeNamespace reader" where
  "SubscribeNamespace_deserialize C prof e =
    rbind (pull_vint C) (\<lambda>rid. rbind (pull_tuple C prof None) (\<lambda>ns.
    rbind (if carries_options prof then pull_vint C else rret 0) (\<lambda>opts.
    rbind (pull_msg_params C prof ''SubscribeNamespace'' e) (\<lambda>ps.
    rret \<lparr>sn_request_id = rid, sn_namespace_prefix = ns, sn_subscribe_options = opts, sn_parameters = Some ps\<rparr>))))"

record SubscribeTracks =
  st_request_id :: int
  st_namespace_prefix :: "bytes list"
  st_parameters :: "params option"

definition SubscribeTracks_payload :: "vcodec \<Rightarrow> DraftProfile \<Rightarrow> SubscribeTracks \<Rightarrow> bytes result" where
  "SubscribeTracks_payload C prof m = body C
    [push_vint C (vi64 prof) (st_request_id m), push_tuple C (vi64 prof) (st_namespace_prefix m),
     serialize_params C prof None (or_empty (st_parameters m))]"

definition SubscribeTracks_serialize :: "vcodec \<Rightarrow> DraftProfile \<Rightarrow> SubscribeTracks \<Rightarrow> bytes result" where
  "SubscribeTracks_serialize C prof m = frame C (push_vint C (vi64 prof) 0x51) (SubscribeTracks_payload C prof m)"

definition SubscribeTracks_deserialize :: "vcodec \<Rightarrow> DraftProfile \<Rightarrow> nat option \<Rightarrow> SubscribeTracks reader" where
  "SubscribeTracks_deserialize C prof e =
    rbind (pull_vint C) (\<lambda>rid. rbind (pull_tuple C prof None) (\<lambda>ns.
    rbind (pull_msg_params C prof ''SubscribeTracks'' e) (\<lambda>ps.
    rret \<lparr>st_request_id = rid, st_namespace_prefix = ns, st_parameters = Some ps\<rparr>)))"

record PublishBlocked =
  pb_namespace_suffix :: "bytes list"
  pb_track_name :: bytes

definition PublishBlocked_payload :: "vcodec \<Rightarrow> DraftProfile \<Rightarrow> PublishBlocked \<Rightarrow> bytes result" where
  "PublishBlocked_payload C prof m = body C [push_tuple C (vi64 prof) (pb_namespace_suffix m), push_sized C (vi64 prof) (pb_track_name m)]"

definition PublishBlocked_serialize :: "vcodec \<Rightarrow> DraftProfile \<Rightarrow> PublishBlocked \<Rightarrow> bytes result" where
  "PublishBlocked_serialize C prof m = frame C (push_vint C (vi64 prof) 0x0F) (PublishBlocked_payload C prof m)"

definition PublishBlocked_deserialize :: "vcodec \<Rightarrow> DraftProfile \<Rightarrow> nat option \<Rightarrow> PublishBlocked reader" where
  "PublishBlocked_deserialize C prof e =
    rbind (pull_full_track_name C prof) (\<lambda>(ns, name). rret \<lparr>pb_namespace_suffix = ns, pb_track_name = name\<rparr>)"

end
