(* ===== verification/Control_Track.thy ===== *)
theory Control_Track
  imports Control_Codec
begin

text \<open>
  The messages about one track: \<^verbatim>\<open>messages/subscribe.py\<close>, \<^verbatim>\<open>publish.py\<close> (with \<^verbatim>\<open>d20/publish.py\<close>) and \<^verbatim>\<open>fetch.py\<close>.
  Draft 14 writes priority, group order, forward, filter and Largest Location as fixed fields; from draft
  16 they are parameters and track extensions, which the deserializers take out of the dictionaries again.
  A field that may come from a parameter therefore holds a parameter value.
\<close>

section \<open>Shared parts\<close>

definition EXPIRES :: int where "EXPIRES = 0x08"
definition LARGEST_OBJECT :: int where "LARGEST_OBJECT = 0x09"
definition FORWARD :: int where "FORWARD = 0x10"
definition SUBSCRIBER_PRIORITY :: int where "SUBSCRIBER_PRIORITY = 0x20"
definition SUBSCRIPTION_FILTER :: int where "SUBSCRIPTION_FILTER = 0x21"
definition LOCATION_FILTER :: int where "LOCATION_FILTER = 0x21"
definition GROUP_ORDER :: int where "GROUP_ORDER = 0x22"
definition DEFAULT_PUBLISHER_GROUP_ORDER :: int where "DEFAULT_PUBLISHER_GROUP_ORDER = 0x22"
definition ASCENDING :: int where "ASCENDING = 1"
definition DESCENDING :: int where "DESCENDING = 2"
definition CONTENT_EXISTS :: int where "CONTENT_EXISTS = 1"
definition NO_CONTENT :: int where "NO_CONTENT = 0"

lemmas key_defs = EXPIRES_def LARGEST_OBJECT_def FORWARD_def SUBSCRIBER_PRIORITY_def SUBSCRIPTION_FILTER_def
  LOCATION_FILTER_def GROUP_ORDER_def

text \<open>A filter: its type and Locations, or all of them missing.\<close>

record sub_filter =
  sf_type :: "int option"
  sf_start_group :: "int option"
  sf_start_object :: "int option"
  sf_end_group :: "int option"

definition no_filter :: sub_filter where
  "no_filter = \<lparr>sf_type = None, sf_start_group = None, sf_start_object = None, sf_end_group = None\<rparr>"

text \<open>The fixed fields of draft 14, which write the End Group as it is.\<close>

definition push_filter14 :: "vcodec \<Rightarrow> bool \<Rightarrow> sub_filter \<Rightarrow> bytes result" where
  "push_filter14 C f x = wseq
    [push_req C f (sf_type x),
     if sf_type x \<in> {Some 3, Some 4} then wseq [push_vint C f (attr (sf_start_group x)), push_vint C f (attr (sf_start_object x))] else Inr [],
     if sf_type x = Some 4 then push_vint C f (attr (sf_end_group x)) else Inr []]"

definition pull_filter14 :: "vcodec \<Rightarrow> bool \<Rightarrow> sub_filter reader" where
  "pull_filter14 C checked =
    rbind (pull_vint C) (\<lambda>t.
    rbind (rguard (checked \<longrightarrow> t \<in> {1, 2, 3, 4}) MOQTProtocolViolation) (\<lambda>_.
    rbind (pull_if (t = 3 \<or> t = 4) (pull_vint C)) (\<lambda>sg.
    rbind (pull_if (t = 3 \<or> t = 4) (pull_vint C)) (\<lambda>so.
    rbind (pull_if (t = 4) (pull_vint C)) (\<lambda>eg.
    rret \<lparr>sf_type = Some t, sf_start_group = sg, sf_start_object = so, sf_end_group = eg\<rparr>)))))"

text \<open>The SUBSCRIPTION_FILTER parameter of drafts 16 and 18, with the End Group as a delta in draft 18.\<close>

definition filter_param :: "vcodec \<Rightarrow> DraftProfile \<Rightarrow> int \<Rightarrow> sub_filter \<Rightarrow> bytes result" where
  "filter_param C prof t x =
    (let f = vi64 prof; start = attr (sf_start_group x); e = attr (sf_end_group x) in in_buffer C 64 (wseq
      [push_vint C f t,
       if t = 3 \<or> t = 4 then wseq [push_vint C f start, push_vint C f (attr (sf_start_object x))] else Inr [],
       if t = 4 then
         (if f then (if e < start then Inl ValueError else push_vint C f (e - start)) else push_vint C f e)
       else Inr []]))"

definition decoded_filter :: "vcodec \<Rightarrow> DraftProfile \<Rightarrow> bytes \<Rightarrow> sub_filter result" where
  "decoded_filter C prof raw =
    bindR (decode_filter C prof raw) (\<lambda>(t, sg, so, eg).
    Inr \<lparr>sf_type = Some t, sf_start_group = sg, sf_start_object = so, sf_end_group = eg\<rparr>)"

text \<open>\<^verbatim>\<open>group_order not in (None, PUBLISHER_DEFAULT)\<close>.\<close>

definition order_param :: "pval option \<Rightarrow> pval option" where
  "order_param x = (if x = Some (PInt 0) then None else x)"

text \<open>LARGEST_OBJECT: a Location value, or its two integers in a byte string.\<close>

definition largest_param :: "vcodec \<Rightarrow> DraftProfile \<Rightarrow> int option \<Rightarrow> int option \<Rightarrow> pval option result" where
  "largest_param C prof g ob =
    (case g of
       None \<Rightarrow> Inr None
     | Some g' \<Rightarrow>
         if LARGEST_OBJECT \<in> set (location_params prof) then Inr (Some (PSeq [PInt g', PInt (attr ob)]))
         else bindR (in_buffer C 16 (wseq [push_uint_var C g', push_uint_var C (attr ob)])) (\<lambda>bs. Inr (Some (PBytes bs))))"

definition read_largest :: "vcodec \<Rightarrow> pval option \<Rightarrow> (int option \<times> int option \<times> int) result" where
  "read_largest C x =
    (case x of
       None \<Rightarrow> Inr (None, None, NO_CONTENT)
     | Some (PSeq [PInt g, PInt ob]) \<Rightarrow> Inr (Some g, Some ob, CONTENT_EXISTS)
     | Some (PSeq _) \<Rightarrow> Inl ValueError
     | Some (PBytes bs) \<Rightarrow>
         bindR (rbind (pull_vint C) (\<lambda>g. rbind (pull_vint C) (\<lambda>ob. rret (g, ob))) (new_rbuf bs False)) (\<lambda>((g, ob), _).
         Inr (Some g, Some ob, CONTENT_EXISTS))
     | Some _ \<Rightarrow> Inl TypeError)"

text \<open>
  Track Extensions behind the parameters: DEFAULT_PUBLISHER_GROUP_ORDER is written for Descending only,
  and taken out of the dictionary again by the reader.
\<close>

definition track_exts :: "kvps option \<Rightarrow> int option \<Rightarrow> params" where
  "track_exts exts group_order =
    (let d = or_empty (map_option fst exts) in
     if group_order = Some DESCENDING then dict_set d DEFAULT_PUBLISHER_GROUP_ORDER (PInt DESCENDING) else d)"

definition take_order :: "kvps option \<Rightarrow> (int \<times> kvps option) result" where
  "take_order exts =
    (case exts of
       None \<Rightarrow> Inr (ASCENDING, None)
     | Some (d, dups) \<Rightarrow>
         (case dict_pop d DEFAULT_PUBLISHER_GROUP_ORDER of
            (None, d') \<Rightarrow> Inr (ASCENDING, Some (d', dups))
          | (Some v, d') \<Rightarrow>
              bindR (check_range v (1, 2)) (\<lambda>_.
              case v of PInt n \<Rightarrow> Inr (n, Some (d', dups)) | _ \<Rightarrow> Inl TypeError)))"

definition pull_track_exts :: "vcodec \<Rightarrow> bool \<Rightarrow> DraftProfile \<Rightarrow> nat option \<Rightarrow> kvps option reader" where
  "pull_track_exts C tol prof e =
    rbind (extensions_decode C tol False e True True) (\<lambda>exts.
    rbind (rlift (if track_properties prof then check_track_properties C tol (map_option fst exts) prof else Inr ())) (\<lambda>_.
    rret exts))"

definition push_name :: "vcodec \<Rightarrow> bool \<Rightarrow> bytes list \<Rightarrow> bytes \<Rightarrow> bytes result" where
  "push_name C f ns name = wseq [push_tuple C f ns, push_sized C f name]"

section \<open>TRACK\_STATUS\<close>

record TrackStatus =
  ts_request_id :: int
  ts_track_namespace :: "bytes list"
  ts_track_name :: bytes
  ts_priority :: "pval option"
  ts_group_order :: "pval option"
  ts_forward :: "pval option"
  ts_filter :: sub_filter
  ts_parameters :: "params option"

definition TrackStatus_payload :: "vcodec \<Rightarrow> DraftProfile \<Rightarrow> TrackStatus \<Rightarrow> bytes result" where
  "TrackStatus_payload C prof m = (let f = vi64 prof in body C
    [push_vint C f (ts_request_id m), push_name C f (ts_track_namespace m) (ts_track_name m),
     if is_draft16_or_later (draft prof) then Inr []
     else wseq [push_u8v C (ts_priority m), push_u8v C (ts_group_order m), push_u8v C (ts_forward m), push_filter14 C f (ts_filter m)],
     serialize_params C prof None (or_empty (ts_parameters m))])"

definition TrackStatus_serialize :: "vcodec \<Rightarrow> DraftProfile \<Rightarrow> TrackStatus \<Rightarrow> bytes result" where
  "TrackStatus_serialize C prof m = frame C (push_uint_var C 0x0D) (TrackStatus_payload C prof m)"

text \<open>The delivery parameters taken out of a dictionary, in the order the code pops them.\<close>

definition pop4 :: "params \<Rightarrow> pval option \<times> pval option \<times> pval option \<times> pval option \<times> params" where
  "pop4 ps0 =
    (case dict_pop ps0 SUBSCRIBER_PRIORITY of (p, ps1) \<Rightarrow>
     case dict_pop ps1 GROUP_ORDER of (g, ps2) \<Rightarrow>
     case dict_pop ps2 FORWARD of (fw, ps3) \<Rightarrow>
     case dict_pop ps3 SUBSCRIPTION_FILTER of (fl, ps4) \<Rightarrow> (p, g, fw, fl, ps4))"

definition filter_of_raw :: "vcodec \<Rightarrow> DraftProfile \<Rightarrow> pval option \<Rightarrow> sub_filter result" where
  "filter_of_raw C prof x =
    (case x of None \<Rightarrow> Inr no_filter | Some (PBytes raw) \<Rightarrow> decoded_filter C prof raw | Some _ \<Rightarrow> Inl TypeError)"

definition pull_fixed14 :: "vcodec \<Rightarrow> (pval option \<times> pval option \<times> pval option \<times> sub_filter) reader" where
  "pull_fixed14 C =
    rbind (pull_uint8 C) (\<lambda>p.
    rbind (pull_uint8 C) (\<lambda>g.
    rbind (rlift (check_range (PInt g) (0, 2))) (\<lambda>_.
    rbind (pull_uint8 C) (\<lambda>fw.
    rbind (rlift (check_range (PInt fw) (0, 1))) (\<lambda>_.
    rbind (pull_filter14 C True) (\<lambda>fl.
    rret (Some (PInt p), Some (PInt g), Some (PInt fw), fl)))))))"

definition TrackStatus_deserialize :: "vcodec \<Rightarrow> DraftProfile \<Rightarrow> nat option \<Rightarrow> TrackStatus reader" where
  "TrackStatus_deserialize C prof e =
    rbind (pull_vint C) (\<lambda>rid.
    rbind (pull_full_track_name C prof) (\<lambda>(ns, name).
    rbind (if is_draft16_or_later (draft prof) then
             rbind (pull_msg_params C prof ''TrackStatus'' e) (\<lambda>ps.
             case pop4 ps of (p, g, fw, raw, ps') \<Rightarrow>
             rbind (rlift (filter_of_raw C prof raw)) (\<lambda>fl. rret (p, g, fw, fl, ps')))
           else
             rbind (pull_fixed14 C) (\<lambda>(p, g, fw, fl).
             rbind (pull_msg_params C prof ''TrackStatus'' e) (\<lambda>ps. rret (p, g, fw, fl, ps)))) (\<lambda>(p, g, fw, fl, ps).
    rret \<lparr>ts_request_id = rid, ts_track_namespace = ns, ts_track_name = name, ts_priority = p, ts_group_order = g,
          ts_forward = fw, ts_filter = fl, ts_parameters = Some ps\<rparr>)))"

record TrackStatusOk =
  to_request_id :: int
  to_track_alias :: int
  to_expires :: "int option"
  to_group_order :: "int option"
  to_content_exists :: "int option"
  to_largest_group_id :: "int option"
  to_largest_object_id :: "int option"
  to_parameters :: "params option"

definition push_enum8 :: "vcodec \<Rightarrow> int option \<Rightarrow> bytes result" where
  "push_enum8 C x = (case x of None \<Rightarrow> Inl AttributeError | Some n \<Rightarrow> push_uint8 C n)"

definition TrackStatusOk_payload :: "vcodec \<Rightarrow> DraftProfile \<Rightarrow> TrackStatusOk \<Rightarrow> bytes result" where
  "TrackStatusOk_payload C prof m = (let f = vi64 prof in body C
    [push_vint C f (to_request_id m), push_vint C f (to_track_alias m), push_req C f (to_expires m),
     push_enum8 C (to_group_order m), push_u8 C (to_content_exists m),
     if to_content_exists m = Some CONTENT_EXISTS
       then wseq [push_req C f (to_largest_group_id m), push_req C f (to_largest_object_id m)] else Inr [],
     serialize_params C prof None (or_empty (to_parameters m))])"

definition TrackStatusOk_serialize :: "vcodec \<Rightarrow> DraftProfile \<Rightarrow> TrackStatusOk \<Rightarrow> bytes result" where
  "TrackStatusOk_serialize C prof m = frame C (push_uint_var C 0x0E) (TrackStatusOk_payload C prof m)"

definition TrackStatusOk_deserialize :: "vcodec \<Rightarrow> DraftProfile \<Rightarrow> nat option \<Rightarrow> TrackStatusOk reader" where
  "TrackStatusOk_deserialize C prof e =
    rbind (pull_vint C) (\<lambda>rid. rbind (pull_vint C) (\<lambda>alias. rbind (pull_vint C) (\<lambda>expires.
    rbind (pull_uint8 C) (\<lambda>g.
    rbind (rlift (check_range (PInt g) (1, 2))) (\<lambda>_.
    rbind (pull_uint8 C) (\<lambda>ce.
    rbind (pull_if (ce = CONTENT_EXISTS) (pull_vint C)) (\<lambda>lg.
    rbind (pull_if (ce = CONTENT_EXISTS) (pull_vint C)) (\<lambda>lo.
    rbind (pull_msg_params C prof ''TrackStatusOk'' e) (\<lambda>ps.
    rret \<lparr>to_request_id = rid, to_track_alias = alias, to_expires = Some expires, to_group_order = Some g,
          to_content_exists = Some ce, to_largest_group_id = lg, to_largest_object_id = lo, to_parameters = Some ps\<rparr>)))))))))"

section \<open>SUBSCRIBE\<close>

text \<open>\<^verbatim>\<open>track_alias\<close> and \<^verbatim>\<open>libquicr_compat\<close> are not on the wire and have no place in the record.\<close>

record Subscribe =
  sb_request_id :: int
  sb_track_namespace :: "bytes list"
  sb_track_name :: bytes
  sb_priority :: "pval option"
  sb_group_order :: "pval option"
  sb_forward :: "pval option"
  sb_filter :: sub_filter
  sb_parameters :: "params option"
  sb_location_filter :: "LocationFilter option"

text \<open>The filter as a parameter: LOCATION_FILTER from draft 20, SUBSCRIPTION_FILTER before.\<close>

definition subscribe_filter :: "vcodec \<Rightarrow> DraftProfile \<Rightarrow> LocationFilter option \<Rightarrow> sub_filter \<Rightarrow> pval option result" where
  "subscribe_filter C prof lf x =
    (if uses_location_filter prof then
       (case (lf, sf_type x) of
          (Some l, _) \<Rightarrow> Inr (Some (PLocF l))
        | (None, None) \<Rightarrow> Inr None
        | (None, Some t) \<Rightarrow>
            bindR (lf_from_subscription_filter t (sf_start_group x) (sf_start_object x) (sf_end_group x)) (\<lambda>l. Inr (Some (PLocF l))))
     else (case sf_type x of
         None \<Rightarrow> Inr None
       | Some t \<Rightarrow> bindR (filter_param C prof t x) (\<lambda>raw. Inr (Some (PBytes raw)))))"

definition Subscribe_params :: "vcodec \<Rightarrow> DraftProfile \<Rightarrow> Subscribe \<Rightarrow> params result" where
  "Subscribe_params C prof m =
    bindR (subscribe_filter C prof (sb_location_filter m) (sb_filter m)) (\<lambda>fl.
    let ps1 = set_opt (or_empty (sb_parameters m)) SUBSCRIBER_PRIORITY (sb_priority m);
        ps2 = set_opt ps1 GROUP_ORDER (order_param (sb_group_order m));
        ps3 = set_opt ps2 FORWARD (sb_forward m)
    in Inr (set_opt ps3 SUBSCRIPTION_FILTER fl))"

definition or_int :: "pval option \<Rightarrow> int \<Rightarrow> pval option" where
  "or_int x d = (case x of None \<Rightarrow> Some (PInt d) | Some v \<Rightarrow> Some v)"

definition Subscribe_payload :: "vcodec \<Rightarrow> DraftProfile \<Rightarrow> Subscribe \<Rightarrow> bytes result" where
  "Subscribe_payload C prof m = (let f = vi64 prof in body C
    [push_vint C f (sb_request_id m), push_name C f (sb_track_namespace m) (sb_track_name m),
     if is_draft16_or_later (draft prof) then bindR (Subscribe_params C prof m) (serialize_params C prof None)
     else wseq [push_u8v C (or_int (sb_priority m) 128), push_u8v C (or_int (sb_group_order m) ASCENDING),
                push_u8v C (or_int (sb_forward m) 1), push_filter14 C f (sb_filter m),
                serialize_params C prof None (or_empty (sb_parameters m))]])"

definition Subscribe_serialize :: "vcodec \<Rightarrow> DraftProfile \<Rightarrow> Subscribe \<Rightarrow> bytes result" where
  "Subscribe_serialize C prof m = frame C (push_uint_var C 0x03) (Subscribe_payload C prof m)"

definition read_filter :: "vcodec \<Rightarrow> DraftProfile \<Rightarrow> pval option \<Rightarrow> (sub_filter \<times> LocationFilter option) result" where
  "read_filter C prof x =
    (case x of
       Some (PLocF l) \<Rightarrow>
         Inr (case lf_subscription_filter l of
             None \<Rightarrow> no_filter
           | Some (t, sg, so, eg) \<Rightarrow> \<lparr>sf_type = t, sf_start_group = sg, sf_start_object = so, sf_end_group = eg\<rparr>, Some l)
     | _ \<Rightarrow> bindR (filter_of_raw C prof x) (\<lambda>fl. Inr (fl, None)))"

definition Subscribe_deserialize :: "vcodec \<Rightarrow> DraftProfile \<Rightarrow> nat option \<Rightarrow> Subscribe reader" where
  "Subscribe_deserialize C prof e =
    rbind (pull_vint C) (\<lambda>rid.
    rbind (pull_full_track_name C prof) (\<lambda>(ns, name).
    rbind (if is_draft16_or_later (draft prof) then
             rbind (pull_msg_params C prof ''Subscribe'' e) (\<lambda>ps.
             case pop4 ps of (p, g, fw, raw, ps') \<Rightarrow>
             rbind (rlift (read_filter C prof raw)) (\<lambda>(fl, lf). rret (p, g, fw, fl, lf, ps')))
           else
             rbind (pull_fixed14 C) (\<lambda>(p, g, fw, fl).
             rbind (pull_msg_params C prof ''Subscribe'' e) (\<lambda>ps. rret (p, g, fw, fl, None, ps)))) (\<lambda>(p, g, fw, fl, lf, ps).
    rret \<lparr>sb_request_id = rid, sb_track_namespace = ns, sb_track_name = name, sb_priority = p, sb_group_order = g,
          sb_forward = fw, sb_filter = fl, sb_parameters = Some ps, sb_location_filter = lf\<rparr>)))"

section \<open>SUBSCRIBE\_OK, SUBSCRIBE\_UPDATE and PUBLISH\_DONE\<close>

record SubscribeOk =
  so_request_id :: "int option"
  so_track_alias :: int
  so_expires :: "pval option"
  so_group_order :: "int option"
  so_content_exists :: "int option"
  so_largest_group_id :: "int option"
  so_largest_object_id :: "int option"
  so_parameters :: "params option"
  so_track_extensions :: "kvps option"

definition SubscribeOk_params :: "vcodec \<Rightarrow> DraftProfile \<Rightarrow> SubscribeOk \<Rightarrow> params result" where
  "SubscribeOk_params C prof m =
    (let ps1 = set_opt (or_empty (so_parameters m)) EXPIRES (so_expires m) in
     bindR (largest_param C prof (so_largest_group_id m) (so_largest_object_id m)) (\<lambda>l. Inr (set_opt ps1 LARGEST_OBJECT l)))"

definition push_vintv :: "vcodec \<Rightarrow> bool \<Rightarrow> pval option \<Rightarrow> bytes result" where
  "push_vintv C f x = (case x of Some v \<Rightarrow> push_int C f v | None \<Rightarrow> Inl TypeError)"

definition SubscribeOk_payload :: "vcodec \<Rightarrow> DraftProfile \<Rightarrow> SubscribeOk \<Rightarrow> bytes result" where
  "SubscribeOk_payload C prof m = (let f = vi64 prof in body C
    [if reply_has_request_id prof then push_req C f (so_request_id m) else Inr [],
     push_vint C f (so_track_alias m),
     if is_draft16_or_later (draft prof) then
       wseq [bindR (SubscribeOk_params C prof m) (serialize_params C prof None),
             extensions_encode C f (Some (track_exts (so_track_extensions m) (so_group_order m))) False True]
     else
       wseq [push_vintv C f (so_expires m), push_enum8 C (so_group_order m), push_u8 C (so_content_exists m),
             if so_content_exists m = Some CONTENT_EXISTS
               then wseq [push_req C f (so_largest_group_id m), push_req C f (so_largest_object_id m)] else Inr [],
             serialize_params C prof None (or_empty (so_parameters m))]])"

definition SubscribeOk_serialize :: "vcodec \<Rightarrow> DraftProfile \<Rightarrow> SubscribeOk \<Rightarrow> bytes result" where
  "SubscribeOk_serialize C prof m = frame C (push_uint_var C 0x04) (SubscribeOk_payload C prof m)"

definition SubscribeOk_deserialize :: "vcodec \<Rightarrow> bool \<Rightarrow> DraftProfile \<Rightarrow> nat option \<Rightarrow> SubscribeOk reader" where
  "SubscribeOk_deserialize C tol prof e =
    rbind (pull_if (reply_has_request_id prof) (pull_vint C)) (\<lambda>rid.
    rbind (pull_vint C) (\<lambda>alias.
    if is_draft16_or_later (draft prof) then
      rbind (pull_msg_params C prof ''SubscribeOk'' e) (\<lambda>ps0.
      case dict_pop ps0 EXPIRES of (expires, ps1) \<Rightarrow>
      case dict_pop ps1 LARGEST_OBJECT of (largest, ps) \<Rightarrow>
      rbind (rlift (read_largest C largest)) (\<lambda>(lg, lo, ce).
      rbind (pull_track_exts C tol prof e) (\<lambda>exts.
      rbind (rlift (take_order exts)) (\<lambda>(g, exts').
      rret \<lparr>so_request_id = rid, so_track_alias = alias, so_expires = expires, so_group_order = Some g,
            so_content_exists = Some ce, so_largest_group_id = lg, so_largest_object_id = lo,
            so_parameters = Some ps, so_track_extensions = exts'\<rparr>))))
    else
      rbind (pull_vint C) (\<lambda>expires. rbind (pull_uint8 C) (\<lambda>g.
      rbind (rlift (check_range (PInt g) (1, 2))) (\<lambda>_.
      rbind (pull_uint8 C) (\<lambda>ce.
      rbind (pull_if (ce = CONTENT_EXISTS) (pull_vint C)) (\<lambda>lg.
      rbind (pull_if (ce = CONTENT_EXISTS) (pull_vint C)) (\<lambda>lo.
      rbind (pull_msg_params C prof ''SubscribeOk'' e) (\<lambda>ps.
      rret \<lparr>so_request_id = rid, so_track_alias = alias, so_expires = Some (PInt expires), so_group_order = Some g,
            so_content_exists = Some ce, so_largest_group_id = lg, so_largest_object_id = lo,
            so_parameters = Some ps, so_track_extensions = None\<rparr>)))))))))"

record SubscribeUpdate =
  sp_request_id :: "int option"
  sp_subscription_request_id :: "int option"
  sp_start_group :: "int option"
  sp_start_object :: "int option"
  sp_end_group :: "int option"
  sp_priority :: "int option"
  sp_forward :: "int option"
  sp_parameters :: "params option"

definition SubscribeUpdate_payload :: "vcodec \<Rightarrow> DraftProfile \<Rightarrow> SubscribeUpdate \<Rightarrow> bytes result" where
  "SubscribeUpdate_payload C prof m = (let f = vi64 prof in body C
    [push_req C f (sp_request_id m), push_req C f (sp_subscription_request_id m), push_req C f (sp_start_group m),
     push_req C f (sp_start_object m), push_req C f (sp_end_group m), push_u8 C (sp_priority m), push_u8 C (sp_forward m),
     serialize_params C prof None (or_empty (sp_parameters m))])"

definition SubscribeUpdate_serialize :: "vcodec \<Rightarrow> DraftProfile \<Rightarrow> SubscribeUpdate \<Rightarrow> bytes result" where
  "SubscribeUpdate_serialize C prof m = frame C (push_uint_var C 0x02) (SubscribeUpdate_payload C prof m)"

definition SubscribeUpdate_deserialize :: "vcodec \<Rightarrow> DraftProfile \<Rightarrow> nat option \<Rightarrow> SubscribeUpdate reader" where
  "SubscribeUpdate_deserialize C prof e =
    rbind (pull_vint C) (\<lambda>rid. rbind (pull_vint C) (\<lambda>srid. rbind (pull_vint C) (\<lambda>sg. rbind (pull_vint C) (\<lambda>so. rbind (pull_vint C) (\<lambda>eg.
    rbind (pull_uint8 C) (\<lambda>p. rbind (pull_uint8 C) (\<lambda>fw.
    rbind (rlift (check_range (PInt fw) (0, 1))) (\<lambda>_.
    rbind (pull_msg_params C prof ''SubscribeUpdate'' e) (\<lambda>ps.
    rret \<lparr>sp_request_id = Some rid, sp_subscription_request_id = Some srid, sp_start_group = Some sg, sp_start_object = Some so,
          sp_end_group = Some eg, sp_priority = Some p, sp_forward = Some fw, sp_parameters = Some ps\<rparr>)))))))))"

text \<open>PUBLISH_DONE: draft 18 swapped the wire values of EXPIRED and TOO_FAR_BEHIND.\<close>

record SubscribeDone =
  sd_request_id :: "int option"
  sd_status_code :: int
  sd_stream_count :: "int option"
  sd_reason :: "pystr option"

definition D18_WIRE_SWAP :: "int \<Rightarrow> int" where
  "D18_WIRE_SWAP code = (if code = 0x05 then 0x06 else if code = 0x06 then 0x05 else code)"

definition done_code :: "DraftProfile \<Rightarrow> int \<Rightarrow> int" where
  "done_code prof code = (if 18 \<le> draft prof then D18_WIRE_SWAP code else code)"

definition SUBSCRIPTION_ENDED :: int where "SUBSCRIPTION_ENDED = 0x03"

definition SubscribeDone_payload :: "vcodec \<Rightarrow> DraftProfile \<Rightarrow> SubscribeDone \<Rightarrow> bytes result" where
  "SubscribeDone_payload C prof m = (let f = vi64 prof in body C
    [if reply_has_request_id prof then push_req C f (sd_request_id m) else Inr [],
     bindR (guardR (\<not> (sd_status_code m = SUBSCRIPTION_ENDED \<and> \<not> publish_done_subscription_ended prof)) ValueError) (\<lambda>_.
       push_vint C f (done_code prof (sd_status_code m))),
     push_req C f (sd_stream_count m), push_reason C f (sd_reason m)])"

definition SubscribeDone_serialize :: "vcodec \<Rightarrow> DraftProfile \<Rightarrow> SubscribeDone \<Rightarrow> bytes result" where
  "SubscribeDone_serialize C prof m = frame C (push_uint_var C 0x0B) (SubscribeDone_payload C prof m)"

definition SubscribeDone_deserialize :: "vcodec \<Rightarrow> DraftProfile \<Rightarrow> nat option \<Rightarrow> SubscribeDone reader" where
  "SubscribeDone_deserialize C prof e =
    rbind (pull_if (reply_has_request_id prof) (pull_vint C)) (\<lambda>rid.
    rbind (pull_vint C) (\<lambda>code.
    rbind (pull_vint C) (\<lambda>n.
    rbind (pull_reason C) (\<lambda>reason.
    rret \<lparr>sd_request_id = rid, sd_status_code = done_code prof code, sd_stream_count = Some n, sd_reason = Some reason\<rparr>))))"

section \<open>PUBLISH\<close>

record Publish =
  pu_request_id :: int
  pu_track_namespace :: "bytes list"
  pu_track_name :: bytes
  pu_track_alias :: int
  pu_group_order :: "int option"
  pu_content_exists :: "int option"
  pu_largest_group_id :: "int option"
  pu_largest_object_id :: "int option"
  pu_forward :: "pval option"
  pu_parameters :: "params option"
  pu_track_extensions :: "kvps option"

definition Publish_params :: "vcodec \<Rightarrow> DraftProfile \<Rightarrow> Publish \<Rightarrow> params result" where
  "Publish_params C prof m =
    (let ps1 = set_opt (or_empty (pu_parameters m)) FORWARD (pu_forward m) in
     bindR (largest_param C prof (pu_largest_group_id m) (pu_largest_object_id m)) (\<lambda>l. Inr (set_opt ps1 LARGEST_OBJECT l)))"

definition Publish_payload :: "vcodec \<Rightarrow> DraftProfile \<Rightarrow> Publish \<Rightarrow> bytes result" where
  "Publish_payload C prof m = (let f = vi64 prof in body C
    [push_vint C f (pu_request_id m), push_name C f (pu_track_namespace m) (pu_track_name m), push_vint C f (pu_track_alias m),
     if is_draft16_or_later (draft prof) then
       wseq [bindR (Publish_params C prof m) (serialize_params C prof None),
             extensions_encode C f (Some (track_exts (pu_track_extensions m) (pu_group_order m))) False True]
     else
       wseq [push_u8 C (pu_group_order m), push_u8 C (pu_content_exists m),
             if pu_content_exists m = Some CONTENT_EXISTS
               then wseq [push_req C f (pu_largest_group_id m), push_req C f (pu_largest_object_id m)] else Inr [],
             push_u8v C (pu_forward m),
             serialize_params C prof None (or_empty (pu_parameters m))]])"

definition Publish_serialize :: "vcodec \<Rightarrow> DraftProfile \<Rightarrow> Publish \<Rightarrow> bytes result" where
  "Publish_serialize C prof m = frame C (push_uint_var C 0x1D) (Publish_payload C prof m)"

definition Publish_deserialize :: "vcodec \<Rightarrow> bool \<Rightarrow> DraftProfile \<Rightarrow> nat option \<Rightarrow> Publish reader" where
  "Publish_deserialize C tol prof e =
    rbind (pull_vint C) (\<lambda>rid.
    rbind (pull_full_track_name C prof) (\<lambda>(ns, name).
    rbind (pull_vint C) (\<lambda>alias.
    if is_draft16_or_later (draft prof) then
      rbind (pull_msg_params C prof ''Publish'' e) (\<lambda>ps0.
      case dict_pop ps0 FORWARD of (fw, ps1) \<Rightarrow>
      case dict_pop ps1 LARGEST_OBJECT of (largest, ps) \<Rightarrow>
      rbind (rlift (read_largest C largest)) (\<lambda>(lg, lo, ce).
      rbind (pull_track_exts C tol prof e) (\<lambda>exts.
      rbind (rlift (take_order exts)) (\<lambda>(g, exts').
      rret \<lparr>pu_request_id = rid, pu_track_namespace = ns, pu_track_name = name, pu_track_alias = alias, pu_group_order = Some g,
            pu_content_exists = Some ce, pu_largest_group_id = lg, pu_largest_object_id = lo, pu_forward = fw,
            pu_parameters = Some ps, pu_track_extensions = exts'\<rparr>))))
    else
      rbind (pull_uint8 C) (\<lambda>g. rbind (pull_uint8 C) (\<lambda>ce.
      rbind (pull_if (ce = CONTENT_EXISTS) (pull_vint C)) (\<lambda>lg.
      rbind (pull_if (ce = CONTENT_EXISTS) (pull_vint C)) (\<lambda>lo.
      rbind (pull_uint8 C) (\<lambda>fw.
      rbind (pull_msg_params C prof ''Publish'' e) (\<lambda>ps.
      rret \<lparr>pu_request_id = rid, pu_track_namespace = ns, pu_track_name = name, pu_track_alias = alias, pu_group_order = Some g,
            pu_content_exists = Some ce, pu_largest_group_id = lg, pu_largest_object_id = lo, pu_forward = Some (PInt fw),
            pu_parameters = Some ps, pu_track_extensions = None\<rparr>)))))))))"

section \<open>PUBLISH\_OK\<close>

record PublishOk =
  po_request_id :: "int option"
  po_forward :: "pval option"
  po_priority :: "pval option"
  po_group_order :: "pval option"
  po_filter :: sub_filter
  po_parameters :: "params option"
  po_expires :: "pval option"
  po_location_filter :: "LocationFilter option"

text \<open>What moves to a REQUEST_UPDATE from draft 20.\<close>

definition subscription_params :: "PublishOk \<Rightarrow> params result" where
  "subscription_params m =
    (let ps1 = set_opt [] FORWARD (po_forward m); ps2 = set_opt ps1 SUBSCRIBER_PRIORITY (po_priority m) in
     case (po_location_filter m, sf_type (po_filter m)) of
       (Some l, _) \<Rightarrow> Inr (dict_set ps2 LOCATION_FILTER (PLocF l))
     | (None, None) \<Rightarrow> Inr ps2
     | (None, Some t) \<Rightarrow>
         bindR (lf_from_subscription_filter t (sf_start_group (po_filter m)) (sf_start_object (po_filter m)) (sf_end_group (po_filter m)))
           (\<lambda>l. Inr (dict_set ps2 LOCATION_FILTER (PLocF l))))"

definition PublishOk_params :: "vcodec \<Rightarrow> DraftProfile \<Rightarrow> PublishOk \<Rightarrow> params result" where
  "PublishOk_params C prof m =
    (if publish_ok_expires_only prof then
       bindR (guardR (po_forward m = None \<and> po_priority m = None \<and> po_group_order m = None \<and> sf_type (po_filter m) = None
           \<and> po_location_filter m = None) ValueError) (\<lambda>_.
       Inr (set_opt (or_empty (po_parameters m)) EXPIRES (po_expires m)))
     else
       (let ps1 = set_opt (or_empty (po_parameters m)) FORWARD (po_forward m);
            ps2 = set_opt ps1 SUBSCRIBER_PRIORITY (po_priority m);
            ps3 = set_opt ps2 GROUP_ORDER (order_param (po_group_order m)) in
        case sf_type (po_filter m) of
          None \<Rightarrow> Inr ps3
        | Some t \<Rightarrow> bindR (filter_param C prof t (po_filter m)) (\<lambda>raw. Inr (dict_set ps3 SUBSCRIPTION_FILTER (PBytes raw)))))"

definition PublishOk_payload :: "vcodec \<Rightarrow> DraftProfile \<Rightarrow> PublishOk \<Rightarrow> bytes result" where
  "PublishOk_payload C prof m = (let f = vi64 prof in body C
    [if reply_has_request_id prof then push_req C f (po_request_id m) else Inr [],
     if publish_ok_expires_only prof \<or> is_draft16_or_later (draft prof)
       then bindR (PublishOk_params C prof m) (serialize_params C prof None)
     else wseq [push_u8v C (po_forward m), push_u8v C (po_priority m), push_u8v C (po_group_order m), push_filter14 C f (po_filter m),
                serialize_params C prof None (or_empty (po_parameters m))]])"

definition PublishOk_type :: "DraftProfile \<Rightarrow> int result" where
  "PublishOk_type prof = (if \<not> reply_has_request_id prof then Inr 0x07 else wire_control_type (draft prof) 0x1E)"

definition PublishOk_serialize :: "vcodec \<Rightarrow> DraftProfile \<Rightarrow> PublishOk \<Rightarrow> bytes result" where
  "PublishOk_serialize C prof m = frame C (bindR (PublishOk_type prof) (push_uint_var C)) (PublishOk_payload C prof m)"

definition PublishOk_deserialize :: "vcodec \<Rightarrow> DraftProfile \<Rightarrow> nat option \<Rightarrow> PublishOk reader" where
  "PublishOk_deserialize C prof e =
    rbind (pull_if (reply_has_request_id prof) (pull_vint C)) (\<lambda>rid.
    if publish_ok_expires_only prof then
      rbind (pull_msg_params C prof ''PublishOk'' e) (\<lambda>ps0.
      rbind rtell (\<lambda>p.
      rbind (rguard (\<not> before_end e p) MOQTProtocolViolation) (\<lambda>_.
      case dict_pop ps0 EXPIRES of (expires, ps) \<Rightarrow>
      rret \<lparr>po_request_id = rid, po_forward = None, po_priority = None, po_group_order = None, po_filter = no_filter,
            po_parameters = Some ps, po_expires = expires, po_location_filter = None\<rparr>)))
    else if is_draft16_or_later (draft prof) then
      rbind (pull_msg_params C prof ''PublishOk'' e) (\<lambda>ps0.
      case dict_pop ps0 FORWARD of (fw, ps1) \<Rightarrow>
      case dict_pop ps1 SUBSCRIBER_PRIORITY of (p, ps2) \<Rightarrow>
      case dict_pop ps2 GROUP_ORDER of (g, ps3) \<Rightarrow>
      case dict_pop ps3 SUBSCRIPTION_FILTER of (raw, ps) \<Rightarrow>
      rbind (rlift (filter_of_raw C prof raw)) (\<lambda>fl.
      rret \<lparr>po_request_id = rid, po_forward = fw, po_priority = p, po_group_order = g, po_filter = fl,
            po_parameters = Some ps, po_expires = None, po_location_filter = None\<rparr>))
    else
      rbind (pull_uint8 C) (\<lambda>fw. rbind (pull_uint8 C) (\<lambda>p. rbind (pull_uint8 C) (\<lambda>g.
      rbind (pull_filter14 C False) (\<lambda>fl.
      rbind (pull_msg_params C prof ''PublishOk'' e) (\<lambda>ps.
      rret \<lparr>po_request_id = rid, po_forward = Some (PInt fw), po_priority = Some (PInt p), po_group_order = Some (PInt g),
            po_filter = fl, po_parameters = Some ps, po_expires = None, po_location_filter = None\<rparr>))))))"

section \<open>PUBLISH\_STATE\_NOTIFY\<close>

record PublishStateNotify =
  ps_forward :: "pval option"
  ps_largest_group_id :: "pval option"
  ps_largest_object_id :: "pval option"
  ps_location_filter :: "pval option"
  ps_parameters :: "params option"
  ps_request_id :: "int option"

definition PublishStateNotify_params :: "PublishStateNotify \<Rightarrow> params" where
  "PublishStateNotify_params m =
    (let ps1 = set_opt (or_empty (ps_parameters m)) LARGEST_OBJECT
           (map_option (\<lambda>g. PSeq [g, case ps_largest_object_id m of None \<Rightarrow> PInt 0 | Some ob \<Rightarrow> ob]) (ps_largest_group_id m));
         ps2 = set_opt ps1 FORWARD (ps_forward m)
     in set_opt ps2 LOCATION_FILTER (ps_location_filter m))"

definition PublishStateNotify_payload :: "vcodec \<Rightarrow> DraftProfile \<Rightarrow> PublishStateNotify \<Rightarrow> bytes result" where
  "PublishStateNotify_payload C prof m = body C [serialize_params C prof None (PublishStateNotify_params m)]"

definition PublishStateNotify_serialize :: "vcodec \<Rightarrow> DraftProfile \<Rightarrow> PublishStateNotify \<Rightarrow> bytes result" where
  "PublishStateNotify_serialize C prof m = frame C (push_vint C (vi64 prof) 0x22) (PublishStateNotify_payload C prof m)"

definition index_pair :: "pval option \<Rightarrow> (pval \<times> pval) option result" where
  "index_pair x = (case x of
     None \<Rightarrow> Inr None
   | Some (PSeq (g # ob # _)) \<Rightarrow> Inr (Some (g, ob))
   | Some (PSeq _) \<Rightarrow> Inl IndexError
   | Some _ \<Rightarrow> Inl TypeError)"

definition PublishStateNotify_deserialize :: "vcodec \<Rightarrow> DraftProfile \<Rightarrow> nat option \<Rightarrow> PublishStateNotify reader" where
  "PublishStateNotify_deserialize C prof e =
    rbind (pull_msg_params C prof ''PublishStateNotify'' e) (\<lambda>ps0.
    case dict_pop ps0 LARGEST_OBJECT of (largest, ps1) \<Rightarrow>
    case dict_pop ps1 FORWARD of (fw, ps2) \<Rightarrow>
    rbind (rlift (index_pair largest)) (\<lambda>l.
    case dict_pop ps2 LOCATION_FILTER of (lf, ps) \<Rightarrow>
    rret \<lparr>ps_forward = fw, ps_largest_group_id = map_option fst l, ps_largest_object_id = map_option snd l, ps_location_filter = lf, ps_parameters = Some ps, ps_request_id = None\<rparr>))"

section \<open>FETCH\<close>

definition STANDALONE :: int where "STANDALONE = 1"

definition is_joining :: "int \<Rightarrow> bool" where
  "is_joining t \<longleftrightarrow> t = 2 \<or> t = 3"

record Fetch =
  fe_fetch_type :: int
  fe_request_id :: int
  fe_subscriber_priority :: "pval option"
  fe_group_order :: "pval option"
  fe_namespace :: "bytes list option"
  fe_track_name :: "bytes option"
  fe_start_group :: "int option"
  fe_start_object :: "int option"
  fe_end_group :: "int option"
  fe_end_object :: "int option"
  fe_joining_request_id :: "int option"
  fe_joining_start :: "int option"
  fe_parameters :: params
  fe_location_filter :: "LocationFilter option"

definition push_sized_opt :: "vcodec \<Rightarrow> bool \<Rightarrow> bytes option \<Rightarrow> bytes result" where
  "push_sized_opt C f x = (case x of None \<Rightarrow> Inl TypeError | Some bs \<Rightarrow> push_sized C f bs)"

definition fetch_base_params :: "Fetch \<Rightarrow> params" where
  "fetch_base_params m =
    set_opt (set_opt (fe_parameters m) SUBSCRIBER_PRIORITY (fe_subscriber_priority m)) GROUP_ORDER (order_param (fe_group_order m))"

text \<open>The draft 20 form: the range is a LOCATION_FILTER.\<close>

definition Fetch_payload20 :: "vcodec \<Rightarrow> DraftProfile \<Rightarrow> Fetch \<Rightarrow> bytes result" where
  "Fetch_payload20 C prof m = (let f = vi64 prof in body C
    [push_vint C f (fe_request_id m),
     bindR (guardR (fe_fetch_type m = STANDALONE) ValueError) (\<lambda>_. push_tuple_opt C f (fe_namespace m)),
     push_sized_opt C f (fe_track_name m),
     bindR (case fe_location_filter m of
         Some l \<Rightarrow> Inr l
       | None \<Rightarrow> lf_from_fetch_range (fe_start_group m) (fe_start_object m) (fe_end_group m) (fe_end_object m)) (\<lambda>l.
     serialize_params C prof None (dict_set (fetch_base_params m) LOCATION_FILTER (PLocF l)))])"

definition Fetch_payload16 :: "vcodec \<Rightarrow> DraftProfile \<Rightarrow> Fetch \<Rightarrow> bytes result" where
  "Fetch_payload16 C prof m = (let f = vi64 prof in body C
    [push_vint C f (fe_request_id m),
     if is_draft16_or_later (draft prof) then Inr []
     else wseq [push_u8v C (or_int (fe_subscriber_priority m) 128), push_u8v C (or_int (fe_group_order m) ASCENDING)],
     push_vint C f (fe_fetch_type m),
     if fe_fetch_type m = STANDALONE then
       wseq [push_tuple_opt C f (fe_namespace m), push_sized_opt C f (fe_track_name m), push_req C f (fe_start_group m),
             push_req C f (fe_start_object m), push_req C f (fe_end_group m), push_req C f (fe_end_object m)]
     else if is_joining (fe_fetch_type m) then wseq [push_req C f (fe_joining_request_id m), push_req C f (fe_joining_start m)]
     else Inl ValueError,
     serialize_params C prof None (if is_draft16_or_later (draft prof) then fetch_base_params m else fe_parameters m)])"

definition Fetch_payload :: "vcodec \<Rightarrow> DraftProfile \<Rightarrow> Fetch \<Rightarrow> bytes result" where
  "Fetch_payload C prof m = (if fetch_location_filter prof then Fetch_payload20 C prof m else Fetch_payload16 C prof m)"

definition Fetch_serialize :: "vcodec \<Rightarrow> DraftProfile \<Rightarrow> Fetch \<Rightarrow> bytes result" where
  "Fetch_serialize C prof m = frame C (push_vint C (vi64 prof) 0x16) (Fetch_payload C prof m)"

definition pop_locf :: "pval option \<Rightarrow> LocationFilter option result" where
  "pop_locf x = (case x of None \<Rightarrow> Inr None | Some (PLocF l) \<Rightarrow> Inr (Some l) | Some _ \<Rightarrow> Inl AttributeError)"

definition Fetch_deserialize20 :: "vcodec \<Rightarrow> DraftProfile \<Rightarrow> nat option \<Rightarrow> Fetch reader" where
  "Fetch_deserialize20 C prof e =
    rbind (pull_vint C) (\<lambda>rid.
    rbind (pull_full_track_name C prof) (\<lambda>(ns, name).
    rbind (pull_msg_params C prof ''Fetch'' e) (\<lambda>ps0.
    case dict_pop ps0 LOCATION_FILTER of (raw, ps1) \<Rightarrow>
    rbind (rlift (pop_locf raw)) (\<lambda>lf.
    rbind (rlift (case lf of Some l \<Rightarrow> Inr l | None \<Rightarrow> lf_none)) (\<lambda>l.
    let (sg, so, eg, eo) = (case lf_fetch_range l of
          None \<Rightarrow> (None, None, None, None) | Some (a, b, c, d) \<Rightarrow> (Some a, Some b, c, d)) in
    case dict_pop ps1 SUBSCRIBER_PRIORITY of (p, ps2) \<Rightarrow>
    case dict_pop ps2 GROUP_ORDER of (g, ps) \<Rightarrow>
    rret \<lparr>fe_fetch_type = STANDALONE, fe_request_id = rid, fe_subscriber_priority = or_int p 128,
          fe_group_order = or_int g ASCENDING, fe_namespace = Some ns, fe_track_name = Some name,
          fe_start_group = sg, fe_start_object = so, fe_end_group = eg, fe_end_object = eo,
          fe_joining_request_id = None, fe_joining_start = None, fe_parameters = ps, fe_location_filter = lf\<rparr>)))))"

definition pull_fetch_body ::
    "vcodec \<Rightarrow> DraftProfile \<Rightarrow> int \<Rightarrow>
     (bytes list option \<times> bytes option \<times> int option \<times> int option \<times> int option \<times> int option \<times> int option \<times> int option) reader" where
  "pull_fetch_body C prof t =
    (if t = STANDALONE then
       rbind (pull_full_track_name C prof) (\<lambda>(ns, name).
       rbind (pull_vint C) (\<lambda>sg. rbind (pull_vint C) (\<lambda>so. rbind (pull_vint C) (\<lambda>eg. rbind (pull_vint C) (\<lambda>eo.
       rret (Some ns, Some name, Some sg, Some so, Some eg, Some eo, None, None))))))
     else if is_joining t then
       rbind (pull_vint C) (\<lambda>j. rbind (pull_vint C) (\<lambda>s. rret (None, None, None, None, None, None, Some j, Some s)))
     else rfail MOQTProtocolViolation)"

definition Fetch_deserialize16 :: "vcodec \<Rightarrow> DraftProfile \<Rightarrow> nat option \<Rightarrow> Fetch reader" where
  "Fetch_deserialize16 C prof e =
    rbind (pull_vint C) (\<lambda>rid.
    rbind (if is_draft16_or_later (draft prof) then rret (128, DESCENDING)
           else rbind (pull_uint8 C) (\<lambda>p. rbind (pull_uint8 C) (\<lambda>g. rret (p, g)))) (\<lambda>(p, g).
    rbind (pull_vint C) (\<lambda>t.
    rbind (pull_fetch_body C prof t) (\<lambda>(ns, name, sg, so, eg, eo, j, s).
    rbind (pull_msg_params C prof ''Fetch'' e) (\<lambda>ps0.
    let (p', g', ps) =
      (if is_draft16_or_later (draft prof) then
         (case dict_pop ps0 SUBSCRIBER_PRIORITY of (pv, ps1) \<Rightarrow>
          case dict_pop ps1 GROUP_ORDER of (gv, ps2) \<Rightarrow> (or_int pv 128, or_int gv ASCENDING, ps2))
       else (Some (PInt p), Some (PInt g), ps0)) in
    rret \<lparr>fe_fetch_type = t, fe_request_id = rid, fe_subscriber_priority = p', fe_group_order = g', fe_namespace = ns,
          fe_track_name = name, fe_start_group = sg, fe_start_object = so, fe_end_group = eg, fe_end_object = eo,
          fe_joining_request_id = j, fe_joining_start = s, fe_parameters = ps, fe_location_filter = None\<rparr>)))))"

definition Fetch_deserialize :: "vcodec \<Rightarrow> DraftProfile \<Rightarrow> nat option \<Rightarrow> Fetch reader" where
  "Fetch_deserialize C prof e = (if fetch_location_filter prof then Fetch_deserialize20 C prof e else Fetch_deserialize16 C prof e)"

section \<open>FETCH\_OK\<close>

record FetchOk =
  fk_request_id :: "int option"
  fk_group_order :: "pval option"
  fk_end_of_track :: int
  fk_largest_group_id :: int
  fk_largest_object_id :: int
  fk_parameters :: params
  fk_track_extensions :: "kvps option"

text \<open>From draft 20 the End Location is inclusive and there are no parameters.\<close>

definition fetch_ok_end :: "DraftProfile \<Rightarrow> FetchOk \<Rightarrow> int result" where
  "fetch_ok_end prof m =
    (if fetch_location_filter prof then
       bindR (guardR (fk_largest_object_id m \<noteq> 0) ValueError) (\<lambda>_.
       bindR (guardR (fk_parameters m = []) ValueError) (\<lambda>_. Inr (fk_largest_object_id m - 1)))
     else Inr (fk_largest_object_id m))"

definition FetchOk_params :: "DraftProfile \<Rightarrow> FetchOk \<Rightarrow> params" where
  "FetchOk_params prof m =
    (if draft prof < 18 then set_opt (fk_parameters m) GROUP_ORDER (order_param (fk_group_order m)) else fk_parameters m)"

definition FetchOk_payload :: "vcodec \<Rightarrow> DraftProfile \<Rightarrow> FetchOk \<Rightarrow> bytes result" where
  "FetchOk_payload C prof m = (let f = vi64 prof in body C
    [if reply_has_request_id prof then push_req C f (fk_request_id m) else Inr [],
     if is_draft16_or_later (draft prof) then
       wseq [push_uint8 C (fk_end_of_track m), push_vint C f (fk_largest_group_id m), bindR (fetch_ok_end prof m) (push_vint C f),
             serialize_params C prof None (FetchOk_params prof m),
             extensions_encode C f (Some (or_empty (map_option fst (fk_track_extensions m)))) False True]
     else
       wseq [push_u8v C (fk_group_order m), push_uint8 C (fk_end_of_track m), push_vint C f (fk_largest_group_id m),
             push_vint C f (fk_largest_object_id m), serialize_params C prof None (fk_parameters m)]])"

definition FetchOk_serialize :: "vcodec \<Rightarrow> DraftProfile \<Rightarrow> FetchOk \<Rightarrow> bytes result" where
  "FetchOk_serialize C prof m = frame C (push_vint C (vi64 prof) 0x18) (FetchOk_payload C prof m)"

definition FetchOk_deserialize :: "vcodec \<Rightarrow> bool \<Rightarrow> DraftProfile \<Rightarrow> nat option \<Rightarrow> FetchOk reader" where
  "FetchOk_deserialize C tol prof e =
    rbind (pull_if (reply_has_request_id prof) (pull_vint C)) (\<lambda>rid.
    if is_draft16_or_later (draft prof) then
      rbind (pull_uint8 C) (\<lambda>eot. rbind (pull_vint C) (\<lambda>lg. rbind (pull_vint C) (\<lambda>lo.
      rbind (pull_msg_params C prof ''FetchOk'' e) (\<lambda>ps0.
      case dict_pop ps0 GROUP_ORDER of (g, ps) \<Rightarrow>
      rbind (pull_track_exts C tol prof e) (\<lambda>exts.
      rret \<lparr>fk_request_id = rid, fk_group_order = g, fk_end_of_track = eot, fk_largest_group_id = lg,
            fk_largest_object_id = (if fetch_location_filter prof then lo + 1 else lo), fk_parameters = ps,
            fk_track_extensions = exts\<rparr>)))))
    else
      rbind (pull_uint8 C) (\<lambda>g. rbind (pull_uint8 C) (\<lambda>eot. rbind (pull_vint C) (\<lambda>lg. rbind (pull_vint C) (\<lambda>lo.
      rbind (pull_msg_params C prof ''FetchOk'' e) (\<lambda>ps.
      rret \<lparr>fk_request_id = rid, fk_group_order = Some (PInt g), fk_end_of_track = eot, fk_largest_group_id = lg,
            fk_largest_object_id = lo, fk_parameters = ps, fk_track_extensions = None\<rparr>))))))"

end
