(* ===== verification/Control_Laws.thy ===== *)
theory Control_Laws
  imports Control_Track
begin

text \<open>
  The contract of a control message class and the proof that every class keeps it. \<open>message_codec\<close> is the
  interface between the classes and the dispatcher of \<^verbatim>\<open>protocol.py\<close>: what a class writes as a body it reads
  back, up to the end the frame gives it. From it the locale derives once, for all classes, that a whole
  frame is read back and consumed exactly.
\<close>

section \<open>Reading a frame\<close>

text \<open>
  The framing half of \<^verbatim>\<open>_moqt_handle_control_message\<close>: the header and the declared length are the only places
  that ask for more bytes; then the body, which must end exactly where the Length says.
\<close>

definition frame_header :: "vcodec \<Rightarrow> DraftProfile \<Rightarrow> (int \<times> nat) reader" where
  "frame_header C prof =
    rbind (set_vi64 (vi64 prof)) (\<lambda>_.
    rbind (rcatch is_short_read (rbind (pull_vint C) (\<lambda>t. rbind (pull_uint16 C) (\<lambda>n. rret (t, n)))) (\<lambda>_. rfail MOQTUnderflow)) (\<lambda>(t, n).
    rbind rtell (\<lambda>p. rbind rcapacity (\<lambda>cap.
    rbind (rguard (p + nat n \<le> cap) MOQTUnderflow) (\<lambda>_. rret (t, p + nat n))))))"

definition frame_body :: "(nat option \<Rightarrow> 'm reader) \<Rightarrow> nat \<Rightarrow> 'm reader" where
  "frame_body deserialize e =
    rbind (msg_decode (deserialize (Some e))) (\<lambda>m.
    rbind rtell (\<lambda>p. rbind (rguard (p \<le> e) MOQTProtocolViolation) (\<lambda>_. rret m)))"

definition framed :: "vcodec \<Rightarrow> DraftProfile \<Rightarrow> int \<Rightarrow> bytes \<Rightarrow> bytes \<Rightarrow> bool" where
  "framed C prof t p bs \<longleftrightarrow> (\<exists>tb lb. reads (vi64 prof) (pull_vint C) tb t \<and> push_uint16 C (int (length p)) = Inr lb \<and> bs = tb @ lb @ p)"

context vcodec_laws
begin

lemma type_small: "push_uint_var C t = Inr tb \<Longrightarrow> 0 \<le> t \<Longrightarrow> t < 64 \<Longrightarrow> reads f (pull_vint C) tb t"
  using one_byte [of t]
  by (cases f) (auto intro!: reads_vint simp: push_uint_var_def push_vint_def push_with_def of_option_def split: option.splits)

lemma frame_framed:
  assumes "frame C ty payload = Inr bs" "\<And>tb. ty = Inr tb \<Longrightarrow> reads (vi64 prof) (pull_vint C) tb t"
  obtains p where "payload = Inr p" "framed C prof t p bs"
  using assms by (auto simp: frame_def framed_def wr)

lemma frame_header_reads:
  assumes "framed C prof t p bs" "has (vi64 prof) b bs"
  obtains k where "frame_header C prof b = Inr ((t, rb_pos b + length bs), adv b k)" "length bs = k + length p"
    "has (vi64 prof) (adv b k) p"
proof -
  obtain tb lb where t: "reads (vi64 prof) (pull_vint C) tb t" and l: "push_uint16 C (int (length p)) = Inr lb" and bs: "bs = tb @ lb @ p"
    using assms(1) by (auto simp: framed_def)
  have h: "has (vi64 prof) b tb" "has (vi64 prof) (adv b (length tb)) lb" "has (vi64 prof) (adv b (length tb + length lb)) p"
    using assms(2) by (simp_all add: bs has_append)
  have "rb_pos b + length bs \<le> capacity b" using has_length [OF assms(2)] .
  then have "frame_header C prof b = Inr ((t, rb_pos b + length bs), adv b (length tb + length lb))"
    using readsD [OF t h(1)] readsD [OF reads_uint16 [OF l] h(2)] set_vi64_has [OF assms(2)]
    by (simp add: frame_header_def rsteps rcatch_def rcapacity_def bs)
  then show thesis using that [of "length tb + length lb"] h(3) by (simp add: bs)
qed

end

locale message_codec = vcodec_laws C for C :: vcodec +
  fixes payload :: "DraftProfile \<Rightarrow> 'm \<Rightarrow> bytes result"
    and class_of :: "'m \<Rightarrow> 'k"
    and deserialize :: "'k \<Rightarrow> DraftProfile \<Rightarrow> nat option \<Rightarrow> 'm reader"
    and msg_ok :: "DraftProfile \<Rightarrow> 'm \<Rightarrow> bool"
    and received :: "DraftProfile \<Rightarrow> 'm \<Rightarrow> 'm"
  assumes body_reads: "payload prof m = Inr bs \<Longrightarrow> msg_ok prof m \<Longrightarrow> reads_to (vi64 prof) (deserialize (class_of m) prof) bs (received prof m)"
begin

lemma frame_body_reads:
  assumes "payload prof m = Inr p" "msg_ok prof m" "has (vi64 prof) b p"
  shows "frame_body (deserialize (class_of m) prof) (rb_pos b + length p) b = Inr (received prof m, adv b (length p))"
  using reads_toD [OF body_reads [OF assms(1,2)] assms(3)]
  by (simp add: frame_body_def msg_decode_def rcatch_def rsteps)

lemma frame_reads:
  assumes "payload prof m = Inr p" "msg_ok prof m" "framed C prof t p bs" "has (vi64 prof) b bs"
  shows "\<exists>b'. frame_header C prof b = Inr ((t, rb_pos b + length bs), b')
    \<and> frame_body (deserialize (class_of m) prof) (rb_pos b + length bs) b' = Inr (received prof m, adv b (length bs))"
proof -
  obtain k where k: "frame_header C prof b = Inr ((t, rb_pos b + length bs), adv b k)" "length bs = k + length p"
      "has (vi64 prof) (adv b k) p"
    using frame_header_reads [OF assms(3,4)] by blast
  from frame_body_reads [OF assms(1,2) k(3)] show ?thesis using k by (intro exI [of _ "adv b k"]) (simp add: add.assoc)
qed

end

section \<open>Fields\<close>

lemma body_eq [wr]: "body C ws = Inr bs \<longleftrightarrow> wseq ws = Inr bs \<and> fits C BUF_SIZE (length bs)"
  by (simp add: body_def wr)

definition reason_ok :: "pystr option \<Rightarrow> bool" where
  "reason_ok s = (case s of None \<Rightarrow> False | Some x \<Rightarrow> (case str_encode x of Inl _ \<Rightarrow> False | Inr raw \<Rightarrow> int (length raw) \<le> REASON_PHRASE_MAX))"

definition name_ok :: "DraftProfile \<Rightarrow> bytes list \<Rightarrow> bytes \<Rightarrow> bool" where
  "name_ok prof ns name \<longleftrightarrow> ns_ok prof ns \<and> fields_size ns + int (length name) \<le> FULL_TRACK_NAME_MAX"

definition wire_params :: "DraftProfile \<Rightarrow> params option \<Rightarrow> params option" where
  "wire_params prof ps = Some (ordered (params_delta_coded prof) (or_empty ps))"

lemma push_req_eq [wr]: "push_req C f x = Inr bs \<longleftrightarrow> (\<exists>n. x = Some n \<and> push_vint C f n = Inr bs)"
  by (auto simp: push_req_def split: option.splits)

lemma push_u8_eq [wr]: "push_u8 C x = Inr bs \<longleftrightarrow> (\<exists>n. x = Some n \<and> push_uint8 C n = Inr bs)"
  by (auto simp: push_u8_def split: option.splits)

lemma push_enum8_eq [wr]: "push_enum8 C x = Inr bs \<longleftrightarrow> (\<exists>n. x = Some n \<and> push_uint8 C n = Inr bs)"
  by (auto simp: push_enum8_def split: option.splits)

lemma push_u8v_eq [wr]: "push_u8v C x = Inr bs \<longleftrightarrow> (\<exists>n. x = Some (PInt n) \<and> push_uint8 C n = Inr bs)"
  by (auto simp: push_u8v_def split: option.splits pval.splits)

lemma push_reason_eq [wr]: "push_reason C f s = Inr bs \<longleftrightarrow> (\<exists>x raw. s = Some x \<and> str_encode x = Inr raw \<and> push_sized C f raw = Inr bs)"
  by (auto simp: push_reason_def wr split: option.splits)

lemma push_params_eq [wr]: "push_params C prof ps = Inr bs \<longleftrightarrow> (\<exists>d. ps = Some d \<and> serialize_params C prof None d = Inr bs)"
  by (auto simp: push_params_def split: option.splits)

lemma push_tuple_opt_eq [wr]: "push_tuple_opt C f x = Inr bs \<longleftrightarrow> (\<exists>ns. x = Some ns \<and> push_tuple C f ns = Inr bs)"
  by (auto simp: push_tuple_opt_def split: option.splits)

context vcodec_laws
begin

lemma reads_ret_eq: "v = w \<Longrightarrow> reads f (rret v) [] w"
  by (simp add: reads_ret)

lemma reads_some [rd]: "reads f r bs v \<Longrightarrow> reads f (pull_some r) bs (Some v)"
  unfolding pull_some_def by (rule reads_bind_end [OF _ reads_ret])

lemma reads_if:
  assumes "(if c then w else Inr []) = Inr bs" "c \<Longrightarrow> w = Inr bs \<Longrightarrow> reads f r bs v"
  shows "reads f (pull_if c r) bs (if c then Some v else None)"
  using assms by (auto simp: pull_if_def intro!: reads_some reads_ret split: if_splits)

lemma reads_req_if:
  "(if c then push_req C f x else Inr []) = Inr bs \<Longrightarrow> reads f (pull_if c (pull_vint C)) bs (if c then x else None)"
  by (auto simp: pull_if_def wr intro!: reads_some reads_vint reads_ret split: if_splits)

lemma reads_reason:
  "push_reason C f s = Inr bs \<Longrightarrow> reason_ok s \<Longrightarrow> reads f (pull_reason C) bs (the s)"
  by (auto simp: wr reason_ok_def intro!: pull_reason_reads)

lemma reads_name:
  "push_name C f ns name = Inr bs \<Longrightarrow> name_ok prof ns name \<Longrightarrow> reads f (pull_full_track_name C prof) bs (ns, name)"
  by (auto simp: push_name_def name_ok_def wseq_append wr intro!: pull_full_track_name_reads)

lemma reads_tuple: "push_tuple C f ns = Inr bs \<Longrightarrow> ns_ok prof ns \<Longrightarrow> reads f (pull_tuple C prof None) bs ns"
  by (rule reads_in_None [OF pull_tuple_reads])

lemma reads_params_to:
  "serialize_params C prof None ps = Inr bs \<Longrightarrow> params_ok C prof None (Some scope) ps \<Longrightarrow>
   reads_to (vi64 prof) (pull_msg_params C prof scope) bs (ordered (params_delta_coded prof) ps)"
  using deserialize_params_reads_to [of prof None ps bs "Some scope"] by (simp add: pull_msg_params_def delta_of_def)

lemma reads_params_in:
  "serialize_params C prof None ps = Inr bs \<Longrightarrow> params_ok C prof None (Some scope) ps \<Longrightarrow> \<not> has_fill prof ps \<Longrightarrow>
   reads_in (vi64 prof) (pull_msg_params C prof scope) bs (ordered (params_delta_coded prof) ps)"
  using deserialize_params_reads_in [of prof None ps bs "Some scope"] by (simp add: pull_msg_params_def delta_of_def)

end

section \<open>Setup, errors and identifiers\<close>

definition ServerSetup_ok :: "vcodec \<Rightarrow> DraftProfile \<Rightarrow> ServerSetup \<Rightarrow> bool" where
  "ServerSetup_ok C prof m \<longleftrightarrow> params_ok C prof None None (or_empty (ss_parameters m))"

definition ServerSetup_received :: "DraftProfile \<Rightarrow> ServerSetup \<Rightarrow> ServerSetup" where
  "ServerSetup_received prof m = m\<lparr>ss_selected_version := (if setup_carries_versions prof then ss_selected_version m else None),
     ss_parameters := wire_params prof (ss_parameters m)\<rparr>"

definition ClientSetup_ok :: "vcodec \<Rightarrow> DraftProfile \<Rightarrow> ClientSetup \<Rightarrow> bool" where
  "ClientSetup_ok C prof m \<longleftrightarrow> params_ok C prof None None (or_empty (cs_parameters m))"

definition ClientSetup_received :: "DraftProfile \<Rightarrow> ClientSetup \<Rightarrow> ClientSetup" where
  "ClientSetup_received prof m = m\<lparr>cs_versions := (if setup_carries_versions prof then cs_versions m else []),
     cs_parameters := wire_params prof (cs_parameters m)\<rparr>"

definition GoAway_ok :: "DraftProfile \<Rightarrow> GoAway \<Rightarrow> bool" where
  "GoAway_ok prof m = True"

definition GoAway_received :: "DraftProfile \<Rightarrow> GoAway \<Rightarrow> GoAway" where
  "GoAway_received prof m = m\<lparr>ga_timeout := (if 18 \<le> draft prof then ga_timeout m else 0),
     ga_request_id := (if 18 \<le> draft prof \<and> goaway_request_id prof then ga_request_id m else None)\<rparr>"

definition Setup18_ok :: "vcodec \<Rightarrow> DraftProfile \<Rightarrow> params option \<Rightarrow> bool" where
  "Setup18_ok C prof options \<longleftrightarrow> dict_ok (or_empty options) \<and> list_all (option_ok C prof) (or_empty options)"

definition Setup18_received :: "DraftProfile \<Rightarrow> params option \<Rightarrow> params option" where
  "Setup18_received prof options = Some (dict_sorted (or_empty options))"

definition ErrorReply_ok :: "bool \<Rightarrow> DraftProfile \<Rightarrow> ErrorReply \<Rightarrow> bool" where
  "ErrorReply_ok f prof m \<longleftrightarrow> vi64 prof = f \<and> reason_ok (er_reason m)"

context vcodec_laws
begin

lemma setup_params_to:
  "serialize_params C prof None ps = Inr bs \<Longrightarrow> params_ok C prof None None ps \<Longrightarrow>
   reads_to (vi64 prof) (deserialize_params C prof None None) bs (ordered (params_delta_coded prof) ps)"
  using deserialize_params_reads_to [of prof None ps bs None] by (simp add: delta_of_def)

lemma ServerSetup_reads:
  assumes "ServerSetup_payload C prof m = Inr bs" "ServerSetup_ok C prof m"
  shows "reads_to (vi64 prof) (ServerSetup_deserialize C prof) bs (ServerSetup_received prof m)"
proof -
  obtain a c d where a: "(if setup_carries_versions prof then push_req C False (ss_selected_version m) else Inr []) = Inr a"
    and d: "ss_parameters m = Some d" "serialize_params C prof None d = Inr c" and bs: "bs = a @ c"
    using assms(1) by (auto simp: ServerSetup_payload_def wr)
  have ra: "reads (vi64 prof) (pull_if (setup_carries_versions prof) (pull_uint_var C)) a
      (if setup_carries_versions prof then ss_selected_version m else None)"
    using a by (auto simp: pull_if_def wr push_vint_def push_uint_var_def [symmetric] intro!: reads_some reads_uint_var reads_ret split: if_splits)
  show ?thesis unfolding ServerSetup_deserialize_def bs
    apply (rule reads_to_bind_plain [OF ra], rule reads_to_bind_last [OF setup_params_to [OF d(2)]])
    using assms(2) d(1)
    by (cases m, auto simp: ServerSetup_ok_def ServerSetup_received_def or_empty_def wire_params_def intro!: reads_ret_eq)
qed

lemma versions_reads: "wseq (map (push_uint_var C) vs) = Inr bs \<Longrightarrow> reads f (pull_versions C (length vs)) bs vs"
proof (induction vs arbitrary: bs)
  case (Cons v vs)
  then show ?case
    by (auto simp: wr intro!: reads_bind [OF reads_uint_var] reads_bind_end [OF Cons.IH] reads_ret)
qed (simp add: reads_ret)

lemma ClientSetup_reads:
  assumes "ClientSetup_payload C prof m = Inr bs" "ClientSetup_ok C prof m"
  shows "reads_to (vi64 prof) (ClientSetup_deserialize C prof) bs (ClientSetup_received prof m)"
proof -
  let ?vs = "if setup_carries_versions prof then cs_versions m else []"
  obtain a c d where a: "(if setup_carries_versions prof
       then wseq (push_uint_var C (int (length (cs_versions m))) # map (push_uint_var C) (cs_versions m)) else Inr []) = Inr a"
    and d: "cs_parameters m = Some d" "serialize_params C prof None d = Inr c" and bs: "bs = a @ c"
    using assms(1) by (auto simp: ClientSetup_payload_def wr)
  have ra: "reads (vi64 prof) (if setup_carries_versions prof then rbind (pull_uint_var C) (\<lambda>n. pull_versions C (nat n)) else rret []) a ?vs"
  proof (cases "setup_carries_versions prof")
    case True
    then obtain n b where n: "push_uint_var C (int (length (cs_versions m))) = Inr n" "wseq (map (push_uint_var C) (cs_versions m)) = Inr b" "a = n @ b"
      using a by (auto simp: wr)
    have "reads (vi64 prof) (pull_versions C (nat (int (length (cs_versions m))))) b (cs_versions m)"
      using versions_reads [OF n(2)] by simp
    then show ?thesis using True n by (auto intro: reads_bind [OF reads_uint_var])
  qed (use a in \<open>auto intro: reads_ret\<close>)
  show ?thesis unfolding ClientSetup_deserialize_def bs
    apply (rule reads_to_bind_plain [OF ra], rule reads_to_bind_last [OF setup_params_to [OF d(2)]])
    using assms(2) d(1)
    by (cases m, auto simp: ClientSetup_ok_def ClientSetup_received_def or_empty_def wire_params_def intro!: reads_ret_eq)
qed

lemma Setup18_reads:
  assumes "Setup18_payload C prof options = Inr bs" "Setup18_ok C prof options"
  shows "reads_to (vi64 prof) (Setup18_deserialize C prof) bs (Setup18_received prof options)"
proof -
  have "serialize_kvp_to_end C prof (or_empty options) = Inr bs" using assms(1) by (auto simp: Setup18_payload_def wr)
  from setup_options_reads [OF this] show ?thesis
    using assms(2) by (auto simp: reads_to_def Setup18_deserialize_def Setup18_received_def the_end_def Setup18_ok_def pull_some_def rsteps)
qed

lemma error_reads:
  assumes "error_payload C f m = Inr bs" "ErrorReply_ok f prof m"
  shows "reads_to (vi64 prof) (\<lambda>e. error_deserialize C) bs m"
proof -
  obtain i a c b d where ia: "er_request_id m = Some i" "push_vint C f i = Inr a" "er_error_code m = Some c" "push_vint C f c = Inr b"
    and d: "push_reason C f (er_reason m) = Inr d" and bs: "bs = a @ b @ d"
    using assms(1) unfolding error_payload_def by (auto simp: body_eq wseq_Cons_eq wseq_Nil_eq push_req_eq)
  obtain r where r: "er_reason m = Some r" using d by (auto simp: wr)
  have "reads f (error_deserialize C) (a @ b @ d) m"
    unfolding error_deserialize_def
    apply (rule reads_bind [OF reads_some [OF reads_vint [OF ia(2)]]], rule reads_bind [OF reads_some [OF reads_vint [OF ia(4)]]])
    apply (rule reads_bind_end [OF reads_some [OF reads_reason [OF d]]])
    using assms(2) ia r by (auto simp: ErrorReply_ok_def reads_def rret_def)
  then show ?thesis using assms(2) by (auto simp: bs ErrorReply_ok_def intro: reads_to_reads)
qed

lemma id_reads:
  assumes "id_payload C f m = Inr bs" "vi64 prof = f"
  shows "reads_to (vi64 prof) (\<lambda>e. id_deserialize C) bs m"
  using assms by (auto simp: id_payload_def id_deserialize_def wr intro!: reads_to_reads reads_some reads_vint)

end

definition Setup20_ok :: "vcodec \<Rightarrow> DraftProfile \<Rightarrow> Setup20 \<Rightarrow> bool" where
  "Setup20_ok C prof m \<longleftrightarrow> (let d = or_empty (su_options m) in
     dict_ok d \<and> list_all (option_ok C prof) d \<and> list_all (\<lambda>(k, _). k \<in> set SETUP_OPTIONS) d \<and> su_ignored m = [])"

definition Setup20_received :: "DraftProfile \<Rightarrow> Setup20 \<Rightarrow> Setup20" where
  "Setup20_received prof m = m\<lparr>su_options := Some (dict_sorted (or_empty (su_options m)))\<rparr>"

text \<open>The value an option has on the wire, before a token is unwrapped.\<close>

definition wire_option :: "vcodec \<Rightarrow> DraftProfile \<Rightarrow> int \<Rightarrow> pval \<Rightarrow> pval" where
  "wire_option C prof k v = (if k = AUTH_TOKEN then (case auth_token_wrap C v prof of Inr raw \<Rightarrow> PBytes raw | Inl _ \<Rightarrow> v) else v)"

context vcodec_laws
begin

lemma GoAway_reads:
  assumes "GoAway_payload C prof m = Inr bs"
  shows "reads_to (vi64 prof) (GoAway_deserialize C prof) bs (GoAway_received prof m)"
proof (rule reads_toI)
  let ?f = "vi64 prof" and ?rid = "18 \<le> draft prof \<and> goaway_request_id prof"
  obtain uri a t r where uri: "str_encode (ga_new_session_uri m) = Inr uri" and len: "int (length uri) \<le> MAX_URI_LENGTH"
    and a: "push_vint C ?f (int (length uri)) = Inr a"
    and t: "(if 18 \<le> draft prof then push_vint C ?f (ga_timeout m) else Inr []) = Inr t"
    and r: "(if ?rid then push_opt (push_vint C ?f) (ga_request_id m) else Inr []) = Inr r"
    and bs: "bs = a @ uri @ t @ r"
    using assms by (auto simp: GoAway_payload_def Let_def wr)
  fix b assume h: "has ?f b bs"
  let ?e = "rb_pos b + length bs" and ?p = "length a + length uri + length t"
  have hs: "has ?f b a" "has ?f (adv b (length a)) uri" "has ?f (adv b (length a + length uri)) t" "has ?f (adv b ?p) r"
    using h by (simp_all add: bs has_append add.assoc)
  have dec: "bytes_decode uri = Inr (ga_new_session_uri m)" using str_roundtrip(1) [OF uri] .
  have rt: "(if 18 \<le> draft prof then pull_vint C else rret 0) (adv b (length a + length uri))
      = Inr (if 18 \<le> draft prof then ga_timeout m else 0, adv b ?p)"
    using t readsD [OF reads_vint hs(3)] by (auto simp: rret_def split: if_splits)
  have rr: "pull_if (18 \<le> draft prof \<and> goaway_request_id prof \<and> rb_pos b + ?p < ?e) (pull_vint C) (adv b ?p)
      = Inr (if ?rid then ga_request_id m else None, adv b (length bs))"
  proof (cases "?rid \<and> ga_request_id m \<noteq> None")
    case True
    then obtain i where i: "ga_request_id m = Some i" "push_vint C ?f i = Inr r" using r by (auto simp: push_opt_def)
    have "r \<noteq> []" using push_vint_nonempty [OF i(2)] .
    then show ?thesis using True i readsD [OF reads_some [OF reads_vint [OF i(2)]] hs(4)] by (simp add: pull_if_def bs add.assoc)
  next
    case False
    then have "r = []" using r by (auto simp: push_opt_def split: if_splits option.splits)
    then show ?thesis using False by (auto simp: pull_if_def rret_def bs add.assoc)
  qed
  show "GoAway_deserialize C prof (Some ?e) b = Inr (GoAway_received prof m, adv b (length bs))"
    using set_vi64_has [OF h] readsD [OF reads_vint [OF a] hs(1)] readsD [OF reads_pull_bytes [OF refl] hs(2)] len dec rt rr
    by (cases m) (simp add: GoAway_deserialize_def rsteps GoAway_received_def add.assoc)
qed

lemma setup_option_reads:
  assumes "push_vint C (vi64 prof) (k - prev) = Inr kb" "option_ok C prof (k, v)" "has (vi64 prof) b (kb @ vb)"
    and "(if k mod 2 = 1 then
         bindR (if k = AUTH_TOKEN then auth_token_wrap C v prof else pv_encoded v) (\<lambda>bs.
         bindR (guardR (int (length bs) \<le> OPTION_VALUE_MAX) ValueError) (\<lambda>_. push_sized C (vi64 prof) bs))
       else (case v of
           PInt n \<Rightarrow> bindR (guardR (0 \<le> n \<and> n \<le> OPTION_TYPE_MAX) ValueError) (\<lambda>_. push_vint C (vi64 prof) n)
         | _ \<Rightarrow> Inl TypeError)) = Inr vb"
    and "rb_pos b + length (kb @ vb) \<le> e"
  shows "pull_setup_option C e prev b = Inr ((k, wire_option C prof k v), adv b (length (kb @ vb)))"
proof -
  have h: "has (vi64 prof) b kb" "has (vi64 prof) (adv b (length kb)) vb" using assms(3) by (simp_all add: has_append)
  have k: "k \<le> OPTION_TYPE_MAX" using assms(2) by (simp add: option_ok_def KVP_TYPE_MAX_def OPTION_TYPE_MAX_def)
  note 1 = readsD [OF reads_vint [OF assms(1)] h(1)]
  show ?thesis
  proof (cases "k mod 2 = 1")
    case True
    then obtain raw l where raw: "(if k = AUTH_TOKEN then auth_token_wrap C v prof else pv_encoded v) = Inr raw"
      and len: "int (length raw) \<le> OPTION_VALUE_MAX" and l: "push_vint C (vi64 prof) (int (length raw)) = Inr l" and vb: "vb = l @ raw"
      using assms(4) by (auto simp: wr)
    have hs: "has (vi64 prof) (adv b (length kb)) l" "has (vi64 prof) (adv b (length kb + length l)) raw"
      using h(2) by (simp_all add: vb has_append)
    have w: "wire_option C prof k v = PBytes raw"
      using raw assms(2) True by (auto simp: wire_option_def option_ok_def bytes_ok_def pv_encoded_def split: if_splits pval.splits)
    show ?thesis
      using 1 readsD [OF reads_vint [OF l] hs(1)] readsD [OF reads_pull_bytes [OF refl] hs(2)] k len assms(5) True
      by (simp add: pull_setup_option_def check_extent_def rsteps Let_def w vb add.assoc)
  next
    case False
    then obtain n where n: "v = PInt n" "push_vint C (vi64 prof) n = Inr vb" using assms(4) by (auto simp: wr split: pval.splits)
    have "k \<noteq> AUTH_TOKEN" using False by (auto simp: AUTH_TOKEN_def)
    then show ?thesis
      using 1 readsD [OF reads_vint [OF n(2)] h(2)] k assms(5) False
      by (simp add: pull_setup_option_def check_extent_def rsteps Let_def wire_option_def n(1) add.assoc)
  qed
qed

lemma store_option_known:
  assumes "option_ok C prof (k, v)" "k \<in> set SETUP_OPTIONS" "map_of opts k = None"
  shows "store_option C prof opts ign k (wire_option C prof k v) = Inr (opts @ [(k, v)], ign)"
proof (cases "k = AUTH_TOKEN")
  case True
  then obtain raw where raw: "auth_token_wrap C v prof = Inr raw" "tok_ok v" "tok_received v = v"
    using assms(1) by (auto simp: option_ok_def bytes_ok_def AUTH_TOKEN_def split: sum.splits)
  then show ?thesis
    using assms True auth_token_roundtrip [OF raw(1,2)] by (simp add: store_option_def wire_option_def dict_get_def dict_set_new)
next
  case False
  then show ?thesis using assms by (simp add: store_option_def wire_option_def dict_get_def dict_set_new)
qed

lemma setup_options_loop_reads:
  assumes "push_setup_options C prof prev xs = Inr bs" "has (vi64 prof) b bs" "distinct (map fst (opts @ xs))"
    and "list_all (option_ok C prof) xs" "list_all (\<lambda>(k, _). k \<in> set SETUP_OPTIONS) xs"
  shows "setup_options_loop C prof (rb_pos b + length bs) prev opts ign b
    = Inr (\<lparr>su_options = Some (opts @ xs), su_ignored = ign\<rparr>, adv b (length bs))"
  using assms
proof (induction xs arbitrary: prev bs b opts)
  case Nil
  then show ?case by (simp add: setup_options_loop.simps)
next
  case (Cons x xs)
  obtain k v where x: "x = (k, v)" by force
  let ?w = "if k mod 2 = 1 then
         bindR (if k = AUTH_TOKEN then auth_token_wrap C v prof else pv_encoded v) (\<lambda>bs.
         bindR (guardR (int (length bs) \<le> OPTION_VALUE_MAX) ValueError) (\<lambda>_. push_sized C (vi64 prof) bs))
       else (case v of
           PInt n \<Rightarrow> bindR (guardR (0 \<le> n \<and> n \<le> OPTION_TYPE_MAX) ValueError) (\<lambda>_. push_vint C (vi64 prof) n)
         | _ \<Rightarrow> Inl TypeError)"
  obtain kb vb rest where p: "push_vint C (vi64 prof) (k - prev) = Inr kb" "?w = Inr vb" "push_setup_options C prof k xs = Inr rest"
    and bs: "bs = (kb @ vb) @ rest"
    using Cons.prems(1) unfolding x push_setup_options.simps by (auto simp: bindR_eq_Inr wseq_Cons_eq wseq_Nil_eq)
  have h: "has (vi64 prof) b (kb @ vb)" "has (vi64 prof) (adv b (length (kb @ vb))) rest"
    using Cons.prems(2) unfolding bs has_append [of _ _ "kb @ vb"] by simp_all
  have ne: "0 < length (kb @ vb)" using push_vint_nonempty [OF p(1)] by simp
  have ok: "option_ok C prof (k, v)" "k \<in> set SETUP_OPTIONS" "map_of opts k = None"
    using Cons.prems(3-5) by (auto simp: x map_of_eq_None_iff)
  have 1: "pull_setup_option C (rb_pos b + length bs) prev b = Inr ((k, wire_option C prof k v), adv b (length (kb @ vb)))"
    by (rule setup_option_reads [OF p(1) ok(1) h(1) p(2)]) (simp add: bs)
  have "setup_options_loop C prof (rb_pos (adv b (length (kb @ vb))) + length rest) k (opts @ [(k, v)]) ign (adv b (length (kb @ vb)))
      = Inr (\<lparr>su_options = Some ((opts @ [(k, v)]) @ xs), su_ignored = ign\<rparr>, adv (adv b (length (kb @ vb))) (length rest))"
    using Cons.prems(3-5) by (intro Cons.IH p(3) h(2)) (simp_all add: x)
  then show ?case
    using 1 ne store_option_known [OF ok, of ign] by (subst setup_options_loop.simps) (simp add: x bs add.assoc)
qed

lemma Setup20_reads:
  assumes "Setup20_payload C prof m = Inr bs" "Setup20_ok C prof m"
  shows "reads_to (vi64 prof) (Setup20_deserialize C prof) bs (Setup20_received prof m)"
proof (rule reads_toI)
  fix b assume h: "has (vi64 prof) b bs"
  let ?d = "or_empty (su_options m)"
  have p: "push_setup_options C prof 0 (dict_sorted ?d) = Inr bs" using assms(1) by (auto simp: Setup20_payload_def wr)
  have "setup_options_loop C prof (rb_pos b + length bs) 0 [] [] b
      = Inr (\<lparr>su_options = Some ([] @ dict_sorted ?d), su_ignored = []\<rparr>, adv b (length bs))"
    using assms(2) dict_sorted_ok [of ?d] by (intro setup_options_loop_reads [OF p h]) (auto simp: Setup20_ok_def Let_def dict_ok_def list_all_iff)
  then show "Setup20_deserialize C prof (Some (rb_pos b + length bs)) b = Inr (Setup20_received prof m, adv b (length bs))"
    using set_vi64_has [OF h] assms(2)
    by (cases m) (simp add: Setup20_deserialize_def the_end_def rsteps rcatch_def Setup20_received_def Setup20_ok_def Let_def)
qed

end

section \<open>Requests and namespaces\<close>

definition exts_accepted :: "vcodec \<Rightarrow> bool \<Rightarrow> DraftProfile \<Rightarrow> params option \<Rightarrow> bool" where
  "exts_accepted C tol prof x \<longleftrightarrow> exts_ok x \<and>
     (track_properties prof \<longrightarrow> check_track_properties C tol (map_option fst (ext_received True x)) prof = Inr ())"

definition RequestOk_ok :: "vcodec \<Rightarrow> bool \<Rightarrow> DraftProfile \<Rightarrow> RequestOk \<Rightarrow> bool" where
  "RequestOk_ok C tol prof m \<longleftrightarrow>
     params_ok C prof None (Some ''RequestOk'') (or_empty (ro_parameters m)) \<and> \<not> has_fill prof (or_empty (ro_parameters m))
     \<and> exts_ok (map_option fst (ro_track_properties m))
     \<and> check_track_properties C tol (map_option fst (ext_received True (map_option fst (ro_track_properties m)))) prof = Inr ()"

definition RequestOk_received :: "DraftProfile \<Rightarrow> RequestOk \<Rightarrow> RequestOk" where
  "RequestOk_received prof m =
    \<lparr>ro_request_id = (if reply_has_request_id prof then ro_request_id m else None),
     ro_parameters = wire_params prof (ro_parameters m),
     ro_track_properties = (if 18 \<le> draft prof \<and> has_props (ro_track_properties m)
       then ext_received True (map_option fst (ro_track_properties m)) else None)\<rparr>"

definition RequestError_ok :: "DraftProfile \<Rightarrow> RequestError \<Rightarrow> bool" where
  "RequestError_ok prof m \<longleftrightarrow> reason_ok (Some (case re_reason m of None \<Rightarrow> [] | Some s \<Rightarrow> s))
     \<and> (case re_redirect m of None \<Rightarrow> True | Some (_, ns, name) \<Rightarrow> name_ok prof ns name)"

definition RequestError_received :: "DraftProfile \<Rightarrow> RequestError \<Rightarrow> RequestError" where
  "RequestError_received prof m =
    \<lparr>re_request_id = (if reply_has_request_id prof then re_request_id m else None), re_error_code = re_error_code m,
     re_retry_interval = re_retry_interval m, re_reason = Some (case re_reason m of None \<Rightarrow> [] | Some s \<Rightarrow> s),
     re_redirect = (if re_error_code m = Some REDIRECT \<and> \<not> reply_has_request_id prof then re_redirect m else None)\<rparr>"

definition RequestUpdate_ok :: "vcodec \<Rightarrow> DraftProfile \<Rightarrow> RequestUpdate \<Rightarrow> bool" where
  "RequestUpdate_ok C prof m \<longleftrightarrow> params_ok C prof None (Some ''RequestUpdate'') (or_empty (ru_parameters m))"

definition RequestUpdate_received :: "DraftProfile \<Rightarrow> RequestUpdate \<Rightarrow> RequestUpdate" where
  "RequestUpdate_received prof m =
    \<lparr>ru_request_id = ru_request_id m, ru_existing_request_id = (if draft prof < 18 then ru_existing_request_id m else None),
     ru_parameters = wire_params prof (ru_parameters m)\<rparr>"

definition PublishNamespace_ok :: "vcodec \<Rightarrow> DraftProfile \<Rightarrow> PublishNamespace \<Rightarrow> bool" where
  "PublishNamespace_ok C prof m \<longleftrightarrow> ns_ok prof (pn_namespace m)
     \<and> params_ok C prof None (Some ''PublishNamespace'') (or_empty (pn_parameters m))"

definition PublishNamespace_received :: "DraftProfile \<Rightarrow> PublishNamespace \<Rightarrow> PublishNamespace" where
  "PublishNamespace_received prof m =
    \<lparr>pn_request_id = pn_request_id m, pn_namespace = pn_namespace m, pn_parameters = wire_params prof (pn_parameters m)\<rparr>"

definition PublishNamespaceDone_ok :: "DraftProfile \<Rightarrow> PublishNamespaceDone \<Rightarrow> bool" where
  "PublishNamespaceDone_ok prof m \<longleftrightarrow> (case pnd_namespace m of None \<Rightarrow> True | Some ns \<Rightarrow> ns_ok prof ns)"

definition PublishNamespaceDone_received :: "DraftProfile \<Rightarrow> PublishNamespaceDone \<Rightarrow> PublishNamespaceDone" where
  "PublishNamespaceDone_received prof m =
    (if is_draft16_or_later (draft prof) then m\<lparr>pnd_namespace := None\<rparr> else m\<lparr>pnd_request_id := None\<rparr>)"

definition PublishNamespaceCancel_ok :: "DraftProfile \<Rightarrow> PublishNamespaceCancel \<Rightarrow> bool" where
  "PublishNamespaceCancel_ok prof m \<longleftrightarrow> (case pnc_namespace m of None \<Rightarrow> True | Some ns \<Rightarrow> ns_ok prof ns)
     \<and> reason_ok (Some (case pnc_reason m of None \<Rightarrow> [] | Some s \<Rightarrow> s))"

definition PublishNamespaceCancel_received :: "DraftProfile \<Rightarrow> PublishNamespaceCancel \<Rightarrow> PublishNamespaceCancel" where
  "PublishNamespaceCancel_received prof m =
    \<lparr>pnc_namespace = (if is_draft16_or_later (draft prof) then None else pnc_namespace m), pnc_error_code = pnc_error_code m,
     pnc_reason = Some (case pnc_reason m of None \<Rightarrow> [] | Some s \<Rightarrow> s),
     pnc_request_id = (if is_draft16_or_later (draft prof) then pnc_request_id m else None)\<rparr>"

definition SubscribeNamespace_ok :: "vcodec \<Rightarrow> DraftProfile \<Rightarrow> SubscribeNamespace \<Rightarrow> bool" where
  "SubscribeNamespace_ok C prof m \<longleftrightarrow> ns_ok prof (sn_namespace_prefix m)
     \<and> params_ok C prof None (Some ''SubscribeNamespace'') (or_empty (sn_parameters m))"

definition SubscribeNamespace_received :: "DraftProfile \<Rightarrow> SubscribeNamespace \<Rightarrow> SubscribeNamespace" where
  "SubscribeNamespace_received prof m =
    \<lparr>sn_request_id = sn_request_id m, sn_namespace_prefix = sn_namespace_prefix m,
     sn_subscribe_options = (if carries_options prof then sn_subscribe_options m else 0),
     sn_parameters = wire_params prof (sn_parameters m)\<rparr>"

definition SubscribeTracks_ok :: "vcodec \<Rightarrow> DraftProfile \<Rightarrow> SubscribeTracks \<Rightarrow> bool" where
  "SubscribeTracks_ok C prof m \<longleftrightarrow> ns_ok prof (st_namespace_prefix m)
     \<and> params_ok C prof None (Some ''SubscribeTracks'') (or_empty (st_parameters m))"

definition SubscribeTracks_received :: "DraftProfile \<Rightarrow> SubscribeTracks \<Rightarrow> SubscribeTracks" where
  "SubscribeTracks_received prof m =
    \<lparr>st_request_id = st_request_id m, st_namespace_prefix = st_namespace_prefix m, st_parameters = wire_params prof (st_parameters m)\<rparr>"

definition PublishBlocked_ok :: "DraftProfile \<Rightarrow> PublishBlocked \<Rightarrow> bool" where
  "PublishBlocked_ok prof m \<longleftrightarrow> name_ok prof (pb_namespace_suffix m) (pb_track_name m)"

context vcodec_laws
begin

text \<open>The end of a message whose last field is its parameters.\<close>

lemma params_end:
  assumes "serialize_params C prof None ps = Inr bs" "params_ok C prof None (Some scope) ps"
    and "\<And>e. k e (ordered (params_delta_coded prof) ps) = rret v"
  shows "reads_to (vi64 prof) (\<lambda>e. rbind (pull_msg_params C prof scope e) (k e)) bs v"
  using reads_to_bind_last [OF reads_params_to [OF assms(1,2)], of k v] assms(3) by (simp add: reads_ret)

lemma trailing_nonempty:
  assumes "extensions_encode C f (Some d) False delta = Inr x" "d \<noteq> []"
  shows "x \<noteq> []"
proof -
  have "ext_push_items C f delta 0 (ordered delta d) = Inr x"
    using assms by (cases d) (auto simp: extensions_encode_def ordered_def wr)
  moreover have "ordered delta d \<noteq> []" using assms(2) ordered_simps(1) [of delta d] by force
  ultimately show ?thesis by (rule ext_items_nonempty)
qed

lemma RequestUpdate_reads:
  assumes "RequestUpdate_payload C prof m = Inr bs" "RequestUpdate_ok C prof m"
  shows "reads_to (vi64 prof) (RequestUpdate_deserialize C prof) bs (RequestUpdate_received prof m)"
proof -
  obtain i a c d where a: "ru_request_id m = Some i" "push_vint C (vi64 prof) i = Inr a"
    and c: "(if draft prof < 18 then push_req C (vi64 prof) (ru_existing_request_id m) else Inr []) = Inr c"
    and d: "serialize_params C prof None (or_empty (ru_parameters m)) = Inr d" and bs: "bs = a @ c @ d"
    using assms(1) unfolding RequestUpdate_payload_def Let_def by (auto simp: body_eq wseq_Cons_eq wseq_Nil_eq push_req_eq)
  show ?thesis unfolding RequestUpdate_deserialize_def bs
    apply (rule reads_to_bind_plain [OF reads_some [OF reads_vint [OF a(2)]]], rule reads_to_bind_plain [OF reads_req_if [OF c]])
    apply (rule params_end [OF d])
    using assms(2) a(1) by (auto simp: RequestUpdate_ok_def RequestUpdate_received_def wire_params_def)
qed

lemma RequestError_reads:
  assumes "RequestError_payload C prof m = Inr bs" "RequestError_ok prof m"
  shows "reads_to (vi64 prof) (RequestError_deserialize C prof) bs (RequestError_received prof m)"
proof (rule reads_toI)
  let ?f = "vi64 prof" and ?s = "case re_reason m of None \<Rightarrow> [] | Some s \<Rightarrow> s"
  let ?c = "re_error_code m = Some REDIRECT \<and> \<not> reply_has_request_id prof"
  obtain a code b c d x where a: "(if reply_has_request_id prof then push_req C ?f (re_request_id m) else Inr []) = Inr a"
    and b: "re_error_code m = Some code" "push_vint C ?f code = Inr b" and c: "push_vint C ?f (re_retry_interval m) = Inr c"
    and d: "push_reason C ?f (Some ?s) = Inr d"
    and x: "(if ?c then (case re_redirect m of None \<Rightarrow> Inr [] | Some x \<Rightarrow> push_redirect C ?f x) else Inr []) = Inr x"
    and bs: "bs = a @ b @ c @ d @ x"
    using assms(1) unfolding RequestError_payload_def Let_def by (auto simp: body_eq wseq_Cons_eq wseq_Nil_eq push_req_eq)
  fix bb assume h: "has ?f bb bs"
  let ?p = "length a + length b + length c + length d"
  have hs: "has ?f bb a" "has ?f (adv bb (length a)) b" "has ?f (adv bb (length a + length b)) c"
      "has ?f (adv bb (length a + length b + length c)) d" "has ?f (adv bb ?p) x"
    using h by (simp_all add: bs has_append add.assoc)
  let ?rd = "rbind (pull_vint C) (\<lambda>n. rbind (pull_bytes n) (\<lambda>uri. rbind (pull_full_track_name C prof) (\<lambda>(ns, name). rret (uri, ns, name))))"
  have rx: "pull_if (code = REDIRECT \<and> \<not> reply_has_request_id prof \<and> rb_pos bb + ?p < rb_pos bb + length bs) ?rd (adv bb ?p)
      = Inr (if ?c then re_redirect m else None, adv bb (length bs))"
  proof (cases "?c \<and> re_redirect m \<noteq> None")
    case True
    then obtain uri ns name where r: "re_redirect m = Some (uri, ns, name)" by auto
    obtain l u n where l: "push_vint C ?f (int (length uri)) = Inr l" and u: "push_tuple C ?f ns = Inr u"
      and n: "push_sized C ?f name = Inr n" and xe: "x = l @ uri @ u @ n"
      using x True r by (auto simp: push_redirect_def wseq_Cons_eq wseq_Nil_eq push_sized_def push_bytes_eq)
    have "reads ?f ?rd x (uri, ns, name)" unfolding xe
      apply (rule reads_bind [OF reads_vint [OF l]], rule reads_bind [OF reads_pull_bytes [OF refl]])
      apply (rule reads_bind_end [OF pull_full_track_name_reads [OF u n]])
      using assms(2) r by (auto simp: RequestError_ok_def name_ok_def intro: reads_ret)
    moreover have "x \<noteq> []" using push_vint_nonempty [OF l] by (simp add: xe)
    ultimately show ?thesis using True r b(1) readsD [OF reads_some hs(5), of ?rd "(uri, ns, name)"] by (simp add: pull_if_def bs add.assoc)
  next
    case False
    then have "x = []" using x by (cases "re_redirect m") (auto split: if_splits)
    then show ?thesis using False b(1) by (cases "re_redirect m") (auto simp: pull_if_def rret_def bs add.assoc)
  qed
  show "RequestError_deserialize C prof (Some (rb_pos bb + length bs)) bb = Inr (RequestError_received prof m, adv bb (length bs))"
    using readsD [OF reads_req_if [OF a] hs(1)] readsD [OF reads_vint [OF b(2)] hs(2)] readsD [OF reads_vint [OF c] hs(3)]
      readsD [OF reads_reason [OF d] hs(4)] assms(2) rx b(1)
    by (simp add: RequestError_deserialize_def RequestError_ok_def rsteps RequestError_received_def before_end_def add.assoc)
qed

lemma RequestOk_reads:
  assumes "RequestOk_payload C prof m = Inr bs" "RequestOk_ok C tol prof m"
  shows "reads_to (vi64 prof) (RequestOk_deserialize C tol prof) bs (RequestOk_received prof m)"
proof -
  let ?f = "vi64 prof" and ?x = "map_option fst (ro_track_properties m)" and ?c = "18 \<le> draft prof \<and> has_props (ro_track_properties m)"
  obtain a c x where a: "(if reply_has_request_id prof then push_req C ?f (ro_request_id m) else Inr []) = Inr a"
    and c: "serialize_params C prof None (or_empty (ro_parameters m)) = Inr c"
    and x: "(if ?c then extensions_encode C ?f ?x False True else Inr []) = Inr x" and bs: "bs = a @ c @ x"
    using assms(1) unfolding RequestOk_payload_def by (auto simp: body_eq wseq_Cons_eq wseq_Nil_eq)
  note ok = assms(2) [unfolded RequestOk_ok_def]
  let ?rd = "\<lambda>e. rbind (extensions_decode C tol False e True True) (\<lambda>props.
             rbind (rlift (check_track_properties C tol (map_option fst props) prof)) (\<lambda>_. rret props))"
  let ?tail = "\<lambda>ps rid e. rbind rtell (\<lambda>p. rbind (if 18 \<le> draft prof \<and> before_end e p then ?rd e else rret None) (\<lambda>props.
      rret \<lparr>ro_request_id = rid, ro_parameters = Some ps, ro_track_properties = props\<rparr>))"
  have tail: "reads_to ?f (?tail ps rid) x \<lparr>ro_request_id = rid, ro_parameters = Some ps,
      ro_track_properties = (if ?c then ext_received True ?x else None)\<rparr>" for ps rid
  proof (cases ?c)
    case True
    then have e: "extensions_encode C ?f ?x False True = Inr x" using x by simp
    have "x \<noteq> []" using e True trailing_nonempty by (auto simp: has_props_def split: option.splits)
    moreover have "reads_to ?f ?rd x (ext_received True ?x)"
      using ok by (intro reads_to_bind_last [OF extensions_trailing_reads [OF e]] reads_bind0 [OF reads_lift] reads_ret) auto
    ultimately show ?thesis using True by (auto simp: reads_to_def before_end_def rsteps)
  next
    case False
    then have "x = []" using x by auto
    then show ?thesis using False by (auto simp: reads_to_def before_end_def rsteps)
  qed
  show ?thesis unfolding RequestOk_deserialize_def bs
    apply (rule reads_to_bind_plain [OF reads_req_if [OF a]], rule reads_to_bind [OF reads_params_in [OF c]])
    using ok tail by (auto simp: RequestOk_received_def wire_params_def)
qed

end

context vcodec_laws
begin

lemma tuple_payload_reads:
  assumes "tuple_payload C prof ns = Inr bs" "ns_ok prof ns"
  shows "reads_to (vi64 prof) (\<lambda>e. pull_tuple C prof None) bs ns"
  using assms by (auto simp: tuple_payload_def body_eq wseq_Cons_eq wseq_Nil_eq intro!: reads_to_reads reads_tuple)

lemma PublishNamespace_reads:
  assumes "PublishNamespace_payload C prof m = Inr bs" "PublishNamespace_ok C prof m"
  shows "reads_to (vi64 prof) (PublishNamespace_deserialize C prof) bs (PublishNamespace_received prof m)"
proof -
  obtain a c d x where a: "push_vint C (vi64 prof) (pn_request_id m) = Inr a" and c: "push_tuple C (vi64 prof) (pn_namespace m) = Inr c"
    and d: "pn_parameters m = Some d" "serialize_params C prof None d = Inr x" and bs: "bs = a @ c @ x"
    using assms(1) unfolding PublishNamespace_payload_def by (auto simp: body_eq wseq_Cons_eq wseq_Nil_eq push_params_eq)
  note ok = assms(2) [unfolded PublishNamespace_ok_def]
  show ?thesis unfolding PublishNamespace_deserialize_def bs
    apply (rule reads_to_bind_plain [OF reads_vint [OF a]], rule reads_to_bind_plain [OF reads_tuple [OF c]], use ok in simp)
    apply (rule params_end [OF d(2)])
    using ok d(1) by (auto simp: PublishNamespace_received_def wire_params_def or_empty_def)
qed

lemma PublishNamespaceDone_reads:
  assumes "PublishNamespaceDone_payload C prof m = Inr bs" "PublishNamespaceDone_ok prof m"
  shows "reads_to (vi64 prof) (PublishNamespaceDone_deserialize C prof) bs (PublishNamespaceDone_received prof m)"
proof (cases "is_draft16_or_later (draft prof)")
  case True
  then obtain i where "pnd_request_id m = Some i" "push_vint C (vi64 prof) i = Inr bs"
    using assms(1) unfolding PublishNamespaceDone_payload_def by (auto simp: body_eq wseq_Cons_eq wseq_Nil_eq push_req_eq)
  then show ?thesis using True unfolding PublishNamespaceDone_deserialize_def
    by (cases m) (auto simp: PublishNamespaceDone_received_def intro!: reads_to_reads reads_bind_end [OF reads_vint] reads_ret_eq)
next
  case False
  then obtain ns where "pnd_namespace m = Some ns" "push_tuple C (vi64 prof) ns = Inr bs"
    using assms(1) unfolding PublishNamespaceDone_payload_def by (auto simp: body_eq wseq_Cons_eq wseq_Nil_eq push_tuple_opt_eq)
  then show ?thesis using False assms(2) unfolding PublishNamespaceDone_deserialize_def
    by (cases m) (auto simp: PublishNamespaceDone_received_def PublishNamespaceDone_ok_def
        intro!: reads_to_reads reads_bind_end [OF reads_tuple] reads_ret_eq)
qed

lemma PublishNamespaceCancel_reads:
  assumes "PublishNamespaceCancel_payload C prof m = Inr bs" "PublishNamespaceCancel_ok prof m"
  shows "reads_to (vi64 prof) (PublishNamespaceCancel_deserialize C prof) bs (PublishNamespaceCancel_received prof m)"
proof -
  let ?f = "vi64 prof" and ?s = "case pnc_reason m of None \<Rightarrow> [] | Some s \<Rightarrow> s" and ?d = "is_draft16_or_later (draft prof)"
  obtain a code b d where a: "(if ?d then push_req C ?f (pnc_request_id m) else push_tuple_opt C ?f (pnc_namespace m)) = Inr a"
    and b: "pnc_error_code m = Some code" "push_vint C ?f code = Inr b"
    and d: "push_reason C ?f (Some ?s) = Inr d" and bs: "bs = a @ b @ d"
    using assms(1) unfolding PublishNamespaceCancel_payload_def Let_def by (auto simp: body_eq wseq_Cons_eq wseq_Nil_eq push_req_eq)
  note ok = assms(2) [unfolded PublishNamespaceCancel_ok_def]
  let ?k = "\<lambda>rid ns. rbind (pull_vint C) (\<lambda>code. rbind (pull_reason C) (\<lambda>reason.
    rret \<lparr>pnc_namespace = ns, pnc_error_code = Some code, pnc_reason = Some reason, pnc_request_id = rid\<rparr>))"
  have k: "reads ?f (?k rid ns) (b @ d) \<lparr>pnc_namespace = ns, pnc_error_code = Some code, pnc_reason = Some ?s, pnc_request_id = rid\<rparr>" for rid ns
    apply (rule reads_bind [OF reads_vint [OF b(2)]], rule reads_bind_end [OF reads_reason [OF d]])
    using ok by (auto intro: reads_ret_eq)
  have "reads ?f (PublishNamespaceCancel_deserialize C prof e) (a @ b @ d) (PublishNamespaceCancel_received prof m)" for e
  proof (cases ?d)
    case True
    then obtain i where i: "pnc_request_id m = Some i" "push_vint C ?f i = Inr a" using a by (auto simp: push_req_eq)
    show ?thesis unfolding PublishNamespaceCancel_deserialize_def pull_if_def
      using True i b(1) by (auto simp: PublishNamespaceCancel_received_def intro!: reads_bind [OF reads_some [OF reads_vint]] reads_bind0 [OF reads_ret] k)
  next
    case False
    then obtain ns where i: "pnc_namespace m = Some ns" "push_tuple C ?f ns = Inr a" using a by (auto simp: push_tuple_opt_eq)
    have r: "reads ?f (pull_some (pull_tuple C prof None)) a (Some ns)" using i ok by (intro reads_some reads_tuple) auto
    have "reads ?f (rbind (pull_some (pull_tuple C prof None)) (?k None)) (a @ b @ d)
        \<lparr>pnc_namespace = Some ns, pnc_error_code = Some code, pnc_reason = Some ?s, pnc_request_id = None\<rparr>"
      by (rule reads_bind [OF r k])
    then show ?thesis unfolding PublishNamespaceCancel_deserialize_def pull_if_def
      using False i b(1) by (auto simp: PublishNamespaceCancel_received_def intro!: reads_bind0 [OF reads_ret])
  qed
  then show ?thesis unfolding bs by (auto simp: reads_to_def reads_def)
qed

lemma SubscribeNamespace_reads:
  assumes "SubscribeNamespace_payload C prof m = Inr bs" "SubscribeNamespace_ok C prof m"
  shows "reads_to (vi64 prof) (SubscribeNamespace_deserialize C prof) bs (SubscribeNamespace_received prof m)"
proof -
  let ?f = "vi64 prof"
  obtain a c o' d x where a: "push_vint C ?f (sn_request_id m) = Inr a" and c: "push_tuple C ?f (sn_namespace_prefix m) = Inr c"
    and o': "(if carries_options prof then push_vint C ?f (sn_subscribe_options m) else Inr []) = Inr o'"
    and d: "sn_parameters m = Some d" "serialize_params C prof None d = Inr x" and bs: "bs = a @ c @ o' @ x"
    using assms(1) unfolding SubscribeNamespace_payload_def Let_def by (auto simp: body_eq wseq_Cons_eq wseq_Nil_eq push_params_eq)
  note ok = assms(2) [unfolded SubscribeNamespace_ok_def]
  have ro: "reads ?f (if carries_options prof then pull_vint C else rret 0) o' (if carries_options prof then sn_subscribe_options m else 0)"
    using o' by (auto intro: reads_vint reads_ret split: if_splits)
  show ?thesis unfolding SubscribeNamespace_deserialize_def bs
    apply (rule reads_to_bind_plain [OF reads_vint [OF a]], rule reads_to_bind_plain [OF reads_tuple [OF c]], use ok in simp)
    apply (rule reads_to_bind_plain [OF ro], rule params_end [OF d(2)])
    using ok d(1) by (auto simp: SubscribeNamespace_received_def wire_params_def or_empty_def)
qed

lemma SubscribeTracks_reads:
  assumes "SubscribeTracks_payload C prof m = Inr bs" "SubscribeTracks_ok C prof m"
  shows "reads_to (vi64 prof) (SubscribeTracks_deserialize C prof) bs (SubscribeTracks_received prof m)"
proof -
  obtain a c x where a: "push_vint C (vi64 prof) (st_request_id m) = Inr a" and c: "push_tuple C (vi64 prof) (st_namespace_prefix m) = Inr c"
    and d: "serialize_params C prof None (or_empty (st_parameters m)) = Inr x" and bs: "bs = a @ c @ x"
    using assms(1) unfolding SubscribeTracks_payload_def by (auto simp: body_eq wseq_Cons_eq wseq_Nil_eq)
  note ok = assms(2) [unfolded SubscribeTracks_ok_def]
  show ?thesis unfolding SubscribeTracks_deserialize_def bs
    apply (rule reads_to_bind_plain [OF reads_vint [OF a]], rule reads_to_bind_plain [OF reads_tuple [OF c]], use ok in simp)
    apply (rule params_end [OF d])
    using ok by (auto simp: SubscribeTracks_received_def wire_params_def)
qed

lemma PublishBlocked_reads:
  assumes "PublishBlocked_payload C prof m = Inr bs" "PublishBlocked_ok prof m"
  shows "reads_to (vi64 prof) (PublishBlocked_deserialize C prof) bs m"
proof -
  have "push_name C (vi64 prof) (pb_namespace_suffix m) (pb_track_name m) = Inr bs"
    using assms(1) unfolding PublishBlocked_payload_def push_name_def body_eq by simp
  then show ?thesis unfolding PublishBlocked_deserialize_def using assms(2)
    by (intro reads_to_reads reads_bind_end [OF reads_name]) (auto simp: PublishBlocked_ok_def intro!: reads_ret_eq)
qed

end

end
