(* ===== verification/Track_Laws.thy ===== *)
theory Track_Laws
  imports Control_Laws
begin

text \<open>
  The messages about one track keep the contract of \<open>message_codec\<close>. What is special about them is that from
  draft 16 a field travels as a parameter: the writer puts it into the dictionary of the message, the reader
  takes it out again, and the own parameters of the message come back without it.
\<close>

section \<open>Fields inside a dictionary\<close>

definition drop_key :: "'v dict \<Rightarrow> int \<Rightarrow> 'v dict" where
  "drop_key d k = filter (\<lambda>(k', _). k' \<noteq> k) d"

definition fresh :: "int list \<Rightarrow> 'v dict \<Rightarrow> bool" where
  "fresh ks d \<longleftrightarrow> list_all (\<lambda>k. dict_get d k = None) ks"

lemma dict_pop_ordered: "dict_ok d \<Longrightarrow> dict_pop (ordered delta d) k = (dict_get d k, ordered delta (drop_key d k))"
proof -
  assume "dict_ok d"
  then have "map_of (ordered delta d) k = map_of d k" by (simp add: ordered_def map_of_dict_sorted)
  moreover have "filter P (ordered delta d) = ordered delta (filter P d)" for P
    by (simp add: ordered_def dict_sorted_def filter_sort)
  ultimately show ?thesis by (simp add: dict_pop_def drop_key_def dict_get_def)
qed

lemma dict_ok_drop_key [simp]: "dict_ok d \<Longrightarrow> dict_ok (drop_key d k)"
  by (simp add: dict_ok_def drop_key_def distinct_fst_filter)

lemma dict_get_drop_key [simp]: "dict_get (drop_key d k) k' = (if k' = k then None else dict_get d k')"
  by (simp add: dict_get_def drop_key_def map_of_filter_neq)

lemma drop_key_fresh [simp]: "dict_get d k = None \<Longrightarrow> drop_key d k = d"
  by (force simp: drop_key_def dict_get_def map_of_eq_None_iff filter_id_conv)

lemma dict_get_set_opt [simp]: "dict_get (set_opt d k x) k' = (if k' = k \<and> x \<noteq> None then x else dict_get d k')"
  by (auto simp: set_opt_def pydict.get_put split: option.splits)

lemma drop_key_dict_set: "drop_key (dict_set d k v) k' = (if k' = k then drop_key d k' else dict_set (drop_key d k') k v)"
  by (induction d) (auto simp: drop_key_def)

lemma drop_key_set_opt [simp]: "drop_key (set_opt d k x) k' = (if k' = k then drop_key d k' else set_opt (drop_key d k') k x)"
  by (auto simp: set_opt_def drop_key_dict_set split: option.splits)

lemma map_fst_dict_set: "map fst (dict_set d k v) = map fst d @ (if k \<in> fst ` set d then [] else [k])"
  by (induction d) (auto simp: rev_image_eqI)

lemma dict_ok_set_opt [simp]: "dict_ok (set_opt d k x) \<longleftrightarrow> dict_ok d"
  by (auto simp: dict_ok_def set_opt_def map_fst_dict_set split: option.splits)

lemma set_opt_Some: "dict_set d k v = set_opt d k (Some v)"
  by (simp add: set_opt_def)

lemma params_ok_dict: "params_ok C prof dk scope ps \<Longrightarrow> dict_ok ps"
  by (auto simp: params_ok_def block_ok_def split: sum.splits)

lemma check_range_ok: "check_range (PInt n) r = Inr () \<longleftrightarrow> fst r \<le> n \<and> n \<le> snd r"
  by (simp add: check_range_def guardR_def)

section \<open>Filters and locations\<close>

definition filter_ok :: "DraftProfile \<Rightarrow> sub_filter \<Rightarrow> bool" where
  "filter_ok prof x = (case sf_type x of None \<Rightarrow> True
     | Some t \<Rightarrow> t \<in> {1, 2, 3, 4} \<and> (t = 4 \<and> vi64 prof \<longrightarrow> attr (sf_end_group x) \<le> 2 ^ 64 - 1))"

text \<open>What is left of a filter on the wire: only the Locations its type has, missing ones as 0.\<close>

definition norm_filter :: "sub_filter \<Rightarrow> sub_filter" where
  "norm_filter x = (case sf_type x of None \<Rightarrow> no_filter
     | Some t \<Rightarrow> \<lparr>sf_type = Some t,
         sf_start_group = (if t = 3 \<or> t = 4 then Some (attr (sf_start_group x)) else None),
         sf_start_object = (if t = 3 \<or> t = 4 then Some (attr (sf_start_object x)) else None),
         sf_end_group = (if t = 4 then Some (attr (sf_end_group x)) else None)\<rparr>)"

context vcodec_laws
begin

lemma reads_filter14:
  assumes "push_filter14 C f x = Inr bs" "checked \<longrightarrow> filter_ok prof x"
  shows "reads f (pull_filter14 C checked) bs (norm_filter x)"
proof -
  obtain t a c d where t: "sf_type x = Some t" "push_vint C f t = Inr a"
    and c: "(if t = 3 \<or> t = 4 then wseq [push_vint C f (attr (sf_start_group x)), push_vint C f (attr (sf_start_object x))] else Inr []) = Inr c"
    and d: "(if t = 4 then push_vint C f (attr (sf_end_group x)) else Inr []) = Inr d" and bs: "bs = a @ c @ d"
    using assms(1) unfolding push_filter14_def by (auto simp: wseq_Cons_eq wseq_Nil_eq push_req_eq)
  have g: "checked \<longrightarrow> t \<in> {1, 2, 3, 4}" using assms(2) t(1) by (auto simp: filter_ok_def)
  let ?n = "\<lambda>p y. if p then Some (attr y) else None" and ?s = "t = 3 \<or> t = 4"
  have rd: "reads f (pull_if (t = 4) (pull_vint C)) d (?n (t = 4) (sf_end_group x))"
    using reads_if [OF d reads_vint] by simp
  obtain c1 c2 where c12: "c = c1 @ c2" "(if ?s then push_vint C f (attr (sf_start_group x)) else Inr []) = Inr c1"
      "(if ?s then push_vint C f (attr (sf_start_object x)) else Inr []) = Inr c2"
    using c by (cases ?s) (auto simp: wseq_Cons_eq wseq_Nil_eq)
  have rc: "reads f (pull_if ?s (pull_vint C)) c1 (?n ?s (sf_start_group x))" "reads f (pull_if ?s (pull_vint C)) c2 (?n ?s (sf_start_object x))"
    using reads_if [OF c12(2) reads_vint] reads_if [OF c12(3) reads_vint] by simp_all
  have "reads f (pull_filter14 C checked) (a @ c1 @ c2 @ d) (norm_filter x)" unfolding pull_filter14_def
    apply (rule reads_bind [OF reads_vint [OF t(2)]], rule reads_bind0 [OF reads_guard [OF g]])
    apply (rule reads_bind [OF rc(1)], rule reads_bind [OF rc(2)], rule reads_bind_end [OF rd], rule reads_ret_eq)
    using t(1) by (simp add: norm_filter_def)
  then show ?thesis by (simp add: bs c12)
qed

lemma decoded_filter_param:
  assumes "filter_param C prof t x = Inr raw" "sf_type x = Some t" "filter_ok prof x"
  shows "decoded_filter C prof raw = Inr (norm_filter x)"
proof -
  let ?f = "vi64 prof" and ?e = "attr (sf_end_group x)" and ?s = "attr (sf_start_group x)"
  have ok: "t \<in> {1, 2, 3, 4}" "t = 4 \<and> vi64 prof \<longrightarrow> ?e \<le> 2 ^ 64 - 1" using assms(2,3) by (auto simp: filter_ok_def)
  obtain a c d where a: "push_vint C ?f t = Inr a"
    and c: "(if t = 3 \<or> t = 4 then wseq [push_vint C ?f ?s, push_vint C ?f (attr (sf_start_object x))] else Inr []) = Inr c"
    and d: "(if t = 4 then (if ?f then (if ?e < ?s then Inl ValueError else push_vint C ?f (?e - ?s)) else push_vint C ?f ?e) else Inr []) = Inr d"
    and raw: "raw = a @ c @ d"
    using assms(1) unfolding filter_param_def Let_def by (auto simp: in_buffer_eq wseq_Cons_eq wseq_Nil_eq)
  let ?n = "norm_filter x"
  have "reads ?f (rbind (pull_vint C) (\<lambda>t.
           rbind (rguard (t \<in> {1, 2, 3, 4}) MOQTProtocolViolation) (\<lambda>_.
           if t = 3 \<or> t = 4 then
             rbind (pull_vint C) (\<lambda>sg.
             rbind (pull_vint C) (\<lambda>so.
             if t = 4 then
               rbind (pull_vint C) (\<lambda>eg. let eg' = (if vi64 prof then eg + sg else eg) in
               rbind (rguard (vi64 prof \<longrightarrow> eg' \<le> 2 ^ 64 - 1) MOQTProtocolViolation) (\<lambda>_.
               rret (t, Some sg, Some so, Some eg')))
             else rret (t, Some sg, Some so, None)))
           else rret (t, None, None, None)))) raw (t, sf_start_group ?n, sf_start_object ?n, sf_end_group ?n)" (is "reads _ ?r _ ?v")
  proof (cases "t = 3 \<or> t = 4")
    case False
    then have "raw = a" using c d raw by auto
    then show ?thesis using False assms(2) ok(1)
      by (auto simp: norm_filter_def intro!: reads_bind_end [OF reads_vint [OF a]] reads_bind0 [OF reads_guard] reads_ret)
  next
    case True
    then obtain c1 c2 where c': "push_vint C ?f ?s = Inr c1" "push_vint C ?f (attr (sf_start_object x)) = Inr c2" "raw = a @ c1 @ c2 @ d"
      using c raw by (auto simp: wseq_Cons_eq wseq_Nil_eq split: if_splits)
    note start = reads_bind [OF reads_vint [OF a]] reads_bind0 [OF reads_guard] reads_bind [OF reads_vint [OF c'(1)]]
    show ?thesis
    proof (cases "t = 4")
      case True
      then obtain e' where e: "push_vint C ?f e' = Inr d" "(if ?f then e' + ?s else e') = ?e" using d by (auto split: if_splits)
      show ?thesis unfolding c'
        apply (rule start(1), rule start(2) [OF ok(1)])
        apply (simp only: True if_True simp_thms, rule start(3), rule reads_bind [OF reads_vint [OF c'(2)]])
        apply (rule reads_bind_end [OF reads_vint [OF e(1)]])
        using True assms(2) ok e(2) by (auto simp: Let_def norm_filter_def intro!: reads_bind0 [OF reads_guard] reads_ret)
    next
      case False
      with True d have t3: "t = 3" and d0: "d = []" by auto
      show ?thesis unfolding c' d0
        apply (rule start(1), rule start(2) [OF ok(1)])
        apply (simp only: t3 if_True simp_thms, rule start(3), simp only: append_Nil2, rule reads_bind_end [OF reads_vint [OF c'(2)]])
        using t3 assms(2) by (auto simp: norm_filter_def intro: reads_ret)
    qed
  qed
  from readsD [OF this has_new_rbuf] show ?thesis
    using assms(2) by (simp add: decoded_filter_def decode_filter_def bindR_def norm_filter_def)
qed

lemma filter_of_raw_param:
  assumes "(case sf_type x of None \<Rightarrow> Inr None | Some t \<Rightarrow> bindR (filter_param C prof t x) (\<lambda>raw. Inr (Some (PBytes raw)))) = Inr v"
    and "filter_ok prof x"
  shows "filter_of_raw C prof v = Inr (norm_filter x)"
  using assms by (auto simp: bindR_eq_Inr filter_of_raw_def decoded_filter_param norm_filter_def split: option.splits)

lemma largest_reads:
  assumes "largest_param C prof g ob = Inr v"
  shows "read_largest C v = Inr (g, map_option (\<lambda>_. attr ob) g, if g = None then NO_CONTENT else CONTENT_EXISTS)"
proof (cases g)
  case (Some g')
  show ?thesis
  proof (cases "LARGEST_OBJECT \<in> set (location_params prof)")
    case False
    then obtain a c where ac: "push_uint_var C g' = Inr a" "push_uint_var C (attr ob) = Inr c" "v = Some (PBytes (a @ c))"
      using assms Some by (auto simp: largest_param_def bindR_eq_Inr in_buffer_eq wseq_Cons_eq wseq_Nil_eq)
    have p: "push_vint C False g' = Inr a" "push_vint C False (attr ob) = Inr c" using ac by (simp_all add: push_vint_def push_uint_var_def)
    have "reads False (rbind (pull_vint C) (\<lambda>g. rbind (pull_vint C) (\<lambda>ob. rret (g, ob)))) (a @ c) (g', attr ob)"
      by (rule reads_bind [OF reads_vint [OF p(1)] reads_bind_end [OF reads_vint [OF p(2)] reads_ret]])
    from readsD [OF this has_new_rbuf] show ?thesis using ac Some by (simp add: read_largest_def bindR_def)
  qed (use assms Some in \<open>auto simp: largest_param_def read_largest_def\<close>)
qed (use assms in \<open>simp add: largest_param_def read_largest_def\<close>)

end

section \<open>Track Extensions\<close>

definition order_received :: "int option \<Rightarrow> int" where
  "order_received g = (if g = Some DESCENDING then DESCENDING else ASCENDING)"

definition exts_received :: "kvps option \<Rightarrow> int option \<Rightarrow> kvps option" where
  "exts_received exts g = map_option (\<lambda>(d, dups). (drop_key d DEFAULT_PUBLISHER_GROUP_ORDER, dups)) (ext_received True (Some (track_exts exts g)))"

definition track_exts_ok :: "vcodec \<Rightarrow> bool \<Rightarrow> DraftProfile \<Rightarrow> kvps option \<Rightarrow> int option \<Rightarrow> bool" where
  "track_exts_ok C tol prof exts g \<longleftrightarrow>
     exts_accepted C tol prof (Some (track_exts exts g)) \<and> fresh [DEFAULT_PUBLISHER_GROUP_ORDER] (or_empty (map_option fst exts))"

lemma dict_get_mapped: "dict_get (map (\<lambda>(k, v). (k, h v)) d) k = map_option h (dict_get d k)"
  by (simp add: dict_get_def map_of_map)

lemma take_order_received:
  assumes "track_exts_ok C tol prof exts g"
  shows "take_order (ext_received True (Some (track_exts exts g))) = Inr (order_received g, exts_received exts g)"
proof -
  let ?D = "track_exts exts g" and ?k = DEFAULT_PUBLISHER_GROUP_ORDER
  have ok: "dict_ok ?D" "dict_get (or_empty (map_option fst exts)) ?k = None"
    using assms by (auto simp: track_exts_ok_def exts_accepted_def exts_ok_def fresh_def)
  have D: "dict_get ?D ?k = (if g = Some DESCENDING then Some (PInt DESCENDING) else None)"
    using ok(2) by (simp add: track_exts_def Let_def pydict.get_put)
  have "dict_get (map (\<lambda>(k, v). (k, ext_norm v)) (ordered True ?D)) ?k = (if g = Some DESCENDING then Some (PInt DESCENDING) else None)"
    using D map_of_dict_sorted [OF ok(1)]
    unfolding dict_get_mapped by (cases "g = Some DESCENDING") (simp_all add: ordered_def dict_get_def ext_norm_def)
  then show ?thesis
    by (auto simp: ext_received_def kvps_result_def take_order_def exts_received_def order_received_def dict_pop_def dict_get_def
        drop_key_def check_range_def guardR_def bindR_def DESCENDING_def ASCENDING_def split: if_splits)
qed

context vcodec_laws
begin

lemma reads_track_exts:
  assumes "extensions_encode C f (Some d) False True = Inr bs" "exts_accepted C tol prof (Some d)"
  shows "reads_to f (pull_track_exts C tol prof) bs (ext_received True (Some d))"
  unfolding pull_track_exts_def
  apply (rule reads_to_bind_last [OF extensions_trailing_reads [OF assms(1)]])
  using assms(2) by (auto simp: exts_accepted_def intro!: reads_bind0 [OF reads_lift] reads_ret)

end

section \<open>TRACK\_STATUS and SUBSCRIBE\<close>

text \<open>The four keys every subscription-like message takes out of its parameters.\<close>

definition DELIVERY_KEYS :: "int list" where
  "DELIVERY_KEYS = [SUBSCRIBER_PRIORITY, GROUP_ORDER, FORWARD, SUBSCRIPTION_FILTER]"

definition in_range :: "pval option \<Rightarrow> int \<Rightarrow> int \<Rightarrow> bool" where
  "in_range x lo hi = (case x of Some (PInt n) \<Rightarrow> lo \<le> n \<and> n \<le> hi | _ \<Rightarrow> True)"

definition own_params_ok :: "vcodec \<Rightarrow> DraftProfile \<Rightarrow> string \<Rightarrow> params option \<Rightarrow> bool" where
  "own_params_ok C prof scope ps \<longleftrightarrow> params_ok C prof None (Some scope) (or_empty ps)"

definition sent_params_ok :: "vcodec \<Rightarrow> DraftProfile \<Rightarrow> string \<Rightarrow> params result \<Rightarrow> bool" where
  "sent_params_ok C prof scope r = (case r of Inl _ \<Rightarrow> False | Inr ps \<Rightarrow> params_ok C prof None (Some scope) ps)"

lemma pop4_keys:
  "dict_ok d \<Longrightarrow> fresh DELIVERY_KEYS d \<Longrightarrow>
   pop4 (ordered delta (set_opt (set_opt (set_opt (set_opt d SUBSCRIBER_PRIORITY p) GROUP_ORDER g) FORWARD fw) SUBSCRIPTION_FILTER fl))
     = (p, g, fw, fl, ordered delta d)"
  by (auto simp: pop4_def dict_pop_ordered fresh_def DELIVERY_KEYS_def key_defs)

lemma pop4_fresh: "dict_ok d \<Longrightarrow> fresh DELIVERY_KEYS d \<Longrightarrow> pop4 (ordered delta d) = (None, None, None, None, ordered delta d)"
  using pop4_keys [of d delta None None None None] by (simp add: set_opt_def)

definition TrackStatus_ok :: "vcodec \<Rightarrow> DraftProfile \<Rightarrow> TrackStatus \<Rightarrow> bool" where
  "TrackStatus_ok C prof m \<longleftrightarrow> name_ok prof (ts_track_namespace m) (ts_track_name m) \<and> own_params_ok C prof ''TrackStatus'' (ts_parameters m)
     \<and> (if is_draft16_or_later (draft prof) then fresh DELIVERY_KEYS (or_empty (ts_parameters m))
        else in_range (ts_group_order m) 0 2 \<and> in_range (ts_forward m) 0 1 \<and> filter_ok prof (ts_filter m))"

definition TrackStatus_received :: "DraftProfile \<Rightarrow> TrackStatus \<Rightarrow> TrackStatus" where
  "TrackStatus_received prof m = (let old = (\<lambda>x. if is_draft16_or_later (draft prof) then None else x) in
    \<lparr>ts_request_id = ts_request_id m, ts_track_namespace = ts_track_namespace m, ts_track_name = ts_track_name m,
     ts_priority = old (ts_priority m), ts_group_order = old (ts_group_order m), ts_forward = old (ts_forward m),
     ts_filter = (if is_draft16_or_later (draft prof) then no_filter else norm_filter (ts_filter m)),
     ts_parameters = wire_params prof (ts_parameters m)\<rparr>)"

definition TrackStatusOk_ok :: "vcodec \<Rightarrow> DraftProfile \<Rightarrow> TrackStatusOk \<Rightarrow> bool" where
  "TrackStatusOk_ok C prof m \<longleftrightarrow> own_params_ok C prof ''TrackStatusOk'' (to_parameters m) \<and> to_group_order m \<in> {Some 1, Some 2}"

definition TrackStatusOk_received :: "DraftProfile \<Rightarrow> TrackStatusOk \<Rightarrow> TrackStatusOk" where
  "TrackStatusOk_received prof m = (let ex = to_content_exists m = Some CONTENT_EXISTS in
    \<lparr>to_request_id = to_request_id m, to_track_alias = to_track_alias m, to_expires = to_expires m, to_group_order = to_group_order m,
     to_content_exists = to_content_exists m, to_largest_group_id = (if ex then to_largest_group_id m else None),
     to_largest_object_id = (if ex then to_largest_object_id m else None), to_parameters = wire_params prof (to_parameters m)\<rparr>)"

definition Subscribe_ok :: "vcodec \<Rightarrow> DraftProfile \<Rightarrow> Subscribe \<Rightarrow> bool" where
  "Subscribe_ok C prof m \<longleftrightarrow> name_ok prof (sb_track_namespace m) (sb_track_name m) \<and> filter_ok prof (sb_filter m)
     \<and> (if is_draft16_or_later (draft prof)
        then fresh DELIVERY_KEYS (or_empty (sb_parameters m)) \<and> sent_params_ok C prof ''Subscribe'' (Subscribe_params C prof m)
        else own_params_ok C prof ''Subscribe'' (sb_parameters m) \<and> in_range (sb_group_order m) 0 2 \<and> in_range (sb_forward m) 0 1)"

definition filter_received :: "DraftProfile \<Rightarrow> LocationFilter option \<Rightarrow> sub_filter \<Rightarrow> sub_filter \<times> LocationFilter option" where
  "filter_received prof lf x =
    (if is_draft16_or_later (draft prof) \<and> uses_location_filter prof then
       (let back = (\<lambda>l. (case lf_subscription_filter l of
            None \<Rightarrow> no_filter
          | Some (t, sg, so, eg) \<Rightarrow> \<lparr>sf_type = t, sf_start_group = sg, sf_start_object = so, sf_end_group = eg\<rparr>, Some l)) in
        case (lf, sf_type x) of
          (Some l, _) \<Rightarrow> back l
        | (None, None) \<Rightarrow> (no_filter, None)
        | (None, Some t) \<Rightarrow>
            (case lf_from_subscription_filter t (sf_start_group x) (sf_start_object x) (sf_end_group x) of
               Inl _ \<Rightarrow> (no_filter, None) | Inr l \<Rightarrow> back l))
     else (norm_filter x, None))"

definition Subscribe_received :: "DraftProfile \<Rightarrow> Subscribe \<Rightarrow> Subscribe" where
  "Subscribe_received prof m = (let d16 = is_draft16_or_later (draft prof); flt = filter_received prof (sb_location_filter m) (sb_filter m) in
    \<lparr>sb_request_id = sb_request_id m, sb_track_namespace = sb_track_namespace m, sb_track_name = sb_track_name m,
     sb_priority = (if d16 then sb_priority m else or_int (sb_priority m) 128),
     sb_group_order = (if d16 then order_param (sb_group_order m) else or_int (sb_group_order m) ASCENDING),
     sb_forward = (if d16 then sb_forward m else or_int (sb_forward m) 1),
     sb_filter = fst flt, sb_parameters = wire_params prof (sb_parameters m), sb_location_filter = snd flt\<rparr>)"

context vcodec_laws
begin

text \<open>Parameters followed only by what is taken out of them.\<close>

lemma params_pop_end:
  assumes "serialize_params C prof None ps = Inr bs" "params_ok C prof None (Some scope) ps"
    and "\<And>e. reads (vi64 prof) (k e (ordered (params_delta_coded prof) ps)) [] v"
  shows "reads_to (vi64 prof) (\<lambda>e. rbind (pull_msg_params C prof scope e) (k e)) bs v"
  using reads_to_bind_last [OF reads_params_to [OF assms(1,2)], of k v] assms(3) by simp

lemma reads_to_bind0: "reads f r [] a \<Longrightarrow> reads_to f (\<lambda>e. k e a) cs v \<Longrightarrow> reads_to f (\<lambda>e. rbind r (k e)) cs v"
  using reads_to_bind_plain [of f r "[]" a k cs v] by simp

lemma reads_check: "fst r \<le> n \<Longrightarrow> n \<le> snd r \<Longrightarrow> reads f (rlift (check_range (PInt n) r)) [] ()"
  by (simp add: check_range_ok reads_lift)

lemma reads_fixed14:
  assumes "wseq [push_u8v C p, push_u8v C g, push_u8v C fw, push_filter14 C f x] = Inr bs"
    and "in_range g 0 2" "in_range fw 0 1" "filter_ok prof x"
  shows "reads f (pull_fixed14 C) bs (p, g, fw, norm_filter x)"
proof -
  obtain n1 n2 n3 b1 b2 b3 b4 where v: "p = Some (PInt n1)" "g = Some (PInt n2)" "fw = Some (PInt n3)"
    and b: "push_uint8 C n1 = Inr b1" "push_uint8 C n2 = Inr b2" "push_uint8 C n3 = Inr b3" "push_filter14 C f x = Inr b4"
    and bs: "bs = b1 @ b2 @ b3 @ b4"
    using assms(1) by (auto simp: wseq_Cons_eq wseq_Nil_eq push_u8v_eq)
  show ?thesis unfolding pull_fixed14_def bs v using assms(2-4) v
    by (intro reads_bind [OF reads_uint8 [OF b(1)]] reads_bind [OF reads_uint8 [OF b(2)]] reads_bind0 [OF reads_check]
        reads_bind [OF reads_uint8 [OF b(3)]] reads_bind_end [OF reads_filter14 [OF b(4)]] reads_ret) (auto simp: in_range_def)
qed

lemma TrackStatus_reads:
  assumes "TrackStatus_payload C prof m = Inr bs" "TrackStatus_ok C prof m"
  shows "reads_to (vi64 prof) (TrackStatus_deserialize C prof) bs (TrackStatus_received prof m)"
proof -
  let ?f = "vi64 prof" and ?d = "is_draft16_or_later (draft prof)" and ?ps = "or_empty (ts_parameters m)"
  obtain a c x d where a: "push_vint C ?f (ts_request_id m) = Inr a" and c: "push_name C ?f (ts_track_namespace m) (ts_track_name m) = Inr c"
    and x: "(if ?d then Inr [] else wseq [push_u8v C (ts_priority m), push_u8v C (ts_group_order m), push_u8v C (ts_forward m),
      push_filter14 C ?f (ts_filter m)]) = Inr x"
    and d: "serialize_params C prof None ?ps = Inr d" and bs: "bs = a @ c @ x @ d"
    using assms(1) unfolding TrackStatus_payload_def Let_def by (auto simp only: body_eq wseq_Cons_eq wseq_Nil_eq append_Nil2)
  note ok = assms(2) [unfolded TrackStatus_ok_def own_params_ok_def]
  have p: "params_ok C prof None (Some ''TrackStatus'') ?ps" using ok by simp
  show ?thesis
  proof (cases ?d)
    case True
    then have "x = []" using x by simp
    have r: "rlift (filter_of_raw C prof None) = rret no_filter" by (auto simp: filter_of_raw_def rlift_def rret_def fun_eq_iff)
    show ?thesis unfolding TrackStatus_deserialize_def bs \<open>x = []\<close> append_Nil
      apply (rule reads_to_bind_plain [OF reads_vint [OF a]], rule reads_to_bind_plain [OF reads_name [OF c, of prof]], use ok in simp)
      apply (simp only: True if_True prod.case, rule reads_to_bind_last, rule params_pop_end [OF d p])
      using ok True pop4_fresh [OF params_ok_dict [OF p]]
      by (auto simp: r TrackStatus_received_def Let_def wire_params_def intro!: reads_bind0 [OF reads_ret] reads_ret)
  next
    case False
    then have r: "reads ?f (pull_fixed14 C) x (ts_priority m, ts_group_order m, ts_forward m, norm_filter (ts_filter m))"
      using ok x by (intro reads_fixed14) auto
    show ?thesis unfolding TrackStatus_deserialize_def bs
      apply (rule reads_to_bind_plain [OF reads_vint [OF a]], rule reads_to_bind_plain [OF reads_name [OF c, of prof]], use ok in simp)
      apply (simp only: False if_False prod.case, rule reads_to_bind_last, rule reads_to_bind_plain [OF r], simp only: prod.case)
       apply (rule params_pop_end [OF d p], rule reads_ret)
      using False by (auto simp: TrackStatus_received_def Let_def wire_params_def intro!: reads_ret)
  qed
qed

end

context vcodec_laws
begin

text \<open>Two optional Locations behind one flag, written as one sequence.\<close>

lemma reads_largest14:
  assumes "(if ex then wseq [push_req C f x, push_req C f y] else Inr []) = Inr bs"
  obtains b1 b2 where "bs = b1 @ b2" "reads f (pull_if ex (pull_vint C)) b1 (if ex then x else None)"
    "reads f (pull_if ex (pull_vint C)) b2 (if ex then y else None)"
proof -
  obtain b1 b2 where "bs = b1 @ b2" "(if ex then push_req C f x else Inr []) = Inr b1" "(if ex then push_req C f y else Inr []) = Inr b2"
    using assms by (cases ex) (auto simp: wseq_Cons_eq wseq_Nil_eq)
  then show thesis using that reads_req_if by blast
qed

lemma TrackStatusOk_reads:
  assumes "TrackStatusOk_payload C prof m = Inr bs" "TrackStatusOk_ok C prof m"
  shows "reads_to (vi64 prof) (TrackStatusOk_deserialize C prof) bs (TrackStatusOk_received prof m)"
proof -
  let ?f = "vi64 prof" and ?ps = "or_empty (to_parameters m)"
  obtain ex g ce a1 a2 a3 a4 a5 x d where v: "to_expires m = Some ex" "to_group_order m = Some g" "to_content_exists m = Some ce"
    and a: "push_vint C ?f (to_request_id m) = Inr a1" "push_vint C ?f (to_track_alias m) = Inr a2" "push_vint C ?f ex = Inr a3"
      "push_uint8 C g = Inr a4" "push_uint8 C ce = Inr a5"
    and x: "(if ce = CONTENT_EXISTS then wseq [push_req C ?f (to_largest_group_id m), push_req C ?f (to_largest_object_id m)] else Inr []) = Inr x"
    and d: "serialize_params C prof None ?ps = Inr d" and bs: "bs = a1 @ a2 @ a3 @ a4 @ a5 @ x @ d"
    using assms(1) unfolding TrackStatusOk_payload_def Let_def body_eq wseq_Cons_eq wseq_Nil_eq append_Nil2 push_req_eq [of _ _ "to_expires m"] push_enum8_eq push_u8_eq
    by (clarsimp simp only: option.inject) blast
  obtain x1 x2 where x': "x = x1 @ x2" and rx: "reads ?f (pull_if (ce = CONTENT_EXISTS) (pull_vint C)) x1 (if ce = CONTENT_EXISTS then to_largest_group_id m else None)"
    "reads ?f (pull_if (ce = CONTENT_EXISTS) (pull_vint C)) x2 (if ce = CONTENT_EXISTS then to_largest_object_id m else None)"
    by (rule reads_largest14 [OF x])
  note ok = assms(2) [unfolded TrackStatusOk_ok_def own_params_ok_def]
  have g: "1 \<le> g" "g \<le> 2" using ok v(2) by auto
  show ?thesis unfolding TrackStatusOk_deserialize_def bs x' append.assoc
    apply (rule reads_to_bind_plain [OF reads_vint [OF a(1)]], rule reads_to_bind_plain [OF reads_vint [OF a(2)]])
    apply (rule reads_to_bind_plain [OF reads_vint [OF a(3)]], rule reads_to_bind_plain [OF reads_uint8 [OF a(4)]])
    apply (rule reads_to_bind0 [OF reads_check], use g in simp, use g in simp)
    apply (rule reads_to_bind_plain [OF reads_uint8 [OF a(5)]], rule reads_to_bind_plain [OF rx(1)], rule reads_to_bind_plain [OF rx(2)])
    apply (rule params_end [OF d])
    using ok v by (auto simp: TrackStatusOk_received_def Let_def wire_params_def)
qed

lemma read_filter_received:
  assumes "subscribe_filter C prof lf x = Inr v" "filter_ok prof x" "is_draft16_or_later (draft prof)"
  shows "read_filter C prof v = Inr (filter_received prof lf x)"
proof (cases "uses_location_filter prof")
  case True
  then show ?thesis using assms
    by (auto simp: subscribe_filter_def read_filter_def filter_received_def filter_of_raw_def Let_def bindR_def
        split: option.splits prod.splits sum.splits)
next
  case False
  then have v: "(case sf_type x of None \<Rightarrow> Inr None | Some t \<Rightarrow> bindR (filter_param C prof t x) (\<lambda>raw. Inr (Some (PBytes raw)))) = Inr v"
    using assms(1) by (simp add: subscribe_filter_def)
  then have "v = None \<or> (\<exists>raw. v = Some (PBytes raw))" by (auto simp: bindR_eq_Inr split: option.splits)
  then show ?thesis using filter_of_raw_param [OF v assms(2)] False by (auto simp: read_filter_def filter_received_def bindR_def)
qed

lemma Subscribe_reads:
  assumes "Subscribe_payload C prof m = Inr bs" "Subscribe_ok C prof m"
  shows "reads_to (vi64 prof) (Subscribe_deserialize C prof) bs (Subscribe_received prof m)"
proof -
  let ?f = "vi64 prof" and ?d = "is_draft16_or_later (draft prof)" and ?ps = "or_empty (sb_parameters m)"
  obtain a c x where a: "push_vint C ?f (sb_request_id m) = Inr a" and c: "push_name C ?f (sb_track_namespace m) (sb_track_name m) = Inr c"
    and x: "(if ?d then bindR (Subscribe_params C prof m) (serialize_params C prof None)
     else wseq [push_u8v C (or_int (sb_priority m) 128), push_u8v C (or_int (sb_group_order m) ASCENDING),
                push_u8v C (or_int (sb_forward m) 1), push_filter14 C ?f (sb_filter m),
                serialize_params C prof None (or_empty (sb_parameters m))]) = Inr x"
    and bs: "bs = a @ c @ x"
    using assms(1) unfolding Subscribe_payload_def Let_def by (auto simp only: body_eq wseq_Cons_eq wseq_Nil_eq append_Nil2)
  note ok = assms(2) [unfolded Subscribe_ok_def own_params_ok_def sent_params_ok_def]
  have start: "reads_to ?f (Subscribe_deserialize C prof) bs v"
    if "reads_to ?f (\<lambda>e. (if ?d then
             rbind (pull_msg_params C prof ''Subscribe'' e) (\<lambda>ps.
             case pop4 ps of (p, g, fw, raw, ps') \<Rightarrow>
             rbind (rlift (read_filter C prof raw)) (\<lambda>(fl, lf). rret (p, g, fw, fl, lf, ps')))
           else
             rbind (pull_fixed14 C) (\<lambda>(p, g, fw, fl).
             rbind (pull_msg_params C prof ''Subscribe'' e) (\<lambda>ps. rret (p, g, fw, fl, None, ps))))) x (p, g, fw, fl, lf, ps)"
      and "v = \<lparr>sb_request_id = sb_request_id m, sb_track_namespace = sb_track_namespace m, sb_track_name = sb_track_name m,
          sb_priority = p, sb_group_order = g, sb_forward = fw, sb_filter = fl, sb_parameters = Some ps, sb_location_filter = lf\<rparr>" for v p g fw fl lf ps
    unfolding Subscribe_deserialize_def bs
    apply (rule reads_to_bind_plain [OF reads_vint [OF a]], rule reads_to_bind_plain [OF reads_name [OF c, of prof]], use ok in simp)
    apply (simp only: prod.case, rule reads_to_bind_last [OF that(1)])
    using that(2) by (simp add: reads_ret)
  show ?thesis
  proof (cases ?d)
    case True
    let ?D = "\<lambda>fl. set_opt (set_opt (set_opt (set_opt ?ps SUBSCRIBER_PRIORITY (sb_priority m)) GROUP_ORDER (order_param (sb_group_order m)))
          FORWARD (sb_forward m)) SUBSCRIPTION_FILTER fl"
    from True obtain fl where fl: "subscribe_filter C prof (sb_location_filter m) (sb_filter m) = Inr fl"
      and D: "params_ok C prof None (Some ''Subscribe'') (?D fl)" and x': "serialize_params C prof None (?D fl) = Inr x"
      using x ok by (auto simp: Subscribe_params_def Let_def bindR_eq_Inr bindR_def split: sum.splits)
    have "fresh DELIVERY_KEYS ?ps" using ok True by simp
    moreover have "dict_ok ?ps" using params_ok_dict [OF D] by simp
    ultimately have p: "pop4 (ordered delta (?D fl)) = (sb_priority m, order_param (sb_group_order m), sb_forward m, fl, ordered delta ?ps)" for delta
      by (rule pop4_keys [rotated])
    have f: "read_filter C prof fl = Inr (filter_received prof (sb_location_filter m) (sb_filter m))"
      using read_filter_received [OF fl] ok True by simp
    show ?thesis
      apply (rule start, simp only: True if_True, rule params_pop_end [OF x' D], simp only: p prod.case)
       apply (rule reads_bind0 [OF reads_lift [OF f]], subst prod.collapse [symmetric], simp only: prod.case, rule reads_ret)
      using True by (simp add: Subscribe_received_def Let_def wire_params_def)
  next
    case False
    obtain x1 x2 where x1: "wseq [push_u8v C (or_int (sb_priority m) 128), push_u8v C (or_int (sb_group_order m) ASCENDING),
        push_u8v C (or_int (sb_forward m) 1), push_filter14 C ?f (sb_filter m)] = Inr x1"
      and x2: "serialize_params C prof None ?ps = Inr x2" and x': "x = x1 @ x2"
      using x False by (auto simp: wseq_Cons_eq wseq_Nil_eq)
    have "in_range (or_int (sb_group_order m) ASCENDING) 0 2" "in_range (or_int (sb_forward m) 1) 0 1" "filter_ok prof (sb_filter m)"
      using ok False by (auto simp: or_int_def in_range_def ASCENDING_def split: option.splits)
    from reads_fixed14 [OF x1 this] have r: "reads ?f (pull_fixed14 C) x1 (or_int (sb_priority m) 128, or_int (sb_group_order m) ASCENDING, or_int (sb_forward m) 1, norm_filter (sb_filter m))" .
    show ?thesis
      apply (rule start, unfold x', simp only: False if_False, rule reads_to_bind_plain [OF r], simp only: prod.case, rule params_pop_end [OF x2])
      using ok False by (auto simp: Subscribe_received_def Let_def wire_params_def filter_received_def intro: reads_ret)
  qed
qed

end

section \<open>SUBSCRIBE\_OK, SUBSCRIBE\_UPDATE, PUBLISH\_DONE and PUBLISH\<close>

definition SubscribeOk_ok :: "vcodec \<Rightarrow> bool \<Rightarrow> DraftProfile \<Rightarrow> SubscribeOk \<Rightarrow> bool" where
  "SubscribeOk_ok C tol prof m \<longleftrightarrow>
     (if is_draft16_or_later (draft prof)
      then fresh [EXPIRES, LARGEST_OBJECT] (or_empty (so_parameters m)) \<and> sent_params_ok C prof ''SubscribeOk'' (SubscribeOk_params C prof m)
        \<and> \<not> has_fill prof (or_empty (so_parameters m)) \<and> track_exts_ok C tol prof (so_track_extensions m) (so_group_order m)
      else own_params_ok C prof ''SubscribeOk'' (so_parameters m) \<and> so_group_order m \<in> {Some 1, Some 2})"

definition SubscribeOk_received :: "DraftProfile \<Rightarrow> SubscribeOk \<Rightarrow> SubscribeOk" where
  "SubscribeOk_received prof m =
    (let d16 = is_draft16_or_later (draft prof); ex = so_content_exists m = Some CONTENT_EXISTS; g = so_largest_group_id m in
    \<lparr>so_request_id = (if reply_has_request_id prof then so_request_id m else None), so_track_alias = so_track_alias m,
     so_expires = so_expires m, so_group_order = (if d16 then Some (order_received (so_group_order m)) else so_group_order m),
     so_content_exists = (if d16 then Some (if g = None then NO_CONTENT else CONTENT_EXISTS) else so_content_exists m),
     so_largest_group_id = (if d16 \<or> ex then g else None),
     so_largest_object_id = (if d16 then map_option (\<lambda>_. attr (so_largest_object_id m)) g else if ex then so_largest_object_id m else None),
     so_parameters = wire_params prof (so_parameters m),
     so_track_extensions = (if d16 then exts_received (so_track_extensions m) (so_group_order m) else None)\<rparr>)"

definition SubscribeUpdate_ok :: "vcodec \<Rightarrow> DraftProfile \<Rightarrow> SubscribeUpdate \<Rightarrow> bool" where
  "SubscribeUpdate_ok C prof m \<longleftrightarrow> own_params_ok C prof ''SubscribeUpdate'' (sp_parameters m) \<and> sp_forward m \<in> {Some 0, Some 1}"

definition SubscribeUpdate_received :: "DraftProfile \<Rightarrow> SubscribeUpdate \<Rightarrow> SubscribeUpdate" where
  "SubscribeUpdate_received prof m = m\<lparr>sp_parameters := wire_params prof (sp_parameters m)\<rparr>"

definition SubscribeDone_ok :: "DraftProfile \<Rightarrow> SubscribeDone \<Rightarrow> bool" where
  "SubscribeDone_ok prof m \<longleftrightarrow> reason_ok (sd_reason m)"

definition SubscribeDone_received :: "DraftProfile \<Rightarrow> SubscribeDone \<Rightarrow> SubscribeDone" where
  "SubscribeDone_received prof m = m\<lparr>sd_request_id := (if reply_has_request_id prof then sd_request_id m else None)\<rparr>"

definition Publish_ok :: "vcodec \<Rightarrow> bool \<Rightarrow> DraftProfile \<Rightarrow> Publish \<Rightarrow> bool" where
  "Publish_ok C tol prof m \<longleftrightarrow> name_ok prof (pu_track_namespace m) (pu_track_name m) \<and>
     (if is_draft16_or_later (draft prof)
      then fresh [FORWARD, LARGEST_OBJECT] (or_empty (pu_parameters m)) \<and> sent_params_ok C prof ''Publish'' (Publish_params C prof m)
        \<and> \<not> has_fill prof (or_empty (pu_parameters m)) \<and> track_exts_ok C tol prof (pu_track_extensions m) (pu_group_order m)
      else own_params_ok C prof ''Publish'' (pu_parameters m))"

definition Publish_received :: "DraftProfile \<Rightarrow> Publish \<Rightarrow> Publish" where
  "Publish_received prof m =
    (let d16 = is_draft16_or_later (draft prof); ex = pu_content_exists m = Some CONTENT_EXISTS; g = pu_largest_group_id m in
    \<lparr>pu_request_id = pu_request_id m, pu_track_namespace = pu_track_namespace m, pu_track_name = pu_track_name m,
     pu_track_alias = pu_track_alias m, pu_group_order = (if d16 then Some (order_received (pu_group_order m)) else pu_group_order m),
     pu_content_exists = (if d16 then Some (if g = None then NO_CONTENT else CONTENT_EXISTS) else pu_content_exists m),
     pu_largest_group_id = (if d16 \<or> ex then g else None),
     pu_largest_object_id = (if d16 then map_option (\<lambda>_. attr (pu_largest_object_id m)) g else if ex then pu_largest_object_id m else None),
     pu_forward = pu_forward m, pu_parameters = wire_params prof (pu_parameters m),
     pu_track_extensions = (if d16 then exts_received (pu_track_extensions m) (pu_group_order m) else None)\<rparr>)"

lemma pop2_keys:
  assumes "dict_ok d" "fresh [j, k] d" "j \<noteq> k"
  shows "dict_pop (ordered delta (set_opt (set_opt d j x) k y)) j = (x, ordered delta (set_opt d k y))"
    and "dict_pop (ordered delta (set_opt d k y)) k = (y, ordered delta d)"
  using assms by (auto simp: dict_pop_ordered fresh_def)

lemma has_fill_set_opt: "k \<noteq> 0x23 \<Longrightarrow> has_fill prof (set_opt d k x) = has_fill prof d"
  by (auto simp: has_fill_def set_opt_def set_fst_dict_set split: option.splits)

lemma done_code_involution [simp]: "done_code prof (done_code prof c) = c"
  by (simp add: done_code_def D18_WIRE_SWAP_def)

context vcodec_laws
begin

text \<open>The tail SUBSCRIBE_OK and PUBLISH share from draft 16: parameters with a Largest Location, then Track Extensions.\<close>

lemma largest_exts_tail:
  assumes "serialize_params C prof None (set_opt (set_opt d j x) LARGEST_OBJECT l) = Inr b1"
    and "extensions_encode C (vi64 prof) (Some (track_exts exts o')) False True = Inr b2"
    and "params_ok C prof None (Some scope) (set_opt (set_opt d j x) LARGEST_OBJECT l)"
    and "fresh [j, LARGEST_OBJECT] d" "j \<noteq> LARGEST_OBJECT" "j \<noteq> 0x23" "\<not> has_fill prof d"
    and "largest_param C prof g ob = Inr l" "track_exts_ok C tol prof exts o'"
    and k: "reads (vi64 prof) (k x g (map_option (\<lambda>_. attr ob) g) (if g = None then NO_CONTENT else CONTENT_EXISTS) (order_received o')
      (exts_received exts o') (ordered (params_delta_coded prof) d)) [] r"
  shows "reads_to (vi64 prof) (\<lambda>e. rbind (pull_msg_params C prof scope e) (\<lambda>ps0.
      case dict_pop ps0 j of (v, ps1) \<Rightarrow> case dict_pop ps1 LARGEST_OBJECT of (largest, ps) \<Rightarrow>
      rbind (rlift (read_largest C largest)) (\<lambda>(lg, lo, ce).
      rbind (pull_track_exts C tol prof e) (\<lambda>exts. rbind (rlift (take_order exts)) (\<lambda>(g, exts'). k v lg lo ce g exts' ps))))) (b1 @ b2) r"
proof -
  have d: "dict_ok d" using params_ok_dict [OF assms(3)] by simp
  have nf: "\<not> has_fill prof (set_opt (set_opt d j x) LARGEST_OBJECT l)"
    using assms(6,7) by (simp add: has_fill_set_opt LARGEST_OBJECT_def)
  have acc: "exts_accepted C tol prof (Some (track_exts exts o'))" using assms(9) by (simp add: track_exts_ok_def)
  show ?thesis
    apply (rule reads_to_bind [OF reads_params_in [OF assms(1,3) nf]])
    apply (simp only: pop2_keys [OF d assms(4,5)] prod.case, rule reads_to_bind0 [OF reads_lift [OF largest_reads [OF assms(8)]]])
    apply (simp only: prod.case, rule reads_to_bind_last [OF reads_track_exts [OF assms(2) acc]])
    apply (rule reads_bind0 [OF reads_lift [OF take_order_received [OF assms(9)]]], simp only: prod.case, rule k)
    done
qed

lemma SubscribeOk_reads:
  assumes "SubscribeOk_payload C prof m = Inr bs" "SubscribeOk_ok C tol prof m"
  shows "reads_to (vi64 prof) (SubscribeOk_deserialize C tol prof) bs (SubscribeOk_received prof m)"
proof -
  let ?f = "vi64 prof" and ?d = "is_draft16_or_later (draft prof)" and ?ps = "or_empty (so_parameters m)"
  obtain a c x where a: "(if reply_has_request_id prof then push_req C ?f (so_request_id m) else Inr []) = Inr a"
    and c: "push_vint C ?f (so_track_alias m) = Inr c"
    and x: "(if ?d then wseq [bindR (SubscribeOk_params C prof m) (serialize_params C prof None),
             extensions_encode C ?f (Some (track_exts (so_track_extensions m) (so_group_order m))) False True]
     else wseq [push_vintv C ?f (so_expires m), push_enum8 C (so_group_order m), push_u8 C (so_content_exists m),
             if so_content_exists m = Some CONTENT_EXISTS
               then wseq [push_req C ?f (so_largest_group_id m), push_req C ?f (so_largest_object_id m)] else Inr [],
             serialize_params C prof None ?ps]) = Inr x"
    and bs: "bs = a @ c @ x"
    using assms(1) unfolding SubscribeOk_payload_def Let_def by (auto simp only: body_eq wseq_Cons_eq wseq_Nil_eq append_Nil2)
  note ok = assms(2) [unfolded SubscribeOk_ok_def own_params_ok_def sent_params_ok_def]
  show ?thesis
  proof (cases ?d)
    case True
    let ?D = "\<lambda>l. set_opt (set_opt ?ps EXPIRES (so_expires m)) LARGEST_OBJECT l"
    obtain l b1 b2 where l: "largest_param C prof (so_largest_group_id m) (so_largest_object_id m) = Inr l"
      and b1: "serialize_params C prof None (?D l) = Inr b1"
      and b2: "extensions_encode C ?f (Some (track_exts (so_track_extensions m) (so_group_order m))) False True = Inr b2"
      and x': "x = b1 @ b2" and D: "params_ok C prof None (Some ''SubscribeOk'') (?D l)"
      using x ok True by (auto simp: SubscribeOk_params_def Let_def wseq_Cons_eq wseq_Nil_eq bindR_eq_Inr bindR_def split: sum.splits)
    note tail = largest_exts_tail [OF b1 b2 D _ _ _ _ l]
    show ?thesis unfolding SubscribeOk_deserialize_def bs x'
      apply (rule reads_to_bind_plain [OF reads_req_if [OF a]], rule reads_to_bind_plain [OF reads_vint [OF c]])
      apply (simp only: True if_True, rule tail)
      using ok True by (auto simp: SubscribeOk_received_def Let_def wire_params_def key_defs intro: reads_ret_eq)
  next
    case False
    obtain ex g ce x1 x2 x3 y d where v: "so_expires m = Some (PInt ex)" "so_group_order m = Some g" "so_content_exists m = Some ce"
      and xs: "push_vint C ?f ex = Inr x1" "push_uint8 C g = Inr x2" "push_uint8 C ce = Inr x3"
      and y: "(if ce = CONTENT_EXISTS then wseq [push_req C ?f (so_largest_group_id m), push_req C ?f (so_largest_object_id m)] else Inr []) = Inr y"
      and d: "serialize_params C prof None ?ps = Inr d" and x': "x = x1 @ x2 @ x3 @ y @ d"
      using x False by (auto simp only: if_False wseq_Cons_eq wseq_Nil_eq append_Nil2 push_enum8_eq push_u8_eq option.inject push_vintv_def push_int_def
          split: option.splits pval.splits) 
    obtain y1 y2 where y': "y = y1 @ y2" and ry: "reads ?f (pull_if (ce = CONTENT_EXISTS) (pull_vint C)) y1 (if ce = CONTENT_EXISTS then so_largest_group_id m else None)"
      "reads ?f (pull_if (ce = CONTENT_EXISTS) (pull_vint C)) y2 (if ce = CONTENT_EXISTS then so_largest_object_id m else None)"
      by (rule reads_largest14 [OF y])
    have g: "1 \<le> g" "g \<le> 2" using ok v(2) False by auto
    show ?thesis unfolding SubscribeOk_deserialize_def bs x' y' append.assoc
      apply (rule reads_to_bind_plain [OF reads_req_if [OF a]], rule reads_to_bind_plain [OF reads_vint [OF c]])
      apply (simp only: False if_False, rule reads_to_bind_plain [OF reads_vint [OF xs(1)]], rule reads_to_bind_plain [OF reads_uint8 [OF xs(2)]])
      apply (rule reads_to_bind0 [OF reads_check], use g in simp, use g in simp)
      apply (rule reads_to_bind_plain [OF reads_uint8 [OF xs(3)]], rule reads_to_bind_plain [OF ry(1)], rule reads_to_bind_plain [OF ry(2)])
      apply (rule params_end [OF d])
      using ok v False by (auto simp: SubscribeOk_received_def Let_def wire_params_def)
  qed
qed

lemma SubscribeUpdate_reads:
  assumes "SubscribeUpdate_payload C prof m = Inr bs" "SubscribeUpdate_ok C prof m"
  shows "reads_to (vi64 prof) (SubscribeUpdate_deserialize C prof) bs (SubscribeUpdate_received prof m)"
proof -
  let ?f = "vi64 prof"
  obtain v1 v2 v3 v4 v5 v6 v7 b1 b2 b3 b4 b5 b6 b7 d where
    v: "m = \<lparr>sp_request_id = Some v1, sp_subscription_request_id = Some v2, sp_start_group = Some v3, sp_start_object = Some v4,
      sp_end_group = Some v5, sp_priority = Some v6, sp_forward = Some v7, sp_parameters = sp_parameters m\<rparr>"
    and b: "push_vint C ?f v1 = Inr b1" "push_vint C ?f v2 = Inr b2" "push_vint C ?f v3 = Inr b3" "push_vint C ?f v4 = Inr b4"
      "push_vint C ?f v5 = Inr b5" "push_uint8 C v6 = Inr b6" "push_uint8 C v7 = Inr b7"
    and d: "serialize_params C prof None (or_empty (sp_parameters m)) = Inr d"
    and bs: "bs = b1 @ b2 @ b3 @ b4 @ b5 @ b6 @ b7 @ d"
    using assms(1) unfolding SubscribeUpdate_payload_def Let_def
    by (cases m) (auto simp: body_eq wseq_Cons_eq wseq_Nil_eq push_req_eq push_u8_eq)
  have ok: "params_ok C prof None (Some ''SubscribeUpdate'') (or_empty (sp_parameters m))" "0 \<le> v7" "v7 \<le> 1"
    using assms(2) arg_cong [OF v, of sp_forward] by (auto simp: SubscribeUpdate_ok_def own_params_ok_def)
  show ?thesis unfolding SubscribeUpdate_deserialize_def bs
    apply (rule reads_to_bind_plain [OF reads_vint [OF b(1)]], rule reads_to_bind_plain [OF reads_vint [OF b(2)]])
    apply (rule reads_to_bind_plain [OF reads_vint [OF b(3)]], rule reads_to_bind_plain [OF reads_vint [OF b(4)]])
    apply (rule reads_to_bind_plain [OF reads_vint [OF b(5)]], rule reads_to_bind_plain [OF reads_uint8 [OF b(6)]])
    apply (rule reads_to_bind_plain [OF reads_uint8 [OF b(7)]], rule reads_to_bind0 [OF reads_check], use ok in simp, use ok in simp)
    apply (rule params_end [OF d ok(1)])
    by (subst v) (simp add: SubscribeUpdate_received_def wire_params_def)
qed

lemma SubscribeDone_reads:
  assumes "SubscribeDone_payload C prof m = Inr bs" "SubscribeDone_ok prof m"
  shows "reads_to (vi64 prof) (SubscribeDone_deserialize C prof) bs (SubscribeDone_received prof m)"
proof -
  let ?f = "vi64 prof"
  obtain a n b c d where a: "(if reply_has_request_id prof then push_req C ?f (sd_request_id m) else Inr []) = Inr a"
    and b: "push_vint C ?f (done_code prof (sd_status_code m)) = Inr b" and c: "sd_stream_count m = Some n" "push_vint C ?f n = Inr c"
    and d: "push_reason C ?f (sd_reason m) = Inr d" and bs: "bs = a @ b @ c @ d"
    using assms(1) unfolding SubscribeDone_payload_def Let_def
    by (auto simp: body_eq wseq_Cons_eq wseq_Nil_eq push_req_eq [of _ _ "sd_stream_count m"] bindR_eq_Inr)
  have ok: "reason_ok (sd_reason m)" "\<exists>s. sd_reason m = Some s" using assms(2) by (auto simp: SubscribeDone_ok_def reason_ok_def split: option.splits)
  have "reads ?f (SubscribeDone_deserialize C prof e) bs (SubscribeDone_received prof m)" for e
    unfolding SubscribeDone_deserialize_def bs
    apply (rule reads_bind [OF reads_req_if [OF a]], rule reads_bind [OF reads_vint [OF b]], rule reads_bind [OF reads_vint [OF c(2)]])
    apply (rule reads_bind_end [OF reads_reason [OF d ok(1)]], rule reads_ret_eq)
    using ok(2) c(1) by (cases m) (auto simp: SubscribeDone_received_def)
  then show ?thesis by (auto simp: reads_to_def reads_def)
qed

lemma Publish_reads:
  assumes "Publish_payload C prof m = Inr bs" "Publish_ok C tol prof m"
  shows "reads_to (vi64 prof) (Publish_deserialize C tol prof) bs (Publish_received prof m)"
proof -
  let ?f = "vi64 prof" and ?d = "is_draft16_or_later (draft prof)" and ?ps = "or_empty (pu_parameters m)"
  obtain a b c x where a: "push_vint C ?f (pu_request_id m) = Inr a"
    and b: "push_name C ?f (pu_track_namespace m) (pu_track_name m) = Inr b" and c: "push_vint C ?f (pu_track_alias m) = Inr c"
    and x: "(if ?d then wseq [bindR (Publish_params C prof m) (serialize_params C prof None),
             extensions_encode C ?f (Some (track_exts (pu_track_extensions m) (pu_group_order m))) False True]
     else wseq [push_u8 C (pu_group_order m), push_u8 C (pu_content_exists m),
             if pu_content_exists m = Some CONTENT_EXISTS
               then wseq [push_req C ?f (pu_largest_group_id m), push_req C ?f (pu_largest_object_id m)] else Inr [],
             push_u8v C (pu_forward m), serialize_params C prof None ?ps]) = Inr x"
    and bs: "bs = a @ b @ c @ x"
    using assms(1) unfolding Publish_payload_def Let_def by (auto simp only: body_eq wseq_Cons_eq wseq_Nil_eq append_Nil2)
  note ok = assms(2) [unfolded Publish_ok_def own_params_ok_def sent_params_ok_def]
  have name: "reads ?f (pull_full_track_name C prof) b (pu_track_namespace m, pu_track_name m)" using reads_name [OF b] ok by simp
  show ?thesis
  proof (cases ?d)
    case True
    let ?D = "\<lambda>l. set_opt (set_opt ?ps FORWARD (pu_forward m)) LARGEST_OBJECT l"
    obtain l b1 b2 where l: "largest_param C prof (pu_largest_group_id m) (pu_largest_object_id m) = Inr l"
      and b1: "serialize_params C prof None (?D l) = Inr b1"
      and b2: "extensions_encode C ?f (Some (track_exts (pu_track_extensions m) (pu_group_order m))) False True = Inr b2"
      and x': "x = b1 @ b2" and D: "params_ok C prof None (Some ''Publish'') (?D l)"
      using x ok True by (auto simp: Publish_params_def Let_def wseq_Cons_eq wseq_Nil_eq bindR_eq_Inr bindR_def split: sum.splits)
    note tail = largest_exts_tail [OF b1 b2 D _ _ _ _ l]
    show ?thesis unfolding Publish_deserialize_def bs x'
      apply (rule reads_to_bind_plain [OF reads_vint [OF a]], rule reads_to_bind_plain [OF name], simp only: prod.case)
      apply (rule reads_to_bind_plain [OF reads_vint [OF c]], simp only: True if_True, rule tail)
      using ok True by (auto simp: Publish_received_def Let_def wire_params_def key_defs intro: reads_ret_eq)
  next
    case False
    obtain g ce fw x1 x2 x3 y d where v: "pu_group_order m = Some g" "pu_content_exists m = Some ce" "pu_forward m = Some (PInt fw)"
      and xs: "push_uint8 C g = Inr x1" "push_uint8 C ce = Inr x2" "push_uint8 C fw = Inr x3"
      and y: "(if ce = CONTENT_EXISTS then wseq [push_req C ?f (pu_largest_group_id m), push_req C ?f (pu_largest_object_id m)] else Inr []) = Inr y"
      and d: "serialize_params C prof None ?ps = Inr d" and x': "x = x1 @ x2 @ y @ x3 @ d"
      using x False by (auto simp only: if_False wseq_Cons_eq wseq_Nil_eq append_Nil2 push_u8_eq push_u8v_eq option.inject)
    obtain y1 y2 where y': "y = y1 @ y2" and ry: "reads ?f (pull_if (ce = CONTENT_EXISTS) (pull_vint C)) y1 (if ce = CONTENT_EXISTS then pu_largest_group_id m else None)"
      "reads ?f (pull_if (ce = CONTENT_EXISTS) (pull_vint C)) y2 (if ce = CONTENT_EXISTS then pu_largest_object_id m else None)"
      by (rule reads_largest14 [OF y])
    show ?thesis unfolding Publish_deserialize_def bs x' y' append.assoc
      apply (rule reads_to_bind_plain [OF reads_vint [OF a]], rule reads_to_bind_plain [OF name], simp only: prod.case)
      apply (rule reads_to_bind_plain [OF reads_vint [OF c]], simp only: False if_False, rule reads_to_bind_plain [OF reads_uint8 [OF xs(1)]])
      apply (rule reads_to_bind_plain [OF reads_uint8 [OF xs(2)]], rule reads_to_bind_plain [OF ry(1)], rule reads_to_bind_plain [OF ry(2)])
      apply (rule reads_to_bind_plain [OF reads_uint8 [OF xs(3)]], rule params_end [OF d])
      using ok v False by (auto simp: Publish_received_def Let_def wire_params_def)
  qed
qed

end

section \<open>PUBLISH\_OK and PUBLISH\_STATE\_NOTIFY\<close>

definition PublishOk_ok :: "vcodec \<Rightarrow> DraftProfile \<Rightarrow> PublishOk \<Rightarrow> bool" where
  "PublishOk_ok C prof m \<longleftrightarrow>
     (if publish_ok_expires_only prof \<or> is_draft16_or_later (draft prof)
      then fresh (if publish_ok_expires_only prof then [EXPIRES] else DELIVERY_KEYS) (or_empty (po_parameters m))
        \<and> sent_params_ok C prof ''PublishOk'' (PublishOk_params C prof m) \<and> filter_ok prof (po_filter m)
      else own_params_ok C prof ''PublishOk'' (po_parameters m))"

definition PublishOk_received :: "DraftProfile \<Rightarrow> PublishOk \<Rightarrow> PublishOk" where
  "PublishOk_received prof m =
    (let only = publish_ok_expires_only prof; d16 = is_draft16_or_later (draft prof) in
    \<lparr>po_request_id = (if reply_has_request_id prof then po_request_id m else None),
     po_forward = (if only then None else po_forward m), po_priority = (if only then None else po_priority m),
     po_group_order = (if only then None else if d16 then order_param (po_group_order m) else po_group_order m),
     po_filter = (if only then no_filter else norm_filter (po_filter m)), po_parameters = wire_params prof (po_parameters m),
     po_expires = (if only then po_expires m else None), po_location_filter = None\<rparr>)"

definition PublishStateNotify_ok :: "vcodec \<Rightarrow> DraftProfile \<Rightarrow> PublishStateNotify \<Rightarrow> bool" where
  "PublishStateNotify_ok C prof m \<longleftrightarrow> fresh [LARGEST_OBJECT, FORWARD, LOCATION_FILTER] (or_empty (ps_parameters m))
     \<and> params_ok C prof None (Some ''PublishStateNotify'') (PublishStateNotify_params m)"

definition PublishStateNotify_received :: "DraftProfile \<Rightarrow> PublishStateNotify \<Rightarrow> PublishStateNotify" where
  "PublishStateNotify_received prof m =
    \<lparr>ps_forward = ps_forward m, ps_largest_group_id = ps_largest_group_id m,
     ps_largest_object_id = map_option (\<lambda>_. case ps_largest_object_id m of None \<Rightarrow> PInt 0 | Some ob \<Rightarrow> ob) (ps_largest_group_id m),
     ps_location_filter = ps_location_filter m, ps_parameters = wire_params prof (ps_parameters m), ps_request_id = None\<rparr>"

lemma pop4_publish:
  assumes "dict_ok d" "fresh DELIVERY_KEYS d"
  shows "dict_pop (ordered delta (set_opt (set_opt (set_opt (set_opt d FORWARD fw) SUBSCRIBER_PRIORITY p) GROUP_ORDER g) SUBSCRIPTION_FILTER fl)) FORWARD
      = (fw, ordered delta (set_opt (set_opt (set_opt d SUBSCRIBER_PRIORITY p) GROUP_ORDER g) SUBSCRIPTION_FILTER fl))"
    and "dict_pop (ordered delta (set_opt (set_opt (set_opt d SUBSCRIBER_PRIORITY p) GROUP_ORDER g) SUBSCRIPTION_FILTER fl)) SUBSCRIBER_PRIORITY
      = (p, ordered delta (set_opt (set_opt d GROUP_ORDER g) SUBSCRIPTION_FILTER fl))"
    and "dict_pop (ordered delta (set_opt (set_opt d GROUP_ORDER g) SUBSCRIPTION_FILTER fl)) GROUP_ORDER
      = (g, ordered delta (set_opt d SUBSCRIPTION_FILTER fl))"
    and "dict_pop (ordered delta (set_opt d SUBSCRIPTION_FILTER fl)) SUBSCRIPTION_FILTER = (fl, ordered delta d)"
  using assms by (auto simp: dict_pop_ordered fresh_def DELIVERY_KEYS_def key_defs)

lemma PublishOk_params_delivery:
  assumes "PublishOk_params C prof m = Inr D" "\<not> publish_ok_expires_only prof"
  obtains fl where "(case sf_type (po_filter m) of None \<Rightarrow> Inr None
      | Some t \<Rightarrow> bindR (filter_param C prof t (po_filter m)) (\<lambda>raw. Inr (Some (PBytes raw)))) = Inr fl"
    "D = set_opt (set_opt (set_opt (set_opt (or_empty (po_parameters m)) FORWARD (po_forward m)) SUBSCRIBER_PRIORITY (po_priority m))
      GROUP_ORDER (order_param (po_group_order m))) SUBSCRIPTION_FILTER fl"
  using assms by (auto simp: PublishOk_params_def Let_def set_opt_Some bindR_eq_Inr bindR_def split: option.splits sum.splits intro: that)
    (simp add: set_opt_def that)

context vcodec_laws
begin

lemma PublishOk_tail:
  assumes "PublishOk_params C prof m = Inr D" "serialize_params C prof None D = Inr bs" "params_ok C prof None (Some ''PublishOk'') D"
    and "fresh DELIVERY_KEYS (or_empty (po_parameters m))" "filter_ok prof (po_filter m)" "\<not> publish_ok_expires_only prof"
  shows "reads_to (vi64 prof) (\<lambda>e. rbind (pull_msg_params C prof ''PublishOk'' e) (\<lambda>ps0.
      case dict_pop ps0 FORWARD of (fw, ps1) \<Rightarrow> case dict_pop ps1 SUBSCRIBER_PRIORITY of (p, ps2) \<Rightarrow>
      case dict_pop ps2 GROUP_ORDER of (g, ps3) \<Rightarrow> case dict_pop ps3 SUBSCRIPTION_FILTER of (raw, ps) \<Rightarrow>
      rbind (rlift (filter_of_raw C prof raw)) (\<lambda>fl.
      rret \<lparr>po_request_id = rid, po_forward = fw, po_priority = p, po_group_order = g, po_filter = fl,
            po_parameters = Some ps, po_expires = None, po_location_filter = None\<rparr>))) bs
     \<lparr>po_request_id = rid, po_forward = po_forward m, po_priority = po_priority m, po_group_order = order_param (po_group_order m),
      po_filter = norm_filter (po_filter m), po_parameters = wire_params prof (po_parameters m), po_expires = None, po_location_filter = None\<rparr>"
proof -
  obtain fl where fl: "(case sf_type (po_filter m) of None \<Rightarrow> Inr None
      | Some t \<Rightarrow> bindR (filter_param C prof t (po_filter m)) (\<lambda>raw. Inr (Some (PBytes raw)))) = Inr fl"
    and D: "D = set_opt (set_opt (set_opt (set_opt (or_empty (po_parameters m)) FORWARD (po_forward m)) SUBSCRIBER_PRIORITY (po_priority m))
      GROUP_ORDER (order_param (po_group_order m))) SUBSCRIPTION_FILTER fl"
    using PublishOk_params_delivery [OF assms(1,6)] by blast
  have d: "dict_ok (or_empty (po_parameters m))" using params_ok_dict [OF assms(3)] by (simp add: D)
  show ?thesis
    apply (rule params_pop_end [OF assms(2,3)], simp only: D pop4_publish [OF d assms(4)] prod.case)
    apply (rule reads_bind0 [OF reads_lift [OF filter_of_raw_param [OF fl assms(5)]]], simp add: wire_params_def reads_ret)
    done
qed

lemma PublishOk_reads:
  assumes "PublishOk_payload C prof m = Inr bs" "PublishOk_ok C prof m"
  shows "reads_to (vi64 prof) (PublishOk_deserialize C prof) bs (PublishOk_received prof m)"
proof -
  let ?f = "vi64 prof" and ?d = "is_draft16_or_later (draft prof)" and ?ps = "or_empty (po_parameters m)" and ?only = "publish_ok_expires_only prof"
  obtain a x where a: "(if reply_has_request_id prof then push_req C ?f (po_request_id m) else Inr []) = Inr a"
    and x: "(if ?only \<or> ?d then bindR (PublishOk_params C prof m) (serialize_params C prof None)
     else wseq [push_u8v C (po_forward m), push_u8v C (po_priority m), push_u8v C (po_group_order m), push_filter14 C ?f (po_filter m),
                serialize_params C prof None ?ps]) = Inr x" and bs: "bs = a @ x"
    using assms(1) unfolding PublishOk_payload_def Let_def by (auto simp only: body_eq wseq_Cons_eq wseq_Nil_eq append_Nil2)
  note ok = assms(2) [unfolded PublishOk_ok_def own_params_ok_def sent_params_ok_def]
  show ?thesis
  proof (cases "?only \<or> ?d")
    case True
    then obtain D where D: "PublishOk_params C prof m = Inr D" "serialize_params C prof None D = Inr x" "params_ok C prof None (Some ''PublishOk'') D"
      using x ok by (auto simp: bindR_eq_Inr)
    show ?thesis
    proof (cases ?only)
      case True
      then have D': "D = set_opt ?ps EXPIRES (po_expires m)" using D(1) by (auto simp: PublishOk_params_def bindR_eq_Inr)
      have d: "dict_ok ?ps" using params_ok_dict [OF D(3)] by (simp add: D')
      have tail: "reads_to ?f (\<lambda>e. rbind (pull_msg_params C prof ''PublishOk'' e) (\<lambda>ps0. rbind rtell (\<lambda>p.
          rbind (rguard (\<not> before_end e p) MOQTProtocolViolation) (\<lambda>_. k ps0)))) x v"
        if "k (ordered (params_delta_coded prof) D) = rret v" for k and v :: PublishOk
        using reads_params_to [OF D(2,3)] that by (auto simp: reads_to_def before_end_def rsteps)
      show ?thesis unfolding PublishOk_deserialize_def bs
        apply (rule reads_to_bind_plain [OF reads_req_if [OF a]], simp only: True if_True, rule tail)
        using True ok d by (auto simp: D' dict_pop_ordered fresh_def PublishOk_received_def Let_def wire_params_def)
    next
      case False
      with True have d16: ?d by simp
      have fr: "fresh DELIVERY_KEYS ?ps" "filter_ok prof (po_filter m)" using ok False True by auto
      show ?thesis unfolding PublishOk_deserialize_def bs
        apply (rule reads_to_bind_plain [OF reads_req_if [OF a]], simp only: False if_False d16 if_True)
        using PublishOk_tail [OF D fr False] False d16 by (simp add: PublishOk_received_def Let_def)
    qed
  next
    case False
    obtain fw p g x1 x2 x3 y d where v: "po_forward m = Some (PInt fw)" "po_priority m = Some (PInt p)" "po_group_order m = Some (PInt g)"
      and xs: "push_uint8 C fw = Inr x1" "push_uint8 C p = Inr x2" "push_uint8 C g = Inr x3" and y: "push_filter14 C ?f (po_filter m) = Inr y"
      and d: "serialize_params C prof None ?ps = Inr d" and x': "x = x1 @ x2 @ x3 @ y @ d"
      using x False by (auto simp: wseq_Cons_eq wseq_Nil_eq push_u8v_eq)
    show ?thesis unfolding PublishOk_deserialize_def bs x'
      apply (rule reads_to_bind_plain [OF reads_req_if [OF a]], simp only: False [simplified de_Morgan_disj] if_False simp_thms)
      apply (rule reads_to_bind_plain [OF reads_uint8 [OF xs(1)]], rule reads_to_bind_plain [OF reads_uint8 [OF xs(2)]])
      apply (rule reads_to_bind_plain [OF reads_uint8 [OF xs(3)]], rule reads_to_bind_plain [OF reads_filter14 [OF y]], simp, rule params_end [OF d])
      using ok v False by (auto simp: PublishOk_received_def Let_def wire_params_def)
  qed
qed

lemma PublishStateNotify_reads:
  assumes "PublishStateNotify_payload C prof m = Inr bs" "PublishStateNotify_ok C prof m"
  shows "reads_to (vi64 prof) (PublishStateNotify_deserialize C prof) bs (PublishStateNotify_received prof m)"
proof -
  let ?ps = "or_empty (ps_parameters m)" and ?D = "PublishStateNotify_params m"
  have s: "serialize_params C prof None ?D = Inr bs"
    using assms(1) unfolding PublishStateNotify_payload_def by (auto simp: body_eq wseq_Cons_eq wseq_Nil_eq)
  have ok: "params_ok C prof None (Some ''PublishStateNotify'') ?D" and fr: "fresh [LARGEST_OBJECT, FORWARD, LOCATION_FILTER] ?ps"
    using assms(2) by (auto simp: PublishStateNotify_ok_def)
  have d: "dict_ok ?ps" using params_ok_dict [OF ok] by (simp add: PublishStateNotify_params_def Let_def)
  show ?thesis unfolding PublishStateNotify_deserialize_def
    apply (rule params_pop_end [OF s ok])
    using d fr
    by (cases "ps_largest_group_id m") (auto simp: PublishStateNotify_params_def Let_def dict_pop_ordered fresh_def key_defs index_pair_def
        PublishStateNotify_received_def wire_params_def intro!: reads_bind0 [OF reads_lift] reads_ret_eq)
qed

end

section \<open>FETCH and FETCH\_OK\<close>

definition fetch_filter :: "Fetch \<Rightarrow> LocationFilter result" where
  "fetch_filter m = (case fe_location_filter m of
     Some l \<Rightarrow> Inr l
   | None \<Rightarrow> lf_from_fetch_range (fe_start_group m) (fe_start_object m) (fe_end_group m) (fe_end_object m))"

definition Fetch_params20 :: "Fetch \<Rightarrow> params result" where
  "Fetch_params20 m = bindR (fetch_filter m) (\<lambda>l. Inr (dict_set (fetch_base_params m) LOCATION_FILTER (PLocF l)))"

definition fetch_name_ok :: "DraftProfile \<Rightarrow> Fetch \<Rightarrow> bool" where
  "fetch_name_ok prof m = (case (fe_namespace m, fe_track_name m) of (Some ns, Some name) \<Rightarrow> name_ok prof ns name | _ \<Rightarrow> True)"

definition Fetch_ok :: "vcodec \<Rightarrow> DraftProfile \<Rightarrow> Fetch \<Rightarrow> bool" where
  "Fetch_ok C prof m \<longleftrightarrow> fetch_name_ok prof m \<and>
     (if fetch_location_filter prof then
        fresh [LOCATION_FILTER, SUBSCRIBER_PRIORITY, GROUP_ORDER] (fe_parameters m) \<and> sent_params_ok C prof ''Fetch'' (Fetch_params20 m)
      else if is_draft16_or_later (draft prof) then
        fresh [SUBSCRIBER_PRIORITY, GROUP_ORDER] (fe_parameters m) \<and> params_ok C prof None (Some ''Fetch'') (fetch_base_params m)
      else params_ok C prof None (Some ''Fetch'') (fe_parameters m))"

text \<open>
  The receiver sees the range as the sender wrote it before draft 20; from draft 20 it sees what the
  Location Filter gives back. A missing priority or order arrives as its default.
\<close>

definition only_if :: "bool \<Rightarrow> 'a option \<Rightarrow> 'a option" where
  "only_if p x = (if p then x else None)"

definition Fetch_received :: "DraftProfile \<Rightarrow> Fetch \<Rightarrow> Fetch" where
  "Fetch_received prof m =
    (let d20 = fetch_location_filter prof; d16 = d20 \<or> is_draft16_or_later (draft prof);
         t = (fe_fetch_type m = STANDALONE);
         lf = (case fetch_filter m of Inl _ \<Rightarrow> None | Inr l \<Rightarrow> Some l);
         back = (case lf of None \<Rightarrow> None | Some l \<Rightarrow> lf_fetch_range l)
     in m\<lparr>fe_subscriber_priority := or_int (fe_subscriber_priority m) 128,
       fe_group_order := or_int (if d16 then order_param (fe_group_order m) else fe_group_order m) ASCENDING,
       fe_namespace := only_if t (fe_namespace m), fe_track_name := only_if t (fe_track_name m),
       fe_start_group := (if d20 then map_option fst back else only_if t (fe_start_group m)),
       fe_start_object := (if d20 then map_option (fst \<circ> snd) back else only_if t (fe_start_object m)),
       fe_end_group := (if d20 then Option.bind back (fst \<circ> snd \<circ> snd) else only_if t (fe_end_group m)),
       fe_end_object := (if d20 then Option.bind back (snd \<circ> snd \<circ> snd) else only_if t (fe_end_object m)),
       fe_joining_request_id := (if d20 then None else only_if (\<not> t) (fe_joining_request_id m)),
       fe_joining_start := (if d20 then None else only_if (\<not> t) (fe_joining_start m)),
       fe_parameters := ordered (params_delta_coded prof) (fe_parameters m), fe_location_filter := (if d20 then lf else None)\<rparr>)"

definition FetchOk_ok :: "vcodec \<Rightarrow> bool \<Rightarrow> DraftProfile \<Rightarrow> FetchOk \<Rightarrow> bool" where
  "FetchOk_ok C tol prof m \<longleftrightarrow>
     (if is_draft16_or_later (draft prof) then
        fresh [GROUP_ORDER] (fk_parameters m) \<and> params_ok C prof None (Some ''FetchOk'') (FetchOk_params prof m)
        \<and> \<not> has_fill prof (fk_parameters m) \<and> exts_accepted C tol prof (Some (or_empty (map_option fst (fk_track_extensions m))))
      else params_ok C prof None (Some ''FetchOk'') (fk_parameters m) \<and> \<not> fetch_location_filter prof)"

definition FetchOk_received :: "DraftProfile \<Rightarrow> FetchOk \<Rightarrow> FetchOk" where
  "FetchOk_received prof m =
    \<lparr>fk_request_id = (if reply_has_request_id prof then fk_request_id m else None),
     fk_group_order = (if is_draft16_or_later (draft prof) then (if draft prof < 18 then order_param (fk_group_order m) else None) else fk_group_order m),
     fk_end_of_track = fk_end_of_track m, fk_largest_group_id = fk_largest_group_id m, fk_largest_object_id = fk_largest_object_id m,
     fk_parameters = ordered (params_delta_coded prof) (fk_parameters m),
     fk_track_extensions = (if is_draft16_or_later (draft prof) then ext_received True (Some (or_empty (map_option fst (fk_track_extensions m)))) else None)\<rparr>"

lemma push_sized_opt_eq: "push_sized_opt C f x = Inr bs \<longleftrightarrow> (\<exists>y. x = Some y \<and> push_sized C f y = Inr bs)"
  by (auto simp: push_sized_opt_def split: option.splits)

context vcodec_laws
begin

lemma reads_fetch_body:
  assumes "(if fe_fetch_type m = STANDALONE then
       wseq [push_tuple_opt C f (fe_namespace m), push_sized_opt C f (fe_track_name m), push_req C f (fe_start_group m),
             push_req C f (fe_start_object m), push_req C f (fe_end_group m), push_req C f (fe_end_object m)]
     else if is_joining (fe_fetch_type m) then wseq [push_req C f (fe_joining_request_id m), push_req C f (fe_joining_start m)]
     else Inl ValueError) = Inr bs" and "fetch_name_ok prof m"
  shows "reads f (pull_fetch_body C prof (fe_fetch_type m)) bs
    (let t = (fe_fetch_type m = STANDALONE) in
     (only_if t (fe_namespace m), only_if t (fe_track_name m), only_if t (fe_start_group m), only_if t (fe_start_object m),
      only_if t (fe_end_group m), only_if t (fe_end_object m), only_if (\<not> t) (fe_joining_request_id m), only_if (\<not> t) (fe_joining_start m)))"
proof (cases "fe_fetch_type m = STANDALONE")
  case True
  then obtain ns name sg so eg eo b1 b2 b3 b4 b5 b6 where
    v: "fe_namespace m = Some ns" "fe_track_name m = Some name" "fe_start_group m = Some sg" "fe_start_object m = Some so"
      "fe_end_group m = Some eg" "fe_end_object m = Some eo"
    and b: "push_tuple C f ns = Inr b1" "push_sized C f name = Inr b2" "push_vint C f sg = Inr b3" "push_vint C f so = Inr b4"
      "push_vint C f eg = Inr b5" "push_vint C f eo = Inr b6" and bs: "bs = (b1 @ b2) @ b3 @ b4 @ b5 @ b6"
    using assms(1) by (auto simp: wseq_Cons_eq wseq_Nil_eq push_tuple_opt_eq push_sized_opt_eq push_req_eq)
  have n: "reads f (pull_full_track_name C prof) (b1 @ b2) (ns, name)"
    using pull_full_track_name_reads [OF b(1,2)] assms(2) v by (simp add: fetch_name_ok_def name_ok_def)
  show ?thesis unfolding pull_fetch_body_def bs
    apply (simp only: if_P [OF True], rule reads_bind [OF n], simp only: prod.case, rule reads_bind [OF reads_vint [OF b(3)]])
    apply (rule reads_bind [OF reads_vint [OF b(4)]], rule reads_bind [OF reads_vint [OF b(5)]], rule reads_bind_end [OF reads_vint [OF b(6)]])
    using v True by (simp add: reads_ret only_if_def)
next
  case False
  then obtain j s b1 b2 where v: "fe_joining_request_id m = Some j" "fe_joining_start m = Some s" and jo: "is_joining (fe_fetch_type m)"
    and b: "push_vint C f j = Inr b1" "push_vint C f s = Inr b2" and bs: "bs = b1 @ b2"
    using assms(1) by (auto simp: wseq_Cons_eq wseq_Nil_eq push_req_eq split: if_splits)
  show ?thesis unfolding pull_fetch_body_def bs
    apply (simp only: if_not_P [OF False] if_P [OF jo], rule reads_bind [OF reads_vint [OF b(1)]], rule reads_bind_end [OF reads_vint [OF b(2)]])
    using v False by (simp add: reads_ret only_if_def)
qed

lemma fetch_pops:
  assumes "dict_ok d" "fresh [SUBSCRIBER_PRIORITY, GROUP_ORDER] d"
  shows "dict_pop (ordered delta (set_opt (set_opt d SUBSCRIBER_PRIORITY p) GROUP_ORDER g)) SUBSCRIBER_PRIORITY = (p, ordered delta (set_opt d GROUP_ORDER g))"
    and "dict_pop (ordered delta (set_opt d GROUP_ORDER g)) GROUP_ORDER = (g, ordered delta d)"
  using assms by (auto simp: dict_pop_ordered fresh_def key_defs)

lemma Fetch16_reads:
  assumes "Fetch_payload16 C prof m = Inr bs" "Fetch_ok C prof m" "\<not> fetch_location_filter prof"
  shows "reads_to (vi64 prof) (Fetch_deserialize16 C prof) bs (Fetch_received prof m)"
proof -
  let ?f = "vi64 prof" and ?d = "is_draft16_or_later (draft prof)"
  let ?own = "if ?d then fetch_base_params m else fe_parameters m"
  obtain a b c x d where a: "push_vint C ?f (fe_request_id m) = Inr a"
    and b: "(if ?d then Inr [] else wseq [push_u8v C (or_int (fe_subscriber_priority m) 128), push_u8v C (or_int (fe_group_order m) ASCENDING)]) = Inr b"
    and c: "push_vint C ?f (fe_fetch_type m) = Inr c"
    and x: "(if fe_fetch_type m = STANDALONE then
       wseq [push_tuple_opt C ?f (fe_namespace m), push_sized_opt C ?f (fe_track_name m), push_req C ?f (fe_start_group m),
             push_req C ?f (fe_start_object m), push_req C ?f (fe_end_group m), push_req C ?f (fe_end_object m)]
     else if is_joining (fe_fetch_type m) then wseq [push_req C ?f (fe_joining_request_id m), push_req C ?f (fe_joining_start m)]
     else Inl ValueError) = Inr x"
    and d: "serialize_params C prof None ?own = Inr d" and bs: "bs = a @ b @ c @ x @ d"
    using assms(1) unfolding Fetch_payload16_def Let_def by (auto simp only: body_eq wseq_Cons_eq wseq_Nil_eq append_Nil2)
  note ok = assms(2) [unfolded Fetch_ok_def]
  have p: "params_ok C prof None (Some ''Fetch'') ?own" "fetch_name_ok prof m" using ok assms(3) by auto
  have dk: "?d \<Longrightarrow> dict_ok (fe_parameters m)" "?d \<Longrightarrow> fresh [SUBSCRIBER_PRIORITY, GROUP_ORDER] (fe_parameters m)"
    using ok assms(3) params_ok_dict [OF p(1)] by (auto simp: fetch_base_params_def)
  let ?pg = "(if ?d then (128, DESCENDING) else (case or_int (fe_subscriber_priority m) 128 of Some (PInt n) \<Rightarrow> n,
     case or_int (fe_group_order m) ASCENDING of Some (PInt n) \<Rightarrow> n))"
  have rb: "reads ?f (if ?d then rret (128, DESCENDING) else rbind (pull_uint8 C) (\<lambda>p. rbind (pull_uint8 C) (\<lambda>g. rret (p, g)))) b ?pg"
  proof (cases ?d)
    case False
    then obtain n1 n2 b1 b2 where n: "or_int (fe_subscriber_priority m) 128 = Some (PInt n1)" "or_int (fe_group_order m) ASCENDING = Some (PInt n2)"
      and b': "push_uint8 C n1 = Inr b1" "push_uint8 C n2 = Inr b2" "b = b1 @ b2"
      using b by (auto simp: wseq_Cons_eq wseq_Nil_eq push_u8v_eq)
    show ?thesis unfolding b'(3) using False n
      by (simp add: reads_bind [OF reads_uint8 [OF b'(1)] reads_bind_end [OF reads_uint8 [OF b'(2)] reads_ret]])
  qed (use b in \<open>auto intro: reads_ret\<close>)
  have old: "\<not> ?d \<Longrightarrow> or_int (fe_subscriber_priority m) 128 = Some (PInt (fst ?pg)) \<and> or_int (fe_group_order m) ASCENDING = Some (PInt (snd ?pg))"
    using b by (auto simp: wseq_Cons_eq wseq_Nil_eq push_u8v_eq)
  have pg: "?pg = (fst ?pg, snd ?pg)" by simp
  show ?thesis unfolding Fetch_deserialize16_def bs
    apply (rule reads_to_bind_plain [OF reads_vint [OF a]], rule reads_to_bind_plain [OF rb], subst pg, unfold prod.case)
    apply (rule reads_to_bind_plain [OF reads_vint [OF c]], rule reads_to_bind_plain [OF reads_fetch_body [OF x p(2)]])
    apply (simp only: Let_def prod.case, rule params_pop_end [OF d p(1)])
    using dk old assms(3) by (cases ?d) (auto simp: fetch_base_params_def fetch_pops Fetch_received_def Let_def intro!: reads_ret_eq)
qed

end

context vcodec_laws
begin

lemma Fetch20_reads:
  assumes "Fetch_payload20 C prof m = Inr bs" "Fetch_ok C prof m" "fetch_location_filter prof"
  shows "reads_to (vi64 prof) (Fetch_deserialize20 C prof) bs (Fetch_received prof m)"
proof -
  let ?f = "vi64 prof" and ?ps = "fe_parameters m"
  let ?D = "\<lambda>l. set_opt (set_opt (set_opt ?ps SUBSCRIBER_PRIORITY (fe_subscriber_priority m)) GROUP_ORDER (order_param (fe_group_order m)))
      LOCATION_FILTER (Some (PLocF l))"
  note ok = assms(2) [unfolded Fetch_ok_def sent_params_ok_def]
  obtain ns name l a b1 b2 d where v: "fe_namespace m = Some ns" "fe_track_name m = Some name" "fe_fetch_type m = STANDALONE"
    and a: "push_vint C ?f (fe_request_id m) = Inr a" and b: "push_tuple C ?f ns = Inr b1" "push_sized C ?f name = Inr b2"
    and l: "fetch_filter m = Inr l" and d: "serialize_params C prof None (?D l) = Inr d" and bs: "bs = a @ (b1 @ b2) @ d"
    using assms(1) unfolding Fetch_payload20_def Let_def fetch_filter_def [symmetric]
    by (auto simp: body_eq wseq_Cons_eq wseq_Nil_eq bindR_eq_Inr push_tuple_opt_eq push_sized_opt_eq set_opt_Some fetch_base_params_def guardR_eq_Inr)
  have p: "params_ok C prof None (Some ''Fetch'') (?D l)" and fr: "fresh [LOCATION_FILTER, SUBSCRIBER_PRIORITY, GROUP_ORDER] ?ps"
    using ok assms(3) l by (auto simp: Fetch_params20_def bindR_def set_opt_Some fetch_base_params_def)
  have dk: "dict_ok ?ps" using params_ok_dict [OF p] by simp
  have n: "reads ?f (pull_full_track_name C prof) (b1 @ b2) (ns, name)"
    using pull_full_track_name_reads [OF b] ok v by (simp add: fetch_name_ok_def name_ok_def)
  have pops: "dict_pop (ordered delta (?D l)) LOCATION_FILTER = (Some (PLocF l), ordered delta
      (set_opt (set_opt ?ps SUBSCRIBER_PRIORITY (fe_subscriber_priority m)) GROUP_ORDER (order_param (fe_group_order m))))" for delta
    using dk fr by (auto simp: dict_pop_ordered fresh_def key_defs)
  have fr2: "fresh [SUBSCRIBER_PRIORITY, GROUP_ORDER] ?ps" using fr by (simp add: fresh_def)
  show ?thesis unfolding Fetch_deserialize20_def bs
    apply (rule reads_to_bind_plain [OF reads_vint [OF a]], rule reads_to_bind_plain [OF n], simp only: prod.case)
    apply (rule params_pop_end [OF d p], simp only: pops prod.case pop_locf_def option.case pval.case)
    apply (rule reads_bind0 [OF reads_lift [OF refl]], simp only: option.case, rule reads_bind0 [OF reads_lift [OF refl]])
    using v l assms(3)
    by (cases "lf_fetch_range l") (auto simp: fetch_pops [OF dk fr2] Fetch_received_def only_if_def Let_def intro!: reads_ret_eq split: prod.splits)
qed

lemma Fetch_reads:
  assumes "Fetch_payload C prof m = Inr bs" "Fetch_ok C prof m"
  shows "reads_to (vi64 prof) (Fetch_deserialize C prof) bs (Fetch_received prof m)"
  using assms Fetch16_reads [of prof m bs] Fetch20_reads [of prof m bs]
  unfolding Fetch_payload_def Fetch_deserialize_def by (cases "fetch_location_filter prof") auto

lemma FetchOk_reads:
  assumes "FetchOk_payload C prof m = Inr bs" "FetchOk_ok C tol prof m"
  shows "reads_to (vi64 prof) (FetchOk_deserialize C tol prof) bs (FetchOk_received prof m)"
proof -
  let ?f = "vi64 prof" and ?d = "is_draft16_or_later (draft prof)" and ?ps = "fk_parameters m"
  let ?x = "Some (or_empty (map_option fst (fk_track_extensions m)))"
  note ok = assms(2) [unfolded FetchOk_ok_def]
  show ?thesis
  proof (cases ?d)
    case True
    let ?D = "FetchOk_params prof m"
    obtain a b c e d x n where a: "(if reply_has_request_id prof then push_req C ?f (fk_request_id m) else Inr []) = Inr a"
      and b: "push_uint8 C (fk_end_of_track m) = Inr b" and c: "push_vint C ?f (fk_largest_group_id m) = Inr c"
      and e: "fetch_ok_end prof m = Inr n" "push_vint C ?f n = Inr e" and d: "serialize_params C prof None ?D = Inr d"
      and x: "extensions_encode C ?f ?x False True = Inr x" and bs: "bs = a @ b @ c @ e @ d @ x"
      using assms(1) True unfolding FetchOk_payload_def Let_def
      by (auto simp: body_eq wseq_Cons_eq wseq_Nil_eq bindR_eq_Inr)
    have n: "(if fetch_location_filter prof then n + 1 else n) = fk_largest_object_id m"
      using e(1) by (auto simp: fetch_ok_end_def bindR_eq_Inr split: if_splits)
    have p: "params_ok C prof None (Some ''FetchOk'') ?D" "exts_accepted C tol prof ?x" using ok True by auto
    have dk: "dict_ok ?ps" using params_ok_dict [OF p(1)] by (auto simp: FetchOk_params_def split: if_splits)
    have nf: "\<not> has_fill prof ?D" using ok True by (auto simp: FetchOk_params_def has_fill_set_opt GROUP_ORDER_def)
    have pop: "dict_pop (ordered delta ?D) GROUP_ORDER = (if draft prof < 18 then order_param (fk_group_order m) else None, ordered delta ?ps)" for delta
      using dk ok True by (auto simp: FetchOk_params_def dict_pop_ordered fresh_def)
    show ?thesis unfolding FetchOk_deserialize_def bs
      apply (rule reads_to_bind_plain [OF reads_req_if [OF a]], simp only: if_P [OF True], rule reads_to_bind_plain [OF reads_uint8 [OF b]])
      apply (rule reads_to_bind_plain [OF reads_vint [OF c]], rule reads_to_bind_plain [OF reads_vint [OF e(2)]])
      apply (rule reads_to_bind [OF reads_params_in [OF d p(1) nf]], simp only: pop prod.case)
      apply (rule reads_to_bind_last [OF reads_track_exts [OF x p(2)]], rule reads_ret_eq)
      using n True by (simp add: FetchOk_received_def)
  next
    case False
    obtain a g b c e d gb where a: "(if reply_has_request_id prof then push_req C ?f (fk_request_id m) else Inr []) = Inr a"
      and g: "fk_group_order m = Some (PInt g)" "push_uint8 C g = Inr gb"
      and b: "push_uint8 C (fk_end_of_track m) = Inr b" and c: "push_vint C ?f (fk_largest_group_id m) = Inr c"
      and e: "push_vint C ?f (fk_largest_object_id m) = Inr e" and d: "serialize_params C prof None ?ps = Inr d"
      and bs: "bs = a @ gb @ b @ c @ e @ d"
      using assms(1) False unfolding FetchOk_payload_def Let_def
      by (auto simp: body_eq wseq_Cons_eq wseq_Nil_eq push_u8v_eq)
    show ?thesis unfolding FetchOk_deserialize_def bs
      apply (rule reads_to_bind_plain [OF reads_req_if [OF a]], simp only: if_not_P [OF False], rule reads_to_bind_plain [OF reads_uint8 [OF g(2)]])
      apply (rule reads_to_bind_plain [OF reads_uint8 [OF b]], rule reads_to_bind_plain [OF reads_vint [OF c]])
      apply (rule reads_to_bind_plain [OF reads_vint [OF e]], rule params_end [OF d])
      using ok False g by (auto simp: FetchOk_received_def)
  qed
qed

end

end
