(* ===== verification/Control_Dispatch.thy ===== *)
theory Control_Dispatch
  imports Track_Laws
begin

text \<open>
  The dispatcher of control messages in \<^verbatim>\<open>protocol.py\<close>: the message classes, the per-draft tables
  \<^verbatim>\<open>CONTROL_REGISTRY\<close>, the lookup \<^verbatim>\<open>_get_control_entry\<close>, the guard of the sending side
  \<^verbatim>\<open>_assert_type_defined_by_draft\<close> and the parsing half of \<^verbatim>\<open>_moqt_handle_control_message\<close>. The classes together
  are one instance of \<open>message_codec\<close>; every message a draft defines is dispatched back to its class.
\<close>

section \<open>Message classes\<close>

datatype (plugins only: code size) msg_class =
    K_ClientSetup | K_ServerSetup | K_SubscribeUpdate | K_Subscribe | K_SubscribeOk | K_SubscribeError |
    K_PublishNamespace | K_PublishNamespaceOk | K_PublishNamespaceError | K_PublishNamespaceDone |
    K_PublishNamespaceCancel | K_Unsubscribe | K_SubscribeDone | K_MaxSubscribeId | K_SubscribesBlocked |
    K_TrackStatus | K_TrackStatusOk | K_TrackStatusError | K_GoAway | K_SubscribeNamespace | K_SubscribeNamespaceOk |
    K_SubscribeNamespaceError | K_UnsubscribeNamespace | K_Fetch | K_FetchCancel | K_FetchOk | K_FetchError |
    K_Publish | K_PublishOk | K_PublishError | K_RequestUpdate | K_RequestError | K_RequestOk | K_Namespace |
    K_NamespaceDone | K_Setup18 | K_Setup20 | K_SubscribeTracks | K_PublishBlocked | K_PublishStateNotify

datatype (plugins only: code size) control_msg =
    M_ClientSetup ClientSetup
  | M_ServerSetup ServerSetup
  | M_SubscribeUpdate SubscribeUpdate
  | M_Subscribe Subscribe
  | M_SubscribeOk SubscribeOk
  | M_SubscribeError ErrorReply
  | M_PublishNamespace PublishNamespace
  | M_PublishNamespaceOk "int option"
  | M_PublishNamespaceError ErrorReply
  | M_PublishNamespaceDone PublishNamespaceDone
  | M_PublishNamespaceCancel PublishNamespaceCancel
  | M_Unsubscribe "int option"
  | M_SubscribeDone SubscribeDone
  | M_MaxSubscribeId "int option"
  | M_SubscribesBlocked "int option"
  | M_TrackStatus TrackStatus
  | M_TrackStatusOk TrackStatusOk
  | M_TrackStatusError ErrorReply
  | M_GoAway GoAway
  | M_SubscribeNamespace SubscribeNamespace
  | M_SubscribeNamespaceOk "int option"
  | M_SubscribeNamespaceError ErrorReply
  | M_UnsubscribeNamespace "bytes list"
  | M_Fetch Fetch
  | M_FetchCancel "int option"
  | M_FetchOk FetchOk
  | M_FetchError ErrorReply
  | M_Publish Publish
  | M_PublishOk PublishOk
  | M_PublishError ErrorReply
  | M_RequestUpdate RequestUpdate
  | M_RequestError RequestError
  | M_RequestOk RequestOk
  | M_Namespace "bytes list"
  | M_NamespaceDone "bytes list"
  | M_Setup18 "params option"
  | M_Setup20 Setup20
  | M_SubscribeTracks SubscribeTracks
  | M_PublishBlocked PublishBlocked
  | M_PublishStateNotify PublishStateNotify

primrec class_of :: "control_msg \<Rightarrow> msg_class" where
  "class_of (M_ClientSetup x) = K_ClientSetup"
| "class_of (M_ServerSetup x) = K_ServerSetup"
| "class_of (M_SubscribeUpdate x) = K_SubscribeUpdate"
| "class_of (M_Subscribe x) = K_Subscribe"
| "class_of (M_SubscribeOk x) = K_SubscribeOk"
| "class_of (M_SubscribeError x) = K_SubscribeError"
| "class_of (M_PublishNamespace x) = K_PublishNamespace"
| "class_of (M_PublishNamespaceOk x) = K_PublishNamespaceOk"
| "class_of (M_PublishNamespaceError x) = K_PublishNamespaceError"
| "class_of (M_PublishNamespaceDone x) = K_PublishNamespaceDone"
| "class_of (M_PublishNamespaceCancel x) = K_PublishNamespaceCancel"
| "class_of (M_Unsubscribe x) = K_Unsubscribe"
| "class_of (M_SubscribeDone x) = K_SubscribeDone"
| "class_of (M_MaxSubscribeId x) = K_MaxSubscribeId"
| "class_of (M_SubscribesBlocked x) = K_SubscribesBlocked"
| "class_of (M_TrackStatus x) = K_TrackStatus"
| "class_of (M_TrackStatusOk x) = K_TrackStatusOk"
| "class_of (M_TrackStatusError x) = K_TrackStatusError"
| "class_of (M_GoAway x) = K_GoAway"
| "class_of (M_SubscribeNamespace x) = K_SubscribeNamespace"
| "class_of (M_SubscribeNamespaceOk x) = K_SubscribeNamespaceOk"
| "class_of (M_SubscribeNamespaceError x) = K_SubscribeNamespaceError"
| "class_of (M_UnsubscribeNamespace x) = K_UnsubscribeNamespace"
| "class_of (M_Fetch x) = K_Fetch"
| "class_of (M_FetchCancel x) = K_FetchCancel"
| "class_of (M_FetchOk x) = K_FetchOk"
| "class_of (M_FetchError x) = K_FetchError"
| "class_of (M_Publish x) = K_Publish"
| "class_of (M_PublishOk x) = K_PublishOk"
| "class_of (M_PublishError x) = K_PublishError"
| "class_of (M_RequestUpdate x) = K_RequestUpdate"
| "class_of (M_RequestError x) = K_RequestError"
| "class_of (M_RequestOk x) = K_RequestOk"
| "class_of (M_Namespace x) = K_Namespace"
| "class_of (M_NamespaceDone x) = K_NamespaceDone"
| "class_of (M_Setup18 x) = K_Setup18"
| "class_of (M_Setup20 x) = K_Setup20"
| "class_of (M_SubscribeTracks x) = K_SubscribeTracks"
| "class_of (M_PublishBlocked x) = K_PublishBlocked"
| "class_of (M_PublishStateNotify x) = K_PublishStateNotify"

text \<open>The \<^verbatim>\<open>type\<close> attribute each class sets on its instances.\<close>

primrec class_type :: "msg_class \<Rightarrow> int" where
  "class_type K_ClientSetup = 0x20"
| "class_type K_ServerSetup = 0x21"
| "class_type K_SubscribeUpdate = 0x02"
| "class_type K_Subscribe = 0x03"
| "class_type K_SubscribeOk = 0x04"
| "class_type K_SubscribeError = 0x05"
| "class_type K_PublishNamespace = 0x06"
| "class_type K_PublishNamespaceOk = 0x07"
| "class_type K_PublishNamespaceError = 0x08"
| "class_type K_PublishNamespaceDone = 0x09"
| "class_type K_PublishNamespaceCancel = 0x0C"
| "class_type K_Unsubscribe = 0x0A"
| "class_type K_SubscribeDone = 0x0B"
| "class_type K_MaxSubscribeId = 0x15"
| "class_type K_SubscribesBlocked = 0x1A"
| "class_type K_TrackStatus = 0x0D"
| "class_type K_TrackStatusOk = 0x0E"
| "class_type K_TrackStatusError = 0x0F"
| "class_type K_GoAway = 0x10"
| "class_type K_SubscribeNamespace = 0x11"
| "class_type K_SubscribeNamespaceOk = 0x12"
| "class_type K_SubscribeNamespaceError = 0x13"
| "class_type K_UnsubscribeNamespace = 0x14"
| "class_type K_Fetch = 0x16"
| "class_type K_FetchCancel = 0x17"
| "class_type K_FetchOk = 0x18"
| "class_type K_FetchError = 0x19"
| "class_type K_Publish = 0x1D"
| "class_type K_PublishOk = 0x1E"
| "class_type K_PublishError = 0x1F"
| "class_type K_RequestUpdate = 0x02"
| "class_type K_RequestError = 0x05"
| "class_type K_RequestOk = 0x07"
| "class_type K_Namespace = 0x08"
| "class_type K_NamespaceDone = 0x0E"
| "class_type K_Setup18 = 0x2F00"
| "class_type K_Setup20 = 0x2F00"
| "class_type K_SubscribeTracks = 0x51"
| "class_type K_PublishBlocked = 0x0F"
| "class_type K_PublishStateNotify = 0x22"

text \<open>\<^verbatim>\<open>msg.serialize(prof)\<close>, \<^verbatim>\<open>message_class.deserialize\<close>: the method of the class.\<close>

primrec control_serialize :: "vcodec \<Rightarrow> DraftProfile \<Rightarrow> control_msg \<Rightarrow> bytes result" where
  "control_serialize C prof (M_ClientSetup x) = ClientSetup_serialize C prof x"
| "control_serialize C prof (M_ServerSetup x) = ServerSetup_serialize C prof x"
| "control_serialize C prof (M_SubscribeUpdate x) = SubscribeUpdate_serialize C prof x"
| "control_serialize C prof (M_Subscribe x) = Subscribe_serialize C prof x"
| "control_serialize C prof (M_SubscribeOk x) = SubscribeOk_serialize C prof x"
| "control_serialize C prof (M_SubscribeError x) = SubscribeError_serialize C prof x"
| "control_serialize C prof (M_PublishNamespace x) = PublishNamespace_serialize C prof x"
| "control_serialize C prof (M_PublishNamespaceOk x) = PublishNamespaceOk_serialize C prof x"
| "control_serialize C prof (M_PublishNamespaceError x) = PublishNamespaceError_serialize C prof x"
| "control_serialize C prof (M_PublishNamespaceDone x) = PublishNamespaceDone_serialize C prof x"
| "control_serialize C prof (M_PublishNamespaceCancel x) = PublishNamespaceCancel_serialize C prof x"
| "control_serialize C prof (M_Unsubscribe x) = Unsubscribe_serialize C prof x"
| "control_serialize C prof (M_SubscribeDone x) = SubscribeDone_serialize C prof x"
| "control_serialize C prof (M_MaxSubscribeId x) = MaxSubscribeId_serialize C prof x"
| "control_serialize C prof (M_SubscribesBlocked x) = SubscribesBlocked_serialize C prof x"
| "control_serialize C prof (M_TrackStatus x) = TrackStatus_serialize C prof x"
| "control_serialize C prof (M_TrackStatusOk x) = TrackStatusOk_serialize C prof x"
| "control_serialize C prof (M_TrackStatusError x) = TrackStatusError_serialize C prof x"
| "control_serialize C prof (M_GoAway x) = GoAway_serialize C prof x"
| "control_serialize C prof (M_SubscribeNamespace x) = SubscribeNamespace_serialize C prof x"
| "control_serialize C prof (M_SubscribeNamespaceOk x) = SubscribeNamespaceOk_serialize C prof x"
| "control_serialize C prof (M_SubscribeNamespaceError x) = SubscribeNamespaceError_serialize C prof x"
| "control_serialize C prof (M_UnsubscribeNamespace x) = UnsubscribeNamespace_serialize C prof x"
| "control_serialize C prof (M_Fetch x) = Fetch_serialize C prof x"
| "control_serialize C prof (M_FetchCancel x) = FetchCancel_serialize C prof x"
| "control_serialize C prof (M_FetchOk x) = FetchOk_serialize C prof x"
| "control_serialize C prof (M_FetchError x) = FetchError_serialize C prof x"
| "control_serialize C prof (M_Publish x) = Publish_serialize C prof x"
| "control_serialize C prof (M_PublishOk x) = PublishOk_serialize C prof x"
| "control_serialize C prof (M_PublishError x) = PublishError_serialize C prof x"
| "control_serialize C prof (M_RequestUpdate x) = RequestUpdate_serialize C prof x"
| "control_serialize C prof (M_RequestError x) = RequestError_serialize C prof x"
| "control_serialize C prof (M_RequestOk x) = RequestOk_serialize C prof x"
| "control_serialize C prof (M_Namespace x) = Namespace_serialize C prof x"
| "control_serialize C prof (M_NamespaceDone x) = NamespaceDone_serialize C prof x"
| "control_serialize C prof (M_Setup18 x) = Setup18_serialize C prof x"
| "control_serialize C prof (M_Setup20 x) = Setup20_serialize C prof x"
| "control_serialize C prof (M_SubscribeTracks x) = SubscribeTracks_serialize C prof x"
| "control_serialize C prof (M_PublishBlocked x) = PublishBlocked_serialize C prof x"
| "control_serialize C prof (M_PublishStateNotify x) = PublishStateNotify_serialize C prof x"

definition mapped :: "('a \<Rightarrow> 'b) \<Rightarrow> (nat option \<Rightarrow> 'a reader) \<Rightarrow> nat option \<Rightarrow> 'b reader" where
  "mapped f r e = rbind (r e) (\<lambda>x. rret (f x))"

primrec control_deserialize :: "vcodec \<Rightarrow> bool \<Rightarrow> msg_class \<Rightarrow> DraftProfile \<Rightarrow> nat option \<Rightarrow> control_msg reader" where
  "control_deserialize C tol K_ClientSetup prof = mapped M_ClientSetup (ClientSetup_deserialize C prof)"
| "control_deserialize C tol K_ServerSetup prof = mapped M_ServerSetup (ServerSetup_deserialize C prof)"
| "control_deserialize C tol K_SubscribeUpdate prof = mapped M_SubscribeUpdate (SubscribeUpdate_deserialize C prof)"
| "control_deserialize C tol K_Subscribe prof = mapped M_Subscribe (Subscribe_deserialize C prof)"
| "control_deserialize C tol K_SubscribeOk prof = mapped M_SubscribeOk (SubscribeOk_deserialize C tol prof)"
| "control_deserialize C tol K_SubscribeError prof = mapped M_SubscribeError (SubscribeError_deserialize C prof)"
| "control_deserialize C tol K_PublishNamespace prof = mapped M_PublishNamespace (PublishNamespace_deserialize C prof)"
| "control_deserialize C tol K_PublishNamespaceOk prof = mapped M_PublishNamespaceOk (PublishNamespaceOk_deserialize C prof)"
| "control_deserialize C tol K_PublishNamespaceError prof = mapped M_PublishNamespaceError (PublishNamespaceError_deserialize C prof)"
| "control_deserialize C tol K_PublishNamespaceDone prof = mapped M_PublishNamespaceDone (PublishNamespaceDone_deserialize C prof)"
| "control_deserialize C tol K_PublishNamespaceCancel prof = mapped M_PublishNamespaceCancel (PublishNamespaceCancel_deserialize C prof)"
| "control_deserialize C tol K_Unsubscribe prof = mapped M_Unsubscribe (Unsubscribe_deserialize C prof)"
| "control_deserialize C tol K_SubscribeDone prof = mapped M_SubscribeDone (SubscribeDone_deserialize C prof)"
| "control_deserialize C tol K_MaxSubscribeId prof = mapped M_MaxSubscribeId (MaxSubscribeId_deserialize C prof)"
| "control_deserialize C tol K_SubscribesBlocked prof = mapped M_SubscribesBlocked (SubscribesBlocked_deserialize C prof)"
| "control_deserialize C tol K_TrackStatus prof = mapped M_TrackStatus (TrackStatus_deserialize C prof)"
| "control_deserialize C tol K_TrackStatusOk prof = mapped M_TrackStatusOk (TrackStatusOk_deserialize C prof)"
| "control_deserialize C tol K_TrackStatusError prof = mapped M_TrackStatusError (TrackStatusError_deserialize C prof)"
| "control_deserialize C tol K_GoAway prof = mapped M_GoAway (GoAway_deserialize C prof)"
| "control_deserialize C tol K_SubscribeNamespace prof = mapped M_SubscribeNamespace (SubscribeNamespace_deserialize C prof)"
| "control_deserialize C tol K_SubscribeNamespaceOk prof = mapped M_SubscribeNamespaceOk (SubscribeNamespaceOk_deserialize C prof)"
| "control_deserialize C tol K_SubscribeNamespaceError prof = mapped M_SubscribeNamespaceError (SubscribeNamespaceError_deserialize C prof)"
| "control_deserialize C tol K_UnsubscribeNamespace prof = mapped M_UnsubscribeNamespace (UnsubscribeNamespace_deserialize C prof)"
| "control_deserialize C tol K_Fetch prof = mapped M_Fetch (Fetch_deserialize C prof)"
| "control_deserialize C tol K_FetchCancel prof = mapped M_FetchCancel (FetchCancel_deserialize C prof)"
| "control_deserialize C tol K_FetchOk prof = mapped M_FetchOk (FetchOk_deserialize C tol prof)"
| "control_deserialize C tol K_FetchError prof = mapped M_FetchError (FetchError_deserialize C prof)"
| "control_deserialize C tol K_Publish prof = mapped M_Publish (Publish_deserialize C tol prof)"
| "control_deserialize C tol K_PublishOk prof = mapped M_PublishOk (PublishOk_deserialize C prof)"
| "control_deserialize C tol K_PublishError prof = mapped M_PublishError (PublishError_deserialize C prof)"
| "control_deserialize C tol K_RequestUpdate prof = mapped M_RequestUpdate (RequestUpdate_deserialize C prof)"
| "control_deserialize C tol K_RequestError prof = mapped M_RequestError (RequestError_deserialize C prof)"
| "control_deserialize C tol K_RequestOk prof = mapped M_RequestOk (RequestOk_deserialize C tol prof)"
| "control_deserialize C tol K_Namespace prof = mapped M_Namespace (Namespace_deserialize C prof)"
| "control_deserialize C tol K_NamespaceDone prof = mapped M_NamespaceDone (NamespaceDone_deserialize C prof)"
| "control_deserialize C tol K_Setup18 prof = mapped M_Setup18 (Setup18_deserialize C prof)"
| "control_deserialize C tol K_Setup20 prof = mapped M_Setup20 (Setup20_deserialize C prof)"
| "control_deserialize C tol K_SubscribeTracks prof = mapped M_SubscribeTracks (SubscribeTracks_deserialize C prof)"
| "control_deserialize C tol K_PublishBlocked prof = mapped M_PublishBlocked (PublishBlocked_deserialize C prof)"
| "control_deserialize C tol K_PublishStateNotify prof = mapped M_PublishStateNotify (PublishStateNotify_deserialize C prof)"

section \<open>The tables\<close>

text \<open>Each entry is the class of \<^verbatim>\<open>CONTROL_REGISTRY\<close>; the handlers are not part of the tables here.\<close>

definition MOQT_CONTROL_MESSAGE_REGISTRY :: "msg_class dict" where
  "MOQT_CONTROL_MESSAGE_REGISTRY =
    [(0x20, K_ClientSetup), (0x21, K_ServerSetup), (0x02, K_SubscribeUpdate), (0x03, K_Subscribe), (0x04, K_SubscribeOk),
     (0x05, K_SubscribeError), (0x06, K_PublishNamespace), (0x07, K_PublishNamespaceOk), (0x08, K_PublishNamespaceError),
     (0x09, K_PublishNamespaceDone), (0x0C, K_PublishNamespaceCancel), (0x0A, K_Unsubscribe), (0x0B, K_SubscribeDone),
     (0x15, K_MaxSubscribeId), (0x1A, K_SubscribesBlocked), (0x0D, K_TrackStatus), (0x0E, K_TrackStatusOk),
     (0x0F, K_TrackStatusError), (0x10, K_GoAway), (0x11, K_SubscribeNamespace), (0x12, K_SubscribeNamespaceOk),
     (0x13, K_SubscribeNamespaceError), (0x14, K_UnsubscribeNamespace), (0x16, K_Fetch), (0x17, K_FetchCancel),
     (0x18, K_FetchOk), (0x19, K_FetchError), (0x1D, K_Publish), (0x1E, K_PublishOk), (0x1F, K_PublishError)]"

definition D16_DELTA :: "msg_class dict" where
  "D16_DELTA = [(0x02, K_RequestUpdate), (0x05, K_RequestError), (0x07, K_RequestOk), (0x08, K_Namespace), (0x0E, K_NamespaceDone)]"

fun dict_update :: "'v dict \<Rightarrow> 'v dict \<Rightarrow> 'v dict" where
  "dict_update d [] = d"
| "dict_update d ((k, v) # xs) = dict_update (dict_set d k v) xs"

definition D16_REGISTRY :: "msg_class dict" where
  "D16_REGISTRY = dict_update MOQT_CONTROL_MESSAGE_REGISTRY D16_DELTA"

definition D18_REGISTRY :: "msg_class dict" where
  "D18_REGISTRY =
    (let d = snd (dict_pop (snd (dict_pop D16_REGISTRY 0x20)) 0x21);
         d1 = snd (dict_pop (dict_set d 0x2F00 K_Setup18) 0x11)
     in dict_set (dict_set (dict_set d1 0x50 K_SubscribeNamespace) 0x51 K_SubscribeTracks) 0x0F K_PublishBlocked)"

definition D20_REGISTRY :: "msg_class dict" where
  "D20_REGISTRY = dict_set (dict_set D18_REGISTRY 0x2F00 K_Setup20) 0x22 K_PublishStateNotify"

text \<open>The tables before and after they are pruned to the types the draft defines.\<close>

definition raw_registry :: "msg_class dict dict" where
  "raw_registry = [(14, MOQT_CONTROL_MESSAGE_REGISTRY), (16, D16_REGISTRY), (18, D18_REGISTRY), (20, D20_REGISTRY), (22, D20_REGISTRY)]"

definition legal_types :: "int \<Rightarrow> int list" where
  "legal_types d = (case dict_get CONTROL_MESSAGE_TYPES d of None \<Rightarrow> [] | Some ts \<Rightarrow> ts)"

definition pruned :: "int \<Rightarrow> msg_class dict \<Rightarrow> msg_class dict" where
  "pruned d reg = filter (\<lambda>(k, _). k \<in> set (legal_types d)) reg"

definition CONTROL_REGISTRY :: "msg_class dict dict" where
  "CONTROL_REGISTRY = map (\<lambda>(d, reg). (d, pruned d reg)) raw_registry"

text \<open>The import-time assertion: no type of the draft is without an entry.\<close>

definition missing_types :: "int \<Rightarrow> msg_class dict \<Rightarrow> int list" where
  "missing_types d reg = filter (\<lambda>t. t \<notin> fst ` set (pruned d reg)) (legal_types d)"

definition get_control_entry :: "int \<Rightarrow> int \<Rightarrow> msg_class result" where
  "get_control_entry d t =
    (case dict_get CONTROL_REGISTRY d of
       None \<Rightarrow> Inl MOQTProtocolViolation
     | Some reg \<Rightarrow> (case dict_get reg t of None \<Rightarrow> Inl MOQTProtocolViolation | Some cls \<Rightarrow> Inr cls))"

definition INTERNAL_ERROR :: int where "INTERNAL_ERROR = 0x01"

definition assert_type_defined_by_draft :: "int \<Rightarrow> msg_class \<Rightarrow> unit result" where
  "assert_type_defined_by_draft d cls =
    (case dict_get CONTROL_MESSAGE_TYPES d of
       None \<Rightarrow> Inl (MOQTException INTERNAL_ERROR)
     | Some legal \<Rightarrow>
         bindR (wire_control_type d (class_type cls)) (\<lambda>t.
         if t \<in> set legal then Inr () else Inl (MOQTException INTERNAL_ERROR)))"

section \<open>Parsing one message\<close>

text \<open>
  From the header to the extent check: drafts with RFC 9000 integers first look the type up in
  \<^verbatim>\<open>MOQTMessageType\<close>. The position the reader is left at is compared with the Length in both directions.
\<close>

definition parse_control :: "vcodec \<Rightarrow> bool \<Rightarrow> int \<Rightarrow> DraftProfile \<Rightarrow> (control_msg \<times> nat) reader" where
  "parse_control C tol d prof =
    rbind (frame_header C prof) (\<lambda>(t, e).
    rbind (rguard (vi64 prof \<or> t \<in> snd ` set MOQTMessageType) MOQTProtocolViolation) (\<lambda>_.
    rbind (rlift (get_control_entry d t)) (\<lambda>cls.
    rbind (frame_body (control_deserialize C tol cls prof) e) (\<lambda>m. rret (m, e)))))"

section \<open>The classes as one codec\<close>

primrec control_payload :: "vcodec \<Rightarrow> DraftProfile \<Rightarrow> control_msg \<Rightarrow> bytes result" where
  "control_payload C prof (M_ClientSetup x) = ClientSetup_payload C prof x"
| "control_payload C prof (M_ServerSetup x) = ServerSetup_payload C prof x"
| "control_payload C prof (M_SubscribeUpdate x) = SubscribeUpdate_payload C prof x"
| "control_payload C prof (M_Subscribe x) = Subscribe_payload C prof x"
| "control_payload C prof (M_SubscribeOk x) = SubscribeOk_payload C prof x"
| "control_payload C prof (M_SubscribeError x) = error_payload C (vi64 prof) x"
| "control_payload C prof (M_PublishNamespace x) = PublishNamespace_payload C prof x"
| "control_payload C prof (M_PublishNamespaceOk x) = id_payload C (vi64 prof) x"
| "control_payload C prof (M_PublishNamespaceError x) = error_payload C (vi64 prof) x"
| "control_payload C prof (M_PublishNamespaceDone x) = PublishNamespaceDone_payload C prof x"
| "control_payload C prof (M_PublishNamespaceCancel x) = PublishNamespaceCancel_payload C prof x"
| "control_payload C prof (M_Unsubscribe x) = id_payload C (vi64 prof) x"
| "control_payload C prof (M_SubscribeDone x) = SubscribeDone_payload C prof x"
| "control_payload C prof (M_MaxSubscribeId x) = id_payload C (vi64 prof) x"
| "control_payload C prof (M_SubscribesBlocked x) = id_payload C (vi64 prof) x"
| "control_payload C prof (M_TrackStatus x) = TrackStatus_payload C prof x"
| "control_payload C prof (M_TrackStatusOk x) = TrackStatusOk_payload C prof x"
| "control_payload C prof (M_TrackStatusError x) = error_payload C (vi64 prof) x"
| "control_payload C prof (M_GoAway x) = GoAway_payload C prof x"
| "control_payload C prof (M_SubscribeNamespace x) = SubscribeNamespace_payload C prof x"
| "control_payload C prof (M_SubscribeNamespaceOk x) = id_payload C (vi64 prof) x"
| "control_payload C prof (M_SubscribeNamespaceError x) = error_payload C (vi64 prof) x"
| "control_payload C prof (M_UnsubscribeNamespace x) = tuple_payload C prof x"
| "control_payload C prof (M_Fetch x) = Fetch_payload C prof x"
| "control_payload C prof (M_FetchCancel x) = id_payload C False x"
| "control_payload C prof (M_FetchOk x) = FetchOk_payload C prof x"
| "control_payload C prof (M_FetchError x) = error_payload C False x"
| "control_payload C prof (M_Publish x) = Publish_payload C prof x"
| "control_payload C prof (M_PublishOk x) = PublishOk_payload C prof x"
| "control_payload C prof (M_PublishError x) = error_payload C (vi64 prof) x"
| "control_payload C prof (M_RequestUpdate x) = RequestUpdate_payload C prof x"
| "control_payload C prof (M_RequestError x) = RequestError_payload C prof x"
| "control_payload C prof (M_RequestOk x) = RequestOk_payload C prof x"
| "control_payload C prof (M_Namespace x) = tuple_payload C prof x"
| "control_payload C prof (M_NamespaceDone x) = tuple_payload C prof x"
| "control_payload C prof (M_Setup18 x) = Setup18_payload C prof x"
| "control_payload C prof (M_Setup20 x) = Setup20_payload C prof x"
| "control_payload C prof (M_SubscribeTracks x) = SubscribeTracks_payload C prof x"
| "control_payload C prof (M_PublishBlocked x) = PublishBlocked_payload C prof x"
| "control_payload C prof (M_PublishStateNotify x) = PublishStateNotify_payload C prof x"

primrec control_ok :: "vcodec \<Rightarrow> bool \<Rightarrow> DraftProfile \<Rightarrow> control_msg \<Rightarrow> bool" where
  "control_ok C tol prof (M_ClientSetup x) = ClientSetup_ok C prof x"
| "control_ok C tol prof (M_ServerSetup x) = ServerSetup_ok C prof x"
| "control_ok C tol prof (M_SubscribeUpdate x) = SubscribeUpdate_ok C prof x"
| "control_ok C tol prof (M_Subscribe x) = Subscribe_ok C prof x"
| "control_ok C tol prof (M_SubscribeOk x) = SubscribeOk_ok C tol prof x"
| "control_ok C tol prof (M_SubscribeError x) = reason_ok (er_reason x)"
| "control_ok C tol prof (M_PublishNamespace x) = PublishNamespace_ok C prof x"
| "control_ok C tol prof (M_PublishNamespaceOk x) = True"
| "control_ok C tol prof (M_PublishNamespaceError x) = reason_ok (er_reason x)"
| "control_ok C tol prof (M_PublishNamespaceDone x) = PublishNamespaceDone_ok prof x"
| "control_ok C tol prof (M_PublishNamespaceCancel x) = PublishNamespaceCancel_ok prof x"
| "control_ok C tol prof (M_Unsubscribe x) = True"
| "control_ok C tol prof (M_SubscribeDone x) = SubscribeDone_ok prof x"
| "control_ok C tol prof (M_MaxSubscribeId x) = True"
| "control_ok C tol prof (M_SubscribesBlocked x) = True"
| "control_ok C tol prof (M_TrackStatus x) = TrackStatus_ok C prof x"
| "control_ok C tol prof (M_TrackStatusOk x) = TrackStatusOk_ok C prof x"
| "control_ok C tol prof (M_TrackStatusError x) = reason_ok (er_reason x)"
| "control_ok C tol prof (M_GoAway x) = True"
| "control_ok C tol prof (M_SubscribeNamespace x) = SubscribeNamespace_ok C prof x"
| "control_ok C tol prof (M_SubscribeNamespaceOk x) = True"
| "control_ok C tol prof (M_SubscribeNamespaceError x) = reason_ok (er_reason x)"
| "control_ok C tol prof (M_UnsubscribeNamespace x) = ns_ok prof x"
| "control_ok C tol prof (M_Fetch x) = Fetch_ok C prof x"
| "control_ok C tol prof (M_FetchCancel x) = (\<not> vi64 prof)"
| "control_ok C tol prof (M_FetchOk x) = FetchOk_ok C tol prof x"
| "control_ok C tol prof (M_FetchError x) = (\<not> vi64 prof \<and> reason_ok (er_reason x))"
| "control_ok C tol prof (M_Publish x) = Publish_ok C tol prof x"
| "control_ok C tol prof (M_PublishOk x) = PublishOk_ok C prof x"
| "control_ok C tol prof (M_PublishError x) = reason_ok (er_reason x)"
| "control_ok C tol prof (M_RequestUpdate x) = RequestUpdate_ok C prof x"
| "control_ok C tol prof (M_RequestError x) = RequestError_ok prof x"
| "control_ok C tol prof (M_RequestOk x) = RequestOk_ok C tol prof x"
| "control_ok C tol prof (M_Namespace x) = ns_ok prof x"
| "control_ok C tol prof (M_NamespaceDone x) = ns_ok prof x"
| "control_ok C tol prof (M_Setup18 x) = Setup18_ok C prof x"
| "control_ok C tol prof (M_Setup20 x) = Setup20_ok C prof x"
| "control_ok C tol prof (M_SubscribeTracks x) = SubscribeTracks_ok C prof x"
| "control_ok C tol prof (M_PublishBlocked x) = PublishBlocked_ok prof x"
| "control_ok C tol prof (M_PublishStateNotify x) = PublishStateNotify_ok C prof x"

primrec control_received :: "DraftProfile \<Rightarrow> control_msg \<Rightarrow> control_msg" where
  "control_received prof (M_ClientSetup x) = M_ClientSetup (ClientSetup_received prof x)"
| "control_received prof (M_ServerSetup x) = M_ServerSetup (ServerSetup_received prof x)"
| "control_received prof (M_SubscribeUpdate x) = M_SubscribeUpdate (SubscribeUpdate_received prof x)"
| "control_received prof (M_Subscribe x) = M_Subscribe (Subscribe_received prof x)"
| "control_received prof (M_SubscribeOk x) = M_SubscribeOk (SubscribeOk_received prof x)"
| "control_received prof (M_SubscribeError x) = M_SubscribeError x"
| "control_received prof (M_PublishNamespace x) = M_PublishNamespace (PublishNamespace_received prof x)"
| "control_received prof (M_PublishNamespaceOk x) = M_PublishNamespaceOk x"
| "control_received prof (M_PublishNamespaceError x) = M_PublishNamespaceError x"
| "control_received prof (M_PublishNamespaceDone x) = M_PublishNamespaceDone (PublishNamespaceDone_received prof x)"
| "control_received prof (M_PublishNamespaceCancel x) = M_PublishNamespaceCancel (PublishNamespaceCancel_received prof x)"
| "control_received prof (M_Unsubscribe x) = M_Unsubscribe x"
| "control_received prof (M_SubscribeDone x) = M_SubscribeDone (SubscribeDone_received prof x)"
| "control_received prof (M_MaxSubscribeId x) = M_MaxSubscribeId x"
| "control_received prof (M_SubscribesBlocked x) = M_SubscribesBlocked x"
| "control_received prof (M_TrackStatus x) = M_TrackStatus (TrackStatus_received prof x)"
| "control_received prof (M_TrackStatusOk x) = M_TrackStatusOk (TrackStatusOk_received prof x)"
| "control_received prof (M_TrackStatusError x) = M_TrackStatusError x"
| "control_received prof (M_GoAway x) = M_GoAway (GoAway_received prof x)"
| "control_received prof (M_SubscribeNamespace x) = M_SubscribeNamespace (SubscribeNamespace_received prof x)"
| "control_received prof (M_SubscribeNamespaceOk x) = M_SubscribeNamespaceOk x"
| "control_received prof (M_SubscribeNamespaceError x) = M_SubscribeNamespaceError x"
| "control_received prof (M_UnsubscribeNamespace x) = M_UnsubscribeNamespace x"
| "control_received prof (M_Fetch x) = M_Fetch (Fetch_received prof x)"
| "control_received prof (M_FetchCancel x) = M_FetchCancel x"
| "control_received prof (M_FetchOk x) = M_FetchOk (FetchOk_received prof x)"
| "control_received prof (M_FetchError x) = M_FetchError x"
| "control_received prof (M_Publish x) = M_Publish (Publish_received prof x)"
| "control_received prof (M_PublishOk x) = M_PublishOk (PublishOk_received prof x)"
| "control_received prof (M_PublishError x) = M_PublishError x"
| "control_received prof (M_RequestUpdate x) = M_RequestUpdate (RequestUpdate_received prof x)"
| "control_received prof (M_RequestError x) = M_RequestError (RequestError_received prof x)"
| "control_received prof (M_RequestOk x) = M_RequestOk (RequestOk_received prof x)"
| "control_received prof (M_Namespace x) = M_Namespace x"
| "control_received prof (M_NamespaceDone x) = M_NamespaceDone x"
| "control_received prof (M_Setup18 x) = M_Setup18 (Setup18_received prof x)"
| "control_received prof (M_Setup20 x) = M_Setup20 (Setup20_received prof x)"
| "control_received prof (M_SubscribeTracks x) = M_SubscribeTracks (SubscribeTracks_received prof x)"
| "control_received prof (M_PublishBlocked x) = M_PublishBlocked x"
| "control_received prof (M_PublishStateNotify x) = M_PublishStateNotify (PublishStateNotify_received prof x)"

text \<open>The Type a class writes at a draft.\<close>

definition wire_type :: "DraftProfile \<Rightarrow> msg_class \<Rightarrow> int" where
  "wire_type prof cls =
    (if cls = K_PublishOk then (case PublishOk_type prof of Inr t \<Rightarrow> t | Inl _ \<Rightarrow> 0)
     else if cls = K_SubscribeNamespace then (case wire_control_type (draft prof) 0x11 of Inr t \<Rightarrow> t | Inl _ \<Rightarrow> 0)
     else class_type cls)"

context vcodec_laws
begin

lemma reads_to_mapped: "reads_to f r bs v \<Longrightarrow> reads_to f (mapped g r) bs (g v)"
  unfolding mapped_def [abs_def] by (erule reads_to_bind_last) (rule reads_ret)

lemma control_reads:
  assumes "control_payload C prof m = Inr p" "control_ok C tol prof m"
  shows "reads_to (vi64 prof) (control_deserialize C tol (class_of m) prof) p (control_received prof m)"
proof (cases m)
  case (M_ClientSetup x)
  then show ?thesis using assms by (auto intro!: reads_to_mapped ClientSetup_reads)
next
  case (M_ServerSetup x)
  then show ?thesis using assms by (auto intro!: reads_to_mapped ServerSetup_reads)
next
  case (M_SubscribeUpdate x)
  then show ?thesis using assms by (auto intro!: reads_to_mapped SubscribeUpdate_reads)
next
  case (M_Subscribe x)
  then show ?thesis using assms by (auto intro!: reads_to_mapped Subscribe_reads)
next
  case (M_SubscribeOk x)
  then show ?thesis using assms by (auto intro!: reads_to_mapped SubscribeOk_reads)
next
  case (M_SubscribeError x)
  then show ?thesis using assms reads_to_mapped [OF error_reads, of _ x p prof M_SubscribeError] by (auto simp: SubscribeError_deserialize_def [abs_def] ErrorReply_ok_def)
next
  case (M_PublishNamespace x)
  then show ?thesis using assms by (auto intro!: reads_to_mapped PublishNamespace_reads)
next
  case (M_PublishNamespaceOk x)
  then show ?thesis using assms reads_to_mapped [OF id_reads, of _ x p prof M_PublishNamespaceOk] by (auto simp: PublishNamespaceOk_deserialize_def [abs_def])
next
  case (M_PublishNamespaceError x)
  then show ?thesis using assms reads_to_mapped [OF error_reads, of _ x p prof M_PublishNamespaceError] by (auto simp: PublishNamespaceError_deserialize_def [abs_def] ErrorReply_ok_def)
next
  case (M_PublishNamespaceDone x)
  then show ?thesis using assms by (auto intro!: reads_to_mapped PublishNamespaceDone_reads)
next
  case (M_PublishNamespaceCancel x)
  then show ?thesis using assms by (auto intro!: reads_to_mapped PublishNamespaceCancel_reads)
next
  case (M_Unsubscribe x)
  then show ?thesis using assms reads_to_mapped [OF id_reads, of _ x p prof M_Unsubscribe] by (auto simp: Unsubscribe_deserialize_def [abs_def])
next
  case (M_SubscribeDone x)
  then show ?thesis using assms by (auto intro!: reads_to_mapped SubscribeDone_reads)
next
  case (M_MaxSubscribeId x)
  then show ?thesis using assms reads_to_mapped [OF id_reads, of _ x p prof M_MaxSubscribeId] by (auto simp: MaxSubscribeId_deserialize_def [abs_def])
next
  case (M_SubscribesBlocked x)
  then show ?thesis using assms reads_to_mapped [OF id_reads, of _ x p prof M_SubscribesBlocked] by (auto simp: SubscribesBlocked_deserialize_def [abs_def])
next
  case (M_TrackStatus x)
  then show ?thesis using assms by (auto intro!: reads_to_mapped TrackStatus_reads)
next
  case (M_TrackStatusOk x)
  then show ?thesis using assms by (auto intro!: reads_to_mapped TrackStatusOk_reads)
next
  case (M_TrackStatusError x)
  then show ?thesis using assms reads_to_mapped [OF error_reads, of _ x p prof M_TrackStatusError] by (auto simp: TrackStatusError_deserialize_def [abs_def] ErrorReply_ok_def)
next
  case (M_GoAway x)
  then show ?thesis using assms by (auto intro!: reads_to_mapped GoAway_reads)
next
  case (M_SubscribeNamespace x)
  then show ?thesis using assms by (auto intro!: reads_to_mapped SubscribeNamespace_reads)
next
  case (M_SubscribeNamespaceOk x)
  then show ?thesis using assms reads_to_mapped [OF id_reads, of _ x p prof M_SubscribeNamespaceOk] by (auto simp: SubscribeNamespaceOk_deserialize_def [abs_def])
next
  case (M_SubscribeNamespaceError x)
  then show ?thesis using assms reads_to_mapped [OF error_reads, of _ x p prof M_SubscribeNamespaceError] by (auto simp: SubscribeNamespaceError_deserialize_def [abs_def] ErrorReply_ok_def)
next
  case (M_UnsubscribeNamespace x)
  then show ?thesis using assms reads_to_mapped [OF tuple_payload_reads, of prof x p M_UnsubscribeNamespace] by (auto simp: UnsubscribeNamespace_deserialize_def [abs_def])
next
  case (M_Fetch x)
  then show ?thesis using assms by (auto intro!: reads_to_mapped Fetch_reads)
next
  case (M_FetchCancel x)
  then show ?thesis using assms reads_to_mapped [OF id_reads, of _ x p prof M_FetchCancel] by (auto simp: FetchCancel_deserialize_def [abs_def])
next
  case (M_FetchOk x)
  then show ?thesis using assms by (auto intro!: reads_to_mapped FetchOk_reads)
next
  case (M_FetchError x)
  then show ?thesis using assms reads_to_mapped [OF error_reads, of _ x p prof M_FetchError] by (auto simp: FetchError_deserialize_def [abs_def] ErrorReply_ok_def)
next
  case (M_Publish x)
  then show ?thesis using assms by (auto intro!: reads_to_mapped Publish_reads)
next
  case (M_PublishOk x)
  then show ?thesis using assms by (auto intro!: reads_to_mapped PublishOk_reads)
next
  case (M_PublishError x)
  then show ?thesis using assms reads_to_mapped [OF error_reads, of _ x p prof M_PublishError] by (auto simp: PublishError_deserialize_def [abs_def] ErrorReply_ok_def)
next
  case (M_RequestUpdate x)
  then show ?thesis using assms by (auto intro!: reads_to_mapped RequestUpdate_reads)
next
  case (M_RequestError x)
  then show ?thesis using assms by (auto intro!: reads_to_mapped RequestError_reads)
next
  case (M_RequestOk x)
  then show ?thesis using assms by (auto intro!: reads_to_mapped RequestOk_reads)
next
  case (M_Namespace x)
  then show ?thesis using assms reads_to_mapped [OF tuple_payload_reads, of prof x p M_Namespace] by (auto simp: Namespace_deserialize_def [abs_def])
next
  case (M_NamespaceDone x)
  then show ?thesis using assms reads_to_mapped [OF tuple_payload_reads, of prof x p M_NamespaceDone] by (auto simp: NamespaceDone_deserialize_def [abs_def])
next
  case (M_Setup18 x)
  then show ?thesis using assms by (auto intro!: reads_to_mapped Setup18_reads)
next
  case (M_Setup20 x)
  then show ?thesis using assms by (auto intro!: reads_to_mapped Setup20_reads)
next
  case (M_SubscribeTracks x)
  then show ?thesis using assms by (auto intro!: reads_to_mapped SubscribeTracks_reads)
next
  case (M_PublishBlocked x)
  then show ?thesis using assms by (auto intro!: reads_to_mapped PublishBlocked_reads)
next
  case (M_PublishStateNotify x)
  then show ?thesis using assms by (auto intro!: reads_to_mapped PublishStateNotify_reads)
qed

end

lemma draft_types:
  assumes "draft prof \<in> {14, 16, 18, 20, 22}"
  shows "\<exists>t. wire_control_type (draft prof) 0x11 = Inr t"
  using assms by (auto simp: wire_control_type_def dict_get_def WIRE_TYPE_BY_DRAFT_def)

lemma PublishOk_type_cases:
  assumes "draft prof \<in> {14, 16, 18, 20, 22}"
  shows "PublishOk_type prof = Inr 0x07 \<or> PublishOk_type prof = Inr 0x1E"
  using assms by (auto simp: PublishOk_type_def wire_control_type_def dict_get_def WIRE_TYPE_BY_DRAFT_def D18_RENUMBERED_def)

context vcodec_laws
begin

lemma frame_small:
  "frame C (push_uint_var C t) payload = Inr bs \<Longrightarrow> 0 \<le> t \<Longrightarrow> t < 64 \<Longrightarrow> \<exists>p. payload = Inr p \<and> framed C prof t p bs"
  by (metis frame_framed type_small)

lemma frame_vint:
  "frame C (push_vint C (vi64 prof) t) payload = Inr bs \<Longrightarrow> \<exists>p. payload = Inr p \<and> framed C prof t p bs"
  by (metis frame_framed reads_vint)

lemma frame_false:
  "frame C (push_vint C False t) payload = Inr bs \<Longrightarrow> 0 \<le> t \<Longrightarrow> t < 64 \<Longrightarrow> \<exists>p. payload = Inr p \<and> framed C prof t p bs"
  using frame_small by (simp add: push_vint_def push_uint_var_def)

lemma control_framed:
  assumes "control_serialize C prof m = Inr bs" "class_of m = K_Setup18 \<longrightarrow> vi64 prof" "draft prof \<in> {14, 16, 18, 20, 22}"
  shows "\<exists>p. control_payload C prof m = Inr p \<and> framed C prof (wire_type prof (class_of m)) p bs"
proof (cases m)
  case (M_ClientSetup x)
  then show ?thesis using assms by (auto simp: ClientSetup_serialize_def wire_type_def dest!: frame_small [where prof = prof])
next
  case (M_ServerSetup x)
  then show ?thesis using assms by (auto simp: ServerSetup_serialize_def wire_type_def dest!: frame_small [where prof = prof])
next
  case (M_SubscribeUpdate x)
  then show ?thesis using assms by (auto simp: SubscribeUpdate_serialize_def wire_type_def dest!: frame_small [where prof = prof])
next
  case (M_Subscribe x)
  then show ?thesis using assms by (auto simp: Subscribe_serialize_def wire_type_def dest!: frame_small [where prof = prof])
next
  case (M_SubscribeOk x)
  then show ?thesis using assms by (auto simp: SubscribeOk_serialize_def wire_type_def dest!: frame_small [where prof = prof])
next
  case (M_SubscribeError x)
  then show ?thesis using assms by (auto simp: SubscribeError_serialize_def wire_type_def dest!: frame_small [where prof = prof])
next
  case (M_PublishNamespace x)
  then show ?thesis using assms by (auto simp: PublishNamespace_serialize_def wire_type_def dest!: frame_small [where prof = prof])
next
  case (M_PublishNamespaceOk x)
  then show ?thesis using assms by (auto simp: PublishNamespaceOk_serialize_def wire_type_def dest!: frame_small [where prof = prof])
next
  case (M_PublishNamespaceError x)
  then show ?thesis using assms by (auto simp: PublishNamespaceError_serialize_def wire_type_def dest!: frame_small [where prof = prof])
next
  case (M_PublishNamespaceDone x)
  then show ?thesis using assms by (auto simp: PublishNamespaceDone_serialize_def wire_type_def dest!: frame_small [where prof = prof])
next
  case (M_PublishNamespaceCancel x)
  then show ?thesis using assms by (auto simp: PublishNamespaceCancel_serialize_def wire_type_def dest!: frame_small [where prof = prof])
next
  case (M_Unsubscribe x)
  then show ?thesis using assms by (auto simp: Unsubscribe_serialize_def wire_type_def dest!: frame_small [where prof = prof])
next
  case (M_SubscribeDone x)
  then show ?thesis using assms by (auto simp: SubscribeDone_serialize_def wire_type_def dest!: frame_small [where prof = prof])
next
  case (M_MaxSubscribeId x)
  then show ?thesis using assms by (auto simp: MaxSubscribeId_serialize_def wire_type_def dest!: frame_small [where prof = prof])
next
  case (M_SubscribesBlocked x)
  then show ?thesis using assms by (auto simp: SubscribesBlocked_serialize_def wire_type_def dest!: frame_small [where prof = prof])
next
  case (M_TrackStatus x)
  then show ?thesis using assms by (auto simp: TrackStatus_serialize_def wire_type_def dest!: frame_small [where prof = prof])
next
  case (M_TrackStatusOk x)
  then show ?thesis using assms by (auto simp: TrackStatusOk_serialize_def wire_type_def dest!: frame_small [where prof = prof])
next
  case (M_TrackStatusError x)
  then show ?thesis using assms by (auto simp: TrackStatusError_serialize_def wire_type_def dest!: frame_small [where prof = prof])
next
  case (M_GoAway x)
  then show ?thesis using assms by (auto simp: GoAway_serialize_def wire_type_def dest!: frame_vint [where prof = prof])
next
  case (M_SubscribeNamespaceOk x)
  then show ?thesis using assms by (auto simp: SubscribeNamespaceOk_serialize_def wire_type_def dest!: frame_small [where prof = prof])
next
  case (M_SubscribeNamespaceError x)
  then show ?thesis using assms by (auto simp: SubscribeNamespaceError_serialize_def wire_type_def dest!: frame_small [where prof = prof])
next
  case (M_UnsubscribeNamespace x)
  then show ?thesis using assms by (auto simp: UnsubscribeNamespace_serialize_def wire_type_def dest!: frame_small [where prof = prof])
next
  case (M_Fetch x)
  then show ?thesis using assms by (auto simp: Fetch_serialize_def wire_type_def dest!: frame_vint [where prof = prof])
next
  case (M_FetchCancel x)
  then show ?thesis using assms by (auto simp: FetchCancel_serialize_def wire_type_def dest!: frame_false [where prof = prof])
next
  case (M_FetchOk x)
  then show ?thesis using assms by (auto simp: FetchOk_serialize_def wire_type_def dest!: frame_vint [where prof = prof])
next
  case (M_FetchError x)
  then show ?thesis using assms by (auto simp: FetchError_serialize_def wire_type_def dest!: frame_false [where prof = prof])
next
  case (M_Publish x)
  then show ?thesis using assms by (auto simp: Publish_serialize_def wire_type_def dest!: frame_small [where prof = prof])
next
  case (M_PublishError x)
  then show ?thesis using assms by (auto simp: PublishError_serialize_def wire_type_def dest!: frame_small [where prof = prof])
next
  case (M_RequestUpdate x)
  then show ?thesis using assms by (auto simp: RequestUpdate_serialize_def wire_type_def dest!: frame_small [where prof = prof])
next
  case (M_RequestError x)
  then show ?thesis using assms by (auto simp: RequestError_serialize_def wire_type_def dest!: frame_small [where prof = prof])
next
  case (M_RequestOk x)
  then show ?thesis using assms by (auto simp: RequestOk_serialize_def wire_type_def dest!: frame_small [where prof = prof])
next
  case (M_Namespace x)
  then show ?thesis using assms by (auto simp: Namespace_serialize_def wire_type_def dest!: frame_small [where prof = prof])
next
  case (M_NamespaceDone x)
  then show ?thesis using assms by (auto simp: NamespaceDone_serialize_def wire_type_def dest!: frame_small [where prof = prof])
next
  case (M_SubscribeTracks x)
  then show ?thesis using assms by (auto simp: SubscribeTracks_serialize_def wire_type_def dest!: frame_vint [where prof = prof])
next
  case (M_PublishBlocked x)
  then show ?thesis using assms by (auto simp: PublishBlocked_serialize_def wire_type_def dest!: frame_vint [where prof = prof])
next
  case (M_PublishStateNotify x)
  then show ?thesis using assms by (auto simp: PublishStateNotify_serialize_def wire_type_def dest!: frame_vint [where prof = prof])
next
  case (M_Setup18 x)
  then have "vi64 prof" using assms(2) by simp
  then show ?thesis using assms(1) M_Setup18 frame_vint [of prof "0x2F00"]
    by (auto simp: Setup18_serialize_def wire_type_def push_vint_def push_uint_vi64_def)
next
  case (M_Setup20 x)
  then show ?thesis using assms(1)
    by (auto simp: Setup20_serialize_def wire_type_def bindR_eq_Inr in_buffer_eq wseq_Cons_eq wseq_Nil_eq push_bytes_eq framed_def intro: reads_vint)
next
  case (M_SubscribeNamespace x)
  obtain t where t: "wire_control_type (draft prof) 0x11 = Inr t" using draft_types [OF assms(3)] by blast
  show ?thesis using assms(1) M_SubscribeNamespace
    by (auto simp: SubscribeNamespace_serialize_def wire_type_def t bindR_def dest!: frame_vint)
next
  case (M_PublishOk x)
  then show ?thesis using assms(1) PublishOk_type_cases [OF assms(3)]
    by (auto simp: PublishOk_serialize_def wire_type_def dest!: frame_small [where prof = prof])
qed

end
section \<open>The tables are complete and consistent\<close>

definition DRAFTS :: "int list" where "DRAFTS = [14, 16, 18, 20, 22]"

lemma drafts_tables: "dict_get CONTROL_MESSAGE_TYPES d = Some legal \<Longrightarrow> d \<in> set DRAFTS"
  by (auto simp: CONTROL_MESSAGE_TYPES_def dict_get_def DRAFTS_def split: if_splits)

lemma drafts_registry: "map fst CONTROL_REGISTRY = DRAFTS"
  by code_simp

lemma registries_complete:
  "list_all (\<lambda>d. case dict_get raw_registry d of None \<Rightarrow> False
     | Some reg \<Rightarrow> dict_ok reg \<and> missing_types d reg = [] \<and> dict_get CONTROL_REGISTRY d = Some (pruned d reg)) DRAFTS"
  by code_simp

lemma registry_at:
  assumes "d \<in> set DRAFTS"
  obtains reg where "dict_get raw_registry d = Some reg" "missing_types d reg = []" "dict_get CONTROL_REGISTRY d = Some (pruned d reg)"
  using registries_complete assms by (fastforce simp: list_all_iff split: option.splits)

lemma entry_iff_legal:
  assumes "d \<in> set DRAFTS"
  shows "(\<exists>cls. get_control_entry d t = Inr cls) \<longleftrightarrow> t \<in> set (legal_types d)"
proof -
  obtain reg where r: "missing_types d reg = []" "dict_get CONTROL_REGISTRY d = Some (pruned d reg)" using registry_at [OF assms] by metis
  have "dict_get (pruned d reg) t \<noteq> None \<longleftrightarrow> t \<in> fst ` set (pruned d reg)" by (simp add: dict_get_def map_of_eq_None_iff)
  also have "\<dots> \<longleftrightarrow> t \<in> set (legal_types d)" using r(1) by (auto simp: missing_types_def filter_empty_conv pruned_def)
  finally show ?thesis using r(2) by (auto simp: get_control_entry_def split: option.splits)
qed

text \<open>
  C34: every draft's dispatch table has an entry for exactly the control message types that draft defines, the
  import-time assertion holds for each of them, and any other type, or a draft without a table, is a protocol
  violation.
\<close>

theorem registry_complete:
  "(\<forall>(d, reg) \<in> set raw_registry. missing_types d reg = [] \<and> dict_get CONTROL_REGISTRY d = Some (pruned d reg))
   \<and> (\<forall>d t. get_control_entry d t = Inl MOQTProtocolViolation \<or> (\<exists>cls. get_control_entry d t = Inr cls))
   \<and> (\<forall>d t. (\<exists>cls. get_control_entry d t = Inr cls) \<longleftrightarrow> (\<exists>legal. dict_get CONTROL_MESSAGE_TYPES d = Some legal \<and> t \<in> set legal))"
proof (intro conjI allI)
  have "list_all (\<lambda>(d, reg). missing_types d reg = [] \<and> dict_get CONTROL_REGISTRY d = Some (pruned d reg)) raw_registry" by code_simp
  then show "\<forall>(d, reg) \<in> set raw_registry. missing_types d reg = [] \<and> dict_get CONTROL_REGISTRY d = Some (pruned d reg)"
    by (simp add: list_all_iff)
next
  fix d t
  show "get_control_entry d t = Inl MOQTProtocolViolation \<or> (\<exists>cls. get_control_entry d t = Inr cls)"
    by (auto simp: get_control_entry_def split: option.splits)
next
  fix d t
  show "(\<exists>cls. get_control_entry d t = Inr cls) \<longleftrightarrow> (\<exists>legal. dict_get CONTROL_MESSAGE_TYPES d = Some legal \<and> t \<in> set legal)"
  proof (cases "d \<in> set DRAFTS")
    case True
    then show ?thesis using entry_iff_legal [OF True, of t] by (cases "dict_get CONTROL_MESSAGE_TYPES d") (simp_all add: legal_types_def)
  next
    case False
    then have "dict_get CONTROL_MESSAGE_TYPES d = None" using drafts_tables [of d] by (cases "dict_get CONTROL_MESSAGE_TYPES d") auto
    moreover have "dict_get CONTROL_REGISTRY d = None"
      using False arg_cong [OF drafts_registry, of set] by (simp add: dict_get_def map_of_eq_None_iff)
    ultimately show ?thesis by (simp add: get_control_entry_def)
  qed
qed

theorem registry_complete_witness:
  "get_control_entry 18 0x11 = Inl MOQTProtocolViolation \<and> (\<exists>cls. get_control_entry 18 0x50 = Inr cls)"
proof -
  have l: "dict_get CONTROL_MESSAGE_TYPES 18 = Some (legal_types 18)" "0x11 \<notin> set (legal_types 18)" "0x50 \<in> set (legal_types 18)"
    by code_simp+
  note r = registry_complete [THEN conjunct2]
  show ?thesis using r [THEN conjunct1, rule_format, of 18 "0x11"] r [THEN conjunct2, rule_format, of 18 "0x11"]
      r [THEN conjunct2, rule_format, of 18 "0x50"] l by auto
qed

text \<open>
  C35: the guard of the sending side and the dispatcher of the receiving side agree: at every draft a message
  class may be sent exactly when the receiver has an entry for the type it is sent under, and what is refused
  closes nothing but is an internal error of the sender.
\<close>

theorem tx_guard_matches_dispatch:
  assumes "profile_for d = Inr prof" "draft prof = d"
  shows "(assert_type_defined_by_draft d cls = Inr () \<longleftrightarrow> (\<exists>cls'. get_control_entry d (wire_type prof cls) = Inr cls'))
    \<and> (assert_type_defined_by_draft d cls = Inr () \<or> assert_type_defined_by_draft d cls = Inl (MOQTException INTERNAL_ERROR))"
proof -
  have d: "d \<in> set DRAFTS" using assms by (auto elim!: profile_for_cases simp: profile_defs DRAFTS_def)
  then obtain legal where l: "dict_get CONTROL_MESSAGE_TYPES d = Some legal" by (auto simp: DRAFTS_def CONTROL_MESSAGE_TYPES_def dict_get_def)
  have t: "wire_control_type d (class_type cls) = Inr (wire_type prof cls)"
  proof -
    have "wire_control_type d ty = Inr ty" if "ty \<noteq> 0x11" "ty \<noteq> 0x1E" for ty
      using d that by (auto simp: DRAFTS_def wire_control_type_def dict_get_def WIRE_TYPE_BY_DRAFT_def D18_RENUMBERED_def)
    moreover have "wire_control_type d 0x1E = PublishOk_type prof" "\<exists>t. wire_control_type d 0x11 = Inr t" "\<exists>t. PublishOk_type prof = Inr t"
      using assms by (auto elim!: profile_for_cases simp: profile_defs PublishOk_type_def wire_control_type_def dict_get_def
          WIRE_TYPE_BY_DRAFT_def D18_RENUMBERED_def)
    ultimately show ?thesis using assms(2) by (cases cls) (auto simp: wire_type_def)
  qed
  show ?thesis using entry_iff_legal [OF d, of "wire_type prof cls"] l t
    by (auto simp: assert_type_defined_by_draft_def legal_types_def)
qed

theorem tx_guard_matches_dispatch_witness:
  "profile_for 18 = Inr PROFILE_D18 \<and> assert_type_defined_by_draft 18 K_Unsubscribe = Inl (MOQTException INTERNAL_ERROR)
   \<and> \<not> (\<exists>cls'. get_control_entry 18 (wire_type PROFILE_D18 K_Unsubscribe) = Inr cls')"
proof -
  have 1: "profile_for 18 = Inr PROFILE_D18" by code_simp
  have 2: "assert_type_defined_by_draft 18 K_Unsubscribe \<noteq> Inr ()" by code_simp
  show ?thesis using tx_guard_matches_dispatch [OF 1, of K_Unsubscribe] 1 2 by (auto simp: profile_defs)
qed
section \<open>A message is dispatched to the class that wrote it\<close>

lemma control_message_codec:
  "vcodec_laws C \<Longrightarrow> message_codec C (control_payload C) class_of (control_deserialize C tol) (control_ok C tol) control_received"
  by (simp add: message_codec_def message_codec_axioms_def vcodec_laws.control_reads)

interpretation std_control: message_codec std_codec "control_payload std_codec" class_of "control_deserialize std_codec True"
  "control_ok std_codec True" control_received
  by (rule control_message_codec) (rule std.vcodec_laws_axioms)

text \<open>
  The message classes of each draft, as its specification lists them: the replies of draft 14 give way to the
  REQUEST messages in draft 16, and what the control stream carried moves to request streams in draft 18.
  PUBLISH_OK is a message of its own only before draft 18: from there it is sent as a REQUEST_OK.
\<close>

definition draft_classes :: "int \<Rightarrow> msg_class list" where
  "draft_classes d =
    (let requests = [K_Subscribe, K_SubscribeOk, K_PublishNamespace, K_SubscribeDone, K_TrackStatus, K_GoAway,
           K_SubscribeNamespace, K_Fetch, K_FetchOk, K_Publish];
         bidi = [K_ClientSetup, K_ServerSetup, K_PublishNamespaceDone, K_PublishNamespaceCancel, K_Unsubscribe,
           K_MaxSubscribeId, K_SubscribesBlocked, K_FetchCancel, K_PublishOk];
         replies14 = [K_SubscribeUpdate, K_SubscribeError, K_PublishNamespaceOk, K_PublishNamespaceError, K_TrackStatusOk,
           K_TrackStatusError, K_SubscribeNamespaceOk, K_SubscribeNamespaceError, K_UnsubscribeNamespace, K_FetchError,
           K_PublishError];
         replies16 = [K_RequestUpdate, K_RequestError, K_RequestOk, K_Namespace, K_NamespaceDone];
         added18 = [K_SubscribeTracks, K_PublishBlocked]
     in if d = 14 then requests @ bidi @ replies14
        else if d = 16 then requests @ bidi @ replies16
        else if d = 18 then requests @ replies16 @ added18 @ [K_Setup18]
        else if d \<in> {20, 22} then requests @ replies16 @ added18 @ [K_Setup20, K_PublishStateNotify]
        else [])"

definition defined_at :: "int \<Rightarrow> msg_class \<Rightarrow> bool" where
  "defined_at d cls \<longleftrightarrow> cls \<in> set (draft_classes d)"

definition class_check :: "int \<Rightarrow> DraftProfile \<Rightarrow> bool" where
  "class_check d prof = list_all (\<lambda>cls. get_control_entry d (wire_type prof cls) = Inr cls
      \<and> (vi64 prof \<or> wire_type prof cls \<in> set (map snd MOQTMessageType)) \<and> (cls = K_Setup18 \<longrightarrow> vi64 prof)) (draft_classes d)"

lemma class_entries:
  "class_check 14 PROFILE_D14" "class_check 16 PROFILE_D16" "class_check 18 PROFILE_D18" "class_check 20 PROFILE_D20"
  "class_check 22 PROFILE_D22"
  by code_simp+

lemma defined_entry:
  assumes "profile_for d = Inr prof" "draft prof = d" "defined_at d cls"
  shows "get_control_entry d (wire_type prof cls) = Inr cls" "vi64 prof \<or> wire_type prof cls \<in> snd ` set MOQTMessageType"
    "cls = K_Setup18 \<longrightarrow> vi64 prof" "draft prof \<in> {14, 16, 18, 20, 22}"
proof -
  have "class_check d prof"
    using assms(1,2) class_entries by (auto elim!: profile_for_cases simp: profile_defs)
  then show "get_control_entry d (wire_type prof cls) = Inr cls" "vi64 prof \<or> wire_type prof cls \<in> snd ` set MOQTMessageType"
    "cls = K_Setup18 \<longrightarrow> vi64 prof"
    using assms(3) by (auto simp: class_check_def list_all_iff defined_at_def)
  show "draft prof \<in> {14, 16, 18, 20, 22}" using assms(1) by (auto elim!: profile_for_cases simp: profile_defs)
qed

lemma parse_framed:
  assumes laws: "vcodec_laws C" and "profile_for d = Inr prof" "draft prof = d" "defined_at d (class_of m)"
    and "control_serialize C prof m = Inr bs" "control_ok C tol prof m" "has (vi64 prof) b bs"
  shows "parse_control C tol d prof b = Inr ((control_received prof m, rb_pos b + length bs), adv b (length bs))"
proof -
  note entry = defined_entry [OF assms(2-4)]
  obtain p where p: "control_payload C prof m = Inr p" "framed C prof (wire_type prof (class_of m)) p bs"
    using vcodec_laws.control_framed [OF laws assms(5) entry(3,4)] by blast
  obtain b' where b': "frame_header C prof b = Inr ((wire_type prof (class_of m), rb_pos b + length bs), b')"
    "frame_body (control_deserialize C tol (class_of m) prof) (rb_pos b + length bs) b' = Inr (control_received prof m, adv b (length bs))"
    using message_codec.frame_reads [OF control_message_codec [OF laws] p(1) assms(6) p(2) assms(7)] by blast
  then show ?thesis using entry(1,2) by (simp add: parse_control_def rsteps)
qed

text \<open>
  C5: at every draft, a control message of a class the draft defines that serializes and is within the limits of
  its class is parsed, wherever its bytes stand in the stream and whatever follows them, as the same message
  (its parameters in wire order, the fields the draft does not carry at their defaults), and the parser stops
  exactly at the end of its frame.
\<close>

theorem control_roundtrip:
  assumes "vcodec_laws C" "profile_for d = Inr prof" "draft prof = d" "defined_at d (class_of m)"
    and "control_serialize C prof m = Inr bs" "control_ok C tol prof m"
  shows "\<forall>b. has (vi64 prof) b bs \<longrightarrow>
    parse_control C tol d prof b = Inr ((control_received prof m, rb_pos b + length bs), adv b (length bs))"
  using parse_framed [OF assms] by blast

definition subscribe_example :: control_msg where
  "subscribe_example = M_Subscribe
    \<lparr>sb_request_id = 2, sb_track_namespace = [[0x6C, 0x69, 0x76, 0x65]], sb_track_name = [0x76], sb_priority = Some (PInt 7),
     sb_group_order = Some (PInt 2), sb_forward = Some (PInt 1),
     sb_filter = \<lparr>sf_type = Some 3, sf_start_group = Some 5, sf_start_object = Some 1, sf_end_group = None\<rparr>,
     sb_parameters = None, sb_location_filter = None\<rparr>"

theorem control_roundtrip_witness:
  "parse_control std_codec False 16 PROFILE_D16
     (new_rbuf [3, 0, 21, 2, 1, 4, 108, 105, 118, 101, 1, 118, 4, 16, 1, 16, 7, 1, 3, 3, 5, 1, 1, 2, 3] False)
   = Inr ((control_received PROFILE_D16 subscribe_example, 24),
       adv (new_rbuf [3, 0, 21, 2, 1, 4, 108, 105, 118, 101, 1, 118, 4, 16, 1, 16, 7, 1, 3, 3, 5, 1, 1, 2, 3] False) 24)"
proof -
  let ?bs = "[3, 0, 21, 2, 1, 4, 108, 105, 118, 101, 1, 118, 4, 16, 1, 16, 7, 1, 3, 3, 5, 1, 1, 2] :: bytes"
  have 1: "profile_for 16 = Inr PROFILE_D16" "draft PROFILE_D16 = 16" "vi64 PROFILE_D16 = False" by code_simp+
  have 2: "defined_at 16 (class_of subscribe_example)"
    by code_simp
  have 3: "control_serialize std_codec PROFILE_D16 subscribe_example = Inr ?bs" by code_simp
  have 4: "control_ok std_codec False PROFILE_D16 subscribe_example" by code_simp
  have 5: "has False (new_rbuf (?bs @ [3]) False) ?bs" by (simp add: has_def new_rbuf_def rest_of_def)
  show ?thesis using control_roundtrip [OF std.vcodec_laws_axioms 1(1,2) 2 3 4] 5 unfolding 1(3) by (auto simp: new_rbuf_def)
qed

context vcodec_laws
begin

lemma request_ok_params_only:
  assumes "serialize_params C prof None ps = Inr p" "params_ok C prof None (Some ''RequestOk'') ps" "\<not> reply_has_request_id prof"
  shows "reads_to (vi64 prof) (RequestOk_deserialize C tol prof) p
    \<lparr>ro_request_id = None, ro_parameters = Some (ordered (params_delta_coded prof) ps), ro_track_properties = None\<rparr>"
  using reads_params_to [OF assms(1,2)] assms(3)
  by (auto simp: reads_to_def RequestOk_deserialize_def pull_if_def rsteps before_end_def)

lemma frame_body_to:
  assumes "framed C prof t p bs" "has (vi64 prof) b bs" "reads_to (vi64 prof) r p v"
  shows "\<exists>b'. frame_header C prof b = Inr ((t, rb_pos b + length bs), b')
    \<and> frame_body r (rb_pos b + length bs) b' = Inr (v, adv b (length bs))"
proof -
  obtain k where k: "frame_header C prof b = Inr ((t, rb_pos b + length bs), adv b k)" "length bs = k + length p"
      "has (vi64 prof) (adv b k) p"
    using frame_header_reads [OF assms(1,2)] by blast
  have "frame_body r (rb_pos (adv b k) + length p) (adv b k) = Inr (v, adv (adv b k) (length p))"
    using reads_toD [OF assms(3) k(3)] by (simp add: frame_body_def msg_decode_def rcatch_def rsteps)
  then show ?thesis using k by (intro exI [of _ "adv b k"]) (simp add: add.assoc)
qed

end

lemma request_ok_entry: "d \<in> {18, 20, 22} \<Longrightarrow> get_control_entry d 0x07 = Inr K_RequestOk"
proof -
  have "list_all (\<lambda>d. get_control_entry d 0x07 = Inr K_RequestOk) [18, 20, 22]" by code_simp
  then show "d \<in> {18, 20, 22} \<Longrightarrow> ?thesis" by auto
qed

text \<open>
  from draft 18 a PUBLISH_OK goes out under the type of REQUEST_OK, and the peer reads it as a REQUEST_OK that
  carries exactly the parameters the PUBLISH_OK was built with and no request id and no Track Properties.
\<close>

theorem publish_ok_read_as_request_ok:
  assumes "vcodec_laws C" "profile_for d = Inr prof" "draft prof = d" "18 \<le> d"
    and "control_serialize C prof (M_PublishOk m) = Inr bs"
    and "PublishOk_params C prof m = Inr ps" "params_ok C prof None (Some ''RequestOk'') ps"
  shows "\<forall>b. has (vi64 prof) b bs \<longrightarrow> parse_control C tol d prof b =
    Inr ((M_RequestOk \<lparr>ro_request_id = None, ro_parameters = Some (ordered (params_delta_coded prof) ps), ro_track_properties = None\<rparr>,
          rb_pos b + length bs), adv b (length bs))"
proof (intro allI impI)
  fix b assume h: "has (vi64 prof) b bs"
  have prof: "d \<in> {18, 20, 22}" "\<not> reply_has_request_id prof" "vi64 prof" "draft prof \<in> {14, 16, 18, 20, 22}" "is_draft16_or_later (draft prof)"
    using assms(2-4) by (auto elim!: profile_for_cases simp: profile_defs vi64_def is_draft16_or_later_def get_major_version_def)
  obtain p where p: "PublishOk_payload C prof m = Inr p" "framed C prof (wire_type prof K_PublishOk) p bs"
    using vcodec_laws.control_framed [OF assms(1,5) _ prof(4)] by auto
  have "serialize_params C prof None ps = Inr p"
    using p(1) prof assms(6) by (auto simp: PublishOk_payload_def Let_def body_eq wseq_Cons_eq wseq_Nil_eq)
  from vcodec_laws.request_ok_params_only [OF assms(1) this assms(7) prof(2)]
  have r: "reads_to (vi64 prof) (control_deserialize C tol K_RequestOk prof) p
    (M_RequestOk \<lparr>ro_request_id = None, ro_parameters = Some (ordered (params_delta_coded prof) ps), ro_track_properties = None\<rparr>)"
    by (simp add: vcodec_laws.reads_to_mapped [OF assms(1)])
  have "wire_type prof K_PublishOk = 0x07" using prof(2) by (simp add: wire_type_def PublishOk_type_def)
  with vcodec_laws.frame_body_to [OF assms(1) p(2) h r]
  show "parse_control C tol d prof b =
    Inr ((M_RequestOk \<lparr>ro_request_id = None, ro_parameters = Some (ordered (params_delta_coded prof) ps), ro_track_properties = None\<rparr>,
          rb_pos b + length bs), adv b (length bs))"
    using request_ok_entry [OF prof(1)] prof(3) by (auto simp: parse_control_def rsteps)
qed

theorem publish_ok_read_as_request_ok_witness:
  "\<exists>b'. parse_control std_codec False 20 PROFILE_D20 (new_rbuf [7, 0, 3, 1, 8, 5] True)
   = Inr ((M_RequestOk \<lparr>ro_request_id = None, ro_parameters = Some [(8, PInt 5)], ro_track_properties = None\<rparr>, 6), b')"
proof -
  let ?m = "\<lparr>po_request_id = Some 1, po_forward = None, po_priority = None, po_group_order = None, po_filter = no_filter,
    po_parameters = None, po_expires = Some (PInt 5), po_location_filter = None\<rparr>"
  have 1: "profile_for 20 = Inr PROFILE_D20" "draft PROFILE_D20 = 20" "vi64 PROFILE_D20 = True" by code_simp+
  have 2: "control_serialize std_codec PROFILE_D20 (M_PublishOk ?m) = Inr [7, 0, 3, 1, 8, 5]" by code_simp
  have 3: "PublishOk_params std_codec PROFILE_D20 ?m = Inr [(8, PInt 5)]" by code_simp
  have 4: "params_ok std_codec PROFILE_D20 None (Some ''RequestOk'') [(8, PInt 5)]" by code_simp
  have 5: "ordered (params_delta_coded PROFILE_D20) [(8, PInt 5)] = [(8, PInt 5)]" by code_simp
  show ?thesis using publish_ok_read_as_request_ok [OF std.vcodec_laws_axioms 1(1,2) _ 2 3 4, of False] has_new_rbuf [of True "[7, 0, 3, 1, 8, 5]"]
    unfolding 1(3) 5 by (auto simp: new_rbuf_def)
qed

end
