(* ===== verification/Request_Ids.thy ===== *)
theory Request_Ids
  imports Prelude
begin

text \<open>
  The Request ID bookkeeping of a session in \<^verbatim>\<open>protocol.py\<close>: our own ids (\<^verbatim>\<open>_allocate_request_id\<close> under the peer's
  MAX_REQUEST_ID) and the peer's (the checks of \<^verbatim>\<open>_moqt_handle_control_message\<close>, \<^verbatim>\<open>_note_peer_request_id\<close>,
  \<^verbatim>\<open>_extend_request_credit\<close>). A session runs as a step relation over its events; the ids it accepted so far are
  the history the bounded bookkeeping is compared with.
\<close>

section \<open>State\<close>

text \<open>
  Python sets of ids are lists without repetition here. \<open>outbox\<close> is what \<^verbatim>\<open>send_control_message\<close> was called with:
  MAX_REQUEST_ID and REQUESTS_BLOCKED are the only messages this code sends. \<open>peer_requests\<close> and \<open>requests\<close> are
  the keys of the dictionaries of requests in progress.
\<close>

datatype credit_msg = Max_Request_Id int | Requests_Blocked int

record req_ids =
  is_client :: bool
  next_request_id :: int
  sent_requests :: "int list"
  goaway_received :: bool
  peer_request_limit :: "int option"
  requests_blocked_sent :: bool
  local_request_max :: "int option"
  peer_request_max :: int
  peer_request_low :: int
  peer_request_seen :: "int list"
  unanswered :: "int list"
  peer_requests :: "int list"
  requests :: "int list"
  credit_held :: bool
  credit_warned :: bool
  credit_recheck :: bool
  close_err :: "int option"
  outbox :: "credit_msg list"

definition REQUEST_ID_WINDOW :: int where "REQUEST_ID_WINDOW = 10000"
definition MAX_OPEN_PEER_REQUESTS :: nat where "MAX_OPEN_PEER_REQUESTS = 1000"
definition PEER_REQUEST_SEEN_CAP :: nat where "PEER_REQUEST_SEEN_CAP = 4096"
definition SENT_REQUESTS_MAX :: nat where "SENT_REQUESTS_MAX = 1024"

definition GOING_AWAY :: int where "GOING_AWAY = 0x06"
definition REQUEST_INTERNAL_ERROR :: int where "REQUEST_INTERNAL_ERROR = 0x0"
definition PROTOCOL_VIOLATION :: int where "PROTOCOL_VIOLATION = 0x03"
definition INVALID_REQUEST_ID :: int where "INVALID_REQUEST_ID = 0x04"
definition TOO_MANY_REQUESTS :: int where "TOO_MANY_REQUESTS = 0x07"

definition init_ids :: "bool \<Rightarrow> req_ids" where
  "init_ids client =
    \<lparr>is_client = client, next_request_id = (if client then 0 else 1), sent_requests = [], goaway_received = False,
     peer_request_limit = None, requests_blocked_sent = False, local_request_max = None, peer_request_max = -1,
     peer_request_low = 0, peer_request_seen = [], unanswered = [], peer_requests = [], requests = [],
     credit_held = False, credit_warned = False, credit_recheck = False, close_err = None, outbox = []\<rparr>"

definition peer_parity :: "req_ids \<Rightarrow> int" where
  "peer_parity s = (if is_client s then 1 else 0)"

definition own_parity :: "req_ids \<Rightarrow> int" where
  "own_parity s = (if is_client s then 0 else 1)"

section \<open>Sending\<close>

text \<open>A sent message that carries a \<^verbatim>\<open>request_id\<close> answers that request; REQUESTS_BLOCKED carries none.\<close>

definition send_credit :: "credit_msg \<Rightarrow> req_ids \<Rightarrow> req_ids" where
  "send_credit m s = s\<lparr>outbox := outbox s @ [m],
     unanswered := (case m of Max_Request_Id n \<Rightarrow> removeAll n (unanswered s) | Requests_Blocked _ \<Rightarrow> unanswered s)\<rparr>"

definition close_session :: "int \<Rightarrow> req_ids \<Rightarrow> req_ids" where
  "close_session code s = s\<lparr>close_err := (case close_err s of None \<Rightarrow> Some code | Some c \<Rightarrow> Some c), requests := []\<rparr>"

definition push_bounded :: "nat \<Rightarrow> 'a list \<Rightarrow> 'a \<Rightarrow> 'a list" where
  "push_bounded n xs x = (let ys = xs @ [x] in drop (length ys - n) ys)"

datatype alloc = Allocated int | Refused int

definition allocate_request_id :: "bool \<Rightarrow> req_ids \<Rightarrow> alloc \<times> req_ids" where
  "allocate_request_id opener s =
    (if opener \<and> goaway_received s then (Refused GOING_AWAY, s)
     else case peer_request_limit s of
       Some limit \<Rightarrow>
         if limit \<le> next_request_id s then
           (Refused REQUEST_INTERNAL_ERROR,
            if requests_blocked_sent s then s else send_credit (Requests_Blocked limit) (s\<lparr>requests_blocked_sent := True\<rparr>))
         else (Allocated (next_request_id s),
           s\<lparr>next_request_id := next_request_id s + 2, sent_requests := push_bounded SENT_REQUESTS_MAX (sent_requests s) (next_request_id s)\<rparr>)
     | None \<Rightarrow> (Allocated (next_request_id s),
         s\<lparr>next_request_id := next_request_id s + 2, sent_requests := push_bounded SENT_REQUESTS_MAX (sent_requests s) (next_request_id s)\<rparr>))"

text \<open>The peer's ceiling on our ids: from its SETUP, then raised by MAX_REQUEST_ID, which must increase.\<close>

definition ingest_request_limit :: "bool \<Rightarrow> bool \<Rightarrow> int option \<Rightarrow> req_ids \<Rightarrow> req_ids" where
  "ingest_request_limit control_uni_pair tolerate_missing_credit limit s =
    (if control_uni_pair then s
     else if limit = None \<and> tolerate_missing_credit then s\<lparr>peer_request_limit := None\<rparr>
     else s\<lparr>peer_request_limit := Some (case limit of None \<Rightarrow> 0 | Some n \<Rightarrow> n)\<rparr>)"

definition handle_max_request_id :: "int \<Rightarrow> req_ids \<Rightarrow> req_ids" where
  "handle_max_request_id new s =
    (if (case peer_request_limit s of None \<Rightarrow> False | Some l \<Rightarrow> new \<le> l) then close_session PROTOCOL_VIOLATION s
     else s\<lparr>peer_request_limit := Some new, requests_blocked_sent := False\<rparr>)"

section \<open>Receiving\<close>

text \<open>The loop of \<^verbatim>\<open>_note_peer_request_id\<close>: step over the ids seen contiguously.\<close>

function advance_low :: "int \<Rightarrow> int list \<Rightarrow> int \<times> int list" where
  "advance_low low seen = (if low \<in> set seen then advance_low (low + 2) (removeAll low seen) else (low, seen))"
  by pat_completeness auto
termination
  by (relation "measure (\<lambda>(low, seen). length seen)") (auto intro: length_removeAll_less)

declare advance_low.simps [simp del]

definition note_peer_request_id :: "int \<Rightarrow> int \<Rightarrow> req_ids \<Rightarrow> req_ids" where
  "note_peer_request_id rid parity s =
    (let seen = List.insert rid (peer_request_seen s);
         low0 = peer_request_low s;
         low1 = (if low0 mod 2 \<noteq> parity then low0 + 1 else low0);
         (low2, seen2) =
           (if PEER_REQUEST_SEEN_CAP < length seen then
              (let l = max low1 (sort seen ! (PEER_REQUEST_SEEN_CAP div 4) + 2) in (l, filter (\<lambda>i. l \<le> i) seen))
            else (low1, seen));
         (low3, seen3) = advance_low low2 seen2
     in s\<lparr>peer_request_max := max (peer_request_max s) rid, peer_request_low := low3, peer_request_seen := seen3\<rparr>)"

definition open_peer_requests :: "req_ids \<Rightarrow> nat" where
  "open_peer_requests s = card (set (unanswered s) \<union> set (peer_requests s) \<union> {r \<in> set (requests s). r mod 2 \<noteq> own_parity s})"

definition extend_request_credit :: "int \<Rightarrow> req_ids \<Rightarrow> req_ids" where
  "extend_request_credit rid s =
    (case local_request_max s of
       None \<Rightarrow> s
     | Some limit \<Rightarrow>
         if rid < limit - REQUEST_ID_WINDOW div 2 then s
         else if MAX_OPEN_PEER_REQUESTS \<le> open_peer_requests s then s\<lparr>credit_warned := True, credit_held := True, credit_recheck := True\<rparr>
         else send_credit (Max_Request_Id (limit + REQUEST_ID_WINDOW))
           (s\<lparr>local_request_max := Some (limit + REQUEST_ID_WINDOW), credit_held := False\<rparr>))"

definition recheck_request_credit :: "req_ids \<Rightarrow> req_ids" where
  "recheck_request_credit s =
    (let s' = s\<lparr>credit_recheck := False\<rparr> in
     if close_err s = None then extend_request_credit (peer_request_max s) s' else s')"

text \<open>
  The checks on the id of a request opener or a REQUEST_UPDATE: parity, reuse, credit; then the id is noted and
  the credit extended. A failed check closes the session with its own code.
\<close>

definition check_peer_request :: "int \<Rightarrow> req_ids \<Rightarrow> int option" where
  "check_peer_request rid s =
    (if rid mod 2 \<noteq> peer_parity s then Some INVALID_REQUEST_ID
     else if rid < peer_request_low s \<or> rid \<in> set (peer_request_seen s) then Some INVALID_REQUEST_ID
     else case local_request_max s of
       None \<Rightarrow> None
     | Some limit \<Rightarrow> if limit \<le> rid then Some TOO_MANY_REQUESTS else None)"

definition admit_peer_request :: "bool \<Rightarrow> int \<Rightarrow> req_ids \<Rightarrow> req_ids" where
  "admit_peer_request is_update rid s =
    (case check_peer_request rid s of
       Some code \<Rightarrow> close_session code s
     | None \<Rightarrow>
         let s1 = note_peer_request_id rid (peer_parity s) s;
             s2 = (if local_request_max s1 \<noteq> None \<and> \<not> is_update then s1\<lparr>unanswered := List.insert rid (unanswered s1)\<rparr> else s1)
         in extend_request_credit rid s2)"

text \<open>The window we advertise in our SETUP, before draft 18.\<close>

definition advertise_window :: "req_ids \<Rightarrow> req_ids" where
  "advertise_window s = s\<lparr>local_request_max := Some REQUEST_ID_WINDOW\<rparr>"

text \<open>The Request ID of our own GOAWAY at draft 18: the first of the peer's ids that was not received.\<close>

definition goaway_id :: "req_ids \<Rightarrow> int" where
  "goaway_id s = (if peer_request_max s < 0 then (if is_client s then 1 else 0) else peer_request_max s + 2)"

section \<open>The low-water mark\<close>



section \<open>Runs of a session\<close>

text \<open>
  \<open>reach c acc ours s\<close>: a session (a client if \<open>c\<close>) can be in state \<open>s\<close> after accepting the peer ids \<open>acc\<close> and
  allocating the ids \<open>ours\<close>. Both SETUPs come before the first request.
\<close>

definition settle :: "int \<Rightarrow> req_ids \<Rightarrow> req_ids" where
  "settle rid s = s\<lparr>unanswered := removeAll rid (unanswered s), requests := removeAll rid (requests s), peer_requests := removeAll rid (peer_requests s)\<rparr>"

inductive reach :: "bool \<Rightarrow> int list \<Rightarrow> int list \<Rightarrow> req_ids \<Rightarrow> bool" where
  start: "reach c [] [] (init_ids c)"
| window: "reach c [] [] s \<Longrightarrow> local_request_max s = None \<Longrightarrow> reach c [] [] (advertise_window s)"
| limit: "reach c [] [] s \<Longrightarrow> peer_request_limit s = None \<Longrightarrow> outbox s = [] \<Longrightarrow> reach c [] [] (ingest_request_limit uni tol lim s)"
| request: "reach c acc ours s \<Longrightarrow> close_err s = None \<Longrightarrow> 0 \<le> rid \<Longrightarrow>
    reach c (if check_peer_request rid s = None then acc @ [rid] else acc) ours (admit_peer_request upd rid s)"
| alloc: "reach c acc ours s \<Longrightarrow> allocate_request_id opener s = (r, s') \<Longrightarrow>
    reach c acc (case r of Allocated i \<Rightarrow> ours @ [i] | Refused _ \<Rightarrow> ours) s'"
| max_id: "reach c acc ours s \<Longrightarrow> close_err s = None \<Longrightarrow> reach c acc ours (handle_max_request_id n s)"
| recheck: "reach c acc ours s \<Longrightarrow> credit_recheck s \<Longrightarrow> reach c acc ours (recheck_request_credit s)"
| goaway: "reach c acc ours s \<Longrightarrow> reach c acc ours (s\<lparr>goaway_received := True\<rparr>)"
| hold: "reach c acc ours s \<Longrightarrow> reach c acc ours (s\<lparr>peer_requests := List.insert rid (peer_requests s)\<rparr>)"
| bind: "reach c acc ours s \<Longrightarrow> reach c acc ours (s\<lparr>requests := List.insert rid (requests s)\<rparr>)"
| answer: "reach c acc ours s \<Longrightarrow> reach c acc ours (s\<lparr>unanswered := removeAll rid (unanswered s)\<rparr>)"
| cancel: "reach c acc ours s \<Longrightarrow> reach c acc ours (settle rid s)"

section \<open>The peer's ids\<close>











lemma credit_client [simp]: "is_client (extend_request_credit rid s) = is_client s"
  by (simp add: extend_request_credit_def send_credit_def split: option.splits)

lemma note_fields [simp]:
  "is_client (note_peer_request_id rid p s) = is_client s" "next_request_id (note_peer_request_id rid p s) = next_request_id s"
  "peer_request_limit (note_peer_request_id rid p s) = peer_request_limit s" "outbox (note_peer_request_id rid p s) = outbox s"
  "local_request_max (note_peer_request_id rid p s) = local_request_max s"
  "requests_blocked_sent (note_peer_request_id rid p s) = requests_blocked_sent s"
  by (simp_all only: note_peer_request_id_def Let_def split: prod.splits) simp_all

lemma admit_client: "is_client (admit_peer_request upd rid s) = is_client s"
  by (simp add: admit_peer_request_def close_session_def Let_def split: option.splits)

lemma reach_client: "reach c acc ours s \<Longrightarrow> is_client s = c"
proof (induction rule: reach.induct)
  case (request c acc ours s rid upd)
  then show ?case by (simp add: admit_client)
next
  case (alloc c acc ours s opener r s')
  then show ?case by (auto simp: allocate_request_id_def send_credit_def split: if_splits option.splits)
qed (auto simp: init_ids_def advertise_window_def ingest_request_limit_def handle_max_request_id_def close_session_def recheck_request_credit_def
    extend_request_credit_def send_credit_def settle_def Let_def split: option.splits)

section \<open>Our own ids, and the credit messages\<close>

definition blocked_of :: "credit_msg list \<Rightarrow> int list" where
  "blocked_of ms = concat (map (\<lambda>m. case m of Requests_Blocked n \<Rightarrow> [n] | Max_Request_Id _ \<Rightarrow> []) ms)"

definition raised_of :: "credit_msg list \<Rightarrow> int list" where
  "raised_of ms = concat (map (\<lambda>m. case m of Max_Request_Id n \<Rightarrow> [n] | Requests_Blocked _ \<Rightarrow> []) ms)"

lemma outbox_simps [simp]:
  "blocked_of [] = []" "raised_of [] = []"
  "blocked_of (ms @ [Requests_Blocked n]) = blocked_of ms @ [n]" "blocked_of (ms @ [Max_Request_Id n]) = blocked_of ms"
  "raised_of (ms @ [Requests_Blocked n]) = raised_of ms" "raised_of (ms @ [Max_Request_Id n]) = raised_of ms @ [n]"
  by (simp_all add: blocked_of_def raised_of_def)

definition own_ids :: "bool \<Rightarrow> nat \<Rightarrow> int list" where
  "own_ids client n = map (\<lambda>i. (if client then 0 else 1) + 2 * int i) [0..<n]"

definition own_inv :: "int list \<Rightarrow> req_ids \<Rightarrow> bool" where
  "own_inv ours s \<longleftrightarrow> ours = own_ids (is_client s) (length ours) \<and> next_request_id s = own_parity s + 2 * int (length ours)"

definition credit_inv :: "req_ids \<Rightarrow> bool" where
  "credit_inv s \<longleftrightarrow>
     sorted_wrt (<) (blocked_of (outbox s)) \<and> sorted_wrt (<) (raised_of (outbox s))
     \<and> (\<forall>x \<in> set (blocked_of (outbox s)). \<exists>l. peer_request_limit s = Some l \<and> x \<le> l \<and> (x = l \<longrightarrow> requests_blocked_sent s))
     \<and> (\<forall>x \<in> set (raised_of (outbox s)). \<exists>l. local_request_max s = Some l \<and> x \<le> l)
     \<and> (\<forall>l. local_request_max s = Some l \<longrightarrow> 0 < l \<and> l mod REQUEST_ID_WINDOW = 0)"

lemma own_ids_Suc: "own_ids c (Suc n) = own_ids c n @ [(if c then 0 else 1) + 2 * int n]"
  by (simp add: own_ids_def)

lemma own_ids_mem: "x \<in> set (own_ids c n) \<longleftrightarrow> (\<exists>i < n. x = (if c then 0 else 1) + 2 * int i)"
  by (auto simp: own_ids_def)

lemma own_inv_mem: "own_inv ours s \<Longrightarrow> x \<in> set ours \<longleftrightarrow> (\<exists>i < length ours. x = (if is_client s then 0 else 1) + 2 * int i)"
  unfolding own_inv_def by (metis own_ids_mem)

lemma alloc_own:
  assumes "own_inv ours s" "allocate_request_id opener s = (r, s')"
  shows "own_inv (case r of Allocated i \<Rightarrow> ours @ [i] | Refused _ \<Rightarrow> ours) s'"
  using assms own_ids_Suc [of "is_client s" "length ours"]
  by (auto simp: own_inv_def allocate_request_id_def send_credit_def own_parity_def split: if_splits option.splits)

lemma credit_credit: "credit_inv s \<Longrightarrow> credit_inv (extend_request_credit rid s)"
  by (auto simp: extend_request_credit_def credit_inv_def send_credit_def sorted_wrt_append REQUEST_ID_WINDOW_def split: option.splits)

lemma credit_inv_cong:
  assumes "credit_inv s" "outbox s' = outbox s" "peer_request_limit s' = peer_request_limit s" "local_request_max s' = local_request_max s"
    "requests_blocked_sent s' = requests_blocked_sent s"
  shows "credit_inv s'"
  using assms(1) unfolding credit_inv_def assms(2-5) .

lemma admit_credit: "credit_inv s \<Longrightarrow> credit_inv (admit_peer_request upd rid s)"
proof (cases "check_peer_request rid s")
  case None
  assume "credit_inv s"
  then have "credit_inv (note_peer_request_id rid (peer_parity s) s)" by (rule credit_inv_cong) simp_all
  then have "credit_inv (if local_request_max s \<noteq> None \<and> \<not> upd
      then (note_peer_request_id rid (peer_parity s) s)\<lparr>unanswered := List.insert rid (unanswered (note_peer_request_id rid (peer_parity s) s))\<rparr>
      else note_peer_request_id rid (peer_parity s) s)"
    by (auto elim: credit_inv_cong)
  then show ?thesis using None by (simp add: admit_peer_request_def Let_def credit_credit)
qed (auto simp: admit_peer_request_def close_session_def elim: credit_inv_cong)

lemma alloc_credit: "credit_inv s \<Longrightarrow> allocate_request_id opener s = (r, s') \<Longrightarrow> credit_inv s'"
  by (force simp: allocate_request_id_def send_credit_def credit_inv_def sorted_wrt_append split: if_splits option.splits)

lemma reach_credit_inv: "reach c acc ours s \<Longrightarrow> credit_inv s"
proof (induction rule: reach.induct)
  case (start c)
  show ?case by (simp add: init_ids_def credit_inv_def)
next
  case (window c s)
  then show ?case by (auto simp: advertise_window_def credit_inv_def REQUEST_ID_WINDOW_def)
next
  case (limit c s uni tol lim)
  then show ?case by (auto simp: ingest_request_limit_def credit_inv_def)
next
  case (request c acc ours s rid upd)
  then show ?case using admit_credit by blast
next
  case (alloc c acc ours s opener r s')
  then show ?case using alloc_credit by blast
next
  case (max_id c acc ours s n)
  then show ?case by (force simp: handle_max_request_id_def close_session_def credit_inv_def split: option.splits)
next
  case (recheck c acc ours s)
  have "credit_inv (s\<lparr>credit_recheck := False\<rparr>)" using recheck.IH by (rule credit_inv_cong) simp_all
  then show ?case by (simp add: recheck_request_credit_def Let_def credit_credit)
qed (auto elim: credit_inv_cong simp: settle_def)

lemma credit_next [simp]: "next_request_id (extend_request_credit rid s) = next_request_id s"
  by (simp add: extend_request_credit_def send_credit_def split: option.splits)

lemma own_inv_cong: "own_inv ours s \<Longrightarrow> is_client s' = is_client s \<Longrightarrow> next_request_id s' = next_request_id s \<Longrightarrow> own_inv ours s'"
  by (simp add: own_inv_def own_parity_def)

lemma reach_own_inv: "reach c acc ours s \<Longrightarrow> own_inv ours s"
proof (induction rule: reach.induct)
  case (start c)
  show ?case by (simp add: init_ids_def own_inv_def own_parity_def own_ids_def)
next
  case (alloc c acc ours s opener r s')
  then show ?case using alloc_own by blast
qed (auto elim!: own_inv_cong simp: advertise_window_def ingest_request_limit_def admit_peer_request_def close_session_def Let_def
    handle_max_request_id_def recheck_request_credit_def settle_def split: option.splits)

section \<open>Properties\<close>


lemma reach_example:
  "reach False [0, 4] [1] (snd (allocate_request_id True (admit_peer_request False 4 (admit_peer_request False 0 (advertise_window (init_ids False))))))"
proof -
  let ?s0 = "advertise_window (init_ids False)"
  let ?s1 = "admit_peer_request False 0 ?s0" and ?s2 = "admit_peer_request False 4 (admit_peer_request False 0 (advertise_window (init_ids False)))"
  have 0: "reach False [] [] ?s0" by (rule window [OF start]) code_simp
  have "reach False (if check_peer_request 0 ?s0 = None then [] @ [0] else []) [] ?s1" by (rule request [OF 0]) (code_simp, simp)
  moreover have "check_peer_request 0 ?s0 = None" by code_simp
  ultimately have 1: "reach False [0] [] ?s1" by simp
  have "reach False (if check_peer_request 4 ?s1 = None then [0] @ [4] else [0]) [] ?s2" by (rule request [OF 1]) (code_simp, simp)
  moreover have "check_peer_request 4 ?s1 = None" by code_simp
  ultimately have 2: "reach False [0, 4] [] ?s2" by simp
  have "fst (allocate_request_id True ?s2) = Allocated 1" by code_simp
  then show ?thesis using alloc [OF 2, of True "Allocated 1" "snd (allocate_request_id True ?s2)"] by (simp add: prod_eq_iff)
qed




text \<open>
  C32: the ids a session allocates are 0, 2, 4, \<dots> for a client and 1, 3, 5, \<dots> for a server, in this order and
  without a gap, whatever happens in between; a refused allocation uses up no id, and an allocated id is below the
  peer's MAX_REQUEST_ID.
\<close>

theorem own_request_ids_consecutive:
  assumes "reach c acc ours s" "allocate_request_id opener s = (r, s')"
  shows "ours = own_ids c (length ours)
    \<and> (case r of
         Allocated i \<Rightarrow> i = (if c then 0 else 1) + 2 * int (length ours) \<and> i \<notin> set ours
           \<and> (\<forall>l. peer_request_limit s = Some l \<longrightarrow> i < l) \<and> \<not> (opener \<and> goaway_received s)
       | Refused code \<Rightarrow> next_request_id s' = next_request_id s \<and> code \<in> {GOING_AWAY, REQUEST_INTERNAL_ERROR})"
proof -
  have o': "own_inv ours s" and c: "is_client s = c" using assms(1) reach_own_inv reach_client by blast+
  have "(if c then 0 else 1) + 2 * int (length ours) \<notin> set ours"
    using own_inv_mem [OF o'] c by auto
  then show ?thesis using assms(2) o' c
    by (auto simp: own_inv_def allocate_request_id_def own_parity_def send_credit_def split: if_splits option.splits)
qed

theorem own_request_ids_consecutive_witness:
  "\<exists>s r s'. reach False [0, 4] [1] s \<and> allocate_request_id True s = (r, s') \<and> r = Allocated 3"
proof -
  let ?s = "snd (allocate_request_id True (admit_peer_request False 4 (admit_peer_request False 0 (advertise_window (init_ids False)))))"
  have "fst (allocate_request_id True ?s) \<noteq> Refused GOING_AWAY" "fst (allocate_request_id True ?s) \<noteq> Refused REQUEST_INTERNAL_ERROR" by code_simp+
  moreover obtain r s' where r: "allocate_request_id True ?s = (r, s')" by (metis surj_pair)
  ultimately have "r = Allocated 3"
    using own_request_ids_consecutive [OF reach_example r] by (cases r) auto
  then show ?thesis using reach_example r by blast
qed

text \<open>
  C33: the MAX_REQUEST_ID values a session sends strictly increase, each is a multiple of its window and none is
  above the limit it enforces; the REQUESTS_BLOCKED it sends name strictly increasing limits of the peer, so each
  limit is reported at most once.
\<close>

theorem credit_messages_increase:
  assumes "reach c acc ours s"
  shows "sorted_wrt (<) (raised_of (outbox s)) \<and> sorted_wrt (<) (blocked_of (outbox s))
    \<and> (\<forall>x \<in> set (raised_of (outbox s)). \<exists>l. local_request_max s = Some l \<and> x \<le> l)
    \<and> (\<forall>l. local_request_max s = Some l \<longrightarrow> l mod REQUEST_ID_WINDOW = 0)
    \<and> (\<forall>x \<in> set (blocked_of (outbox s)). \<exists>l. peer_request_limit s = Some l \<and> x \<le> l)"
  using reach_credit_inv [OF assms] unfolding credit_inv_def by blast

theorem credit_messages_increase_witness:
  "\<exists>s. reach False [0, 4] [1] s \<and> local_request_max s = Some 10000 \<and> 10000 mod REQUEST_ID_WINDOW = 0"
proof -
  let ?s = "snd (allocate_request_id True (admit_peer_request False 4 (admit_peer_request False 0 (advertise_window (init_ids False)))))"
  have "local_request_max ?s = Some 10000" by code_simp
  then show ?thesis using credit_messages_increase [OF reach_example] reach_example by blast
qed



end
