(* ===== verification/Control_Session.thy ===== *)
theory Control_Session
  imports Control_Dispatch Request_Ids
begin

text \<open>
  The control stream of a session: \<^verbatim>\<open>_moqt_handle_control_message\<close> on one message and \<^verbatim>\<open>_on_control_data\<close>, which
  reassembles messages from the chunks the transport delivers, both of \<^verbatim>\<open>protocol.py\<close>. This is the control
  stream itself (\<^verbatim>\<open>is_request_bidi\<close> is false), where no Request ID is bound to the stream. What a parsed message
  does after its checks (\<^verbatim>\<open>_route_reply\<close>, the token cache, the refusals and the handler task) is the function
  \<open>route\<close> on the rest of the session's state, which may raise; the theorems hold for every such function.
\<close>

section \<open>One message\<close>

record 'x ctl =
  ids :: req_ids
  track_default_priority :: "int dict"
  rest :: 'x

text \<open>\<^verbatim>\<open>_REQUEST_OPENERS\<close>: the id the checks apply to, and whether the message is a REQUEST_UPDATE.\<close>

definition policed_id :: "control_msg \<Rightarrow> (bool \<times> int) option" where
  "policed_id m = (case m of
     M_Subscribe x \<Rightarrow> Some (False, sb_request_id x)
   | M_Fetch x \<Rightarrow> Some (False, fe_request_id x)
   | M_Publish x \<Rightarrow> Some (False, pu_request_id x)
   | M_TrackStatus x \<Rightarrow> Some (False, ts_request_id x)
   | M_PublishNamespace x \<Rightarrow> Some (False, pn_request_id x)
   | M_SubscribeNamespace x \<Rightarrow> Some (False, sn_request_id x)
   | M_SubscribeTracks x \<Rightarrow> Some (False, st_request_id x)
   | M_RequestUpdate x \<Rightarrow> map_option (Pair True) (ru_request_id x)
   | _ \<Rightarrow> None)"

definition PUBLISHER_PRIORITY :: int where "PUBLISHER_PRIORITY = 0x0E"

text \<open>\<^verbatim>\<open>_latch_track_priority\<close>: the default priority of a track. A value under an even key is an integer.\<close>

definition latch_track_priority :: "int \<Rightarrow> kvps option \<Rightarrow> 'x ctl \<Rightarrow> 'x ctl" where
  "latch_track_priority alias exts st =
    (case exts of
       None \<Rightarrow> st
     | Some kv \<Rightarrow> (case dict_get (fst kv) PUBLISHER_PRIORITY of
         Some (PInt n) \<Rightarrow> st\<lparr>track_default_priority := dict_set (track_default_priority st) alias n\<rparr>
       | _ \<Rightarrow> st))"

definition latch :: "control_msg \<Rightarrow> 'x ctl \<Rightarrow> 'x ctl" where
  "latch m st = (case m of
     M_SubscribeOk x \<Rightarrow> latch_track_priority (so_track_alias x) (so_track_extensions x) st
   | M_Publish x \<Rightarrow> latch_track_priority (pu_track_alias x) (pu_track_extensions x) st
   | _ \<Rightarrow> st)"

text \<open>The code an exception closes the session with; the other classes are re-raised.\<close>

definition close_code :: "py_error \<Rightarrow> int option" where
  "close_code e = (case e of
     MOQTProtocolViolation \<Rightarrow> Some PROTOCOL_VIOLATION | MOQTMalformedKVP \<Rightarrow> Some PROTOCOL_VIOLATION
   | MOQTException c \<Rightarrow> Some c
   | BufferReadError \<Rightarrow> Some PROTOCOL_VIOLATION | MOQTUnderflow \<Rightarrow> Some PROTOCOL_VIOLATION
   | _ \<Rightarrow> None)"

definition close_ctl :: "int \<Rightarrow> 'x ctl \<Rightarrow> 'x ctl" where
  "close_ctl code st = st\<lparr>ids := close_session code (ids st)\<rparr>"

text \<open>What a call ends with: a message, \<^verbatim>\<open>None\<close>, or an exception.\<close>

datatype 'x handled =
    Got control_msg "'x ctl" nat
  | Gone "'x ctl"
  | Threw py_error "'x ctl"

definition failed :: "py_error \<Rightarrow> 'x ctl \<Rightarrow> 'x handled" where
  "failed e st = (case close_code e of Some c \<Rightarrow> Gone (close_ctl c st) | None \<Rightarrow> Threw e st)"

text \<open>The part after parsing; \<open>complete\<close> says that the body ended where its Length says.\<close>

definition accept_message :: "(control_msg \<Rightarrow> 'x \<Rightarrow> 'x \<times> unit result) \<Rightarrow> control_msg \<Rightarrow> bool \<Rightarrow> nat \<Rightarrow> 'x ctl \<Rightarrow> 'x handled" where
  "accept_message route m complete e st =
    (let st1 = latch m st;
         st2 = (case policed_id m of None \<Rightarrow> st1 | Some (upd, rid) \<Rightarrow> st1\<lparr>ids := admit_peer_request upd rid (ids st1)\<rparr>)
     in if (case policed_id m of None \<Rightarrow> False | Some (upd, rid) \<Rightarrow> check_peer_request rid (ids st1) \<noteq> None) then Gone st2
        else if \<not> complete then failed MOQTProtocolViolation st2
        else case route m (rest st2) of (x, Inl err) \<Rightarrow> failed err (st2\<lparr>rest := x\<rparr>) | (x, Inr _) \<Rightarrow> Got m (st2\<lparr>rest := x\<rparr>) e)"

definition parse_body :: "vcodec \<Rightarrow> bool \<Rightarrow> int \<Rightarrow> DraftProfile \<Rightarrow> int \<Rightarrow> nat \<Rightarrow> control_msg reader" where
  "parse_body C tol d prof t e =
    rbind (rguard (vi64 prof \<or> t \<in> snd ` set MOQTMessageType) MOQTProtocolViolation) (\<lambda>_.
    rbind (rlift (get_control_entry d t)) (\<lambda>cls. frame_body (control_deserialize C tol cls prof) e))"

definition handle_control_message ::
    "vcodec \<Rightarrow> bool \<Rightarrow> int \<Rightarrow> DraftProfile \<Rightarrow> (control_msg \<Rightarrow> 'x \<Rightarrow> 'x \<times> unit result) \<Rightarrow> 'x ctl \<Rightarrow> rbuf \<Rightarrow> 'x handled" where
  "handle_control_message C tol d prof route st b =
    (if capacity b = 0 then Gone st
     else case frame_header C prof b of
       Inl err \<Rightarrow> Threw err st
     | Inr ((t, e), b1) \<Rightarrow>
         (case parse_body C tol d prof t e b1 of
            Inl err \<Rightarrow> failed err st
          | Inr (m, b2) \<Rightarrow> accept_message route m (e \<le> rb_pos b2) (rb_pos b2) st))"

section \<open>The stream\<close>

text \<open>
  The retained bytes stand for the \<^verbatim>\<open>StreamChain\<close> of the stream between events: a rolled back message stays, a
  committed one is dropped. \<open>Stop\<close> is an early return of the loop.
\<close>

record 'x ctl_stream =
  cst :: "'x ctl"
  chain :: bytes
  goaway_seen :: bool

datatype 'x looped = Done "'x ctl_stream" | Stop "'x ctl_stream"

definition chain_buf :: "bytes \<Rightarrow> rbuf" where
  "chain_buf bs = \<lparr>rb_data = bs, rb_pos = 0, rb_vi64 = False, rb_chain = True\<rparr>"

definition close_stream :: "int \<Rightarrow> 'x ctl_stream \<Rightarrow> 'x ctl_stream" where
  "close_stream code s = s\<lparr>cst := close_ctl code (cst s), chain := []\<rparr>"

definition is_setup :: "control_msg \<Rightarrow> bool" where
  "is_setup m = (case m of M_Setup18 _ \<Rightarrow> True | M_Setup20 _ \<Rightarrow> True | _ \<Rightarrow> False)"

text \<open>
  What the stream itself does with a parsed message: from draft 18 only SETUP and GOAWAY are allowed on it, a
  second GOAWAY closes, and its Request ID must be one of ours.
\<close>

definition stream_message :: "DraftProfile \<Rightarrow> control_msg \<Rightarrow> 'x ctl_stream \<Rightarrow> 'x looped" where
  "stream_message prof m s =
    (if control_uni_pair prof \<and> \<not> (is_setup m \<or> (\<exists>g. m = M_GoAway g)) then Stop (close_stream PROTOCOL_VIOLATION s)
     else case m of
       M_GoAway g \<Rightarrow>
         if goaway_seen s then Stop (close_stream PROTOCOL_VIOLATION s)
         else let s1 = s\<lparr>goaway_seen := True\<rparr> in
           if (case ga_request_id g of None \<Rightarrow> False | Some rid \<Rightarrow> rid mod 2 \<noteq> own_parity (ids (cst s1)))
           then Stop (close_stream INVALID_REQUEST_ID s1)
           else Done (s1\<lparr>cst := (cst s1)\<lparr>ids := (ids (cst s1))\<lparr>goaway_received := True\<rparr>\<rparr>\<rparr>)
     | _ \<Rightarrow> Done s)"

lemma handled_progress:
  assumes "handle_control_message C tol d prof route st (chain_buf bs) = Got m st' n"
  shows "0 < n" "bs \<noteq> []"
proof -
  obtain t e b1 where h: "frame_header C prof (chain_buf bs) = Inr ((t, e), b1)" and e: "e \<le> n" and c: "bs \<noteq> []"
    using assms
    by (auto simp: handle_control_message_def accept_message_def failed_def Let_def capacity_def chain_buf_def
        split: sum.splits if_splits option.splits prod.splits)
  have "0 < e" using h
    by (auto simp: frame_header_def rbind_eq_Inr rcatch_def rguard_def rret_def rfail_def rtell_def rcapacity_def set_vi64_def adv_def pull_uint16_def
        split: sum.splits if_splits dest!: pull_vint_advances pull_with_advances)
  then show "0 < n" "bs \<noteq> []" using e c by simp_all
qed

lemma stream_message_chain: "stream_message prof m s = Done s' \<Longrightarrow> chain s' = chain s"
  by (auto simp: stream_message_def Let_def split: if_splits control_msg.splits)

function control_loop ::
    "vcodec \<Rightarrow> bool \<Rightarrow> int \<Rightarrow> DraftProfile \<Rightarrow> (control_msg \<Rightarrow> 'x \<Rightarrow> 'x \<times> unit result) \<Rightarrow> bool \<Rightarrow> bool \<Rightarrow> 'x ctl_stream \<Rightarrow> 'x looped" where
  "control_loop C tol d prof route is_read end_stream s =
    (if chain s = [] then Done s
     else case handle_control_message C tol d prof route (cst s) (chain_buf (chain s)) of
       Threw err st \<Rightarrow>
         if err = MOQTUnderflow then
           Stop (if end_stream then (if is_read then close_stream PROTOCOL_VIOLATION (s\<lparr>cst := st\<rparr>) else s\<lparr>cst := st, chain := []\<rparr>)
                 else s\<lparr>cst := st\<rparr>)
         else Stop (close_stream PROTOCOL_VIOLATION (s\<lparr>cst := st\<rparr>))
     | Gone st \<Rightarrow> Stop (close_stream PROTOCOL_VIOLATION (s\<lparr>cst := st\<rparr>))
     | Got m st n \<Rightarrow>
         (case stream_message prof m (s\<lparr>cst := st, chain := drop n (chain s)\<rparr>) of
            Stop s' \<Rightarrow> Stop s'
          | Done s' \<Rightarrow> control_loop C tol d prof route is_read end_stream s'))"
  by pat_completeness auto

termination
proof (relation "measure (\<lambda>(C, tol, d, prof, route, r, e, s). length (chain s))", goal_cases)
  case (2 C tol d prof route is_read end_stream s m st n s')
  then show ?case
    using handled_progress [of C tol d prof route "cst s" "chain s" m st n] stream_message_chain [of prof m "s\<lparr>cst := st, chain := drop n (chain s)\<rparr>" s']
    by auto
qed auto

declare control_loop.simps [simp del]

definition on_control_data ::
    "vcodec \<Rightarrow> bool \<Rightarrow> int \<Rightarrow> DraftProfile \<Rightarrow> (control_msg \<Rightarrow> 'x \<Rightarrow> 'x \<times> unit result) \<Rightarrow> bool \<Rightarrow> bytes \<Rightarrow> bool \<Rightarrow> 'x ctl_stream \<Rightarrow> 'x ctl_stream" where
  "on_control_data C tol d prof route is_read data end_stream s =
    (case control_loop C tol d prof route is_read end_stream (s\<lparr>chain := chain s @ data\<rparr>) of
       Stop s' \<Rightarrow> s'
     | Done s' \<Rightarrow>
         if end_stream then (if is_read then close_stream PROTOCOL_VIOLATION s' else s'\<lparr>chain := []\<rparr>)
         else s')"

section \<open>Reassembly\<close>

text \<open>What the session does with a sequence of messages, without bytes: the specification.\<close>

definition deliver :: "DraftProfile \<Rightarrow> (control_msg \<Rightarrow> 'x \<Rightarrow> 'x \<times> unit result) \<Rightarrow> control_msg \<Rightarrow> 'x ctl_stream \<Rightarrow> 'x looped" where
  "deliver prof route m s =
    (case accept_message route m True 0 (cst s) of
       Got m' st n \<Rightarrow> stream_message prof m' (s\<lparr>cst := st\<rparr>)
     | Gone st \<Rightarrow> Stop (close_stream PROTOCOL_VIOLATION (s\<lparr>cst := st\<rparr>))
     | Threw err st \<Rightarrow> Stop (close_stream PROTOCOL_VIOLATION (s\<lparr>cst := st\<rparr>)))"

fun deliver_all :: "DraftProfile \<Rightarrow> (control_msg \<Rightarrow> 'x \<Rightarrow> 'x \<times> unit result) \<Rightarrow> control_msg list \<Rightarrow> 'x ctl_stream \<Rightarrow> 'x looped" where
  "deliver_all prof route [] s = Done s"
| "deliver_all prof route (m # ms) s =
    (case deliver prof route m s of Done s' \<Rightarrow> deliver_all prof route ms s' | Stop s' \<Rightarrow> Stop s')"

text \<open>
  What reassembly relies on beyond \<open>vcodec_laws\<close>: an integer that is complete is read the same when more bytes
  follow it.
\<close>

locale vcodec_stream = vcodec_laws C for C :: vcodec +
  assumes var_more: "dec_var C bs = Some (n, k) \<Longrightarrow> dec_var C (bs @ ys) = Some (n, k)"
    and vi64_more: "dec_vi64 C bs = Some (n, k) \<Longrightarrow> dec_vi64 C (bs @ ys) = Some (n, k)"
begin

lemma partial_vint:
  assumes "reads f (pull_vint C) (xs @ ys) t" "ys \<noteq> []" "rest_of b = xs" "rb_vi64 b = f"
  shows "pull_vint C b = Inl (short_read b)"
proof (rule ccontr)
  let ?dec = "if f then dec_vi64 C else dec_var C" and ?b = "new_rbuf (xs @ ys) f"
  assume "\<not> ?thesis"
  then obtain n k where k: "?dec xs = Some (n, k)" "k \<le> length xs"
    using assms(3,4) by (auto simp: pull_vint_def pull_with_def split: option.splits if_splits)
  then have "?dec (xs @ ys) = Some (n, k)" using var_more vi64_more by (auto split: if_splits)
  then have "pull_vint C ?b = Inl (short_read ?b) \<or> pull_vint C ?b = Inr (n, adv ?b k)"
    by (auto simp: pull_vint_def pull_with_def new_rbuf_def rest_of_def)
  moreover have "pull_vint C ?b = Inr (t, adv ?b (length (xs @ ys)))"
    by (rule readsD [OF assms(1)]) (simp add: has_def new_rbuf_def rest_of_def)
  ultimately show False using k(2) assms(2) by (auto simp: adv_def new_rbuf_def)
qed

lemma partial_frame_underflow:
  assumes "framed C prof t p bs" "strict_prefix part bs"
  shows "frame_header C prof (chain_buf part) = Inl MOQTUnderflow"
proof -
  let ?b = "(chain_buf part)\<lparr>rb_vi64 := vi64 prof\<rparr>"
  obtain tb lb where t: "reads (vi64 prof) (pull_vint C) tb t" and l: "push_uint16 C (int (length p)) = Inr lb" and bs: "bs = tb @ lb @ p"
    using assms(1) by (auto simp: framed_def)
  have l2: "length lb = 2" using u16_rt l by (auto simp: push_uint16_def push_with_def of_option_eq_Inr)
  obtain q where q: "bs = part @ q" "q \<noteq> []" using assms(2) by (auto simp: strict_prefix_def prefix_def)
  have pre: "prefix part bs" "prefix tb bs" by (simp add: q(1), simp add: bs)
  show ?thesis
  proof (cases "length part < length tb")
    case True
    then have "prefix part tb" using prefix_length_prefix [OF pre] by simp
    then obtain ys where ys: "tb = part @ ys" by (auto simp: prefix_def)
    have "pull_vint C ?b = Inl (short_read ?b)"
      using True t ys by (intro partial_vint [of "vi64 prof" part ys t]) (auto simp: chain_buf_def rest_of_def)
    then show ?thesis by (simp add: frame_header_def rbind_def set_vi64_def rcatch_def short_read_def is_short_read_def rfail_def)
  next
    case False
    then have "prefix tb part" using prefix_length_prefix [OF pre(2,1)] by simp
    then obtain r where r: "part = tb @ r" "r @ q = lb @ p" using q(1) bs by (auto simp: prefix_def)
    have h: "has (vi64 prof) ?b tb" by (simp add: has_def chain_buf_def rest_of_def r(1))
    have v: "pull_vint C ?b = Inr (t, adv ?b (length tb))" by (rule readsD [OF t h])
    show ?thesis
    proof (cases "length r < 2")
      case True
      have "\<not> (\<exists>n k. dec_u16 C r = Some (n, k))" using u16_dec [of r] True by fastforce
      then have "pull_uint16 C (adv ?b (length tb)) = Inl MOQTUnderflow"
        by (auto simp: pull_uint16_def pull_with_def rest_of_def adv_def chain_buf_def r(1) short_read_def split: option.splits)
      then show ?thesis using v by (simp add: frame_header_def rbind_def set_vi64_def rcatch_def is_short_read_def rfail_def)
    next
      case False
      then have "prefix lb r" using prefix_length_prefix [of lb "lb @ p" r] r(2) l2 by (simp add: prefix_def) metis
      then obtain r' where r': "r = lb @ r'" "r' @ q = p" using r(2) by (auto simp: prefix_def)
      have "has (vi64 prof) (adv ?b (length tb)) lb" using h by (simp add: has_def chain_buf_def rest_of_def adv_def r(1) r'(1))
      then have "pull_uint16 C (adv ?b (length tb)) = Inr (int (length p), adv ?b (length tb + 2))"
        using readsD [OF reads_uint16 [OF l]] l2 by (simp add: adv_def)
      moreover have "length tb + 2 + length p > length part" using r r' l2 q(2) by auto
      ultimately show ?thesis using v
        by (simp add: frame_header_def rbind_def set_vi64_def rcatch_def rret_def rtell_def rcapacity_def rguard_def rfail_def adv_def
            chain_buf_def capacity_def)
    qed
  qed
qed

end

lemma tag_dec_more: "tag_dec off n bs = Some (v, k) \<Longrightarrow> bs \<noteq> [] \<Longrightarrow> tag_dec off n (bs @ ys) = Some (v, k)"
  by (cases bs) (auto simp: tag_dec_def split: if_splits)

lemma rfc9000_more: "rfc9000_dec bs = Some (n, k) \<Longrightarrow> rfc9000_dec (bs @ ys) = Some (n, k)"
  by (auto simp: rfc9000_dec_def Let_def tag_dec_more split: if_splits)

lemma vi64_more: "vi64_dec bs = Some (n, k) \<Longrightarrow> vi64_dec (bs @ ys) = Some (n, k)"
  by (auto simp: vi64_dec_def Let_def tag_dec_more split: if_splits)

interpretation std_stream: vcodec_stream std_codec
  by unfold_locales (auto simp: std_codec_def rfc9000_more vi64_more)

text \<open>A message and its frame, as the peer wrote it.\<close>

definition sent_as :: "vcodec \<Rightarrow> bool \<Rightarrow> int \<Rightarrow> DraftProfile \<Rightarrow> control_msg \<Rightarrow> bytes \<Rightarrow> bool" where
  "sent_as C tol d prof m bs \<longleftrightarrow> defined_at d (class_of m) \<and> control_serialize C prof m = Inr bs \<and> control_ok C tol prof m"

lemma frame_header_vi64: "frame_header C prof (b\<lparr>rb_vi64 := x\<rparr>) = frame_header C prof b"
  by (simp add: frame_header_def rbind_def set_vi64_def)

lemma sent_framed:
  assumes "vcodec_laws C" "profile_for d = Inr prof" "draft prof = d" "sent_as C tol d prof m bs"
  obtains p where "control_payload C prof m = Inr p" "framed C prof (wire_type prof (class_of m)) p bs"
  using assms vcodec_laws.control_framed [OF assms(1)] defined_entry [OF assms(2,3)] unfolding sent_as_def by metis

lemma handle_sent:
  assumes laws: "vcodec_laws C" and prof: "profile_for d = Inr prof" "draft prof = d" and sent: "sent_as C tol d prof m bs"
  shows "handle_control_message C tol d prof route st (chain_buf (bs @ ys)) = accept_message route (control_received prof m) True (length bs) st"
proof -
  let ?b = "(chain_buf (bs @ ys))\<lparr>rb_vi64 := vi64 prof\<rparr>"
  obtain p where p: "control_payload C prof m = Inr p" "framed C prof (wire_type prof (class_of m)) p bs"
    using sent_framed [OF assms] by blast
  have h: "has (vi64 prof) ?b bs" by (simp add: has_def chain_buf_def rest_of_def)
  have ok: "control_ok C tol prof m" "defined_at d (class_of m)" using sent by (simp_all add: sent_as_def)
  obtain b' where b': "frame_header C prof ?b = Inr ((wire_type prof (class_of m), rb_pos ?b + length bs), b')"
    "frame_body (control_deserialize C tol (class_of m) prof) (rb_pos ?b + length bs) b' = Inr (control_received prof m, adv ?b (length bs))"
    using message_codec.frame_reads [OF control_message_codec [OF laws] p(1) ok(1) p(2) h] by blast
  have "parse_body C tol d prof (wire_type prof (class_of m)) (length bs) b' = Inr (control_received prof m, adv ?b (length bs))"
    using b'(2) defined_entry [OF prof ok(2)] by (simp add: parse_body_def rsteps chain_buf_def)
  moreover have "bs \<noteq> []"
    using p(2) by (auto simp: framed_def push_uint16_def push_with_def of_option_eq_Inr dest!: vcodec_laws.u16_rt [OF laws])
  moreover have "capacity (chain_buf (bs @ ys)) = 0 \<longleftrightarrow> bs = [] \<and> ys = []" "rb_pos ?b = 0" by (simp_all add: chain_buf_def capacity_def)
  ultimately show ?thesis using b'(1) [unfolded frame_header_vi64] by (simp add: handle_control_message_def adv_def)
qed

lemma accept_position:
  "accept_message route m True n st =
    (case accept_message route m True 0 st of Got m' st' _ \<Rightarrow> Got m' st' n | Gone st' \<Rightarrow> Gone st' | Threw err st' \<Rightarrow> Threw err st')"
  by (auto simp: accept_message_def failed_def Let_def split: option.splits sum.splits prod.splits)

lemma stream_message_set_chain:
  "stream_message prof m s = Done s' \<Longrightarrow> stream_message prof m (s\<lparr>chain := c\<rparr>) = Done (s'\<lparr>chain := c\<rparr>)"
  by (cases s) (auto simp: stream_message_def Let_def split: if_splits control_msg.splits option.splits)

lemma accept_msg: "accept_message route m c n st = Got m' st' n' \<Longrightarrow> m' = m \<and> n' = n"
  by (auto simp: accept_message_def failed_def Let_def split: option.splits sum.splits prod.splits if_splits)

lemma deliver_Done:
  "deliver prof route m s = Done s' \<longleftrightarrow>
    (\<exists>st. accept_message route m True 0 (cst s) = Got m st 0 \<and> stream_message prof m (s\<lparr>cst := st\<rparr>) = Done s')"
  by (auto simp: deliver_def split: handled.splits dest: accept_msg)

lemma cst_chain_comm: "s\<lparr>chain := c, cst := x\<rparr> = s\<lparr>cst := x, chain := c\<rparr>"
  by (cases s) simp

lemma deliver_set_chain: "deliver prof route m s = Done s' \<Longrightarrow> deliver prof route m (s\<lparr>chain := c\<rparr>) = Done (s'\<lparr>chain := c\<rparr>)"
  unfolding deliver_Done cst_chain_comm using stream_message_set_chain by fastforce

lemma deliver_all_set_chain:
  "deliver_all prof route ms s = Done s' \<Longrightarrow> deliver_all prof route ms (s\<lparr>chain := c\<rparr>) = Done (s'\<lparr>chain := c\<rparr>)"
proof (induction ms arbitrary: s)
  case (Cons m ms)
  then obtain s1 where "deliver prof route m s = Done s1" "deliver_all prof route ms s1 = Done s'" by (auto split: looped.splits)
  then show ?case using Cons.IH deliver_set_chain [of prof route m s s1 c] by simp
qed simp

lemma deliver_chain: "deliver prof route m s = Done s' \<Longrightarrow> chain s' = chain s"
  by (auto simp: deliver_Done dest!: stream_message_chain)

lemma deliver_all_chain: "deliver_all prof route ms s = Done s' \<Longrightarrow> chain s' = chain s"
  by (induction ms arbitrary: s) (auto split: looped.splits dest!: deliver_chain)

lemma deliver_all_append:
  "deliver_all prof route (ms @ ns) s = (case deliver_all prof route ms s of Done s' \<Rightarrow> deliver_all prof route ns s' | Stop s' \<Rightarrow> Stop s')"
  by (induction ms arbitrary: s) (auto split: looped.splits)

lemma loop_sent:
  assumes "vcodec_laws C" "profile_for d = Inr prof" "draft prof = d" "sent_as C tol d prof m bs" "chain s = bs @ ys"
    and "deliver prof route (control_received prof m) (s\<lparr>chain := ys\<rparr>) = Done s'"
  shows "control_loop C tol d prof route is_read end_stream s = control_loop C tol d prof route is_read end_stream s'"
proof -
  obtain st where a: "accept_message route (control_received prof m) True 0 (cst s) = Got (control_received prof m) st 0"
    and d: "stream_message prof (control_received prof m) (s\<lparr>cst := st, chain := ys\<rparr>) = Done s'"
    using assms(6) unfolding deliver_Done cst_chain_comm by auto
  have "handle_control_message C tol d prof route (cst s) (chain_buf (chain s)) = Got (control_received prof m) st (length bs)"
    using handle_sent [OF assms(1-4), of route "cst s" ys] a unfolding assms(5) by (subst (asm) accept_position) simp
  moreover from this have "chain s \<noteq> []" by (rule handled_progress)
  ultimately show ?thesis using d by (subst control_loop.simps) (auto simp: assms(5))
qed

definition partial_frame :: "vcodec \<Rightarrow> DraftProfile \<Rightarrow> bytes \<Rightarrow> bool" where
  "partial_frame C prof part \<longleftrightarrow> part = [] \<or> (\<exists>t p bs. framed C prof t p bs \<and> strict_prefix part bs)"

lemma loop_all:
  assumes "vcodec_stream C" "profile_for d = Inr prof" "draft prof = d" "list_all2 (sent_as C tol d prof) ms bss"
    and "chain s = concat bss @ part" "partial_frame C prof part"
    and "deliver_all prof route (map (control_received prof) ms) (s\<lparr>chain := part\<rparr>) = Done s'"
  shows "control_loop C tol d prof route is_read False s \<in> {Done s', Stop s'}"
  using assms(4,5,7)
proof (induction ms bss arbitrary: s rule: list_all2_induct)
  case Nil
  then have s: "s' = s" "chain s = part" by (auto simp: list.rel_sel)
  show ?case
  proof (cases "part = []")
    case False
    then have "handle_control_message C tol d prof route (cst s) (chain_buf part) = Threw MOQTUnderflow (cst s)"
      using assms(6) vcodec_stream.partial_frame_underflow [OF assms(1)]
      by (auto simp: partial_frame_def handle_control_message_def chain_buf_def capacity_def)
    then show ?thesis using False s by (subst control_loop.simps) simp
  qed (use s in \<open>subst control_loop.simps; simp\<close>)
next
  case (Cons m ms bs bss)
  have laws: "vcodec_laws C" using assms(1) by (simp add: vcodec_stream_def)
  obtain s1 where s1: "deliver prof route (control_received prof m) (s\<lparr>chain := part\<rparr>) = Done s1"
    and rest: "deliver_all prof route (map (control_received prof) ms) s1 = Done s'"
    using Cons.prems(2) by (auto split: looped.splits)
  let ?ys = "concat bss @ part"
  have "deliver prof route (control_received prof m) (s\<lparr>chain := ?ys\<rparr>) = Done (s1\<lparr>chain := ?ys\<rparr>)"
    using deliver_set_chain [OF s1, of ?ys] by simp
  then have "control_loop C tol d prof route is_read False s = control_loop C tol d prof route is_read False (s1\<lparr>chain := ?ys\<rparr>)"
    using Cons.prems(1) Cons.hyps(1) by (intro loop_sent [OF laws assms(2,3)]) auto
  moreover have "chain s1 = part" using deliver_chain [OF s1] by simp
  then have "s1\<lparr>chain := part\<rparr> = s1" by (cases s1) simp
  then have "control_loop C tol d prof route is_read False (s1\<lparr>chain := ?ys\<rparr>) \<in> {Done s', Stop s'}"
    using rest by (intro Cons.IH) simp_all
  ultimately show ?case by simp
qed

lemma split_frames:
  assumes "X @ Y = concat fs @ part" "partial_frame C prof part" "\<forall>f \<in> set fs. \<exists>t p. framed C prof t p f"
  shows "\<exists>k R. X = concat (take k fs) @ R \<and> R @ Y = concat (drop k fs) @ part \<and> partial_frame C prof R
    \<and> (drop k fs \<noteq> [] \<longrightarrow> length R < length (hd (drop k fs)))"
  using assms(1,3)
proof (induction fs arbitrary: X)
  case Nil
  then have "prefix X part" by (auto simp: prefix_def)
  then have "partial_frame C prof X"
    using assms(2) by (auto simp: partial_frame_def dest: prefix_order.le_less_trans)
  then show ?case using Nil by (intro exI [of _ 0] exI [of _ X]) simp
next
  case (Cons f fs)
  have pre: "prefix X (f @ concat fs @ part)" "prefix f (f @ concat fs @ part)"
    using Cons.prems(1) by (metis append.assoc concat.simps(2) prefix_def, simp)
  show ?case
  proof (cases "length X < length f")
    case True
    then have "strict_prefix X f" using prefix_length_prefix [OF pre] by (auto simp: strict_prefix_def)
    then have "partial_frame C prof X" using Cons.prems(2) by (auto simp: partial_frame_def)
    then show ?thesis using True Cons.prems(1) by (intro exI [of _ 0] exI [of _ X]) simp
  next
    case False
    then have "prefix f X" using prefix_length_prefix [OF pre(2,1)] by simp
    then obtain X' where X': "X = f @ X'" by (auto simp: prefix_def)
    then obtain k R where "X' = concat (take k fs) @ R" "R @ Y = concat (drop k fs) @ part" "partial_frame C prof R"
      "drop k fs \<noteq> [] \<longrightarrow> length R < length (hd (drop k fs))"
      using Cons.IH [of X'] Cons.prems by auto
    then show ?thesis using X' by (intro exI [of _ "Suc k"] exI [of _ R]) simp
  qed
qed

definition feed :: "vcodec \<Rightarrow> bool \<Rightarrow> int \<Rightarrow> DraftProfile \<Rightarrow> (control_msg \<Rightarrow> 'x \<Rightarrow> 'x \<times> unit result) \<Rightarrow> bool \<Rightarrow> bytes list \<Rightarrow> 'x ctl_stream \<Rightarrow> 'x ctl_stream" where
  "feed C tol d prof route is_read chunks s = foldl (\<lambda>s c. on_control_data C tol d prof route is_read c False s) s chunks"

lemma feed_frames:
  assumes stream: "vcodec_stream C" and prof: "profile_for d = Inr prof" "draft prof = d" and part: "partial_frame C prof part"
    and "list_all2 (sent_as C tol d prof) ms bss" "chain s @ concat chunks = concat bss @ part"
    and "bss \<noteq> [] \<longrightarrow> length (chain s) < length (hd bss)"
    and "deliver_all prof route (map (control_received prof) ms) (s\<lparr>chain := []\<rparr>) = Done s1"
  shows "feed C tol d prof route is_read chunks s = s1\<lparr>chain := part\<rparr>"
  using assms(5-8)
proof (induction chunks arbitrary: ms bss s)
  case Nil
  have "bss = []"
  proof (rule ccontr)
    assume "bss \<noteq> []"
    then obtain b bs where "bss = b # bs" by (cases bss) auto
    then show False using Nil.prems(2,3) by simp
  qed
  then have "ms = []" "chain s = part" using Nil.prems(1,2) by auto
  then show ?case using Nil.prems(4) by (cases s) (auto simp: feed_def)
next
  case (Cons c cs)
  have laws: "vcodec_laws C" using stream by (simp add: vcodec_stream_def)
  have "\<forall>f \<in> set bss. \<exists>t p. framed C prof t p f"
  proof
    fix f assume "f \<in> set bss"
    then obtain m where "sent_as C tol d prof m f" using Cons.prems(1) by (auto simp: list_all2_conv_all_nth in_set_conv_nth)
    then show "\<exists>t p. framed C prof t p f" by (metis sent_framed [OF laws prof])
  qed
  moreover have "(chain s @ c) @ concat cs = concat bss @ part" using Cons.prems(2) by simp
  ultimately obtain k R where X: "chain s @ c = concat (take k bss) @ R" and Y: "R @ concat cs = concat (drop k bss) @ part"
    and R: "partial_frame C prof R" "drop k bss \<noteq> [] \<longrightarrow> length R < length (hd (drop k bss))"
    using split_frames [OF _ part, of "chain s @ c" "concat cs" bss] by blast
  have ms: "map (control_received prof) ms = map (control_received prof) (take k ms) @ map (control_received prof) (drop k ms)"
    by (metis append_take_drop_id map_append)
  obtain s2 where s2: "deliver_all prof route (map (control_received prof) (take k ms)) (s\<lparr>chain := []\<rparr>) = Done s2"
    and s1: "deliver_all prof route (map (control_received prof) (drop k ms)) s2 = Done s1"
    using Cons.prems(4) unfolding ms deliver_all_append by (auto split: looped.splits)
  have "deliver_all prof route (map (control_received prof) (take k ms)) (s\<lparr>chain := chain s @ c, chain := R\<rparr>) = Done (s2\<lparr>chain := R\<rparr>)"
    using deliver_all_set_chain [OF s2, of R] by simp
  then have "control_loop C tol d prof route is_read False (s\<lparr>chain := chain s @ c\<rparr>) \<in> {Done (s2\<lparr>chain := R\<rparr>), Stop (s2\<lparr>chain := R\<rparr>)}"
    using X R(1) Cons.prems(1) by (intro loop_all [OF stream prof]) auto
  then have "on_control_data C tol d prof route is_read c False s = s2\<lparr>chain := R\<rparr>" by (auto simp: on_control_data_def)
  moreover have "chain s2 = []" using deliver_all_chain [OF s2] by simp
  then have "(s2\<lparr>chain := R\<rparr>)\<lparr>chain := []\<rparr> = s2" by (cases s2) simp
  then have "feed C tol d prof route is_read cs (s2\<lparr>chain := R\<rparr>) = s1\<lparr>chain := part\<rparr>"
    using Cons.prems(1) Y R(2) s1 by (intro Cons.IH [of "drop k ms" "drop k bss"]) auto
  ultimately show ?case by (simp add: feed_def)
qed

text \<open>
  C4: reassembly of the control stream. Take the frames of any legal messages, optionally followed by the
  beginning of one more, and cut the bytes into chunks anywhere, also inside a header: feeding the chunks one by
  one leaves the session exactly as handling the messages themselves, in order, would (if none of them closes it),
  with the incomplete frame retained for the next chunk.
\<close>

theorem control_stream_reassembly:
  assumes "vcodec_stream C" "profile_for d = Inr prof" "draft prof = d"
    and "list_all2 (sent_as C tol d prof) ms bss"
    and "part = [] \<or> (\<exists>m bs. sent_as C tol d prof m bs \<and> strict_prefix part bs)"
    and "concat chunks = concat bss @ part" "chain s = []"
    and "deliver_all prof route (map (control_received prof) ms) s = Done s'"
  shows "feed C tol d prof route is_read chunks s = s'\<lparr>chain := part\<rparr>"
proof -
  have laws: "vcodec_laws C" using assms(1) by (simp add: vcodec_stream_def)
  have framed: "sent_as C tol d prof m bs \<Longrightarrow> \<exists>t p. framed C prof t p bs" for m bs
    by (metis sent_framed [OF laws assms(2,3)])
  have part: "partial_frame C prof part" using assms(5) framed unfolding partial_frame_def by meson
  have ne: "bss \<noteq> [] \<longrightarrow> length (chain s) < length (hd bss)"
  proof
    assume "bss \<noteq> []"
    then obtain b bs m where b: "bss = b # bs" "sent_as C tol d prof m b" using assms(4) by (cases bss) (auto simp: list_all2_Cons2)
    then obtain t p where "framed C prof t p b" using framed by blast
    then have "b \<noteq> []"
      by (auto simp: framed_def push_uint16_def push_with_def of_option_eq_Inr dest!: vcodec_laws.u16_rt [OF laws])
    then show "length (chain s) < length (hd bss)" using b(1) assms(7) by simp
  qed
  have "s\<lparr>chain := []\<rparr> = s" using assms(7) by (cases s) simp
  then have d: "deliver_all prof route (map (control_received prof) ms) (s\<lparr>chain := []\<rparr>) = Done s'" using assms(8) by (simp only:)
  show ?thesis by (rule feed_frames [OF assms(1-3) part assms(4) _ ne d]) (simp add: assms(6,7))
qed

definition empty_stream :: "bool \<Rightarrow> 'x \<Rightarrow> 'x ctl_stream" where
  "empty_stream client x = \<lparr>cst = \<lparr>ids = init_ids client, track_default_priority = [], rest = x\<rparr>, chain = [], goaway_seen = False\<rparr>"

definition log_route :: "control_msg \<Rightarrow> control_msg list \<Rightarrow> control_msg list \<times> unit result" where
  "log_route m ms = (ms @ [m], Inr ())"

theorem control_stream_reassembly_witness:
  "\<exists>s'. feed std_codec False 16 PROFILE_D16 log_route True [[0x15], [0, 1, 5, 0x0A, 0], [1, 2, 0x15]] (empty_stream True []) = s'
    \<and> rest (cst s') = [M_MaxSubscribeId (Some 5), M_Unsubscribe (Some 2)] \<and> chain s' = [0x15]"
proof -
  let ?ms = "[M_MaxSubscribeId (Some 5), M_Unsubscribe (Some 2)]" and ?bss = "[[0x15, 0, 1, 5], [0x0A, 0, 1, 2]] :: bytes list"
  let ?s = "empty_stream True []" and ?recv = "map (control_received PROFILE_D16) [M_MaxSubscribeId (Some 5), M_Unsubscribe (Some 2)]"
  have 1: "profile_for 16 = Inr PROFILE_D16" "draft PROFILE_D16 = 16" by code_simp+
  have def: "defined_at 16 K_MaxSubscribeId" "defined_at 16 K_Unsubscribe"
    by code_simp+
  have ser: "control_serialize std_codec PROFILE_D16 (M_MaxSubscribeId (Some 5)) = Inr [0x15, 0, 1, 5]"
    "control_serialize std_codec PROFILE_D16 (M_Unsubscribe (Some 2)) = Inr [0x0A, 0, 1, 2]" by code_simp+
  have sent: "list_all2 (sent_as std_codec False 16 PROFILE_D16) ?ms ?bss" using def ser by (simp add: sent_as_def)
  have part: "[0x15] = [] \<or> (\<exists>m bs. sent_as std_codec False 16 PROFILE_D16 m bs \<and> strict_prefix [0x15] bs)"
    using sent by (intro disjI2 exI [of _ "M_MaxSubscribeId (Some 5)"] exI [of _ "[0x15, 0, 1, 5]"]) simp
  have dl: "deliver_all PROFILE_D16 log_route ?recv ?s = Done (?s\<lparr>cst := (cst ?s)\<lparr>rest := ?ms\<rparr>\<rparr>)"
    by (simp add: deliver_def accept_message_def policed_id_def latch_def log_route_def empty_stream_def stream_message_def profile_defs)
  have "feed std_codec False 16 PROFILE_D16 log_route True [[0x15], [0, 1, 5, 0x0A, 0], [1, 2, 0x15]] ?s
      = (?s\<lparr>cst := (cst ?s)\<lparr>rest := ?ms\<rparr>\<rparr>)\<lparr>chain := [0x15]\<rparr>"
    by (rule control_stream_reassembly [OF std_stream.vcodec_stream_axioms 1 sent part _ _ dl]) (simp_all add: empty_stream_def)
  then show ?thesis by (simp add: empty_stream_def)
qed

section \<open>Errors\<close>

lemma frame_header_error: "frame_header C prof b = Inl err \<Longrightarrow> err = MOQTUnderflow"
  by (auto simp: frame_header_def rbind_def set_vi64_def rcatch_def rret_def rfail_def rtell_def rcapacity_def rguard_def pull_vint_def
      pull_uint16_def pull_with_def is_short_read_def short_read_def Let_def split: sum.splits if_splits option.splits prod.splits)

lemma close_session_closed: "close_err (close_session c s) \<noteq> None"
  by (simp add: close_session_def split: option.splits)

lemma failed_cases: "case failed err st of Gone st' \<Rightarrow> close_err (ids st') \<noteq> None | Threw e st' \<Rightarrow> e = err \<and> st' = st \<and> close_code e = None | Got _ _ _ \<Rightarrow> False"
  by (simp add: failed_def close_ctl_def close_session_closed split: option.splits)

lemma accept_closes:
  "case accept_message route m complete n st of
     Gone st' \<Rightarrow> close_err (ids st') \<noteq> None | Threw e st' \<Rightarrow> close_code e = None | Got m' st' n' \<Rightarrow> complete \<and> n' = n"
proof -
  have "check_peer_request rid i \<noteq> None \<Longrightarrow> close_err (admit_peer_request upd rid i) \<noteq> None" for upd rid i
    by (auto simp: admit_peer_request_def close_session_closed [simplified])
  then show ?thesis
    using failed_cases by (auto simp: accept_message_def Let_def failed_def close_ctl_def close_session_closed [simplified]
        split: option.splits sum.splits prod.splits)
qed

text \<open>
  C26: what handling control bytes can end in. More bytes are asked for only while the header or the declared
  length is incomplete, and then nothing of the session changed. A complete frame never waits: it is consumed
  exactly, or the session is closed, or an exception that is not a wire error of the peer is passed on.
\<close>

theorem control_message_outcomes:
  assumes "capacity b \<noteq> 0"
  shows "case handle_control_message C tol d prof route st b of
      Got m st' n \<Rightarrow> \<exists>t b1. frame_header C prof b = Inr ((t, n), b1)
    | Gone st' \<Rightarrow> close_err (ids st') \<noteq> None
    | Threw err st' \<Rightarrow> (frame_header C prof b = Inl err \<and> err = MOQTUnderflow \<and> st' = st)
        \<or> ((\<exists>x. frame_header C prof b = Inr x) \<and> close_code err = None)"
proof (cases "frame_header C prof b")
  case (Inl err)
  then show ?thesis using assms frame_header_error [OF Inl] by (simp add: handle_control_message_def)
next
  case (Inr a)
  obtain t e b1 where a: "a = ((t, e), b1)" by (metis surj_pair)
  show ?thesis
  proof (cases "parse_body C tol d prof t e b1")
    case (Inl err)
    then show ?thesis using assms Inr a failed_cases [of err st]
      by (auto simp: handle_control_message_def split: handled.splits)
  next
    case (Inr x)
    obtain m b2 where x: "x = (m, b2)" by (metis surj_pair)
    have "rb_pos b2 \<le> e" using Inr x
      by (auto simp: parse_body_def frame_body_def rbind_eq_Inr rguard_def rret_def rfail_def rtell_def rlift_def split: if_splits sum.splits)
    then show ?thesis using assms \<open>frame_header C prof b = Inr a\<close> a Inr x accept_closes [where route = route and m = m and complete = "e \<le> rb_pos b2" and n = "rb_pos b2" and st = st]
      by (auto simp: handle_control_message_def split: handled.splits)
  qed
qed

theorem control_message_outcomes_witness:
  "(case handle_control_message std_codec False 16 PROFILE_D16 log_route (cst (empty_stream True [])) (chain_buf [0x3F, 0, 0]) of
     Gone st' \<Rightarrow> close_err (ids st') \<noteq> None | _ \<Rightarrow> False)"
proof -
  let ?h = "handle_control_message std_codec False 16 PROFILE_D16 log_route (cst (empty_stream True [])) (chain_buf [0x3F, 0, 0])"
  have c: "capacity (chain_buf [0x3F, 0, 0]) \<noteq> 0" by (simp add: capacity_def chain_buf_def)
  have "case ?h of Gone _ \<Rightarrow> True | _ \<Rightarrow> False" by code_simp
  then show ?thesis using control_message_outcomes [OF c, where C = std_codec and tol = False and d = 16 and prof = PROFILE_D16
      and route = log_route and st = "cst (empty_stream True [])"]
    by (auto split: handled.splits)
qed

lemma stream_message_closes: "stream_message prof m s = Stop s' \<Longrightarrow> close_err (ids (cst s')) \<noteq> None"
  by (auto simp: stream_message_def close_stream_def close_ctl_def close_session_closed [simplified] Let_def split: if_splits control_msg.splits)

lemma loop_stop_closed:
  "control_loop C tol d prof route True True s = Stop s' \<Longrightarrow> close_err (ids (cst s')) \<noteq> None"
proof (induction C tol d prof route True True s rule: control_loop.induct)
  case (1 C tol d prof route s)
  show ?case
    using 1 stream_message_closes
    by (subst (asm) (2) control_loop.simps)
      (auto simp: close_stream_def close_ctl_def close_session_closed [simplified] split: if_splits handled.splits looped.splits)
qed

text \<open>
  the control stream never ends while the session lives: data carrying its FIN closes the session, whatever
  was received before, a whole message or a truncated one.
\<close>

theorem control_stream_fin_closes:
  "close_err (ids (cst (on_control_data C tol d prof route True data True s))) \<noteq> None"
  using loop_stop_closed [of C tol d prof route "s\<lparr>chain := chain s @ data\<rparr>"]
  by (auto simp: on_control_data_def close_stream_def close_ctl_def close_session_closed [simplified] split: looped.splits)

end
