(* ===== verification/Step_Systems.thy ===== *)
theory Step_Systems
  imports Prelude
begin

text \<open>
  Components that run as a sequence of events: a step function on a state, a property of states, and the events
  under which the property is kept. What each step keeps, every run keeps. The components interpret these
  locales on their own step functions.
\<close>

locale kept_under =
  fixes step :: "'e \<Rightarrow> 's \<Rightarrow> 's"
    and allowed :: "'e \<Rightarrow> bool"
    and inv :: "'s \<Rightarrow> bool"
  assumes keeps: "inv s \<Longrightarrow> allowed e \<Longrightarrow> inv (step e s)"
begin

lemma along: "inv s \<Longrightarrow> list_all allowed es \<Longrightarrow> inv (fold step es s)"
  by (induction es arbitrary: s) (auto simp: keeps)

end

locale step_invariant = kept_under step "\<lambda>_. True" inv
  for step :: "'e \<Rightarrow> 's \<Rightarrow> 's" and inv :: "'s \<Rightarrow> bool" +
  fixes init :: 's
  assumes init: "inv init"
begin

lemma reachable: "inv (fold step es init)"
  using along [OF init] by (simp add: list.pred_True)

end

end
