(* ===== verification/Request_Admission.thy ===== *)
theory Request_Admission
  imports Control_Session Step_Systems
begin

text \<open>
  What a session does with a peer's request before the application sees it, in \<^verbatim>\<open>protocol.py\<close>: the token cache of
  \<^verbatim>\<open>_resolve_auth_token\<close>, the rules of \<^verbatim>\<open>_refuse_request\<close> with the record of admitted subscriptions and prefixes,
  the checks of REQUEST_UPDATE and PUBLISH_STATE_NOTIFY of draft 20, and the operations that end a request.
  The two together are a \<open>route\<close> of \<open>Control_Session\<close>.
\<close>

section \<open>State\<close>

text \<open>
  A track is known by a number (the code compares tracks with \<^verbatim>\<open>is\<close>). A prefix is a tuple of byte strings in
  every message, but the one of a REQUEST_UPDATE is a parameter value, so the elements are parameter values.
\<close>

datatype held_key = Held_Track "pval list" bytes | Held_Prefix "pval list"

record RequestEntry =
  en_role :: string
  en_track :: int
  en_sub :: "int option"
  en_alias :: "int option"

record adm =
  ad_is_client :: bool
  ad_max_filter_ranges :: int
  ad_draining :: bool
  ad_goaway_sent :: bool
  ad_published_tracks :: "((pval list \<times> bytes) \<times> int) list"
  ad_requests :: "RequestEntry dict"
  ad_peer_requests :: "(msg_class \<times> held_key) dict"
  ad_request_kinds :: "(msg_class \<times> bool) dict"
  ad_subscribe_tracks_params :: "params dict"
  ad_auth_tokens :: "(int \<times> bytes) dict"
  ad_auth_token_cache_used :: int
  ad_auth_token_cache_max :: int
  ad_gone_requests :: "int list"

definition REQUEST_KINDS_MAX :: nat where "REQUEST_KINDS_MAX = 4096"
definition GONE_REQUESTS_MAX :: nat where "GONE_REQUESTS_MAX = 1024"

definition DOES_NOT_EXIST :: int where "DOES_NOT_EXIST = 0x10"
definition NOT_SUPPORTED :: int where "NOT_SUPPORTED = 0x03"
definition DUPLICATE_SUBSCRIPTION :: int where "DUPLICATE_SUBSCRIPTION = 0x19"
definition PREFIX_OVERLAP :: int where "PREFIX_OVERLAP = 0x30"
definition INVALID_FILTER :: int where "INVALID_FILTER = 0x36"
definition AUTH_TOKEN_CACHE_OVERFLOW :: int where "AUTH_TOKEN_CACHE_OVERFLOW = 0x13"
definition DUPLICATE_AUTH_TOKEN_ALIAS :: int where "DUPLICATE_AUTH_TOKEN_ALIAS = 0x14"
definition UNKNOWN_AUTH_TOKEN_ALIAS :: int where "UNKNOWN_AUTH_TOKEN_ALIAS = 0x17"

text \<open>
  The handler that answers a refused request, with the arguments it closes over: \<open>Refusal m rid code\<close> of
  \<^verbatim>\<open>_refusal\<close>, \<open>Drain_Refusal m rid code\<close> of \<^verbatim>\<open>_drain_refusal\<close>.
\<close>

datatype refusal = Refusal control_msg int int | Drain_Refusal control_msg int int

section \<open>Fields the code reads off a message\<close>

text \<open>
  \<^verbatim>\<open>msg.options if isinstance(msg, Setup) else getattr(msg, 'parameters', None)\<close>: the parameters of each class that
  has some, and the message with them replaced (the code changes the dictionary in place).
\<close>

definition msg_params :: "control_msg \<Rightarrow> params option" where
  "msg_params m = (case m of
     M_ClientSetup x \<Rightarrow> cs_parameters x
   | M_ServerSetup x \<Rightarrow> ss_parameters x
   | M_Setup18 ps \<Rightarrow> ps
   | M_Setup20 x \<Rightarrow> su_options x
   | M_SubscribeUpdate x \<Rightarrow> sp_parameters x
   | M_Subscribe x \<Rightarrow> sb_parameters x
   | M_SubscribeOk x \<Rightarrow> so_parameters x
   | M_PublishNamespace x \<Rightarrow> pn_parameters x
   | M_TrackStatus x \<Rightarrow> ts_parameters x
   | M_TrackStatusOk x \<Rightarrow> to_parameters x
   | M_SubscribeNamespace x \<Rightarrow> sn_parameters x
   | M_Fetch x \<Rightarrow> Some (fe_parameters x)
   | M_FetchOk x \<Rightarrow> Some (fk_parameters x)
   | M_Publish x \<Rightarrow> pu_parameters x
   | M_PublishOk x \<Rightarrow> po_parameters x
   | M_RequestUpdate x \<Rightarrow> ru_parameters x
   | M_RequestOk x \<Rightarrow> ro_parameters x
   | M_SubscribeTracks x \<Rightarrow> st_parameters x
   | M_PublishStateNotify x \<Rightarrow> ps_parameters x
   | _ \<Rightarrow> None)"

definition with_params :: "params \<Rightarrow> control_msg \<Rightarrow> control_msg" where
  "with_params ps m = (case m of
     M_ClientSetup x \<Rightarrow> M_ClientSetup (x\<lparr>cs_parameters := Some ps\<rparr>)
   | M_ServerSetup x \<Rightarrow> M_ServerSetup (x\<lparr>ss_parameters := Some ps\<rparr>)
   | M_Setup18 x \<Rightarrow> M_Setup18 (Some ps)
   | M_Setup20 x \<Rightarrow> M_Setup20 (x\<lparr>su_options := Some ps\<rparr>)
   | M_SubscribeUpdate x \<Rightarrow> M_SubscribeUpdate (x\<lparr>sp_parameters := Some ps\<rparr>)
   | M_Subscribe x \<Rightarrow> M_Subscribe (x\<lparr>sb_parameters := Some ps\<rparr>)
   | M_SubscribeOk x \<Rightarrow> M_SubscribeOk (x\<lparr>so_parameters := Some ps\<rparr>)
   | M_PublishNamespace x \<Rightarrow> M_PublishNamespace (x\<lparr>pn_parameters := Some ps\<rparr>)
   | M_TrackStatus x \<Rightarrow> M_TrackStatus (x\<lparr>ts_parameters := Some ps\<rparr>)
   | M_TrackStatusOk x \<Rightarrow> M_TrackStatusOk (x\<lparr>to_parameters := Some ps\<rparr>)
   | M_SubscribeNamespace x \<Rightarrow> M_SubscribeNamespace (x\<lparr>sn_parameters := Some ps\<rparr>)
   | M_Fetch x \<Rightarrow> M_Fetch (x\<lparr>fe_parameters := ps\<rparr>)
   | M_FetchOk x \<Rightarrow> M_FetchOk (x\<lparr>fk_parameters := ps\<rparr>)
   | M_Publish x \<Rightarrow> M_Publish (x\<lparr>pu_parameters := Some ps\<rparr>)
   | M_PublishOk x \<Rightarrow> M_PublishOk (x\<lparr>po_parameters := Some ps\<rparr>)
   | M_RequestUpdate x \<Rightarrow> M_RequestUpdate (x\<lparr>ru_parameters := Some ps\<rparr>)
   | M_RequestOk x \<Rightarrow> M_RequestOk (x\<lparr>ro_parameters := Some ps\<rparr>)
   | M_SubscribeTracks x \<Rightarrow> M_SubscribeTracks (x\<lparr>st_parameters := Some ps\<rparr>)
   | M_PublishStateNotify x \<Rightarrow> M_PublishStateNotify (x\<lparr>ps_parameters := Some ps\<rparr>)
   | _ \<Rightarrow> m)"

text \<open>\<^verbatim>\<open>getattr(msg, 'request_id', None)\<close>, for the classes that carry parameters.\<close>

definition msg_request_id :: "control_msg \<Rightarrow> int option" where
  "msg_request_id m = (case m of
     M_SubscribeUpdate x \<Rightarrow> sp_request_id x
   | M_Subscribe x \<Rightarrow> Some (sb_request_id x)
   | M_SubscribeOk x \<Rightarrow> so_request_id x
   | M_PublishNamespace x \<Rightarrow> Some (pn_request_id x)
   | M_TrackStatus x \<Rightarrow> Some (ts_request_id x)
   | M_TrackStatusOk x \<Rightarrow> Some (to_request_id x)
   | M_SubscribeNamespace x \<Rightarrow> Some (sn_request_id x)
   | M_Fetch x \<Rightarrow> Some (fe_request_id x)
   | M_FetchOk x \<Rightarrow> fk_request_id x
   | M_Publish x \<Rightarrow> Some (pu_request_id x)
   | M_PublishOk x \<Rightarrow> po_request_id x
   | M_RequestUpdate x \<Rightarrow> ru_request_id x
   | M_RequestOk x \<Rightarrow> ro_request_id x
   | M_SubscribeTracks x \<Rightarrow> Some (st_request_id x)
   | M_PublishStateNotify x \<Rightarrow> ps_request_id x
   | _ \<Rightarrow> None)"

text \<open>
  \<^verbatim>\<open>isinstance(msg, self._REQUEST_OPENERS)\<close> with the request's id and its namespace, \<^verbatim>\<open>track_namespace\<close>, \<^verbatim>\<open>namespace\<close>
  or \<^verbatim>\<open>namespace_prefix\<close>.
\<close>

definition opener :: "control_msg \<Rightarrow> (int \<times> pval list) option" where
  "opener m = (case m of
     M_Subscribe x \<Rightarrow> Some (sb_request_id x, map PBytes (sb_track_namespace x))
   | M_Fetch x \<Rightarrow> Some (fe_request_id x, map PBytes (case fe_namespace x of None \<Rightarrow> [] | Some ns \<Rightarrow> ns))
   | M_Publish x \<Rightarrow> Some (pu_request_id x, map PBytes (pu_track_namespace x))
   | M_TrackStatus x \<Rightarrow> Some (ts_request_id x, map PBytes (ts_track_namespace x))
   | M_PublishNamespace x \<Rightarrow> Some (pn_request_id x, map PBytes (pn_namespace x))
   | M_SubscribeNamespace x \<Rightarrow> Some (sn_request_id x, map PBytes (sn_namespace_prefix x))
   | M_SubscribeTracks x \<Rightarrow> Some (st_request_id x, map PBytes (st_namespace_prefix x))
   | _ \<Rightarrow> None)"

section \<open>The token cache\<close>

definition DELETE_ALIAS :: int where "DELETE_ALIAS = 0"
definition REGISTER_ALIAS :: int where "REGISTER_ALIAS = 1"
definition AUTH_TOKEN_KEY :: int where "AUTH_TOKEN_KEY = 0x03"

definition is_any_setup :: "control_msg \<Rightarrow> bool" where
  "is_any_setup m = (case m of
     M_ClientSetup _ \<Rightarrow> True | M_ServerSetup _ \<Rightarrow> True | M_Setup18 _ \<Rightarrow> True | M_Setup20 _ \<Rightarrow> True | _ \<Rightarrow> False)"

definition token_size :: "int \<times> bytes \<Rightarrow> int" where
  "token_size t = 16 + int (length (snd t))"

text \<open>The branch for \<^verbatim>\<open>isinstance(ref, AuthTokenRef)\<close>: the parameters and the cache, a refusal's code, or an exception.\<close>

datatype token_op = Applied params adm | Unknown_Alias | Token_Fault py_error

definition apply_token_ref :: "bool \<Rightarrow> AuthTokenRef \<Rightarrow> params \<Rightarrow> adm \<Rightarrow> token_op" where
  "apply_token_ref in_setup ref ps x =
    (if at_alias_type ref = REGISTER_ALIAS then
       (if dict_get (ad_auth_tokens x) (at_alias ref) \<noteq> None then Token_Fault (MOQTException DUPLICATE_AUTH_TOKEN_ALIAS)
        else let token = (case at_token_type ref of None \<Rightarrow> 0 | Some t \<Rightarrow> t, case at_value ref of None \<Rightarrow> [] | Some v \<Rightarrow> v);
                 ps' = dict_set ps AUTH_TOKEN_KEY (PToken (fst token) (snd token))
             in if ad_auth_token_cache_used x + token_size token \<le> ad_auth_token_cache_max x then
                  Applied ps' (x\<lparr>ad_auth_tokens := dict_set (ad_auth_tokens x) (at_alias ref) token,
                                 ad_auth_token_cache_used := ad_auth_token_cache_used x + token_size token\<rparr>)
                else if \<not> in_setup then Token_Fault (MOQTException AUTH_TOKEN_CACHE_OVERFLOW)
                else Applied ps' x)
     else if in_setup then
       (if \<not> ad_is_client x then Token_Fault (MOQTException PROTOCOL_VIOLATION)
        else Applied (snd (dict_pop ps AUTH_TOKEN_KEY)) x)
     else case dict_get (ad_auth_tokens x) (at_alias ref) of
       None \<Rightarrow> Unknown_Alias
     | Some known \<Rightarrow>
         if at_alias_type ref = DELETE_ALIAS then
           Applied (snd (dict_pop ps AUTH_TOKEN_KEY))
             (x\<lparr>ad_auth_tokens := snd (dict_pop (ad_auth_tokens x) (at_alias ref)),
                ad_auth_token_cache_used := ad_auth_token_cache_used x - token_size known\<rparr>)
         else Applied (dict_set ps AUTH_TOKEN_KEY (PToken (fst known) (snd known))) x)"

text \<open>
  \<^verbatim>\<open>_resolve_auth_token\<close>: the message with its parameters resolved, the cache, and the refusal if there is one.
  \<open>validator\<close> is the application's \<^verbatim>\<open>auth_token_validator\<close>.
\<close>

type_synonym validator = "(int \<times> bytes \<Rightarrow> control_msg \<Rightarrow> int option) option"

definition refusable :: "int \<Rightarrow> control_msg \<Rightarrow> int option" where
  "refusable d m = (if is_any_setup m \<or> \<not> is_draft16_or_later d then None else msg_request_id m)"

definition validate_token :: "validator \<Rightarrow> int \<Rightarrow> control_msg \<Rightarrow> params \<Rightarrow> refusal option" where
  "validate_token V d m ps =
    (case (refusable d m, V,
           case dict_get ps AUTH_TOKEN_KEY of
             Some (PToken t v) \<Rightarrow> Some (t, v) | Some (PBytes v) \<Rightarrow> Some (0, v) | _ \<Rightarrow> None) of
       (Some rid, Some check, Some token) \<Rightarrow> map_option (Refusal m rid) (check token m)
     | _ \<Rightarrow> None)"

definition resolve_auth_token :: "validator \<Rightarrow> int \<Rightarrow> control_msg \<Rightarrow> adm \<Rightarrow> control_msg \<times> adm \<times> refusal option result" where
  "resolve_auth_token V d m x =
    (case msg_params m of
       None \<Rightarrow> (m, x, Inr None)
     | Some [] \<Rightarrow> (m, x, Inr None)
     | Some ps \<Rightarrow>
         (case dict_get ps AUTH_TOKEN_KEY of
            Some (PTokRef ref) \<Rightarrow>
              (case apply_token_ref (is_any_setup m) ref ps x of
                 Token_Fault e \<Rightarrow> (m, x, Inl e)
               | Unknown_Alias \<Rightarrow>
                   (m, x, Inr (map_option (\<lambda>rid. Refusal m rid UNKNOWN_AUTH_TOKEN_ALIAS) (refusable d m)))
               | Applied ps' x' \<Rightarrow> (let m' = with_params ps' m in (m', x', Inr (validate_token V d m' ps'))))
          | _ \<Rightarrow> (m, x, Inr (validate_token V d m ps))))"

section \<open>Filters and request kinds\<close>

definition FILL_PARAMETERS :: int where "FILL_PARAMETERS = 0x23"
definition FORWARD_KEY :: int where "FORWARD_KEY = 0x10"
definition TRACK_NAMESPACE_PREFIX :: int where "TRACK_NAMESPACE_PREFIX = 0x34"

definition filters_refused :: "params \<Rightarrow> adm \<Rightarrow> filter_refusal option result" where
  "filters_refused ps x =
    (let fill = (case dict_get ps FILL_PARAMETERS of Some (PDict fs) \<Rightarrow> fs | _ \<Rightarrow> []) in
     bindR (range_filter_error ps None) (\<lambda>why.
     case why of
       Some w \<Rightarrow> Inr (Some w)
     | None \<Rightarrow>
         bindR (range_filter_error fill None) (\<lambda>why.
         case why of
           Some w \<Rightarrow> Inr (Some w)
         | None \<Rightarrow>
             bindR (range_filter_count ps) (\<lambda>n. bindR (range_filter_count fill) (\<lambda>n'.
             Inr (if ad_max_filter_ranges x < int (n + n') then Some TooManyRanges else None))))))"

definition note_request_kind :: "int \<Rightarrow> msg_class \<Rightarrow> bool \<Rightarrow> adm \<Rightarrow> adm" where
  "note_request_kind rid kind ours x =
    (let kinds = dict_set (ad_request_kinds x) rid (kind, ours)
     in x\<lparr>ad_request_kinds := if REQUEST_KINDS_MAX < length kinds then tl kinds else kinds\<rparr>)"

definition check_publish_state_notify :: "int option \<Rightarrow> adm \<Rightarrow> unit result" where
  "check_publish_state_notify rid x =
    (case Option.bind rid (dict_get (ad_request_kinds x)) of
       None \<Rightarrow> Inr ()
     | Some (cls, ours) \<Rightarrow>
         guardR ((ours \<and> cls = K_Subscribe) \<or> (\<not> ours \<and> cls = K_Publish)) MOQTProtocolViolation)"

section \<open>Admitted requests\<close>

definition publishing :: "pval list \<times> bytes \<Rightarrow> adm \<Rightarrow> bool" where
  "publishing key x =
    (case map_of (ad_published_tracks x) key of
       None \<Rightarrow> False
     | Some track \<Rightarrow>
         list_ex (\<lambda>(rid, en). en_track en = track \<and> en_role en = ''publisher'' \<and> rid mod 2 = (if ad_is_client x then 0 else 1))
           (ad_requests x))"

text \<open>\<^verbatim>\<open>p[:len(q)] == q or q[:len(p)] == p\<close>.\<close>

definition overlaps :: "pval list \<Rightarrow> pval list \<Rightarrow> bool" where
  "overlaps p q \<longleftrightarrow> take (length q) p = q \<or> take (length p) q = p"

definition held_prefix :: "held_key \<Rightarrow> pval list" where
  "held_prefix k = (case k of Held_Track ns name \<Rightarrow> ns | Held_Prefix p \<Rightarrow> p)"

definition prefix_taken :: "msg_class \<Rightarrow> pval list \<Rightarrow> (msg_class \<times> held_key) dict \<Rightarrow> bool" where
  "prefix_taken kind p d = list_ex (\<lambda>(rid, k, other). k = kind \<and> overlaps (held_prefix other) p) d"

definition reserved :: "pval list \<Rightarrow> bool" where
  "reserved ns = (case ns of PBytes b # _ \<Rightarrow> b = [0x2E] \<or> b = [0x2E, 0x73, 0x65, 0x73, 0x73, 0x69, 0x6F, 0x6E] | _ \<Rightarrow> False)"

text \<open>The middle of \<^verbatim>\<open>_refuse_request\<close>: the key a request would be held under, and the code that refuses it.\<close>

definition request_conflict :: "int \<Rightarrow> DraftProfile \<Rightarrow> control_msg \<Rightarrow> pval list \<Rightarrow> adm \<Rightarrow> held_key option \<times> int option" where
  "request_conflict d prof m ns x =
    (if 18 \<le> d \<and> reserved ns then (None, Some DOES_NOT_EXIST)
     else case m of
       M_Subscribe s \<Rightarrow>
         (let key = Held_Track ns (sb_track_name s) in
          (Some key,
           if (K_Subscribe, key) \<in> snd ` set (ad_peer_requests x) \<or> publishing (ns, sb_track_name s) x
           then Some (if 20 \<le> param_table prof then NOT_SUPPORTED else DUPLICATE_SUBSCRIPTION) else None))
     | M_SubscribeNamespace s \<Rightarrow>
         (Some (Held_Prefix ns), if prefix_taken K_SubscribeNamespace ns (ad_peer_requests x) then Some PREFIX_OVERLAP else None)
     | M_SubscribeTracks s \<Rightarrow>
         (Some (Held_Prefix ns), if prefix_taken K_SubscribeTracks ns (ad_peer_requests x) then Some PREFIX_OVERLAP else None)
     | _ \<Rightarrow> (None, None))"

definition SUBSCRIBE_TRACKS_CARRIED :: "int list" where
  "SUBSCRIBE_TRACKS_CARRIED = [0x02, 0x06, 0x10, 0x20, 0x21, 0x22]"

text \<open>What admission records of a request.\<close>

definition record_request :: "DraftProfile \<Rightarrow> int \<Rightarrow> control_msg \<Rightarrow> held_key option \<Rightarrow> adm \<Rightarrow> adm" where
  "record_request prof rid m key x =
    (let x1 = (case key of None \<Rightarrow> x | Some k \<Rightarrow> x\<lparr>ad_peer_requests := dict_set (ad_peer_requests x) rid (class_of m, k)\<rparr>)
     in if 20 \<le> param_table prof \<and> class_of m = K_SubscribeTracks then
          x1\<lparr>ad_subscribe_tracks_params := dict_set (ad_subscribe_tracks_params x1) rid
               (filter (\<lambda>(k, v). k \<in> set SUBSCRIBE_TRACKS_CARRIED) (or_empty (msg_params m)))\<rparr>
        else x1)"

definition admit_request :: "int \<Rightarrow> DraftProfile \<Rightarrow> control_msg \<Rightarrow> int \<Rightarrow> pval list \<Rightarrow> adm \<Rightarrow> adm \<times> refusal option result" where
  "admit_request d prof m rid ns x =
    (let x1 = (if 20 \<le> param_table prof then note_request_kind rid (class_of m) False x else x)
     in if ad_goaway_sent x1 \<and> 18 \<le> d then (x1, Inr (Some (Refusal m rid GOING_AWAY)))
        else case request_conflict d prof m ns x1 of
          (key, Some code) \<Rightarrow> (x1, Inr (Some (Refusal m rid code)))
        | (key, None) \<Rightarrow>
            (case (if 20 \<le> param_table prof then filters_refused (or_empty (msg_params m)) x1 else Inr None) of
               Inl e \<Rightarrow> (x1, Inl e)
             | Inr (Some why) \<Rightarrow> (x1, Inr (Some (Refusal m rid INVALID_FILTER)))
             | Inr None \<Rightarrow> (record_request prof rid m key x1, Inr None)))"

section \<open>Updates\<close>

definition update_scope :: "msg_class \<Rightarrow> string result" where
  "update_scope cls = (case cls of
     K_Subscribe \<Rightarrow> Inr ''Subscription'' | K_Publish \<Rightarrow> Inr ''Subscription'' | K_Fetch \<Rightarrow> Inr ''Fetch''
   | K_PublishNamespace \<Rightarrow> Inr ''PublishNamespace'' | K_SubscribeNamespace \<Rightarrow> Inr ''SubscribeNamespace''
   | K_SubscribeTracks \<Rightarrow> Inr ''SubscribeTracks'' | _ \<Rightarrow> Inl KeyError)"

definition check_d20_update :: "DraftProfile \<Rightarrow> RequestUpdate \<Rightarrow> adm \<Rightarrow> adm \<times> refusal option result" where
  "check_d20_update prof u x =
    (case (ru_existing_request_id u, Option.bind (ru_existing_request_id u) (dict_get (ad_request_kinds x)), ru_request_id u) of
       (Some existing, Some (cls, ours), Some rid) \<Rightarrow>
         if ours \<and> cls \<noteq> K_Publish \<or> \<not> ours \<and> cls = K_TrackStatus then (x, Inl MOQTProtocolViolation)
         else (let ps = or_empty (ru_parameters u) in
           case bindR (update_scope cls) (\<lambda>sc. check_param_scope (map fst ps) (''RequestUpdate:'' @ sc) prof) of
             Inl e \<Rightarrow> (x, Inl e)
           | Inr _ \<Rightarrow>
               if list_ex (\<lambda>(p, _). p \<in> set RANGE_FILTERS) ps \<and> cls = K_Publish \<and> \<not> ours then (x, Inl MOQTProtocolViolation)
               else (case filters_refused ps x of
                   Inl e \<Rightarrow> (x, Inl e)
                 | Inr (Some why) \<Rightarrow> (x, Inr (Some (Refusal (M_RequestUpdate u) rid INVALID_FILTER)))
                 | Inr None \<Rightarrow>
                     (case (dict_get (ad_subscribe_tracks_params x) existing, dict_get ps FORWARD_KEY) of
                        (Some carried, Some fwd) \<Rightarrow>
                          ((if ours then x
                            else x\<lparr>ad_subscribe_tracks_params :=
                                    dict_set (ad_subscribe_tracks_params x) existing (dict_set carried FORWARD_KEY fwd)\<rparr>), Inr None)
                      | _ \<Rightarrow> (x, Inr None))))
     | _ \<Rightarrow> (x, Inr None))"

text \<open>\<^verbatim>\<open>tuple(value)\<close>: a value that cannot be iterated raises.\<close>

definition py_tuple :: "pval \<Rightarrow> pval list result" where
  "py_tuple v = (case v of
     PSeq vs \<Rightarrow> Inr vs
   | PBytes bs \<Rightarrow> Inr (map (\<lambda>b. PInt (uint b)) bs)
   | PToken t bs \<Rightarrow> Inr (map (\<lambda>b. PInt (uint b)) bs)
   | PStr cs \<Rightarrow> Inr (map (\<lambda>c. PStr [c]) cs)
   | PDict d \<Rightarrow> Inr (map (PInt \<circ> fst) d)
   | _ \<Rightarrow> Inl TypeError)"

definition refuse_prefix_update :: "RequestUpdate \<Rightarrow> adm \<Rightarrow> adm \<times> refusal option result" where
  "refuse_prefix_update u x =
    (case (dict_get (or_empty (ru_parameters u)) TRACK_NAMESPACE_PREFIX, ru_existing_request_id u,
           Option.bind (ru_existing_request_id u) (dict_get (ad_peer_requests x)), ru_request_id u) of
       (Some v, Some existing, Some (kind, key), Some rid) \<Rightarrow>
         if kind \<notin> {K_SubscribeNamespace, K_SubscribeTracks} then (x, Inr None)
         else (case py_tuple v of
             Inl e \<Rightarrow> (x, Inl e)
           | Inr p \<Rightarrow>
               if prefix_taken kind p (filter (\<lambda>(r, _). r \<noteq> existing) (ad_peer_requests x))
               then (x, Inr (Some (Refusal (M_RequestUpdate u) rid PREFIX_OVERLAP)))
               else (x\<lparr>ad_peer_requests := dict_set (ad_peer_requests x) existing (kind, Held_Prefix p)\<rparr>, Inr None))
     | _ \<Rightarrow> (x, Inr None))"

section \<open>The whole admission\<close>

definition refuse_update :: "int \<Rightarrow> DraftProfile \<Rightarrow> RequestUpdate \<Rightarrow> adm \<Rightarrow> adm \<times> refusal option result" where
  "refuse_update d prof u x =
    (case (if 20 \<le> param_table prof then check_d20_update prof u x else (x, Inr None)) of
       (x1, Inl e) \<Rightarrow> (x1, Inl e)
     | (x1, Inr (Some r)) \<Rightarrow> (x1, Inr (Some r))
     | (x1, Inr None) \<Rightarrow> refuse_prefix_update u x1)"

definition drained :: "control_msg \<Rightarrow> adm \<Rightarrow> refusal option" where
  "drained m x = (if \<not> ad_draining x then None else case m of
     M_Subscribe s \<Rightarrow> Some (Drain_Refusal m (sb_request_id s) GOING_AWAY)
   | M_Fetch f \<Rightarrow> Some (Drain_Refusal m (fe_request_id f) GOING_AWAY)
   | _ \<Rightarrow> None)"

definition refuse_opener :: "int \<Rightarrow> DraftProfile \<Rightarrow> control_msg \<Rightarrow> adm \<Rightarrow> adm \<times> refusal option result" where
  "refuse_opener d prof m x =
    (case drained m x of
       Some r \<Rightarrow> (x, Inr (Some r))
     | None \<Rightarrow>
         (case opener m of
            Some (rid, ns) \<Rightarrow> if is_draft16_or_later d then admit_request d prof m rid ns x else (x, Inr None)
          | None \<Rightarrow> (x, Inr None)))"

definition refuse_request :: "int \<Rightarrow> DraftProfile \<Rightarrow> control_msg \<Rightarrow> adm \<Rightarrow> adm \<times> refusal option result" where
  "refuse_request d prof m x = (case m of
     M_PublishStateNotify n \<Rightarrow> (x, bindR (check_publish_state_notify (ps_request_id n) x) (\<lambda>_. Inr None))
   | M_RequestUpdate u \<Rightarrow> if is_draft16_or_later d then refuse_update d prof u x else (x, Inr None)
   | _ \<Rightarrow> refuse_opener d prof m x)"

text \<open>\<^verbatim>\<open>self._resolve_auth_token(msg) or self._refuse_request(msg)\<close>.\<close>

definition admission :: "validator \<Rightarrow> int \<Rightarrow> DraftProfile \<Rightarrow> control_msg \<Rightarrow> adm \<Rightarrow> control_msg \<times> adm \<times> refusal option result" where
  "admission V d prof m x =
    (case resolve_auth_token V d m x of
       (m', x', Inl e) \<Rightarrow> (m', x', Inl e)
     | (m', x', Inr (Some r)) \<Rightarrow> (m', x', Inr (Some r))
     | (m', x', Inr None) \<Rightarrow> (m', refuse_request d prof m' x'))"

section \<open>The end of a request\<close>

definition note_request_gone :: "int \<Rightarrow> adm \<Rightarrow> adm" where
  "note_request_gone rid x =
    (let gone = (if rid \<in> set (ad_gone_requests x) then ad_gone_requests x else ad_gone_requests x @ [rid])
     in x\<lparr>ad_gone_requests := if GONE_REQUESTS_MAX < length gone then tl gone else gone\<rparr>)"

definition reply_to_gone_request :: "int \<Rightarrow> adm \<Rightarrow> bool" where
  "reply_to_gone_request rid x \<longleftrightarrow> rid \<in> set (ad_gone_requests x)"

definition free_request :: "int \<Rightarrow> adm \<Rightarrow> adm" where
  "free_request rid x = x\<lparr>ad_peer_requests := snd (dict_pop (ad_peer_requests x) rid)\<rparr>"

text \<open>\<^verbatim>\<open>_notify_request_cancelled\<close>: what it does to this state.\<close>

definition notify_request_cancelled :: "int \<Rightarrow> adm \<Rightarrow> adm" where
  "notify_request_cancelled rid x =
    free_request rid ((note_request_gone rid x)\<lparr>ad_requests := snd (dict_pop (ad_requests x) rid)\<rparr>)"

text \<open>\<^verbatim>\<open>_send_reply\<close>: whether the reply is sent, and what it leaves.\<close>

definition send_reply :: "int \<Rightarrow> bool \<Rightarrow> adm \<Rightarrow> bool \<times> adm" where
  "send_reply rid fin x =
    (if reply_to_gone_request rid x then (False, x) else (True, if fin then free_request rid x else x))"

definition handle_unsubscribe_namespace :: "bytes list \<Rightarrow> adm \<Rightarrow> adm" where
  "handle_unsubscribe_namespace p x =
    x\<lparr>ad_peer_requests := filter (\<lambda>(rid, kind, key). \<not> (kind = K_SubscribeNamespace \<and> key = Held_Prefix (map PBytes p)))
        (ad_peer_requests x)\<rparr>"

section \<open>Tracks\<close>

text \<open>\<^verbatim>\<open>_attach_track\<close>, without the task that offers a new track to an open SUBSCRIBE_TRACKS (its request is \<open>open_subscribe_tracks\<close>).\<close>

definition attach_track :: "pval list \<times> bytes \<Rightarrow> int \<Rightarrow> adm \<Rightarrow> adm result" where
  "attach_track key track x =
    (case map_of (ad_published_tracks x) key of
       None \<Rightarrow> Inr (x\<lparr>ad_published_tracks := ad_published_tracks x @ [(key, track)]\<rparr>)
     | Some held \<Rightarrow> if held = track then Inr x else Inl ValueError)"

definition bind_request :: "int \<Rightarrow> int \<Rightarrow> int option \<Rightarrow> int option \<Rightarrow> adm \<Rightarrow> adm" where
  "bind_request rid track sub al x =
    x\<lparr>ad_requests := dict_set (ad_requests x) rid \<lparr>en_role = ''publisher'', en_track = track, en_sub = sub, en_alias = al\<rparr>\<rparr>"

definition bind_fetch :: "int \<Rightarrow> int \<Rightarrow> adm \<Rightarrow> adm" where
  "bind_fetch rid track x =
    x\<lparr>ad_requests := dict_set (ad_requests x) rid \<lparr>en_role = ''fetch'', en_track = track, en_sub = None, en_alias = None\<rparr>\<rparr>"

definition unbind_request :: "int \<Rightarrow> adm \<Rightarrow> adm" where
  "unbind_request rid x = x\<lparr>ad_requests := snd (dict_pop (ad_requests x) rid)\<rparr>"

definition open_subscribe_tracks :: "pval list \<Rightarrow> bool \<Rightarrow> adm \<Rightarrow> int option" where
  "open_subscribe_tracks ns overridden x =
    (case filter (\<lambda>(rid, kind, key). kind = K_SubscribeTracks \<and> take (length (held_prefix key)) ns = held_prefix key) (ad_peer_requests x) of
       [] \<Rightarrow> None
     | (rid, _) # _ \<Rightarrow> if overridden then None else Some rid)"

section \<open>Sessions\<close>

text \<open>What happens to this state over the life of a session, in any order.\<close>

datatype adm_event =
    Message control_msg
  | Own_Request int msg_class
  | Cancelled int
  | Reply int bool
  | Refused_Peer int
  | Unsubscribed "bytes list"
  | Attach "pval list \<times> bytes" int
  | Bind int int "int option" "int option"
  | Bind_Fetch int int
  | Unbind int
  | Drain
  | Goaway_Sent

definition adm_step :: "validator \<Rightarrow> int \<Rightarrow> DraftProfile \<Rightarrow> adm_event \<Rightarrow> adm \<Rightarrow> adm" where
  "adm_step V d prof e x = (case e of
     Message m \<Rightarrow> fst (snd (admission V d prof m x))
   | Own_Request rid kind \<Rightarrow> note_request_kind rid kind True x
   | Cancelled rid \<Rightarrow> notify_request_cancelled rid x
   | Reply rid fin \<Rightarrow> snd (send_reply rid fin x)
   | Refused_Peer rid \<Rightarrow> free_request rid x
   | Unsubscribed p \<Rightarrow> handle_unsubscribe_namespace p x
   | Attach key track \<Rightarrow> (case attach_track key track x of Inl _ \<Rightarrow> x | Inr x' \<Rightarrow> x')
   | Bind rid track sub al \<Rightarrow> bind_request rid track sub al x
   | Bind_Fetch rid track \<Rightarrow> bind_fetch rid track x
   | Unbind rid \<Rightarrow> unbind_request rid x
   | Drain \<Rightarrow> x\<lparr>ad_draining := True\<rparr>
   | Goaway_Sent \<Rightarrow> x\<lparr>ad_goaway_sent := True\<rparr>)"

definition new_adm :: "bool \<Rightarrow> int \<Rightarrow> int \<Rightarrow> adm" where
  "new_adm client filter_max cache_max =
    \<lparr>ad_is_client = client, ad_max_filter_ranges = filter_max, ad_draining = False, ad_goaway_sent = False,
     ad_published_tracks = [], ad_requests = [], ad_peer_requests = [], ad_request_kinds = [],
     ad_subscribe_tracks_params = [], ad_auth_tokens = [], ad_auth_token_cache_used = 0,
     ad_auth_token_cache_max = cache_max, ad_gone_requests = []\<rparr>"

section \<open>Exclusive requests\<close>

text \<open>
  Two admitted requests of one kind do not collide: subscriptions are for different tracks, prefixes are not
  prefixes of each other.
\<close>

definition compatible :: "held_key \<Rightarrow> held_key \<Rightarrow> bool" where
  "compatible a b = (case (a, b) of
     (Held_Track _ _, Held_Track _ _) \<Rightarrow> a \<noteq> b
   | (Held_Prefix p, Held_Prefix q) \<Rightarrow> \<not> overlaps p q
   | _ \<Rightarrow> False)"

definition held_shape :: "msg_class \<Rightarrow> held_key \<Rightarrow> bool" where
  "held_shape kind key = (case key of
     Held_Track _ _ \<Rightarrow> kind = K_Subscribe
   | Held_Prefix _ \<Rightarrow> kind = K_SubscribeNamespace \<or> kind = K_SubscribeTracks)"

definition room_for :: "int \<Rightarrow> msg_class \<Rightarrow> held_key \<Rightarrow> (msg_class \<times> held_key) dict \<Rightarrow> bool" where
  "room_for rid kind key d = list_all (\<lambda>(r, k, other). r \<noteq> rid \<and> k = kind \<longrightarrow> compatible other key) d"

definition exclusive :: "(msg_class \<times> held_key) dict \<Rightarrow> bool" where
  "exclusive d \<longleftrightarrow> dict_ok d \<and> list_all (\<lambda>(rid, kind, key). held_shape kind key \<and> room_for rid kind key d) d"

lemma overlaps_sym: "overlaps p q \<longleftrightarrow> overlaps q p"
  by (auto simp: overlaps_def)

lemma overlaps_prefix: "overlaps p q \<longleftrightarrow> prefix q p \<or> prefix p q"
  unfolding overlaps_def by (metis prefix_take_length take_is_prefix)

lemma compatible_sym: "compatible a b \<longleftrightarrow> compatible b a"
  by (auto simp: compatible_def overlaps_sym split: held_key.splits)

lemma set_dict_set: "dict_ok d \<Longrightarrow> set (dict_set d k v) = insert (k, v) {p \<in> set d. fst p \<noteq> k}"
proof (induction d)
  case (Cons p d)
  then show ?case by (cases p) (force simp: dict_ok_def)
qed simp

lemma exclusive_set:
  assumes "exclusive d" "held_shape kind key" "room_for rid kind key d"
  shows "exclusive (dict_set d rid (kind, key))"
proof -
  let ?d = "dict_set d rid (kind, key)"
  have ok: "dict_ok d" and sh: "\<And>r k other. (r, k, other) \<in> set d \<Longrightarrow> held_shape k other"
    and room: "\<And>r k other r' other'. (r, k, other) \<in> set d \<Longrightarrow> (r', k, other') \<in> set d \<Longrightarrow> r' \<noteq> r \<Longrightarrow> compatible other' other"
    using assms(1) by (auto simp: exclusive_def room_for_def list_all_iff)
  have new: "\<And>r other. (r, kind, other) \<in> set d \<Longrightarrow> r \<noteq> rid \<Longrightarrow> compatible other key"
    using assms(3) by (auto simp: room_for_def list_all_iff)
  have set_d: "(r, k, other) \<in> set ?d \<longleftrightarrow> (r = rid \<and> k = kind \<and> other = key) \<or> (r, k, other) \<in> set d \<and> r \<noteq> rid" for r k other
    unfolding set_dict_set [OF ok] by auto
  have "held_shape k other \<and> room_for r k other ?d" if "(r, k, other) \<in> set ?d" for r k other
  proof -
    have "compatible other' other" if o: "(r', k, other') \<in> set ?d" "r' \<noteq> r" for r' other'
      using \<open>(r, k, other) \<in> set ?d\<close> o room new compatible_sym unfolding set_d by metis
    then have "room_for r k other ?d" by (auto simp: room_for_def list_all_iff)
    moreover have "held_shape k other" using that sh assms(2) unfolding set_d by blast
    ultimately show ?thesis by blast
  qed
  then show ?thesis using pydict.invar_put [OF ok] by (auto simp: exclusive_def list_all_iff)
qed

lemma exclusive_filter: "exclusive d \<Longrightarrow> exclusive (filter P d)"
  by (auto simp: exclusive_def room_for_def list_all_iff dict_ok_def distinct_map_filter)

lemma exclusiveD:
  assumes "exclusive d" "dict_get d r1 = Some (kind, key1)" "dict_get d r2 = Some (kind, key2)" "r1 \<noteq> r2"
  shows "held_shape kind key1 \<and> compatible key1 key2"
proof -
  have "(r1, kind, key1) \<in> set d" "(r2, kind, key2) \<in> set d"
    using assms(2,3) unfolding dict_get_def by (auto dest: map_of_SomeD)
  then show ?thesis using assms(1,4) by (auto simp: exclusive_def room_for_def list_all_iff)
qed

lemma room_prefix:
  assumes "exclusive d" "\<not> prefix_taken kind p (filter (\<lambda>(r, _). r \<noteq> rid) d)" "kind = K_SubscribeNamespace \<or> kind = K_SubscribeTracks"
  shows "room_for rid kind (Held_Prefix p) d"
proof -
  have "compatible other (Held_Prefix p)" if "(r, kind, other) \<in> set d" "r \<noteq> rid" for r other
  proof -
    have "held_shape kind other" using assms(1) that by (auto simp: exclusive_def list_all_iff)
    moreover have "\<not> overlaps (held_prefix other) p" using assms(2) that by (auto simp: prefix_taken_def list_ex_iff)
    ultimately show ?thesis using assms(3) by (auto simp: held_shape_def compatible_def held_prefix_def split: held_key.splits)
  qed
  then show ?thesis by (auto simp: room_for_def list_all_iff)
qed

lemma room_track:
  assumes "exclusive d" "(K_Subscribe, Held_Track ns name) \<notin> snd ` set d"
  shows "room_for rid K_Subscribe (Held_Track ns name) d"
proof -
  have "compatible other (Held_Track ns name)" if "(r, K_Subscribe, other) \<in> set d" for r other
  proof -
    have "held_shape K_Subscribe other" using assms(1) that by (auto simp: exclusive_def list_all_iff)
    moreover have "other \<noteq> Held_Track ns name" using assms(2) that by force
    ultimately show ?thesis by (auto simp: held_shape_def compatible_def split: held_key.splits)
  qed
  then show ?thesis by (auto simp: room_for_def list_all_iff)
qed

text \<open>What each step does to the admitted requests.\<close>

lemma token_peer_requests: "apply_token_ref b ref ps x = Applied ps' x' \<Longrightarrow> ad_peer_requests x' = ad_peer_requests x"
  by (auto simp: apply_token_ref_def Let_def split: if_splits option.splits)

lemma resolve_peer_requests: "resolve_auth_token V d m x = (m', x', r) \<Longrightarrow> ad_peer_requests x' = ad_peer_requests x"
  by (auto simp: resolve_auth_token_def Let_def token_peer_requests split: option.splits list.splits pval.splits token_op.splits)

lemma check_d20_peer_requests: "check_d20_update prof u x = (x', r) \<Longrightarrow> ad_peer_requests x' = ad_peer_requests x"
  by (auto simp: check_d20_update_def Let_def split: option.splits prod.splits if_splits sum.splits)

lemma update_exclusive:
  assumes "exclusive (ad_peer_requests x)" "refuse_prefix_update u x = (x', r)"
  shows "exclusive (ad_peer_requests x')"
  using assms
  by (auto simp: refuse_prefix_update_def held_shape_def
      split: option.splits prod.splits if_splits sum.splits intro!: exclusive_set room_prefix)

lemma note_kind_peer_requests [simp]: "ad_peer_requests (note_request_kind rid k ours x) = ad_peer_requests x"
  by (simp add: note_request_kind_def Let_def)

lemma record_peer_requests:
  "ad_peer_requests (record_request prof rid m key x) =
    (case key of None \<Rightarrow> ad_peer_requests x | Some k \<Rightarrow> dict_set (ad_peer_requests x) rid (class_of m, k))"
  by (auto simp: record_request_def Let_def split: option.splits)

lemma untaken_filter: "\<not> prefix_taken kind p d \<Longrightarrow> \<not> prefix_taken kind p (filter P d)"
  by (auto simp: prefix_taken_def list_ex_iff)

lemma conflict_room:
  assumes "exclusive (ad_peer_requests x)" "request_conflict d prof m ns x = (Some key, None)"
  shows "held_shape (class_of m) key \<and> room_for rid (class_of m) key (ad_peer_requests x)"
  using assms
  by (auto simp: request_conflict_def Let_def held_shape_def
      split: if_splits control_msg.splits intro!: room_prefix room_track untaken_filter)

lemma admit_exclusive:
  assumes "exclusive (ad_peer_requests x)" "admit_request d prof m rid ns x = (x', r)"
  shows "exclusive (ad_peer_requests x')"
proof -
  let ?x = "if 20 \<le> param_table prof then note_request_kind rid (class_of m) False x else x"
  have x: "ad_peer_requests ?x = ad_peer_requests x" by simp
  then consider "ad_peer_requests x' = ad_peer_requests x"
    | key where "request_conflict d prof m ns ?x = (Some key, None)" "ad_peer_requests x' = dict_set (ad_peer_requests x) rid (class_of m, key)"
    using assms(2) unfolding admit_request_def Let_def
    by (cases "fst (request_conflict d prof m ns ?x)")
      (auto simp: record_peer_requests split: if_splits prod.splits option.splits sum.splits)
  then show ?thesis
  proof cases
    case 1
    then show ?thesis using assms(1) by simp
  next
    case (2 key)
    then show ?thesis using conflict_room [of ?x d prof m ns key rid] assms(1) x exclusive_set by (metis (no_types, lifting))
  qed
qed

lemma refuse_exclusive:
  assumes "exclusive (ad_peer_requests x)" "refuse_request d prof m x = (x', r)"
  shows "exclusive (ad_peer_requests x')"
proof -
  have up: "exclusive (ad_peer_requests y)" if u: "refuse_update d prof u x = (y, q)" for u y q
  proof -
    obtain x1 r1 where c: "(if 20 \<le> param_table prof then check_d20_update prof u x else (x, Inr None)) = (x1, r1)" by fastforce
    have x1: "ad_peer_requests x1 = ad_peer_requests x" using c check_d20_peer_requests by (auto split: if_splits)
    have "y = x1 \<or> refuse_prefix_update u x1 = (y, q)"
      using u unfolding refuse_update_def c by (auto split: sum.splits option.splits)
    then show ?thesis using update_exclusive [of x1 u y q] assms(1) x1 by auto
  qed
  have op: "exclusive (ad_peer_requests y)" if "refuse_opener d prof m x = (y, q)" for y q
    using that assms(1) admit_exclusive unfolding refuse_opener_def by (auto split: option.splits if_splits)
  show ?thesis using assms up op unfolding refuse_request_def by (cases m) (auto split: if_splits)
qed

lemma admission_exclusive:
  "exclusive (ad_peer_requests x) \<Longrightarrow> exclusive (ad_peer_requests (fst (snd (admission V d prof m x))))"
proof -
  assume e: "exclusive (ad_peer_requests x)"
  obtain m' x' r where a: "resolve_auth_token V d m x = (m', x', r)" by (metis prod_cases3)
  have e': "exclusive (ad_peer_requests x')" using e resolve_peer_requests [OF a] by simp
  obtain y q where q: "refuse_request d prof m' x' = (y, q)" by fastforce
  show ?thesis using e' refuse_exclusive [OF e' q] unfolding admission_def a by (simp add: q split: sum.splits option.splits)
qed

lemma free_exclusive: "exclusive (ad_peer_requests x) \<Longrightarrow> exclusive (ad_peer_requests (free_request rid x))"
  by (simp add: free_request_def dict_pop_def exclusive_filter)

lemma gone_peer_requests [simp]: "ad_peer_requests (note_request_gone rid x) = ad_peer_requests x"
  by (simp add: note_request_gone_def Let_def)

lemma step_exclusive: "exclusive (ad_peer_requests x) \<Longrightarrow> exclusive (ad_peer_requests (adm_step V d prof e x))"
  by (cases e) (auto simp: adm_step_def admission_exclusive free_exclusive exclusive_filter notify_request_cancelled_def send_reply_def
      handle_unsubscribe_namespace_def attach_track_def bind_request_def bind_fetch_def unbind_request_def
      split: option.splits sum.splits if_splits)

interpretation requests_exclusive: step_invariant "adm_step V d prof" "\<lambda>x. exclusive (ad_peer_requests x)" "new_adm client n c"
  for V d prof client n c
  by unfold_locales (rule step_exclusive, assumption, simp add: new_adm_def exclusive_def dict_ok_def)

section \<open>The token cache over a session\<close>

definition cache_ok :: "adm \<Rightarrow> bool" where
  "cache_ok x \<longleftrightarrow> dict_ok (ad_auth_tokens x)
    \<and> ad_auth_token_cache_used x = sum_list (map (token_size \<circ> snd) (ad_auth_tokens x))
    \<and> ad_auth_token_cache_used x \<le> ad_auth_token_cache_max x"

abbreviation cache_of :: "adm \<Rightarrow> (int \<times> bytes) dict \<times> int \<times> int" where
  "cache_of x \<equiv> (ad_auth_tokens x, ad_auth_token_cache_used x, ad_auth_token_cache_max x)"

lemma cache_ok_cong: "cache_of x = cache_of y \<Longrightarrow> cache_ok x = cache_ok y"
  by (simp add: cache_ok_def)

lemma sum_pop:
  "dict_ok d \<Longrightarrow> map_of d k = Some v \<Longrightarrow> sum_list (map (f \<circ> snd) (filter (\<lambda>(k', _). k' \<noteq> k) d)) = sum_list (map (f \<circ> snd) d) - (f v :: int)"
proof (induction d)
  case (Cons p d)
  have "map_of d k = None \<Longrightarrow> filter (\<lambda>(k', _). k' \<noteq> k) d = d"
    by (induction d) (auto split: if_splits)
  then show ?case using Cons by (cases p) (auto simp: dict_ok_def map_of_eq_None_iff)
qed simp

lemma dict_set_absent: "map_of d k = None \<Longrightarrow> dict_set d k v = d @ [(k, v)]"
  by (induction d) (auto split: if_splits)

lemma token_size_pos: "0 < token_size t"
  by (simp add: token_size_def)

lemma apply_cache_ok: "cache_ok x \<Longrightarrow> apply_token_ref b ref ps x = Applied ps' x' \<Longrightarrow> cache_ok x'"
proof -
  assume ok: "cache_ok x" and a: "apply_token_ref b ref ps x = Applied ps' x'"
  let ?t = "(case at_token_type ref of None \<Rightarrow> 0 | Some t \<Rightarrow> t, case at_value ref of None \<Rightarrow> [] | Some v \<Rightarrow> v)"
  show ?thesis
  proof (cases "at_alias_type ref = REGISTER_ALIAS")
    case True
    have "map_of (ad_auth_tokens x) (at_alias ref) = None"
      using a True unfolding apply_token_ref_def dict_get_def Let_def by (cases "map_of (ad_auth_tokens x) (at_alias ref)") simp_all
    moreover have "x' = x \<or> ad_auth_token_cache_used x + token_size ?t \<le> ad_auth_token_cache_max x
        \<and> x' = x\<lparr>ad_auth_tokens := dict_set (ad_auth_tokens x) (at_alias ref) ?t, ad_auth_token_cache_used := ad_auth_token_cache_used x + token_size ?t\<rparr>"
      using a True unfolding apply_token_ref_def dict_get_def Let_def by (simp split: if_splits)
    ultimately show ?thesis using ok by (auto simp: cache_ok_def dict_set_absent [of "ad_auth_tokens x"] dict_ok_def map_of_eq_None_iff)
  next
    case False
    have "x' = x \<or> (\<exists>t. map_of (ad_auth_tokens x) (at_alias ref) = Some t
        \<and> x' = x\<lparr>ad_auth_tokens := snd (dict_pop (ad_auth_tokens x) (at_alias ref)), ad_auth_token_cache_used := ad_auth_token_cache_used x - token_size t\<rparr>)"
      using a False unfolding apply_token_ref_def dict_get_def Let_def by (force split: if_splits option.splits)
    then show ?thesis
    proof (elim disjE exE conjE)
      fix t assume t: "map_of (ad_auth_tokens x) (at_alias ref) = Some t"
        and x': "x' = x\<lparr>ad_auth_tokens := snd (dict_pop (ad_auth_tokens x) (at_alias ref)), ad_auth_token_cache_used := ad_auth_token_cache_used x - token_size t\<rparr>"
      show ?thesis unfolding x' using ok sum_pop [OF _ t, of token_size] token_size_pos [of t]
        by (simp add: cache_ok_def dict_pop_def dict_ok_def distinct_map_filter)
    qed (use ok in simp)
  qed
qed

lemma resolve_cache_ok: "cache_ok x \<Longrightarrow> resolve_auth_token V d m x = (m', x', r) \<Longrightarrow> cache_ok x'"
  by (auto simp: resolve_auth_token_def Let_def apply_cache_ok split: option.splits list.splits pval.splits token_op.splits)

lemma refuse_cache: "refuse_request d prof m x = (x', r) \<Longrightarrow> cache_of x' = cache_of x"
proof -
  have k: "cache_of (note_request_kind rid k ours y) = cache_of y" for rid k ours y by (simp add: note_request_kind_def Let_def)
  have rc: "cache_of (record_request prof rid m key y) = cache_of y" for rid key y by (simp add: record_request_def Let_def split: option.splits)
  have p: "refuse_prefix_update u y = (y', r') \<Longrightarrow> cache_of y' = cache_of y" for u y y' r'
    by (auto simp: refuse_prefix_update_def split: option.splits prod.splits if_splits sum.splits)
  have c: "check_d20_update prof u y = (y', r') \<Longrightarrow> cache_of y' = cache_of y" for u y y' r'
    by (auto simp: check_d20_update_def Let_def split: option.splits prod.splits if_splits sum.splits)
  have up: "cache_of y' = cache_of x" if "refuse_update d prof u x = (y', q)" for u y' q
    using that p c unfolding refuse_update_def by (auto split: sum.splits option.splits if_splits prod.splits)
  have ad: "cache_of y' = cache_of x" if "admit_request d prof m rid ns x = (y', q)" for rid ns y' q
    using that k rc unfolding admit_request_def Let_def by (auto split: if_splits prod.splits option.splits sum.splits)
  have op: "cache_of y' = cache_of x" if "refuse_opener d prof m x = (y', q)" for y' q
    using that ad unfolding refuse_opener_def by (auto split: option.splits if_splits)
  show "refuse_request d prof m x = (x', r) \<Longrightarrow> ?thesis" using up op unfolding refuse_request_def by (cases m) (auto split: if_splits)
qed

lemma admission_cache_ok: "cache_ok x \<Longrightarrow> cache_ok (fst (snd (admission V d prof m x)))"
proof -
  assume e: "cache_ok x"
  obtain m' x' r where a: "resolve_auth_token V d m x = (m', x', r)" by (metis prod_cases3)
  have e': "cache_ok x'" using e resolve_cache_ok [OF _ a] by simp
  obtain y q where q: "refuse_request d prof m' x' = (y, q)" by fastforce
  show ?thesis using e' cache_ok_cong [OF refuse_cache [OF q]] unfolding admission_def a by (simp add: q split: sum.splits option.splits)
qed

lemma step_cache: "\<forall>m. e \<noteq> Message m \<Longrightarrow> cache_of (adm_step V d prof e x) = cache_of x"
  by (cases e) (auto simp: adm_step_def note_request_kind_def notify_request_cancelled_def free_request_def
      note_request_gone_def send_reply_def handle_unsubscribe_namespace_def attach_track_def bind_request_def bind_fetch_def unbind_request_def
      Let_def split: option.splits)

lemma step_cache_ok: "cache_ok x \<Longrightarrow> cache_ok (adm_step V d prof e x)"
proof (cases "\<exists>m. e = Message m")
  case True
  then show "cache_ok x \<Longrightarrow> ?thesis" using admission_cache_ok by (auto simp: adm_step_def)
next
  case False
  then show "cache_ok x \<Longrightarrow> ?thesis" using cache_ok_cong [OF step_cache] by metis
qed

interpretation token_cache: step_invariant "adm_step V d prof" cache_ok "new_adm client n (int c)"
  for V d prof client n c
  by unfold_locales (rule step_cache_ok, assumption, simp add: new_adm_def cache_ok_def dict_ok_def)

section \<open>What stays held\<close>

lemma with_params_same [simp]:
  "opener (with_params ps m) = opener m" "class_of (with_params ps m) = class_of m"
  by (cases m; simp add: opener_def with_params_def)+

definition update_of :: "control_msg \<Rightarrow> int option" where
  "update_of m = (case m of M_RequestUpdate u \<Rightarrow> ru_existing_request_id u | _ \<Rightarrow> None)"

lemma update_of_with_params [simp]: "update_of (with_params ps m) = update_of m"
  by (cases m) (simp_all add: update_of_def with_params_def)

lemma resolve_same:
  assumes "resolve_auth_token V d m x = (m', x', r)"
  shows "opener m' = opener m" "class_of m' = class_of m" "update_of m' = update_of m"
  using assms by (auto simp: resolve_auth_token_def Let_def split: option.splits list.splits pval.splits token_op.splits)

text \<open>The events that may end or move the request \<open>rid\<close> held under \<open>key\<close>; a second opener with its id is a duplicate Request ID.\<close>

definition keeps_request :: "int \<Rightarrow> held_key \<Rightarrow> adm_event \<Rightarrow> bool" where
  "keeps_request rid key e = (case e of
     Message m \<Rightarrow> update_of m \<noteq> Some rid \<and> (case opener m of None \<Rightarrow> True | Some (r, _) \<Rightarrow> r \<noteq> rid)
   | Cancelled r \<Rightarrow> r \<noteq> rid
   | Reply r fin \<Rightarrow> \<not> (fin \<and> r = rid)
   | Refused_Peer r \<Rightarrow> r \<noteq> rid
   | Unsubscribed p \<Rightarrow> key \<noteq> Held_Prefix (map PBytes p)
   | _ \<Rightarrow> True)"

lemma refuse_get:
  assumes "refuse_request d prof m x = (x', r)" "update_of m \<noteq> Some rid" "case opener m of None \<Rightarrow> True | Some (q, _) \<Rightarrow> q \<noteq> rid"
  shows "dict_get (ad_peer_requests x') rid = dict_get (ad_peer_requests x) rid"
proof -
  have p: "dict_get (ad_peer_requests y) rid = dict_get (ad_peer_requests z) rid"
    if "refuse_prefix_update u z = (y, q)" "ru_existing_request_id u \<noteq> Some rid" for u y z q
    using that by (auto simp: refuse_prefix_update_def pydict.get_put_other split: option.splits prod.splits if_splits sum.splits)
  have up: "dict_get (ad_peer_requests y) rid = dict_get (ad_peer_requests x) rid"
    if u: "refuse_update d prof u x = (y, q)" "ru_existing_request_id u \<noteq> Some rid" for u y q
    using u p unfolding refuse_update_def
    by (auto split: sum.splits option.splits if_splits prod.splits dest!: check_d20_peer_requests)
  have ad: "dict_get (ad_peer_requests y) rid = dict_get (ad_peer_requests x) rid"
    if "admit_request d prof m q ns x = (y, z)" "q \<noteq> rid" for q ns y z
    using that unfolding admit_request_def Let_def
    by (auto simp: record_peer_requests pydict.get_put_other split: if_splits prod.splits option.splits sum.splits)
  have op: "dict_get (ad_peer_requests y) rid = dict_get (ad_peer_requests x) rid" if "refuse_opener d prof m x = (y, q)" for y q
    using that ad assms(3) unfolding refuse_opener_def by (auto split: option.splits if_splits)
  show ?thesis using assms(1,2) up op unfolding refuse_request_def by (cases m) (auto simp: update_of_def split: if_splits)
qed

lemma admission_get:
  assumes "keeps_request rid key (Message m)"
  shows "dict_get (ad_peer_requests (fst (snd (admission V d prof m x)))) rid = dict_get (ad_peer_requests x) rid"
proof -
  obtain m' x' r where a: "resolve_auth_token V d m x = (m', x', r)" by (metis prod_cases3)
  obtain y q where q: "refuse_request d prof m' x' = (y, q)" by fastforce
  have "dict_get (ad_peer_requests y) rid = dict_get (ad_peer_requests x') rid"
    using refuse_get [OF q] assms resolve_same [OF a] by (simp add: keeps_request_def)
  then show ?thesis using resolve_peer_requests [OF a] unfolding admission_def a by (simp add: q split: sum.splits option.splits)
qed

lemma filter_get: "dict_get (filter P d) k = Some v \<Longrightarrow> dict_ok d \<Longrightarrow> dict_get d k = Some v"
  by (auto simp: dict_get_def dict_ok_def distinct_map_filter)

lemma get_filter: "dict_get d k = Some v \<Longrightarrow> P (k, v) \<Longrightarrow> dict_get (filter P d) k = Some v"
  by (induction d) (auto simp: dict_get_def split: if_splits)

lemma step_get:
  assumes "dict_get (ad_peer_requests x) rid = Some (kind, key)" "keeps_request rid key e"
  shows "dict_get (ad_peer_requests (adm_step V d prof e x)) rid = Some (kind, key)"
proof (cases e)
  case (Message m)
  then show ?thesis using assms admission_get by (simp add: adm_step_def)
qed (use assms in \<open>auto simp: adm_step_def keeps_request_def note_request_kind_def notify_request_cancelled_def free_request_def
      pydict.get_pop send_reply_def handle_unsubscribe_namespace_def attach_track_def bind_request_def bind_fetch_def unbind_request_def Let_def
      intro!: get_filter split: option.splits sum.splits\<close>)

interpretation request_held: kept_under "adm_step V d prof" "keeps_request rid key"
    "\<lambda>x. dict_get (ad_peer_requests x) rid = Some (kind, key)"
  for V d prof rid kind key
  by unfold_locales (rule step_get)

text \<open>A request that would collide with the one held under \<open>key\<close>.\<close>

definition collides :: "control_msg \<Rightarrow> held_key \<Rightarrow> bool" where
  "collides m key = (case (m, key) of
     (M_Subscribe s, Held_Track ns name) \<Rightarrow> map PBytes (sb_track_namespace s) = ns \<and> sb_track_name s = name
   | (M_SubscribeNamespace s, Held_Prefix p) \<Rightarrow> overlaps p (map PBytes (sn_namespace_prefix s))
   | (M_SubscribeTracks s, Held_Prefix p) \<Rightarrow> overlaps p (map PBytes (st_namespace_prefix s))
   | _ \<Rightarrow> False)"

lemma collides_with_params [simp]: "collides (with_params ps m) key = collides m key"
  by (cases m; cases key) (simp_all add: collides_def with_params_def)

lemma collides_conflict:
  assumes "dict_get (ad_peer_requests x) rid = Some (class_of m, key)" "collides m key" "opener m = Some (q, ns)"
  shows "\<exists>k c. request_conflict d prof m ns x = (k, Some c)"
proof -
  have "(rid, class_of m, key) \<in> set (ad_peer_requests x)" using assms(1) by (auto simp: dict_get_def dest: map_of_SomeD)
  then have "(class_of m, key) \<in> snd ` set (ad_peer_requests x)"
    "overlaps (held_prefix key) ns \<Longrightarrow> prefix_taken (class_of m) ns (ad_peer_requests x)"
    by (force simp: prefix_taken_def list_ex_iff)+
  then show ?thesis using assms(2,3)
    by (auto simp: collides_def opener_def request_conflict_def Let_def held_prefix_def split: control_msg.splits held_key.splits)
qed

lemma collides_refused:
  assumes "dict_get (ad_peer_requests x) rid = Some (class_of m, key)" "collides m key" "is_draft16_or_later d"
  shows "\<exists>x' r. refuse_request d prof m x = (x', Inr (Some r)) \<and> ad_peer_requests x' = ad_peer_requests x"
proof -
  obtain q ns where o: "opener m = Some (q, ns)" using assms(2) by (auto simp: collides_def opener_def split: control_msg.splits)
  let ?x = "if 20 \<le> param_table prof then note_request_kind q (class_of m) False x else x"
  have "dict_get (ad_peer_requests ?x) rid = Some (class_of m, key)" using assms(1) by simp
  from collides_conflict [OF this assms(2) o] obtain k c where c: "request_conflict d prof m ns ?x = (k, Some c)" by blast
  have "refuse_request d prof m x = refuse_opener d prof m x" using assms(2) by (auto simp: refuse_request_def collides_def split: control_msg.splits)
  then show ?thesis using o c assms(3) by (auto simp: refuse_opener_def admit_request_def Let_def split: option.splits)
qed

section \<open>Registered tokens\<close>

definition token_ref :: "control_msg \<Rightarrow> AuthTokenRef option" where
  "token_ref m = (case Option.bind (msg_params m) (\<lambda>ps. dict_get ps AUTH_TOKEN_KEY) of Some (PTokRef r) \<Rightarrow> Some r | _ \<Rightarrow> None)"

definition keeps_alias :: "int \<Rightarrow> adm_event \<Rightarrow> bool" where
  "keeps_alias a e = (case e of
     Message m \<Rightarrow> (case token_ref m of None \<Rightarrow> True | Some r \<Rightarrow> \<not> (at_alias_type r = DELETE_ALIAS \<and> at_alias r = a))
   | _ \<Rightarrow> True)"

lemma apply_keeps_alias:
  assumes "apply_token_ref b ref ps x = Applied ps' x'" "dict_get (ad_auth_tokens x) a = Some t"
    "\<not> (at_alias_type ref = DELETE_ALIAS \<and> at_alias ref = a)"
  shows "dict_get (ad_auth_tokens x') a = Some t"
  using assms unfolding apply_token_ref_def Let_def
  by (cases t) (auto simp: pydict.get_put pydict.get_pop split: if_splits option.splits)

lemma resolve_keeps_alias:
  assumes "resolve_auth_token V d m x = (m', x', r)" "dict_get (ad_auth_tokens x) a = Some t" "keeps_alias a (Message m)"
  shows "dict_get (ad_auth_tokens x') a = Some t"
  using assms unfolding resolve_auth_token_def Let_def
  by (auto simp: keeps_alias_def token_ref_def intro: apply_keeps_alias split: option.splits list.splits pval.splits token_op.splits)

lemma step_keeps_alias:
  assumes "dict_get (ad_auth_tokens x) a = Some t" "keeps_alias a e"
  shows "dict_get (ad_auth_tokens (adm_step V d prof e x)) a = Some t"
proof (cases "\<exists>m. e = Message m")
  case True
  then obtain m where e: "e = Message m" by blast
  obtain m' x' r where a: "resolve_auth_token V d m x = (m', x', r)" by (metis prod_cases3)
  obtain y q where q: "refuse_request d prof m' x' = (y, q)" by fastforce
  have "dict_get (ad_auth_tokens x') a = Some t" using resolve_keeps_alias [OF a assms(1)] assms(2) e by simp
  then show ?thesis using refuse_cache [OF q] by (simp add: e adm_step_def admission_def a q split: sum.splits option.splits)
next
  case False
  then show ?thesis using step_cache [of e V d prof x] assms(1) by auto
qed

interpretation alias_held: kept_under "adm_step V d prof" "keeps_alias a" "\<lambda>x. dict_get (ad_auth_tokens x) a = Some t"
  for V d prof a t
  by unfold_locales (rule step_keeps_alias)

section \<open>Fed by bytes\<close>




text \<open>What every route keeps of the rest of the state, the bytes of a stream keep.\<close>

lemma failed_rest: "case failed e st of Got m st' n \<Rightarrow> rest st' = rest st | Gone st' \<Rightarrow> rest st' = rest st | Threw e' st' \<Rightarrow> rest st' = rest st"
  by (auto simp: failed_def close_ctl_def split: option.splits)

lemma latch_rest [simp]: "rest (latch m st) = rest st"
  by (cases m) (auto simp: latch_def latch_track_priority_def split: option.splits pval.splits)




lemma close_stream_rest [simp]: "rest (cst (close_stream c s)) = rest (cst s)"
  by (simp add: close_stream_def close_ctl_def)



section \<open>Where the rules stop short\<close>

text \<open>
  From draft 20 a message may repeat AUTHORIZATION TOKEN, and parsing then gives a list. \<^verbatim>\<open>_resolve_auth_token\<close> looks
  only at a single token: a list is neither applied to the cache nor put to the validator.
\<close>

lemma repeated_tokens_skipped:
  "msg_params m = Some ps \<Longrightarrow> dict_get ps 0x03 = Some (PSeq vs) \<Longrightarrow> resolve_auth_token V d m x = (m, x, Inr None)"
  by (cases ps) (auto simp: resolve_auth_token_def validate_token_def AUTH_TOKEN_KEY_def split: option.splits)

text \<open>
  Parameter 0x34 is a Track Namespace from draft 18. At draft 16 it has no meaning and an even key is an integer;
  a REQUEST_UPDATE of a namespace subscription that carries it raises instead of ignoring it.
\<close>

lemma unknown_prefix_parameter_raises:
  assumes "ru_parameters u = Some [(0x34, PInt n)]" "ru_existing_request_id u = Some e" "ru_request_id u = Some rid"
    and "dict_get (ad_peer_requests x) e = Some (K_SubscribeNamespace, key)"
  shows "refuse_request 16 PROFILE_D16 (M_RequestUpdate u) x = (x, Inl TypeError)"
  using assms by (simp add: refuse_request_def refuse_update_def refuse_prefix_update_def or_empty_def py_tuple_def dict_get_def [of "[_]"]
      TRACK_NAMESPACE_PREFIX_def is_draft16_or_later_def get_major_version_def profile_defs)

section \<open>Properties\<close>

text \<open>
  C2: admitted requests never collide. Whatever messages the peer sends and however requests end, two requests of
  one kind that are held at the same time are subscriptions to different tracks, or namespace prefixes of which
  neither is a prefix of the other; a REQUEST_UPDATE that moves a prefix keeps this.
\<close>

theorem admitted_requests_exclusive:
  assumes "dict_get (ad_peer_requests (fold (adm_step V d prof) evs (new_adm client n c))) r1 = Some (kind, key1)"
    and "dict_get (ad_peer_requests (fold (adm_step V d prof) evs (new_adm client n c))) r2 = Some (kind, key2)" "r1 \<noteq> r2"
  shows "(kind = K_Subscribe \<and> key1 \<noteq> key2)
    \<or> ((kind = K_SubscribeNamespace \<or> kind = K_SubscribeTracks)
        \<and> \<not> prefix (held_prefix key1) (held_prefix key2) \<and> \<not> prefix (held_prefix key2) (held_prefix key1))"
  using exclusiveD [OF requests_exclusive.reachable assms]
  by (auto simp: held_shape_def compatible_def held_prefix_def overlaps_prefix split: held_key.splits)

text \<open>
  C20: a held request is protected until it ends. While nothing cancels, answers with FIN, moves or repeats it, it
  stays recorded, and a request of the same kind for the same track, or for a prefix of the same tree, is never
  admitted: it is refused (or its token closes the session) and the record is left as it was.
\<close>

theorem held_request_protected:
  assumes "dict_get (ad_peer_requests x) rid = Some (class_of m, key)" "list_all (keeps_request rid key) evs"
    and "is_draft16_or_later d" "collides m key" and y_def: "y = fold (adm_step V d prof) evs x"
  shows "dict_get (ad_peer_requests y) rid = Some (class_of m, key)
    \<and> snd (snd (admission V d prof m y)) \<noteq> Inr None
    \<and> ad_peer_requests (fst (snd (admission V d prof m y))) = ad_peer_requests y"
proof -
  have y: "dict_get (ad_peer_requests y) rid = Some (class_of m, key)"
    unfolding y_def by (rule request_held.along [OF assms(1,2)])
  obtain m' x' r where a: "resolve_auth_token V d m y = (m', x', r)" by (metis prod_cases3)
  have x': "ad_peer_requests x' = ad_peer_requests y" by (rule resolve_peer_requests [OF a])
  have "collides m' key" using a assms(4)
    by (auto simp: resolve_auth_token_def Let_def split: option.splits list.splits pval.splits token_op.splits)
  then obtain x'' r' where "refuse_request d prof m' x' = (x'', Inr (Some r'))" "ad_peer_requests x'' = ad_peer_requests x'"
    using collides_refused [of x' rid m' key d prof] y x' resolve_same(2) [OF a] assms(3) by auto
  then show ?thesis using y x' unfolding admission_def a by (auto split: sum.splits option.splits)
qed

text \<open>
  C30: the token cache is accounted exactly and never outgrows what this end advertised. In every session the aliases
  are distinct, the bytes counted are the sum of 16 plus the length of every token held, and they stay within the
  advertised maximum, so no more than a sixteenth of it in tokens is held.
\<close>

theorem token_cache_bounded:
  "let x = fold (adm_step V d prof) evs (new_adm client n (int c)) in
     distinct (map fst (ad_auth_tokens x))
     \<and> ad_auth_token_cache_used x = sum_list (map (\<lambda>(alias, t, v). 16 + int (length v)) (ad_auth_tokens x))
     \<and> ad_auth_token_cache_used x \<le> ad_auth_token_cache_max x
     \<and> 16 * length (ad_auth_tokens x) \<le> nat (ad_auth_token_cache_max x)"
proof -
  let ?x = "fold (adm_step V d prof) evs (new_adm client n (int c))"
  have ok: "cache_ok ?x" by (rule token_cache.reachable)
  have s: "token_size \<circ> snd = (\<lambda>(alias :: int, t, v). 16 + int (length v))" by (auto simp: token_size_def fun_eq_iff)
  have "16 * int (length d) \<le> sum_list (map (\<lambda>(alias :: int, t :: int, v :: bytes). 16 + int (length v)) d)" for d
    by (induction d) auto
  from this [of "ad_auth_tokens ?x"] show ?thesis using ok unfolding cache_ok_def dict_ok_def s Let_def by auto
qed

text \<open>
  C29: a registered token is found again. Once a REGISTER for an alias was applied, and as long as no message deletes
  the alias, every later message outside SETUP that uses the alias carries the registered token, with its type, when
  the application sees it; the cache is not changed by the use.
\<close>

theorem registered_token_resolves:
  assumes "token_ref m0 = Some \<lparr>at_alias_type = 1, at_alias = a, at_token_type = Some t, at_value = Some v\<rparr>"
    and "\<not> is_any_setup m0" "resolve_auth_token V d m0 x0 = (m1, x1, Inr r)"
    and "list_all (keeps_alias a) evs"
    and "token_ref m = Some \<lparr>at_alias_type = 2, at_alias = a, at_token_type = t', at_value = v'\<rparr>" "\<not> is_any_setup m"
    and "msg_params m = Some ps"
  shows "\<exists>r. resolve_auth_token V d m (fold (adm_step V d prof) evs x1)
    = (with_params (dict_set ps 0x03 (PToken t v)) m, fold (adm_step V d prof) evs x1, Inr r)"
proof -
  note keys = AUTH_TOKEN_KEY_def REGISTER_ALIAS_def DELETE_ALIAS_def
  have "dict_get (ad_auth_tokens x1) a = Some (t, v)"
    using assms(1-3) unfolding token_ref_def resolve_auth_token_def apply_token_ref_def Let_def keys
    by (auto simp: bind_eq_Some_conv pydict.get_put dict_get_def [of "[]"] split: option.splits list.splits pval.splits token_op.splits if_splits)
  then have y: "dict_get (ad_auth_tokens (fold (adm_step V d prof) evs x1)) a = Some (t, v)"
    using assms(4) by (rule alias_held.along)
  have ps: "dict_get ps 0x03 = Some (PTokRef \<lparr>at_alias_type = 2, at_alias = a, at_token_type = t', at_value = v'\<rparr>)"
    using assms(5,7) by (auto simp: token_ref_def AUTH_TOKEN_KEY_def split: option.splits pval.splits)
  then obtain p qs where "ps = p # qs" by (cases ps) (auto simp: dict_get_def)
  then show ?thesis using assms(6,7) ps y by (simp add: resolve_auth_token_def apply_token_ref_def Let_def keys)
qed


section \<open>Witnesses\<close>

definition subscribe_namespace_example :: "int \<Rightarrow> byte \<Rightarrow> params \<Rightarrow> control_msg" where
  "subscribe_namespace_example rid b ps =
    M_SubscribeNamespace \<lparr>sn_request_id = rid, sn_namespace_prefix = [[b]], sn_subscribe_options = 0, sn_parameters = Some ps\<rparr>"

definition two_prefixes :: adm where
  "two_prefixes = fold (adm_step None 16 PROFILE_D16)
     [Message (subscribe_namespace_example 0 1 []), Message (subscribe_namespace_example 2 2 []),
      Message (subscribe_namespace_example 4 1 [])] (new_adm False 0 (int 100))"

lemma two_prefixes_held: "ad_peer_requests two_prefixes
    = [(0, K_SubscribeNamespace, Held_Prefix [PBytes [1]]), (2, K_SubscribeNamespace, Held_Prefix [PBytes [2]])]"
  by code_simp

theorem admitted_requests_exclusive_witness:
  "dict_get (ad_peer_requests two_prefixes) 0 = Some (K_SubscribeNamespace, Held_Prefix [PBytes [1]])
    \<and> dict_get (ad_peer_requests two_prefixes) 2 = Some (K_SubscribeNamespace, Held_Prefix [PBytes [2]])
    \<and> \<not> prefix [PBytes [1 :: byte]] [PBytes [2]]"
proof -
  have h: "dict_get (ad_peer_requests two_prefixes) 0 = Some (K_SubscribeNamespace, Held_Prefix [PBytes [1]])"
    "dict_get (ad_peer_requests two_prefixes) 2 = Some (K_SubscribeNamespace, Held_Prefix [PBytes [2]])"
    unfolding two_prefixes_held by (simp_all add: dict_get_def)
  show ?thesis using admitted_requests_exclusive [OF h [unfolded two_prefixes_def]] h by (simp add: held_prefix_def)
qed

theorem held_request_protected_witness:
  "snd (snd (admission None 16 PROFILE_D16 (subscribe_namespace_example 6 2 []) two_prefixes)) \<noteq> Inr None"
proof -
  have "class_of (subscribe_namespace_example 6 2 []) = K_SubscribeNamespace"
    "dict_get (ad_peer_requests two_prefixes) 2 = Some (K_SubscribeNamespace, Held_Prefix [PBytes [2]])"
    "collides (subscribe_namespace_example 6 2 []) (Held_Prefix [PBytes [2]])" "is_draft16_or_later 16"
    unfolding two_prefixes_held
    by (simp_all add: dict_get_def subscribe_namespace_example_def collides_def overlaps_def is_draft16_or_later_def get_major_version_def)
  then show ?thesis
    using held_request_protected [where x = two_prefixes and rid = 2 and m = "subscribe_namespace_example 6 2 []" and evs = "[Drain, Cancelled 0]"
        and key = "Held_Prefix [PBytes [2]]" and d = 16 and V = None and prof = PROFILE_D16 and y = "fold (adm_step None 16 PROFILE_D16) [Drain, Cancelled 0] two_prefixes"]
      held_request_protected [where x = two_prefixes and rid = 2 and m = "subscribe_namespace_example 6 2 []" and evs = "[]"
        and key = "Held_Prefix [PBytes [2]]" and d = 16 and V = None and prof = PROFILE_D16 and y = two_prefixes]
    by simp
qed

theorem registered_token_resolves_witness:
  "\<exists>r. resolve_auth_token None 16 (subscribe_namespace_example 2 2 [(3, PTokRef \<lparr>at_alias_type = 2, at_alias = 7, at_token_type = None, at_value = None\<rparr>)])
      (fst (snd (resolve_auth_token None 16
        (subscribe_namespace_example 0 1 [(3, PTokRef \<lparr>at_alias_type = 1, at_alias = 7, at_token_type = Some 0, at_value = Some [9]\<rparr>)])
        (new_adm False 0 100))))
    = (subscribe_namespace_example 2 2 [(3, PToken 0 [9])],
       fst (snd (resolve_auth_token None 16
        (subscribe_namespace_example 0 1 [(3, PTokRef \<lparr>at_alias_type = 1, at_alias = 7, at_token_type = Some 0, at_value = Some [9]\<rparr>)])
        (new_adm False 0 100))), Inr r)"
proof -
  let ?reg = "subscribe_namespace_example 0 1 [(3, PTokRef \<lparr>at_alias_type = 1, at_alias = 7, at_token_type = Some 0, at_value = Some [9]\<rparr>)]"
  let ?use = "subscribe_namespace_example 2 2 [(3, PTokRef \<lparr>at_alias_type = 2, at_alias = 7, at_token_type = None, at_value = None\<rparr>)]"
  have m: "token_ref ?reg = Some \<lparr>at_alias_type = 1, at_alias = 7, at_token_type = Some 0, at_value = Some [9]\<rparr>" "\<not> is_any_setup ?reg"
    "token_ref ?use = Some \<lparr>at_alias_type = 2, at_alias = 7, at_token_type = None, at_value = None\<rparr>" "\<not> is_any_setup ?use"
    "msg_params ?use = Some [(3, PTokRef \<lparr>at_alias_type = 2, at_alias = 7, at_token_type = None, at_value = None\<rparr>)]"
    by code_simp+
  obtain m1 x1 q where "resolve_auth_token None 16 ?reg (new_adm False 0 100) = (m1, x1, q)" by (metis prod_cases3)
  moreover have "snd (snd (resolve_auth_token None 16 ?reg (new_adm False 0 100))) = Inr None" by code_simp
  ultimately have r: "resolve_auth_token None 16 ?reg (new_adm False 0 100) = (m1, x1, Inr None)" by simp
  show ?thesis using registered_token_resolves [OF m(1,2) r, of "[]" ?use None None, OF _ m(3-5)] r
    by (simp add: subscribe_namespace_example_def with_params_def)
qed


end
