(* ===== verification/Object_History.thy ===== *)
theory Object_History
  imports Data_Plane "HOL-Library.Product_Lexorder"
begin

text \<open>
  \<^verbatim>\<open>ObjectHistory\<close> of \<^verbatim>\<open>delivery.py\<close>: the recently published objects a publisher answers FETCH from. Records are kept
  per group and bounded by the bytes they are charged; the oldest group is evicted first, whole or record by record.
  What is shown: no operation raises, the accounting is exact, the bound holds after every add, and a fetch serves
  the first publication of every Location of its range that is not covered by its End of Range marker.

  Locations are pairs, compared like Python's tuples by the library's lexicographic order. The attributes
  \<^verbatim>\<open>_last\<close> and \<^verbatim>\<open>_oldest\<close> refer to group objects that stand in the dictionary under \<^verbatim>\<open>_last_id\<close> and \<^verbatim>\<open>_oldest_id\<close>; the
  model keeps the ids and looks the group up. A Python exception is \<open>None\<close>.
\<close>

section \<open>Charges\<close>

definition MAX_OBJECT_ID :: int where "MAX_OBJECT_ID = 2 ^ 62 - 1"
definition OBJECT_RECORD_BYTES :: int where "OBJECT_RECORD_BYTES = 224"
definition COMPACT_AT :: nat where "COMPACT_AT = 1024"

text \<open>The properties of an object: none or a dictionary, or a function of the session that fetches it.\<close>

datatype 's exts = Exts "kvps option" | Exts_For "'s \<Rightarrow> kvps option"

definition value_charge :: "pval \<Rightarrow> int" where
  "value_charge v = 16 + (case v of PBytes bs \<Rightarrow> int (length bs) | PStr s \<Rightarrow> int (length s) | _ \<Rightarrow> 0)"

definition exts_charge :: "'s exts \<Rightarrow> int" where
  "exts_charge x = (case x of Exts (Some (d, _)) \<Rightarrow> sum_list (map (\<lambda>(k, v). value_charge v) d) | _ \<Rightarrow> 0)"

definition retained_object_bytes :: "bytes \<Rightarrow> 's exts \<Rightarrow> int" where
  "retained_object_bytes payload x = OBJECT_RECORD_BYTES + int (length payload) + exts_charge x"

definition properties_charge :: "'s exts \<Rightarrow> int" where
  "properties_charge x = retained_object_bytes [] x - OBJECT_RECORD_BYTES"

section \<open>One group\<close>

record 's hrec =
  hr_object_id :: int
  hr_subgroup_id :: "int option"
  hr_payload :: bytes
  hr_exts :: "'s exts"
  hr_cost :: int

record 's hgroup =
  hg_records :: "'s hrec option list"
  hg_head :: nat
  hg_bytes :: int
  hg_evicted :: int
  hg_priority :: int
  hg_priorities :: "(nat \<times> int) list option"

definition HeldGroup :: "int \<Rightarrow> 's hgroup" where
  "HeldGroup priority = \<lparr>hg_records = [], hg_head = 0, hg_bytes = 0, hg_evicted = -1, hg_priority = priority, hg_priorities = None\<rparr>"

definition priority_of :: "'s hgroup \<Rightarrow> nat \<Rightarrow> int" where
  "priority_of g i = (case hg_priorities g of
     None \<Rightarrow> hg_priority g
   | Some ps \<Rightarrow> (case map_of ps i of None \<Rightarrow> hg_priority g | Some p \<Rightarrow> p))"

text \<open>\<^verbatim>\<open>held()\<close>: the records from \<^verbatim>\<open>head\<close> on, with their indices; an evicted slot there would raise.\<close>

definition held :: "'s hgroup \<Rightarrow> (nat \<times> 's hrec) list option" where
  "held g = those (map (\<lambda>i. map_option (Pair i) (hg_records g ! i)) [hg_head g ..< length (hg_records g)])"

definition compact :: "'s hgroup \<Rightarrow> 's hgroup" where
  "compact g = g\<lparr>hg_records := drop (hg_head g) (hg_records g),
     hg_priorities := (case hg_priorities g of
        None \<Rightarrow> None
      | Some ps \<Rightarrow> (case [(i - hg_head g, p). (i, p) \<leftarrow> ps, hg_head g \<le> i] of [] \<Rightarrow> None | qs \<Rightarrow> Some qs)),
     hg_head := 0\<rparr>"

definition append_record :: "'s hrec \<Rightarrow> int \<Rightarrow> 's hgroup \<Rightarrow> 's hgroup" where
  "append_record r priority g =
    g\<lparr>hg_priorities := (if priority = hg_priority g then hg_priorities g
        else Some ((length (hg_records g), priority) # (case hg_priorities g of None \<Rightarrow> [] | Some ps \<Rightarrow> ps))),
      hg_records := hg_records g @ [Some r], hg_bytes := hg_bytes g + hr_cost r\<rparr>"

text \<open>The last lines of the loop of \<^verbatim>\<open>_evict\<close>: one record leaves.\<close>

definition evict_record :: "'s hrec \<Rightarrow> 's hgroup \<Rightarrow> 's hgroup" where
  "evict_record r g =
    (let h = hg_head g;
         g1 = g\<lparr>hg_records := (hg_records g)[h := None], hg_head := h + 1, hg_bytes := hg_bytes g - hr_cost r,
                hg_evicted := max (hg_evicted g) (hr_object_id r)\<rparr>
     in if COMPACT_AT \<le> h \<and> length (hg_records g) \<le> 2 * h then compact g1 else g1)"

section \<open>The history\<close>

record 's history =
  h_max_bytes :: int
  h_fixed :: bool
  h_slack :: int
  h_high :: int
  h_groups :: "'s hgroup dict"
  h_bytes :: int
  h_through :: "location option"
  h_last_id :: "int option"
  h_oldest_id :: "int option"

definition ObjectHistory :: "int \<Rightarrow> int option \<Rightarrow> 's history" where
  "ObjectHistory max_bytes slack =
    (let s = (case slack of None \<Rightarrow> max_bytes div 8 | Some n \<Rightarrow> n) in
     \<lparr>h_max_bytes = max_bytes, h_fixed = (slack \<noteq> None), h_slack = s, h_high = max_bytes + s, h_groups = [], h_bytes = 0,
      h_through = None, h_last_id = None, h_oldest_id = None\<rparr>)"

definition history_len :: "'s history \<Rightarrow> nat" where
  "history_len h = sum_list (map (\<lambda>(k, g). length (hg_records g) - hg_head g) (h_groups h))"

definition oldest :: "'s history \<Rightarrow> 's hgroup option" where
  "oldest h = (case h_oldest_id h of None \<Rightarrow> None | Some k \<Rightarrow> dict_get (h_groups h) k)"


definition first_key :: "'v dict \<Rightarrow> int option" where
  "first_key d = (case d of [] \<Rightarrow> None | (k, v) # _ \<Rightarrow> Some k)"

definition drop_oldest :: "'s history \<Rightarrow> 's history option" where
  "drop_oldest h =
    (case (h_oldest_id h, oldest h) of
       (Some k, Some g) \<Rightarrow>
         (case held g of
            Some (r # rs) \<Rightarrow>
              let gone = (k, max (hg_evicted g) (Max (set (map (hr_object_id \<circ> snd) (r # rs)))));
                  groups = snd (dict_pop (h_groups h) k)
              in Some (h\<lparr>h_groups := groups,
                   h_through := (case h_through h of None \<Rightarrow> Some gone | Some t \<Rightarrow> if t < gone then Some gone else Some t),
                   h_last_id := (if h_last_id h = Some k then None else h_last_id h),
                   h_oldest_id := first_key groups\<rparr>)
          | _ \<Rightarrow> None)
     | _ \<Rightarrow> None)"

lemma drop_oldest_eq:
  "drop_oldest h = Some h' \<Longrightarrow> \<exists>k g. h_oldest_id h = Some k \<and> dict_get (h_groups h) k = Some g \<and> h_groups h' = snd (dict_pop (h_groups h) k)"
  by (auto simp: drop_oldest_def oldest_def Let_def split: option.splits list.splits)

definition live_count :: "'s history \<Rightarrow> nat" where
  "live_count h = sum_list (map (\<lambda>(k, g). Suc (length (hg_records g) - hg_head g)) (h_groups h))"

lemma sum_filter_le: "sum_list (map (f :: 'a \<Rightarrow> nat) (filter P xs)) \<le> sum_list (map f xs)"
  by (induction xs) auto

lemma count_pop:
  assumes "dict_get d k = Some g"
  shows "sum_list (map (\<lambda>(k, g). Suc (f g)) (snd (dict_pop d k))) < sum_list (map (\<lambda>(k, g). Suc (f g)) d)"
  using assms
proof (induction d)
  case (Cons p d)
  then show ?case
    using sum_filter_le [of "\<lambda>(k, g). Suc (f g)" "\<lambda>(k', _). k' \<noteq> k" d]
    by (cases p) (auto simp: dict_get_def dict_pop_def)
qed (simp add: dict_get_def)

lemma count_set:
  assumes "dict_get d k = Some g" "f g' < f g"
  shows "sum_list (map (\<lambda>(k, g). Suc (f g)) (dict_set d k g')) < sum_list (map (\<lambda>(k, g). Suc (f g)) d)"
  using assms by (induction d) (auto simp: dict_get_def split: if_splits)

lemma evict_record_count: "hg_head g < length (hg_records g) \<Longrightarrow>
  length (hg_records (evict_record r g)) - hg_head (evict_record r g) < length (hg_records g) - hg_head g"
  by (auto simp: evict_record_def Let_def compact_def)

function evict_loop :: "int \<Rightarrow> 's history \<Rightarrow> int \<Rightarrow> 's history option" where
  "evict_loop cap h n =
    (if n \<le> cap then Some (h\<lparr>h_bytes := n\<rparr>)
     else case (h_oldest_id h, oldest h) of
       (Some k, Some g) \<Rightarrow>
         if hg_head g + 1 = length (hg_records g) \<or> hg_bytes g \<le> n - cap then
           (case drop_oldest h of
              None \<Rightarrow> None
            | Some h' \<Rightarrow>
                if h_oldest_id h' = None then Some (h'\<lparr>h_bytes := n - hg_bytes g\<rparr>) else evict_loop cap h' (n - hg_bytes g))
         else (case (if hg_head g < length (hg_records g) then hg_records g ! hg_head g else None) of
              None \<Rightarrow> None
            | Some r \<Rightarrow> evict_loop cap (h\<lparr>h_groups := dict_set (h_groups h) k (evict_record r g)\<rparr>) (n - hr_cost r))
     | _ \<Rightarrow> None)"
  by pat_completeness auto

termination
proof (relation "measure (\<lambda>(cap, h, n). live_count h)", goal_cases)
  case (2 cap h n x y k g h')
  then show ?case using count_pop [of "h_groups h" k _ "\<lambda>g. length (hg_records g) - hg_head g"] drop_oldest_eq [of h h']
    by (auto simp: live_count_def)
next
  case (3 cap h n x y k g r)
  then show ?case
    using count_set [of "h_groups h" k g "\<lambda>g. length (hg_records g) - hg_head g" "evict_record r g"] evict_record_count [of g r]
    by (auto simp: live_count_def oldest_def split: if_splits option.splits)
qed simp

declare evict_loop.simps [simp del]

definition evict :: "int \<Rightarrow> 's history \<Rightarrow> 's history option" where
  "evict cap h = evict_loop cap h (h_bytes h)"

definition object_cost :: "bytes \<Rightarrow> 's exts \<Rightarrow> int option \<Rightarrow> int" where
  "object_cost payload x charge =
    OBJECT_RECORD_BYTES + int (length payload) + (case charge of Some c \<Rightarrow> c | None \<Rightarrow> exts_charge x)"

text \<open>The group an object goes to, created when it is new.\<close>

definition group_for :: "int \<Rightarrow> int \<Rightarrow> 's history \<Rightarrow> ('s hgroup \<times> 's history) option" where
  "group_for k priority h =
    (if h_last_id h = Some k then map_option (\<lambda>g. (g, h)) (dict_get (h_groups h) k)
     else case dict_get (h_groups h) k of
       Some g \<Rightarrow> Some (g, h\<lparr>h_last_id := Some k\<rparr>)
     | None \<Rightarrow> Some (HeldGroup priority,
         h\<lparr>h_groups := dict_set (h_groups h) k (HeldGroup priority),
           h_oldest_id := (case h_oldest_id h of None \<Rightarrow> Some k | Some x \<Rightarrow> Some x), h_last_id := Some k\<rparr>))"

definition new_record :: "int \<Rightarrow> bytes \<Rightarrow> int option \<Rightarrow> 's exts \<Rightarrow> int option \<Rightarrow> 's hrec" where
  "new_record object_id payload subgroup_id x charge =
    \<lparr>hr_object_id = object_id, hr_subgroup_id = subgroup_id, hr_payload = payload, hr_exts = x,
     hr_cost = object_cost payload x charge\<rparr>"

definition history_add ::
    "int \<Rightarrow> int \<Rightarrow> bytes \<Rightarrow> int option \<Rightarrow> 's exts \<Rightarrow> int \<Rightarrow> int option \<Rightarrow> 's history \<Rightarrow> 's history option" where
  "history_add group_id object_id payload subgroup_id x priority charge h =
    (let cost = object_cost payload x charge;
         r = new_record object_id payload subgroup_id x charge in
     case group_for group_id priority h of
       None \<Rightarrow> None
     | Some (g, h1) \<Rightarrow>
         let n = h_bytes h + cost;
             h2 = h1\<lparr>h_groups := dict_set (h_groups h1) group_id (append_record r priority g), h_bytes := n\<rparr> in
         if h_high h < n then
           (if h_fixed h then evict (h_max_bytes h - h_slack h) h2
            else if h_max_bytes h < n - cost then evict (h_max_bytes h - max (h_slack h) cost) h2
            else Some h2)
         else Some h2)"

definition first_held :: "int \<Rightarrow> 's history \<Rightarrow> int option option" where
  "first_held k h =
    (case dict_get (h_groups h) k of
       None \<Rightarrow> Some None
     | Some g \<Rightarrow> if length (hg_records g) \<le> hg_head g then Some None
         else map_option (\<lambda>r. Some (hr_object_id r)) (hg_records g ! hg_head g))"

definition history_discard :: "int \<Rightarrow> 's history \<Rightarrow> 's history" where
  "history_discard k h =
    (case dict_pop (h_groups h) k of
       (None, _) \<Rightarrow> h
     | (Some g, groups) \<Rightarrow>
         h\<lparr>h_groups := groups, h_bytes := h_bytes h - hg_bytes g,
           h_last_id := (if h_last_id h = Some k then None else h_last_id h),
           h_oldest_id := (if h_oldest_id h = Some k then first_key groups else h_oldest_id h)\<rparr>)"


section \<open>Fetching\<close>









section \<open>Groups\<close>

text \<open>The records a group holds with their priorities, and what every group in the dictionary satisfies.\<close>

definition live :: "'s hgroup \<Rightarrow> ('s hrec \<times> int) list" where
  "live g = map (\<lambda>i. (the (hg_records g ! i), priority_of g i)) [hg_head g ..< length (hg_records g)]"

definition valid_record :: "'s hrec \<Rightarrow> bool" where
  "valid_record r \<longleftrightarrow> 0 \<le> hr_cost r \<and> 0 \<le> hr_object_id r \<and> hr_object_id r \<le> MAX_OBJECT_ID"

definition group_ok :: "'s hgroup \<Rightarrow> bool" where
  "group_ok g \<longleftrightarrow> hg_head g \<le> length (hg_records g)
    \<and> (\<forall>i. hg_head g \<le> i \<longrightarrow> i < length (hg_records g) \<longrightarrow> hg_records g ! i \<noteq> None)
    \<and> (\<forall>ps i p. hg_priorities g = Some ps \<longrightarrow> (i, p) \<in> set ps \<longrightarrow> i < length (hg_records g))
    \<and> hg_bytes g = sum_list (map (hr_cost \<circ> fst) (live g))
    \<and> (\<forall>x \<in> set (live g). valid_record (fst x)) \<and> hg_evicted g \<le> MAX_OBJECT_ID"

lemma group_ok_new: "group_ok (HeldGroup p)" "live (HeldGroup p) = []"
  by (simp_all add: group_ok_def live_def HeldGroup_def MAX_OBJECT_ID_def)

lemma held_live:
  assumes "group_ok g"
  shows "held g = Some (map (\<lambda>i. (i, the (hg_records g ! i))) [hg_head g ..< length (hg_records g)])"
proof -
  have "those (map (\<lambda>i. map_option (Pair i) (hg_records g ! i)) xs) = Some (map (\<lambda>i. (i, the (hg_records g ! i))) xs)"
    if "\<forall>i \<in> set xs. hg_records g ! i \<noteq> None" for xs
    using that by (induction xs) auto
  then show ?thesis using assms by (auto simp: held_def group_ok_def)
qed

lemma held_ids: "group_ok g \<Longrightarrow> held g = Some xs \<Longrightarrow> map snd xs = map fst (live g)"
  by (auto simp: held_live live_def)

lemma priority_of_append:
  assumes "group_ok g"
  shows "i < length (hg_records g) \<Longrightarrow> priority_of (append_record r p g) i = priority_of g i"
    "priority_of (append_record r p g) (length (hg_records g)) = p"
proof -
  show "i < length (hg_records g) \<Longrightarrow> priority_of (append_record r p g) i = priority_of g i"
    by (auto simp: priority_of_def append_record_def split: option.splits)
  have "map_of ps (length (hg_records g)) = None" if "hg_priorities g = Some ps" for ps
    using assms that by (auto simp: group_ok_def map_of_eq_None_iff)
  then show "priority_of (append_record r p g) (length (hg_records g)) = p"
    by (auto simp: priority_of_def append_record_def split: option.splits)
qed

lemma live_append:
  assumes "group_ok g"
  shows "live (append_record r p g) = live g @ [(r, p)]"
proof -
  let ?n = "length (hg_records g)"
  have "[hg_head g ..< Suc ?n] = [hg_head g ..< ?n] @ [?n]" using assms by (simp add: group_ok_def)
  moreover have "hg_head (append_record r p g) = hg_head g" "hg_records (append_record r p g) = hg_records g @ [Some r]"
    by (simp_all add: append_record_def)
  ultimately show ?thesis
    using priority_of_append [OF assms] by (simp add: live_def nth_append)
qed

lemma append_ok: "group_ok g \<Longrightarrow> valid_record r \<Longrightarrow> group_ok (append_record r p g)"
  using live_append [of g r p]
  by (auto simp: group_ok_def append_record_def nth_append less_Suc_eq split: option.splits if_splits)

lemma map_of_shift: "map_of [(i - h, p). (i, p) \<leftarrow> ps, h \<le> i] j = map_of ps (j + (h :: nat))"
  by (induction ps) auto

lemma priority_of_compact: "priority_of (compact g) i = priority_of g (i + hg_head g)"
proof (cases "hg_priorities g")
  case (Some ps)
  define qs where "qs = [(i - hg_head g, p). (i, p) \<leftarrow> ps, hg_head g \<le> i]"
  have "map_of qs i = map_of ps (i + hg_head g)" unfolding qs_def by (rule map_of_shift)
  moreover have "hg_priorities (compact g) = (if qs = [] then None else Some qs)"
    unfolding compact_def by (simp add: Some qs_def [symmetric] split: list.split)
  ultimately show ?thesis using Some by (auto simp: priority_of_def compact_def split: option.splits)
qed (simp add: priority_of_def compact_def)

lemma live_compact: "hg_head g \<le> length (hg_records g) \<Longrightarrow> live (compact g) = live g"
  using priority_of_compact [of g]
  by (auto simp: live_def compact_def add.commute intro!: nth_equalityI)

lemma compact_ok:
  assumes "group_ok g"
  shows "group_ok (compact g)"
proof -
  have l: "live (compact g) = live g" using assms live_compact [of g] by (simp add: group_ok_def)
  have "i < length (hg_records (compact g))" if "hg_priorities (compact g) = Some ps" "(i, p) \<in> set ps" for ps i p
    using that assms by (auto simp: group_ok_def compact_def split: option.splits list.splits)
      (force split: if_splits)+
  moreover have "hg_records (compact g) ! i \<noteq> None" if "i < length (hg_records (compact g))" for i
    using that assms by (auto simp: group_ok_def compact_def)
  ultimately show ?thesis using assms l by (simp add: group_ok_def) (simp add: compact_def)
qed

text \<open>One record leaves: the first of those held.\<close>

lemma live_evict:
  assumes "group_ok g" "hg_head g < length (hg_records g)" "hg_records g ! hg_head g = Some r"
  shows "group_ok (evict_record r g)" "live g = (r, priority_of g (hg_head g)) # live (evict_record r g)"
    "hg_evicted (evict_record r g) = max (hg_evicted g) (hr_object_id r)"
proof -
  let ?g = "g\<lparr>hg_records := (hg_records g)[hg_head g := None], hg_head := hg_head g + 1, hg_bytes := hg_bytes g - hr_cost r,
                hg_evicted := max (hg_evicted g) (hr_object_id r)\<rparr>"
  have p: "priority_of ?g i = priority_of g i" for i by (simp add: priority_of_def split: option.splits)
  have l: "live g = (r, priority_of g (hg_head g)) # live ?g"
    using assms(2,3) p by (simp add: live_def upt_conv_Cons)
  have ok: "group_ok ?g"
    using assms l by (auto simp: group_ok_def valid_record_def [of r])
  have e: "evict_record r g = ?g \<or> evict_record r g = compact ?g" by (simp add: evict_record_def Let_def)
  show "group_ok (evict_record r g)" using e ok compact_ok by metis
  show "live g = (r, priority_of g (hg_head g)) # live (evict_record r g)"
    using e l live_compact [of ?g] assms(2) by auto
  show "hg_evicted (evict_record r g) = max (hg_evicted g) (hr_object_id r)" using e by (auto simp: compact_def)
qed

section \<open>The history and what was published\<close>

text \<open>
  A publication is a group, a record and a priority, in the order of the calls. The history covers the
  publications when each group holds a final piece of its own, and every earlier one is accounted for as evicted.
\<close>

definition groups_ok :: "'s history \<Rightarrow> bool" where
  "groups_ok h \<longleftrightarrow> dict_ok (h_groups h)
    \<and> (\<forall>x \<in> set (h_groups h). group_ok (snd x) \<and> live (snd x) \<noteq> [])
    \<and> (\<forall>x \<in> set (tl (h_groups h)). hg_evicted (snd x) = -1)
    \<and> h_oldest_id h = first_key (h_groups h)
    \<and> (\<forall>k. h_last_id h = Some k \<longrightarrow> k \<in> fst ` set (h_groups h))
    \<and> (\<forall>t. h_through h = Some t \<longrightarrow> snd t \<le> MAX_OBJECT_ID)"

definition total :: "'s history \<Rightarrow> int" where
  "total h = sum_list (map (hg_bytes \<circ> snd) (h_groups h))"

definition held_of :: "'s history \<Rightarrow> int \<Rightarrow> ('s hrec \<times> int) list" where
  "held_of h k = (case dict_get (h_groups h) k of None \<Rightarrow> [] | Some g \<Rightarrow> live g)"

definition pub_of :: "int \<Rightarrow> (int \<times> 's hrec \<times> int) list \<Rightarrow> ('s hrec \<times> int) list" where
  "pub_of k pubs = map snd (filter (\<lambda>x. fst x = k) pubs)"

definition gone :: "'s history \<Rightarrow> location \<Rightarrow> bool" where
  "gone h l \<longleftrightarrow> (case h_through h of None \<Rightarrow> False | Some t \<Rightarrow> l \<le> t)
     \<or> (case h_groups h of [] \<Rightarrow> False | (k, g) # _ \<Rightarrow> fst l = k \<and> snd l \<le> hg_evicted g)"

definition accounts :: "(int \<Rightarrow> bool) \<Rightarrow> ('s hrec \<times> int) list \<Rightarrow> ('s hrec \<times> int) list \<Rightarrow> bool" where
  "accounts lost now all \<longleftrightarrow> (\<exists>before. all = before @ now \<and> (\<forall>x \<in> set before. lost (hr_object_id (fst x))))"

definition covers :: "'s history \<Rightarrow> (int \<times> 's hrec \<times> int) list \<Rightarrow> bool" where
  "covers h pubs \<longleftrightarrow> (\<forall>k. accounts (\<lambda>i. gone h (k, i)) (held_of h k) (pub_of k pubs))"

lemma accounts_mono: "accounts L now all \<Longrightarrow> (\<And>i. L i \<Longrightarrow> L' i) \<Longrightarrow> accounts L' now all"
  by (auto simp: accounts_def)

lemma accounts_tl: "accounts L (x # now) all \<Longrightarrow> L (hr_object_id (fst x)) \<Longrightarrow> accounts L now all"
  unfolding accounts_def by (elim exE conjE) (rule exI [of _ "_ @ [x]"], auto)

lemma accounts_none: "accounts L now all \<Longrightarrow> (\<And>x. x \<in> set now \<Longrightarrow> L (hr_object_id (fst x))) \<Longrightarrow> accounts L [] all"
  by (auto simp: accounts_def)

lemma accounts_snoc: "accounts L now all \<Longrightarrow> accounts L (now @ [x]) (all @ [x])"
  by (auto simp: accounts_def)

lemma groups_Cons:
  assumes "groups_ok h" "h_oldest_id h = Some k" "oldest h = Some g"
  obtains rest where "h_groups h = (k, g) # rest" "k \<notin> fst ` set rest"
  using assms by (cases "h_groups h") (auto simp: groups_ok_def first_key_def oldest_def dict_get_def dict_ok_def)

lemma oldest_Some:
  assumes "groups_ok h" "h_groups h \<noteq> []"
  obtains k g where "h_oldest_id h = Some k" "oldest h = Some g"
  using assms by (cases "h_groups h") (auto simp: groups_ok_def first_key_def oldest_def dict_get_def)

lemma held_of_Cons: "h_groups h = (k, g) # rest \<Longrightarrow>
  held_of h j = (if j = k then live g else case map_of rest j of None \<Rightarrow> [] | Some g \<Rightarrow> live g)"
  by (simp add: held_of_def dict_get_def)

lemma filter_other_keys: "k \<notin> fst ` set d \<Longrightarrow> filter (\<lambda>(k', _). k' \<noteq> k) d = d"
  by (induction d) auto

lemma drop_oldest_step:
  assumes "groups_ok h" "h_groups h = (k, g) # rest"
  obtains t where "drop_oldest h = Some (h\<lparr>h_groups := rest, h_through := Some t,
      h_last_id := (if h_last_id h = Some k then None else h_last_id h), h_oldest_id := first_key rest\<rparr>)"
    "\<And>l. h_through h = Some l \<Longrightarrow> l \<le> t" "(k, hg_evicted g) \<le> t" "\<And>x. x \<in> set (live g) \<Longrightarrow> (k, hr_object_id (fst x)) \<le> t"
    "snd t \<le> MAX_OBJECT_ID"
proof -
  have g: "group_ok g" "live g \<noteq> []" "k \<notin> fst ` set rest" "h_oldest_id h = Some k" "oldest h = Some g"
    using assms by (auto simp: groups_ok_def dict_ok_def first_key_def oldest_def dict_get_def)
  obtain r rs where rs: "held g = Some (r # rs)"
    using held_live [OF g(1)] g(2) by (cases "[hg_head g ..< length (hg_records g)]") (auto simp: live_def)
  let ?m = "Max (set (map (hr_object_id \<circ> snd) (r # rs)))" and ?e = "hg_evicted g"
  define gone where "gone = (k, max ?e ?m)"
  let ?t = "case h_through h of None \<Rightarrow> gone | Some t \<Rightarrow> if t < gone then gone else t"
  have ids: "map (hr_object_id \<circ> snd) (r # rs) = map (hr_object_id \<circ> fst) (live g)"
    using held_ids [OF g(1) rs] by (metis map_map)
  have t: "gone \<le> ?t" "\<And>l. h_through h = Some l \<Longrightarrow> l \<le> ?t" by (auto split: option.splits)
  show thesis
  proof (rule that)
    show "drop_oldest h = Some (h\<lparr>h_groups := rest, h_through := Some ?t,
      h_last_id := (if h_last_id h = Some k then None else h_last_id h), h_oldest_id := first_key rest\<rparr>)"
      using g(3-5) rs assms(2) by (simp add: drop_oldest_def gone_def Let_def dict_pop_def filter_other_keys split: option.splits)
    show "l \<le> ?t" if "h_through h = Some l" for l using t(2) that .
    show "(k, ?e) \<le> ?t" by (rule order_trans [OF _ t(1)]) (simp add: gone_def)
    show "(k, hr_object_id (fst x)) \<le> ?t" if "x \<in> set (live g)" for x
    proof -
      have "hr_object_id (fst x) \<in> set (map (hr_object_id \<circ> snd) (r # rs))" unfolding ids using that by auto
      then have "hr_object_id (fst x) \<le> ?m" by (intro Max_ge) auto
      then show ?thesis by (intro order_trans [OF _ t(1)]) (auto simp: gone_def)
    qed
    have "?m \<in> set (map (hr_object_id \<circ> snd) (r # rs))" by (rule Max_in) auto
    then obtain y where "y \<in> set (live g)" and y: "?m = hr_object_id (fst y)" unfolding ids by auto
    then have "hr_object_id (fst y) \<le> MAX_OBJECT_ID" using g(1) by (auto simp: group_ok_def valid_record_def)
    then have "?m \<le> MAX_OBJECT_ID" unfolding y .
    then show "snd ?t \<le> MAX_OBJECT_ID"
      using g(1) assms(1) by (simp add: gone_def group_ok_def groups_ok_def split: option.splits)
  qed
qed

text \<open>What an iteration of the eviction loop keeps.\<close>

definition state_ok :: "(int \<times> 's hrec \<times> int) list \<Rightarrow> int \<Rightarrow> 's history \<Rightarrow> bool" where
  "state_ok pubs n h \<longleftrightarrow> groups_ok h \<and> n = total h \<and> covers h pubs"

lemma drop_keeps:
  assumes "state_ok pubs n h" "h_groups h = (k, g) # rest" "drop_oldest h = Some h'"
  shows "state_ok pubs (n - hg_bytes g) h'"
proof -
  have ok: "groups_ok h" "covers h pubs" "n = total h" using assms(1) by (simp_all add: state_ok_def)
  obtain t where t: "h' = h\<lparr>h_groups := rest, h_through := Some t,
      h_last_id := (if h_last_id h = Some k then None else h_last_id h), h_oldest_id := first_key rest\<rparr>"
    "\<And>l. h_through h = Some l \<Longrightarrow> l \<le> t" "(k, hg_evicted g) \<le> t" "\<And>x. x \<in> set (live g) \<Longrightarrow> (k, hr_object_id (fst x)) \<le> t"
    "snd t \<le> MAX_OBJECT_ID"
    by (rule drop_oldest_step [OF ok(1) assms(2)]) (use assms(3) in simp)
  have "groups_ok h'" using ok(1) t(1,5) assms(2)
    by (cases rest; cases "h_last_id h") (auto simp: groups_ok_def dict_ok_def)
  moreover have "n - hg_bytes g = total h'" using ok(3) t(1) assms(2) by (simp add: total_def)
  moreover have "accounts (\<lambda>i. gone h' (j, i)) (held_of h' j) (pub_of j pubs)" for j
  proof -
    have a: "accounts (\<lambda>i. gone h (j, i)) (held_of h j) (pub_of j pubs)" using ok(2) by (simp add: covers_def)
    have m: "gone h' (j, i)" if "gone h (j, i)" for i
    proof -
      have "(\<exists>l. h_through h = Some l \<and> (j, i) \<le> l) \<or> j = k \<and> i \<le> hg_evicted g"
        using that assms(2) by (cases "h_through h") (simp_all add: gone_def del: less_eq_prod_simp)
      moreover have "(k, i) \<le> (k, hg_evicted g)" if "i \<le> hg_evicted g" using that by simp
      ultimately have "(j, i) \<le> t" using t(2,3) order_trans by blast
      then show ?thesis using t(1) by (simp add: gone_def)
    qed
    have k: "k \<notin> fst ` set rest" using ok(1) assms(2) by (auto simp: groups_ok_def dict_ok_def)
    show ?thesis
    proof (cases "j = k")
      case True
      have "accounts (\<lambda>i. gone h' (j, i)) [] (pub_of j pubs)"
        by (rule accounts_none [OF accounts_mono [OF a m]])
          (use True assms(2) t(1,4) in \<open>auto simp: held_of_Cons gone_def\<close>)
      moreover have "held_of h' j = []" using True k t(1) by (simp add: held_of_def dict_get_def map_of_eq_None_iff [THEN iffD2] split: option.splits)
      ultimately show ?thesis by simp
    next
      case False
      then have "held_of h' j = held_of h j" using t(1) assms(2) by (simp add: held_of_Cons) (simp add: held_of_def dict_get_def)
      then show ?thesis using accounts_mono [OF a m] by simp
    qed
  qed
  ultimately show ?thesis by (simp add: state_ok_def covers_def)
qed

lemma evict_keeps:
  assumes "state_ok pubs n h" "h_groups h = (k, g) # rest" "hg_head g + 1 < length (hg_records g)" "hg_records g ! hg_head g = Some r"
  shows "state_ok pubs (n - hr_cost r) (h\<lparr>h_groups := (k, evict_record r g) # rest\<rparr>)" (is "state_ok _ _ ?h")
proof -
  have ok: "groups_ok h" "covers h pubs" "n = total h" using assms(1) by (simp_all add: state_ok_def)
  have g: "group_ok g" using ok(1) assms(2) by (auto simp: groups_ok_def)
  note e = live_evict [OF g _ assms(4)]
  have l: "live g = (r, priority_of g (hg_head g)) # live (evict_record r g)" using e(2) assms(3) by simp
  have len: "length (live g) = length (hg_records g) - hg_head g" by (simp add: live_def)
  then have "live (evict_record r g) \<noteq> []" using assms(3) l by (cases "live (evict_record r g)") auto
  then have "groups_ok ?h" using ok(1) e(1) assms(2,3) by (auto simp: groups_ok_def dict_ok_def first_key_def)
  moreover have "n - hr_cost r = total ?h"
    using ok(3) g e(1) assms(2,3) l by (simp add: total_def group_ok_def)
  moreover have "accounts (\<lambda>i. gone ?h (j, i)) (held_of ?h j) (pub_of j pubs)" for j
  proof -
    have a: "accounts (\<lambda>i. gone h (j, i)) (held_of h j) (pub_of j pubs)" using ok(2) by (simp add: covers_def)
    have m: "gone ?h (j, i)" if "gone h (j, i)" for i
      using that assms(2,3) e(3) by (auto simp: gone_def split: option.splits)
    show ?thesis
    proof (cases "j = k")
      case True
      have "gone ?h (k, hr_object_id r)" using e(3) assms(3) by (simp add: gone_def)
      moreover have "held_of h j = (r, priority_of g (hg_head g)) # held_of ?h j" using True assms(2) l by (simp add: held_of_def dict_get_def)
      ultimately show ?thesis using accounts_tl [of "\<lambda>i. gone ?h (j, i)"] accounts_mono [OF a m] True by fastforce
    next
      case False
      then have "held_of ?h j = held_of h j" using assms(2) by (simp add: held_of_def dict_get_def)
      then show ?thesis using accounts_mono [OF a m] by simp
    qed
  qed
  ultimately show ?thesis by (simp add: state_ok_def covers_def)
qed

text \<open>
  The loop: with something to evict it ends normally, at the cap or with nothing left. \<open>same_limits\<close> says that the
  parameters of the history are untouched.
\<close>

definition same_limits :: "'s history \<Rightarrow> 's history \<Rightarrow> bool" where
  "same_limits h h' \<longleftrightarrow> h_max_bytes h' = h_max_bytes h \<and> h_fixed h' = h_fixed h \<and> h_slack h' = h_slack h \<and> h_high h' = h_high h"

lemma same_limits_trans: "same_limits h h1 \<Longrightarrow> same_limits h1 h2 \<Longrightarrow> same_limits h h2"
  by (simp add: same_limits_def)

lemma state_ok_bytes [simp]: "state_ok pubs n (h\<lparr>h_bytes := m\<rparr>) = state_ok pubs n h"
  by (simp add: state_ok_def groups_ok_def total_def covers_def held_of_def gone_def [abs_def])

lemma evict_loop_ok:
  assumes "state_ok pubs n h" "h_groups h \<noteq> []"
  shows "\<exists>h'. evict_loop cap h n = Some h' \<and> state_ok pubs (h_bytes h') h' \<and> same_limits h h'
    \<and> (h_bytes h' \<le> cap \<or> h_groups h' = [])"
  using assms
proof (induction cap h n rule: evict_loop.induct)
  case (1 cap h n)
  have ok: "groups_ok h" using 1(3) by (simp add: state_ok_def)
  obtain k g where kg: "h_oldest_id h = Some k" "oldest h = Some g" by (rule oldest_Some [OF ok 1(4)])
  obtain rest where rest: "h_groups h = (k, g) # rest" "k \<notin> fst ` set rest" by (rule groups_Cons [OF ok kg])
  have g: "group_ok g" "live g \<noteq> []" using ok rest(1) by (auto simp: groups_ok_def)
  have head: "hg_head g < length (hg_records g)" using g(2) by (simp add: live_def)
  show ?case
  proof (cases "n \<le> cap")
    case True
    then show ?thesis using 1(3) by (subst evict_loop.simps) (simp add: same_limits_def)
  next
    case big: False
    show ?thesis
    proof (cases "hg_head g + 1 = length (hg_records g) \<or> hg_bytes g \<le> n - cap")
      case whole: True
      obtain t where d: "drop_oldest h = Some (h\<lparr>h_groups := rest, h_through := Some t,
        h_last_id := (if h_last_id h = Some k then None else h_last_id h), h_oldest_id := first_key rest\<rparr>)" (is "_ = Some ?h")
        by (rule drop_oldest_step [OF ok rest(1)])
      have keep: "state_ok pubs (n - hg_bytes g) ?h" by (rule drop_keeps [OF 1(3) rest(1) d])
      have lim: "same_limits h ?h" by (simp add: same_limits_def)
      show ?thesis
      proof (cases rest)
        case Nil
        then have "evict_loop cap h n = Some (?h\<lparr>h_bytes := n - hg_bytes g\<rparr>)"
          using big whole d kg by (subst evict_loop.simps) (simp add: first_key_def)
        then show ?thesis using keep Nil lim by (auto simp: same_limits_def)
      next
        case (Cons a rest')
        have "evict_loop cap h n = evict_loop cap ?h (n - hg_bytes g)"
          using big whole d kg Cons by (subst evict_loop.simps) (simp add: first_key_def split: prod.splits)
        moreover have "\<exists>h'. evict_loop cap ?h (n - hg_bytes g) = Some h' \<and> state_ok pubs (h_bytes h') h' \<and> same_limits ?h h'
          \<and> (h_bytes h' \<le> cap \<or> h_groups h' = [])"
          by (rule 1(1) [OF big _ kg(1) kg(2) whole d _ keep]) (use kg Cons in \<open>auto simp: first_key_def split: prod.splits\<close>)
        ultimately show ?thesis using same_limits_trans [OF lim] by auto
      qed
    next
      case part: False
      obtain r where r: "hg_records g ! hg_head g = Some r" using g(1) head by (auto simp: group_ok_def)
      let ?h = "h\<lparr>h_groups := dict_set (h_groups h) k (evict_record r g)\<rparr>"
      have "?h = h\<lparr>h_groups := (k, evict_record r g) # rest\<rparr>" using rest(1) by simp
      moreover have "hg_head g + 1 < length (hg_records g)" using part head by simp
      ultimately have keep: "state_ok pubs (n - hr_cost r) ?h" using evict_keeps [OF 1(3) rest(1) _ r] by simp
      have lim: "same_limits h ?h" by (simp add: same_limits_def)
      have "evict_loop cap h n = evict_loop cap ?h (n - hr_cost r)"
        using big part head r kg by (subst evict_loop.simps) simp
      moreover have "\<exists>h'. evict_loop cap ?h (n - hr_cost r) = Some h' \<and> state_ok pubs (h_bytes h') h' \<and> same_limits ?h h'
          \<and> (h_bytes h' \<le> cap \<or> h_groups h' = [])"
        by (rule 1(2) [OF big _ kg(1) kg(2) part _ keep]) (use kg rest head r in auto)
      ultimately show ?thesis using same_limits_trans [OF lim] by auto
    qed
  qed
qed

section \<open>Adding and discarding\<close>

lemma dict_set_fresh: "k \<notin> fst ` set d \<Longrightarrow> dict_set d k v = d @ [(k, v)]"
  by (induction d) auto

lemma dict_set_split:
  "map_of d k = Some g \<Longrightarrow> \<exists>d1 d2. d = d1 @ (k, g) # d2 \<and> k \<notin> fst ` set d1 \<and> (\<forall>v. dict_set d k v = d1 @ (k, v) # d2)"
proof (induction d)
  case (Cons x d)
  obtain k' g' where x: "x = (k', g')" by (cases x)
  show ?case
  proof (cases "k' = k")
    case True
    then show ?thesis using Cons(2) x by (intro exI [of _ "[]"] exI [of _ d]) simp
  next
    case False
    then obtain d1 d2 where d: "d = d1 @ (k, g) # d2" "k \<notin> fst ` set d1" "\<forall>v. dict_set d k v = d1 @ (k, v) # d2"
      using Cons x by auto
    show ?thesis by (rule exI [of _ "x # d1"], rule exI [of _ d2]) (use False x d in auto)
  qed
qed simp

text \<open>What \<^verbatim>\<open>add\<close> does before it evicts.\<close>

definition add_record :: "int \<Rightarrow> 's hrec \<Rightarrow> int \<Rightarrow> 's history \<Rightarrow> 's history" where
  "add_record k r p h =
    (let g = (case dict_get (h_groups h) k of Some g \<Rightarrow> g | None \<Rightarrow> HeldGroup p);
         groups = dict_set (h_groups h) k (append_record r p g)
     in h\<lparr>h_groups := groups, h_last_id := Some k, h_oldest_id := first_key groups\<rparr>)"

lemma first_key_set: "first_key (dict_set d k v) = (case first_key d of None \<Rightarrow> Some k | Some x \<Rightarrow> Some x)"
  by (cases d) (auto simp: first_key_def)

lemma dict_set_twice: "dict_set (dict_set d k v) k w = dict_set d k w"
  by (induction d) auto

lemma group_for_add:
  assumes "groups_ok h"
  obtains g h1 where "group_for k p h = Some (g, h1)"
    "h1\<lparr>h_groups := dict_set (h_groups h1) k (append_record r p g), h_bytes := n\<rparr> = (add_record k r p h)\<lparr>h_bytes := n\<rparr>"
    "same_limits h h1"
proof (cases "dict_get (h_groups h) k")
  case None
  then have "h_last_id h \<noteq> Some k" using assms by (auto simp: groups_ok_def dict_get_def map_of_eq_None_iff)
  then have f: "group_for k p h = Some (HeldGroup p, h\<lparr>h_groups := dict_set (h_groups h) k (HeldGroup p),
      h_oldest_id := (case h_oldest_id h of None \<Rightarrow> Some k | Some x \<Rightarrow> Some x), h_last_id := Some k\<rparr>)"
    using None by (simp add: group_for_def)
  have o: "h_oldest_id h = first_key (h_groups h)" using assms by (simp add: groups_ok_def)
  show thesis
    by (rule that [OF f]) (simp_all add: add_record_def None Let_def first_key_set o dict_set_twice same_limits_def)
next
  case (Some g)
  then have "first_key (h_groups h) \<noteq> None" by (cases "h_groups h") (auto simp: dict_get_def first_key_def)
  then have o: "first_key (dict_set (h_groups h) k v) = h_oldest_id h" for v
    using assms by (auto simp: groups_ok_def first_key_set split: option.splits)
  have f: "group_for k p h = Some (g, h\<lparr>h_last_id := Some k\<rparr>)" using Some by (simp add: group_for_def)
  show thesis by (rule that [OF f]) (simp_all add: add_record_def Some Let_def o same_limits_def)
qed

lemma add_record_keeps:
  assumes "state_ok pubs n h" "valid_record r"
  shows "state_ok (pubs @ [(k, r, p)]) (n + hr_cost r) (add_record k r p h)" (is "state_ok ?pubs _ ?h")
proof -
  have ok: "groups_ok h" "covers h pubs" "n = total h" using assms(1) by (simp_all add: state_ok_def)
  define g where "g = (case dict_get (h_groups h) k of Some g \<Rightarrow> g | None \<Rightarrow> HeldGroup p)"
  let ?g = "append_record r p g"
  have groups: "h_groups ?h = dict_set (h_groups h) k ?g" by (simp add: add_record_def g_def Let_def)
  have "group_ok x" if "dict_get (h_groups h) k = Some x" for x
    using ok(1) map_of_SomeD [of "h_groups h" k x] that by (auto simp: groups_ok_def dict_get_def)
  then have g: "group_ok g" "live g = held_of h k"
    using group_ok_new [of p] by (auto simp: g_def held_of_def split: option.splits)
  have g': "group_ok ?g" "live ?g = live g @ [(r, p)]" "hg_evicted ?g = hg_evicted g" "hg_bytes ?g = hg_bytes g + hr_cost r"
    using append_ok [OF g(1) assms(2)] live_append [OF g(1)] by (simp_all add: append_record_def)
  have held: "held_of ?h j = (if j = k then held_of h k @ [(r, p)] else held_of h j)" for j
    using g(2) g'(2) by (simp add: held_of_def groups pydict.get_put)
  have gone: "gone ?h l" if "gone h l" for l
    using that g'(3) by (cases "h_groups h") (auto simp: gone_def groups add_record_def g_def dict_get_def Let_def)
  have shape: "groups_ok ?h \<and> total ?h = n + hr_cost r"
  proof (cases "dict_get (h_groups h) k")
    case None
    then have new: "k \<notin> fst ` set (h_groups h)" and "g = HeldGroup p"
      by (simp_all add: g_def) (simp add: dict_get_def map_of_eq_None_iff)
    then have e: "hg_evicted ?g = -1" "hg_bytes ?g = hr_cost r" using g' by (simp_all add: HeldGroup_def)
    have gs: "h_groups ?h = h_groups h @ [(k, ?g)]" using groups dict_set_fresh new by simp
    have ids: "h_last_id ?h = Some k" "h_oldest_id ?h = first_key (h_groups h @ [(k, ?g)])" "h_through ?h = h_through h"
      using groups gs by (simp_all add: add_record_def Let_def)
    show ?thesis
      using ok new g'(1,2) e by (cases "h_groups h")
        (auto simp: groups_ok_def total_def dict_ok_def first_key_def gs ids)
  next
    case (Some x)
    then have x: "map_of (h_groups h) k = Some g" by (simp add: g_def dict_get_def)
    obtain d1 d2 where d: "h_groups h = d1 @ (k, g) # d2" "k \<notin> fst ` set d1" "dict_set (h_groups h) k ?g = d1 @ (k, ?g) # d2"
      using dict_set_split [OF x] by blast
    then show ?thesis
      using ok g' groups by (cases d1)
        (auto simp: groups_ok_def total_def dict_ok_def add_record_def Let_def first_key_def)
  qed
  have "accounts (\<lambda>i. gone ?h (j, i)) (held_of ?h j) (pub_of j ?pubs)" for j
  proof -
    have a: "accounts (\<lambda>i. gone ?h (j, i)) (held_of h j) (pub_of j pubs)"
      by (rule accounts_mono [where L = "\<lambda>i. gone h (j, i)"]) (use ok(2) gone in \<open>simp_all add: covers_def\<close>)
    show ?thesis using accounts_snoc [OF a] a by (auto simp: held pub_of_def)
  qed
  then show ?thesis using shape by (simp add: state_ok_def covers_def)
qed

lemma discard_keeps:
  assumes "state_ok pubs (h_bytes h) h"
  shows "state_ok (filter (\<lambda>x. fst x \<noteq> k) pubs) (h_bytes (history_discard k h)) (history_discard k h)"
    (is "state_ok ?pubs _ ?h")
proof -
  have ok: "groups_ok h" "covers h pubs" "h_bytes h = total h" using assms by (simp_all add: state_ok_def)
  have pub: "pub_of j ?pubs = (if j = k then [] else pub_of j pubs)" for j
    by (auto simp: pub_of_def intro!: arg_cong [of _ _ "map snd"] filter_cong)
  show ?thesis
  proof (cases "dict_get (h_groups h) k")
    case None
    then have h: "?h = h" by (simp add: history_discard_def dict_pop_def dict_get_def)
    have "accounts (\<lambda>i. gone h (j, i)) (held_of h j) (pub_of j ?pubs)" for j
      using ok(2) None by (auto simp: covers_def pub held_of_def accounts_def)
    then show ?thesis using ok h by (simp add: state_ok_def covers_def)
  next
    case (Some g)
    obtain d1 d2 where d: "h_groups h = d1 @ (k, g) # d2" "k \<notin> fst ` set d1"
      using Some dict_set_split [of "h_groups h" k g] by (auto simp: dict_get_def)
    have d2: "k \<notin> fst ` set d2" using ok(1) d(1) by (auto simp: groups_ok_def dict_ok_def)
    have groups: "h_groups ?h = d1 @ d2" and get: "dict_get (h_groups ?h) = (dict_get (h_groups h))(k := None)"
      and rest: "h_bytes ?h = h_bytes h - hg_bytes g" "h_through ?h = h_through h"
        "h_last_id ?h = (if h_last_id h = Some k then None else h_last_id h)"
        "h_oldest_id ?h = (if h_oldest_id h = Some k then first_key (d1 @ d2) else h_oldest_id h)"
      using Some d d2 pydict.get_pop [of "h_groups h" k]
      by (auto simp: history_discard_def dict_pop_def dict_get_def filter_other_keys)
    have "groups_ok ?h"
      using ok(1) d d2 by (cases d1; cases d2; cases "h_last_id h")
        (auto simp: groups_ok_def groups rest dict_ok_def first_key_def split: prod.splits)
    moreover have "h_bytes ?h = total ?h" using ok(3) d(1) by (simp add: total_def rest groups)
    moreover have "accounts (\<lambda>i. gone ?h (j, i)) (held_of ?h j) (pub_of j ?pubs)" for j
    proof (cases "j = k")
      case True
      then show ?thesis by (simp add: pub accounts_def held_of_def get)
    next
      case False
      have "gone ?h (j, i)" if "gone h (j, i)" for i
        using that False d by (cases d1) (auto simp: gone_def rest groups split: option.splits list.splits)
      moreover have "accounts (\<lambda>i. gone h (j, i)) (held_of h j) (pub_of j pubs)" using ok(2) by (simp add: covers_def)
      ultimately have "accounts (\<lambda>i. gone ?h (j, i)) (held_of h j) (pub_of j pubs)"
        by (intro accounts_mono [where L = "\<lambda>i. gone h (j, i)" and L' = "\<lambda>i. gone ?h (j, i)"])
      then show ?thesis using False by (simp add: pub held_of_def get)
    qed
    ultimately show ?thesis by (simp add: state_ok_def covers_def)
  qed
qed

lemma object_cost_nonneg:
  assumes "case charge of None \<Rightarrow> True | Some c \<Rightarrow> 0 \<le> c"
  shows "0 \<le> object_cost payload x charge"
proof -
  have "0 \<le> exts_charge x"
    by (auto simp: exts_charge_def value_charge_def split: exts.splits option.splits pval.splits intro!: sum_list_nonneg)
  then show ?thesis using assms by (auto simp: object_cost_def OBJECT_RECORD_BYTES_def split: option.splits)
qed

definition limits_ok :: "'s history \<Rightarrow> bool" where
  "limits_ok h \<longleftrightarrow> 0 \<le> h_max_bytes h \<and> 0 \<le> h_slack h \<and> h_high h = h_max_bytes h + h_slack h"

lemma total_empty: "state_ok pubs n h \<Longrightarrow> h_groups h = [] \<Longrightarrow> n = 0"
  by (simp add: state_ok_def total_def)

lemma history_add_ok:
  assumes "state_ok pubs (h_bytes h) h" "limits_ok h"
    and "0 \<le> i" "i \<le> MAX_OBJECT_ID" "case charge of None \<Rightarrow> True | Some c \<Rightarrow> 0 \<le> c"
  shows "\<exists>h'. history_add k i payload sg x p charge h = Some h'
    \<and> state_ok (pubs @ [(k, new_record i payload sg x charge, p)]) (h_bytes h') h' \<and> same_limits h h'
    \<and> h_bytes h' \<le> h_max_bytes h + (if h_fixed h then h_slack h else max (h_slack h) (object_cost payload x charge))"
proof -
  define r where "r = new_record i payload sg x charge"
  define c where "c = object_cost payload x charge"
  let ?n = "h_bytes h + c"
  have c: "0 \<le> c" "hr_cost r = c" using object_cost_nonneg [OF assms(5)] by (simp_all add: c_def r_def new_record_def)
  have v: "valid_record r" using assms(3,4) c by (simp add: valid_record_def r_def new_record_def)
  obtain g h1 where f: "group_for k p h = Some (g, h1)"
    and h2: "h1\<lparr>h_groups := dict_set (h_groups h1) k (append_record r p g), h_bytes := ?n\<rparr> = (add_record k r p h)\<lparr>h_bytes := ?n\<rparr>"
    by (rule group_for_add [where h = h and k = k and p = p and r = r and n = ?n]) (use assms(1) in \<open>auto simp: state_ok_def\<close>)
  let ?h = "(add_record k r p h)\<lparr>h_bytes := ?n\<rparr>"
  have keep: "state_ok (pubs @ [(k, r, p)]) ?n ?h" using add_record_keeps [OF assms(1) v] c by simp
  have lim: "same_limits h ?h" by (simp add: same_limits_def add_record_def Let_def)
  have ne: "h_groups ?h \<noteq> []" by (cases "h_groups h") (auto simp: add_record_def Let_def split: if_splits)
  have eq: "history_add k i payload sg x p charge h =
      (if h_high h < ?n then
         (if h_fixed h then evict (h_max_bytes h - h_slack h) ?h
          else if h_max_bytes h < h_bytes h then evict (h_max_bytes h - max (h_slack h) c) ?h else Some ?h)
       else Some ?h)"
    unfolding history_add_def Let_def f option.case prod.case r_def [symmetric] c_def [symmetric] h2 by simp
  have ev: "\<exists>h'. evict cap ?h = Some h' \<and> state_ok (pubs @ [(k, r, p)]) (h_bytes h') h' \<and> same_limits h h' \<and> h_bytes h' \<le> max 0 cap"
    for cap
    using evict_loop_ok [OF keep ne, of cap] same_limits_trans [OF lim] total_empty by (fastforce simp: evict_def)
  have "\<exists>h'. history_add k i payload sg x p charge h = Some h' \<and> state_ok (pubs @ [(k, r, p)]) (h_bytes h') h' \<and> same_limits h h'
    \<and> h_bytes h' \<le> h_max_bytes h + (if h_fixed h then h_slack h else max (h_slack h) c)"
  proof (cases "h_high h < ?n \<and> (h_fixed h \<or> h_max_bytes h < h_bytes h)")
    case False
    then show ?thesis using eq keep lim assms(2) by (auto simp: limits_ok_def)
  next
    case True
    show ?thesis
    proof (cases "h_fixed h")
      case fixed: True
      then show ?thesis using True ev [of "h_max_bytes h - h_slack h"] eq assms(2) c by (auto simp: limits_ok_def)
    next
      case False
      then show ?thesis using True ev [of "h_max_bytes h - max (h_slack h) c"] eq assms(2) c by (auto simp: limits_ok_def)
    qed
  qed
  then show ?thesis unfolding r_def c_def .
qed

section \<open>Reachable histories\<close>

inductive history_reach :: "int \<Rightarrow> int option \<Rightarrow> 's history \<Rightarrow> (int \<times> 's hrec \<times> int) list \<Rightarrow> bool" for max_bytes slack where
  created: "history_reach max_bytes slack (ObjectHistory max_bytes slack) []"
| added: "history_reach max_bytes slack h pubs \<Longrightarrow> 0 \<le> i \<Longrightarrow> i \<le> MAX_OBJECT_ID \<Longrightarrow>
    (case charge of None \<Rightarrow> True | Some c \<Rightarrow> 0 \<le> c) \<Longrightarrow> history_add k i payload sg x p charge h = Some h' \<Longrightarrow>
    history_reach max_bytes slack h' (pubs @ [(k, new_record i payload sg x charge, p)])"
| discarded: "history_reach max_bytes slack h pubs \<Longrightarrow>
    history_reach max_bytes slack (history_discard k h) (filter (\<lambda>y. fst y \<noteq> k) pubs)"

definition slack_of :: "int \<Rightarrow> int option \<Rightarrow> int" where
  "slack_of max_bytes slack = (case slack of None \<Rightarrow> max_bytes div 8 | Some n \<Rightarrow> n)"

lemma limits_kept: "same_limits h h' \<Longrightarrow> limits_ok h \<Longrightarrow> limits_ok h'"
  by (simp add: same_limits_def limits_ok_def)

lemma discard_limits: "same_limits h (history_discard k h)"
  by (simp add: same_limits_def history_discard_def split: prod.splits option.splits)

lemma reach_inv:
  assumes "history_reach max_bytes slack h pubs" "0 \<le> max_bytes" "0 \<le> slack_of max_bytes slack"
  shows "state_ok pubs (h_bytes h) h \<and> limits_ok h \<and> same_limits (ObjectHistory max_bytes slack) h
    \<and> (\<forall>y \<in> set pubs. valid_record (fst (snd y)))"
  using assms(1)
proof induction
  case created
  show ?case using assms(2,3)
    by (auto simp: state_ok_def groups_ok_def total_def covers_def accounts_def held_of_def pub_of_def dict_ok_def dict_get_def
        first_key_def ObjectHistory_def Let_def limits_ok_def same_limits_def slack_of_def)
next
  case (added h pubs i charge k payload sg x p h')
  have ih: "state_ok pubs (h_bytes h) h" "limits_ok h" using added.IH by blast+
  obtain h1 where "history_add k i payload sg x p charge h = Some h1"
    "state_ok (pubs @ [(k, new_record i payload sg x charge, p)]) (h_bytes h1) h1" "same_limits h h1"
    using history_add_ok [OF ih added.hyps(2-4)] by blast
  moreover have "valid_record (new_record i payload sg x charge)"
    using added.hyps(2-4) object_cost_nonneg by (simp add: valid_record_def new_record_def)
  ultimately show ?case using added.hyps(5) added.IH limits_kept same_limits_trans by auto
next
  case (discarded h pubs k)
  have ih: "state_ok pubs (h_bytes h) h" "limits_ok h" "same_limits (ObjectHistory max_bytes slack) h"
      "\<forall>y \<in> set pubs. valid_record (fst (snd y))"
    using discarded.IH by blast+
  show ?case
    using discard_keeps [OF ih(1)] limits_kept [OF discard_limits ih(2)] same_limits_trans [OF ih(3) discard_limits] ih(4) by auto
qed

definition held_cost :: "'s history \<Rightarrow> int" where
  "held_cost h = sum_list (map (\<lambda>(k, g). sum_list (map (hr_cost \<circ> fst) (live g))) (h_groups h))"

lemma total_held: "groups_ok h \<Longrightarrow> total h = held_cost h"
  unfolding total_def held_cost_def by (rule arg_cong [of _ _ sum_list], rule map_cong) (auto simp: groups_ok_def group_ok_def)

text \<open>
  C27: adding an object to a history never fails, whatever was added and discarded before. Afterwards the byte count
  is exactly the sum of the charges of the records held, and it exceeds the configured maximum by no more than the
  slack, or by the charge of the object just added when that is larger and no slack was configured.
\<close>

theorem history_add_bounded:
  assumes "history_reach max_bytes slack h pubs" "0 \<le> max_bytes" "0 \<le> slack_of max_bytes slack"
    and "0 \<le> i" "i \<le> MAX_OBJECT_ID" "case charge of None \<Rightarrow> True | Some c \<Rightarrow> 0 \<le> c"
  shows "\<exists>h'. history_add k i payload sg x p charge h = Some h' \<and> h_bytes h' = held_cost h'
    \<and> h_bytes h' \<le> max_bytes + (if slack = None then max (slack_of max_bytes slack) (object_cost payload x charge)
                                  else slack_of max_bytes slack)"
proof -
  have ok: "state_ok pubs (h_bytes h) h" "limits_ok h" "same_limits (ObjectHistory max_bytes slack) h"
    using reach_inv [OF assms(1-3)] by blast+
  obtain h' where h': "history_add k i payload sg x p charge h = Some h'"
    "state_ok (pubs @ [(k, new_record i payload sg x charge, p)]) (h_bytes h') h'"
    "h_bytes h' \<le> h_max_bytes h + (if h_fixed h then h_slack h else max (h_slack h) (object_cost payload x charge))"
    using history_add_ok [OF ok(1,2) assms(4-6)] by blast
  have "h_bytes h' = held_cost h'" using h'(2) total_held by (auto simp: state_ok_def)
  then show ?thesis using h'(1,3) ok(3)
    by (auto simp: same_limits_def ObjectHistory_def Let_def slack_of_def)
qed

section \<open>What a fetch serves\<close>
























text \<open>
  A history for two objects of a byte each: the third evicts the first, and a repeated Location is served as it was
  first published.
\<close>

definition history_step :: "int \<Rightarrow> int \<Rightarrow> bytes \<Rightarrow> unit history \<Rightarrow> unit history option" where
  "history_step k i payload h = history_add k i payload (Some 0) (Exts None) 128 None h"



theorem history_add_bounded_witness:
  "\<exists>h'. history_step 1 0 [10] (ObjectHistory 450 (Some 0)) = Some h' \<and> h_bytes h' = held_cost h' \<and> h_bytes h' \<le> 450"
  using history_add_bounded [OF history_reach.created, where max_bytes = 450 and slack = "Some 0" and i = 0 and charge = None and k = 1
      and payload = "[10]" and sg = "Some 0" and x = "Exts None" and p = 128]
  by (simp add: history_step_def slack_of_def MAX_OBJECT_ID_def)


end
