(* ===== verification/Early_Objects.thy ===== *)
theory Early_Objects
  imports Step_Systems
begin

text \<open>
  Objects that arrive before a control message binds their Track Alias, in \<^verbatim>\<open>protocol.py\<close>: \<^verbatim>\<open>_hold_early_object\<close> keeps
  them for five seconds within a bound of objects and bytes for the whole session, and \<^verbatim>\<open>_bind_object_handler\<close>
  replays them to the handler that is bound. Times are readings of the monotonic clock in microseconds; an operation
  reads it once. \<open>'a\<close> are the arguments of the object callback.
\<close>

section \<open>Operations\<close>

definition EARLY_OBJECT_HOLD :: int where "EARLY_OBJECT_HOLD = 5000000"
definition EARLY_OBJECT_MAX :: int where "EARLY_OBJECT_MAX = 1024"
definition EARLY_OBJECT_MAX_BYTES :: int where "EARLY_OBJECT_MAX_BYTES = 4 * 1024 * 1024"

type_synonym 'a early_entry = "int \<times> int \<times> 'a"

record 'a early =
  eo_held :: "'a early_entry list dict"
  eo_count :: int
  eo_bytes :: int
  eo_dropped :: int

definition reset_early_objects :: "int \<Rightarrow> 'a early" where
  "reset_early_objects dropped = \<lparr>eo_held = [], eo_count = 0, eo_bytes = 0, eo_dropped = dropped\<rparr>"

definition entries_bytes :: "'a early_entry list \<Rightarrow> int" where
  "entries_bytes q = sum_list (map (\<lambda>(t, n, a). n) q)"

definition early_queue :: "int \<Rightarrow> 'a early \<Rightarrow> 'a early_entry list" where
  "early_queue alias s = (case dict_get (eo_held s) alias of None \<Rightarrow> [] | Some q \<Rightarrow> q)"

text \<open>One turn of the loop of \<^verbatim>\<open>_expire_early_objects\<close>.\<close>

definition expire_alias :: "int \<Rightarrow> int \<Rightarrow> 'a early \<Rightarrow> 'a early" where
  "expire_alias horizon alias s =
    (let q = early_queue alias s;
         gone = takeWhile (\<lambda>(t, _). t < horizon) q;
         q' = dropWhile (\<lambda>(t, _). t < horizon) q
     in s\<lparr>eo_held := (if q' = [] then snd (dict_pop (eo_held s) alias) else dict_set (eo_held s) alias q'),
          eo_count := eo_count s - int (length gone), eo_bytes := eo_bytes s - entries_bytes gone,
          eo_dropped := eo_dropped s + int (length gone)\<rparr>)"

definition expire_early_objects :: "int \<Rightarrow> 'a early \<Rightarrow> 'a early" where
  "expire_early_objects now s = fold (expire_alias (now - EARLY_OBJECT_HOLD)) (map fst (eo_held s)) s"

text \<open>\<open>has_taker\<close> is the first guard: no alias, or one that a control message has bound already.\<close>

definition hold_early_object :: "bool \<Rightarrow> int \<Rightarrow> int \<Rightarrow> int \<Rightarrow> 'a \<Rightarrow> 'a early \<Rightarrow> 'a early" where
  "hold_early_object has_taker now alias nbytes args s =
    (if has_taker then s
     else let s1 = expire_early_objects now s in
       if EARLY_OBJECT_MAX \<le> eo_count s1 \<or> EARLY_OBJECT_MAX_BYTES < eo_bytes s1 + nbytes
       then s1\<lparr>eo_dropped := eo_dropped s1 + 1\<rparr>
       else s1\<lparr>eo_held := dict_set (eo_held s1) alias (early_queue alias s1 @ [(now, nbytes, args)]),
               eo_count := eo_count s1 + 1, eo_bytes := eo_bytes s1 + nbytes\<rparr>)"

text \<open>The objects the callback is called with, in order, and what remains.\<close>

definition replay_early_objects :: "int \<Rightarrow> int \<Rightarrow> 'a early \<Rightarrow> 'a list \<times> 'a early" where
  "replay_early_objects now alias s =
    (let q = early_queue alias s; horizon = now - EARLY_OBJECT_HOLD in
     (map (\<lambda>(t, n, a). a) (filter (\<lambda>(t, n, a). \<not> t < horizon) q),
      s\<lparr>eo_held := snd (dict_pop (eo_held s) alias), eo_count := eo_count s - int (length q), eo_bytes := eo_bytes s - entries_bytes q,
        eo_dropped := eo_dropped s + int (length (filter (\<lambda>(t, n, a). t < horizon) q))\<rparr>))"

definition discard_early_objects :: "int \<Rightarrow> 'a early \<Rightarrow> 'a early" where
  "discard_early_objects alias s =
    (let q = early_queue alias s in
     s\<lparr>eo_held := snd (dict_pop (eo_held s) alias), eo_count := eo_count s - int (length q), eo_bytes := eo_bytes s - entries_bytes q,
       eo_dropped := eo_dropped s + int (length q)\<rparr>)"

datatype 'a early_event =
    Arrive bool int int nat 'a
  | Bind_Alias int int
  | Discard_Alias int

definition early_step :: "'a early_event \<Rightarrow> 'a early \<Rightarrow> 'a early" where
  "early_step e s = (case e of
     Arrive has_taker now alias nbytes args \<Rightarrow> hold_early_object has_taker now alias (int nbytes) args s
   | Bind_Alias now alias \<Rightarrow> snd (replay_early_objects now alias s)
   | Discard_Alias alias \<Rightarrow> discard_early_objects alias s)"

section \<open>Accounting\<close>

definition early_ok :: "'a early \<Rightarrow> bool" where
  "early_ok s \<longleftrightarrow> dict_ok (eo_held s)
    \<and> eo_count s = sum_list (map (int \<circ> length \<circ> snd) (eo_held s))
    \<and> eo_bytes s = sum_list (map (entries_bytes \<circ> snd) (eo_held s))
    \<and> list_all (\<lambda>(a, q). q \<noteq> [] \<and> list_all (\<lambda>(t, n, x). 0 \<le> n) q) (eo_held s)
    \<and> eo_count s \<le> EARLY_OBJECT_MAX \<and> eo_bytes s \<le> EARLY_OBJECT_MAX_BYTES"

lemma entries_bytes_simps [simp]:
  "entries_bytes [] = 0" "entries_bytes (p @ q) = entries_bytes p + entries_bytes q" "entries_bytes [(t, n, a)] = n"
  by (simp_all add: entries_bytes_def)

lemma entries_bytes_nonneg: "list_all (\<lambda>(t, n, x). 0 \<le> n) q \<Longrightarrow> 0 \<le> entries_bytes q"
  by (auto simp: entries_bytes_def list_all_iff intro!: sum_list_nonneg)

text \<open>Replacing or removing the queue of an alias changes a sum over the queues by the difference.\<close>

definition queue_of :: "'a early_entry list dict \<Rightarrow> int \<Rightarrow> 'a early_entry list" where
  "queue_of d alias = (case dict_get d alias of None \<Rightarrow> [] | Some q \<Rightarrow> q)"

lemma sum_put:
  fixes f :: "'a early_entry list \<Rightarrow> int"
  assumes "dict_ok d" "f [] = 0"
  shows "sum_list (map (f \<circ> snd) (dict_set d k q)) = sum_list (map (f \<circ> snd) d) - f (queue_of d k) + f q"
  using assms by (induction d) (auto simp: queue_of_def dict_get_def dict_ok_def)

lemma filter_absent: "k \<notin> fst ` set d \<Longrightarrow> filter (\<lambda>(k', _). k' \<noteq> k) d = d"
  by (rule filter_True) force

lemma sum_remove:
  fixes f :: "'a early_entry list \<Rightarrow> int"
  assumes "dict_ok d" "f [] = 0"
  shows "sum_list (map (f \<circ> snd) (snd (dict_pop d k))) = sum_list (map (f \<circ> snd) d) - f (queue_of d k)"
  using assms
proof (induction d)
  case (Cons p d)
  then show ?case using filter_absent [of k d]
    by (cases p) (auto simp: queue_of_def dict_get_def dict_ok_def dict_pop_def)
qed (simp add: queue_of_def dict_get_def dict_pop_def)

lemma queue_early [simp]: "queue_of (eo_held s) alias = early_queue alias s"
  by (simp add: queue_of_def early_queue_def)

lemma queue_put: "queue_of (dict_set d k q) j = (if j = k then q else queue_of d j)"
  by (simp add: queue_of_def pydict.get_put)

lemma queue_remove: "queue_of (snd (dict_pop d k)) j = (if j = k then [] else queue_of d j)"
  by (simp add: queue_of_def pydict.get_pop)

lemma queue_member: "dict_ok d \<Longrightarrow> (k, q) \<in> set d \<Longrightarrow> queue_of d k = q"
  by (simp add: queue_of_def dict_get_def dict_ok_def)

lemma in_queue_of: "x \<in> set (queue_of d k) \<Longrightarrow> (k, queue_of d k) \<in> set d"
  by (auto simp: queue_of_def dict_get_def dest: map_of_SomeD split: option.splits)

lemma all_put:
  assumes "dict_ok d" "list_all P d" "P (k, q)"
  shows "list_all P (dict_set d k q)"
  using assms
proof (induction d)
  case (Cons p d)
  then show ?case by (cases p) (simp add: dict_ok_def)
qed simp

lemma all_remove: "list_all P d \<Longrightarrow> list_all P (snd (dict_pop d k))"
  by (auto simp: dict_pop_def list_all_iff)

lemma queue_nonneg: "early_ok s \<Longrightarrow> list_all (\<lambda>(t, n, x). 0 \<le> n) (early_queue alias s)"
  using in_queue_of [of _ "eo_held s" "alias"] by (fastforce simp: early_ok_def list_all_iff)

text \<open>Any operation that replaces one queue by part of it and corrects the counters by the rest.\<close>

lemma shrink_ok:
  assumes "early_ok s" "early_queue al s = gone @ q'"
    and "s' = s\<lparr>eo_held := (if q' = [] then snd (dict_pop (eo_held s) al) else dict_set (eo_held s) al q'),
          eo_count := eo_count s - int (length gone), eo_bytes := eo_bytes s - entries_bytes gone, eo_dropped := c\<rparr>"
  shows "early_ok s'"
proof -
  have ok: "dict_ok (eo_held s)" and all: "list_all (\<lambda>(a, q). q \<noteq> [] \<and> list_all (\<lambda>(t, n, x). 0 \<le> n) q) (eo_held s)"
    using assms(1) by (simp_all add: early_ok_def)
  have n: "list_all (\<lambda>(t, n, x). 0 \<le> n) gone" "list_all (\<lambda>(t, n, x). 0 \<le> n) q'"
    using queue_nonneg [OF assms(1), of al] unfolding assms(2) by simp_all
  have "0 \<le> entries_bytes gone" using entries_bytes_nonneg [OF n(1)] .
  then show ?thesis
    using assms(1,2) n(2) sum_put [OF ok, of "int \<circ> length"] sum_remove [OF ok, of "int \<circ> length"] sum_put [OF ok, of entries_bytes] sum_remove [OF ok, of entries_bytes]
      all_put [OF ok all] all_remove [OF all] pydict.invar_put [OF ok] pydict.invar_pop [OF ok]
    unfolding assms(3) early_ok_def by (auto simp: comp_def)
qed

lemma expire_alias_ok: "early_ok s \<Longrightarrow> early_ok (expire_alias h k s)"
  by (rule shrink_ok [where gone = "takeWhile (\<lambda>(t, _). t < h) (early_queue k s)" and q' = "dropWhile (\<lambda>(t, _). t < h) (early_queue k s)" and al = k])
    (simp_all add: expire_alias_def Let_def)

lemma expire_ok: "early_ok s \<Longrightarrow> early_ok (expire_early_objects now s)"
proof -
  have "early_ok s \<Longrightarrow> early_ok (fold (expire_alias h) ks s)" for h ks
    by (induction ks arbitrary: s) (simp_all add: expire_alias_ok)
  then show "early_ok s \<Longrightarrow> ?thesis" by (simp add: expire_early_objects_def)
qed

lemma hold_ok:
  assumes "early_ok s" "0 \<le> n"
  shows "early_ok (hold_early_object b now k n a s)"
proof (cases b)
  case False
  let ?s = "expire_early_objects now s"
  have s: "early_ok ?s" by (rule expire_ok [OF assms(1)])
  then have ok: "dict_ok (eo_held ?s)" and all: "list_all (\<lambda>(a, q). q \<noteq> [] \<and> list_all (\<lambda>(t, n, x). 0 \<le> n) q) (eo_held ?s)"
    by (simp_all add: early_ok_def)
  show ?thesis
  proof (cases "EARLY_OBJECT_MAX \<le> eo_count ?s \<or> EARLY_OBJECT_MAX_BYTES < eo_bytes ?s + n")
    case True
    then show ?thesis using s False by (simp add: hold_early_object_def early_ok_def Let_def)
  next
    case fits: False
    let ?d = "dict_set (eo_held ?s) k (early_queue k ?s @ [(now, n, a)])"
    have "dict_ok ?d" by (rule pydict.invar_put [OF ok])
    moreover have "list_all (\<lambda>(a, q). q \<noteq> [] \<and> list_all (\<lambda>(t, n, x). 0 \<le> n) q) ?d"
      using queue_nonneg [OF s, of k] assms(2) by (intro all_put [OF ok all]) simp
    moreover have "sum_list (map (int \<circ> length \<circ> snd) ?d) = eo_count ?s + 1" "sum_list (map (entries_bytes \<circ> snd) ?d) = eo_bytes ?s + n"
      using sum_put [OF ok, of "int \<circ> length"] sum_put [OF ok, of entries_bytes] s by (simp_all add: early_ok_def comp_assoc)
    ultimately show ?thesis using False fits unfolding hold_early_object_def Let_def early_ok_def by auto
  qed
qed (use assms in \<open>simp add: hold_early_object_def\<close>)

lemma remove_ok: "early_ok s \<Longrightarrow> early_ok (s\<lparr>eo_held := snd (dict_pop (eo_held s) k), eo_count := eo_count s - int (length (early_queue k s)),
    eo_bytes := eo_bytes s - entries_bytes (early_queue k s), eo_dropped := d\<rparr>)"
  by (rule shrink_ok [where gone = "early_queue k s" and q' = "[]" and al = k]) simp_all

lemma early_step_ok: "early_ok s \<Longrightarrow> early_ok (early_step e s)"
  by (cases e) (simp_all add: early_step_def hold_ok remove_ok replay_early_objects_def discard_early_objects_def Let_def)

interpretation early: step_invariant early_step early_ok "reset_early_objects d" for d
  by unfold_locales (rule early_step_ok, assumption,
      simp add: reset_early_objects_def early_ok_def dict_ok_def EARLY_OBJECT_MAX_def EARLY_OBJECT_MAX_BYTES_def)

section \<open>What is held\<close>

text \<open>
  The specification: the objects that arrived, in order, as (time, alias, bytes, arguments). The ones of the last
  five seconds are the window; nothing is dropped as long as no arrival finds the window full.
\<close>

type_synonym 'a arrival = "int \<times> int \<times> nat \<times> 'a"

definition window :: "int \<Rightarrow> 'a arrival list \<Rightarrow> 'a arrival list" where
  "window h es = filter (\<lambda>(t, _). h \<le> t) es"

definition of_alias :: "int \<Rightarrow> 'a arrival list \<Rightarrow> 'a early_entry list" where
  "of_alias k es = map (\<lambda>(t, k', n, a). (t, int n, a)) (filter (\<lambda>(t, k', n, a). k' = k) es)"

definition arrivals_bytes :: "'a arrival list \<Rightarrow> int" where
  "arrivals_bytes es = sum_list (map (\<lambda>(t, k, n, a). int n) es)"

definition fits_window :: "'a arrival list \<Rightarrow> 'a arrival \<Rightarrow> bool" where
  "fits_window es e = (case e of (now, k, n, a) \<Rightarrow>
     int (length (window (now - EARLY_OBJECT_HOLD) es)) < EARLY_OBJECT_MAX
     \<and> arrivals_bytes (window (now - EARLY_OBJECT_HOLD) es) + int n \<le> EARLY_OBJECT_MAX_BYTES)"

definition arrive :: "'a arrival \<Rightarrow> 'a early \<Rightarrow> 'a early" where
  "arrive e s = (case e of (now, k, n, a) \<Rightarrow> hold_early_object False now k (int n) a s)"

text \<open>The state holds exactly the window from \<open>h\<close> on.\<close>

definition holds_window :: "int \<Rightarrow> 'a arrival list \<Rightarrow> 'a early \<Rightarrow> bool" where
  "holds_window h es s \<longleftrightarrow> early_ok s \<and> (\<forall>k. early_queue k s = of_alias k (window h es))"

lemma sum_by_alias:
  "distinct ks \<Longrightarrow> sum_list (map (\<lambda>k. int (length (of_alias k es))) ks) = int (length (filter (\<lambda>(t, k, n, a). k \<in> set ks) es))"
  "distinct ks \<Longrightarrow> sum_list (map (\<lambda>k. entries_bytes (of_alias k es)) ks) = arrivals_bytes (filter (\<lambda>(t, k, n, a). k \<in> set ks) es)"
proof (induction es)
  case Nil
  { case 1 then show ?case by (simp add: of_alias_def) }
  { case 2 then show ?case by (simp add: of_alias_def arrivals_bytes_def) }
next
  case (Cons e es)
  obtain t k n a where e: "e = (t, k, n, a)" by (cases e) auto
  have one: "distinct ks \<Longrightarrow> sum_list (map (\<lambda>j. if j = k then c else 0) ks) = (if k \<in> set ks then c else (0 :: int))" for c
    by (induction ks) auto
  have l: "int (length (of_alias j (e # es))) = (if j = k then 1 else 0) + int (length (of_alias j es))"
    "entries_bytes (of_alias j (e # es)) = (if j = k then int n else 0) + entries_bytes (of_alias j es)" for j
    by (auto simp: of_alias_def e entries_bytes_def)
  { case 1 then show ?case using Cons.IH(1) one [of 1] by (simp add: l sum_list_addf) (simp add: e) }
  { case 2 then show ?case using Cons.IH(2) one [of "int n"] by (simp add: l sum_list_addf) (simp add: e arrivals_bytes_def) }
qed

lemma window_counts:
  assumes "holds_window h es s"
  shows "eo_count s = int (length (window h es))" "eo_bytes s = arrivals_bytes (window h es)"
proof -
  let ?w = "window h es" and ?ks = "map fst (eo_held s)"
  have ok: "early_ok s" and q: "\<And>k. early_queue k s = of_alias k ?w" using assms by (auto simp: holds_window_def)
  have d: "distinct ?ks" using ok by (simp add: early_ok_def dict_ok_def)
  have queues: "map (f \<circ> snd) (eo_held s) = map (\<lambda>k. f (of_alias k ?w)) ?ks" for f :: "'a early_entry list \<Rightarrow> int"
    using queue_member [of "eo_held s"] ok q by (auto simp: early_ok_def)
  have all: "filter (\<lambda>(t, k, n, a). k \<in> set ?ks) ?w = ?w"
  proof (rule filter_True, clarify)
    fix t k n a assume "(t, k, n, a) \<in> set ?w"
    then have "(t, int n, a) \<in> set (early_queue k s)" unfolding q of_alias_def by force
    then show "k \<in> set ?ks" using in_queue_of [of _ "eo_held s" k] by force
  qed
  show "eo_count s = int (length ?w)" "eo_bytes s = arrivals_bytes ?w"
    using ok sum_by_alias [OF d, of ?w] unfolding all early_ok_def queues by (simp_all add: comp_def)
qed

lemma expire_alias_queue:
  "early_queue j (expire_alias h k s) = (if j = k then dropWhile (\<lambda>(t, _). t < h) (early_queue k s) else early_queue j s)"
  unfolding expire_alias_def Let_def
  by (cases "dropWhile (\<lambda>(t, _). t < h) (early_queue k s) = []")
    (simp_all only: if_True if_False queue_early [symmetric], simp_all add: queue_put queue_remove)

lemma expire_queue: "early_queue j (expire_early_objects now s) = dropWhile (\<lambda>(t, _). t < now - EARLY_OBJECT_HOLD) (early_queue j s)"
proof -
  let ?d = "dropWhile (\<lambda>(t, _). t < now - EARLY_OBJECT_HOLD)"
  have idem: "?d (?d q) = ?d q" for q :: "'a early_entry list" by (rule dropWhile_idem)
  have f: "early_queue j (fold (expire_alias (now - EARLY_OBJECT_HOLD)) ks s) = (if j \<in> set ks then ?d (early_queue j s) else early_queue j s)" for ks
    by (induction ks arbitrary: s) (auto simp: expire_alias_queue idem)
  have "j \<notin> set (map fst (eo_held s)) \<Longrightarrow> early_queue j s = []"
    by (force simp: early_queue_def dict_get_def split: option.splits dest: map_of_SomeD)
  then show ?thesis unfolding expire_early_objects_def f by auto
qed

lemma drop_sorted: "sorted (map fst q) \<Longrightarrow> dropWhile (\<lambda>(t, _). t < h) q = filter (\<lambda>(t, _). (h :: int) \<le> t) q"
proof (induction q)
  case (Cons e q)
  have "filter (\<lambda>(t, _). h \<le> t) q = q" if "h \<le> fst e"
    using that Cons.prems by (intro filter_True) fastforce
  then show ?case using Cons by (cases e) auto
qed simp

lemma of_alias_sorted: "sorted (map fst es) \<Longrightarrow> sorted (map fst (of_alias k es))"
  by (induction es) (auto simp: of_alias_def)

lemma of_alias_window: "filter (\<lambda>(t, _). h \<le> t) (of_alias k es) = of_alias k (window h es)"
  by (induction es) (auto simp: of_alias_def window_def)

lemma window_window: "h \<le> h' \<Longrightarrow> window h' (window h es) = window h' es"
  by (auto simp: window_def intro!: filter_cong)

lemma window_sorted: "sorted (map fst es) \<Longrightarrow> sorted (map fst (window h es))"
  unfolding window_def by (rule sorted_filter)

lemma expire_window:
  assumes "holds_window h es s" "sorted (map fst es)" "h \<le> now - EARLY_OBJECT_HOLD"
  shows "holds_window (now - EARLY_OBJECT_HOLD) es (expire_early_objects now s)"
  using assms drop_sorted [OF of_alias_sorted [OF window_sorted [OF assms(2)]], of "now - EARLY_OBJECT_HOLD" _ h]
  by (auto simp: holds_window_def expire_ok expire_queue of_alias_window window_window)

lemma arrive_window:
  assumes "holds_window h es s" "sorted (map fst es)" "e = (now, k, n, a)" "h \<le> now - EARLY_OBJECT_HOLD" "fits_window es e"
  shows "holds_window (now - EARLY_OBJECT_HOLD) (es @ [e]) (arrive e s)"
proof -
  let ?s = "expire_early_objects now s" and ?h = "now - EARLY_OBJECT_HOLD"
  have w: "holds_window ?h es ?s" by (rule expire_window [OF assms(1,2,4)])
  note c = window_counts [OF w]
  have r: "arrive e s = ?s\<lparr>eo_held := dict_set (eo_held ?s) k (early_queue k ?s @ [(now, int n, a)]),
      eo_count := eo_count ?s + 1, eo_bytes := eo_bytes ?s + int n\<rparr>"
    using assms(5) c by (simp add: assms(3) fits_window_def arrive_def hold_early_object_def Let_def)
  have "early_ok (arrive e s)" using assms(1) by (simp add: assms(3) arrive_def hold_ok holds_window_def)
  moreover have "early_queue j (arrive e s) = of_alias j (window ?h (es @ [e]))" for j
    using w unfolding r queue_early [symmetric]
    by (auto simp: queue_put holds_window_def) (auto simp: of_alias_def window_def assms(3) EARLY_OBJECT_HOLD_def)
  ultimately show ?thesis by (simp add: holds_window_def)
qed

lemma arrivals_window:
  assumes "sorted (map fst es)" "\<And>i. i < length es \<Longrightarrow> fits_window (take i es) (es ! i)" "\<And>e. e \<in> set es \<Longrightarrow> h \<le> fst e - EARLY_OBJECT_HOLD"
  obtains h' where "holds_window h' es (fold arrive es (reset_early_objects d))" "\<And>e. e \<in> set es \<Longrightarrow> h' \<le> fst (last es) - EARLY_OBJECT_HOLD" "es \<noteq> [] \<or> h' = h"
proof -
  have "\<exists>h'. holds_window h' es (fold arrive es (reset_early_objects d)) \<and> (if es = [] then h' = h else h' = fst (last es) - EARLY_OBJECT_HOLD)"
    using assms
  proof (induction es rule: rev_induct)
    case Nil
    have "early_ok (reset_early_objects d)" by (rule early.init)
    then show ?case by (auto simp: holds_window_def early_queue_def reset_early_objects_def dict_get_def of_alias_def window_def)
  next
    case (snoc e es)
    obtain now k n a where e: "e = (now, k, n, a)" by (cases e) auto
    have "fits_window (take i es) (es ! i)" if "i < length es" for i using snoc.prems(2) [of i] that by (simp add: nth_append)
    then obtain h' where h': "holds_window h' es (fold arrive es (reset_early_objects d))"
      "if es = [] then h' = h else h' = fst (last es) - EARLY_OBJECT_HOLD"
      using snoc.IH snoc.prems by (auto simp: sorted_append)
    have "h' \<le> now - EARLY_OBJECT_HOLD"
      using h'(2) snoc.prems(1,3) last_in_set [of es] by (auto simp: e sorted_append split: if_splits)
    moreover have "fits_window es e" using snoc.prems(2) [of "length es"] by simp
    ultimately show ?case using arrive_window [OF h'(1) _ e] snoc.prems(1) by (simp add: sorted_append e)
  qed
  then show thesis using that by (auto split: if_splits)
qed

section \<open>Properties\<close>

text \<open>
  C28: the hold is bounded and accounted. Whatever arrives, is bound or discarded, in any order and at any times, the
  counters are the number and the bytes of the objects held, over all aliases, and stay within 1024 objects and
  4 MiB; no alias keeps an empty queue.
\<close>

theorem early_objects_bounded:
  "let s = fold early_step evs (reset_early_objects d) in
     eo_count s = int (length (concat (map snd (eo_held s))))
     \<and> eo_bytes s = entries_bytes (concat (map snd (eo_held s)))
     \<and> eo_count s \<le> 1024 \<and> eo_bytes s \<le> 4194304 \<and> [] \<notin> snd ` set (eo_held s)"
proof -
  let ?s = "fold early_step evs (reset_early_objects d)"
  have ok: "early_ok ?s" by (rule early.reachable)
  have "sum_list (map (int \<circ> length \<circ> snd) q) = int (length (concat (map snd q)))" "sum_list (map (entries_bytes \<circ> snd) q) = entries_bytes (concat (map snd q))"
    for q :: "'a early_entry list dict"
    by (induction q) auto
  then show ?thesis using ok by (auto simp: early_ok_def EARLY_OBJECT_MAX_def EARLY_OBJECT_MAX_BYTES_def list_all_iff Let_def)
qed

text \<open>
  C21: nothing early is lost in time. When objects arrive in order and none finds 1024 objects or 4 MiB of the last
  five seconds before it, binding an alias replays exactly the objects of that alias that arrived in the five
  seconds before the bind, each once and in arrival order, whatever arrived for other aliases in between.
\<close>

theorem early_objects_replayed:
  assumes "sorted (map fst es)" "\<And>i. i < length es \<Longrightarrow> fits_window (take i es) (es ! i)" "\<And>e. e \<in> set es \<Longrightarrow> fst e \<le> now"
  shows "fst (replay_early_objects now k (fold arrive es (reset_early_objects d)))
    = map (\<lambda>(t, k', n, a). a) (filter (\<lambda>(t, k', n, a). k' = k \<and> now - EARLY_OBJECT_HOLD \<le> t) es)"
proof -
  let ?h = "Min (insert now (fst ` set es)) - EARLY_OBJECT_HOLD" and ?s = "fold arrive es (reset_early_objects d)"
  have "?h \<le> fst e - EARLY_OBJECT_HOLD" if "e \<in> set es" for e using that by simp
  from arrivals_window [OF assms(1,2) this] obtain h' where h': "holds_window h' es ?s"
    "\<And>e. e \<in> set es \<Longrightarrow> h' \<le> fst (last es) - EARLY_OBJECT_HOLD" "es \<noteq> [] \<or> h' = ?h" by blast
  have le: "h' \<le> now - EARLY_OBJECT_HOLD"
  proof (cases es)
    case (Cons e es')
    then have "last es \<in> set es" by simp
    then show ?thesis using h'(2) assms(3) by fastforce
  qed (use h'(3) in simp)
  have "filter (\<lambda>(t, n, a). \<not> t < now - EARLY_OBJECT_HOLD) (early_queue k ?s) = of_alias k (window (now - EARLY_OBJECT_HOLD) es)"
    using h'(1) of_alias_window [of "now - EARLY_OBJECT_HOLD" k "window h' es"] window_window [OF le, of es]
    by (simp add: holds_window_def not_less split_def)
  moreover have "map (\<lambda>(t, n, a). a) (of_alias k (window (now - EARLY_OBJECT_HOLD) es))
      = map (\<lambda>(t, k', n, a). a) (filter (\<lambda>(t, k', n, a). k' = k \<and> now - EARLY_OBJECT_HOLD \<le> t) es)"
    by (induction es) (auto simp: of_alias_def window_def)
  ultimately show ?thesis by (simp add: replay_early_objects_def Let_def)
qed

theorem early_objects_replayed_witness:
  "fst (replay_early_objects 5100000 7 (fold arrive [(0, 7, 10, ''a''), (1000000, 8, 10, ''b''), (2000000, 7, 10, ''c'')] (reset_early_objects 0))) = [''c'']"
proof -
  let ?es = "[(0, 7, 10, ''a''), (1000000, 8, 10, ''b''), (2000000, 7, 10, ''c'')] :: string arrival list"
  have fits: "fits_window (take i ?es) (?es ! i)" if "i < length ?es" for i
  proof -
    have "i = 0 \<or> i = 1 \<or> i = 2" using that by auto
    then show ?thesis
      by (auto simp: fits_window_def window_def arrivals_bytes_def EARLY_OBJECT_HOLD_def EARLY_OBJECT_MAX_def EARLY_OBJECT_MAX_BYTES_def)
  qed
  have "fst e \<le> 5100000" if "e \<in> set ?es" for e using that by auto
  from early_objects_replayed [of ?es 5100000 7 0, OF _ fits this] show ?thesis by (simp add: EARLY_OBJECT_HOLD_def)
qed

end
