(* ===== verification/Data_Session.thy ===== *)
theory Data_Session
  imports Early_Objects Data_Plane "HOL-Library.AList"
begin

text \<open>
  The receiving side of a session's data plane, in \<^verbatim>\<open>protocol.py\<close>: the table of unidirectional data streams with
  their reassembly (\<^verbatim>\<open>_on_stream_data\<close>, \<^verbatim>\<open>_drain_stream\<close>), the admission of subgroup and fetch streams, the ends of
  groups and tracks, malformed tracks, and the delivery of objects from streams and datagrams. The bytes of a stream
  are parsed by the codecs of \<open>Data_Plane\<close>. Callbacks of the application and calls into the transport are
  entries of a log; handlers are known by numbers. An operation reads the monotonic clock once (\<open>now\<close>, in microseconds)
  and the wall clock once (\<open>wall\<close>).
\<close>

section \<open>State\<close>

text \<open>A \<^verbatim>\<open>FetchHeader\<close> with what it remembers of its stream.\<close>

record fetch_parser =
  fp_request_id :: int
  fp_prior_obj :: "FetchObject option"
  fp_group_order :: int

datatype stream_parser = Subgroup_Parser SubgroupHeader | Fetch_Parser fetch_parser

type_synonym subgroup_key = "int \<times> int \<times> int option"

datatype stream_key = Fetch_Key int | Subgroup_Key subgroup_key

record DataStreamState =
  ds_chain :: bytes
  ds_parser :: "stream_parser option"
  ds_key :: "stream_key option"
  ds_bytes_total :: int
  ds_last_activity :: int
  ds_group_id :: "int option"
  ds_subgroup_id :: "int option"
  ds_object_id :: "int option"
  ds_publisher_priority :: "int option"
  ds_held :: int
  ds_need :: int

text \<open>The arguments an object callback is called with.\<close>

record delivery =
  dl_group_id :: int
  dl_object_id :: int
  dl_subgroup_id :: "int option"
  dl_status :: int
  dl_extensions :: "kvps option"
  dl_payload :: bytes
  dl_priority :: int
  dl_stream_flags :: "(bool \<times> bool \<times> bool) option"
  dl_consumed :: int
  dl_now :: int

datatype rx_action =
    Object_Callback int "int option" delivery
  | Fetch_Callback int FetchObject int
  | Fetch_Gap_Callback int FetchObject int
  | Stream_End_Callback int "int option" "int option" bool int
  | Fetch_Done int bool
  | Stop_Sending int int
  | Unsubscribe_Request int

text \<open>The messages of \<^verbatim>\<open>_subscriptions\<close>, as far as the admission of a fetch stream looks at them: their Group Order.\<close>

datatype sent_msg = Sent_Fetch "int option" | Got_Fetch_Ok "int option" | Other_Message

record rx =
  rx_track_aliases :: "int dict"
  rx_unbound_aliases :: "(int \<times> nat) dict"
  rx_established_aliases :: "int list"
  rx_offered_aliases :: "int list"
  rx_object_handlers :: "int dict"
  rx_on_object_received :: "int option"
  rx_timing_watch :: "int dict"
  rx_stream_end_handlers :: "int dict"
  rx_early_stream_ends :: "(int \<times> int option \<times> int option \<times> bool \<times> int) list dict"
  rx_early :: "delivery early"
  rx_group_bound :: "int dict dict"
  rx_track_bound :: "(int \<times> int) dict"
  rx_malformed_aliases :: "int list"
  rx_track_default_priority :: "int dict"
  rx_data_streams :: "DataStreamState dict"
  rx_subgroup_stream_by_key :: "(subgroup_key \<times> int) list"
  rx_fetch_stream_by_request :: "int dict"
  rx_subscriptions :: "sent_msg list dict"
  rx_fill_requests :: "int dict"
  rx_fetch_object_handlers :: "int dict"
  rx_on_fetch_object :: "int option"
  rx_on_fetch_gap :: "int option"
  rx_stream_torn_down :: "int dict"
  rx_last_sweep :: int
  rx_held_bytes :: int
  rx_held_limit :: int
  rx_max_object_bytes :: int
  rx_close_err :: "int option"
  rx_log :: "rx_action list"

definition RESET_INTERNAL_ERROR :: int where "RESET_INTERNAL_ERROR = 0x0"
definition RESET_CANCELLED :: int where "RESET_CANCELLED = 0x01"
definition RESET_DELIVERY_TIMEOUT :: int where "RESET_DELIVERY_TIMEOUT = 0x02"
definition RESET_EXCESSIVE_LOAD :: int where "RESET_EXCESSIVE_LOAD = 0x09"
definition RESET_MALFORMED_TRACK :: int where "RESET_MALFORMED_TRACK = 0x12"
definition CLOSE_INTERNAL_ERROR :: int where "CLOSE_INTERNAL_ERROR = 0x01"
definition CLOSE_PROTOCOL_VIOLATION :: int where "CLOSE_PROTOCOL_VIOLATION = 0x03"
definition STATUS_END_OF_TRACK :: int where "STATUS_END_OF_TRACK = 0x04"
definition GROUP_BOUNDS_PER_TRACK :: nat where "GROUP_BOUNDS_PER_TRACK = 256"
definition STREAM_BIND_DEADLINE :: int where "STREAM_BIND_DEADLINE = 5000000"
definition EARLY_STREAM_END_HOLD :: int where "EARLY_STREAM_END_HOLD = 5000000"
definition EARLY_STREAM_END_MAX :: nat where "EARLY_STREAM_END_MAX = 64"
definition TORN_DOWN_EVICT_AFTER :: int where "TORN_DOWN_EVICT_AFTER = 30000000"
definition TIMING_IDS :: "int list" where
  "TIMING_IDS = [0x2C7A51E0, 0x3E8D2B70, 0x31B49A6E, 0x27F308C5, 0x2D1A]"

definition rx_log_add :: "rx_action \<Rightarrow> rx \<Rightarrow> rx" where
  "rx_log_add a x = x\<lparr>rx_log := rx_log x @ [a]\<rparr>"

text \<open>\<^verbatim>\<open>_close_session\<close>: the first close counts.\<close>

definition rx_close :: "int \<Rightarrow> rx \<Rightarrow> rx" where
  "rx_close code x = x\<lparr>rx_close_err := (case rx_close_err x of None \<Rightarrow> Some code | Some c \<Rightarrow> Some c)\<rparr>"

section \<open>Ends of groups and tracks\<close>

definition object_out_of_bounds :: "int \<Rightarrow> int \<Rightarrow> int \<Rightarrow> int \<Rightarrow> rx \<Rightarrow> bool" where
  "object_out_of_bounds alias group_id object_id status x \<longleftrightarrow>
    (case Option.bind (dict_get (rx_group_bound x) alias) (\<lambda>groups. dict_get groups group_id) of
       None \<Rightarrow> False
     | Some bound \<Rightarrow> bound \<le> object_id \<and> \<not> (object_id = bound \<and> status = STATUS_END_OF_GROUP))
    \<or> (case dict_get (rx_track_bound x) alias of
         None \<Rightarrow> False
       | Some (g, ob) \<Rightarrow>
           (g < group_id \<or> g = group_id \<and> ob \<le> object_id) \<and> \<not> ((group_id, object_id) = (g, ob) \<and> status = STATUS_END_OF_TRACK))"

definition set_group_bound :: "int \<Rightarrow> int \<Rightarrow> int \<Rightarrow> rx \<Rightarrow> rx" where
  "set_group_bound alias group_id bound x =
    (let groups = (case dict_get (rx_group_bound x) alias of
           None \<Rightarrow> []
         | Some gs \<Rightarrow> if dict_get gs group_id = None \<and> GROUP_BOUNDS_PER_TRACK \<le> length gs then tl gs else gs);
         b = (case dict_get groups group_id of None \<Rightarrow> bound | Some prev \<Rightarrow> min prev bound)
     in x\<lparr>rx_group_bound := dict_set (rx_group_bound x) alias (dict_set groups group_id b)\<rparr>)"

definition note_object_bound :: "int \<Rightarrow> int \<Rightarrow> int \<Rightarrow> int \<Rightarrow> bool \<Rightarrow> rx \<Rightarrow> rx" where
  "note_object_bound alias group_id object_id status end_of_group_bit x =
    (if status = STATUS_END_OF_GROUP then set_group_bound alias group_id object_id x
     else if status = STATUS_END_OF_TRACK then x\<lparr>rx_track_bound := dict_set (rx_track_bound x) alias (group_id, object_id)\<rparr>
     else if end_of_group_bit then set_group_bound alias group_id (object_id + 1) x
     else x)"

definition status_object_fault :: "DraftProfile \<Rightarrow> int \<Rightarrow> kvps option \<Rightarrow> bool" where
  "status_object_fault prof status exts \<longleftrightarrow> status \<notin> set (object_statuses prof) \<or> has_exts exts"

definition forget_track_bounds :: "int \<Rightarrow> rx \<Rightarrow> rx" where
  "forget_track_bounds alias x =
    x\<lparr>rx_group_bound := snd (dict_pop (rx_group_bound x) alias), rx_track_bound := snd (dict_pop (rx_track_bound x) alias),
      rx_malformed_aliases := removeAll alias (rx_malformed_aliases x)\<rparr>"

section \<open>The end of a stream\<close>

definition mark_stream_torn_down :: "int \<Rightarrow> int \<Rightarrow> rx \<Rightarrow> rx" where
  "mark_stream_torn_down now sid x =
    (let torn = dict_set (rx_stream_torn_down x) sid now in
     if 1000000 < now - rx_last_sweep x
     then x\<lparr>rx_stream_torn_down := filter (\<lambda>(s, t). \<not> t < now - TORN_DOWN_EVICT_AFTER) torn, rx_last_sweep := now\<rparr>
     else x\<lparr>rx_stream_torn_down := torn\<rparr>)"

definition note_early_stream_end :: "int \<Rightarrow> int \<Rightarrow> int option \<Rightarrow> int option \<Rightarrow> bool \<Rightarrow> int \<Rightarrow> rx \<Rightarrow> rx" where
  "note_early_stream_end now alias group_id subgroup_id clean code x =
    (let all = rx_early_stream_ends x;
         (room, ends) = (case dict_get all alias of
            Some es \<Rightarrow> (all, es)
          | None \<Rightarrow> (if EARLY_STREAM_END_MAX \<le> length all then tl all else all, []));
         es = ends @ [(now, group_id, subgroup_id, clean, code)]
     in x\<lparr>rx_early_stream_ends := dict_set room alias (drop (length es - EARLY_STREAM_END_MAX) es)\<rparr>)"

definition register_stream_end_handler :: "int \<Rightarrow> int \<Rightarrow> int \<Rightarrow> rx \<Rightarrow> rx" where
  "register_stream_end_handler now alias cb x =
    (let early = (case dict_get (rx_early_stream_ends x) alias of None \<Rightarrow> [] | Some es \<Rightarrow> es) in
     x\<lparr>rx_stream_end_handlers := dict_set (rx_stream_end_handlers x) alias cb,
       rx_early_stream_ends := snd (dict_pop (rx_early_stream_ends x) alias),
       rx_log := rx_log x @ map (\<lambda>(t, g, s, clean, code). Stream_End_Callback cb g s clean code)
         (filter (\<lambda>(t, _). \<not> t < now - EARLY_STREAM_END_HOLD) early)\<rparr>)"

definition unbind_key :: "stream_key option \<Rightarrow> rx \<Rightarrow> rx" where
  "unbind_key key x = (case key of
     None \<Rightarrow> x
   | Some (Fetch_Key rid) \<Rightarrow> x\<lparr>rx_fetch_stream_by_request := snd (dict_pop (rx_fetch_stream_by_request x) rid)\<rparr>
   | Some (Subgroup_Key k) \<Rightarrow> x\<lparr>rx_subgroup_stream_by_key := AList.delete k (rx_subgroup_stream_by_key x)\<rparr>)"

definition parser_end_of_group :: "stream_parser option \<Rightarrow> bool" where
  "parser_end_of_group p = (case p of Some (Subgroup_Parser h) \<Rightarrow> sh_end_of_group h | _ \<Rightarrow> False)"

text \<open>What \<^verbatim>\<open>_cleanup_stream\<close> does for a bound stream: \<open>clean\<close> is \<^verbatim>\<open>error_code == NO_ERROR\<close>.\<close>

definition subgroup_stream_ended :: "int \<Rightarrow> DataStreamState \<Rightarrow> subgroup_key \<Rightarrow> bool \<Rightarrow> int \<Rightarrow> rx \<Rightarrow> rx" where
  "subgroup_stream_ended now st key clean code x =
    (case key of (alias, group_id, subgroup_id) \<Rightarrow>
      let x1 = (case ds_object_id st of
            Some ob \<Rightarrow> if clean \<and> parser_end_of_group (ds_parser st) then set_group_bound alias group_id (ob + 1) x else x
          | None \<Rightarrow> x)
      in (case dict_get (rx_stream_end_handlers x1) alias of
           Some cb \<Rightarrow> rx_log_add (Stream_End_Callback cb (Some group_id) subgroup_id clean code) x1
         | None \<Rightarrow> note_early_stream_end now alias (Some group_id) subgroup_id clean code x1))"

definition fetch_stream_ended :: "DraftProfile \<Rightarrow> int \<Rightarrow> bool \<Rightarrow> rx \<Rightarrow> rx" where
  "fetch_stream_ended prof rid clean x =
    rx_log_add (Fetch_Done rid clean)
      (x\<lparr>rx_fill_requests := (if fetch_location_filter prof then snd (dict_pop (rx_fill_requests x) rid) else rx_fill_requests x),
         rx_fetch_object_handlers := snd (dict_pop (rx_fetch_object_handlers x) rid)\<rparr>)"

definition cleanup_stream :: "DraftProfile \<Rightarrow> int \<Rightarrow> int \<Rightarrow> bool \<Rightarrow> int \<Rightarrow> rx \<Rightarrow> rx" where
  "cleanup_stream prof now sid clean code x =
    (let x1 = mark_stream_torn_down now sid (x\<lparr>rx_data_streams := snd (dict_pop (rx_data_streams x) sid)\<rparr>) in
     case dict_get (rx_data_streams x) sid of
       None \<Rightarrow> x1
     | Some st \<Rightarrow>
         let x2 = x1\<lparr>rx_held_bytes := rx_held_bytes x1 - ds_held st\<rparr>;
             x3 = (case ds_key st of
                None \<Rightarrow> x2
              | Some (Subgroup_Key k) \<Rightarrow> subgroup_stream_ended now st k clean code x2
              | Some (Fetch_Key rid) \<Rightarrow> fetch_stream_ended prof rid clean x2)
         in unbind_key (ds_key st) x3)"

definition reject_stream :: "DraftProfile \<Rightarrow> int \<Rightarrow> int \<Rightarrow> int \<Rightarrow> rx \<Rightarrow> rx" where
  "reject_stream prof now sid code x = cleanup_stream prof now sid False code (rx_log_add (Stop_Sending sid code) x)"

text \<open>\<^verbatim>\<open>_malformed_track\<close>; the streams to reset are read off the table before the first reset changes it.\<close>

definition malformed_track :: "DraftProfile \<Rightarrow> int \<Rightarrow> int option \<Rightarrow> int option \<Rightarrow> rx \<Rightarrow> rx" where
  "malformed_track prof now alias sid x =
    (let x1 = (case sid of None \<Rightarrow> x | Some s \<Rightarrow> reject_stream prof now s RESET_MALFORMED_TRACK x) in
     case alias of
       None \<Rightarrow> x1
     | Some a \<Rightarrow>
         if a \<in> set (rx_malformed_aliases x1) then x1
         else let x2 = x1\<lparr>rx_malformed_aliases := a # rx_malformed_aliases x1\<rparr>;
                  x3 = fold (\<lambda>s. reject_stream prof now s RESET_MALFORMED_TRACK)
                    (map snd (filter (\<lambda>((al, g, sg), s). al = a) (rx_subgroup_stream_by_key x2))) x2
              in (case dict_get (rx_track_aliases x3) a of None \<Rightarrow> x3 | Some rid \<Rightarrow> rx_log_add (Unsubscribe_Request rid) x3))"

section \<open>Admission of streams\<close>

definition update_stream :: "int \<Rightarrow> (DataStreamState \<Rightarrow> DataStreamState) \<Rightarrow> rx \<Rightarrow> rx" where
  "update_stream sid f x = (case dict_get (rx_data_streams x) sid of
     None \<Rightarrow> x | Some st \<Rightarrow> x\<lparr>rx_data_streams := dict_set (rx_data_streams x) sid (f st)\<rparr>)"

definition bind_subgroup_stream :: "int \<Rightarrow> SubgroupHeader \<Rightarrow> rx \<Rightarrow> rx" where
  "bind_subgroup_stream sid h x =
    (let key = (sh_track_alias h, sh_group_id h, sh_subgroup_id h);
         x1 = (case map_of (rx_subgroup_stream_by_key x) key of
            Some existing \<Rightarrow> if existing \<noteq> sid then update_stream existing (\<lambda>st. st\<lparr>ds_key := None\<rparr>) x else x
          | None \<Rightarrow> x)
     in update_stream sid (\<lambda>st. st\<lparr>ds_key := Some (Subgroup_Key key)\<rparr>)
          (x1\<lparr>rx_subgroup_stream_by_key := AList.update key sid (rx_subgroup_stream_by_key x1)\<rparr>))"

text \<open>Admission gives the new state, or the code of a \<^verbatim>\<open>MOQTStreamReject\<close>.\<close>

definition admit_subgroup_stream :: "int \<Rightarrow> int \<Rightarrow> SubgroupHeader \<Rightarrow> rx \<Rightarrow> int + rx" where
  "admit_subgroup_stream now sid h x =
    (if sh_track_alias h \<in> set (rx_malformed_aliases x) then Inl RESET_MALFORMED_TRACK
     else let x1 = (if dict_get (rx_track_aliases x) (sh_track_alias h) \<noteq> None then x
               else let (seen, n) = (case dict_get (rx_unbound_aliases x) (sh_track_alias h) of None \<Rightarrow> (now, 0) | Some s \<Rightarrow> s)
                    in x\<lparr>rx_unbound_aliases := dict_set (rx_unbound_aliases x) (sh_track_alias h) (seen, Suc n)\<rparr>)
          in Inr (if sh_subgroup_id h \<noteq> None then bind_subgroup_stream sid h x1 else x1))"

definition truthy :: "int option \<Rightarrow> int option" where
  "truthy n = (case n of Some k \<Rightarrow> if k = 0 then None else Some k | None \<Rightarrow> None)"

definition fetch_order_of :: "sent_msg list \<Rightarrow> int" where
  "fetch_order_of ms =
    (case List.map_filter (\<lambda>m. case m of Got_Fetch_Ok g \<Rightarrow> truthy g | _ \<Rightarrow> None) ms of
       g # _ \<Rightarrow> g
     | [] \<Rightarrow> (case rev (List.map_filter (\<lambda>m. case m of Sent_Fetch g \<Rightarrow> truthy g | _ \<Rightarrow> None) ms) of g # _ \<Rightarrow> g | [] \<Rightarrow> 1))"

definition admit_fetch_stream :: "DraftProfile \<Rightarrow> int \<Rightarrow> int \<Rightarrow> rx \<Rightarrow> int + (int \<times> rx)" where
  "admit_fetch_stream prof sid rid x =
    (let fill = (if fetch_location_filter prof then dict_get (rx_fill_requests x) rid else None);
         outstanding = (if fill = None then dict_get (rx_subscriptions x) rid else None);
         order = (case fill of Some g \<Rightarrow> g | None \<Rightarrow> fetch_order_of (case outstanding of None \<Rightarrow> [] | Some ms \<Rightarrow> ms));
         is_fetch = (fill \<noteq> None \<or> (case outstanding of None \<Rightarrow> False | Some ms \<Rightarrow> list_ex (\<lambda>m. case m of Sent_Fetch _ \<Rightarrow> True | _ \<Rightarrow> False) ms))
     in if \<not> is_fetch then Inl RESET_CANCELLED
        else if (case dict_get (rx_fetch_stream_by_request x) rid of None \<Rightarrow> False | Some existing \<Rightarrow> existing \<noteq> sid) then Inl RESET_CANCELLED
        else Inr (order, update_stream sid (\<lambda>st. st\<lparr>ds_key := Some (Fetch_Key rid)\<rparr>)
          (x\<lparr>rx_fetch_stream_by_request := dict_set (rx_fetch_stream_by_request x) rid sid\<rparr>)))"

section \<open>Objects\<close>

definition object_cb :: "int \<Rightarrow> kvps option \<Rightarrow> rx \<Rightarrow> int option" where
  "object_cb alias exts x =
    (let cb = (case dict_get (rx_object_handlers x) alias of Some h \<Rightarrow> Some h | None \<Rightarrow> rx_on_object_received x) in
     if has_exts exts \<and> (case exts of Some e \<Rightarrow> list_ex (\<lambda>(k, _). k \<in> set TIMING_IDS) (fst e) | None \<Rightarrow> False)
     then (case dict_get (rx_timing_watch x) alias of Some h \<Rightarrow> Some h | None \<Rightarrow> cb) else cb)"

text \<open>The object callback, or the hold for an alias that nothing has bound yet.\<close>

definition hand_over :: "int \<Rightarrow> int \<Rightarrow> delivery \<Rightarrow> rx \<Rightarrow> rx" where
  "hand_over now alias d x =
    (case object_cb alias (dl_extensions d) x of
       Some cb \<Rightarrow> rx_log_add (Object_Callback cb (Some alias) d) x
     | None \<Rightarrow>
         x\<lparr>rx_early := hold_early_object (dict_get (rx_track_aliases x) alias \<noteq> None \<and> dict_get (rx_unbound_aliases x) alias = None)
             now alias (dl_consumed d) d (rx_early x)\<rparr>)"

definition bind_object_handler :: "int \<Rightarrow> int \<Rightarrow> int \<Rightarrow> rx \<Rightarrow> rx" where
  "bind_object_handler now alias cb x =
    (let (ds, early) = replay_early_objects now alias (rx_early x) in
     x\<lparr>rx_object_handlers := dict_set (rx_object_handlers x) alias cb, rx_early := early,
       rx_log := rx_log x @ map (Object_Callback cb (Some alias)) ds\<rparr>)"

datatype drain_outcome = Again rx | Finished rx | Failed rx

definition terminal_status :: "int \<Rightarrow> bool" where
  "terminal_status s \<longleftrightarrow> s = STATUS_END_OF_GROUP \<or> s = STATUS_END_OF_TRACK"

definition stream_delivery :: "int \<Rightarrow> int \<Rightarrow> SubgroupHeader \<Rightarrow> ObjectHeader \<Rightarrow> DataStreamState \<Rightarrow> rx \<Rightarrow> delivery" where
  "stream_delivery wall consumed h ob st x =
    \<lparr>dl_group_id = attr (ds_group_id st), dl_object_id = oh_object_id ob, dl_subgroup_id = ds_subgroup_id st, dl_status = oh_status ob,
     dl_extensions = oh_extensions ob, dl_payload = oh_payload ob,
     dl_priority = (if sh_default_priority h
       then (case dict_get (rx_track_default_priority x) (sh_track_alias h) of None \<Rightarrow> MOQT_DEFAULT_PRIORITY | Some p \<Rightarrow> p)
       else sh_publisher_priority h),
     dl_stream_flags = Some (sh_first_object h, sh_end_of_group h, sh_default_priority h), dl_consumed = consumed, dl_now = wall\<rparr>"

text \<open>The branch of \<^verbatim>\<open>_drain_stream\<close> for an object of a subgroup stream whose header is \<open>h\<close>.\<close>

definition deliver_stream_object :: "DraftProfile \<Rightarrow> int \<Rightarrow> int \<Rightarrow> int \<Rightarrow> int \<Rightarrow> SubgroupHeader \<Rightarrow> ObjectHeader \<Rightarrow> DataStreamState \<Rightarrow> rx \<Rightarrow> drain_outcome" where
  "deliver_stream_object prof now wall sid consumed h ob st x =
    (let alias = sh_track_alias h; group_id = attr (ds_group_id st); object_id = oh_object_id ob in
     if (case ds_object_id st of None \<Rightarrow> False | Some last_id \<Rightarrow> object_id \<le> last_id)
     then Finished (malformed_track prof now (Some alias) (Some sid) x)
     else let x1 = update_stream sid (\<lambda>s. s\<lparr>ds_object_id := Some object_id\<rparr>) x in
       if oh_status ob \<noteq> 0 \<and> status_object_fault prof (oh_status ob) (oh_extensions ob) then Finished (rx_close CLOSE_PROTOCOL_VIOLATION x1)
       else if (rx_group_bound x1 \<noteq> [] \<or> rx_track_bound x1 \<noteq> []) \<and> object_out_of_bounds alias group_id object_id (oh_status ob) x1
       then Finished (malformed_track prof now (Some alias) (Some sid) x1)
       else let sg = (case ds_subgroup_id st of Some s \<Rightarrow> Some s | None \<Rightarrow> sh_subgroup_id h);
                x2 = update_stream sid (\<lambda>s. s\<lparr>ds_subgroup_id := sg\<rparr>) x1;
                x3 = hand_over now alias (stream_delivery wall consumed h ob (st\<lparr>ds_subgroup_id := sg\<rparr>) x2) x2
            in if terminal_status (oh_status ob)
               then Finished (cleanup_stream prof now sid True 0 (note_object_bound alias group_id object_id (oh_status ob) False x3))
               else Again x3)"

definition deliver_fetch_object :: "int \<Rightarrow> FetchObject \<Rightarrow> rx \<Rightarrow> rx" where
  "deliver_fetch_object rid ob x =
    (if fo_end_of_range ob = None then
       (case (case dict_get (rx_fetch_object_handlers x) rid of Some h \<Rightarrow> Some h | None \<Rightarrow> rx_on_fetch_object x) of
          Some cb \<Rightarrow> rx_log_add (Fetch_Callback cb ob rid) x | None \<Rightarrow> x)
     else (case rx_on_fetch_gap x of Some cb \<Rightarrow> rx_log_add (Fetch_Gap_Callback cb ob rid) x | None \<Rightarrow> x))"

section \<open>Parsing a stream\<close>

text \<open>
  What the session is built on: the integer codec, the leniency of the extension decoder, the fused parser of the
  transport's \<^verbatim>\<open>StreamChain\<close> if it has one, the draft, and how many bytes an underflow asks for (\<^verbatim>\<open>MOQTUnderflow.needed\<close>).
\<close>

record rx_env =
  ev_codec :: vcodec
  ev_tol :: bool
  ev_fused :: "fused_parser option"
  ev_prof :: DraftProfile
  ev_needed :: "bytes \<Rightarrow> int"

datatype parsed =
    Padding_Stream
  | Parsed_Subgroup SubgroupHeader
  | Parsed_Fetch int
  | Parsed_Object ObjectHeader SubgroupHeader SubgroupHeader
  | Parsed_Fetch_Object fetch_parser FetchObject

definition stream_buf :: "DraftProfile \<Rightarrow> bytes \<Rightarrow> rbuf" where
  "stream_buf prof bs = \<lparr>rb_data = bs, rb_pos = 0, rb_vi64 = vi64 prof, rb_chain = True\<rparr>"

definition is_subgroup_type :: "DraftProfile \<Rightarrow> int \<Rightarrow> bool" where
  "is_subgroup_type prof t \<longleftrightarrow> t AND NOT (subgroup_type_mask prof) = 0x10 \<and> drop_bit 1 t AND 0x03 \<noteq> 3"

definition parse_header :: "vcodec \<Rightarrow> DraftProfile \<Rightarrow> parsed reader" where
  "parse_header C prof =
    rbind (pull_vint C) (\<lambda>t.
    if t = PADDING_STREAM_TYPE then rret Padding_Stream
    else if is_subgroup_type prof t then rbind (sh_deserialize C t (Some prof)) (\<lambda>h. rret (Parsed_Subgroup h))
    else if t = FETCH_HEADER then rbind (fh_deserialize C) (\<lambda>rid. rret (Parsed_Fetch rid))
    else rfail MOQTProtocolViolation)"

definition parse_message :: "rx_env \<Rightarrow> int \<Rightarrow> stream_parser option \<Rightarrow> nat \<Rightarrow> parsed reader" where
  "parse_message E max_object p len =
    (case p of
       None \<Rightarrow> parse_header (ev_codec E) (ev_prof E)
     | Some (Subgroup_Parser h) \<Rightarrow>
         rbind (recv_object (ev_codec E) (ev_tol E) (ev_fused E) (int len) max_object h) (\<lambda>(ob, h'). rret (Parsed_Object ob h h'))
     | Some (Fetch_Parser f) \<Rightarrow>
         rbind (recv_fetch_object (ev_codec E) (ev_tol E) (ev_prof E) (fp_group_order f) max_object (fp_prior_obj f)) (\<lambda>ob.
         rret (Parsed_Fetch_Object f ob)))"

text \<open>The rest of \<^verbatim>\<open>_moqt_handle_data_stream\<close>: admission, and the parser's state behind the message.\<close>

definition set_parser :: "int \<Rightarrow> stream_parser \<Rightarrow> rx \<Rightarrow> rx" where
  "set_parser sid p x = update_stream sid (\<lambda>st. st\<lparr>ds_parser := Some p\<rparr>) x"

definition apply_parsed :: "DraftProfile \<Rightarrow> int \<Rightarrow> int \<Rightarrow> parsed \<Rightarrow> rx \<Rightarrow> int + rx" where
  "apply_parsed prof now sid m x = (case m of
     Padding_Stream \<Rightarrow> Inl RESET_CANCELLED
   | Parsed_Subgroup h \<Rightarrow>
       (case admit_subgroup_stream now sid h x of Inl c \<Rightarrow> Inl c | Inr x1 \<Rightarrow> Inr (set_parser sid (Subgroup_Parser h) x1))
   | Parsed_Fetch rid \<Rightarrow>
       (case admit_fetch_stream prof sid rid x of
          Inl c \<Rightarrow> Inl c
        | Inr (order, x1) \<Rightarrow> Inr (set_parser sid (Fetch_Parser \<lparr>fp_request_id = rid, fp_prior_obj = None, fp_group_order = order\<rparr>) x1))
   | Parsed_Object ob h h' \<Rightarrow>
       (let x1 = set_parser sid (Subgroup_Parser h') x in
        Inr (if sh_subgroup_id_mode h = SUBGROUP_ID_FIRST_OBJ \<and> sh_subgroup_id h = None then bind_subgroup_stream sid h' x1 else x1))
   | Parsed_Fetch_Object f ob \<Rightarrow> Inr (set_parser sid (Fetch_Parser (f\<lparr>fp_prior_obj := Some ob\<rparr>)) x))"

definition parser_alias :: "stream_parser option \<Rightarrow> int option" where
  "parser_alias p = (case p of Some (Subgroup_Parser h) \<Rightarrow> Some (sh_track_alias h) | _ \<Rightarrow> None)"

text \<open>What \<^verbatim>\<open>_drain_stream\<close> does with an exception of the parser.\<close>

definition drain_fault :: "rx_env \<Rightarrow> int \<Rightarrow> int \<Rightarrow> DataStreamState \<Rightarrow> py_error \<Rightarrow> rx \<Rightarrow> drain_outcome" where
  "drain_fault E now sid st e x =
    (let prof = ev_prof E in case e of
       MOQTUnderflow \<Rightarrow> Finished (update_stream sid (\<lambda>s. s\<lparr>ds_need := ev_needed E (ds_chain s)\<rparr>) x)
     | BufferReadError \<Rightarrow> Finished x
     | MOQTObjectTooLarge _ _ \<Rightarrow> Finished (reject_stream prof now sid RESET_EXCESSIVE_LOAD x)
     | MOQTMalformedKVP \<Rightarrow> Finished (malformed_track prof now (parser_alias (ds_parser st)) (Some sid) x)
     | MOQTProtocolViolation \<Rightarrow> Failed (rx_close CLOSE_PROTOCOL_VIOLATION x)
     | _ \<Rightarrow> Finished (reject_stream prof now sid RESET_INTERNAL_ERROR x))"

text \<open>What it does with a message; \<open>st\<close> is the stream behind it.\<close>

definition drain_message :: "DraftProfile \<Rightarrow> int \<Rightarrow> int \<Rightarrow> int \<Rightarrow> int \<Rightarrow> parsed \<Rightarrow> DataStreamState \<Rightarrow> rx \<Rightarrow> drain_outcome" where
  "drain_message prof now wall sid consumed m st x = (case m of
     Parsed_Object ob h h' \<Rightarrow> deliver_stream_object prof now wall sid consumed h' ob st x
   | Parsed_Subgroup h \<Rightarrow>
       if ds_group_id st \<noteq> None then Finished (malformed_track prof now (parser_alias (ds_parser st)) (Some sid) x)
       else Again (update_stream sid (\<lambda>s. s\<lparr>ds_group_id := Some (sh_group_id h), ds_subgroup_id := sh_subgroup_id h,
              ds_publisher_priority := Some (sh_publisher_priority h)\<rparr>) x)
   | Parsed_Fetch_Object f ob \<Rightarrow> Again (deliver_fetch_object (fp_request_id f) ob x)
   | _ \<Rightarrow> Again x)"

text \<open>One turn of the loop of \<^verbatim>\<open>_drain_stream\<close>.\<close>

definition drain_step :: "rx_env \<Rightarrow> int \<Rightarrow> int \<Rightarrow> int \<Rightarrow> rx \<Rightarrow> drain_outcome" where
  "drain_step E now wall sid x =
    (case dict_get (rx_data_streams x) sid of
       None \<Rightarrow> Finished x
     | Some st \<Rightarrow>
         if ds_chain st = [] then Finished x
         else (case parse_message E (rx_max_object_bytes x) (ds_parser st) (length (ds_chain st)) (stream_buf (ev_prof E) (ds_chain st)) of
           Inl e \<Rightarrow> drain_fault E now sid st e x
         | Inr (m, b) \<Rightarrow>
             (case apply_parsed (ev_prof E) now sid m x of
                Inl code \<Rightarrow> Finished (reject_stream (ev_prof E) now sid code x)
              | Inr x1 \<Rightarrow>
                  let x2 = update_stream sid (\<lambda>s. s\<lparr>ds_bytes_total := ds_bytes_total s + int (rb_pos b), ds_chain := drop (rb_pos b) (ds_chain s)\<rparr>) x1
                  in (case dict_get (rx_data_streams x2) sid of
                       None \<Rightarrow> Finished x2
                     | Some st2 \<Rightarrow> drain_message (ev_prof E) now wall sid (int (rb_pos b)) m st2 x2))))"

partial_function (option) drain_loop :: "rx_env \<Rightarrow> int \<Rightarrow> int \<Rightarrow> int \<Rightarrow> rx \<Rightarrow> (bool \<times> rx) option" where
  "drain_loop E now wall sid x =
    (case drain_step E now wall sid x of
       Again x' \<Rightarrow> drain_loop E now wall sid x'
     | Finished x' \<Rightarrow> Some (True, x')
     | Failed x' \<Rightarrow> Some (False, x'))"

declare drain_loop.simps [code]

definition drain_stream :: "rx_env \<Rightarrow> int \<Rightarrow> int \<Rightarrow> int \<Rightarrow> rx \<Rightarrow> (bool \<times> rx) option" where
  "drain_stream E now wall sid x = drain_loop E now wall sid (update_stream sid (\<lambda>s. s\<lparr>ds_need := 1\<rparr>) x)"

section \<open>Bytes of a stream\<close>

definition new_stream :: "int \<Rightarrow> DataStreamState" where
  "new_stream now = \<lparr>ds_chain = [], ds_parser = None, ds_key = None, ds_bytes_total = 0, ds_last_activity = now, ds_group_id = None,
     ds_subgroup_id = None, ds_object_id = None, ds_publisher_priority = None, ds_held = 0, ds_need = 1\<rparr>"

text \<open>The count of unparsed bytes, over all streams: \<open>False\<close> when the limit closed the session.\<close>

definition count_held :: "int \<Rightarrow> rx \<Rightarrow> bool \<times> rx" where
  "count_held sid x = (case dict_get (rx_data_streams x) sid of
     None \<Rightarrow> (True, x)
   | Some st \<Rightarrow>
       let held = int (length (ds_chain st)) in
       if held = ds_held st then (True, x)
       else let total = rx_held_bytes x + held - ds_held st;
                x1 = update_stream sid (\<lambda>s. s\<lparr>ds_held := held\<rparr>) (x\<lparr>rx_held_bytes := total\<rparr>)
            in if rx_held_limit x1 < total then (False, rx_close CLOSE_INTERNAL_ERROR x1) else (True, x1))"

definition end_stream_data :: "DraftProfile \<Rightarrow> int \<Rightarrow> int \<Rightarrow> rx \<Rightarrow> rx" where
  "end_stream_data prof now sid x = (case dict_get (rx_data_streams x) sid of
     None \<Rightarrow> x
   | Some st \<Rightarrow>
       if ds_chain st \<noteq> [] \<and> ds_parser st \<noteq> None then rx_close CLOSE_PROTOCOL_VIOLATION x
       else cleanup_stream prof now sid True 0 x)"

text \<open>
  \<^verbatim>\<open>_on_stream_data\<close>. \<open>None\<close> would be a call that does not return. After a parse error that closes the session the position
  of the parser, and with it the count of held bytes, is not followed further.
\<close>

definition open_stream :: "int \<Rightarrow> int \<Rightarrow> rx \<Rightarrow> rx" where
  "open_stream now sid x = (case dict_get (rx_data_streams x) sid of
     None \<Rightarrow> x\<lparr>rx_data_streams := dict_set (rx_data_streams x) sid (new_stream now)\<rparr> | Some _ \<Rightarrow> x)"

definition on_stream_data :: "rx_env \<Rightarrow> int \<Rightarrow> int \<Rightarrow> int \<Rightarrow> bytes \<Rightarrow> bool \<Rightarrow> rx \<Rightarrow> rx option" where
  "on_stream_data E now wall sid data fin x =
    (if dict_get (rx_stream_torn_down x) sid \<noteq> None then Some x
     else let x1 = update_stream sid (\<lambda>s. s\<lparr>ds_chain := ds_chain s @ data\<rparr>) (open_stream now sid x);
              ready = (case dict_get (rx_data_streams x1) sid of None \<Rightarrow> False | Some st \<Rightarrow> ds_need st \<le> int (length (ds_chain st)))
          in Option.bind (if ready then drain_stream E now wall sid x1 else Some (True, x1)) (\<lambda>(ok, x2).
             if \<not> ok then Some x2
             else case count_held sid x2 of
               (False, x3) \<Rightarrow> Some x3
             | (True, x3) \<Rightarrow> Some (if fin then end_stream_data (ev_prof E) now sid x3 else x3)))"

section \<open>The reaper\<close>

definition alias_unbound :: "int \<Rightarrow> rx \<Rightarrow> bool" where
  "alias_unbound alias x \<longleftrightarrow> dict_get (rx_unbound_aliases x) alias \<noteq> None \<and> dict_get (rx_track_aliases x) alias = None
     \<and> dict_get (rx_object_handlers x) alias = None \<and> alias \<notin> set (rx_established_aliases x) \<and> alias \<notin> set (rx_offered_aliases x)"

text \<open>The verdict on one stream: the streams are listed before the first rejection, their verdicts read at their turn.\<close>

definition reap_stream :: "DraftProfile \<Rightarrow> int \<Rightarrow> int \<times> DataStreamState \<Rightarrow> rx \<Rightarrow> rx" where
  "reap_stream prof now s x = (case s of (sid, st) \<Rightarrow>
     if now - STREAM_BIND_DEADLINE \<le> ds_last_activity st then x
     else (case ds_parser st of
       None \<Rightarrow> reject_stream prof now sid RESET_DELIVERY_TIMEOUT x
     | Some (Subgroup_Parser h) \<Rightarrow> if alias_unbound (sh_track_alias h) x then reject_stream prof now sid RESET_CANCELLED x else x
     | Some (Fetch_Parser f) \<Rightarrow> x))"

definition reap_streams :: "DraftProfile \<Rightarrow> int \<Rightarrow> rx \<Rightarrow> rx" where
  "reap_streams prof now x = (if rx_close_err x \<noteq> None then x else fold (reap_stream prof now) (rx_data_streams x) x)"

section \<open>Datagrams\<close>

definition datagram_delivery :: "int \<Rightarrow> int \<Rightarrow> ObjectDatagram \<Rightarrow> delivery" where
  "datagram_delivery wall consumed d =
    \<lparr>dl_group_id = od_group_id d, dl_object_id = od_object_id d, dl_subgroup_id = None, dl_status = od_status d,
     dl_extensions = od_extensions d, dl_payload = od_payload d, dl_priority = od_publisher_priority d, dl_stream_flags = None,
     dl_consumed = consumed, dl_now = wall\<rparr>"

definition deliver_datagram :: "DraftProfile \<Rightarrow> int \<Rightarrow> int \<Rightarrow> int \<Rightarrow> ObjectDatagram \<Rightarrow> rx \<Rightarrow> rx" where
  "deliver_datagram prof now wall consumed d x =
    (let alias = od_track_alias d in
     if alias \<in> set (rx_malformed_aliases x) then x
     else if (rx_group_bound x \<noteq> [] \<or> rx_track_bound x \<noteq> []) \<and> object_out_of_bounds alias (od_group_id d) (od_object_id d) (od_status d) x
     then malformed_track prof now (Some alias) None x
     else let x1 = hand_over now alias (datagram_delivery wall consumed d) x in
       if od_end_of_group d \<or> od_status d \<noteq> STATUS_NORMAL
       then note_object_bound alias (od_group_id d) (od_object_id d) (od_status d) (od_end_of_group d) x1 else x1)"

definition dgram_buf :: "DraftProfile \<Rightarrow> bytes \<Rightarrow> rbuf" where
  "dgram_buf prof bs = \<lparr>rb_data = bs, rb_pos = 0, rb_vi64 = vi64 prof, rb_chain = False\<rparr>"

definition D18_DGRAM_INVALID :: "int list" where
  "D18_DGRAM_INVALID = [0x22, 0x23, 0x26, 0x27, 0x2A, 0x2B, 0x2E, 0x2F]"

text \<open>An exception that is not a wire fault of the layout leaves the handler; its caller drops the datagram.\<close>

definition handle_dgram_d18 :: "rx_env \<Rightarrow> int \<Rightarrow> int \<Rightarrow> int \<Rightarrow> nat \<Rightarrow> rbuf \<Rightarrow> rx \<Rightarrow> rx result" where
  "handle_dgram_d18 E now wall t len b x =
    (let prof = ev_prof E in
     if vi64 prof \<and> t = PADDING_DATAGRAM_TYPE then Inr x
     else if t AND NOT 0x2F \<noteq> 0 \<or> t AND 0x10 \<noteq> 0 \<or> t \<in> set D18_DGRAM_INVALID then Inr (rx_close CLOSE_PROTOCOL_VIOLATION x)
     else case od_deserialize (ev_codec E) (ev_tol E) (int len) t (Some prof) b of
       Inl e \<Rightarrow>
         if e = ValueError \<or> e = UnicodeError \<or> e = MOQTProtocolViolation then Inr (rx_close CLOSE_PROTOCOL_VIOLATION x) else Inl e
     | Inr (d, b') \<Rightarrow>
         if t AND 0x01 \<noteq> 0 \<and> \<not> has_exts (od_extensions d) \<or> od_status d \<noteq> 0 \<and> status_object_fault prof (od_status d) (od_extensions d)
         then Inr (rx_close CLOSE_PROTOCOL_VIOLATION x)
         else let d' = (if t AND 0x08 \<noteq> 0 then d\<lparr>od_publisher_priority :=
                  (case dict_get (rx_track_default_priority x) (od_track_alias d) of None \<Rightarrow> MOQT_DEFAULT_PRIORITY | Some p \<Rightarrow> p)\<rparr> else d)
              in Inr (deliver_datagram prof now wall (int (rb_pos b')) d' x))"

definition handle_dgram :: "rx_env \<Rightarrow> int \<Rightarrow> int \<Rightarrow> bytes \<Rightarrow> rx \<Rightarrow> rx result" where
  "handle_dgram E now wall bs x =
    (let prof = ev_prof E; C = ev_codec E in
     if bs = [] then Inr x
     else case pull_vint C (dgram_buf prof bs) of
       Inl e \<Rightarrow> Inl e
     | Inr (t, b) \<Rightarrow>
         if merged_datagram_layout prof then handle_dgram_d18 E now wall t (length bs) b x
         else if 0 \<le> t \<and> t \<le> 0x07 then
           (case od_deserialize C (ev_tol E) (int (length bs)) t (Some prof) b of
              Inl e \<Rightarrow> Inl e | Inr (d, b') \<Rightarrow> Inr (deliver_datagram prof now wall (int (rb_pos b')) d x))
         else if 0x20 \<le> t \<and> t \<le> 0x21 then
           (case ods_deserialize C (ev_tol E) t (Some prof) b of
              Inl e \<Rightarrow> Inl e | Inr (d, b') \<Rightarrow> Inr (deliver_datagram prof now wall (int (rb_pos b')) d x))
         else Inr (rx_close CLOSE_PROTOCOL_VIOLATION x))"

definition on_datagram :: "rx_env \<Rightarrow> int \<Rightarrow> int \<Rightarrow> bytes \<Rightarrow> rx \<Rightarrow> rx" where
  "on_datagram E now wall bs x = (case handle_dgram E now wall bs x of Inl e \<Rightarrow> x | Inr x' \<Rightarrow> x')"

section \<open>Control messages and timers that touch this state\<close>

definition resolve_unbound_alias :: "int \<Rightarrow> rx \<Rightarrow> rx" where
  "resolve_unbound_alias alias x = x\<lparr>rx_unbound_aliases := snd (dict_pop (rx_unbound_aliases x) alias)\<rparr>"

text \<open>What \<^verbatim>\<open>_handle_subscribe_ok\<close> does to the aliases.\<close>

definition subscribe_ok_alias :: "int \<Rightarrow> int \<Rightarrow> rx \<Rightarrow> rx" where
  "subscribe_ok_alias alias rid x = resolve_unbound_alias alias (x\<lparr>rx_track_aliases := dict_set (rx_track_aliases x) alias rid\<rparr>)"

definition unregister_object_handler :: "int \<Rightarrow> rx \<Rightarrow> rx" where
  "unregister_object_handler alias x =
    x\<lparr>rx_object_handlers := snd (dict_pop (rx_object_handlers x) alias), rx_early := discard_early_objects alias (rx_early x)\<rparr>"

definition release_finished_track :: "int \<Rightarrow> int \<Rightarrow> int \<Rightarrow> rx \<Rightarrow> rx" where
  "release_finished_track now alias rid x =
    (if dict_get (rx_track_aliases x) alias \<noteq> Some rid then x
     else let x1 = fold (\<lambda>sid y. mark_stream_torn_down now sid (rx_log_add (Stop_Sending sid RESET_CANCELLED) y))
            (map snd (filter (\<lambda>((al, g, sg), s). al = alias) (rx_subgroup_stream_by_key x))) x
          in forget_track_bounds alias (x1\<lparr>rx_track_aliases := snd (dict_pop (rx_track_aliases x1) alias),
               rx_object_handlers := snd (dict_pop (rx_object_handlers x1) alias),
               rx_timing_watch := snd (dict_pop (rx_timing_watch x1) alias),
               rx_stream_end_handlers := snd (dict_pop (rx_stream_end_handlers x1) alias),
               rx_track_default_priority := snd (dict_pop (rx_track_default_priority x1) alias),
               rx_early_stream_ends := snd (dict_pop (rx_early_stream_ends x1) alias),
               rx_early := discard_early_objects alias (rx_early x1)\<rparr>))"

section \<open>Sessions\<close>

datatype rx_event =
    Stream_Data int int int bytes bool
  | Stream_Reset int int int
  | Datagram int int bytes
  | Reaper int
  | Subscribe_Ok_Alias int int
  | Bind_Handler int int int
  | Unbind_Handler int
  | Bind_End_Handler int int int
  | Release_Track int int int
  | Sent_Request int "sent_msg list"

definition rx_step :: "rx_env \<Rightarrow> rx_event \<Rightarrow> rx \<Rightarrow> rx option" where
  "rx_step E e x = (case e of
     Stream_Data now wall sid data fin \<Rightarrow> on_stream_data E now wall sid data fin x
   | Stream_Reset now sid code \<Rightarrow> Some (cleanup_stream (ev_prof E) now sid False code x)
   | Datagram now wall bs \<Rightarrow> Some (on_datagram E now wall bs x)
   | Reaper now \<Rightarrow> Some (reap_streams (ev_prof E) now x)
   | Subscribe_Ok_Alias alias rid \<Rightarrow> Some (subscribe_ok_alias alias rid x)
   | Bind_Handler now alias cb \<Rightarrow> Some (bind_object_handler now alias cb x)
   | Unbind_Handler alias \<Rightarrow> Some (unregister_object_handler alias x)
   | Bind_End_Handler now alias cb \<Rightarrow> Some (register_stream_end_handler now alias cb x)
   | Release_Track now alias rid \<Rightarrow> Some (release_finished_track now alias rid x)
   | Sent_Request rid ms \<Rightarrow> Some (x\<lparr>rx_subscriptions := dict_set (rx_subscriptions x) rid ms\<rparr>))"

fun rx_run :: "rx_env \<Rightarrow> rx_event list \<Rightarrow> rx \<Rightarrow> rx option" where
  "rx_run E [] x = Some x"
| "rx_run E (e # es) x = Option.bind (rx_step E e x) (rx_run E es)"

definition new_rx :: "int \<Rightarrow> int option \<Rightarrow> rx" where
  "new_rx max_object on_object =
    \<lparr>rx_track_aliases = [], rx_unbound_aliases = [], rx_established_aliases = [], rx_offered_aliases = [], rx_object_handlers = [],
     rx_on_object_received = on_object, rx_timing_watch = [], rx_stream_end_handlers = [], rx_early_stream_ends = [],
     rx_early = reset_early_objects 0, rx_group_bound = [], rx_track_bound = [], rx_malformed_aliases = [], rx_track_default_priority = [],
     rx_data_streams = [], rx_subgroup_stream_by_key = [], rx_fetch_stream_by_request = [], rx_subscriptions = [], rx_fill_requests = [],
     rx_fetch_object_handlers = [], rx_on_fetch_object = None, rx_on_fetch_gap = None, rx_stream_torn_down = [], rx_last_sweep = 0,
     rx_held_bytes = 0, rx_held_limit = 4 * max_object, rx_max_object_bytes = max_object, rx_close_err = None, rx_log = []\<rparr>"

text \<open>A draft 18 session on the integer formats of the RFCs, without a fused parser.\<close>

definition d18_env :: rx_env where
  "d18_env = \<lparr>ev_codec = std_codec, ev_tol = False, ev_fused = None, ev_prof = PROFILE_D18, ev_needed = (\<lambda>_. 1)\<rparr>"

end
