(* ===== verification/Data_Laws.thy ===== *)
theory Data_Laws
  imports Data_Session
begin

text \<open>
  Laws of the receiving side: the count of unparsed bytes, the agreement of the stream tables, the return of the
  drain loop, and what ends of tracks and malformed tracks rule out. Each operation's effect on the part of the
  state a law is about is a lemma; what every step of a run keeps, the run keeps.
\<close>

section \<open>Held bytes\<close>

text \<open>
  The invariant while the bytes of stream \<open>sid\<close> are handled: the session's count is the sum over the streams, within
  its limit, and every other stream counts exactly its unparsed bytes.
\<close>

definition accounted :: "int option \<Rightarrow> rx \<Rightarrow> bool" where
  "accounted sid x \<longleftrightarrow> dict_ok (rx_data_streams x) \<and> rx_held_bytes x \<le> rx_held_limit x
    \<and> rx_held_bytes x = sum_list (map (ds_held \<circ> snd) (rx_data_streams x))
    \<and> (\<forall>(s, st) \<in> set (rx_data_streams x). 0 \<le> ds_held st \<and> (Some s \<noteq> sid \<longrightarrow> ds_held st = int (length (ds_chain st))))"

lemma set_dict_put: "dict_ok d \<Longrightarrow> set (dict_set d k v) = insert (k, v) {p \<in> set d. fst p \<noteq> k}"
proof (induction d)
  case (Cons p d)
  then show ?case by (cases p) (force simp: dict_ok_def)
qed simp

lemma sum_dict_put:
  fixes f :: "'v \<Rightarrow> int"
  shows "dict_ok d \<Longrightarrow> sum_list (map (f \<circ> snd) (dict_set d k v))
    = sum_list (map (f \<circ> snd) d) - (case dict_get d k of None \<Rightarrow> 0 | Some w \<Rightarrow> f w) + f v"
  by (induction d) (auto simp: dict_get_def dict_ok_def)

lemma sum_dict_pop:
  fixes f :: "'v \<Rightarrow> int"
  shows "dict_ok d \<Longrightarrow> sum_list (map (f \<circ> snd) (snd (dict_pop d k)))
    = sum_list (map (f \<circ> snd) d) - (case dict_get d k of None \<Rightarrow> 0 | Some w \<Rightarrow> f w)"
proof (induction d)
  case (Cons p d)
  then show ?case using filter_absent [of k d] by (cases p) (auto simp: dict_get_def dict_ok_def dict_pop_def)
qed (simp add: dict_get_def dict_pop_def)

lemma get_member: "dict_get d k = Some v \<Longrightarrow> (k, v) \<in> set d"
  by (simp add: dict_get_def map_of_SomeD)

lemma accounted_update:
  assumes "accounted sid x" "\<And>st. ds_held (f st) = ds_held st" "\<And>st. Some s = sid \<or> ds_chain (f st) = ds_chain st"
  shows "accounted sid (update_stream s f x)"
proof (cases "dict_get (rx_data_streams x) s")
  case (Some st)
  have ok: "dict_ok (rx_data_streams x)" and h: "0 \<le> ds_held st" "Some s \<noteq> sid \<longrightarrow> ds_held st = int (length (ds_chain st))"
    using assms(1) get_member [OF Some] by (auto simp: accounted_def)
  then show ?thesis using assms Some sum_dict_put [OF ok, of ds_held s "f st"] pydict.invar_put [OF ok]
    by (auto simp: accounted_def update_stream_def set_dict_put [OF ok])
qed (use assms in \<open>simp add: update_stream_def\<close>)

text \<open>What the operations that do not touch the streams leave alone.\<close>

lemma log_kept [simp]:
  "rx_data_streams (rx_log_add act x) = rx_data_streams x" "rx_held_bytes (rx_log_add act x) = rx_held_bytes x"
  "rx_held_limit (rx_log_add act x) = rx_held_limit x" "rx_subgroup_stream_by_key (rx_log_add act x) = rx_subgroup_stream_by_key x"
  "rx_fetch_stream_by_request (rx_log_add act x) = rx_fetch_stream_by_request x" "rx_close_err (rx_log_add act x) = rx_close_err x"
  "rx_track_bound (rx_log_add act x) = rx_track_bound x" "rx_malformed_aliases (rx_log_add act x) = rx_malformed_aliases x"
  by (simp_all add: rx_log_add_def)

lemma close_kept [simp]:
  "rx_data_streams (rx_close c x) = rx_data_streams x" "rx_held_bytes (rx_close c x) = rx_held_bytes x"
  "rx_held_limit (rx_close c x) = rx_held_limit x" "rx_subgroup_stream_by_key (rx_close c x) = rx_subgroup_stream_by_key x"
  "rx_fetch_stream_by_request (rx_close c x) = rx_fetch_stream_by_request x" "rx_track_bound (rx_close c x) = rx_track_bound x"
  "rx_malformed_aliases (rx_close c x) = rx_malformed_aliases x"
  by (simp_all add: rx_close_def)

lemma group_bound_kept [simp]:
  "rx_data_streams (set_group_bound a g b x) = rx_data_streams x" "rx_held_bytes (set_group_bound a g b x) = rx_held_bytes x"
  "rx_held_limit (set_group_bound a g b x) = rx_held_limit x" "rx_subgroup_stream_by_key (set_group_bound a g b x) = rx_subgroup_stream_by_key x"
  "rx_fetch_stream_by_request (set_group_bound a g b x) = rx_fetch_stream_by_request x" "rx_close_err (set_group_bound a g b x) = rx_close_err x"
  "rx_track_bound (set_group_bound a g b x) = rx_track_bound x" "rx_malformed_aliases (set_group_bound a g b x) = rx_malformed_aliases x"
  by (simp_all add: set_group_bound_def Let_def)

lemma torn_down_kept [simp]:
  "rx_data_streams (mark_stream_torn_down now s x) = rx_data_streams x" "rx_held_bytes (mark_stream_torn_down now s x) = rx_held_bytes x"
  "rx_held_limit (mark_stream_torn_down now s x) = rx_held_limit x" "rx_subgroup_stream_by_key (mark_stream_torn_down now s x) = rx_subgroup_stream_by_key x"
  "rx_fetch_stream_by_request (mark_stream_torn_down now s x) = rx_fetch_stream_by_request x" "rx_close_err (mark_stream_torn_down now s x) = rx_close_err x"
  "rx_track_bound (mark_stream_torn_down now s x) = rx_track_bound x" "rx_malformed_aliases (mark_stream_torn_down now s x) = rx_malformed_aliases x"
  by (simp_all add: mark_stream_torn_down_def Let_def)

lemma early_end_kept [simp]:
  "rx_data_streams (note_early_stream_end now a gi si cl cd x) = rx_data_streams x" "rx_held_bytes (note_early_stream_end now a gi si cl cd x) = rx_held_bytes x"
  "rx_held_limit (note_early_stream_end now a gi si cl cd x) = rx_held_limit x" "rx_subgroup_stream_by_key (note_early_stream_end now a gi si cl cd x) = rx_subgroup_stream_by_key x"
  "rx_fetch_stream_by_request (note_early_stream_end now a gi si cl cd x) = rx_fetch_stream_by_request x" "rx_close_err (note_early_stream_end now a gi si cl cd x) = rx_close_err x"
  "rx_track_bound (note_early_stream_end now a gi si cl cd x) = rx_track_bound x" "rx_malformed_aliases (note_early_stream_end now a gi si cl cd x) = rx_malformed_aliases x"
  by (simp_all add: note_early_stream_end_def Let_def split: option.splits)

lemma hand_over_kept [simp]:
  "rx_data_streams (hand_over now a dl x) = rx_data_streams x" "rx_held_bytes (hand_over now a dl x) = rx_held_bytes x"
  "rx_held_limit (hand_over now a dl x) = rx_held_limit x" "rx_subgroup_stream_by_key (hand_over now a dl x) = rx_subgroup_stream_by_key x"
  "rx_fetch_stream_by_request (hand_over now a dl x) = rx_fetch_stream_by_request x" "rx_close_err (hand_over now a dl x) = rx_close_err x"
  "rx_track_bound (hand_over now a dl x) = rx_track_bound x" "rx_malformed_aliases (hand_over now a dl x) = rx_malformed_aliases x"
  by (simp_all add: hand_over_def rx_log_add_def split: option.splits)

lemma bound_kept [simp]:
  "rx_data_streams (note_object_bound a g ob s e x) = rx_data_streams x" "rx_held_bytes (note_object_bound a g ob s e x) = rx_held_bytes x"
  "rx_held_limit (note_object_bound a g ob s e x) = rx_held_limit x" "rx_subgroup_stream_by_key (note_object_bound a g ob s e x) = rx_subgroup_stream_by_key x"
  "rx_fetch_stream_by_request (note_object_bound a g ob s e x) = rx_fetch_stream_by_request x" "rx_close_err (note_object_bound a g ob s e x) = rx_close_err x"
  "rx_malformed_aliases (note_object_bound a g ob s e x) = rx_malformed_aliases x"
  by (simp_all add: note_object_bound_def)

lemma subgroup_end_kept [simp]:
  "rx_data_streams (subgroup_stream_ended now st key clean code x) = rx_data_streams x" "rx_held_bytes (subgroup_stream_ended now st key clean code x) = rx_held_bytes x"
  "rx_held_limit (subgroup_stream_ended now st key clean code x) = rx_held_limit x" "rx_subgroup_stream_by_key (subgroup_stream_ended now st key clean code x) = rx_subgroup_stream_by_key x"
  "rx_fetch_stream_by_request (subgroup_stream_ended now st key clean code x) = rx_fetch_stream_by_request x" "rx_close_err (subgroup_stream_ended now st key clean code x) = rx_close_err x"
  "rx_track_bound (subgroup_stream_ended now st key clean code x) = rx_track_bound x" "rx_malformed_aliases (subgroup_stream_ended now st key clean code x) = rx_malformed_aliases x"
  by (simp_all add: subgroup_stream_ended_def Let_def split: prod.splits option.splits)

lemma fetch_end_kept [simp]:
  "rx_data_streams (fetch_stream_ended prof rid clean x) = rx_data_streams x" "rx_held_bytes (fetch_stream_ended prof rid clean x) = rx_held_bytes x"
  "rx_held_limit (fetch_stream_ended prof rid clean x) = rx_held_limit x" "rx_subgroup_stream_by_key (fetch_stream_ended prof rid clean x) = rx_subgroup_stream_by_key x"
  "rx_fetch_stream_by_request (fetch_stream_ended prof rid clean x) = rx_fetch_stream_by_request x" "rx_close_err (fetch_stream_ended prof rid clean x) = rx_close_err x"
  "rx_track_bound (fetch_stream_ended prof rid clean x) = rx_track_bound x" "rx_malformed_aliases (fetch_stream_ended prof rid clean x) = rx_malformed_aliases x"
  by (simp_all add: fetch_stream_ended_def)

lemma fetch_object_kept [simp]:
  "rx_data_streams (deliver_fetch_object rid ob x) = rx_data_streams x" "rx_held_bytes (deliver_fetch_object rid ob x) = rx_held_bytes x"
  "rx_held_limit (deliver_fetch_object rid ob x) = rx_held_limit x" "rx_subgroup_stream_by_key (deliver_fetch_object rid ob x) = rx_subgroup_stream_by_key x"
  "rx_fetch_stream_by_request (deliver_fetch_object rid ob x) = rx_fetch_stream_by_request x" "rx_close_err (deliver_fetch_object rid ob x) = rx_close_err x"
  "rx_track_bound (deliver_fetch_object rid ob x) = rx_track_bound x" "rx_malformed_aliases (deliver_fetch_object rid ob x) = rx_malformed_aliases x"
  by (simp_all add: deliver_fetch_object_def split: option.splits)

lemma unbind_kept [simp]:
  "rx_data_streams (unbind_key key x) = rx_data_streams x" "rx_held_bytes (unbind_key key x) = rx_held_bytes x"
  "rx_held_limit (unbind_key key x) = rx_held_limit x" "rx_close_err (unbind_key key x) = rx_close_err x"
  "rx_track_bound (unbind_key key x) = rx_track_bound x" "rx_malformed_aliases (unbind_key key x) = rx_malformed_aliases x"
  by (simp_all add: unbind_key_def split: option.splits stream_key.splits)

lemma forget_kept [simp]:
  "rx_data_streams (forget_track_bounds a x) = rx_data_streams x" "rx_held_bytes (forget_track_bounds a x) = rx_held_bytes x"
  "rx_held_limit (forget_track_bounds a x) = rx_held_limit x" "rx_subgroup_stream_by_key (forget_track_bounds a x) = rx_subgroup_stream_by_key x"
  "rx_fetch_stream_by_request (forget_track_bounds a x) = rx_fetch_stream_by_request x" "rx_close_err (forget_track_bounds a x) = rx_close_err x"
  by (simp_all add: forget_track_bounds_def)

lemma accounted_kept [simp]:
  "accounted sid (rx_log_add act x) = accounted sid x" "accounted sid (rx_close c x) = accounted sid x"
  "accounted sid (hand_over now a dl x) = accounted sid x" "accounted sid (note_object_bound a g ob s e x) = accounted sid x"
  "accounted sid (deliver_fetch_object rid fo x) = accounted sid x" "accounted sid (mark_stream_torn_down now s x) = accounted sid x"
  "accounted sid (forget_track_bounds a x) = accounted sid x"
  by (simp_all add: accounted_def)

text \<open>A cleaned up stream leaves the table with its count.\<close>

lemma cleanup_streams [simp]:
  "rx_data_streams (cleanup_stream prof now s clean code x) = snd (dict_pop (rx_data_streams x) s)"
  "rx_held_bytes (cleanup_stream prof now s clean code x)
    = rx_held_bytes x - (case dict_get (rx_data_streams x) s of None \<Rightarrow> 0 | Some st \<Rightarrow> ds_held st)"
  "rx_held_limit (cleanup_stream prof now s clean code x) = rx_held_limit x"
  "rx_close_err (cleanup_stream prof now s clean code x) = rx_close_err x"
  "rx_track_bound (cleanup_stream prof now s clean code x) = rx_track_bound x"
  "rx_malformed_aliases (cleanup_stream prof now s clean code x) = rx_malformed_aliases x"
  by (simp_all add: cleanup_stream_def Let_def split: option.splits stream_key.splits)

lemma cleanup_accounted: "accounted sid x \<Longrightarrow> accounted sid (cleanup_stream prof now s clean code x)"
proof -
  assume a: "accounted sid x"
  then have ok: "dict_ok (rx_data_streams x)" by (simp add: accounted_def)
  have "0 \<le> (case dict_get (rx_data_streams x) s of None \<Rightarrow> 0 | Some st \<Rightarrow> ds_held st)"
    using a get_member [of "rx_data_streams x" s] by (fastforce simp: accounted_def split: option.splits)
  then show ?thesis using a sum_dict_pop [OF ok, of ds_held s] pydict.invar_pop [OF ok]
    by (auto simp: accounted_def dict_pop_def)
qed

lemma reject_accounted: "accounted sid x \<Longrightarrow> accounted sid (reject_stream prof now s code x)"
  unfolding reject_stream_def by (intro cleanup_accounted) (simp add: accounted_def)

lemma rejects_accounted: "accounted sid x \<Longrightarrow> accounted sid (fold (\<lambda>s. reject_stream prof now s code) ss x)"
  by (induction ss arbitrary: x) (simp_all add: reject_accounted)

lemma malformed_accounted: "accounted sid x \<Longrightarrow> accounted sid (malformed_track prof now a s x)"
proof -
  assume x: "accounted sid x"
  let ?x1 = "case s of None \<Rightarrow> x | Some s \<Rightarrow> reject_stream prof now s RESET_MALFORMED_TRACK x"
  have x1: "accounted sid ?x1" using x by (auto intro: reject_accounted split: option.splits)
  have m: "accounted sid (?x1\<lparr>rx_malformed_aliases := v\<rparr>)" for v using x1 by (simp add: accounted_def)
  show ?thesis unfolding malformed_track_def Let_def
    using x1 rejects_accounted [OF m] by (auto simp: Let_def split: option.splits)
qed

lemma accounted_tables:
  "accounted sid y \<Longrightarrow> accounted sid (y\<lparr>rx_subgroup_stream_by_key := k\<rparr>)"
  "accounted sid y \<Longrightarrow> accounted sid (y\<lparr>rx_unbound_aliases := u\<rparr>)"
  "accounted sid y \<Longrightarrow> accounted sid (y\<lparr>rx_fetch_stream_by_request := w\<rparr>)"
  by (simp_all add: accounted_def)

lemma bind_accounted: "accounted sid x \<Longrightarrow> accounted sid (bind_subgroup_stream s h x)"
  unfolding bind_subgroup_stream_def Let_def by (auto intro!: accounted_update accounted_tables split: option.splits)

lemma parsed_accounted: "accounted sid x \<Longrightarrow> apply_parsed prof now s m x = Inr x' \<Longrightarrow> accounted sid x'"
proof -
  assume x: "accounted sid x" and p: "apply_parsed prof now s m x = Inr x'"
  have sp: "accounted sid (set_parser s q y)" if "accounted sid y" for q y unfolding set_parser_def using that by (rule accounted_update) simp_all
  have sg: "accounted sid y" if "admit_subgroup_stream now s h x = Inr y" for h y
    using that x unfolding admit_subgroup_stream_def Let_def
    by (auto intro!: bind_accounted accounted_tables split: if_splits option.splits prod.splits)
  have ft: "accounted sid y" if "admit_fetch_stream prof s rid x = Inr (r, y)" for rid r y
    using that x unfolding admit_fetch_stream_def Let_def by (auto intro!: accounted_update accounted_tables split: if_splits)
  show ?thesis using p sg ft x unfolding apply_parsed_def Let_def
    by (auto intro!: sp bind_accounted split: parsed.splits sum.splits if_splits)
qed

text \<open>How the handling of an object of a stream ends; \<open>x1\<close> is the state with the object's id noted.\<close>

lemma deliver_cases:
  fixes prof now wall sid n h ob st x
  defines "r \<equiv> deliver_stream_object prof now wall sid n h ob st x" and "x1 \<equiv> update_stream sid (\<lambda>s. s\<lparr>ds_object_id := Some (oh_object_id ob)\<rparr>) x"
  obtains (order) "r = Finished (malformed_track prof now (Some (sh_track_alias h)) (Some sid) x)"
  | (fault) "r = Finished (rx_close CLOSE_PROTOCOL_VIOLATION x1)"
  | (past) "r = Finished (malformed_track prof now (Some (sh_track_alias h)) (Some sid) x1)"
  | (given) sg dl y where "y = hand_over now (sh_track_alias h) dl (update_stream sid (\<lambda>s. s\<lparr>ds_subgroup_id := sg\<rparr>) x1)"
      "dl_group_id dl = attr (ds_group_id st)" "dl_object_id dl = oh_object_id ob" "dl_status dl = oh_status ob"
      "(rx_group_bound x1 \<noteq> [] \<or> rx_track_bound x1 \<noteq> [])
        \<longrightarrow> \<not> object_out_of_bounds (sh_track_alias h) (attr (ds_group_id st)) (oh_object_id ob) (oh_status ob) x1"
      "r = (if terminal_status (oh_status ob) then Finished (cleanup_stream prof now sid True 0
              (note_object_bound (sh_track_alias h) (attr (ds_group_id st)) (oh_object_id ob) (oh_status ob) False y)) else Again y)"
proof -
  let ?sg = "case ds_subgroup_id st of Some s \<Rightarrow> Some s | None \<Rightarrow> sh_subgroup_id h"
  let ?x2 = "update_stream sid (\<lambda>s. s\<lparr>ds_subgroup_id := ?sg\<rparr>) x1"
  let ?dl = "stream_delivery wall n h ob (st\<lparr>ds_subgroup_id := ?sg\<rparr>) ?x2"
  have dl: "dl_group_id ?dl = attr (ds_group_id st)" "dl_object_id ?dl = oh_object_id ob" "dl_status ?dl = oh_status ob"
    by (simp_all add: stream_delivery_def)
  show thesis
  proof (cases "case ds_object_id st of None \<Rightarrow> False | Some last_id \<Rightarrow> oh_object_id ob \<le> last_id")
    case True
    then show thesis using order unfolding r_def deliver_stream_object_def Let_def by simp
  next
    case a: False
    show thesis
    proof (cases "oh_status ob \<noteq> 0 \<and> status_object_fault prof (oh_status ob) (oh_extensions ob)")
      case True
      then show thesis using fault a unfolding r_def deliver_stream_object_def Let_def x1_def [symmetric] by simp
    next
      case b: False
      show thesis
      proof (cases "(rx_group_bound x1 \<noteq> [] \<or> rx_track_bound x1 \<noteq> [])
          \<and> object_out_of_bounds (sh_track_alias h) (attr (ds_group_id st)) (oh_object_id ob) (oh_status ob) x1")
        case True
        then show thesis using past a b unfolding r_def deliver_stream_object_def Let_def x1_def [symmetric] by simp
      next
        case c: False
        have "r = (if terminal_status (oh_status ob) then Finished (cleanup_stream prof now sid True 0
              (note_object_bound (sh_track_alias h) (attr (ds_group_id st)) (oh_object_id ob) (oh_status ob) False (hand_over now (sh_track_alias h) ?dl ?x2)))
            else Again (hand_over now (sh_track_alias h) ?dl ?x2))"
          unfolding r_def deliver_stream_object_def Let_def x1_def [symmetric] if_not_P [OF a] if_not_P [OF b] if_not_P [OF c] ..
        then show thesis using c by (intro given [OF refl dl]) blast+
      qed
    qed
  qed
qed

lemma object_accounted:
  assumes "accounted (Some sid) x"
  shows "case deliver_stream_object prof now wall sid n h ob st x of
    Again y \<Rightarrow> accounted (Some sid) y | Finished y \<Rightarrow> accounted (Some sid) y | Failed y \<Rightarrow> accounted (Some sid) y"
proof -
  have u: "accounted (Some sid) (update_stream sid f y)" if "accounted (Some sid) y" "\<And>st. ds_held (f st) = ds_held st" for f y
    using that by (rule accounted_update) simp
  have k: "accounted (Some sid) (hand_over now a dl y)" "accounted (Some sid) (note_object_bound a g o' s e y)" "accounted (Some sid) (rx_close c y)"
    if "accounted (Some sid) y" for a dl g o' s e c y using that by (simp_all add: accounted_def)
  show ?thesis
    by (rule deliver_cases [of prof now wall sid n h ob st x])
      (auto intro!: malformed_accounted cleanup_accounted u k assms)
qed

lemma fault_accounted:
  assumes "accounted (Some sid) x"
  shows "case drain_fault E now sid st e x of Again y \<Rightarrow> accounted (Some sid) y | Finished y \<Rightarrow> accounted (Some sid) y | Failed y \<Rightarrow> accounted (Some sid) y"
proof -
  have "accounted (Some sid) (update_stream sid (\<lambda>s. s\<lparr>ds_need := ev_needed E (ds_chain s)\<rparr>) x)"
    by (rule accounted_update [OF assms]) simp_all
  moreover have "accounted (Some sid) (rx_close c x)" for c using assms by (simp add: accounted_def)
  ultimately show ?thesis using assms by (cases e) (simp_all add: drain_fault_def reject_accounted malformed_accounted)
qed

lemma message_accounted:
  assumes "accounted (Some sid) x"
  shows "case drain_message prof now wall sid n m st x of Again y \<Rightarrow> accounted (Some sid) y | Finished y \<Rightarrow> accounted (Some sid) y | Failed y \<Rightarrow> accounted (Some sid) y"
proof -
  have "accounted (Some sid) (update_stream sid f x)" if "\<And>st. ds_held (f st) = ds_held st" for f
    by (rule accounted_update [OF assms that]) simp
  moreover have "accounted (Some sid) (deliver_fetch_object rid ob x)" for rid ob using assms by (simp add: accounted_def)
  ultimately show ?thesis using object_accounted [OF assms] assms by (cases m) (simp_all add: drain_message_def malformed_accounted)
qed

lemma drain_step_cases:
  fixes E now wall sid x
  defines "r \<equiv> drain_step E now wall sid x"
  obtains (idle) "r = Finished x"
  | (fault) st e where "dict_get (rx_data_streams x) sid = Some st" "r = drain_fault E now sid st e x"
  | (reject) code where "r = Finished (reject_stream (ev_prof E) now sid code x)"
  | (message) st m b x1 x2 st2 where "dict_get (rx_data_streams x) sid = Some st"
      "parse_message E (rx_max_object_bytes x) (ds_parser st) (length (ds_chain st)) (stream_buf (ev_prof E) (ds_chain st)) = Inr (m, b)"
      "apply_parsed (ev_prof E) now sid m x = Inr x1"
      "x2 = update_stream sid (\<lambda>s. s\<lparr>ds_bytes_total := ds_bytes_total s + int (rb_pos b), ds_chain := drop (rb_pos b) (ds_chain s)\<rparr>) x1"
      "dict_get (rx_data_streams x2) sid = Some st2" "ds_chain st \<noteq> []"
      "r = drain_message (ev_prof E) now wall sid (int (rb_pos b)) m st2 x2"
  | (gone) st m b x1 where "dict_get (rx_data_streams x) sid = Some st"
      "parse_message E (rx_max_object_bytes x) (ds_parser st) (length (ds_chain st)) (stream_buf (ev_prof E) (ds_chain st)) = Inr (m, b)"
      "apply_parsed (ev_prof E) now sid m x = Inr x1"
      "r = Finished (update_stream sid (\<lambda>s. s\<lparr>ds_bytes_total := ds_bytes_total s + int (rb_pos b), ds_chain := drop (rb_pos b) (ds_chain s)\<rparr>) x1)"
proof (cases "dict_get (rx_data_streams x) sid")
  case None
  then show thesis using idle by (simp add: r_def drain_step_def)
next
  case st: (Some st)
  show thesis
  proof (cases "ds_chain st = []")
    case True
    then show thesis using st idle by (simp add: r_def drain_step_def)
  next
    case ne: False
    show thesis
    proof (cases "parse_message E (rx_max_object_bytes x) (ds_parser st) (length (ds_chain st)) (stream_buf (ev_prof E) (ds_chain st))")
      case (Inl e)
      then show thesis using st ne fault by (simp add: r_def drain_step_def)
    next
      case p: (Inr mb)
      obtain m b where mb: "mb = (m, b)" by fastforce
      show thesis
      proof (cases "apply_parsed (ev_prof E) now sid m x")
        case (Inl code)
        then show thesis using st ne p mb reject by (simp add: r_def drain_step_def)
      next
        case x1: (Inr x1)
        let ?x2 = "update_stream sid (\<lambda>s. s\<lparr>ds_bytes_total := ds_bytes_total s + int (rb_pos b), ds_chain := drop (rb_pos b) (ds_chain s)\<rparr>) x1"
        show thesis
        proof (cases "dict_get (rx_data_streams ?x2) sid")
          case None
          then show thesis using gone [OF st p [unfolded mb] x1] st ne p mb x1 by (simp add: r_def drain_step_def Let_def)
        next
          case (Some st2)
          then show thesis using message [OF st p [unfolded mb] x1 refl Some ne] st ne p mb x1 by (simp add: r_def drain_step_def Let_def)
        qed
      qed
    qed
  qed
qed

lemma drain_step_accounted:
  assumes "accounted (Some sid) x"
  shows "case drain_step E now wall sid x of Again y \<Rightarrow> accounted (Some sid) y | Finished y \<Rightarrow> accounted (Some sid) y | Failed y \<Rightarrow> accounted (Some sid) y"
proof -
  have u: "accounted (Some sid) (update_stream sid f y)" if "accounted (Some sid) y" "\<And>st. ds_held (f st) = ds_held st" for f y
    using that by (rule accounted_update) simp
  show ?thesis
  proof (rule drain_step_cases [of E now wall sid x])
    fix st m b x1 x2 st2
    assume "apply_parsed (ev_prof E) now sid m x = Inr x1" and x2: "x2 = update_stream sid
      (\<lambda>s. s\<lparr>ds_bytes_total := ds_bytes_total s + int (rb_pos b), ds_chain := drop (rb_pos b) (ds_chain s)\<rparr>) x1"
      and r: "drain_step E now wall sid x = drain_message (ev_prof E) now wall sid (int (rb_pos b)) m st2 x2"
    then have "accounted (Some sid) x2" unfolding x2 by (intro u) (simp_all add: parsed_accounted [OF assms])
    then show ?thesis unfolding r by (rule message_accounted)
  next
    fix x1 m b
    assume "apply_parsed (ev_prof E) now sid m x = Inr x1" and r: "drain_step E now wall sid x = Finished (update_stream sid
      (\<lambda>s. s\<lparr>ds_bytes_total := ds_bytes_total s + int (rb_pos b), ds_chain := drop (rb_pos b) (ds_chain s)\<rparr>) x1)"
    then show ?thesis unfolding r using u parsed_accounted [OF assms] by simp
  qed (use assms fault_accounted [OF assms] reject_accounted [OF assms] in simp_all)
qed

text \<open>An invariant of the turns of the loop is one of the loop.\<close>

lemma drain_loop_keeps:
  assumes step: "\<And>y. P y \<Longrightarrow> case drain_step E now wall sid y of Again z \<Rightarrow> P z | Finished z \<Rightarrow> Q True z | Failed z \<Rightarrow> Q False z"
    and "drain_loop E now wall sid x = Some (ok, x')" "P x"
  shows "Q ok x'"
proof -
  let ?P = "\<lambda>E' now' wall' sid' x r. E' = E \<and> now' = now \<and> wall' = wall \<and> sid' = sid \<longrightarrow> P x \<longrightarrow> Q (fst r) (snd r)"
  have turn: "?P E' now' wall' sid' x r" if IH: "\<And>E' now' wall' sid' x r. dl E' now' wall' sid' x = Some r \<Longrightarrow> ?P E' now' wall' sid' x r"
    and b: "(case drain_step E' now' wall' sid' x of Again x' \<Rightarrow> dl E' now' wall' sid' x' | Finished x' \<Rightarrow> Some (True, x') | Failed x' \<Rightarrow> Some (False, x')) = Some r"
    for dl E' now' wall' sid' x r
    using b step [of x] IH by (auto split: drain_outcome.splits)
  have "?P E now wall sid x (ok, x')"
  proof (rule drain_loop.raw_induct [where P = ?P and xa = "((((E, now), wall), sid), x)" and y = "(ok, x')", unfolded prod.case], goal_cases)
    case (1 dl E' now' wall' sid' x r)
    show ?case by (rule turn [of dl]) (use 1 in blast)+
  qed (rule assms(2))
  then show ?thesis using assms(3) by simp
qed

text \<open>What handling a stream leaves alone outside the streams.\<close>

lemma update_kept [simp]:
  "rx_close_err (update_stream s f x) = rx_close_err x" "rx_track_bound (update_stream s f x) = rx_track_bound x"
  "rx_held_bytes (update_stream s f x) = rx_held_bytes x" "rx_held_limit (update_stream s f x) = rx_held_limit x"
  "rx_subgroup_stream_by_key (update_stream s f x) = rx_subgroup_stream_by_key x"
  "rx_fetch_stream_by_request (update_stream s f x) = rx_fetch_stream_by_request x"
  "rx_malformed_aliases (update_stream s f x) = rx_malformed_aliases x" "rx_log (update_stream s f x) = rx_log x"
  by (simp_all add: update_stream_def split: option.splits)

lemma reject_kept [simp]:
  "rx_close_err (reject_stream prof now s code x) = rx_close_err x" "rx_track_bound (reject_stream prof now s code x) = rx_track_bound x"
  "rx_malformed_aliases (reject_stream prof now s code x) = rx_malformed_aliases x" "rx_held_limit (reject_stream prof now s code x) = rx_held_limit x"
  by (simp_all add: reject_stream_def)

lemma rejects_kept [simp]:
  "rx_close_err (fold (\<lambda>s. reject_stream prof now s code) ss x) = rx_close_err x"
  "rx_track_bound (fold (\<lambda>s. reject_stream prof now s code) ss x) = rx_track_bound x"
  "rx_malformed_aliases (fold (\<lambda>s. reject_stream prof now s code) ss x) = rx_malformed_aliases x"
  "rx_held_limit (fold (\<lambda>s. reject_stream prof now s code) ss x) = rx_held_limit x"
  by (induction ss arbitrary: x) simp_all

lemma malformed_kept [simp]:
  "rx_close_err (malformed_track prof now a s x) = rx_close_err x" "rx_track_bound (malformed_track prof now a s x) = rx_track_bound x"
  "rx_held_limit (malformed_track prof now a s x) = rx_held_limit x"
  by (simp_all add: malformed_track_def Let_def split: option.splits)

lemma bind_kept [simp]:
  "rx_close_err (bind_subgroup_stream s h x) = rx_close_err x" "rx_track_bound (bind_subgroup_stream s h x) = rx_track_bound x"
  "rx_log (bind_subgroup_stream s h x) = rx_log x" "rx_held_limit (bind_subgroup_stream s h x) = rx_held_limit x"
  by (simp_all add: bind_subgroup_stream_def Let_def split: option.splits)

lemma parsed_kept:
  assumes "apply_parsed prof now s m x = Inr x'"
  shows "rx_close_err x' = rx_close_err x" "rx_track_bound x' = rx_track_bound x" "rx_log x' = rx_log x" "rx_held_limit x' = rx_held_limit x"
  using assms
  by (auto simp: apply_parsed_def set_parser_def admit_subgroup_stream_def admit_fetch_stream_def Let_def
      split: parsed.splits sum.splits if_splits option.splits prod.splits)

abbreviation closed :: "rx \<Rightarrow> bool" where
  "closed x \<equiv> rx_close_err x \<noteq> None"

lemma rx_close_closed [simp]: "\<exists>c'. rx_close_err (rx_close c x) = Some c'"
  by (simp add: rx_close_def split: option.splits)

lemma drain_step_closed:
  assumes "closed x"
  shows "case drain_step E now wall sid x of Again y \<Rightarrow> closed y | Finished y \<Rightarrow> closed y | Failed y \<Rightarrow> closed y"
proof -
  have f: "case drain_fault E now sid st e x of Again y \<Rightarrow> closed y | Finished y \<Rightarrow> closed y | Failed y \<Rightarrow> closed y" for st e
    using assms by (cases e) (simp_all add: drain_fault_def)
  have o: "case deliver_stream_object prof now wall sid n h ob st y of Again y \<Rightarrow> closed y | Finished y \<Rightarrow> closed y | Failed y \<Rightarrow> closed y"
    if "closed y" for prof n h ob st y
    by (rule deliver_cases [of prof now wall sid n h ob st y]) (use that in auto)
  have m: "case drain_message prof now wall sid n m st y of Again y \<Rightarrow> closed y | Finished y \<Rightarrow> closed y | Failed y \<Rightarrow> closed y"
    if "closed y" for prof n m st y
    using that o [OF that] by (cases m) (simp_all add: drain_message_def)
  show ?thesis
    by (rule drain_step_cases [of E now wall sid x]) (use assms f m in \<open>auto dest: parsed_kept(1)\<close>)
qed

lemma drain_stream_keeps:
  assumes "\<And>y. P y \<Longrightarrow> case drain_step E now wall sid y of Again z \<Rightarrow> P z | Finished z \<Rightarrow> Q True z | Failed z \<Rightarrow> Q False z"
    and "drain_stream E now wall sid x = Some (ok, x')" "P (update_stream sid (\<lambda>s. s\<lparr>ds_need := 1\<rparr>) x)"
  shows "Q ok x'"
  by (rule drain_loop_keeps [where P = P and Q = Q]) (use assms in \<open>auto simp: drain_stream_def\<close>)

lemma drain_closed: "drain_stream E now wall sid x = Some (ok, x') \<Longrightarrow> closed x \<Longrightarrow> closed x'"
  using drain_stream_keeps [where P = closed and Q = "\<lambda>_. closed", OF drain_step_closed] by simp

lemma drain_failed: "drain_stream E now wall sid x = Some (False, x') \<Longrightarrow> closed x'"
proof -
  have f: "case drain_fault E now sid st e y of Again z \<Rightarrow> True | Finished z \<Rightarrow> True | Failed z \<Rightarrow> closed z" for st e y
    by (cases e) (simp_all add: drain_fault_def)
  have o: "case deliver_stream_object prof now wall sid n h ob st y of Again z \<Rightarrow> True | Finished z \<Rightarrow> True | Failed z \<Rightarrow> closed z" for prof n h ob st y
    by (rule deliver_cases [of prof now wall sid n h ob st y]) auto
  have m: "case drain_message prof now wall sid n m st y of Again z \<Rightarrow> True | Finished z \<Rightarrow> True | Failed z \<Rightarrow> closed z" for prof n m st y
    using o by (cases m) (simp_all add: drain_message_def)
  have "case drain_step E now wall sid y of Again z \<Rightarrow> True | Finished z \<Rightarrow> True | Failed z \<Rightarrow> closed z" for y
    by (rule drain_step_cases [of E now wall sid y]) (use f m in auto)
  then have step: "case drain_step E now wall sid y of Again z \<Rightarrow> True | Finished z \<Rightarrow> True \<or> closed z | Failed z \<Rightarrow> False \<or> closed z" for y
    by (simp only: simp_thms)
  show "drain_stream E now wall sid x = Some (False, x') \<Longrightarrow> closed x'"
    using drain_loop_keeps [where P = "\<lambda>_. True" and Q = "\<lambda>ok z. ok \<or> closed z", OF step] unfolding drain_stream_def by blast
qed

lemma drain_accounted:
  assumes "drain_stream E now wall sid x = Some (ok, x')" "accounted (Some sid) x"
  shows "accounted (Some sid) x'"
  using drain_stream_keeps [where P = "accounted (Some sid)" and Q = "\<lambda>_. accounted (Some sid)", OF drain_step_accounted assms(1)]
    accounted_update [OF assms(2), of "\<lambda>s. s\<lparr>ds_need := 1\<rparr>" sid] by simp

section \<open>The count over a run\<close>

lemma open_accounted: "accounted None x \<Longrightarrow> accounted (Some sid) (open_stream now sid x)"
proof -
  assume a: "accounted None x"
  then have ok: "dict_ok (rx_data_streams x)" by (simp add: accounted_def)
  show ?thesis using a sum_dict_put [OF ok, of ds_held sid "new_stream now"] pydict.invar_put [OF ok]
    by (auto simp: accounted_def open_stream_def set_dict_put [OF ok] new_stream_def split: option.splits)
qed

lemma drain_step_limit:
  "case drain_step E now wall sid x of Again y \<Rightarrow> rx_held_limit y = rx_held_limit x | Finished y \<Rightarrow> rx_held_limit y = rx_held_limit x
    | Failed y \<Rightarrow> rx_held_limit y = rx_held_limit x"
proof -
  have f: "case drain_fault E now sid st e x of Again y \<Rightarrow> rx_held_limit y = rx_held_limit x | Finished y \<Rightarrow> rx_held_limit y = rx_held_limit x
    | Failed y \<Rightarrow> rx_held_limit y = rx_held_limit x" for st e
    by (cases e) (simp_all add: drain_fault_def)
  have o: "case deliver_stream_object prof now wall sid n h ob st y of Again z \<Rightarrow> rx_held_limit z = rx_held_limit y
    | Finished z \<Rightarrow> rx_held_limit z = rx_held_limit y | Failed z \<Rightarrow> rx_held_limit z = rx_held_limit y" for prof n h ob st y
    by (rule deliver_cases [of prof now wall sid n h ob st y]) auto
  have m: "case drain_message prof now wall sid n m st y of Again z \<Rightarrow> rx_held_limit z = rx_held_limit y
    | Finished z \<Rightarrow> rx_held_limit z = rx_held_limit y | Failed z \<Rightarrow> rx_held_limit z = rx_held_limit y" for prof n m st y
    using o by (cases m) (simp_all add: drain_message_def)
  show ?thesis
  proof (rule drain_step_cases [of E now wall sid x])
    fix st mm b x1 x2 st2
    assume "apply_parsed (ev_prof E) now sid mm x = Inr x1" and x2: "x2 = update_stream sid
      (\<lambda>s. s\<lparr>ds_bytes_total := ds_bytes_total s + int (rb_pos b), ds_chain := drop (rb_pos b) (ds_chain s)\<rparr>) x1"
      and r: "drain_step E now wall sid x = drain_message (ev_prof E) now wall sid (int (rb_pos b)) mm st2 x2"
    then have "rx_held_limit x2 = rx_held_limit x" using parsed_kept(4) by simp
    then show ?thesis unfolding r using m by metis
  qed (use f in \<open>auto dest: parsed_kept(4)\<close>)
qed

lemma drain_limit: "drain_stream E now wall sid x = Some (ok, x') \<Longrightarrow> rx_held_limit x' = rx_held_limit x"
proof (rule drain_stream_keeps [where P = "\<lambda>y. rx_held_limit y = rx_held_limit x" and Q = "\<lambda>_ y. rx_held_limit y = rx_held_limit x"])
  show "rx_held_limit y = rx_held_limit x \<Longrightarrow> case drain_step E now wall sid y of Again z \<Rightarrow> rx_held_limit z = rx_held_limit x
    | Finished z \<Rightarrow> rx_held_limit z = rx_held_limit x | Failed z \<Rightarrow> rx_held_limit z = rx_held_limit x" for y
    using drain_step_limit [where E = E and now = now and wall = wall and sid = sid and x = y] by (cases "drain_step E now wall sid y") simp_all
qed simp_all

lemma open_closed [simp]: "rx_close_err (open_stream now sid x) = rx_close_err x" "rx_track_bound (open_stream now sid x) = rx_track_bound x"
    "rx_log (open_stream now sid x) = rx_log x" "rx_held_limit (open_stream now sid x) = rx_held_limit x"
  by (simp_all add: open_stream_def split: option.splits)

lemma count_held_accounted:
  assumes "accounted (Some sid) x" "count_held sid x = (ok, x')"
  shows "ok \<and> accounted None x' \<or> closed x'"
proof (cases "dict_get (rx_data_streams x) sid")
  case None
  then have "(sid, st) \<notin> set (rx_data_streams x)" for st by (force simp: dict_get_def map_of_eq_None_iff)
  then show ?thesis using assms None by (auto simp: count_held_def accounted_def)
next
  case (Some st)
  have ok: "dict_ok (rx_data_streams x)" using assms(1) by (simp add: accounted_def)
  have u: "(s, st') \<in> set (rx_data_streams x) \<Longrightarrow> s = sid \<Longrightarrow> st' = st" for s st'
    using Some ok by (auto simp: dict_get_def dict_ok_def)
  show ?thesis
  proof (cases "int (length (ds_chain st)) = ds_held st")
    case True
    then show ?thesis using assms Some u by (auto simp: count_held_def Let_def accounted_def)
  next
    case False
    then show ?thesis using assms Some sum_dict_put [OF ok, of ds_held sid] pydict.invar_put [OF ok]
      by (auto simp: count_held_def Let_def accounted_def update_stream_def set_dict_put [OF ok] split: if_splits)
  qed
qed

lemma count_held_closed: "count_held sid x = (ok, x') \<Longrightarrow> closed x \<Longrightarrow> closed x'"
  by (auto simp: count_held_def Let_def split: option.splits if_splits)

lemma end_accounted: "accounted None x \<Longrightarrow> accounted None (end_stream_data prof now sid x)"
  by (auto simp: end_stream_data_def cleanup_accounted split: option.splits)

lemma end_closed: "closed x \<Longrightarrow> closed (end_stream_data prof now sid x)"
  by (auto simp: end_stream_data_def split: option.splits)

lemma on_stream_data_accounted:
  assumes "on_stream_data E now wall sid data fin x = Some x'" "accounted None x"
  shows "accounted None x' \<or> closed x'"
proof (cases "dict_get (rx_stream_torn_down x) sid = None")
  case True
  let ?x1 = "update_stream sid (\<lambda>s. s\<lparr>ds_chain := ds_chain s @ data\<rparr>) (open_stream now sid x)"
  let ?ready = "case dict_get (rx_data_streams ?x1) sid of None \<Rightarrow> False | Some st \<Rightarrow> ds_need st \<le> int (length (ds_chain st))"
  have x1: "accounted (Some sid) ?x1" by (rule accounted_update [OF open_accounted [OF assms(2)]]) simp_all
  obtain ok x2 where d: "(if ?ready then drain_stream E now wall sid ?x1 else Some (True, ?x1)) = Some (ok, x2)"
    and r: "(if \<not> ok then Some x2 else case count_held sid x2 of (False, x3) \<Rightarrow> Some x3
        | (True, x3) \<Rightarrow> Some (if fin then end_stream_data (ev_prof E) now sid x3 else x3)) = Some x'"
    using assms(1) True unfolding on_stream_data_def Let_def bind_eq_Some_conv by (auto simp: bind_eq_Some_conv)
  have x2: "accounted (Some sid) x2" using d x1 drain_accounted by (auto split: if_splits)
  show ?thesis
  proof (cases ok)
    case True
    obtain c x3 where c: "count_held sid x2 = (c, x3)" by fastforce
    then show ?thesis using r True count_held_accounted [OF x2 c] end_accounted [of x3] end_closed [of x3] by (cases c) (auto split: if_splits)
  next
    case False
    then show ?thesis using d r drain_failed by (auto split: if_splits)
  qed
qed (use assms in \<open>simp add: on_stream_data_def\<close>)

text \<open>The shape of a call of \<^verbatim>\<open>_on_stream_data\<close> on a stream that was not torn down.\<close>

lemma on_stream_data_cases:
  fixes x
  assumes "on_stream_data E now wall sid data fin x = Some x'"
  defines "x1 \<equiv> update_stream sid (\<lambda>s. s\<lparr>ds_chain := ds_chain s @ data\<rparr>) (open_stream now sid x)"
  obtains "x' = x"
  | ok x2 c x3 where "drain_stream E now wall sid x1 = Some (ok, x2) \<or> ok \<and> x2 = x1"
      "if \<not> ok then x' = x2 else count_held sid x2 = (c, x3) \<and> x' = (if c \<and> fin then end_stream_data (ev_prof E) now sid x3 else x3)"
proof (cases "dict_get (rx_stream_torn_down x) sid = None")
  case True
  let ?ready = "case dict_get (rx_data_streams x1) sid of None \<Rightarrow> False | Some st \<Rightarrow> ds_need st \<le> int (length (ds_chain st))"
  obtain ok x2 where d: "(if ?ready then drain_stream E now wall sid x1 else Some (True, x1)) = Some (ok, x2)"
    and r: "(if \<not> ok then Some x2 else case count_held sid x2 of (False, x3) \<Rightarrow> Some x3
        | (True, x3) \<Rightarrow> Some (if fin then end_stream_data (ev_prof E) now sid x3 else x3)) = Some x'"
    using assms(1) True unfolding on_stream_data_def Let_def bind_eq_Some_conv x1_def by (auto simp: bind_eq_Some_conv)
  obtain c x3 where c: "count_held sid x2 = (c, x3)" by fastforce
  show thesis by (rule that(2) [of ok x2 c x3]) (use d r c in \<open>auto split: if_splits bool.splits\<close>)
qed (use assms that in \<open>simp add: on_stream_data_def\<close>)

lemma count_held_limit: "count_held sid x = (c, x') \<Longrightarrow> rx_held_limit x' = rx_held_limit x"
  by (auto simp: count_held_def Let_def split: option.splits if_splits)

lemma end_limit [simp]: "rx_held_limit (end_stream_data prof now sid x) = rx_held_limit x"
  by (simp add: end_stream_data_def split: option.splits)

lemma on_stream_data_kept:
  assumes "on_stream_data E now wall sid data fin x = Some x'"
  shows "rx_held_limit x' = rx_held_limit x" "closed x \<Longrightarrow> closed x'"
proof -
  have "rx_held_limit x' = rx_held_limit x \<and> (closed x \<longrightarrow> closed x')" using assms
  proof (rule on_stream_data_cases)
    fix ok x2 c x3
    let ?x1 = "update_stream sid (\<lambda>s. s\<lparr>ds_chain := ds_chain s @ data\<rparr>) (open_stream now sid x)"
    assume d: "drain_stream E now wall sid ?x1 = Some (ok, x2) \<or> ok \<and> x2 = ?x1"
      and r: "if \<not> ok then x' = x2 else count_held sid x2 = (c, x3) \<and> x' = (if c \<and> fin then end_stream_data (ev_prof E) now sid x3 else x3)"
    have "rx_held_limit x2 = rx_held_limit x" "closed x \<longrightarrow> closed x2" using d drain_limit drain_closed by fastforce+
    then show ?thesis using r count_held_limit [of sid x2 c x3] count_held_closed [of sid x2 c x3] end_closed [of x3] by (auto split: if_splits)
  qed simp
  then show "rx_held_limit x' = rx_held_limit x" "closed x \<Longrightarrow> closed x'" by blast+
qed

lemma datagram_accounted: "accounted sid x \<Longrightarrow> accounted sid (deliver_datagram prof now wall n d x)"
  by (simp add: deliver_datagram_def Let_def malformed_accounted)

lemma datagram_kept: "rx_held_limit (deliver_datagram prof now wall n d x) = rx_held_limit x" "rx_close_err (deliver_datagram prof now wall n d x) = rx_close_err x"
  by (simp_all add: deliver_datagram_def Let_def)

text \<open>A datagram is dropped, closes the session, or is delivered.\<close>

definition datagram_taken :: "rx_env \<Rightarrow> int \<Rightarrow> int \<Rightarrow> rx \<Rightarrow> rx result \<Rightarrow> bool" where
  "datagram_taken E now wall x r \<longleftrightarrow> (\<exists>e. r = Inl e) \<or> r = Inr x \<or> r = Inr (rx_close CLOSE_PROTOCOL_VIOLATION x)
    \<or> (\<exists>n d. r = Inr (deliver_datagram (ev_prof E) now wall n d x))"

lemma datagram_takenI:
  "datagram_taken E now wall x (Inl e)" "datagram_taken E now wall x (Inr x)" "datagram_taken E now wall x (Inr (rx_close CLOSE_PROTOCOL_VIOLATION x))"
  "datagram_taken E now wall x (Inr (deliver_datagram (ev_prof E) now wall n d x))"
  unfolding datagram_taken_def by blast+

lemma taken_if: "datagram_taken E now wall x r \<Longrightarrow> datagram_taken E now wall x s \<Longrightarrow> datagram_taken E now wall x (if b then r else s)"
  by simp

lemma taken_sum:
  "(\<And>e. datagram_taken E now wall x (f e)) \<Longrightarrow> (\<And>d b. datagram_taken E now wall x (g d b)) \<Longrightarrow>
    datagram_taken E now wall x (case r of Inl e \<Rightarrow> f e | Inr p \<Rightarrow> case p of (d, b) \<Rightarrow> g d b)"
  by (auto split: sum.split)

lemma handle_dgram_taken: "datagram_taken E now wall x (handle_dgram E now wall bs x)"
  unfolding handle_dgram_def handle_dgram_d18_def Let_def by (intro taken_if taken_sum datagram_takenI)

lemma on_datagram_cases:
  obtains "on_datagram E now wall bs x = x" | "on_datagram E now wall bs x = rx_close CLOSE_PROTOCOL_VIOLATION x"
  | n d where "on_datagram E now wall bs x = deliver_datagram (ev_prof E) now wall n d x"
  using handle_dgram_taken [of E now wall x bs] unfolding datagram_taken_def on_datagram_def by (auto)

lemma reaped_keeps:
  assumes "P x" "\<And>y s c. P y \<Longrightarrow> P (reject_stream prof now s c y)"
  shows "P (reap_streams prof now x)"
proof -
  have "P y \<Longrightarrow> P (reap_stream prof now s y)" for s y
    by (auto simp: reap_stream_def assms(2) split: prod.splits option.splits stream_parser.splits)
  then have "P y \<Longrightarrow> P (fold (reap_stream prof now) ss y)" for ss y by (induction ss arbitrary: y) auto
  then show ?thesis using assms(1) by (simp add: reap_streams_def)
qed

lemma tear_downs_kept:
  fixes now
  defines "f \<equiv> \<lambda>sid y. mark_stream_torn_down now sid (rx_log_add (Stop_Sending sid RESET_CANCELLED) y)"
  shows "accounted s (fold f ss x) = accounted s x" "rx_held_limit (fold f ss x) = rx_held_limit x" "rx_close_err (fold f ss x) = rx_close_err x"
  by (induction ss arbitrary: x) (simp_all add: f_def)

lemma release_kept:
  "accounted s (release_finished_track now a rid x) = accounted s x" "rx_held_limit (release_finished_track now a rid x) = rx_held_limit x"
  "rx_close_err (release_finished_track now a rid x) = rx_close_err x"
proof -
  have "accounted s (y\<lparr>rx_track_aliases := a1, rx_object_handlers := a2, rx_timing_watch := a3, rx_stream_end_handlers := a4,
      rx_track_default_priority := a5, rx_early_stream_ends := a6, rx_early := a7\<rparr>) = accounted s y" for y a1 a2 a3 a4 a5 a6 a7
    by (simp add: accounted_def)
  then show "accounted s (release_finished_track now a rid x) = accounted s x" by (simp add: release_finished_track_def Let_def tear_downs_kept)
qed (simp_all add: release_finished_track_def Let_def tear_downs_kept)

lemma rx_step_accounted:
  assumes "rx_step E e x = Some x'" "accounted None x"
  shows "accounted None x' \<or> closed x'"
proof (cases e)
  case (Stream_Data now wall sid data fin)
  then show ?thesis using assms on_stream_data_accounted by (simp add: rx_step_def)
next
  case (Datagram now wall bs)
  then have "x' = on_datagram E now wall bs x" using assms by (simp add: rx_step_def)
  then show ?thesis using assms(2) by (cases rule: on_datagram_cases [of E now wall bs x]) (auto simp: datagram_accounted)
next
  case (Reaper now)
  then show ?thesis using assms reaped_keeps [of "accounted None" x "ev_prof E" now] by (auto simp: rx_step_def reject_accounted)
next
  case (Release_Track now a rid)
  then show ?thesis using assms by (auto simp: rx_step_def release_kept)
qed (use assms in \<open>auto simp: rx_step_def cleanup_accounted\<close>, auto simp: accounted_def subscribe_ok_alias_def resolve_unbound_alias_def
    bind_object_handler_def unregister_object_handler_def register_stream_end_handler_def Let_def split: prod.splits)

lemma rx_step_kept:
  assumes "rx_step E e x = Some x'"
  shows "rx_held_limit x' = rx_held_limit x \<and> (closed x \<longrightarrow> closed x')"
proof (cases e)
  case (Stream_Data now wall sid data fin)
  then show ?thesis using assms on_stream_data_kept by (simp add: rx_step_def)
next
  case (Datagram now wall bs)
  then have "x' = on_datagram E now wall bs x" using assms by (simp add: rx_step_def)
  then show ?thesis by (cases rule: on_datagram_cases [of E now wall bs x]) (auto simp: datagram_kept)
next
  case (Reaper now)
  then show ?thesis using assms reaped_keeps [of "\<lambda>y. rx_held_limit y = rx_held_limit x \<and> (closed x \<longrightarrow> closed y)" x "ev_prof E" now]
    by (auto simp: rx_step_def)
next
  case (Release_Track now a rid)
  then show ?thesis using assms by (auto simp: rx_step_def release_kept)
qed (use assms in \<open>auto simp: rx_step_def subscribe_ok_alias_def resolve_unbound_alias_def bind_object_handler_def unregister_object_handler_def
    register_stream_end_handler_def Let_def split: prod.splits\<close>)

lemma run_closed: "rx_run E evs x = Some x' \<Longrightarrow> closed x \<Longrightarrow> closed x'"
proof (induction evs arbitrary: x)
  case (Cons e evs)
  then obtain y where "rx_step E e x = Some y" "rx_run E evs y = Some x'" by (auto simp: bind_eq_Some_conv)
  then show ?case using Cons.IH [of y] rx_step_kept Cons.prems(2) by blast
qed simp

lemma run_accounted:
  "rx_run E evs x = Some x' \<Longrightarrow> accounted None x \<Longrightarrow> \<not> closed x' \<Longrightarrow> accounted None x' \<and> rx_held_limit x' = rx_held_limit x"
proof (induction evs arbitrary: x)
  case (Cons e evs)
  then obtain y where y: "rx_step E e x = Some y" "rx_run E evs y = Some x'" by (auto simp: bind_eq_Some_conv)
  have "\<not> closed y" using run_closed [OF y(2)] Cons.prems(3) by blast
  then have "accounted None y" using rx_step_accounted [OF y(1) Cons.prems(2)] by blast
  then show ?case using Cons.IH [OF y(2)] Cons.prems(3) rx_step_kept [OF y(1)] by simp
qed simp

text \<open>
  C6: However data streams, datagrams, resets, timers and registrations interleave, a session that was not closed
  counts exactly the unparsed bytes of its open data streams, and they stay within four times the largest object it takes.
\<close>

theorem received_bytes_bounded:
  assumes "rx_run E evs (new_rx max_object on_object) = Some x" "0 \<le> max_object" "rx_close_err x = None"
  shows "rx_held_bytes x = (\<Sum>(s, st) \<leftarrow> rx_data_streams x. int (length (ds_chain st))) \<and> rx_held_bytes x \<le> 4 * max_object"
proof -
  have "accounted None (new_rx max_object on_object)" using assms(2) by (simp add: accounted_def new_rx_def dict_ok_def)
  then have a: "accounted None x" and l: "rx_held_limit x = 4 * max_object"
    using run_accounted [OF assms(1)] assms(3) by (simp_all add: new_rx_def)
  have "map (ds_held \<circ> snd) (rx_data_streams x) = map (\<lambda>(s, st). int (length (ds_chain st))) (rx_data_streams x)"
    using a by (auto simp: accounted_def)
  moreover have "rx_held_bytes x = sum_list (map (ds_held \<circ> snd) (rx_data_streams x))" "rx_held_bytes x \<le> rx_held_limit x"
    using a unfolding accounted_def by blast+
  ultimately show ?thesis using l by (simp only: simp_thms)
qed

theorem received_bytes_bounded_witness:
  "\<exists>x. rx_run d18_env [Stream_Data 0 0 3 [0x50, 5, 9, 128, 0, 1, 0xAA, 2] False] (new_rx 100 None) = Some x
    \<and> rx_held_bytes x = 1 \<and> rx_held_bytes x = (\<Sum>(s, st) \<leftarrow> rx_data_streams x. int (length (ds_chain st))) \<and> rx_held_bytes x \<le> 4 * 100"
proof -
  let ?r = "rx_run d18_env [Stream_Data 0 0 3 [0x50, 5, 9, 128, 0, 1, 0xAA, 2] False] (new_rx 100 None)"
  have "map_option (\<lambda>x. (rx_held_bytes x, rx_close_err x)) ?r = Some (1, None)" by code_simp
  then obtain x where x: "?r = Some x" "rx_held_bytes x = 1" "rx_close_err x = None" by auto
  show ?thesis using x(1,2) received_bytes_bounded [OF x(1) _ x(3)] by (intro exI [of _ x]) (simp del: rx_run.simps)
qed

end
