(* ===== verification/Drain_Return.thy ===== *)
theory Drain_Return
  imports Data_Laws
begin

text \<open>
  Every call returns: each turn of the drain loop that goes on has consumed bytes of its stream, so the loop ends
  after at most as many turns as there are bytes, and with it every event of a session.
\<close>

section \<open>Readers that consume\<close>

definition consumes :: "'a reader \<Rightarrow> bool" where
  "consumes r \<longleftrightarrow> (\<forall>b v b'. r b = Inr (v, b') \<longrightarrow> rb_pos b < rb_pos b')"

lemma consumes_bind: "consumes r \<Longrightarrow> (\<And>a. forward (k a)) \<Longrightarrow> consumes (rbind r k)"
  unfolding consumes_def rbind_eq_Inr using forwardD by (metis (no_types, lifting) order_less_le_trans)

lemma consumes_if: "consumes r \<Longrightarrow> consumes s \<Longrightarrow> consumes (if c then r else s)"
  by simp

lemma consumes_pull:
  "consumes (pull_with dec)" "consumes (pull_vint C)" "consumes (pull_uint_var C)" "consumes (pull_uint_vi64 C)" "consumes (pull_as C vi)"
proof -
  show p: "consumes (pull_with dec)" for dec unfolding consumes_def by (auto simp: adv_def dest!: pull_with_advances)
  show "consumes (pull_vint C)" unfolding consumes_def by (auto simp: adv_def dest!: pull_vint_advances)
  show v: "consumes (pull_uint_var C)" "consumes (pull_uint_vi64 C)" by (simp_all add: p pull_uint_var_def pull_uint_vi64_def)
  then show "consumes (pull_as C vi)" by (simp add: pull_as_def)
qed

lemma forward_pull_as [fw]: "forward (pull_as C vi)"
  by (simp add: pull_as_def fw)

lemma forward_option [fw]: "forward r \<Longrightarrow> (\<And>a. forward (f a)) \<Longrightarrow> forward (case m of None \<Rightarrow> r | Some a \<Rightarrow> f a)"
  by (simp split: option.split)

lemma forward_prod [fw]: "(\<And>a b. forward (f a b)) \<Longrightarrow> forward (case p of (a, b) \<Rightarrow> f a b)"
  by (simp split: prod.split)

lemma loop_forward: "extensions_loop C tol True ln delta e prev acc b = Inr (v, b') \<Longrightarrow>
    rb_data b' = rb_data b \<and> rb_chain b' = rb_chain b \<and> rb_pos b \<le> rb_pos b' \<and> (rb_pos b \<le> capacity b \<longrightarrow> rb_pos b' \<le> capacity b)"
proof (induction C tol True ln delta e prev acc b rule: extensions_loop.induct)
  case (1 C tol ln delta e prev acc b)
  show ?case
  proof (cases "rb_pos b < e")
    case True
    then obtain k w b1 where k: "pull_kvp C True ln delta prev e b = Inr ((k, w), b1)" and n: "\<not> e < rb_pos b1"
      and l: "extensions_loop C tol True ln delta e k (kvps_add acc k w) b1 = Inr (v, b')"
      using 1(2) by (subst (asm) extensions_loop.simps) (auto split: sum.splits if_splits)
    show ?thesis using 1(1) [OF True k refl refl n l] forwardD [OF forward_pull_kvp k] by (simp add: capacity_def)
  next
    case False
    then show ?thesis using 1(2) by (subst (asm) extensions_loop.simps) simp
  qed
qed

lemma forward_extensions [fw]: "forward (extensions_decode C tol True e delta ln)"
proof -
  have "forward (extensions_loop C tol True ln delta n 0 acc)" for n acc unfolding forward_def using loop_forward by blast
  then show ?thesis unfolding extensions_decode_def by (auto intro!: fw)
qed

lemma slow_forward [fw]: "forward (slow_object C tol len ep vi kd mx)"
  unfolding slow_object_def Let_def by (auto intro!: fw)

lemma slow_consumes: "consumes (slow_object C tol len ep vi kd mx)"
  unfolding slow_object_def Let_def by (rule consumes_bind [OF consumes_pull(5)]) (auto intro!: fw)

text \<open>What is asked of the fused parser of the transport: an object it returns took bytes from the chain.\<close>

definition fused_consumes :: "fused_parser option \<Rightarrow> bool" where
  "fused_consumes fused \<longleftrightarrow> (\<forall>fp ep lim kd b d e s p b'. fused = Some fp \<longrightarrow> fp ep lim kd b = FusedOk d e s p b' \<longrightarrow> rb_pos b < rb_pos b')"

lemma rlift_rret: "rbind (rlift r) (\<lambda>st. rret (g st)) b = Inr (v, b') \<Longrightarrow> b' = b"
  by (auto simp: rbind_eq_Inr rlift_def rret_def split: sum.splits)

lemma object_consumes: "fused_consumes fused \<Longrightarrow> consumes (oh_deserialize_into C tol fused len ep prev vi kd mx)"
proof -
  assume f: "fused_consumes fused"
  have "consumes (fused_object fp ep kd mx)" if "fused = Some fp" for fp
    using f that by (fastforce simp: fused_consumes_def consumes_def fused_object_def split: fused_result.splits if_splits sum.splits)
  then have c: "consumes (case fused of Some fp \<Rightarrow> rcatch (\<lambda>e. e = AttributeError) (fused_object fp ep kd mx) (\<lambda>_. slow_object C tol len ep vi kd mx)
      | None \<Rightarrow> slow_object C tol len ep vi kd mx)"
    using slow_consumes [of C tol len ep vi kd mx] by (auto simp: consumes_def rcatch_def split: option.splits sum.splits if_splits)
  show ?thesis unfolding oh_deserialize_into_def by (rule consumes_bind [OF c]) (auto intro!: fw split: prod.split)
qed

lemma fetch_object_consumes: "consumes (fo_deserialize C tol prior prof go mx)"
proof -
  have "consumes (fo_deserialize_d18 C tol prior go prof mx)" unfolding fo_deserialize_d18_def
    by (rule consumes_bind [OF consumes_pull(2)])
      (auto simp: fo_group_d18_def fo_pull_subgroup_d18_def fo_object_d18_def fo_priority_d18_def fo_payload_d18_def Let_def intro!: fw)
  moreover have "consumes (fo_deserialize_d16 C tol prior mx)" unfolding fo_deserialize_d16_def Let_def
    by (rule consumes_bind [OF consumes_pull(3)]) (auto simp: fo_pull_subgroup_d16_def Let_def intro!: fw)
  moreover have "consumes (fo_deserialize_d14 C tol mx)" unfolding fo_deserialize_d14_def Let_def
    by (rule consumes_bind [OF consumes_pull(3)]) (auto intro!: fw)
  ultimately show ?thesis by (simp add: fo_deserialize_def)
qed

lemma parse_consumes: "fused_consumes (ev_fused E) \<Longrightarrow> consumes (parse_message E mx p len)"
proof -
  assume f: "fused_consumes (ev_fused E)"
  have h: "consumes (parse_header (ev_codec E) (ev_prof E))" unfolding parse_header_def
    by (rule consumes_bind [OF consumes_pull(2)]) (auto simp: sh_deserialize_def fh_deserialize_def Let_def intro!: fw)
  have o: "consumes (rbind (recv_object (ev_codec E) (ev_tol E) (ev_fused E) (int len) mx h) (\<lambda>(ob, h'). rret (Parsed_Object ob h h')))" for h
    unfolding recv_object_def by (intro consumes_bind object_consumes f) (auto intro!: fw)
  have t: "consumes (rbind (recv_fetch_object (ev_codec E) (ev_tol E) (ev_prof E) (fp_group_order q) mx (fp_prior_obj q)) (\<lambda>ob. rret (Parsed_Fetch_Object q ob)))" for q
    unfolding recv_fetch_object_def by (intro consumes_bind fetch_object_consumes) (auto intro!: fw)
  show ?thesis unfolding parse_message_def using h o t by (simp split: option.split stream_parser.split)
qed

section \<open>The loop ends\<close>

definition unparsed :: "int \<Rightarrow> rx \<Rightarrow> nat" where
  "unparsed sid x = (case dict_get (rx_data_streams x) sid of None \<Rightarrow> 0 | Some st \<Rightarrow> length (ds_chain st))"

lemma unparsed_update: "(\<And>st. ds_chain (f st) = ds_chain st) \<Longrightarrow> unparsed sid (update_stream s f x) = unparsed sid x"
  by (auto simp: unparsed_def update_stream_def pydict.get_put split: option.splits)

lemma unparsed_kept [simp]:
  "unparsed sid (hand_over now a dl x) = unparsed sid x" "unparsed sid (deliver_fetch_object rid ob x) = unparsed sid x"
  "unparsed sid (x\<lparr>rx_subgroup_stream_by_key := k\<rparr>) = unparsed sid x" "unparsed sid (x\<lparr>rx_unbound_aliases := u\<rparr>) = unparsed sid x"
  "unparsed sid (x\<lparr>rx_fetch_stream_by_request := w\<rparr>) = unparsed sid x"
  by (simp_all add: unparsed_def)

lemma bind_unparsed: "unparsed sid (bind_subgroup_stream s h x) = unparsed sid x"
  by (simp add: bind_subgroup_stream_def Let_def unparsed_update split: option.split)

lemma parsed_unparsed: "apply_parsed prof now s m x = Inr x' \<Longrightarrow> unparsed sid x' = unparsed sid x"
  by (auto simp: apply_parsed_def set_parser_def admit_subgroup_stream_def admit_fetch_stream_def Let_def unparsed_update bind_unparsed
      split: parsed.splits sum.splits if_splits option.splits prod.splits)

lemma message_unparsed: "drain_message prof now wall sid n m st x = Again y \<Longrightarrow> unparsed sid y = unparsed sid x"
proof (cases m)
  case (Parsed_Object ob h h')
  assume a: "drain_message prof now wall sid n m st x = Again y"
  have "deliver_stream_object prof now wall sid n h' ob st x = Again y" using a Parsed_Object by (simp add: drain_message_def)
  then show ?thesis
    by (cases rule: deliver_cases [of prof now wall sid n h' ob st x]) (auto simp: unparsed_update split: if_splits)
qed (auto simp: drain_message_def unparsed_update split: if_splits)

text \<open>A turn that goes on has consumed.\<close>

lemma turn_consumes:
  assumes "fused_consumes (ev_fused E)" "drain_step E now wall sid x = Again y"
  shows "unparsed sid y < unparsed sid x"
proof (cases rule: drain_step_cases [of E now wall sid x])
  case (fault st e)
  then show ?thesis using assms(2) by (cases e) (simp_all add: drain_fault_def)
next
  case (message st m b x1 x2 st2)
  have "0 < rb_pos b" using parse_consumes [OF assms(1)] message(2) unfolding consumes_def stream_buf_def by fastforce
  moreover have "unparsed sid x1 = length (ds_chain st)" using parsed_unparsed [OF message(3)] message(1) by (simp add: unparsed_def)
  moreover have "unparsed sid x2 = unparsed sid x1 - rb_pos b"
    using message(4) by (simp add: unparsed_def update_stream_def pydict.get_put split: option.splits)
  ultimately show ?thesis using message_unparsed [of "ev_prof E" now wall sid _ m st2 x2 y] message(1,6,7) assms(2) by (simp add: unparsed_def)
qed (use assms(2) in simp_all)

lemma drain_loop_returns: "fused_consumes (ev_fused E) \<Longrightarrow> \<exists>r. drain_loop E now wall sid x = Some r"
proof (induction "unparsed sid x" arbitrary: x rule: less_induct)
  case less
  show ?case
  proof (cases "drain_step E now wall sid x")
    case (Again y)
    then show ?thesis using less turn_consumes [OF less.prems Again] by (simp add: drain_loop.simps [of E now wall sid x])
  qed (use drain_loop.simps [of E now wall sid x] in \<open>auto intro: exI [of _ True] exI [of _ False]\<close>)
qed

lemma drain_stream_returns: "fused_consumes (ev_fused E) \<Longrightarrow> \<exists>ok x'. drain_stream E now wall sid x = Some (ok, x')"
  using drain_loop_returns unfolding drain_stream_def by fastforce

lemma on_stream_data_returns: "fused_consumes (ev_fused E) \<Longrightarrow> \<exists>x'. on_stream_data E now wall sid data fin x = Some x'"
proof -
  assume f: "fused_consumes (ev_fused E)"
  let ?x1 = "update_stream sid (\<lambda>s. s\<lparr>ds_chain := ds_chain s @ data\<rparr>) (open_stream now sid x)"
  obtain ok x2 where "drain_stream E now wall sid ?x1 = Some (ok, x2)" using drain_stream_returns [OF f] by blast
  then show ?thesis by (simp add: on_stream_data_def Let_def split: prod.split bool.split)
qed

text \<open>
  C1: The receiving side never hangs: whatever the peer sends, in whatever order the bytes of its streams, datagrams and
  resets arrive, every call returns, provided only that an object the fused parser returns consumed bytes.
\<close>

theorem session_run_returns:
  assumes "fused_consumes (ev_fused E)"
  shows "\<exists>x'. rx_run E evs x = Some x'"
proof (induction evs arbitrary: x)
  case (Cons e evs)
  obtain y where "rx_step E e x = Some y" using on_stream_data_returns [OF assms] by (cases e) (fastforce simp: rx_step_def)+
  then show ?case using Cons by simp
qed simp

theorem session_run_returns_witness:
  "let fp = (\<lambda>ep lim kd b. if rb_pos b < capacity b then FusedOk 0 None 0 [] (adv b 1) else FusedUnderflow 1 0) in
    fused_consumes (Some fp)
    \<and> (\<exists>x'. rx_run (d18_env\<lparr>ev_fused := Some fp\<rparr>) [Stream_Data 0 0 3 [0x50, 5, 9, 128, 0, 1, 2] True] (new_rx 100 None) = Some x')"
proof -
  let ?fp = "\<lambda>ep lim kd b. if rb_pos b < capacity b then FusedOk 0 None 0 [] (adv b 1) else FusedUnderflow 1 0"
  have "fused_consumes (Some ?fp)" by (auto simp: fused_consumes_def adv_def split: if_splits)
  then show ?thesis using session_run_returns [of "d18_env\<lparr>ev_fused := Some ?fp\<rparr>"] unfolding Let_def by (simp del: rx_run.simps)
qed

end
