(* ===== verification/Track_Ends.thy ===== *)
theory Track_Ends
  imports Data_Laws
begin

text \<open>
  What an end of a track and a malformed track rule out, over every later event of the session.
\<close>

section \<open>Past the end of a track\<close>









lemma group_bound_log [simp]: "rx_log (set_group_bound a g b x) = rx_log x"
  by (simp add: set_group_bound_def Let_def)

lemma torn_down_log [simp]: "rx_log (mark_stream_torn_down now s x) = rx_log x"
  by (simp add: mark_stream_torn_down_def Let_def)

lemma early_end_log [simp]: "rx_log (note_early_stream_end now a gi si cl cd x) = rx_log x"
  by (simp add: note_early_stream_end_def Let_def split: option.splits)

lemma unbind_log [simp]: "rx_log (unbind_key key x) = rx_log x"
  by (simp add: unbind_key_def split: option.splits stream_key.splits)

lemma close_log [simp]: "rx_log (rx_close c x) = rx_log x"
  by (simp add: rx_close_def)










section \<open>Handing over\<close>

















end
