(* ===== verification/Stream_Tables.thy ===== *)
theory Stream_Tables
  imports Data_Laws
begin










section \<open>Ends of streams\<close>







section \<open>Binding a stream\<close>














section \<open>Over a run\<close>












section \<open>Malformed tracks\<close>




text \<open>
  A stream whose subgroup is named by its first object is in no table before that object: it is not among the streams a
  malformed track resets, and it delivers afterwards (here stream 3, on a track declared malformed by stream 11).
\<close>

lemma malformed_track_leaves_stream:
  "map_option (\<lambda>x. (rx_malformed_aliases x, map (\<lambda>act. case act of Object_Callback cb al d \<Rightarrow> (al, dl_group_id d) | Stop_Sending s c \<Rightarrow> (None, s)) (rx_log x)))
    (rx_run d18_env [Stream_Data 0 0 3 [0x12, 5, 10, 128] False, Stream_Data 0 0 7 [0x10, 5, 9, 128, 0, 0, 3] False,
       Stream_Data 0 0 11 [0x14, 5, 9, 1, 128, 1, 1, 0xAA] False, Stream_Data 0 0 3 [0, 1, 0xBB] False] (new_rx 100 (Some 1)))
   = Some ([5], [(Some 5, 9), (None, 11), (Some 5, 10)])"
  by code_simp

end
