(* ===== verification/Send_Lane.thy ===== *)
theory Send_Lane
  imports Step_Systems "HOL-Library.Sublist"
begin

text \<open>
  The \<^verbatim>\<open>SendLane\<close> of \<^verbatim>\<open>delivery.py\<close>: one peer's objects behind a FIFO and a task that hands them to the peer's writer. Past a
  bound of bytes the lane sheds whole groups. The task and its callers interleave at the task's waits, so the loop
  of \<^verbatim>\<open>_run\<close> is a step that takes one item and, for a send, a second step at its completion. The writer is not part
  of the lane: what it answers is an argument of the step that calls it, and the calls are recorded in a log.
  Times are in microseconds.
\<close>

section \<open>State\<close>

record 'p lane_obj =
  lo_group :: int
  lo_cost :: int
  lo_live :: bool
  lo_born :: "int option"
  lo_rest :: 'p

datatype 'p lane_item =
    Object "'p lane_obj"
  | Cut
  | End_Group
  | End_Track "(int \<times> int) option"
  | Reset_Group "int option"
  | Close
  | Final

datatype 'p lane_send = Idle | Sending "'p lane_obj" | Ending_Track

text \<open>The writer calls that change streams; \<open>W_Send\<close> is an object handed over inline or by \<^verbatim>\<open>send\<close>, and \<open>ln_sent\<close> below holds the ones reported by \<^verbatim>\<open>on_sent\<close>.\<close>

datatype 'p writer_call =
    W_Send "'p lane_obj"
  | W_End_Group
  | W_Reset_Group
  | W_Reset_Below "int option"
  | W_Close_Streams
  | W_Final
  | W_End_Track
  | W_Expire int

record 'p lane =
  ln_max_bytes :: int
  ln_items :: "'p lane_item list"
  ln_bytes :: int
  ln_replay_bytes :: int
  ln_tx_bytes :: int
  ln_probe_gid :: "int option"
  ln_probe_n :: nat
  ln_objects :: int
  ln_floor :: "int option"
  ln_lost :: "int option"
  ln_shed :: nat
  ln_sheds :: nat
  ln_expired :: nat
  ln_gate :: bool
  ln_deadline :: "int option"
  ln_shedding :: bool
  ln_final :: bool
  ln_busy :: "'p lane_send"
  ln_opening :: bool
  ln_done :: nat
  ln_stalls :: nat
  ln_seen :: nat
  ln_moved_at :: int
  ln_stalled :: bool
  ln_stopped :: bool
  ln_cut :: bool
  ln_closing :: bool
  ln_over :: bool
  ln_calls :: "'p writer_call list"
  ln_sent :: "'p lane_obj list"

definition LANE_TX_PROBE :: nat where "LANE_TX_PROBE = 8"
definition LANE_BYTES :: int where "LANE_BYTES = 4 * 1024 * 1024"

definition new_lane :: "int \<Rightarrow> int \<Rightarrow> 'p lane" where
  "new_lane max_bytes now =
    \<lparr>ln_max_bytes = max_bytes, ln_items = [], ln_bytes = 0, ln_replay_bytes = 0, ln_tx_bytes = 0, ln_probe_gid = None, ln_probe_n = 0,
     ln_objects = 0, ln_floor = None, ln_lost = None, ln_shed = 0, ln_sheds = 0, ln_expired = 0, ln_gate = True, ln_deadline = None,
     ln_shedding = False, ln_final = False, ln_busy = Idle, ln_opening = False, ln_done = 0, ln_stalls = 0, ln_seen = 0, ln_moved_at = now,
     ln_stalled = False, ln_stopped = False, ln_cut = False, ln_closing = False, ln_over = False, ln_calls = [], ln_sent = []\<rparr>"

definition call :: "'p writer_call \<Rightarrow> 'p lane \<Rightarrow> 'p lane" where
  "call c L = L\<lparr>ln_calls := ln_calls L @ [c]\<rparr>"

section \<open>The queue\<close>

definition uncount :: "'p lane_obj \<Rightarrow> 'p lane \<Rightarrow> 'p lane" where
  "uncount ob L =
    (if lo_cost ob = 0 then L
     else if lo_live ob then L\<lparr>ln_objects := ln_objects L - 1, ln_bytes := ln_bytes L - lo_cost ob\<rparr>
     else L\<lparr>ln_objects := ln_objects L - 1, ln_replay_bytes := ln_replay_bytes L - lo_cost ob\<rparr>)"

definition count_in :: "'p lane_obj \<Rightarrow> 'p lane \<Rightarrow> 'p lane" where
  "count_in ob L =
    (if lo_cost ob = 0 then L
     else if lo_live ob then L\<lparr>ln_objects := ln_objects L + 1, ln_bytes := ln_bytes L + lo_cost ob\<rparr>
     else L\<lparr>ln_objects := ln_objects L + 1, ln_replay_bytes := ln_replay_bytes L + lo_cost ob\<rparr>)"

text \<open>The items that stay and the lane without the others, \<open>keep\<close> decides of an object; \<open>count_shed\<close> counts what goes.\<close>

fun sift :: "('p lane_obj \<Rightarrow> bool) \<Rightarrow> bool \<Rightarrow> 'p lane_item list \<Rightarrow> 'p lane \<Rightarrow> 'p lane_item list \<times> 'p lane" where
  "sift keep count_shed [] L = ([], L)"
| "sift keep count_shed (Object ob # is) L =
    (if keep ob then (let (kept, L') = sift keep count_shed is L in (Object ob # kept, L'))
     else sift keep count_shed is (let L1 = uncount ob L in
       if count_shed \<and> lo_cost ob \<noteq> 0 then L1\<lparr>ln_shed := Suc (ln_shed L1)\<rparr> else L1))"
| "sift keep count_shed (i # is) L = (let (kept, L') = sift keep count_shed is L in (i # kept, L'))"

definition drop_below :: "int \<Rightarrow> bool \<Rightarrow> 'p lane \<Rightarrow> 'p lane" where
  "drop_below fl count_shed L =
    (let (kept, L') = sift (\<lambda>ob. fl \<le> lo_group ob) count_shed (ln_items L) L in L'\<lparr>ln_items := kept\<rparr>)"

definition skip :: "int \<Rightarrow> bool \<Rightarrow> 'p lane \<Rightarrow> 'p lane" where
  "skip gid count_shed L =
    (if (case ln_floor L of None \<Rightarrow> True | Some f \<Rightarrow> f < gid + 1) then drop_below (gid + 1) count_shed (L\<lparr>ln_floor := Some (gid + 1)\<rparr>) else L)"

text \<open>\<open>tx\<close> is the writer's \<^verbatim>\<open>tx_queued\<close> at this moment.\<close>

definition shed_queue :: "(int option \<Rightarrow> int) \<Rightarrow> int \<Rightarrow> 'p lane \<Rightarrow> int \<times> 'p lane" where
  "shed_queue tx gid L =
    (let L1 = (drop_below gid True L)\<lparr>ln_tx_bytes := tx (Some gid)\<rparr> in
     if ln_max_bytes L1 < ln_bytes L1 + ln_tx_bytes L1
     then (gid + 1, (drop_below (gid + 1) True L1)\<lparr>ln_tx_bytes := tx (Some (gid + 1))\<rparr>) else (gid, L1))"

definition shed_reset :: "int \<Rightarrow> 'p lane \<Rightarrow> 'p lane" where
  "shed_reset fl L =
    (let fl' = (case ln_floor L of None \<Rightarrow> fl | Some f \<Rightarrow> max f fl);
         L1 = L\<lparr>ln_floor := Some fl', ln_lost := Some (fl' - 1)\<rparr>;
         L2 = (if ln_busy L1 \<noteq> Idle \<and> ln_opening L1 then call (W_Reset_Below (Some fl')) L1 else L1);
         L3 = (if ln_cut L2 then L2 else L2\<lparr>ln_cut := True, ln_items := Cut # ln_items L2\<rparr>)
     in if ln_shedding L3 then L3 else L3\<lparr>ln_shedding := True, ln_sheds := Suc (ln_sheds L3)\<rparr>)"

definition shed_groups :: "(int option \<Rightarrow> int) \<Rightarrow> int \<Rightarrow> 'p lane \<Rightarrow> 'p lane" where
  "shed_groups tx gid L = (let (fl, L') = shed_queue tx gid L in shed_reset fl L')"

text \<open>\<^verbatim>\<open>stop\<close>; the task is cancelled at its wait.\<close>

definition stop :: "'p lane \<Rightarrow> bool \<times> 'p lane" where
  "stop L =
    (if ln_stopped L then (False, L)
     else (0 < ln_objects L \<or> ln_busy L \<noteq> Idle,
           L\<lparr>ln_stopped := True, ln_items := [], ln_bytes := 0, ln_replay_bytes := 0, ln_objects := 0, ln_tx_bytes := 0, ln_stalled := False\<rparr>))"

text \<open>\<^verbatim>\<open>_failed\<close>; \<open>fatal\<close> for \<^verbatim>\<open>DatagramTooLarge\<close> and a cancelled send, which end the lane.\<close>

definition send_failed :: "'p lane_obj \<Rightarrow> bool \<Rightarrow> 'p lane \<Rightarrow> bool \<times> 'p lane" where
  "send_failed ob fatal L =
    (if fatal then (False, L)
     else (True, (skip (lo_group ob) True (call W_Reset_Group L))\<lparr>ln_lost := Some (lo_group ob)\<rparr>))"

section \<open>Offers\<close>

text \<open>What \<^verbatim>\<open>send_nowait\<close> does, if the writer has one: it takes the object (or skips it), has to wait, or raises.\<close>

datatype nowait = No_Nowait | Would_Wait | Took bool | Raised bool

definition probe :: "(int option \<Rightarrow> int) \<Rightarrow> int \<Rightarrow> 'p lane \<Rightarrow> 'p lane" where
  "probe tx gid L =
    (let L1 = (if ln_probe_gid L \<noteq> Some gid \<or> LANE_TX_PROBE \<le> ln_probe_n L
          then L\<lparr>ln_probe_gid := Some gid, ln_probe_n := 0, ln_tx_bytes := tx (ln_floor L)\<rparr> else L)
     in L1\<lparr>ln_probe_n := Suc (ln_probe_n L1)\<rparr>)"

definition enqueue :: "(int option \<Rightarrow> int) \<Rightarrow> 'p lane_obj \<Rightarrow> 'p lane \<Rightarrow> 'p lane" where
  "enqueue tx ob L =
    (let L1 = (count_in ob L)\<lparr>ln_items := ln_items L @ [Object ob]\<rparr>
     in if lo_live ob \<and> ln_max_bytes L1 < ln_bytes L1 + ln_tx_bytes L1 then shed_groups tx (lo_group ob) L1 else L1)"

definition written :: "'p lane_obj \<Rightarrow> bool \<Rightarrow> 'p lane \<Rightarrow> 'p lane" where
  "written ob sent L = L\<lparr>ln_done := Suc (ln_done L), ln_sent := (if sent then ln_sent L @ [ob] else ln_sent L)\<rparr>"

definition offer :: "(int option \<Rightarrow> int) \<Rightarrow> nowait \<Rightarrow> 'p lane_obj \<Rightarrow> 'p lane \<Rightarrow> bool \<times> 'p lane" where
  "offer tx nowait ob L =
    (if ln_stopped L \<or> ln_final L then (False, L)
     else if (case ln_floor L of None \<Rightarrow> False | Some f \<Rightarrow> lo_group ob < f)
     then (False, if lo_cost ob \<noteq> 0 \<and> ln_gate L then L\<lparr>ln_shed := Suc (ln_shed L)\<rparr> else L)
     else let L1 = (if lo_live ob then probe tx (lo_group ob) L else L) in
       if nowait \<noteq> No_Nowait \<and> nowait \<noteq> Would_Wait \<and> ln_items L1 = [] \<and> ln_busy L1 = Idle \<and> ln_gate L1
          \<and> ln_tx_bytes L1 + lo_cost ob \<le> ln_max_bytes L1
       then (False, case nowait of
           Raised fatal \<Rightarrow> (let (ok, L2) = send_failed ob fatal (call (W_Send ob) L1) in if ok then L2 else snd (stop L2))
         | Took sent \<Rightarrow> written ob sent (call (W_Send ob) L1)
         | _ \<Rightarrow> L1)
       else (True, enqueue tx ob L1))"

section \<open>Control items and Forward State\<close>

definition put :: "'p lane_item \<Rightarrow> 'p lane \<Rightarrow> 'p lane" where
  "put i L = (if ln_stopped L \<or> ln_final L then L else L\<lparr>ln_items := ln_items L @ [i]\<rparr>)"

definition close_streams :: "'p lane \<Rightarrow> 'p lane" where
  "close_streams L = (if ln_closing L then L else if ln_stopped L \<or> ln_final L then L else put Close (L\<lparr>ln_closing := True\<rparr>))"

definition finish :: "'p lane \<Rightarrow> 'p lane" where
  "finish L = (if ln_stopped L \<or> ln_final L then L else (put Final L)\<lparr>ln_final := True\<rparr>)"

text \<open>The RESET_GROUP items \<^verbatim>\<open>resume\<close> keeps: \<^verbatim>\<open>(item[1] or 0) > group_id\<close>.\<close>

definition resume_keeps :: "int \<Rightarrow> 'p lane_item \<Rightarrow> bool" where
  "resume_keeps gid i = (case i of Reset_Group g \<Rightarrow> gid < (case g of None \<Rightarrow> 0 | Some k \<Rightarrow> k) | _ \<Rightarrow> True)"

definition resume :: "int \<Rightarrow> bool \<Rightarrow> 'p lane \<Rightarrow> 'p lane" where
  "resume gid rejoin L =
    (if ln_stopped L \<or> ln_final L then L
     else let (kept, L1) = sift (\<lambda>ob. gid < lo_group ob) False (ln_items L) L;
              L2 = call W_Reset_Group (L1\<lparr>ln_items := filter (resume_keeps gid) kept\<rparr>)
          in if \<not> rejoin \<or> ln_lost L2 = Some gid then skip gid False L2
             else if ln_floor L2 = Some (gid + 1) then L2\<lparr>ln_floor := Some gid\<rparr>
             else L2)"

section \<open>The task\<close>

text \<open>\<^verbatim>\<open>_control\<close>: \<open>raises\<close> when the writer's call raised.\<close>

definition control_item :: "bool \<Rightarrow> 'p lane_item \<Rightarrow> 'p lane \<Rightarrow> 'p lane" where
  "control_item raises i L = (case i of
     Cut \<Rightarrow> call (W_Reset_Below (ln_floor L)) (L\<lparr>ln_cut := False\<rparr>)
   | End_Group \<Rightarrow> call W_End_Group L
   | Reset_Group g \<Rightarrow>
       (let L1 = call W_Reset_Group L in
        case g of None \<Rightarrow> L1 | Some gid \<Rightarrow> if raises then L1 else skip gid True L1)
   | Close \<Rightarrow> call W_Close_Streams (L\<lparr>ln_closing := False\<rparr>)
   | Final \<Rightarrow> (call W_Final L)\<lparr>ln_over := True, ln_stalled := False\<rparr>
   | _ \<Rightarrow> L)"

text \<open>
  The task's turn on an object: \<open>now\<close> is the monotonic clock, \<open>expires\<close> the answer of the writer's \<^verbatim>\<open>expire\<close>.
\<close>

definition take_object :: "int \<Rightarrow> bool \<Rightarrow> 'p lane_obj \<Rightarrow> 'p lane \<Rightarrow> 'p lane" where
  "take_object now expires ob L =
    (let L1 = uncount ob L in
     if \<not> ln_gate L1 then (let L2 = skip (lo_group ob) False (call W_Reset_Group L1) in L2\<lparr>ln_done := Suc (ln_done L2)\<rparr>)
     else if (case (ln_deadline L1, lo_born ob) of (Some d, Some born) \<Rightarrow> d < now - born | _ \<Rightarrow> False) then
       (let L2 = call (W_Expire (lo_group ob)) (L1\<lparr>ln_expired := Suc (ln_expired L1)\<rparr>);
            L3 = (if expires then (skip (lo_group ob) True L2)\<lparr>ln_lost := Some (lo_group ob)\<rparr> else L2)
        in L3\<lparr>ln_done := Suc (ln_done L3)\<rparr>)
     else call (W_Send ob) (L1\<lparr>ln_busy := Sending ob\<rparr>))"

definition run_step :: "int \<Rightarrow> bool \<Rightarrow> bool \<Rightarrow> 'p lane \<Rightarrow> 'p lane" where
  "run_step now expires raises L =
    (if ln_over L \<or> ln_busy L \<noteq> Idle then L
     else if ln_stopped L then L\<lparr>ln_over := True, ln_stalled := False\<rparr>
     else case ln_items L of
       [] \<Rightarrow> L\<lparr>ln_shedding := False\<rparr>
     | i # is \<Rightarrow>
         (let L1 = L\<lparr>ln_items := is\<rparr> in
          case i of
            Object ob \<Rightarrow> take_object now expires ob L1
          | End_Track lg \<Rightarrow>
              if ln_gate L1 then call W_End_Track (L1\<lparr>ln_busy := Ending_Track\<rparr>) else L1\<lparr>ln_done := Suc (ln_done L1)\<rparr>
          | _ \<Rightarrow>
              (let L2 = control_item raises i L1 in if ln_over L2 then L2 else L2\<lparr>ln_done := Suc (ln_done L2)\<rparr>)))"

text \<open>How the writer's \<^verbatim>\<open>send\<close> ends; \<open>Send_Cancelled\<close> is the task's own cancellation.\<close>

datatype send_result = Send_Returned bool | Send_Raised bool | Send_Cancelled

definition send_ended :: "send_result \<Rightarrow> 'p lane \<Rightarrow> 'p lane" where
  "send_ended r L = (case ln_busy L of
     Idle \<Rightarrow> L
   | Ending_Track \<Rightarrow>
       (let L1 = L\<lparr>ln_busy := Idle\<rparr> in
        if r = Send_Cancelled then L1\<lparr>ln_over := True, ln_stalled := False\<rparr> else L1\<lparr>ln_done := Suc (ln_done L1)\<rparr>)
   | Sending ob \<Rightarrow>
       (let L1 = L\<lparr>ln_busy := Idle\<rparr> in
        case r of
          Send_Returned sent \<Rightarrow> written ob sent L1
        | Send_Raised fatal \<Rightarrow>
            (let (ok, L2) = send_failed ob fatal L1 in
             if ok then L2\<lparr>ln_done := Suc (ln_done L2)\<rparr> else L2\<lparr>ln_over := True, ln_stalled := False\<rparr>)
        | Send_Cancelled \<Rightarrow> L1\<lparr>ln_over := True, ln_stalled := False\<rparr>))"

text \<open>\<^verbatim>\<open>check\<close>: the watch for a lane that has work and moves nothing.\<close>

definition check :: "int \<Rightarrow> int \<Rightarrow> 'p lane \<Rightarrow> 'p lane" where
  "check now stall L =
    (if ln_done L \<noteq> ln_seen L \<or> ln_busy L = Idle \<and> ln_items L = []
     then L\<lparr>ln_stalled := False, ln_seen := ln_done L, ln_moved_at := now\<rparr>
     else if ln_stalled L \<or> now - ln_moved_at L < stall then L
     else L\<lparr>ln_stalled := True, ln_stalls := Suc (ln_stalls L)\<rparr>)"

section \<open>Events\<close>

datatype 'p lane_event =
    Offer "int option \<Rightarrow> int" nowait "'p lane_obj"
  | Put "'p lane_item"
  | Close_Streams
  | Finish
  | Resume int bool
  | Set_Gate bool
  | Set_Deadline "int option"
  | Parked_On_Header
  | Parked_On_Object
  | Stop
  | Turn int bool bool
  | Send_Ended send_result
  | Check int int

text \<open>\<open>Put\<close> is \<^verbatim>\<open>end_group\<close>, \<^verbatim>\<open>end_track\<close> or \<^verbatim>\<open>reset_group\<close>, by its item. \<^verbatim>\<open>parked\<close> is set by the writer while a send waits.\<close>

definition lane_step :: "'p lane_event \<Rightarrow> 'p lane \<Rightarrow> 'p lane" where
  "lane_step e L = (case e of
     Offer tx nowait ob \<Rightarrow> snd (offer tx nowait ob L)
   | Put i \<Rightarrow> (case i of End_Group \<Rightarrow> put i L | End_Track _ \<Rightarrow> put i L | Reset_Group _ \<Rightarrow> put i L | _ \<Rightarrow> L)
   | Close_Streams \<Rightarrow> close_streams L
   | Finish \<Rightarrow> finish L
   | Resume gid rejoin \<Rightarrow> resume gid rejoin L
   | Set_Gate g \<Rightarrow> L\<lparr>ln_gate := g\<rparr>
   | Set_Deadline d \<Rightarrow> L\<lparr>ln_deadline := (if d = Some 0 then None else d)\<rparr>
   | Parked_On_Header \<Rightarrow> L\<lparr>ln_opening := True\<rparr>
   | Parked_On_Object \<Rightarrow> L\<lparr>ln_opening := False\<rparr>
   | Stop \<Rightarrow> snd (stop L)
   | Turn now expires raises \<Rightarrow> run_step now expires raises L
   | Send_Ended r \<Rightarrow> send_ended r L
   | Check now stall \<Rightarrow> check now stall L)"

section \<open>The queue and its counts\<close>

definition objs :: "'p lane_item list \<Rightarrow> 'p lane_obj list" where
  "objs is = concat (map (\<lambda>i. case i of Object ob \<Rightarrow> [ob] | _ \<Rightarrow> []) is)"

definition cost_of :: "('p lane_obj \<Rightarrow> bool) \<Rightarrow> 'p lane_item list \<Rightarrow> int" where
  "cost_of p is = sum_list (map lo_cost (filter p (objs is)))"

definition objects_of :: "'p lane_item list \<Rightarrow> int" where
  "objects_of is = int (length (filter (\<lambda>ob. lo_cost ob \<noteq> 0) (objs is)))"

definition kept_item :: "('p lane_obj \<Rightarrow> bool) \<Rightarrow> 'p lane_item \<Rightarrow> bool" where
  "kept_item keep i = (case i of Object ob \<Rightarrow> keep ob | _ \<Rightarrow> True)"

lemma objs_simps [simp]:
  "objs [] = []" "objs (Object ob # is) = ob # objs is" "objs (is @ js) = objs is @ objs js" "objs (Cut # is) = objs is"
  by (simp_all add: objs_def)

lemma objs_control: "\<forall>ob. i \<noteq> Object ob \<Longrightarrow> objs (i # is) = objs is"
  by (cases i) (simp_all add: objs_def)

lemma kept_item_simps [simp]:
  "kept_item keep (Object ob) = keep ob" "kept_item keep Cut" "kept_item keep End_Group" "kept_item keep (End_Track lg)"
  "kept_item keep (Reset_Group g)" "kept_item keep Close" "kept_item keep Final"
  by (simp_all add: kept_item_def)

lemma objs_kept: "objs (filter (kept_item keep) is) = filter keep (objs is)"
proof (induction "is")
  case (Cons i "is")
  then show ?case by (cases i) (simp_all add: objs_def)
qed simp

lemma objs_filter_control: "(\<And>ob. P (Object ob)) \<Longrightarrow> objs (filter P is) = objs is"
proof (induction "is")
  case (Cons i "is")
  then show ?case by (cases i) (simp_all add: objs_def)
qed simp

lemma cost_of_simps [simp]:
  "cost_of p [] = 0" "cost_of p (is @ js) = cost_of p is + cost_of p js" "cost_of p (Cut # is) = cost_of p is"
  "cost_of p (Object ob # is) = (if p ob then lo_cost ob else 0) + cost_of p is"
  by (simp_all add: cost_of_def)

lemma objects_of_simps [simp]:
  "objects_of [] = 0" "objects_of (is @ js) = objects_of is + objects_of js" "objects_of (Cut # is) = objects_of is"
  "objects_of (Object ob # is) = (if lo_cost ob = 0 then 0 else 1) + objects_of is"
  by (simp_all add: objects_of_def)

text \<open>The lane after \<open>bytes\<close>, \<open>replay\<close> and \<open>objects\<close> left the counts.\<close>

definition discount :: "int \<Rightarrow> int \<Rightarrow> int \<Rightarrow> nat \<Rightarrow> 'p lane \<Rightarrow> 'p lane" where
  "discount bytes replay n shed L =
    L\<lparr>ln_bytes := ln_bytes L - bytes, ln_replay_bytes := ln_replay_bytes L - replay, ln_objects := ln_objects L - n, ln_shed := ln_shed L + shed\<rparr>"

lemma uncount_discount:
  "uncount ob L = discount (if lo_live ob then lo_cost ob else 0) (if lo_live ob then 0 else lo_cost ob) (if lo_cost ob = 0 then 0 else 1) 0 L"
  by (simp add: uncount_def discount_def)

lemma discount_discount: "discount b r n s (discount b' r' n' s' L) = discount (b' + b) (r' + r) (n' + n) (s' + s) L"
  by (simp add: discount_def algebra_simps)

lemma sift_eq:
  "\<exists>s. sift keep c is L = (filter (kept_item keep) is,
     discount (cost_of (\<lambda>ob. lo_live ob \<and> \<not> keep ob) is) (cost_of (\<lambda>ob. \<not> lo_live ob \<and> \<not> keep ob) is)
       (int (length (filter (\<lambda>ob. lo_cost ob \<noteq> 0 \<and> \<not> keep ob) (objs is)))) s L)"
proof (induction keep c "is" L rule: sift.induct)
  case (1 keep c L)
  show ?case by (rule exI [of _ 0]) (simp add: discount_def)
next
  case (2 keep c ob "is" L)
  show ?case
  proof (cases "keep ob")
    case True
    then obtain s where "sift keep c is L = (filter (kept_item keep) is,
       discount (cost_of (\<lambda>ob. lo_live ob \<and> \<not> keep ob) is) (cost_of (\<lambda>ob. \<not> lo_live ob \<and> \<not> keep ob) is)
         (int (length (filter (\<lambda>ob. lo_cost ob \<noteq> 0 \<and> \<not> keep ob) (objs is)))) s L)" using 2(1) by blast
    then show ?thesis using True by (intro exI [of _ s]) simp
  next
    case False
    let ?L = "let L1 = uncount ob L in if c \<and> lo_cost ob \<noteq> 0 then L1\<lparr>ln_shed := Suc (ln_shed L1)\<rparr> else L1"
    obtain s where s: "sift keep c is ?L = (filter (kept_item keep) is,
       discount (cost_of (\<lambda>ob. lo_live ob \<and> \<not> keep ob) is) (cost_of (\<lambda>ob. \<not> lo_live ob \<and> \<not> keep ob) is)
         (int (length (filter (\<lambda>ob. lo_cost ob \<noteq> 0 \<and> \<not> keep ob) (objs is)))) s ?L)" using 2(2) [OF False] by blast
    define k where "k = (if c \<and> lo_cost ob \<noteq> 0 then 1 else 0 :: nat)"
    have k: "?L = discount (if lo_live ob then lo_cost ob else 0) (if lo_live ob then 0 else lo_cost ob) (if lo_cost ob = 0 then 0 else 1) k L"
      by (simp add: uncount_discount Let_def k_def) (simp add: discount_def)
    show ?thesis using s False unfolding k discount_discount
      by (intro exI [of _ "k + s"]) (simp add: k discount_discount)
  qed
qed (auto simp: objs_control cost_of_def)

definition counted :: "'p lane \<Rightarrow> bool" where
  "counted L \<longleftrightarrow> ln_bytes L = cost_of lo_live (ln_items L) \<and> ln_replay_bytes L = cost_of (\<lambda>ob. \<not> lo_live ob) (ln_items L)
    \<and> ln_objects L = objects_of (ln_items L)"

text \<open>What sifting the queue leaves, and what it leaves alone.\<close>

lemma cost_split: "cost_of p is - cost_of (\<lambda>ob. p ob \<and> \<not> keep ob) is = cost_of p (filter (kept_item keep) is)"
proof -
  have "sum_list (map lo_cost (filter p xs)) - sum_list (map lo_cost (filter (\<lambda>ob. p ob \<and> \<not> keep ob) xs))
      = sum_list (map lo_cost (filter p (filter keep xs)))" for xs by (induction xs) auto
  then show ?thesis by (simp add: cost_of_def objs_kept)
qed

lemma objects_split:
  "objects_of is - int (length (filter (\<lambda>ob. lo_cost ob \<noteq> 0 \<and> \<not> keep ob) (objs is))) = objects_of (filter (kept_item keep) is)"
proof -
  have "int (length (filter (\<lambda>ob. lo_cost ob \<noteq> 0) xs)) - int (length (filter (\<lambda>ob. lo_cost ob \<noteq> 0 \<and> \<not> keep ob) xs))
      = int (length (filter (\<lambda>ob. lo_cost ob \<noteq> 0) (filter keep xs)))" for xs :: "'a lane_obj list" by (induction xs) auto
  then show ?thesis by (simp add: objects_of_def objs_kept)
qed

lemma sifted:
  assumes "sift keep c (ln_items L) L = (kept, L')"
  shows "kept = filter (kept_item keep) (ln_items L)"
    "counted L \<Longrightarrow> ln_bytes L' = cost_of lo_live kept \<and> ln_replay_bytes L' = cost_of (\<lambda>ob. \<not> lo_live ob) kept \<and> ln_objects L' = objects_of kept"
    "\<exists>b r n s. L' = discount b r n s L"
  using assms sift_eq [of keep c "ln_items L" L] cost_split [of lo_live "ln_items L" keep] cost_split [of "\<lambda>ob. \<not> lo_live ob" "ln_items L" keep]
    objects_split [of "ln_items L" keep]
  by (auto simp: counted_def discount_def)

lemma discount_kept [simp]:
  "ln_items (discount b r n s L) = ln_items L" "ln_floor (discount b r n s L) = ln_floor L" "ln_lost (discount b r n s L) = ln_lost L"
  "ln_max_bytes (discount b r n s L) = ln_max_bytes L" "ln_calls (discount b r n s L) = ln_calls L" "ln_cut (discount b r n s L) = ln_cut L"
  "ln_stopped (discount b r n s L) = ln_stopped L" "ln_final (discount b r n s L) = ln_final L" "ln_busy (discount b r n s L) = ln_busy L"
  "ln_tx_bytes (discount b r n s L) = ln_tx_bytes L" "ln_gate (discount b r n s L) = ln_gate L" "ln_over (discount b r n s L) = ln_over L"
  by (simp_all add: discount_def)

lemma dropped:
  fixes fl c L
  defines "D \<equiv> drop_below fl c L"
  shows "ln_items D = filter (kept_item (\<lambda>ob. fl \<le> lo_group ob)) (ln_items L)" "counted L \<Longrightarrow> counted D"
    "\<exists>b r n s. D = discount b r n s (L\<lparr>ln_items := ln_items D\<rparr>)"
proof -
  obtain kept L' where s: "sift (\<lambda>ob. fl \<le> lo_group ob) c (ln_items L) L = (kept, L')" by fastforce
  have D: "D = L'\<lparr>ln_items := kept\<rparr>" by (simp add: D_def drop_below_def s)
  show "ln_items D = filter (kept_item (\<lambda>ob. fl \<le> lo_group ob)) (ln_items L)" using sifted(1) [OF s] by (simp add: D)
  show "counted L \<Longrightarrow> counted D" using sifted(2) [OF s] by (simp add: D counted_def)
  obtain b r n s where "L' = discount b r n s L" using sifted(3) [OF s] by blast
  then have "D = discount b r n s (L\<lparr>ln_items := ln_items D\<rparr>)" by (simp add: D discount_def)
  then show "\<exists>b r n s. D = discount b r n s (L\<lparr>ln_items := ln_items D\<rparr>)" by blast
qed

lemma dropped_kept [simp]:
  "ln_floor (drop_below fl c L) = ln_floor L" "ln_lost (drop_below fl c L) = ln_lost L" "ln_max_bytes (drop_below fl c L) = ln_max_bytes L"
  "ln_calls (drop_below fl c L) = ln_calls L" "ln_cut (drop_below fl c L) = ln_cut L" "ln_stopped (drop_below fl c L) = ln_stopped L"
  "ln_final (drop_below fl c L) = ln_final L" "ln_busy (drop_below fl c L) = ln_busy L" "ln_tx_bytes (drop_below fl c L) = ln_tx_bytes L"
  "ln_gate (drop_below fl c L) = ln_gate L" "ln_over (drop_below fl c L) = ln_over L"
proof -
  obtain b r n s where D: "drop_below fl c L = discount b r n s (L\<lparr>ln_items := ln_items (drop_below fl c L)\<rparr>)" using dropped(3) by blast
  show "ln_floor (drop_below fl c L) = ln_floor L" "ln_lost (drop_below fl c L) = ln_lost L" "ln_max_bytes (drop_below fl c L) = ln_max_bytes L"
    "ln_calls (drop_below fl c L) = ln_calls L" "ln_cut (drop_below fl c L) = ln_cut L" "ln_stopped (drop_below fl c L) = ln_stopped L"
    "ln_final (drop_below fl c L) = ln_final L" "ln_busy (drop_below fl c L) = ln_busy L" "ln_tx_bytes (drop_below fl c L) = ln_tx_bytes L"
    "ln_gate (drop_below fl c L) = ln_gate L" "ln_over (drop_below fl c L) = ln_over L"
    by (subst D, simp)+
qed

section \<open>The invariant\<close>

text \<open>The objects handed to the writer so far.\<close>

definition handed :: "'p writer_call list \<Rightarrow> 'p lane_obj list" where
  "handed cs = concat (map (\<lambda>c. case c of W_Send ob \<Rightarrow> [ob] | _ \<Rightarrow> []) cs)"

definition above :: "int option \<Rightarrow> 'p lane_item list \<Rightarrow> bool" where
  "above fl is \<longleftrightarrow> (\<forall>ob \<in> set (objs is). case fl of None \<Rightarrow> True | Some f \<Rightarrow> f \<le> lo_group ob)"

definition cut_first :: "bool \<Rightarrow> 'p lane_item list \<Rightarrow> bool" where
  "cut_first due is \<longleftrightarrow> (if due then \<exists>r. is = Cut # r \<and> Cut \<notin> set r else Cut \<notin> set is)"

text \<open>
  The counts are those of the queue, nothing queued is below the floor, a cut that is due is at the head of the queue,
  and what was handed over followed by what is queued is a part of what was offered, in its order.
\<close>

definition lane_ok :: "'p lane_obj list \<Rightarrow> 'p lane \<Rightarrow> bool" where
  "lane_ok off L \<longleftrightarrow> counted L \<and> above (ln_floor L) (ln_items L) \<and> (ln_stopped L \<or> cut_first (ln_cut L) (ln_items L))
    \<and> (ln_stopped L \<longrightarrow> ln_items L = []) \<and> subseq (handed (ln_calls L) @ objs (ln_items L)) off"

lemma handed_simps [simp]:
  "handed [] = []" "handed (cs @ ds) = handed cs @ handed ds" "handed [W_Send ob] = [ob]" "handed [W_End_Group] = []" "handed [W_Reset_Group] = []"
  "handed [W_Reset_Below f] = []" "handed [W_Close_Streams] = []" "handed [W_Final] = []" "handed [W_End_Track] = []" "handed [W_Expire g] = []"
  by (simp_all add: handed_def)

lemma call_kept [simp]:
  "ln_items (call c L) = ln_items L" "ln_floor (call c L) = ln_floor L" "ln_lost (call c L) = ln_lost L" "ln_cut (call c L) = ln_cut L"
  "ln_stopped (call c L) = ln_stopped L" "ln_final (call c L) = ln_final L" "ln_busy (call c L) = ln_busy L" "ln_max_bytes (call c L) = ln_max_bytes L"
  "ln_bytes (call c L) = ln_bytes L" "ln_tx_bytes (call c L) = ln_tx_bytes L" "ln_calls (call c L) = ln_calls L @ [c]" "ln_gate (call c L) = ln_gate L"
  "counted (call c L) = counted L" "ln_over (call c L) = ln_over L" "ln_replay_bytes (call c L) = ln_replay_bytes L" "ln_objects (call c L) = ln_objects L"
  by (simp_all add: call_def counted_def)

lemma lane_ok_kept [simp]:
  "lane_ok off (L\<lparr>ln_tx_bytes := a\<rparr>) = lane_ok off L" "lane_ok off (L\<lparr>ln_lost := b\<rparr>) = lane_ok off L" "lane_ok off (L\<lparr>ln_done := c\<rparr>) = lane_ok off L"
  "lane_ok off (L\<lparr>ln_busy := d\<rparr>) = lane_ok off L" "lane_ok off (L\<lparr>ln_over := e\<rparr>) = lane_ok off L" "lane_ok off (L\<lparr>ln_stalled := f\<rparr>) = lane_ok off L"
  "lane_ok off (L\<lparr>ln_shedding := f\<rparr>) = lane_ok off L" "lane_ok off (L\<lparr>ln_sheds := g\<rparr>) = lane_ok off L" "lane_ok off (L\<lparr>ln_shed := g\<rparr>) = lane_ok off L"
  "lane_ok off (L\<lparr>ln_gate := f\<rparr>) = lane_ok off L" "lane_ok off (L\<lparr>ln_deadline := h\<rparr>) = lane_ok off L" "lane_ok off (L\<lparr>ln_opening := f\<rparr>) = lane_ok off L"
  "lane_ok off (L\<lparr>ln_expired := g\<rparr>) = lane_ok off L" "lane_ok off (L\<lparr>ln_closing := f\<rparr>) = lane_ok off L" "lane_ok off (L\<lparr>ln_final := f\<rparr>) = lane_ok off L"
  "lane_ok off (L\<lparr>ln_sent := i\<rparr>) = lane_ok off L" "lane_ok off (L\<lparr>ln_probe_gid := b\<rparr>) = lane_ok off L" "lane_ok off (L\<lparr>ln_probe_n := g\<rparr>) = lane_ok off L"
  "lane_ok off (L\<lparr>ln_seen := g\<rparr>) = lane_ok off L" "lane_ok off (L\<lparr>ln_moved_at := j\<rparr>) = lane_ok off L" "lane_ok off (L\<lparr>ln_stalls := g\<rparr>) = lane_ok off L"
  by (simp_all add: lane_ok_def counted_def)

lemma call_ok: "handed [c] = [] \<Longrightarrow> lane_ok off (call c L) = lane_ok off L"
  by (simp add: lane_ok_def)

lemma cut_first_filter: "cut_first due is \<Longrightarrow> P Cut \<Longrightarrow> cut_first due (filter P is)"
  by (auto simp: cut_first_def split: if_splits)

lemma above_filter: "above fl is \<Longrightarrow> above fl (filter (kept_item keep) is)"
  by (auto simp: above_def objs_kept)

lemma subseq_drop: "subseq (xs @ ys) zs \<Longrightarrow> subseq ys' ys \<Longrightarrow> subseq (xs @ ys') zs"
  by (meson subseq_append' subseq_order.trans list_emb_append_mono subseq_order.order_refl)

lemma drop_ok: "lane_ok off L \<Longrightarrow> lane_ok off (drop_below fl c L)"
  by (auto simp: lane_ok_def dropped above_filter cut_first_filter objs_kept subseq_drop)

lemma drop_above: "above (Some fl) (ln_items (drop_below fl c L))"
  by (simp add: above_def dropped objs_kept)

lemma floor_ok: "lane_ok off L \<Longrightarrow> above fl (ln_items L) \<Longrightarrow> lane_ok off (L\<lparr>ln_floor := fl\<rparr>)"
  by (simp add: lane_ok_def counted_def)

lemma skip_ok: "lane_ok off L \<Longrightarrow> lane_ok off (skip g c L)"
proof -
  assume L: "lane_ok off L"
  let ?D = "drop_below (g + 1) c (L\<lparr>ln_floor := Some (g + 1)\<rparr>)"
  have "counted L" using L by (simp add: lane_ok_def)
  then have "counted ?D" by (intro dropped(2)) (simp add: counted_def)
  then have "lane_ok off ?D" using L drop_above [of "g + 1" c "L\<lparr>ln_floor := Some (g + 1)\<rparr>"]
    by (auto simp: lane_ok_def dropped(1) cut_first_filter objs_kept subseq_drop)
  then show ?thesis using L by (simp add: skip_def split: option.split)
qed

lemma skip_kept [simp]:
  "ln_calls (skip g c L) = ln_calls L" "ln_busy (skip g c L) = ln_busy L" "ln_stopped (skip g c L) = ln_stopped L" "ln_over (skip g c L) = ln_over L"
  "ln_max_bytes (skip g c L) = ln_max_bytes L" "ln_tx_bytes (skip g c L) = ln_tx_bytes L" "ln_cut (skip g c L) = ln_cut L" "ln_final (skip g c L) = ln_final L" "ln_lost (skip g c L) = ln_lost L"
  by (simp_all add: skip_def split: option.split)


lemma failed_ok: "lane_ok off L \<Longrightarrow> lane_ok off (snd (send_failed ob fatal L))"
  by (simp add: send_failed_def skip_ok call_ok)

lemma stop_ok: "lane_ok off L \<Longrightarrow> lane_ok off (snd (stop L))"
  using subseq_drop [of "handed (ln_calls L)" "objs (ln_items L)" off "[]"]
  by (auto simp: stop_def lane_ok_def counted_def above_def)

lemma shed_reset_kept [simp]:
  "ln_max_bytes (shed_reset fl L) = ln_max_bytes L" "ln_busy (shed_reset fl L) = ln_busy L" "ln_stopped (shed_reset fl L) = ln_stopped L"
  "ln_bytes (shed_reset fl L) = ln_bytes L" "ln_tx_bytes (shed_reset fl L) = ln_tx_bytes L" "ln_cut (shed_reset fl L)"
  by (simp_all add: shed_reset_def Let_def)

lemma shed_queue_kept:
  assumes "shed_queue tx g L = (fl, L')"
  shows "ln_max_bytes L' = ln_max_bytes L" "ln_busy L' = ln_busy L" "ln_stopped L' = ln_stopped L" "ln_floor L' = ln_floor L" "ln_calls L' = ln_calls L"
    "ln_cut L' = ln_cut L"
  using assms by (auto simp: shed_queue_def Let_def split: if_splits)

lemma shed_queue_ok: "lane_ok off L \<Longrightarrow> shed_queue tx g L = (fl, L') \<Longrightarrow> lane_ok off L' \<and> above (Some fl) (ln_items L')"
  using drop_ok [of off L g True] drop_ok [of off "(drop_below g True L)\<lparr>ln_tx_bytes := tx (Some g)\<rparr>" "g + 1" True]
    drop_above [of g True L] drop_above [of "g + 1" True "(drop_below g True L)\<lparr>ln_tx_bytes := tx (Some g)\<rparr>"]
  by (auto simp: shed_queue_def Let_def split: if_splits)

lemma shed_reset_ok:
  assumes "lane_ok off L" "above (Some fl) (ln_items L)" "\<not> ln_stopped L"
  shows "lane_ok off (shed_reset fl L)"
proof -
  define fl' where "fl' = (case ln_floor L of None \<Rightarrow> fl | Some f \<Rightarrow> max f fl)"
  define L1 where "L1 = L\<lparr>ln_floor := Some fl', ln_lost := Some (fl' - 1)\<rparr>"
  define L2 where "L2 = (if ln_busy L1 \<noteq> Idle \<and> ln_opening L1 then call (W_Reset_Below (Some fl')) L1 else L1)"
  define L3 where "L3 = (if ln_cut L2 then L2 else L2\<lparr>ln_cut := True, ln_items := Cut # ln_items L2\<rparr>)"
  have "above (ln_floor L) (ln_items L)" using assms(1) by (simp add: lane_ok_def)
  then have "above (Some fl') (ln_items L)" using assms(2) by (auto simp: fl'_def above_def split: option.split)
  then have "lane_ok off L1" using floor_ok [OF assms(1)] by (simp add: L1_def)
  then have L2: "lane_ok off L2" by (simp add: L2_def call_ok)
  have "\<not> ln_stopped L2" using assms(3) by (simp add: L2_def L1_def)
  then have "lane_ok off L3" using L2 by (auto simp: L3_def lane_ok_def counted_def above_def cut_first_def)
  moreover have "shed_reset fl L = (if ln_shedding L3 then L3 else L3\<lparr>ln_shedding := True, ln_sheds := Suc (ln_sheds L3)\<rparr>)"
    unfolding shed_reset_def Let_def L3_def L2_def L1_def fl'_def by (rule refl)
  ultimately show ?thesis by simp
qed

lemma shed_ok: "lane_ok off L \<Longrightarrow> \<not> ln_stopped L \<Longrightarrow> lane_ok off (shed_groups tx gid L)"
  using shed_queue_ok [of off L tx gid] shed_queue_kept(3) [of tx gid L]
  by (auto simp: shed_groups_def shed_reset_ok split: prod.split)

lemma shed_kept [simp]:
  "ln_max_bytes (shed_groups tx g L) = ln_max_bytes L" "ln_busy (shed_groups tx g L) = ln_busy L" "ln_stopped (shed_groups tx g L) = ln_stopped L"
  "ln_cut (shed_groups tx g L)"
  by (simp_all add: shed_groups_def shed_queue_kept split: prod.split)

lemma probe_kept [simp]:
  "lane_ok off (probe tx g L) = lane_ok off L" "ln_stopped (probe tx g L) = ln_stopped L" "ln_items (probe tx g L) = ln_items L"
  "ln_floor (probe tx g L) = ln_floor L" "ln_bytes (probe tx g L) = ln_bytes L" "ln_max_bytes (probe tx g L) = ln_max_bytes L"
  "ln_calls (probe tx g L) = ln_calls L" "ln_busy (probe tx g L) = ln_busy L" "ln_cut (probe tx g L) = ln_cut L"
  by (simp_all add: probe_def Let_def)

lemma subseq_more: "subseq xs ys \<Longrightarrow> subseq (xs @ zs) (ys @ zs)"
  by simp

lemma subseq_later: "subseq xs ys \<Longrightarrow> subseq xs (ys @ zs)"
  by (rule subseq_order.trans) auto

lemma ok_later: "lane_ok off L \<Longrightarrow> lane_ok (off @ xs) L"
  by (simp add: lane_ok_def subseq_later)

lemma count_kept [simp]:
  "ln_items (count_in ob L) = ln_items L" "ln_floor (count_in ob L) = ln_floor L" "ln_cut (count_in ob L) = ln_cut L" "ln_stopped (count_in ob L) = ln_stopped L"
  "ln_calls (count_in ob L) = ln_calls L" "ln_max_bytes (count_in ob L) = ln_max_bytes L" "ln_tx_bytes (count_in ob L) = ln_tx_bytes L"
  "ln_busy (count_in ob L) = ln_busy L" "ln_bytes (count_in ob L) = ln_bytes L + (if lo_live ob then lo_cost ob else 0)"
  by (simp_all add: count_in_def)

lemma queued_ok:
  assumes "lane_ok off L" "\<not> ln_stopped L" "case ln_floor L of None \<Rightarrow> True | Some f \<Rightarrow> f \<le> lo_group ob"
  shows "lane_ok (off @ [ob]) ((count_in ob L)\<lparr>ln_items := ln_items L @ [Object ob]\<rparr>)"
proof -
  have "counted ((count_in ob L)\<lparr>ln_items := ln_items L @ [Object ob]\<rparr>)" using assms(1) by (simp add: lane_ok_def counted_def count_in_def)
  moreover have "subseq ((handed (ln_calls L) @ objs (ln_items L)) @ [ob]) (off @ [ob])" using assms(1) by (intro subseq_more) (simp add: lane_ok_def)
  moreover have "cut_first (ln_cut L) (ln_items L @ [Object ob])" using assms(1,2) by (auto simp: lane_ok_def cut_first_def split: if_splits)
  ultimately show ?thesis using assms by (simp add: lane_ok_def above_def split: option.splits)
qed

lemma enqueue_ok:
  assumes "lane_ok off L" "\<not> ln_stopped L" "case ln_floor L of None \<Rightarrow> True | Some f \<Rightarrow> f \<le> lo_group ob"
  shows "lane_ok (off @ [ob]) (enqueue tx ob L)"
  using queued_ok [OF assms] assms(2) by (simp add: enqueue_def Let_def shed_ok)

lemma inline_ok:
  assumes "lane_ok off L" "ln_items L = []"
  shows "lane_ok (off @ [ob]) (call (W_Send ob) L)"
proof -
  have "subseq (handed (ln_calls L) @ [ob]) (off @ [ob])" using assms by (intro subseq_more) (simp add: lane_ok_def)
  then show ?thesis using assms by (simp add: lane_ok_def)
qed

text \<open>How an offer ends.\<close>

lemma offer_cases:
  fixes tx nw ob L
  defines "r \<equiv> snd (offer tx nw ob L)" and "M \<equiv> (if lo_live ob then probe tx (lo_group ob) L else L)"
  obtains (ignored) k where "r = L\<lparr>ln_shed := k\<rparr>"
  | (taken) sent where "r = written ob sent (call (W_Send ob) M)" "ln_items L = []" "ln_busy L = Idle" "\<not> ln_stopped L"
      "case ln_floor L of None \<Rightarrow> True | Some f \<Rightarrow> f \<le> lo_group ob"
  | (failed) fatal ok L2 where "send_failed ob fatal (call (W_Send ob) M) = (ok, L2)" "r = (if ok then L2 else snd (stop L2))" "ln_items L = []"
      "\<not> ln_stopped L" "case ln_floor L of None \<Rightarrow> True | Some f \<Rightarrow> f \<le> lo_group ob" "ln_busy L = Idle"
  | (queued) "r = enqueue tx ob M" "\<not> ln_stopped L" "case ln_floor L of None \<Rightarrow> True | Some f \<Rightarrow> f \<le> lo_group ob"
proof (cases "ln_stopped L \<or> ln_final L \<or> (case ln_floor L of None \<Rightarrow> False | Some f \<Rightarrow> lo_group ob < f)")
  case True
  then have "r = L\<lparr>ln_shed := ln_shed L\<rparr> \<or> r = L\<lparr>ln_shed := Suc (ln_shed L)\<rparr>" by (auto simp: r_def offer_def)
  then show thesis using ignored by blast
next
  case False
  have a: "\<not> (ln_stopped L \<or> ln_final L)" and b: "\<not> (case ln_floor L of None \<Rightarrow> False | Some f \<Rightarrow> lo_group ob < f)" using False by auto
  have f: "case ln_floor L of None \<Rightarrow> True | Some f \<Rightarrow> f \<le> lo_group ob" using b by (simp split: option.splits)
  have M: "ln_items M = ln_items L" "ln_busy M = ln_busy L" by (simp_all add: M_def)
  let ?now = "nw \<noteq> No_Nowait \<and> nw \<noteq> Would_Wait \<and> ln_items M = [] \<and> ln_busy M = Idle \<and> ln_gate M \<and> ln_tx_bytes M + lo_cost ob \<le> ln_max_bytes M"
  have r: "r = snd (if ?now then (False, case nw of
           Raised fatal \<Rightarrow> (let (ok, L2) = send_failed ob fatal (call (W_Send ob) M) in if ok then L2 else snd (stop L2))
         | Took sent \<Rightarrow> written ob sent (call (W_Send ob) M) | _ \<Rightarrow> M) else (True, enqueue tx ob M))"
    unfolding r_def offer_def if_not_P [OF a] if_not_P [OF b] Let_def M_def [symmetric] ..
  show thesis
  proof (cases ?now)
    case True
    then show thesis using r taken [OF _ _ _ _ f] failed [OF _ _ _ _ f] False M by (cases nw) (auto split: prod.splits)
  next
    case no: False
    then show thesis using r queued [OF _ _ f] False unfolding if_not_P [OF no] by auto
  qed
qed

lemma offer_ok: "lane_ok off L \<Longrightarrow> lane_ok (off @ [ob]) (snd (offer tx nw ob L))"
proof -
  assume L: "lane_ok off L"
  let ?M = "if lo_live ob then probe tx (lo_group ob) L else L"
  have M: "lane_ok off ?M" "ln_stopped ?M = ln_stopped L" "ln_floor ?M = ln_floor L" "ln_items ?M = ln_items L" using L by simp_all
  show ?thesis
  proof (cases rule: offer_cases [of tx nw ob L])
    case (ignored k)
    then show ?thesis using ok_later [OF L] by simp
  next
    case (taken sent)
    then show ?thesis using inline_ok [OF M(1)] M(4) by (simp add: written_def)
  next
    case (failed fatal ok L2)
    have "lane_ok (off @ [ob]) L2" using failed_ok [OF inline_ok [OF M(1)], of ob ob fatal] failed(1,3) M(4) by simp
    then show ?thesis using failed(2) stop_ok [of "off @ [ob]" L2] by simp
  next
    case queued
    then show ?thesis using enqueue_ok [OF M(1), of ob tx] M(2,3) by simp
  qed
qed

lemma put_ok: "lane_ok off L \<Longrightarrow> i \<noteq> Cut \<Longrightarrow> \<forall>ob. i \<noteq> Object ob \<Longrightarrow> lane_ok off (put i L)"
proof -
  assume L: "lane_ok off L" and i: "i \<noteq> Cut" "\<forall>ob. i \<noteq> Object ob"
  have "objs [i] = []" using objs_control [OF i(2), of "[]"] by simp
  then show ?thesis using L i(1)
    by (auto simp: put_def lane_ok_def counted_def cost_of_def objects_of_def above_def cut_first_def split: if_splits)
qed

lemma resume_ok: "lane_ok off L \<Longrightarrow> lane_ok off (resume g rejoin L)"
proof (cases "ln_stopped L \<or> ln_final L")
  case True
  then show "lane_ok off L \<Longrightarrow> ?thesis" by (simp add: resume_def)
next
  case False
  assume L: "lane_ok off L"
  obtain kept L1 where s: "sift (\<lambda>ob. g < lo_group ob) False (ln_items L) L = (kept, L1)" by fastforce
  obtain b r n k where L1: "L1 = discount b r n k L" using sifted(3) [OF s] by blast
  have kept: "kept = filter (kept_item (\<lambda>ob. g < lo_group ob)) (ln_items L)" by (rule sifted(1) [OF s])
  define L2 where "L2 = call W_Reset_Group (L1\<lparr>ln_items := filter (resume_keeps g) kept\<rparr>)"
  have ob: "objs (filter (resume_keeps g) kept) = filter (\<lambda>ob. g < lo_group ob) (objs (ln_items L))"
    by (subst objs_filter_control) (simp_all add: resume_keeps_def kept objs_kept)
  have okept: "objs kept = filter (\<lambda>ob. g < lo_group ob) (objs (ln_items L))" by (simp add: kept objs_kept)
  have c: "cost_of q (filter (resume_keeps g) kept) = cost_of q kept" "objects_of (filter (resume_keeps g) kept) = objects_of kept" for q
    by (simp_all only: cost_of_def objects_of_def ob okept)
  have "counted L2" using sifted(2) [OF s] L by (simp add: L2_def lane_ok_def counted_def c)
  moreover have "cut_first (ln_cut L) (filter (resume_keeps g) kept)"
    unfolding kept using L False by (intro cut_first_filter) (auto simp: lane_ok_def resume_keeps_def)
  ultimately have L2: "lane_ok off L2" using L False ob by (auto simp: L2_def L1 lane_ok_def above_def subseq_drop)
  have "above (Some g) (ln_items L2)" using ob by (auto simp: L2_def above_def)
  then show ?thesis using L2 skip_ok [OF L2] floor_ok [OF L2, of "Some g"] False s by (simp add: resume_def Let_def L2_def)
qed

text \<open>The task takes the head of the queue.\<close>

lemma popped_ok:
  assumes "lane_ok off L" "ln_items L = Object ob # is" "\<not> ln_stopped L"
  shows "lane_ok off (uncount ob (L\<lparr>ln_items := is\<rparr>))" "subseq (handed (ln_calls L) @ [ob] @ objs is) off"
    "case ln_floor L of None \<Rightarrow> True | Some f \<Rightarrow> f \<le> lo_group ob"
proof -
  have s: "subseq (handed (ln_calls L) @ ob # objs is) off" using assms(1,2) by (simp add: lane_ok_def)
  then show "subseq (handed (ln_calls L) @ [ob] @ objs is) off" by simp
  have "subseq (handed (ln_calls L) @ objs is) off" by (rule subseq_drop [OF s]) (simp add: list_emb_Cons)
  then show "lane_ok off (uncount ob (L\<lparr>ln_items := is\<rparr>))" using assms
    by (auto simp: lane_ok_def counted_def uncount_def above_def cut_first_def split: if_splits)
  show "case ln_floor L of None \<Rightarrow> True | Some f \<Rightarrow> f \<le> lo_group ob" using assms(1,2) by (simp add: lane_ok_def above_def split: option.splits)
qed

lemma uncount_kept [simp]:
  "ln_items (uncount ob L) = ln_items L" "ln_floor (uncount ob L) = ln_floor L" "ln_cut (uncount ob L) = ln_cut L" "ln_stopped (uncount ob L) = ln_stopped L"
  "ln_calls (uncount ob L) = ln_calls L" "ln_gate (uncount ob L) = ln_gate L" "ln_max_bytes (uncount ob L) = ln_max_bytes L"
  "ln_tx_bytes (uncount ob L) = ln_tx_bytes L" "ln_bytes (uncount ob L) = ln_bytes L - (if lo_live ob then lo_cost ob else 0)"
  by (simp_all add: uncount_def)

lemma take_ok:
  assumes "lane_ok off L" "ln_items L = Object ob # is" "\<not> ln_stopped L"
  shows "lane_ok off (take_object now expires ob (L\<lparr>ln_items := is\<rparr>))"
proof -
  let ?L = "uncount ob (L\<lparr>ln_items := is\<rparr>)"
  note p = popped_ok [OF assms]
  have g: "lane_ok off (skip k c (call W_Reset_Group ?L))" for k c using p(1) by (simp add: skip_ok call_ok)
  have x: "lane_ok off (skip k c (call (W_Expire e) (?L\<lparr>ln_expired := n\<rparr>)))" "lane_ok off (call (W_Expire e) (?L\<lparr>ln_expired := n\<rparr>))" for k c e n
    using p(1) by (simp_all add: skip_ok call_ok)
  have w: "lane_ok off (call (W_Send ob) (?L\<lparr>ln_busy := b\<rparr>))" for b using p by (simp add: lane_ok_def counted_def)
  show ?thesis unfolding take_object_def Let_def using g x w by simp
qed

lemma lane_control_ok:
  assumes "lane_ok off L" "ln_items L = i # is" "\<not> ln_stopped L" "\<forall>ob. i \<noteq> Object ob"
  shows "lane_ok off (control_item raises i (L\<lparr>ln_items := is\<rparr>))"
proof -
  have o: "objs (ln_items L) = objs is" using assms(2) objs_control [OF assms(4)] by simp
  have L': "lane_ok off (L\<lparr>ln_items := is, ln_cut := (if i = Cut then False else ln_cut L)\<rparr>)"
    using assms(1-3) o by (auto simp: lane_ok_def counted_def cost_of_def objects_of_def above_def cut_first_def split: if_splits)
  then have s: "i \<noteq> Cut \<Longrightarrow> lane_ok off (L\<lparr>ln_items := is\<rparr>)" by simp
  show ?thesis using L' s
    by (cases i) (auto simp: control_item_def Let_def call_ok skip_ok split: option.split)
qed

lemma turn_ok: "lane_ok off L \<Longrightarrow> lane_ok off (run_step now expires raises L)"
proof (cases "ln_over L \<or> ln_busy L \<noteq> Idle \<or> ln_stopped L")
  case True
  assume "lane_ok off L"
  then show ?thesis using True by (auto simp: run_step_def)
next
  case False
  assume L: "lane_ok off L"
  show ?thesis
  proof (cases "ln_items L")
    case Nil
    then show ?thesis using L False by (simp add: run_step_def)
  next
    case (Cons i "is")
    have c: "\<forall>ob. i \<noteq> Object ob \<Longrightarrow> lane_ok off (control_item raises i (L\<lparr>ln_items := is\<rparr>))" using lane_control_ok [OF L Cons] False by simp
    have t: "i = Object ob \<Longrightarrow> lane_ok off (take_object now expires ob (L\<lparr>ln_items := is\<rparr>))" for ob using take_ok [OF L] Cons False by simp
    show ?thesis using Cons False c t
      by (cases i) (auto simp: run_step_def Let_def call_ok control_item_def)
  qed
qed

lemma ended_ok: "lane_ok off L \<Longrightarrow> lane_ok off (send_ended r L)"
proof (cases "ln_busy L")
  case (Sending ob)
  assume "lane_ok off L"
  then have "lane_ok off (snd (send_failed ob fatal (L\<lparr>ln_busy := Idle\<rparr>)))" for fatal by (intro failed_ok) simp
  moreover assume "lane_ok off L"
  ultimately show ?thesis using Sending
    by (cases r) (simp_all add: send_ended_def Let_def written_def split: prod.split, metis snd_conv)
qed (simp_all add: send_ended_def Let_def)

section \<open>Every event keeps the invariant\<close>

definition offered :: "'p lane_event \<Rightarrow> 'p lane_obj list" where
  "offered e = (case e of Offer _ _ ob \<Rightarrow> [ob] | _ \<Rightarrow> [])"

definition offers :: "'p lane_event list \<Rightarrow> 'p lane_obj list" where
  "offers es = concat (map offered es)"

lemma offers_simps [simp]: "offers [] = []" "offers (e # es) = offered e @ offers es" "offers (es @ fs) = offers es @ offers fs"
  by (simp_all add: offers_def)

lemma check_ok: "lane_ok off L \<Longrightarrow> lane_ok off (check now stall L)"
  by (simp add: check_def)

lemma lane_step_ok: "lane_ok off L \<Longrightarrow> lane_ok (off @ offered e) (lane_step e L)"
proof (cases e)
  case (Put i)
  assume "lane_ok off L"
  then show ?thesis using Put put_ok [of off L i] by (cases i) (simp_all add: lane_step_def offered_def)
qed (auto simp: lane_step_def offered_def offer_ok close_streams_def finish_def resume_ok stop_ok turn_ok ended_ok check_ok put_ok)

definition note_step :: "'p lane_event \<Rightarrow> 'p lane_obj list \<times> 'p lane \<Rightarrow> 'p lane_obj list \<times> 'p lane" where
  "note_step e = (\<lambda>(off, L). (off @ offered e, lane_step e L))"

interpretation lane: step_invariant note_step "\<lambda>(off, L). lane_ok off L" "([], new_lane m t)" for m t
proof unfold_locales
  show "case note_step e s of (off, L) \<Rightarrow> lane_ok off L" if "case s of (off, L) \<Rightarrow> lane_ok off L" "True" for e and s :: "'a lane_obj list \<times> 'a lane"
    using that lane_step_ok [of "fst s" "snd s" e] by (simp add: note_step_def split: prod.splits)
  show "case ([], new_lane m t :: 'a lane) of (off, L) \<Rightarrow> lane_ok off L"
    by (simp add: lane_ok_def new_lane_def counted_def above_def cut_first_def)
qed

lemma fold_note: "fold note_step es (off, L) = (off @ offers es, fold lane_step es L)"
  by (induction es arbitrary: off L) (simp_all add: note_step_def)

lemma lane_reachable: "lane_ok (offers es) (fold lane_step es (new_lane m t))"
  using lane.reachable [of es m t] by (simp add: fold_note)

text \<open>C13: after any sequence of offers, control calls and turns of the task, the byte and object counts of a send lane are
  those of its queue, and the objects it handed to its writer followed by the queued ones are a subsequence of the objects
  offered: nothing is duplicated or reordered.\<close>

theorem lane_accounting:
  fixes es m t
  defines "L \<equiv> fold lane_step es (new_lane m t)"
  shows "ln_bytes L = cost_of lo_live (ln_items L) \<and> ln_replay_bytes L = cost_of (\<lambda>ob. \<not> lo_live ob) (ln_items L)
    \<and> ln_objects L = objects_of (ln_items L) \<and> subseq (handed (ln_calls L) @ objs (ln_items L)) (offers es)"
  using lane_reachable [of es m t] by (simp add: L_def lane_ok_def counted_def)

section \<open>The bound\<close>

text \<open>No event but an offer adds an object to the queue.\<close>

definition shrinks :: "'p lane \<Rightarrow> 'p lane \<Rightarrow> bool" where
  "shrinks L L' \<longleftrightarrow> subseq (objs (ln_items L')) (objs (ln_items L)) \<and> ln_max_bytes L' = ln_max_bytes L
    \<and> (ln_tx_bytes L' = ln_tx_bytes L \<or> ln_tx_bytes L' = 0)"

lemma shrinks_trans [trans]: "shrinks L M \<Longrightarrow> shrinks M N \<Longrightarrow> shrinks L N"
  by (auto simp: shrinks_def intro: subseq_order.trans)

lemma drop_shrinks: "shrinks L (drop_below fl c L)"
  by (simp add: shrinks_def dropped(1) objs_kept)

lemma skip_shrinks: "shrinks L (skip g c L)"
  using drop_shrinks [of "L\<lparr>ln_floor := Some (g + 1)\<rparr>" "g + 1" c] by (simp add: skip_def shrinks_def split: option.split)

lemma failed_shrinks: "shrinks L (snd (send_failed ob fatal L))"
  using skip_shrinks [of "call W_Reset_Group L" "lo_group ob" True] by (simp add: send_failed_def shrinks_def)

lemma stop_shrinks: "shrinks L (snd (stop L))"
  by (simp add: stop_def shrinks_def)

lemma resume_shrinks: "shrinks L (resume g rejoin L)"
proof (cases "ln_stopped L \<or> ln_final L")
  case True
  then show ?thesis by (simp add: resume_def shrinks_def)
next
  case False
  obtain kept L1 where s: "sift (\<lambda>ob. g < lo_group ob) False (ln_items L) L = (kept, L1)" by fastforce
  obtain b r n k where L1: "L1 = discount b r n k L" using sifted(3) [OF s] by blast
  define L2 where "L2 = call W_Reset_Group (L1\<lparr>ln_items := filter (resume_keeps g) kept\<rparr>)"
  have "objs (filter (resume_keeps g) kept) = filter (\<lambda>ob. g < lo_group ob) (objs (ln_items L))"
    by (subst objs_filter_control) (simp_all add: resume_keeps_def sifted(1) [OF s] objs_kept)
  then have L2: "shrinks L L2" by (simp add: L2_def shrinks_def L1)
  have "shrinks L (skip g False L2)" by (rule shrinks_trans [OF L2 skip_shrinks])
  moreover have "shrinks L (L2\<lparr>ln_floor := f\<rparr>)" for f using L2 by (simp add: shrinks_def)
  ultimately show ?thesis using L2 s False by (simp add: resume_def Let_def L2_def)
qed

lemma take_shrinks: "shrinks L (take_object now expires ob L)"
proof -
  have g: "shrinks L (skip k c (call W_Reset_Group (uncount ob L)))" for k c
    by (rule shrinks_trans [OF _ skip_shrinks]) (simp add: shrinks_def)
  have e: "shrinks L (skip k c (call (W_Expire i) ((uncount ob L)\<lparr>ln_expired := n\<rparr>)))" for k c i n
    by (rule shrinks_trans [OF _ skip_shrinks]) (simp add: shrinks_def)
  show ?thesis using g e by (simp add: take_object_def Let_def shrinks_def)
qed

lemma control_shrinks: "shrinks L (control_item raises i L)"
  using skip_shrinks [of "call W_Reset_Group L" _ True]
  by (cases i) (simp_all add: control_item_def Let_def shrinks_def split: option.split)

lemma popped_shrinks: "ln_items L = i # is \<Longrightarrow> shrinks L (L\<lparr>ln_items := is\<rparr>)"
  by (cases i) (simp_all add: shrinks_def objs_def list_emb_Cons)

lemma turn_shrinks: "shrinks L (run_step now expires raises L)"
proof (cases "ln_over L \<or> ln_busy L \<noteq> Idle \<or> ln_stopped L")
  case True
  then show ?thesis by (auto simp: run_step_def shrinks_def)
next
  case False
  show ?thesis
  proof (cases "ln_items L")
    case Nil
    then show ?thesis using False by (simp add: run_step_def shrinks_def)
  next
    case (Cons i "is")
    let ?L = "L\<lparr>ln_items := is\<rparr>"
    have c: "shrinks L (control_item raises i ?L)" by (rule shrinks_trans [OF popped_shrinks [OF Cons] control_shrinks])
    have t: "shrinks L (take_object now expires ob ?L)" for ob by (rule shrinks_trans [OF popped_shrinks [OF Cons] take_shrinks])
    show ?thesis using Cons False c t popped_shrinks [OF Cons]
      by (cases i) (simp_all add: run_step_def Let_def shrinks_def)
  qed
qed

lemma ended_shrinks: "shrinks L (send_ended r L)"
proof (cases "ln_busy L")
  case (Sending ob)
  have "shrinks L (snd (send_failed ob fatal (L\<lparr>ln_busy := Idle\<rparr>)))" for fatal
    by (rule shrinks_trans [OF _ failed_shrinks]) (simp add: shrinks_def)
  then show ?thesis using Sending
    by (cases r) (simp_all add: send_ended_def Let_def written_def shrinks_def split: prod.split, metis snd_conv)
qed (simp_all add: send_ended_def Let_def shrinks_def)

lemma step_shrinks: "offered e = [] \<Longrightarrow> shrinks L (lane_step e L)"
proof (cases e)
  case (Put i)
  then show ?thesis by (cases i) (simp_all add: lane_step_def put_def shrinks_def objs_def)
qed (simp_all add: offered_def lane_step_def resume_shrinks stop_shrinks turn_shrinks ended_shrinks,
   simp_all add: shrinks_def close_streams_def finish_def put_def objs_def check_def)

lemma cost_mono: "subseq xs ys \<Longrightarrow> \<forall>ob \<in> set ys. 0 \<le> lo_cost ob \<Longrightarrow> sum_list (map lo_cost (filter p xs)) \<le> sum_list (map lo_cost (filter p ys))"
  by (induction rule: list_emb.induct) (auto intro!: sum_list_nonneg)

lemma shrinks_bytes:
  assumes "shrinks L L'" "counted L" "counted L'" "\<forall>ob \<in> set (objs (ln_items L)). 0 \<le> lo_cost ob"
  shows "ln_bytes L' \<le> ln_bytes L"
  using assms cost_mono [of "objs (ln_items L')" "objs (ln_items L)" lo_live] by (simp add: shrinks_def counted_def cost_of_def)

lemma shed_bytes:
  assumes L: "counted L" and top: "\<forall>ob \<in> set (objs (ln_items L)). lo_live ob \<longrightarrow> lo_group ob \<le> g"
    and tx: "\<And>f. 0 \<le> tx f" and m: "0 \<le> ln_max_bytes L"
  shows "ln_bytes (shed_groups tx g L) \<le> ln_max_bytes L \<and> 0 \<le> ln_tx_bytes (shed_groups tx g L)"
proof -
  define L1 where "L1 = (drop_below g True L)\<lparr>ln_tx_bytes := tx (Some g)\<rparr>"
  define D where "D = drop_below (g + 1) True L1"
  have c: "counted D" unfolding D_def L1_def using dropped(2) [OF L, of g True] by (intro dropped(2)) (simp add: counted_def)
  have none: "filter lo_live (objs (ln_items D)) = []"
    using top unfolding D_def dropped(1) [of "g + 1"] objs_kept L1_def by (auto simp: dropped(1) objs_kept filter_empty_conv)
  have D: "ln_bytes D = 0" using c by (simp add: counted_def cost_of_def none)
  have "ln_bytes (shed_groups tx g L) = (if ln_max_bytes L1 < ln_bytes L1 + ln_tx_bytes L1 then ln_bytes D else ln_bytes L1)"
    "ln_tx_bytes (shed_groups tx g L) = (if ln_max_bytes L1 < ln_bytes L1 + ln_tx_bytes L1 then tx (Some (g + 1)) else tx (Some g))"
    by (simp_all add: shed_groups_def shed_queue_def Let_def L1_def D_def)
  then show ?thesis using D m tx [of "Some g"] tx [of "Some (g + 1)"] by (simp add: L1_def)
qed

lemma enqueue_bytes:
  assumes "lane_ok off L" "\<forall>ob' \<in> set (objs (ln_items L)). lo_live ob' \<and> lo_live ob \<longrightarrow> lo_group ob' \<le> lo_group ob"
    and "\<And>f. 0 \<le> tx f" "0 \<le> ln_max_bytes L" "ln_bytes L \<le> ln_max_bytes L" "0 \<le> ln_tx_bytes L"
  shows "ln_bytes (enqueue tx ob L) \<le> ln_max_bytes L \<and> 0 \<le> ln_tx_bytes (enqueue tx ob L)"
proof -
  let ?L = "(count_in ob L)\<lparr>ln_items := ln_items L @ [Object ob]\<rparr>"
  have c: "counted ?L" using assms(1) by (simp add: lane_ok_def counted_def count_in_def)
  have "lo_live ob \<Longrightarrow> ln_bytes (shed_groups tx (lo_group ob) ?L) \<le> ln_max_bytes L \<and> 0 \<le> ln_tx_bytes (shed_groups tx (lo_group ob) ?L)"
    using shed_bytes [OF c, of "lo_group ob" tx] assms(2-4) by simp
  then show ?thesis using assms(5,6) by (simp add: enqueue_def Let_def)
qed

text \<open>The lane is within its bound, and the transport's backlog as last read is no less than zero.\<close>

definition bounded :: "'p lane \<Rightarrow> bool" where
  "bounded L \<longleftrightarrow> ln_bytes L \<le> ln_max_bytes L \<and> 0 \<le> ln_tx_bytes L"

lemma probe_tx: "(\<And>f. 0 \<le> tx f) \<Longrightarrow> 0 \<le> ln_tx_bytes L \<Longrightarrow> 0 \<le> ln_tx_bytes (probe tx g L)"
  by (simp add: probe_def Let_def)

lemma offer_bounded:
  assumes L: "lane_ok off L" "bounded L" "0 \<le> ln_max_bytes L" and tx: "\<And>f. 0 \<le> tx f"
    and costs: "\<forall>ob \<in> set (objs (ln_items L)). 0 \<le> lo_cost ob"
    and top: "\<forall>ob' \<in> set (objs (ln_items L)). lo_live ob' \<and> lo_live ob \<longrightarrow> lo_group ob' \<le> lo_group ob"
  shows "bounded (snd (offer tx nw ob L)) \<and> ln_max_bytes (snd (offer tx nw ob L)) = ln_max_bytes L"
proof -
  let ?M = "if lo_live ob then probe tx (lo_group ob) L else L"
  have M: "lane_ok off ?M" "ln_items ?M = ln_items L" "ln_max_bytes ?M = ln_max_bytes L" "ln_bytes ?M = ln_bytes L" using L by simp_all
  have Mtx: "0 \<le> ln_tx_bytes ?M" using L(2) probe_tx [of tx L "lo_group ob", OF tx] by (simp add: bounded_def)
  have Mb: "bounded ?M" using L(2) M Mtx by (simp add: bounded_def)
  show ?thesis
  proof (cases rule: offer_cases [of tx nw ob L])
    case (ignored k)
    then show ?thesis using L by (simp add: bounded_def)
  next
    case (taken sent)
    then show ?thesis using Mb M by (simp add: written_def bounded_def)
  next
    case (failed fatal ok L2)
    let ?C = "call (W_Send ob) ?M"
    have ok: "lane_ok (off @ [ob]) ?C" "lane_ok (off @ [ob]) L2"
      using inline_ok [OF M(1)] failed_ok [OF inline_ok [OF M(1)], of ob ob fatal] failed(1,3) M(2) by simp_all
    have s: "shrinks ?C L2" using failed_shrinks [of ?C ob fatal] failed(1) by simp
    have s': "shrinks ?C (snd (stop L2))" by (rule shrinks_trans [OF s stop_shrinks])
    have cnt: "counted ?C" "counted L2" "counted (snd (stop L2))" using ok stop_ok [OF ok(2)] by (simp_all add: lane_ok_def)
    have "ln_bytes L2 \<le> ln_bytes ?C" "ln_bytes (snd (stop L2)) \<le> ln_bytes ?C"
      using shrinks_bytes [OF s cnt(1,2)] shrinks_bytes [OF s' cnt(1,3)] costs M(2) by simp_all
    then have "bounded L2 \<and> ln_max_bytes L2 = ln_max_bytes L" "bounded (snd (stop L2)) \<and> ln_max_bytes (snd (stop L2)) = ln_max_bytes L"
      using s s' Mb M unfolding shrinks_def bounded_def by auto
    then show ?thesis using failed(2) by simp
  next
    case queued
    have "ln_max_bytes (enqueue tx ob ?M) = ln_max_bytes ?M" by (simp add: enqueue_def Let_def)
    then show ?thesis using queued enqueue_bytes [OF M(1) _ tx, of ob] top L(3) Mb M unfolding bounded_def by auto
  qed
qed

definition steady :: "'p lane_event \<Rightarrow> bool" where
  "steady e = (case e of Offer tx _ ob \<Rightarrow> (\<forall>f. 0 \<le> tx f) \<and> 0 \<le> lo_cost ob | _ \<Rightarrow> True)"

lemma step_bounded:
  assumes L: "lane_ok off L" "bounded L" "0 \<le> ln_max_bytes L" and e: "steady e" and costs: "\<forall>ob \<in> set off. 0 \<le> lo_cost ob"
    and asc: "sorted (map lo_group (filter lo_live (off @ offered e)))"
  shows "bounded (lane_step e L) \<and> ln_max_bytes (lane_step e L) = ln_max_bytes L"
proof (cases "offered e = []")
  case True
  have q: "set (objs (ln_items L)) \<subseteq> set off" using L(1) subseq_append_iff [of "handed (ln_calls L)"] by (auto simp: lane_ok_def dest: list_emb_set)
  have "counted (lane_step e L)" using lane_step_ok [OF L(1), of e] by (simp add: lane_ok_def)
  then have "ln_bytes (lane_step e L) \<le> ln_bytes L"
    using shrinks_bytes [OF step_shrinks [OF True]] L(1) costs q by (auto simp: lane_ok_def)
  then show ?thesis using step_shrinks [OF True, of L] L(2) unfolding shrinks_def bounded_def by auto
next
  case False
  then obtain tx nw ob where o: "e = Offer tx nw ob" by (auto simp: offered_def split: lane_event.splits)
  have q: "set (objs (ln_items L)) \<subseteq> set off" using L(1) by (auto simp: lane_ok_def dest: list_emb_set)
  have "\<forall>ob' \<in> set (objs (ln_items L)). lo_live ob' \<and> lo_live ob \<longrightarrow> lo_group ob' \<le> lo_group ob"
    using asc q by (auto simp: o offered_def sorted_append)
  then show ?thesis using offer_bounded [OF L, of tx ob nw] e costs q by (auto simp: o steady_def lane_step_def)
qed

lemma run_bounded:
  assumes "list_all steady es" "sorted (map lo_group (filter lo_live (offers es)))" "0 \<le> m"
  shows "bounded (fold lane_step es (new_lane m t)) \<and> ln_max_bytes (fold lane_step es (new_lane m t)) = m"
  using assms
proof (induction es rule: rev_induct)
  case Nil
  then show ?case by (simp add: bounded_def new_lane_def)
next
  case (snoc e es)
  have costs: "list_all steady es \<Longrightarrow> \<forall>ob \<in> set (offers es). 0 \<le> lo_cost ob"
    by (induction es) (auto simp: steady_def offered_def split: lane_event.splits)
  have "bounded (fold lane_step es (new_lane m t)) \<and> ln_max_bytes (fold lane_step es (new_lane m t)) = m"
    using snoc by (simp add: sorted_append)
  then show ?case using step_bounded [OF lane_reachable, of es m t e] costs snoc.prems by simp
qed

text \<open>C11: while the groups of the live objects offered ascend, no cost is negative and the transport never reports a negative backlog,
  the live bytes queued on a send lane never exceed its bound, whatever the task, the writer and the other callers do.\<close>

theorem lane_bounded:
  assumes "list_all steady es" "sorted (map lo_group (filter lo_live (offers es)))" "0 \<le> m"
  shows "ln_bytes (fold lane_step es (new_lane m t)) \<le> m"
  using run_bounded [OF assms, of t] by (simp add: bounded_def)

section \<open>Groups that are not sent again\<close>

text \<open>\<open>L'\<close> is \<open>L\<close> with more writer calls, all of them of the kind \<open>P\<close>.\<close>

definition adds :: "('p writer_call \<Rightarrow> bool) \<Rightarrow> 'p lane \<Rightarrow> 'p lane \<Rightarrow> bool" where
  "adds P L L' \<longleftrightarrow> (\<exists>cs. ln_calls L' = ln_calls L @ cs \<and> list_all P cs)"


lemma adds_one: "ln_calls L' = ln_calls L @ [c] \<Longrightarrow> P c \<Longrightarrow> adds P L L'"
  by (simp add: adds_def)

lemma adds_trans: "adds P L M \<Longrightarrow> adds P M N \<Longrightarrow> adds P L N"
  by (auto simp: adds_def)




lemma stop_calls [simp]: "ln_calls (snd (stop L)) = ln_calls L"
  by (simp add: stop_def)










lemma put_calls [simp]: "ln_calls (put i L) = ln_calls L"
  by (simp add: put_def)












lemma count_lost [simp]: "ln_lost (count_in ob L) = ln_lost L"
  by (simp add: count_in_def)

lemma uncount_lost [simp]: "ln_lost (uncount ob L) = ln_lost L"
  by (simp add: uncount_def)


lemma probe_lost [simp]: "ln_lost (probe tx k L) = ln_lost L"
  by (simp add: probe_def Let_def)












section \<open>A cut comes first\<close>

definition is_below :: "'p writer_call \<Rightarrow> bool" where
  "is_below c = (case c of W_Reset_Below _ \<Rightarrow> True | _ \<Rightarrow> False)"

lemma is_below_simps [simp]: "is_below (W_Reset_Below f)" "\<not> is_below W_Reset_Group"
  by (simp_all add: is_below_def)
















section \<open>Concrete runs\<close>

definition ex_obj :: "int \<Rightarrow> int \<Rightarrow> nat \<Rightarrow> nat lane_obj" where
  "ex_obj g c n = \<lparr>lo_group = g, lo_cost = c, lo_live = True, lo_born = None, lo_rest = n\<rparr>"

definition ex_offer :: "int \<Rightarrow> int \<Rightarrow> nat \<Rightarrow> nat lane_event" where
  "ex_offer g c n = Offer (\<lambda>_. 0) Would_Wait (ex_obj g c n)"

definition ex_shed :: "nat lane_event list" where
  "ex_shed = [ex_offer 1 60 0, ex_offer 2 60 1]"


theorem lane_bounded_witness:
  "ln_bytes (fold lane_step ex_shed (new_lane 100 0)) \<le> 100 \<and> ln_bytes (fold lane_step ex_shed (new_lane 100 0)) = 60"
proof -
  have "ln_bytes (fold lane_step ex_shed (new_lane 100 0)) = 60" by code_simp
  moreover have "list_all steady ex_shed" "sorted (map lo_group (filter lo_live (offers ex_shed)))"
    by (simp_all add: ex_shed_def ex_offer_def ex_obj_def steady_def offered_def)
  ultimately show ?thesis using lane_bounded [of ex_shed 100 0] by simp
qed



text \<open>
  A send that fails while a newer group is shed: \<^verbatim>\<open>_failed\<close> sets \<^verbatim>\<open>_lost\<close> back to the older group, so \<^verbatim>\<open>resume\<close> with \<^verbatim>\<open>rejoin\<close> goes on
  with the middle of the shed group.
\<close>

definition ex_failing :: "nat lane_event list" where
  "ex_failing = [ex_offer 1 60 0, Turn 0 False False, ex_offer 2 200 1]"

definition ex_rejoined :: "nat lane_event list" where
  "ex_rejoined = [Send_Ended (Send_Raised False), Resume 2 True, ex_offer 2 10 2, Turn 0 False False, Turn 0 False False]"

lemma failed_send_forgets_shed_group:
  "ln_lost (fold lane_step ex_failing (new_lane 100 0)) = Some 2 \<and> ln_floor (fold lane_step ex_failing (new_lane 100 0)) = Some 3
    \<and> handed (ln_calls (fold lane_step (ex_failing @ ex_rejoined) (new_lane 100 0))) = [ex_obj 1 60 0, ex_obj 2 10 2]"
  by code_simp

end
