(* ===== verification/Subgroup_Delivery.thy ===== *)
theory Subgroup_Delivery
  imports Data_Session Step_Systems
begin

text \<open>
  The \<^verbatim>\<open>SubgroupDelivery\<close> of \<^verbatim>\<open>delivery.py\<close>: one session's copy of an object sequence, a stream per group or per object or a
  datagram per object, and the encodings deliveries of one object share. A coroutine is cut at its waits: \<open>sd_pending\<close> holds
  what follows a wait, and the session answers with an \<open>answer\<close>. The calls of the session are recorded in a log; an open
  stream and its header are one field, since the code sets and clears them together. \<open>C\<close> is the integer codec and \<open>E\<close> the
  object encoder of the transport. The session's count of queued bytes is the argument \<open>used\<close>.
\<close>

section \<open>Shared encodings\<close>

datatype StreamMapping = PER_GROUP | PER_OBJECT | DATAGRAM

datatype cache_key =
    Stream_State "bool \<times> bool \<times> bool \<times> int option"
  | Datagram_State "int \<times> int \<times> bool \<times> bool \<times> bool"

type_synonym encodings = "(cache_key \<times> params option \<times> bytes) list"

type_synonym object_encoder = "bool \<Rightarrow> int \<Rightarrow> kvps option \<Rightarrow> int \<Rightarrow> bytes \<Rightarrow> bool \<Rightarrow> bool \<Rightarrow> bytes result"

text \<open>Equality of dictionaries does not look at the order of their items; the order is compared apart.\<close>

definition dict_equal :: "params \<Rightarrow> params \<Rightarrow> bool" where
  "dict_equal a b \<longleftrightarrow> length a = length b \<and> list_all (\<lambda>(k, v). dict_get b k = Some v) a"

definition same_extensions :: "params option \<Rightarrow> params option \<Rightarrow> bool" where
  "same_extensions a b = (case (a, b) of
     (None, None) \<Rightarrow> True
   | (Some x, Some y) \<Rightarrow> dict_equal x y \<and> map fst x = map fst y
   | _ \<Rightarrow> False)"

definition ENCODINGS_MAX :: nat where "ENCODINGS_MAX = 4"

fun cached :: "encodings \<Rightarrow> cache_key \<Rightarrow> params option \<Rightarrow> bytes option" where
  "cached [] key extensions = None"
| "cached ((k, exts, data) # encoded) key extensions =
    (if k = key \<and> same_extensions exts extensions then Some data else cached encoded key extensions)"

definition cache_add :: "encodings \<Rightarrow> cache_key \<Rightarrow> params option \<Rightarrow> bytes \<Rightarrow> encodings" where
  "cache_add encoded key extensions data =
    (if length encoded < ENCODINGS_MAX then encoded @ [(key, extensions, data)] else encoded)"

text \<open>An extension dictionary of the application: no type is repeated in it.\<close>

definition as_kvps :: "params option \<Rightarrow> kvps option" where
  "as_kvps = map_option (\<lambda>d. (d, []))"

definition object_bytes ::
    "object_encoder \<Rightarrow> SubgroupHeader \<Rightarrow> int \<Rightarrow> bytes \<Rightarrow> params option \<Rightarrow> encodings option \<Rightarrow> (bytes \<times> SubgroupHeader \<times> encodings option) result" where
  "object_bytes E hdr object_id payload extensions encoded = (case encoded of
     None \<Rightarrow> bindR (sh_next_object_bytes E hdr payload (as_kvps extensions) STATUS_NORMAL (Some object_id)) (\<lambda>(data, hdr'). Inr (data, hdr', None))
   | Some c \<Rightarrow>
       (let state = Stream_State (sh_encoding_state hdr) in
        case cached c state extensions of
          None \<Rightarrow> bindR (sh_next_object_bytes E hdr payload (as_kvps extensions) STATUS_NORMAL (Some object_id)) (\<lambda>(data, hdr').
            Inr (data, hdr', Some (cache_add c state extensions data)))
        | Some data \<Rightarrow> Inr (data, sh_advance hdr object_id, Some c)))"

section \<open>State\<close>

text \<open>What is fixed when the delivery is made.\<close>

record sd_config =
  dc_track_alias :: int
  dc_priority :: int
  dc_stream_priority :: "int option"
  dc_mapping :: StreamMapping
  dc_prof :: "DraftProfile option"
  dc_nowait :: bool

record object_item =
  it_group :: int
  it_object_id :: int
  it_payload :: bytes
  it_extensions :: "params option"
  it_group_start :: bool

text \<open>
  The session's calls. \<open>D_Fin\<close> writes an object with the FIN, or the FIN alone. \<open>D_Parked\<close> tells the lane what a send waits for,
  \<^verbatim>\<open>header\<close> or \<^verbatim>\<open>object\<close>.
\<close>

datatype dcall =
    D_Open int
  | D_Priority int int
  | D_Header int SubgroupHeader bytes
  | D_Object int publication bytes
  | D_Fin int "publication option" bytes
  | D_Reset int int
  | D_Datagram bytes
  | D_Parked bool

datatype pending =
    P_Open nat object_item
  | P_Header nat object_item
  | P_Object nat object_item
  | P_One_Open object_item
  | P_One_Header object_item int SubgroupHeader
  | P_One_Object object_item int
  | P_Datagram object_item
  | P_End_Open int
  | P_End_Datagram

record subgroup_delivery =
  sd_stream_count :: nat
  sd_largest :: "(int \<times> int) option"
  sd_objects_sent :: nat
  sd_bytes_sent :: nat
  sd_passes :: "(int \<Rightarrow> int \<Rightarrow> bool) option"
  sd_excludes_end :: "(int \<Rightarrow> int \<Rightarrow> bool) option"
  sd_open :: "(int \<times> SubgroupHeader) option"
  sd_stopped_group :: "int option"
  sd_epoch :: nat
  sd_datagrams_shared :: bool
  sd_lane :: bool
  sd_tx_streams :: "int dict"
  sd_pending :: "pending option"
  sd_log :: "dcall list"

definition new_delivery :: subgroup_delivery where
  "new_delivery = \<lparr>sd_stream_count = 0, sd_largest = None, sd_objects_sent = 0, sd_bytes_sent = 0, sd_passes = None, sd_excludes_end = None,
     sd_open = None, sd_stopped_group = None, sd_epoch = 0, sd_datagrams_shared = True, sd_lane = False, sd_tx_streams = [],
     sd_pending = None, sd_log = []\<rparr>"

definition log_call :: "dcall \<Rightarrow> subgroup_delivery \<Rightarrow> subgroup_delivery" where
  "log_call c D = D\<lparr>sd_log := sd_log D @ [c]\<rparr>"

datatype write_error = Codec py_error | Datagram_Too_Large int int | Of_Session

text \<open>A call waits for the session, returns (whether the object was sent) or raises.\<close>

datatype outcome = Waits | Returned bool | Raised_Error write_error

datatype answer = Opened int | Drained | Was_Stopped | Session_Failed

section \<open>Operations\<close>

definition note_largest :: "int \<Rightarrow> int \<Rightarrow> subgroup_delivery \<Rightarrow> subgroup_delivery" where
  "note_largest g ob D =
    (if (case sd_largest D of None \<Rightarrow> True | Some (g', ob') \<Rightarrow> g' < g \<or> g' = g \<and> ob' < ob) then D\<lparr>sd_largest := Some (g, ob)\<rparr> else D)"

definition count_sent :: "object_item \<Rightarrow> subgroup_delivery \<Rightarrow> subgroup_delivery" where
  "count_sent it D =
    (let D1 = note_largest (it_group it) (it_object_id it) D
     in D1\<lparr>sd_objects_sent := Suc (sd_objects_sent D1), sd_bytes_sent := sd_bytes_sent D1 + length (it_payload it)\<rparr>)"

definition end_excluded :: "subgroup_delivery \<Rightarrow> SubgroupHeader \<Rightarrow> bool" where
  "end_excluded D h = (case sd_excludes_end D of None \<Rightarrow> False | Some f \<Rightarrow> f (sh_group_id h) (sh_next_object_id h))"

definition keep_tx :: "int \<Rightarrow> int \<Rightarrow> subgroup_delivery \<Rightarrow> subgroup_delivery" where
  "keep_tx sid gid D = (if sd_lane D then D\<lparr>sd_tx_streams := dict_set (sd_tx_streams D) sid gid\<rparr> else D)"

text \<open>The open stream ends with the FIN, behind a status object if there is one; \<open>None\<close> when it ended, else what was raised.\<close>

definition finish_stream :: "vcodec \<Rightarrow> int option \<Rightarrow> subgroup_delivery \<Rightarrow> py_error option \<times> subgroup_delivery" where
  "finish_stream C status D = (case sd_open D of
     None \<Rightarrow> (None, D)
   | Some (sid, h) \<Rightarrow>
       (case status of
          None \<Rightarrow> (None, (keep_tx sid (sh_group_id h) (log_call (D_Fin sid None []) D))\<lparr>sd_open := None\<rparr>)
        | Some st \<Rightarrow>
            (case sh_next_object C h [] None st (Some (sh_next_object_id h)) of
               Inl e \<Rightarrow> (Some e, D)
             | Inr (data, h') \<Rightarrow>
                 (None, (keep_tx sid (sh_group_id h) (log_call (D_Fin sid (Some ([], None, st, Some (sh_next_object_id h))) data) D))\<lparr>sd_open := None\<rparr>))))"

definition end_group :: "vcodec \<Rightarrow> subgroup_delivery \<Rightarrow> py_error option \<times> subgroup_delivery" where
  "end_group C D = (case sd_open D of
     None \<Rightarrow> (None, D)
   | Some (sid, h) \<Rightarrow> finish_stream C (if end_excluded D h then None else Some STATUS_END_OF_GROUP) D)"

definition passes :: "subgroup_delivery \<Rightarrow> int \<Rightarrow> int \<Rightarrow> bool" where
  "passes D g ob = (case sd_passes D of None \<Rightarrow> True | Some p \<Rightarrow> p g ob)"

definition group_header :: "sd_config \<Rightarrow> int \<Rightarrow> int \<Rightarrow> bool \<Rightarrow> SubgroupHeader" where
  "group_header F g subgroup first =
    \<lparr>sh_track_alias = dc_track_alias F, sh_group_id = g, sh_subgroup_id = Some subgroup, sh_publisher_priority = dc_priority F,
     sh_extensions_present = True, sh_end_of_group = False, sh_subgroup_id_mode = SUBGROUP_ID_EXPLICIT, sh_first_object = first,
     sh_default_priority = False, sh_prof = dc_prof F, sh_last_object_id = None\<rparr>"

text \<open>\<^verbatim>\<open>_datagram_key\<close>, \<^verbatim>\<open>_datagram_bytes\<close>\<close>

definition datagram_key :: "sd_config \<Rightarrow> cache_key" where
  "datagram_key F = Datagram_State (dc_track_alias F, dc_priority F, opt_vi64 (dc_prof F), opt_merged (dc_prof F), opt_delta (dc_prof F))"

definition object_datagram :: "sd_config \<Rightarrow> int \<Rightarrow> int \<Rightarrow> bytes \<Rightarrow> params option \<Rightarrow> int \<Rightarrow> ObjectDatagram" where
  "object_datagram F g ob payload extensions status =
    \<lparr>od_track_alias = dc_track_alias F, od_group_id = g, od_object_id = ob, od_publisher_priority = dc_priority F,
     od_extensions = as_kvps extensions, od_payload = payload, od_end_of_group = False, od_status = status\<rparr>"

definition datagram_bytes ::
    "vcodec \<Rightarrow> sd_config \<Rightarrow> bool \<Rightarrow> int \<Rightarrow> int \<Rightarrow> bytes \<Rightarrow> params option \<Rightarrow> encodings option \<Rightarrow> (bytes \<times> encodings option) result" where
  "datagram_bytes C F shared g ob payload extensions encoded =
    (let plain = od_serialize C (dc_prof F) (object_datagram F g ob payload extensions STATUS_NORMAL) in
     case (encoded, shared) of
       (Some c, True) \<Rightarrow>
         (case cached c (datagram_key F) extensions of
            Some data \<Rightarrow> Inr (data, encoded)
          | None \<Rightarrow> bindR plain (\<lambda>data. Inr (data, Some (cache_add c (datagram_key F) extensions data))))
     | _ \<Rightarrow> bindR plain (\<lambda>data. Inr (data, encoded)))"

definition parked :: "bool \<Rightarrow> subgroup_delivery \<Rightarrow> subgroup_delivery" where
  "parked header D = (if sd_lane D then log_call (D_Parked header) D else D)"

definition prioritised :: "sd_config \<Rightarrow> int \<Rightarrow> subgroup_delivery \<Rightarrow> subgroup_delivery" where
  "prioritised F sid D = (case dc_stream_priority F of None \<Rightarrow> D | Some p \<Rightarrow> log_call (D_Priority sid p) D)"

definition opened :: "int \<Rightarrow> subgroup_delivery \<Rightarrow> subgroup_delivery" where
  "opened sid D = (log_call (D_Open sid) D)\<lparr>sd_stream_count := Suc (sd_stream_count D)\<rparr>"

definition wait_for :: "pending \<Rightarrow> subgroup_delivery \<Rightarrow> subgroup_delivery" where
  "wait_for p D = D\<lparr>sd_pending := Some p\<rparr>"

definition publication_of :: "object_item \<Rightarrow> publication" where
  "publication_of it = (it_payload it, as_kvps (it_extensions it), STATUS_NORMAL, Some (it_object_id it))"

text \<open>The last part of a PER_GROUP write: the object on the open stream.\<close>

definition send_object :: "object_encoder \<Rightarrow> nat \<Rightarrow> object_item \<Rightarrow> encodings option \<Rightarrow> subgroup_delivery \<Rightarrow> outcome \<times> encodings option \<times> subgroup_delivery" where
  "send_object E epoch it encoded D = (case sd_open D of
     None \<Rightarrow> (Raised_Error (Codec AttributeError), encoded, D)
   | Some (sid, h) \<Rightarrow>
       (case object_bytes E h (it_object_id it) (it_payload it) (it_extensions it) encoded of
          Inl e \<Rightarrow> (Raised_Error (Codec e), encoded, D)
        | Inr (data, h', encoded') \<Rightarrow>
            (Waits, encoded', wait_for (P_Object epoch it) (log_call (D_Object sid (publication_of it) data) (D\<lparr>sd_open := Some (sid, h')\<rparr>)))))"

definition write_object :: "vcodec \<Rightarrow> object_encoder \<Rightarrow> sd_config \<Rightarrow> int \<Rightarrow> object_item \<Rightarrow> encodings option \<Rightarrow> subgroup_delivery \<Rightarrow> outcome \<times> encodings option \<times> subgroup_delivery" where
  "write_object C E F limit it encoded D =
    (if \<not> passes D (it_group it) (it_object_id it) then
       (if it_group_start it then
          (case end_group C D of (Some e, D1) \<Rightarrow> (Raised_Error (Codec e), encoded, D1) | (None, D1) \<Rightarrow> (Returned False, encoded, D1))
        else (Returned False, encoded, D))
     else if sd_stopped_group D = Some (it_group it) \<and> \<not> it_group_start it then (Returned False, encoded, D)
     else case dc_mapping F of
       DATAGRAM \<Rightarrow>
         (case datagram_bytes C F (sd_datagrams_shared D) (it_group it) (it_object_id it) (it_payload it) (it_extensions it) encoded of
            Inl e \<Rightarrow> (Raised_Error (Codec e), encoded, D)
          | Inr (data, encoded') \<Rightarrow>
              if limit < int (length data) then (Raised_Error (Datagram_Too_Large (int (length data)) limit), encoded', D)
              else (Waits, encoded', wait_for (P_Datagram it) (log_call (D_Datagram data) D)))
     | PER_OBJECT \<Rightarrow> (Waits, encoded, wait_for (P_One_Open it) (parked True D))
     | PER_GROUP \<Rightarrow>
         if it_group_start it \<or> sd_open D = None then
           (case end_group C D of
              (Some e, D1) \<Rightarrow> (Raised_Error (Codec e), encoded, D1)
            | (None, D1) \<Rightarrow> (Waits, encoded, wait_for (P_Open (sd_epoch D) it) (parked True D1)))
         else send_object E (sd_epoch D) it encoded D)"

text \<open>A PER_GROUP stream was opened: it becomes the open one with its header.\<close>

definition group_opened :: "vcodec \<Rightarrow> sd_config \<Rightarrow> nat \<Rightarrow> object_item \<Rightarrow> int \<Rightarrow> subgroup_delivery \<Rightarrow> outcome \<times> subgroup_delivery" where
  "group_opened C F epoch it sid D =
    (let D1 = opened sid D in
     if sd_epoch D1 \<noteq> epoch then (Returned False, log_call (D_Reset sid RESET_CANCELLED) D1)
     else let hdr = group_header F (it_group it) 0 (it_group_start it);
              D2 = (prioritised F sid D1)\<lparr>sd_open := Some (sid, hdr)\<rparr>
          in case sh_serialize C hdr of
               Inl e \<Rightarrow> (Raised_Error (Codec e), D2)
             | Inr data \<Rightarrow> (Waits, wait_for (P_Header epoch it) (log_call (D_Header sid hdr data) D2)))"

definition one_opened :: "vcodec \<Rightarrow> sd_config \<Rightarrow> object_item \<Rightarrow> int \<Rightarrow> subgroup_delivery \<Rightarrow> outcome \<times> subgroup_delivery" where
  "one_opened C F it sid D =
    (let D1 = prioritised F sid (opened sid D);
         hdr = group_header F (it_group it) (it_object_id it) True
     in case sh_serialize C hdr of
          Inl e \<Rightarrow> (Raised_Error (Codec e), D1)
        | Inr data \<Rightarrow> (Waits, wait_for (P_One_Header it sid hdr) (log_call (D_Header sid hdr data) D1)))"

definition end_opened :: "vcodec \<Rightarrow> sd_config \<Rightarrow> int \<Rightarrow> int \<Rightarrow> subgroup_delivery \<Rightarrow> outcome \<times> subgroup_delivery" where
  "end_opened C F g sid D =
    (let D1 = prioritised F sid (opened sid D);
         hdr = group_header F g 0 True
     in case sh_serialize C hdr of
          Inl e \<Rightarrow> (Raised_Error (Codec e), D1)
        | Inr hb \<Rightarrow>
            (case sh_next_object C hdr [] None STATUS_END_OF_TRACK (Some 0) of
               Inl e \<Rightarrow> (Raised_Error (Codec e), D1)
             | Inr (data, _) \<Rightarrow>
                 (Returned False, keep_tx sid g (log_call (D_Fin sid (Some ([], None, STATUS_END_OF_TRACK, Some 0)) data) (log_call (D_Header sid hdr hb) D1)))))"

text \<open>The coroutine goes on behind a wait, or \<^verbatim>\<open>MOQTStreamStopped\<close> or another exception is raised there.\<close>

definition write_goes_on :: "vcodec \<Rightarrow> object_encoder \<Rightarrow> sd_config \<Rightarrow> pending \<Rightarrow> answer \<Rightarrow> encodings option \<Rightarrow> subgroup_delivery \<Rightarrow> outcome \<times> encodings option \<times> subgroup_delivery" where
  "write_goes_on C E F p a encoded D = (case (p, a) of
     (P_Open epoch it, Opened sid) \<Rightarrow> (let (r, D1) = group_opened C F epoch it sid D in (r, encoded, D1))
   | (P_Header epoch it, Drained) \<Rightarrow>
       (let D1 = parked False D in
        if sd_epoch D1 \<noteq> epoch then (Returned False, encoded, D1) else send_object E epoch it encoded D1)
   | (P_Object epoch it, Drained) \<Rightarrow>
       if sd_epoch D \<noteq> epoch then (Returned False, encoded, D) else (Returned True, encoded, count_sent it D)
   | (P_One_Open it, Opened sid) \<Rightarrow> (let (r, D1) = one_opened C F it sid D in (r, encoded, D1))
   | (P_One_Header it sid h, Drained) \<Rightarrow>
       (let D1 = parked False D in
        case object_bytes E h (it_object_id it) (it_payload it) (it_extensions it) encoded of
          Inl e \<Rightarrow> (Raised_Error (Codec e), encoded, D1)
        | Inr (data, h', encoded') \<Rightarrow> (Waits, encoded', wait_for (P_One_Object it sid) (log_call (D_Object sid (publication_of it) data) D1)))
   | (P_One_Object it sid, Drained) \<Rightarrow>
       (Returned True, encoded, count_sent it (keep_tx sid (it_group it) (log_call (D_Fin sid None []) D)))
   | (P_Datagram it, Drained) \<Rightarrow> (Returned True, encoded, count_sent it D)
   | (P_End_Open g, Opened sid) \<Rightarrow> (let (r, D1) = end_opened C F g sid D in (r, encoded, D1))
   | (P_End_Datagram, Drained) \<Rightarrow> (Returned False, encoded, D)
   | (_, Was_Stopped) \<Rightarrow>
       (case p of
          P_End_Open g \<Rightarrow> (Raised_Error Of_Session, encoded, D)
        | P_End_Datagram \<Rightarrow> (Raised_Error Of_Session, encoded, D)
        | P_Open epoch it \<Rightarrow> (Returned False, encoded, if sd_epoch D = epoch then D\<lparr>sd_stopped_group := Some (it_group it), sd_open := None\<rparr> else D)
        | P_Header epoch it \<Rightarrow> (Returned False, encoded, if sd_epoch D = epoch then D\<lparr>sd_stopped_group := Some (it_group it), sd_open := None\<rparr> else D)
        | P_Object epoch it \<Rightarrow> (Returned False, encoded, if sd_epoch D = epoch then D\<lparr>sd_stopped_group := Some (it_group it), sd_open := None\<rparr> else D)
        | _ \<Rightarrow> (Returned False, encoded, D))
   | (_, Session_Failed) \<Rightarrow> (Raised_Error Of_Session, encoded, D)
   | _ \<Rightarrow> (Waits, encoded, wait_for p D))"

text \<open>\<^verbatim>\<open>end_track\<close>\<close>

definition end_track :: "vcodec \<Rightarrow> sd_config \<Rightarrow> (int \<times> int) option \<Rightarrow> subgroup_delivery \<Rightarrow> outcome \<times> subgroup_delivery" where
  "end_track C F largest D = (case sd_open D of
     Some (sid, h) \<Rightarrow>
       (case (if end_excluded D h then end_group C D else finish_stream C (Some STATUS_END_OF_TRACK) D) of
          (Some e, D1) \<Rightarrow> (Raised_Error (Codec e), D1)
        | (None, D1) \<Rightarrow> (Returned False, D1))
   | None \<Rightarrow>
       (let g = (case largest of None \<Rightarrow> 0 | Some (l, _) \<Rightarrow> l + 1) in
        if \<not> passes D g 0 then (Returned False, D)
        else if dc_mapping F = DATAGRAM then
          (case (if opt_merged (dc_prof F) then od_serialize C (dc_prof F) else ods_serialize C (dc_prof F)) (object_datagram F g 0 [] None STATUS_END_OF_TRACK) of
             Inl e \<Rightarrow> (Raised_Error (Codec e), D)
           | Inr data \<Rightarrow> (Waits, wait_for P_End_Datagram (log_call (D_Datagram data) D)))
        else (Waits, wait_for (P_End_Open g) D)))"

definition reset_group :: "int \<Rightarrow> subgroup_delivery \<Rightarrow> subgroup_delivery" where
  "reset_group code D =
    (let D1 = D\<lparr>sd_epoch := Suc (sd_epoch D)\<rparr> in
     case sd_open D1 of None \<Rightarrow> D1 | Some (sid, h) \<Rightarrow> (log_call (D_Reset sid code) D1)\<lparr>sd_open := None\<rparr>)"

text \<open>\<^verbatim>\<open>send_nowait\<close>; \<open>taken\<close> is what \<^verbatim>\<open>stream_write_nowait\<close> answers: it took the bytes, did not, or the stream was stopped.\<close>

datatype taken = Taken | Not_Taken | Stream_Stopped

definition send_nowait :: "object_encoder \<Rightarrow> sd_config \<Rightarrow> taken \<Rightarrow> object_item \<Rightarrow> encodings option \<Rightarrow> subgroup_delivery \<Rightarrow> outcome \<times> encodings option \<times> subgroup_delivery" where
  "send_nowait E F t it encoded D = (case sd_open D of
     None \<Rightarrow> (Waits, encoded, D)
   | Some (sid, h) \<Rightarrow>
       if it_group_start it \<or> \<not> dc_nowait F then (Waits, encoded, D)
       else if \<not> passes D (it_group it) (it_object_id it) then (Returned False, encoded, D)
       else let last = sh_next_object_id h - 1 in
         if last < 0 then (Waits, encoded, D)
         else case object_bytes E h (it_object_id it) (it_payload it) (it_extensions it) encoded of
           Inl e \<Rightarrow> (Raised_Error (Codec e), encoded, D)
         | Inr (data, h', encoded') \<Rightarrow>
             (case t of
                Not_Taken \<Rightarrow> (Waits, encoded', D\<lparr>sd_open := Some (sid, sh_advance h' last)\<rparr>)
              | Stream_Stopped \<Rightarrow> (Returned False, encoded', D\<lparr>sd_stopped_group := Some (it_group it), sd_open := None\<rparr>)
              | Taken \<Rightarrow> (Returned True, encoded', count_sent it (log_call (D_Object sid (publication_of it) data) (D\<lparr>sd_open := Some (sid, h')\<rparr>)))))"

definition expire :: "vcodec \<Rightarrow> sd_config \<Rightarrow> int \<Rightarrow> subgroup_delivery \<Rightarrow> outcome \<times> subgroup_delivery" where
  "expire C F g D =
    (if dc_mapping F = DATAGRAM then (Returned False, D)
     else if map_option (\<lambda>(_, h). sh_group_id h) (sd_open D) = Some g then (Returned True, reset_group RESET_DELIVERY_TIMEOUT D)
     else case end_group C D of (Some e, D1) \<Rightarrow> (Raised_Error (Codec e), D1) | (None, D1) \<Rightarrow> (Returned True, D1))"

definition above_floor :: "int option \<Rightarrow> int \<Rightarrow> bool" where
  "above_floor fl g = (case fl of None \<Rightarrow> True | Some f \<Rightarrow> f \<le> g)"

text \<open>\<^verbatim>\<open>tx_queued\<close>: the bytes counted, and the delivery without the streams that have drained.\<close>

definition tx_queued :: "(int \<Rightarrow> int) \<Rightarrow> int option \<Rightarrow> subgroup_delivery \<Rightarrow> int \<times> subgroup_delivery" where
  "tx_queued used fl D =
    (let live = (case sd_open D of None \<Rightarrow> 0 | Some (sid, h) \<Rightarrow> if above_floor fl (sh_group_id h) then used sid else 0)
     in (live + sum_list (map (\<lambda>(sid, g). if used sid \<noteq> 0 \<and> above_floor fl g then used sid else 0) (sd_tx_streams D)),
         D\<lparr>sd_tx_streams := filter (\<lambda>(sid, g). used sid \<noteq> 0) (sd_tx_streams D)\<rparr>))"

definition reset_below :: "(int \<Rightarrow> int) \<Rightarrow> int \<Rightarrow> subgroup_delivery \<Rightarrow> subgroup_delivery" where
  "reset_below used fl D =
    (let D1 = (case sd_open D of None \<Rightarrow> D | Some (sid, h) \<Rightarrow> if sh_group_id h < fl then reset_group RESET_CANCELLED D else D);
         gone = filter (\<lambda>(sid, g). g < fl) (sd_tx_streams D1);
         D2 = D1\<lparr>sd_tx_streams := filter (\<lambda>(sid, g). \<not> g < fl) (sd_tx_streams D1)\<rparr>
     in fold (\<lambda>(sid, g). if used sid \<noteq> 0 then log_call (D_Reset sid RESET_CANCELLED) else id) gone D2)"

section \<open>Shared encodings are exact\<close>

definition dict_exts_ok :: "params option \<Rightarrow> bool" where
  "dict_exts_ok x = (case x of None \<Rightarrow> True | Some d \<Rightarrow> dict_ok d)"

lemma same_items:
  assumes "map fst x = map fst y" "distinct (map fst x)" "list_all (\<lambda>(k, v). map_of y k = Some v) x"
  shows "x = y"
proof (rule nth_equalityI)
  show l: "length x = length y" using assms(1) by (metis length_map)
  fix i assume i: "i < length x"
  have f: "fst (x ! i) = fst (y ! i)" using assms(1) i l by (metis nth_map)
  have "map_of y (fst (x ! i)) = Some (snd (x ! i))" using assms(3) i by (auto simp: list_all_length split: prod.splits)
  moreover have "map_of y (fst (y ! i)) = Some (snd (y ! i))" using assms(1,2) i l by (metis map_of_eq_Some_iff nth_mem prod.collapse)
  ultimately show "x ! i = y ! i" using f by (simp add: prod_eq_iff)
qed

lemma same_extensions_eq: "same_extensions a b \<Longrightarrow> dict_exts_ok a \<Longrightarrow> a = b"
proof (cases a)
  case (Some x)
  assume s: "same_extensions a b" and ok: "dict_exts_ok a"
  then obtain y where b: "b = Some y" using Some by (cases b) (auto simp: same_extensions_def)
  have "map fst x = map fst y" "distinct (map fst x)" "list_all (\<lambda>(k, v). map_of y k = Some v) x"
    using s ok unfolding Some b same_extensions_def dict_exts_ok_def dict_ok_def dict_equal_def dict_get_def by simp_all
  then have "x = y" by (rule same_items)
  then show ?thesis by (simp add: Some b)
qed (auto simp: same_extensions_def split: option.splits)

text \<open>Every entry holds the bytes its key's deliveries encode themselves.\<close>

definition entry_exact :: "vcodec \<Rightarrow> object_encoder \<Rightarrow> int \<Rightarrow> int \<Rightarrow> bytes \<Rightarrow> cache_key \<times> params option \<times> bytes \<Rightarrow> bool" where
  "entry_exact C E g ob payload = (\<lambda>(k, x, data). dict_exts_ok x
    \<and> (\<forall>h. k = Stream_State (sh_encoding_state h) \<longrightarrow> sh_next_object_bytes E h payload (as_kvps x) STATUS_NORMAL (Some ob) = Inr (data, sh_advance h ob))
    \<and> (\<forall>F. k = datagram_key F \<longrightarrow> od_serialize C (dc_prof F) (object_datagram F g ob payload x STATUS_NORMAL) = Inr data))"

definition encodings_exact :: "vcodec \<Rightarrow> object_encoder \<Rightarrow> int \<Rightarrow> int \<Rightarrow> bytes \<Rightarrow> encodings \<Rightarrow> bool" where
  "encodings_exact C E g ob payload = list_all (entry_exact C E g ob payload)"

lemma cached_exact:
  assumes "encodings_exact C E g ob payload c" "cached c key x = Some data"
  shows "entry_exact C E g ob payload (key, x, data)"
  using assms
proof (induction c key x rule: cached.induct)
  case (2 k exts d c key x)
  show ?case
  proof (cases "k = key \<and> same_extensions exts x")
    case True
    then have "exts = x" using 2(2) by (auto simp: encodings_exact_def entry_exact_def intro!: same_extensions_eq)
    then show ?thesis using True 2(2,3) by (simp add: encodings_exact_def)
  next
    case False
    then show ?thesis using 2 by (auto simp: encodings_exact_def)
  qed
qed simp

lemma cache_add_exact:
  "encodings_exact C E g ob payload c \<Longrightarrow> entry_exact C E g ob payload (key, x, data) \<Longrightarrow> encodings_exact C E g ob payload (cache_add c key x data)"
  by (simp add: cache_add_def encodings_exact_def)

text \<open>The bytes of an object depend on the encoding state alone, those of a datagram on the key.\<close>

lemma next_bytes_state:
  assumes "sh_encoding_state h = sh_encoding_state h'" "sh_next_object_bytes E h p x s (Some i) = Inr (data, a)"
  shows "a = sh_advance h i" "sh_next_object_bytes E h' p x s (Some i) = Inr (data, sh_advance h' i)"
  using assms by (auto simp: sh_next_object_bytes_def sh_encoding_state_def bindR_def split: sum.splits)

lemma datagram_key_bytes:
  "datagram_key F = datagram_key F' \<Longrightarrow>
   od_serialize C (dc_prof F) (object_datagram F g ob p x s) = od_serialize C (dc_prof F') (object_datagram F' g ob p x s)"
  by (simp add: datagram_key_def object_datagram_def od_serialize_def od_type_def od_is_status_def)

lemma keys_apart [simp]: "Stream_State s \<noteq> datagram_key F" "datagram_key F \<noteq> Stream_State s"
  by (simp_all add: datagram_key_def)

lemma stream_entry_exact:
  assumes "dict_exts_ok x" "sh_next_object_bytes E h payload (as_kvps x) STATUS_NORMAL (Some ob) = Inr (data, h')"
  shows "entry_exact C E g ob payload (Stream_State (sh_encoding_state h), x, data)"
  using assms(1) next_bytes_state(2) [OF _ assms(2)] by (auto simp: entry_exact_def)

lemma datagram_entry_exact:
  assumes "dict_exts_ok x" "od_serialize C (dc_prof F) (object_datagram F g ob payload x STATUS_NORMAL) = Inr data"
  shows "entry_exact C E g ob payload (datagram_key F, x, data)"
proof -
  have "od_serialize C (dc_prof F') (object_datagram F' g ob payload x STATUS_NORMAL) = Inr data" if "datagram_key F = datagram_key F'" for F'
    using datagram_key_bytes [OF that, of C g ob payload x STATUS_NORMAL] assms(2) by simp
  then show ?thesis using assms(1) by (simp add: entry_exact_def)
qed

lemma object_bytes_exact:
  assumes "\<And>c. enc = Some c \<Longrightarrow> encodings_exact C E g ob payload c"
  shows "map_sum id (\<lambda>(data, h', _). (data, h')) (object_bytes E h ob payload x enc)
    = sh_next_object_bytes E h payload (as_kvps x) STATUS_NORMAL (Some ob)"
proof (cases enc)
  case None
  then show ?thesis by (auto simp: object_bytes_def bindR_def split: sum.split)
next
  case (Some c)
  show ?thesis
  proof (cases "cached c (Stream_State (sh_encoding_state h)) x")
    case None
    then show ?thesis using Some by (auto simp: object_bytes_def Let_def bindR_def split: sum.split)
  next
    case hit: (Some data)
    then show ?thesis using cached_exact [OF assms [OF Some] hit] Some by (simp add: object_bytes_def entry_exact_def)
  qed
qed

lemma object_bytes_keeps:
  assumes "encodings_exact C E g ob payload c" "dict_exts_ok x" "object_bytes E h ob payload x (Some c) = Inr (data, h', enc')"
  shows "\<exists>c'. enc' = Some c' \<and> encodings_exact C E g ob payload c'"
proof (cases "cached c (Stream_State (sh_encoding_state h)) x")
  case None
  then obtain d a where n: "sh_next_object_bytes E h payload (as_kvps x) STATUS_NORMAL (Some ob) = Inr (d, a)"
    using assms(3) by (auto simp: object_bytes_def bindR_def split: sum.splits)
  then have "enc' = Some (cache_add c (Stream_State (sh_encoding_state h)) x d)" using assms(3) None by (auto simp: object_bytes_def)
  then show ?thesis using cache_add_exact [OF assms(1) stream_entry_exact [OF assms(2) n]] by simp
next
  case (Some d)
  then show ?thesis using assms(1,3) by (auto simp: object_bytes_def)
qed

lemma datagram_bytes_exact:
  assumes "encodings_exact C E g ob payload c" "dict_exts_ok x"
  shows "map_sum id fst (datagram_bytes C F shared g ob payload x (Some c)) = od_serialize C (dc_prof F) (object_datagram F g ob payload x STATUS_NORMAL)"
    "datagram_bytes C F shared g ob payload x (Some c) = Inr (data, enc') \<Longrightarrow> \<exists>c'. enc' = Some c' \<and> encodings_exact C E g ob payload c'"
proof -
  show "map_sum id fst (datagram_bytes C F shared g ob payload x (Some c)) = od_serialize C (dc_prof F) (object_datagram F g ob payload x STATUS_NORMAL)"
    using cached_exact [OF assms(1), of "datagram_key F" x]
    by (auto simp: datagram_bytes_def Let_def bindR_def entry_exact_def split: option.split sum.split bool.split)
  show "datagram_bytes C F shared g ob payload x (Some c) = Inr (data, enc') \<Longrightarrow> \<exists>c'. enc' = Some c' \<and> encodings_exact C E g ob payload c'"
    using assms(1) datagram_entry_exact [OF assms(2), of C F g ob payload] cache_add_exact [OF assms(1)]
    by (auto simp: datagram_bytes_def Let_def bindR_def split: option.splits sum.splits bool.splits)
qed

text \<open>The deliveries of one object, one after the other, with the list they share.\<close>

datatype copy = On_Stream SubgroupHeader "params option" | As_Datagram sd_config bool "params option"

fun copies :: "vcodec \<Rightarrow> object_encoder \<Rightarrow> int \<Rightarrow> int \<Rightarrow> bytes \<Rightarrow> encodings \<Rightarrow> copy list \<Rightarrow> (bytes \<times> SubgroupHeader option) result list" where
  "copies C E g ob payload c [] = []"
| "copies C E g ob payload c (On_Stream h x # rs) = (case object_bytes E h ob payload x (Some c) of
     Inl e \<Rightarrow> Inl e # copies C E g ob payload c rs
   | Inr (data, h', enc) \<Rightarrow> Inr (data, Some h') # copies C E g ob payload (case enc of None \<Rightarrow> c | Some c' \<Rightarrow> c') rs)"
| "copies C E g ob payload c (As_Datagram F shared x # rs) = (case datagram_bytes C F shared g ob payload x (Some c) of
     Inl e \<Rightarrow> Inl e # copies C E g ob payload c rs
   | Inr (data, enc) \<Rightarrow> Inr (data, None) # copies C E g ob payload (case enc of None \<Rightarrow> c | Some c' \<Rightarrow> c') rs)"

definition alone :: "vcodec \<Rightarrow> object_encoder \<Rightarrow> int \<Rightarrow> int \<Rightarrow> bytes \<Rightarrow> copy \<Rightarrow> (bytes \<times> SubgroupHeader option) result" where
  "alone C E g ob payload r = (case r of
     On_Stream h x \<Rightarrow> map_sum id (\<lambda>(data, h'). (data, Some h')) (sh_next_object_bytes E h payload (as_kvps x) STATUS_NORMAL (Some ob))
   | As_Datagram F shared x \<Rightarrow> map_sum id (\<lambda>data. (data, None)) (od_serialize C (dc_prof F) (object_datagram F g ob payload x STATUS_NORMAL)))"

definition copy_ok :: "copy \<Rightarrow> bool" where
  "copy_ok r = (case r of On_Stream _ x \<Rightarrow> dict_exts_ok x | As_Datagram _ _ x \<Rightarrow> dict_exts_ok x)"

lemma copies_exact:
  "encodings_exact C E g ob payload c \<Longrightarrow> list_all copy_ok rs \<Longrightarrow> copies C E g ob payload c rs = map (alone C E g ob payload) rs"
proof (induction rs arbitrary: c)
  case (Cons r rs)
  show ?case
  proof (cases r)
    case (On_Stream h x)
    have e: "map_sum id (\<lambda>(data, h', _). (data, h')) (object_bytes E h ob payload x (Some c))
      = sh_next_object_bytes E h payload (as_kvps x) STATUS_NORMAL (Some ob)" using object_bytes_exact [of "Some c" C E g ob payload h x] Cons.prems(1) by simp
    show ?thesis using Cons object_bytes_keeps [OF Cons.prems(1), of x h] e [symmetric]
      by (auto simp: On_Stream alone_def copy_ok_def split: sum.splits)
  next
    case (As_Datagram F shared x)
    have x: "dict_exts_ok x" using Cons.prems(2) by (simp add: As_Datagram copy_ok_def)
    show ?thesis using Cons datagram_bytes_exact(2) [OF Cons.prems(1) x, of F shared] datagram_bytes_exact(1) [OF Cons.prems(1) x, of F shared, symmetric]
      by (auto simp: As_Datagram alone_def split: sum.splits)
  qed
qed simp

text \<open>C14: the deliveries of one object may share their encodings: whatever drafts, stream states, mappings and extensions the peers
  have, each gets the bytes, and leaves its stream header in the state, that encoding the object on its own gives.\<close>

theorem shared_encodings_exact:
  assumes "list_all copy_ok rs"
  shows "copies C E g ob payload [] rs = map (alone C E g ob payload) rs"
  using copies_exact [OF _ assms] by (simp add: encodings_exact_def)

section \<open>Runs\<close>

text \<open>
  The events of a delivery behind a lane. The lane's task runs one call at a time, so its calls find no wait open; a reset and the
  reading of the backlog may come in between. \<open>shared\<close> gives the list of encodings an object has at the moment.
\<close>

datatype sd_event =
    Ev_Write int "object_item \<Rightarrow> encodings option" object_item
  | Ev_Answer "object_item \<Rightarrow> encodings option" answer
  | Ev_Nowait "object_item \<Rightarrow> encodings option" taken object_item
  | Ev_End_Group
  | Ev_End_Track "(int \<times> int) option"
  | Ev_Expire int
  | Ev_Reset_Group int
  | Ev_Reset_Below "int \<Rightarrow> int" int
  | Ev_Tx_Queued "int \<Rightarrow> int" "int option"
  | Ev_Filter "(int \<Rightarrow> int \<Rightarrow> bool) option" "(int \<Rightarrow> int \<Rightarrow> bool) option"
  | Ev_Lane bool
  | Ev_Shared bool

definition pending_item :: "pending \<Rightarrow> object_item option" where
  "pending_item p = (case p of P_Open _ it \<Rightarrow> Some it | P_Header _ it \<Rightarrow> Some it | P_Object _ it \<Rightarrow> Some it | P_One_Open it \<Rightarrow> Some it
    | P_One_Header it _ _ \<Rightarrow> Some it | P_One_Object it _ \<Rightarrow> Some it | P_Datagram it \<Rightarrow> Some it | _ \<Rightarrow> None)"

definition idle_call :: "(subgroup_delivery \<Rightarrow> subgroup_delivery) \<Rightarrow> subgroup_delivery \<Rightarrow> subgroup_delivery" where
  "idle_call f D = (if sd_pending D = None then f D else D)"

definition sd_step :: "vcodec \<Rightarrow> object_encoder \<Rightarrow> sd_config \<Rightarrow> sd_event \<Rightarrow> subgroup_delivery \<Rightarrow> subgroup_delivery" where
  "sd_step C E F e D = (case e of
     Ev_Write limit shared it \<Rightarrow> idle_call (\<lambda>D. snd (snd (write_object C E F limit it (shared it) D))) D
   | Ev_Answer shared a \<Rightarrow>
       (case sd_pending D of
          None \<Rightarrow> D
        | Some p \<Rightarrow> snd (snd (write_goes_on C E F p a (Option.bind (pending_item p) shared) (D\<lparr>sd_pending := None\<rparr>))))
   | Ev_Nowait shared t it \<Rightarrow> idle_call (\<lambda>D. snd (snd (send_nowait E F t it (shared it) D))) D
   | Ev_End_Group \<Rightarrow> idle_call (\<lambda>D. snd (end_group C D)) D
   | Ev_End_Track largest \<Rightarrow> idle_call (\<lambda>D. snd (end_track C F largest D)) D
   | Ev_Expire g \<Rightarrow> idle_call (\<lambda>D. snd (expire C F g D)) D
   | Ev_Reset_Group code \<Rightarrow> reset_group code D
   | Ev_Reset_Below used fl \<Rightarrow> reset_below used fl D
   | Ev_Tx_Queued used fl \<Rightarrow> snd (tx_queued used fl D)
   | Ev_Filter p x \<Rightarrow> D\<lparr>sd_passes := p, sd_excludes_end := x\<rparr>
   | Ev_Lane b \<Rightarrow> D\<lparr>sd_lane := b\<rparr>
   | Ev_Shared b \<Rightarrow> D\<lparr>sd_datagrams_shared := b\<rparr>)"

section \<open>What a stream may carry\<close>

text \<open>
  A checker for the log: a stream is opened once, carries its header and then objects, each encoded behind the one before it, and
  after its FIN or its reset nothing but a reset.
\<close>

datatype s_state = S_Opened | S_Live SubgroupHeader | S_Ended

definition object_on :: "vcodec \<Rightarrow> SubgroupHeader \<Rightarrow> publication \<Rightarrow> (bytes \<times> SubgroupHeader) result" where
  "object_on C h x = (case x of (payload, exts, status, oid) \<Rightarrow> sh_next_object C h payload exts status oid)"

definition conform_call :: "vcodec \<Rightarrow> dcall \<Rightarrow> (int \<Rightarrow> s_state option) \<Rightarrow> (int \<Rightarrow> s_state option) option" where
  "conform_call C c m = (case c of
     D_Open s \<Rightarrow> if m s = None then Some (m(s \<mapsto> S_Opened)) else None
   | D_Priority s p \<Rightarrow> if m s = Some S_Opened then Some m else None
   | D_Header s h data \<Rightarrow>
       if m s = Some S_Opened \<and> sh_last_object_id h = None \<and> sh_serialize C h = Inr data then Some (m(s \<mapsto> S_Live h)) else None
   | D_Object s x data \<Rightarrow>
       (case m s of
          Some (S_Live h) \<Rightarrow> (case object_on C h x of Inr (d, h') \<Rightarrow> if d = data then Some (m(s \<mapsto> S_Live h')) else None | Inl _ \<Rightarrow> None)
        | _ \<Rightarrow> None)
   | D_Fin s x data \<Rightarrow>
       (case m s of
          Some (S_Live h) \<Rightarrow>
            (case x of
               None \<Rightarrow> if data = [] then Some (m(s \<mapsto> S_Ended)) else None
             | Some x \<Rightarrow> (case object_on C h x of Inr (d, h') \<Rightarrow> if d = data then Some (m(s \<mapsto> S_Ended)) else None | Inl _ \<Rightarrow> None))
        | _ \<Rightarrow> None)
   | D_Reset s code \<Rightarrow> if m s = None then None else Some (m(s \<mapsto> S_Ended))
   | D_Datagram _ \<Rightarrow> Some m
   | D_Parked _ \<Rightarrow> Some m)"

fun conform :: "vcodec \<Rightarrow> dcall list \<Rightarrow> (int \<Rightarrow> s_state option) \<Rightarrow> (int \<Rightarrow> s_state option) option" where
  "conform C [] m = Some m"
| "conform C (c # cs) m = Option.bind (conform_call C c m) (conform C cs)"

lemma conform_append: "conform C (cs @ ds) m = Option.bind (conform C cs m) (conform C ds)"
proof (induction cs arbitrary: m)
  case (Cons c cs)
  then show ?case by (cases "conform_call C c m") simp_all
qed simp

section \<open>The log of a delivery conforms\<close>

text \<open>The transport's encoder writes what \<^verbatim>\<open>next_object\<close> does.\<close>

definition fast_path :: "vcodec \<Rightarrow> object_encoder \<Rightarrow> bool" where
  "fast_path C E \<longleftrightarrow> (\<forall>h p x s i. sh_next_object_bytes E h p x s i = sh_next_object C h p x s i)"

definition header_fits :: "vcodec \<Rightarrow> sd_config \<Rightarrow> object_item \<Rightarrow> bool" where
  "header_fits C F it = (case sh_serialize C (group_header F (it_group it) 0 (it_group_start it)) of Inr _ \<Rightarrow> True | Inl _ \<Rightarrow> False)"

definition open_live :: "(int \<Rightarrow> s_state option) \<Rightarrow> subgroup_delivery \<Rightarrow> bool" where
  "open_live m D = (case sd_open D of None \<Rightarrow> True | Some (sid, h) \<Rightarrow> m sid = Some (S_Live h) \<and> sh_subgroup_id_mode h = SUBGROUP_ID_EXPLICIT)"

definition waits_ok :: "vcodec \<Rightarrow> sd_config \<Rightarrow> (int \<Rightarrow> s_state option) \<Rightarrow> subgroup_delivery \<Rightarrow> pending \<Rightarrow> bool" where
  "waits_ok C F m D p = (case p of
     P_Open epoch it \<Rightarrow> dc_mapping F = PER_GROUP \<and> header_fits C F it
   | P_Header epoch it \<Rightarrow> epoch \<le> sd_epoch D \<and> (sd_epoch D = epoch \<longrightarrow> sd_open D \<noteq> None)
   | P_One_Open it \<Rightarrow> dc_mapping F = PER_OBJECT
   | P_One_Header it sid h \<Rightarrow> dc_mapping F = PER_OBJECT \<and> m sid = Some (S_Live h)
   | P_One_Object it sid \<Rightarrow> dc_mapping F = PER_OBJECT \<and> (\<exists>h. m sid = Some (S_Live h))
   | _ \<Rightarrow> True)"

definition sound :: "vcodec \<Rightarrow> sd_config \<Rightarrow> (int \<Rightarrow> s_state option) \<Rightarrow> subgroup_delivery \<Rightarrow> bool" where
  "sound C F m D \<longleftrightarrow> conform C (sd_log D) Map.empty = Some m \<and> open_live m D \<and> (\<forall>sid \<in> fst ` set (sd_tx_streams D). m sid = Some S_Ended)
    \<and> (dc_mapping F \<noteq> PER_GROUP \<longrightarrow> sd_open D = None)"

definition conforming :: "vcodec \<Rightarrow> sd_config \<Rightarrow> (int \<Rightarrow> s_state option) \<Rightarrow> subgroup_delivery \<Rightarrow> bool" where
  "conforming C F m D \<longleftrightarrow> sound C F m D \<and> (case sd_pending D of None \<Rightarrow> True | Some p \<Rightarrow> waits_ok C F m D p)"

lemma log_call_kept [simp]:
  "sd_open (log_call c D) = sd_open D" "sd_tx_streams (log_call c D) = sd_tx_streams D" "sd_pending (log_call c D) = sd_pending D"
  "sd_epoch (log_call c D) = sd_epoch D" "sd_lane (log_call c D) = sd_lane D" "sd_log (log_call c D) = sd_log D @ [c]"
  "sd_passes (log_call c D) = sd_passes D" "sd_excludes_end (log_call c D) = sd_excludes_end D"
  by (simp_all add: log_call_def)

lemma conform_snoc: "conform C cs m0 = Some m \<Longrightarrow> conform C (cs @ [c]) m0 = conform_call C c m"
  by (cases "conform_call C c m") (simp_all add: conform_append)

lemma dict_set_subset: "set (dict_set d k v) \<subseteq> insert (k, v) (set d)"
  by (induction d k v rule: dict_set.induct) auto

lemma keep_tx_kept [simp]:
  "sd_open (keep_tx sid g D) = sd_open D" "sd_pending (keep_tx sid g D) = sd_pending D" "sd_epoch (keep_tx sid g D) = sd_epoch D"
  "sd_log (keep_tx sid g D) = sd_log D"
  by (simp_all add: keep_tx_def)

lemma keep_tx_subset: "set (sd_tx_streams (keep_tx sid g D)) \<subseteq> insert (sid, g) (set (sd_tx_streams D))"
  using dict_set_subset [of "sd_tx_streams D" sid g] by (auto simp: keep_tx_def)

lemma sound_same:
  "sound C F m D \<Longrightarrow> sd_log D' = sd_log D \<Longrightarrow> sd_open D' = sd_open D \<Longrightarrow> sd_tx_streams D' = sd_tx_streams D \<Longrightarrow> sound C F m D'"
  by (simp add: sound_def open_live_def)

lemma count_sent_kept [simp]:
  "sd_log (count_sent it D) = sd_log D" "sd_open (count_sent it D) = sd_open D" "sd_tx_streams (count_sent it D) = sd_tx_streams D"
  "sd_pending (count_sent it D) = sd_pending D" "sd_epoch (count_sent it D) = sd_epoch D"
  by (simp_all add: count_sent_def note_largest_def Let_def)

lemma wait_for_kept [simp]:
  "sd_log (wait_for p D) = sd_log D" "sd_open (wait_for p D) = sd_open D" "sd_tx_streams (wait_for p D) = sd_tx_streams D"
  "sd_pending (wait_for p D) = Some p" "sd_epoch (wait_for p D) = sd_epoch D"
  by (simp_all add: wait_for_def)

text \<open>A call that leaves the states of the streams alone.\<close>

lemma sound_quiet: "sound C F m D \<Longrightarrow> conform_call C c m = Some m \<Longrightarrow> sound C F m (log_call c D)"
  by (simp add: sound_def open_live_def conform_snoc)

lemma parked_sound: "sound C F m D \<Longrightarrow> sound C F m (parked b D)"
  by (simp add: parked_def sound_quiet conform_call_def)

lemma parked_kept [simp]:
  "sd_open (parked b D) = sd_open D" "sd_pending (parked b D) = sd_pending D" "sd_epoch (parked b D) = sd_epoch D" "sd_lane (parked b D) = sd_lane D"
  "sd_tx_streams (parked b D) = sd_tx_streams D"
  by (simp_all add: parked_def)

lemma finish_sound:
  assumes "sound C F m D"
  shows "\<exists>m'. sound C F m' (snd (finish_stream C st D)) \<and> dom m' = dom m \<and> sd_pending (snd (finish_stream C st D)) = sd_pending D
    \<and> sd_epoch (snd (finish_stream C st D)) = sd_epoch D"
proof (cases "sd_open D")
  case None
  then show ?thesis using assms by (auto simp: finish_stream_def)
next
  case (Some x)
  obtain sid h where x: "x = (sid, h)" by (cases x)
  have m: "m sid = Some (S_Live h)" using assms by (simp add: sound_def open_live_def Some x)
  let ?D = "\<lambda>p data. (keep_tx sid (sh_group_id h) (log_call (D_Fin sid p data) D))\<lparr>sd_open := None\<rparr>"
  have s: "sound C F (m(sid \<mapsto> S_Ended)) (?D p data)" if "conform_call C (D_Fin sid p data) m = Some (m(sid \<mapsto> S_Ended))" for p data
  proof -
    have "\<forall>i \<in> fst ` set (sd_tx_streams (?D p data)). (m(sid \<mapsto> S_Ended)) i = Some S_Ended"
      using keep_tx_subset [of sid "sh_group_id h" "log_call (D_Fin sid p data) D"] assms by (auto simp: sound_def)
    then show ?thesis using that assms by (simp add: sound_def open_live_def conform_snoc)
  qed
  show ?thesis
  proof (cases st)
    case None
    then show ?thesis using s [of None "[]"] m Some x
      by (intro exI [of _ "m(sid \<mapsto> S_Ended)"]) (auto simp: finish_stream_def conform_call_def)
  next
    case st: (Some k)
    show ?thesis
    proof (cases "sh_next_object C h [] None k (Some (sh_next_object_id h))")
      case (Inl e)
      then show ?thesis using assms Some x st by (auto simp: finish_stream_def)
    next
      case (Inr r)
      obtain data h' where r: "r = (data, h')" by (cases r)
      have "conform_call C (D_Fin sid (Some ([], None, k, Some (sh_next_object_id h))) data) m = Some (m(sid \<mapsto> S_Ended))"
        using m Inr r by (simp add: conform_call_def object_on_def)
      from s [OF this] show ?thesis using m Some x st Inr r
        by (intro exI [of _ "m(sid \<mapsto> S_Ended)"]) (auto simp: finish_stream_def)
    qed
  qed
qed

lemma end_group_sound:
  assumes "sound C F m D"
  shows "\<exists>m'. sound C F m' (snd (end_group C D)) \<and> dom m' = dom m \<and> sd_pending (snd (end_group C D)) = sd_pending D
    \<and> sd_epoch (snd (end_group C D)) = sd_epoch D"
  using finish_sound [OF assms] assms by (auto simp: end_group_def split: option.split)

text \<open>An object on a live stream.\<close>

definition exact_for :: "vcodec \<Rightarrow> object_encoder \<Rightarrow> object_item \<Rightarrow> encodings option \<Rightarrow> bool" where
  "exact_for C E it enc = (case enc of None \<Rightarrow> True | Some c \<Rightarrow> encodings_exact C E (it_group it) (it_object_id it) (it_payload it) c)"

lemma object_bytes_on:
  assumes "fast_path C E" "exact_for C E it enc" "object_bytes E h (it_object_id it) (it_payload it) (it_extensions it) enc = Inr (data, h', enc')"
  shows "object_on C h (publication_of it) = Inr (data, h')" "h' = sh_advance h (it_object_id it)"
proof -
  have "sh_next_object_bytes E h (it_payload it) (as_kvps (it_extensions it)) STATUS_NORMAL (Some (it_object_id it)) = Inr (data, h')"
    using object_bytes_exact [of enc C E "it_group it" "it_object_id it" "it_payload it" h "it_extensions it"] assms(2,3)
    by (cases enc) (simp_all add: exact_for_def)
  from next_bytes_state(1) [OF refl this] this
  show "object_on C h (publication_of it) = Inr (data, h')" "h' = sh_advance h (it_object_id it)"
    using assms(1) by (simp_all add: fast_path_def object_on_def publication_of_def)
qed

lemma object_sound:
  assumes "sound C F m D" "sd_open D = Some (sid, h)" "object_on C h (publication_of it) = Inr (data, h')" "h' = sh_advance h i"
  shows "sound C F (m(sid \<mapsto> S_Live h')) (log_call (D_Object sid (publication_of it) data) (D\<lparr>sd_open := Some (sid, h')\<rparr>))"
proof -
  have m: "m sid = Some (S_Live h)" "sh_subgroup_id_mode h = SUBGROUP_ID_EXPLICIT" using assms(1,2) by (simp_all add: sound_def open_live_def)
  then have "conform_call C (D_Object sid (publication_of it) data) m = Some (m(sid \<mapsto> S_Live h'))"
    using assms(3) by (simp add: conform_call_def)
  moreover have "sh_subgroup_id_mode h' = SUBGROUP_ID_EXPLICIT" using m(2) by (simp add: assms(4) sh_advance_def)
  moreover have "\<forall>i \<in> fst ` set (sd_tx_streams D). (m(sid \<mapsto> S_Live h')) i = Some S_Ended" using assms(1) m(1) by (auto simp: sound_def)
  ultimately show ?thesis using assms(1,2) by (simp add: sound_def open_live_def conform_snoc)
qed

lemma send_object_sound:
  assumes "sound C F m D" "fast_path C E" "exact_for C E it enc" "sd_pending D = None"
  shows "\<exists>m'. conforming C F m' (snd (snd (send_object E epoch it enc D))) \<and> dom m' \<subseteq> dom m"
proof (cases "sd_open D")
  case None
  then show ?thesis using assms by (auto simp: send_object_def conforming_def)
next
  case (Some x)
  obtain sid h where x: "x = (sid, h)" by (cases x)
  show ?thesis
  proof (cases "object_bytes E h (it_object_id it) (it_payload it) (it_extensions it) enc")
    case (Inl e)
    then show ?thesis using assms Some x by (auto simp: send_object_def conforming_def)
  next
    case (Inr r)
    obtain data h' enc' where r: "object_bytes E h (it_object_id it) (it_payload it) (it_extensions it) enc = Inr (data, h', enc')" using Inr by (cases r) auto
    note o = object_bytes_on [OF assms(2,3) r]
    have s: "sound C F (m(sid \<mapsto> S_Live h')) (log_call (D_Object sid (publication_of it) data) (D\<lparr>sd_open := Some (sid, h')\<rparr>))"
      using object_sound [OF assms(1) _ o] Some x by simp
    have "m sid \<noteq> None" using assms(1) Some x by (simp add: sound_def open_live_def)
    then show ?thesis using sound_same [OF s] Some x r
      by (intro exI [of _ "m(sid \<mapsto> S_Live h')"]) (auto simp: send_object_def conforming_def waits_ok_def)
  qed
qed

text \<open>A state of the log and of the streams that follows another, with the streams \<open>new\<close> opened.\<close>

definition leads_to :: "vcodec \<Rightarrow> sd_config \<Rightarrow> int set \<Rightarrow> (int \<Rightarrow> s_state option) \<Rightarrow> subgroup_delivery \<Rightarrow> bool" where
  "leads_to C F new m D \<longleftrightarrow> (\<exists>m'. conforming C F m' D \<and> dom m' \<subseteq> dom m \<union> new)"

lemma leads_idle: "sound C F m' D \<Longrightarrow> sd_pending D = None \<Longrightarrow> dom m' \<subseteq> dom m \<union> new \<Longrightarrow> leads_to C F new m D"
  by (auto simp: leads_to_def conforming_def)

lemma leads_wait: "sound C F m' D \<Longrightarrow> waits_ok C F m' D p \<Longrightarrow> dom m' \<subseteq> dom m \<union> new \<Longrightarrow> leads_to C F new m (wait_for p D)"
  unfolding leads_to_def conforming_def
  by (intro exI [of _ m'] conjI) (auto simp: waits_ok_def split: pending.splits intro: sound_same)

lemma write_leads:
  assumes "sound C F m D" "fast_path C E" "exact_for C E it enc" "sd_pending D = None" "header_fits C F it"
  shows "leads_to C F new m (snd (snd (write_object C E F limit it enc D)))"
proof -
  obtain err D1 where e: "end_group C D = (err, D1)" by fastforce
  obtain m1 where m1: "sound C F m1 D1" "dom m1 = dom m" "sd_pending D1 = None" using end_group_sound [OF assms(1)] e assms(4) by auto
  have stay: "leads_to C F new m D" by (rule leads_idle [OF assms(1,4)]) simp
  have ended: "leads_to C F new m D1" by (rule leads_idle [OF m1(1,3)]) (simp add: m1(2))
  have starts: "leads_to C F new m (wait_for (P_Open k it) (parked True D1))" if "dc_mapping F = PER_GROUP" for k
    by (rule leads_wait [OF parked_sound [OF m1(1)]]) (simp_all add: m1(2) that assms(5) waits_ok_def)
  have one: "leads_to C F new m (wait_for (P_One_Open it) (parked True D))" if "dc_mapping F = PER_OBJECT"
    by (rule leads_wait [OF parked_sound [OF assms(1)]]) (simp_all add: waits_ok_def that)
  have dgram: "leads_to C F new m (wait_for (P_Datagram it) (log_call (D_Datagram data) D))" for data
    by (rule leads_wait [OF sound_quiet [OF assms(1)]]) (simp_all add: waits_ok_def conform_call_def)
  have obj: "leads_to C F new m (snd (snd (send_object E k it enc D)))" for k
    using send_object_sound [OF assms(1-4), of k] by (auto simp: leads_to_def)
  show ?thesis using e stay ended starts one dgram obj unfolding write_object_def
    by (auto split: StreamMapping.split sum.split option.split)
qed

lemma opened_kept [simp]:
  "sd_open (opened sid D) = sd_open D" "sd_pending (opened sid D) = sd_pending D" "sd_epoch (opened sid D) = sd_epoch D"
  "sd_tx_streams (opened sid D) = sd_tx_streams D" "sd_log (opened sid D) = sd_log D @ [D_Open sid]" "sd_lane (opened sid D) = sd_lane D"
  by (simp_all add: opened_def)

lemma prioritised_kept [simp]:
  "sd_open (prioritised F sid D) = sd_open D" "sd_pending (prioritised F sid D) = sd_pending D" "sd_epoch (prioritised F sid D) = sd_epoch D"
  "sd_tx_streams (prioritised F sid D) = sd_tx_streams D" "sd_lane (prioritised F sid D) = sd_lane D"
  by (simp_all add: prioritised_def split: option.split)

text \<open>A call on a stream that is neither open nor waiting to drain.\<close>

lemma sound_other:
  assumes "sound C F m D" "conform_call C c m = Some (m(sid \<mapsto> st))" "m sid = None \<or> m sid = Some S_Opened"
  shows "sound C F (m(sid \<mapsto> st)) (log_call c D)"
  using assms by (auto simp: sound_def open_live_def conform_snoc split: option.splits)

lemma opened_sound: "sound C F m D \<Longrightarrow> m sid = None \<Longrightarrow> sound C F (m(sid \<mapsto> S_Opened)) (opened sid D)"
  using sound_other [of C F m D "D_Open sid" sid S_Opened] sound_same [of C F "m(sid \<mapsto> S_Opened)" "log_call (D_Open sid) D" "opened sid D"]
  by (simp add: conform_call_def)

lemma prioritised_sound: "sound C F m D \<Longrightarrow> m sid = Some S_Opened \<Longrightarrow> sound C F m (prioritised F sid D)"
  by (auto simp: prioritised_def conform_call_def intro!: sound_quiet split: option.split)

lemma header_sound:
  "sound C F m D \<Longrightarrow> m sid = Some S_Opened \<Longrightarrow> sh_last_object_id h = None \<Longrightarrow> sh_serialize C h = Inr data
   \<Longrightarrow> sound C F (m(sid \<mapsto> S_Live h)) (log_call (D_Header sid h data) D)"
  by (rule sound_other) (simp_all add: conform_call_def)

lemma group_header_start [simp]: "sh_last_object_id (group_header F g s f) = None" "sh_subgroup_id_mode (group_header F g s f) = SUBGROUP_ID_EXPLICIT"
  by (simp_all add: group_header_def)

lemma group_opened_leads:
  assumes "sound C F m D" "m sid = None" "dc_mapping F = PER_GROUP" "header_fits C F it" "sd_pending D = None"
  shows "leads_to C F {sid} m (snd (group_opened C F epoch it sid D))"
proof -
  let ?h = "group_header F (it_group it) 0 (it_group_start it)" and ?D = "prioritised F sid (opened sid D)"
  have o: "sound C F (m(sid \<mapsto> S_Opened)) (opened sid D)" by (rule opened_sound [OF assms(1,2)])
  obtain hb where hb: "sh_serialize C ?h = Inr hb" using assms(4) by (auto simp: header_fits_def split: sum.splits)
  have "sound C F (m(sid \<mapsto> S_Opened, sid \<mapsto> S_Ended)) (log_call (D_Reset sid RESET_CANCELLED) (opened sid D))"
    by (rule sound_other [OF o]) (simp_all add: conform_call_def)
  then have r: "leads_to C F {sid} m (log_call (D_Reset sid RESET_CANCELLED) (opened sid D))"
    by (rule leads_idle) (auto simp: assms(5))
  have "sound C F (m(sid \<mapsto> S_Opened, sid \<mapsto> S_Live ?h)) (log_call (D_Header sid ?h hb) ?D)"
    by (rule header_sound [OF prioritised_sound [OF o]]) (simp_all add: hb)
  then have "sound C F (m(sid \<mapsto> S_Opened, sid \<mapsto> S_Live ?h)) (log_call (D_Header sid ?h hb) (?D\<lparr>sd_open := Some (sid, ?h)\<rparr>))"
    using assms(3) by (simp add: sound_def open_live_def log_call_def)
  then have "leads_to C F {sid} m (wait_for (P_Header (sd_epoch D) it) (log_call (D_Header sid ?h hb) (?D\<lparr>sd_open := Some (sid, ?h)\<rparr>)))"
    by (rule leads_wait) (auto simp: waits_ok_def)
  then show ?thesis using r hb by (auto simp: group_opened_def Let_def)
qed

lemma one_opened_leads:
  assumes "sound C F m D" "m sid = None" "dc_mapping F = PER_OBJECT" "sd_pending D = None"
  shows "leads_to C F {sid} m (snd (one_opened C F it sid D))"
proof -
  let ?h = "group_header F (it_group it) (it_object_id it) True"
  have p: "sound C F (m(sid \<mapsto> S_Opened)) (prioritised F sid (opened sid D))" by (rule prioritised_sound [OF opened_sound [OF assms(1,2)]]) simp
  show ?thesis
  proof (cases "sh_serialize C ?h")
    case (Inl e)
    have "leads_to C F {sid} m (prioritised F sid (opened sid D))" by (rule leads_idle [OF p]) (auto simp: assms(4))
    then show ?thesis using Inl by (simp add: one_opened_def Let_def)
  next
    case (Inr hb)
    have "sound C F (m(sid \<mapsto> S_Opened, sid \<mapsto> S_Live ?h)) (log_call (D_Header sid ?h hb) (prioritised F sid (opened sid D)))"
      by (rule header_sound [OF p]) (simp_all add: Inr)
    then have "leads_to C F {sid} m (wait_for (P_One_Header it sid ?h) (log_call (D_Header sid ?h hb) (prioritised F sid (opened sid D))))"
      by (rule leads_wait) (auto simp: waits_ok_def assms(3))
    then show ?thesis using Inr by (simp add: one_opened_def Let_def)
  qed
qed

lemma keep_tx_sound: "sound C F m D \<Longrightarrow> m sid = Some S_Ended \<Longrightarrow> sound C F m (keep_tx sid g D)"
  using keep_tx_subset [of sid g D] by (auto simp: sound_def open_live_def)

text \<open>The FIN on a stream that is live and not the open one.\<close>

lemma fin_sound:
  assumes "sound C F m D" "m sid = Some (S_Live h)" "conform_call C (D_Fin sid x data) m = Some (m(sid \<mapsto> S_Ended))"
    and "\<forall>h. sd_open D \<noteq> Some (sid, h)"
  shows "sound C F (m(sid \<mapsto> S_Ended)) (keep_tx sid g (log_call (D_Fin sid x data) D))"
proof -
  have "sound C F (m(sid \<mapsto> S_Ended)) (log_call (D_Fin sid x data) D)"
    using assms by (auto simp: sound_def open_live_def conform_snoc split: option.splits)
  then show ?thesis by (rule keep_tx_sound) simp
qed

lemma end_opened_leads:
  assumes "sound C F m D" "m sid = None" "sd_pending D = None"
  shows "leads_to C F {sid} m (snd (end_opened C F g sid D))"
proof -
  let ?h = "group_header F g 0 True" and ?D = "prioritised F sid (opened sid D)"
  have p: "sound C F (m(sid \<mapsto> S_Opened)) ?D" by (rule prioritised_sound [OF opened_sound [OF assms(1,2)]]) simp
  have raised: "leads_to C F {sid} m ?D" by (rule leads_idle [OF p]) (auto simp: assms(3))
  show ?thesis
  proof (cases "sh_serialize C ?h")
    case (Inl e)
    then show ?thesis using raised by (simp add: end_opened_def Let_def)
  next
    case (Inr hb)
    let ?D1 = "log_call (D_Header sid ?h hb) ?D"
    have h: "sound C F (m(sid \<mapsto> S_Opened, sid \<mapsto> S_Live ?h)) ?D1" by (rule header_sound [OF p]) (simp_all add: Inr)
    have o: "\<forall>h. sd_open ?D1 \<noteq> Some (sid, h)" using assms(1,2) by (auto simp: sound_def open_live_def)
    show ?thesis
    proof (cases "sh_next_object C ?h [] None STATUS_END_OF_TRACK (Some 0)")
      case (Inl e)
      then show ?thesis using raised Inr by (simp add: end_opened_def Let_def)
    next
      case n: (Inr r)
      obtain data h' where r: "r = (data, h')" by (cases r)
      have "sound C F (m(sid \<mapsto> S_Opened, sid \<mapsto> S_Live ?h, sid \<mapsto> S_Ended))
          (keep_tx sid g (log_call (D_Fin sid (Some ([], None, STATUS_END_OF_TRACK, Some 0)) data) ?D1))"
        by (rule fin_sound [OF h _ _ o]) (simp_all add: conform_call_def object_on_def n r)
      then have "leads_to C F {sid} m (keep_tx sid g (log_call (D_Fin sid (Some ([], None, STATUS_END_OF_TRACK, Some 0)) data) ?D1))"
        by (rule leads_idle) (auto simp: assms(3))
      then show ?thesis using Inr n r by (simp add: end_opened_def Let_def)
    qed
  qed
qed

definition answers :: "answer \<Rightarrow> int set" where
  "answers a = (case a of Opened sid \<Rightarrow> {sid} | _ \<Rightarrow> {})"

lemma one_object_leads:
  assumes "sound C F m D" "m sid = Some (S_Live h)" "dc_mapping F = PER_OBJECT"
    and "object_on C h (publication_of it) = Inr (data, h')" "D1 = parked False D"
  shows "leads_to C F new m (wait_for (P_One_Object it sid) (log_call (D_Object sid (publication_of it) data) D1))"
proof -
  have "conform_call C (D_Object sid (publication_of it) data) m = Some (m(sid \<mapsto> S_Live h'))" using assms(2,4) by (simp add: conform_call_def)
  then have "sound C F (m(sid \<mapsto> S_Live h')) (log_call (D_Object sid (publication_of it) data) D1)"
    using parked_sound [OF assms(1), of False] assms(2,3,5) by (auto simp: sound_def open_live_def conform_snoc)
  then show ?thesis by (rule leads_wait) (use assms(2,3) in \<open>auto simp: waits_ok_def\<close>)
qed

lemma one_end_leads:
  assumes "sound C F m D" "m sid = Some (S_Live h)" "dc_mapping F = PER_OBJECT" "sd_pending D = None"
  shows "leads_to C F new m (count_sent it (keep_tx sid (it_group it) (log_call (D_Fin sid None []) D)))"
proof -
  have "sound C F (m(sid \<mapsto> S_Ended)) (keep_tx sid (it_group it) (log_call (D_Fin sid None []) D))"
    by (rule fin_sound [OF assms(1,2)]) (use assms in \<open>simp_all add: conform_call_def sound_def\<close>)
  then have "sound C F (m(sid \<mapsto> S_Ended)) (count_sent it (keep_tx sid (it_group it) (log_call (D_Fin sid None []) D)))"
    by (rule sound_same) simp_all
  then show ?thesis by (rule leads_idle) (use assms(2,4) in auto)
qed

lemma goes_on_leads:
  assumes s: "sound C F m D" and p: "waits_ok C F m D p" and idle: "sd_pending D = None" and fast: "fast_path C E"
    and enc: "\<And>it. pending_item p = Some it \<Longrightarrow> exact_for C E it enc" and fresh: "answers a \<inter> dom m = {}"
  shows "leads_to C F (answers a) m (snd (snd (write_goes_on C E F p a enc D)))"
proof -
  have stay: "leads_to C F new m D" for new by (rule leads_idle [OF s idle]) simp
  have again: "leads_to C F new m (wait_for p D)" for new by (rule leads_wait [OF s p]) simp
  have counted: "leads_to C F new m (count_sent it D)" for new it
    by (rule leads_idle [OF sound_same [OF s]]) (simp_all add: idle)
  have "sound C F m (D\<lparr>sd_stopped_group := g, sd_open := None\<rparr>)" for g using s by (simp add: sound_def open_live_def)
  then have stopped: "leads_to C F new m (D\<lparr>sd_stopped_group := g, sd_open := None\<rparr>)" for new g by (rule leads_idle) (simp_all add: idle)
  have pk: "leads_to C F new m (parked b D)" for new b by (rule leads_idle [OF parked_sound [OF s]]) (simp_all add: idle)
  show ?thesis
  proof (cases a)
    case (Opened sid)
    then have f: "m sid = None" using fresh by (auto simp: answers_def)
    show ?thesis
    proof (cases p)
      case (P_Open epoch it)
      then show ?thesis using group_opened_leads [OF s f _ _ idle, of it epoch] p Opened
        by (auto simp: write_goes_on_def waits_ok_def answers_def split: prod.split)
    next
      case (P_One_Open it)
      then show ?thesis using one_opened_leads [OF s f _ idle, of it] p Opened
        by (auto simp: write_goes_on_def waits_ok_def answers_def split: prod.split)
    next
      case (P_End_Open g)
      then show ?thesis using end_opened_leads [OF s f idle, of g] Opened
        by (auto simp: write_goes_on_def answers_def split: prod.split)
    qed (use again Opened in \<open>simp_all add: write_goes_on_def answers_def\<close>)
  next
    case Drained
    show ?thesis
    proof (cases p)
      case (P_Header epoch it)
      have "exact_for C E it enc" using enc [of it] P_Header by (simp add: pending_item_def)
      from send_object_sound [OF parked_sound [OF s] fast this, of False epoch] have "leads_to C F {} m (snd (snd (send_object E epoch it enc (parked False D))))"
        by (simp add: leads_to_def idle)
      then show ?thesis using P_Header Drained pk by (simp add: write_goes_on_def Let_def answers_def)
    next
      case (P_One_Header it sid h)
      have m: "dc_mapping F = PER_OBJECT" "m sid = Some (S_Live h)" using p P_One_Header by (simp_all add: waits_ok_def)
      show ?thesis
      proof (cases "object_bytes E h (it_object_id it) (it_payload it) (it_extensions it) enc")
        case (Inl e)
        then show ?thesis using P_One_Header Drained pk by (simp add: write_goes_on_def Let_def answers_def)
      next
        case (Inr r)
        obtain data h' enc' where r: "object_bytes E h (it_object_id it) (it_payload it) (it_extensions it) enc = Inr (data, h', enc')" using Inr by (cases r) auto
        have x: "exact_for C E it enc" using enc [of it] P_One_Header by (simp add: pending_item_def)
        show ?thesis using one_object_leads [OF s m(2,1) object_bytes_on(1) [OF fast x r] refl] P_One_Header Drained r
          by (simp add: write_goes_on_def Let_def answers_def)
      qed
    next
      case (P_One_Object it sid)
      then obtain h where "dc_mapping F = PER_OBJECT" "m sid = Some (S_Live h)" using p by (auto simp: waits_ok_def)
      then show ?thesis using one_end_leads [OF s _ _ idle] P_One_Object Drained by (simp add: write_goes_on_def answers_def)
    qed (use again stay counted Drained in \<open>simp_all add: write_goes_on_def answers_def\<close>)
  next
    case Was_Stopped
    then show ?thesis using stay stopped by (cases p) (simp_all add: write_goes_on_def answers_def)
  next
    case Session_Failed
    then show ?thesis using stay by (cases p) (simp_all add: write_goes_on_def answers_def)
  qed
qed

text \<open>What the transport did not take leaves the header as it was.\<close>

lemma advance_back:
  "sh_subgroup_id_mode h = SUBGROUP_ID_EXPLICIT \<Longrightarrow> \<not> sh_next_object_id h - 1 < 0 \<Longrightarrow> sh_advance (sh_advance h i) (sh_next_object_id h - 1) = h"
  by (cases "sh_last_object_id h")
    (simp_all add: sh_advance_def sh_next_object_id_def SUBGROUP_ID_EXPLICIT_def SUBGROUP_ID_FIRST_OBJ_def)

lemma nowait_leads:
  assumes s: "sound C F m D" and idle: "sd_pending D = None" and fast: "fast_path C E" and enc: "exact_for C E it enc"
  shows "leads_to C F new m (snd (snd (send_nowait E F t it enc D)))"
proof -
  have stay: "leads_to C F new m D" by (rule leads_idle [OF s idle]) simp
  show ?thesis
  proof (cases "sd_open D")
    case None
    then show ?thesis using stay by (simp add: send_nowait_def)
  next
    case (Some x)
    obtain sid h where x: "x = (sid, h)" by (cases x)
    have m: "m sid = Some (S_Live h)" "sh_subgroup_id_mode h = SUBGROUP_ID_EXPLICIT" using s Some x by (simp_all add: sound_def open_live_def)
    show ?thesis
    proof (cases "it_group_start it \<or> \<not> dc_nowait F \<or> \<not> passes D (it_group it) (it_object_id it) \<or> sh_next_object_id h - 1 < 0")
      case True
      then show ?thesis using stay Some x by (auto simp: send_nowait_def Let_def)
    next
      case go: False
      show ?thesis
      proof (cases "object_bytes E h (it_object_id it) (it_payload it) (it_extensions it) enc")
        case (Inl e)
        then show ?thesis using go stay Some x by (simp add: send_nowait_def Let_def)
      next
        case (Inr r)
        obtain data h' enc' where r: "object_bytes E h (it_object_id it) (it_payload it) (it_extensions it) enc = Inr (data, h', enc')" using Inr by (cases r) auto
        note o = object_bytes_on [OF fast enc r]
        have "sh_advance h' (sh_next_object_id h - 1) = h" using advance_back [OF m(2)] go by (simp add: o(2))
        then have restored: "D\<lparr>sd_open := Some (sid, sh_advance h' (sh_next_object_id h - 1))\<rparr> = D" using Some x by simp
        have "sound C F m (D\<lparr>sd_stopped_group := Some (it_group it), sd_open := None\<rparr>)" using s by (simp add: sound_def open_live_def)
        then have stopped: "leads_to C F new m (D\<lparr>sd_stopped_group := Some (it_group it), sd_open := None\<rparr>)"
          by (rule leads_idle) (simp_all add: idle)
        have "sound C F (m(sid \<mapsto> S_Live h')) (count_sent it (log_call (D_Object sid (publication_of it) data) (D\<lparr>sd_open := Some (sid, h')\<rparr>)))"
          by (rule sound_same [OF object_sound [OF s _ o]]) (simp_all add: Some x)
        then have "leads_to C F new m (count_sent it (log_call (D_Object sid (publication_of it) data) (D\<lparr>sd_open := Some (sid, h')\<rparr>)))"
          by (rule leads_idle) (use m(1) idle in auto)
        then show ?thesis using go r restored stopped stay Some x by (cases t) (simp_all add: send_nowait_def Let_def)
      qed
    qed
  qed
qed

lemma reset_sound:
  assumes "sound C F m D"
  shows "\<exists>m'. sound C F m' (reset_group code D) \<and> dom m' = dom m \<and> (sd_open D = None \<longrightarrow> m' = m)"
proof (cases "sd_open D")
  case None
  then show ?thesis using assms by (auto simp: reset_group_def Let_def sound_def open_live_def)
next
  case (Some x)
  obtain sid h where x: "x = (sid, h)" by (cases x)
  have m: "m sid = Some (S_Live h)" using assms Some x by (simp add: sound_def open_live_def)
  have "sound C F (m(sid \<mapsto> S_Ended)) (reset_group code D)"
    using assms m Some x by (auto simp: reset_group_def Let_def sound_def open_live_def conform_append conform_call_def log_call_def)
  then show ?thesis using m Some by (intro exI [of _ "m(sid \<mapsto> S_Ended)"]) auto
qed

lemma reset_kept [simp]:
  "sd_pending (reset_group code D) = sd_pending D" "sd_epoch (reset_group code D) = Suc (sd_epoch D)" "sd_open (reset_group code D) = None"
  "sd_tx_streams (reset_group code D) = sd_tx_streams D"
  by (auto simp: reset_group_def Let_def split: option.split)

text \<open>The waits stand a reset: a wait for a header sees another epoch, streams of a single object are not the open one.\<close>

lemma waits_reset:
  assumes "sound C F m D" "waits_ok C F m D p" "sd_open D = None \<longrightarrow> m' = m" "sd_epoch D < sd_epoch D'"
  shows "waits_ok C F m' D' p"
  using assms by (cases p) (auto simp: waits_ok_def sound_def)

lemma reset_leads: "conforming C F m D \<Longrightarrow> leads_to C F new m (reset_group code D)"
proof -
  assume c: "conforming C F m D"
  then have s: "sound C F m D" by (simp add: conforming_def)
  obtain m' where m': "sound C F m' (reset_group code D)" "dom m' = dom m" "sd_open D = None \<longrightarrow> m' = m" using reset_sound [OF s] by blast
  have "waits_ok C F m' (reset_group code D) p" if "sd_pending D = Some p" for p
    using c that by (intro waits_reset [OF s _ m'(3)]) (simp_all add: conforming_def)
  then have "conforming C F m' (reset_group code D)" using m'(1) by (simp add: conforming_def split: option.split)
  then show ?thesis unfolding leads_to_def using m'(2) by (intro exI [of _ m']) simp
qed

lemma fold_resets:
  assumes "sound C F m D" "\<forall>x \<in> set gone. m (fst x) = Some S_Ended"
  shows "sound C F m (fold (\<lambda>(sid, g). if used sid \<noteq> 0 then log_call (D_Reset sid code) else id) gone D)
    \<and> sd_pending (fold (\<lambda>(sid, g). if used sid \<noteq> 0 then log_call (D_Reset sid code) else id) gone D) = sd_pending D
    \<and> sd_epoch (fold (\<lambda>(sid, g). if used sid \<noteq> 0 then log_call (D_Reset sid code) else id) gone D) = sd_epoch D
    \<and> sd_open (fold (\<lambda>(sid, g). if used sid \<noteq> 0 then log_call (D_Reset sid code) else id) gone D) = sd_open D"
  using assms
proof (induction gone arbitrary: D)
  case (Cons x gone)
  obtain sid g where x: "x = (sid, g)" by (cases x)
  have "conform_call C (D_Reset sid code) m = Some m" using Cons.prems(2) by (simp add: x conform_call_def fun_upd_idem)
  then have "sound C F m (log_call (D_Reset sid code) D)" by (rule sound_quiet [OF Cons.prems(1)])
  then show ?case using Cons.IH [of D] Cons.IH [of "log_call (D_Reset sid code) D"] Cons.prems by (simp add: x)
qed simp

lemma below_leads: "conforming C F m D \<Longrightarrow> leads_to C F new m (reset_below used fl D)"
proof -
  assume c: "conforming C F m D"
  define D1 where "D1 = (case sd_open D of None \<Rightarrow> D | Some (sid, h) \<Rightarrow> if sh_group_id h < fl then reset_group RESET_CANCELLED D else D)"
  have "leads_to C F new m D1" using c reset_leads [OF c, of new RESET_CANCELLED] by (auto simp: D1_def leads_to_def split: option.split)
  then obtain m' where m': "conforming C F m' D1" "dom m' \<subseteq> dom m \<union> new" by (auto simp: leads_to_def)
  define D2 where "D2 = D1\<lparr>sd_tx_streams := filter (\<lambda>(sid, g). \<not> g < fl) (sd_tx_streams D1)\<rparr>"
  have D2: "sound C F m' D2" using m'(1) by (auto simp: conforming_def sound_def open_live_def D2_def)
  have g: "\<forall>x \<in> set (filter (\<lambda>(sid, g). g < fl) (sd_tx_streams D1)). m' (fst x) = Some S_Ended" using m'(1) by (auto simp: conforming_def sound_def)
  let ?D = "fold (\<lambda>(sid, g). if used sid \<noteq> 0 then log_call (D_Reset sid RESET_CANCELLED) else id) (filter (\<lambda>(sid, g). g < fl) (sd_tx_streams D1)) D2"
  note f = fold_resets [OF D2 g, of used RESET_CANCELLED]
  have "waits_ok C F m' ?D p" if "sd_pending D1 = Some p" for p
    using f m'(1) that by (cases p) (auto simp: conforming_def waits_ok_def D2_def)
  then have "conforming C F m' ?D" using f by (simp add: conforming_def D2_def split: option.split)
  then show ?thesis using m'(2) by (auto simp: leads_to_def reset_below_def Let_def D1_def [symmetric] D2_def [symmetric])
qed

lemma ended_leads: "sound C F m D \<Longrightarrow> sd_pending D = None \<Longrightarrow> leads_to C F new m (snd (end_group C D))"
  using end_group_sound [of C F m D] by (metis leads_idle Un_upper1)

lemma expire_leads: "sound C F m D \<Longrightarrow> sd_pending D = None \<Longrightarrow> leads_to C F new m (snd (expire C F g D))"
proof -
  assume s: "sound C F m D" and idle: "sd_pending D = None"
  have c: "conforming C F m D" using s idle by (simp add: conforming_def)
  have "leads_to C F new m D" by (rule leads_idle [OF s idle]) simp
  then show ?thesis using reset_leads [OF c, of new RESET_DELIVERY_TIMEOUT] ended_leads [OF s idle, of new]
    by (auto simp: expire_def split: prod.splits option.splits)
qed

lemma end_track_leads: "sound C F m D \<Longrightarrow> sd_pending D = None \<Longrightarrow> leads_to C F new m (snd (end_track C F largest D))"
proof -
  assume s: "sound C F m D" and idle: "sd_pending D = None"
  have stay: "leads_to C F new m D" by (rule leads_idle [OF s idle]) simp
  have f: "leads_to C F new m (snd (finish_stream C st D))" for st
    using finish_sound [OF s, of st] idle by (metis leads_idle Un_upper1)
  have d: "leads_to C F new m (wait_for P_End_Datagram (log_call (D_Datagram data) D))" for data
    by (rule leads_wait [OF sound_quiet [OF s]]) (simp_all add: waits_ok_def conform_call_def)
  have o: "leads_to C F new m (wait_for (P_End_Open g) D)" for g
    by (rule leads_wait [OF s]) (simp_all add: waits_ok_def)
  obtain e1 D1 where e1: "end_group C D = (e1, D1)" by fastforce
  obtain e2 D2 where e2: "finish_stream C (Some STATUS_END_OF_TRACK) D = (e2, D2)" by fastforce
  have "leads_to C F new m D1" "leads_to C F new m D2" using ended_leads [OF s idle, of new] f [of "Some STATUS_END_OF_TRACK"] e1 e2 by simp_all
  then show ?thesis using stay d o
    by (auto simp: end_track_def Let_def e1 e2 split: option.split sum.split)
qed

lemma queued_leads: "conforming C F m D \<Longrightarrow> leads_to C F new m (snd (tx_queued used fl D))"
  unfolding leads_to_def
  by (rule exI [of _ m]) (auto simp: conforming_def sound_def open_live_def tx_queued_def Let_def waits_ok_def split: option.splits pending.splits)

text \<open>The encodings an event brings are exact, and the header of a group that may be opened can be written.\<close>

definition event_ok :: "vcodec \<Rightarrow> object_encoder \<Rightarrow> sd_config \<Rightarrow> sd_event \<Rightarrow> bool" where
  "event_ok C E F e = (case e of
     Ev_Write _ shared it \<Rightarrow> header_fits C F it \<and> exact_for C E it (shared it)
   | Ev_Answer shared _ \<Rightarrow> (\<forall>it. exact_for C E it (shared it))
   | Ev_Nowait shared _ it \<Rightarrow> exact_for C E it (shared it)
   | _ \<Rightarrow> True)"

definition event_opens :: "sd_event \<Rightarrow> int list" where
  "event_opens e = (case e of Ev_Answer _ (Opened sid) \<Rightarrow> [sid] | _ \<Rightarrow> [])"

lemma conforming_other:
  "conforming C F m D \<Longrightarrow> sd_log D' = sd_log D \<Longrightarrow> sd_open D' = sd_open D \<Longrightarrow> sd_tx_streams D' = sd_tx_streams D \<Longrightarrow> sd_pending D' = sd_pending D
   \<Longrightarrow> sd_epoch D' = sd_epoch D \<Longrightarrow> leads_to C F new m D'"
  unfolding leads_to_def
  by (rule exI [of _ m]) (auto simp: conforming_def sound_def open_live_def waits_ok_def split: option.splits pending.splits)

lemma sd_step_leads:
  assumes c: "conforming C F m D" and fast: "fast_path C E" and e: "event_ok C E F e" and fresh: "set (event_opens e) \<inter> dom m = {}"
  shows "leads_to C F (set (event_opens e)) m (sd_step C E F e D)"
proof -
  have s: "sound C F m D" using c by (simp add: conforming_def)
  have stay: "leads_to C F new m D" for new by (rule conforming_other [OF c]) simp_all
  show ?thesis
  proof (cases e)
    case (Ev_Write limit shared it)
    then show ?thesis using write_leads [OF s fast _ _, of it "shared it"] e stay by (simp add: sd_step_def idle_call_def event_ok_def)
  next
    case (Ev_Answer shared a)
    show ?thesis
    proof (cases "sd_pending D")
      case None
      then show ?thesis using stay Ev_Answer by (simp add: sd_step_def)
    next
      case (Some p)
      let ?D = "D\<lparr>sd_pending := None\<rparr>"
      have s': "sound C F m ?D" by (rule sound_same [OF s]) simp_all
      have p: "waits_ok C F m ?D p" using c Some by (auto simp: conforming_def waits_ok_def split: pending.splits)
      have x: "exact_for C E it (Option.bind (pending_item p) shared)" if "pending_item p = Some it" for it
        using e that Ev_Answer by (simp add: event_ok_def)
      have o: "answers a = set (event_opens e)" using Ev_Answer by (simp add: answers_def event_opens_def split: answer.split)
      show ?thesis using goes_on_leads [OF s' p _ fast x, of a] fresh o Ev_Answer Some by (simp add: sd_step_def)
    qed
  next
    case (Ev_Nowait shared t it)
    then show ?thesis using nowait_leads [OF s _ fast, of it "shared it"] e stay by (simp add: sd_step_def idle_call_def event_ok_def)
  next
    case Ev_End_Group
    then show ?thesis using ended_leads [OF s] stay by (simp add: sd_step_def idle_call_def)
  next
    case (Ev_End_Track largest)
    then show ?thesis using end_track_leads [OF s] stay by (simp add: sd_step_def idle_call_def)
  next
    case (Ev_Expire g)
    then show ?thesis using expire_leads [OF s] stay by (simp add: sd_step_def idle_call_def)
  qed (simp_all add: sd_step_def reset_leads [OF c] below_leads [OF c] queued_leads [OF c] conforming_other [OF c])
qed

definition opens :: "sd_event list \<Rightarrow> int list" where
  "opens es = concat (map event_opens es)"

lemma sd_run:
  assumes "conforming C F m D" "fast_path C E" "list_all (event_ok C E F) es" "distinct (opens es)" "set (opens es) \<inter> dom m = {}"
  shows "\<exists>m'. conforming C F m' (fold (sd_step C E F) es D)"
  using assms
proof (induction es arbitrary: m D)
  case (Cons e es)
  obtain m1 where m1: "conforming C F m1 (sd_step C E F e D)" "dom m1 \<subseteq> dom m \<union> set (event_opens e)"
    using sd_step_leads [OF Cons.prems(1,2), of e] Cons.prems(3,5) by (auto simp: leads_to_def opens_def)
  have "set (opens es) \<inter> dom m1 = {}" using Cons.prems(4,5) m1(2) by (simp add: opens_def) blast
  then show ?case using Cons.IH [OF m1(1) Cons.prems(2)] Cons.prems(3,4) by (simp add: opens_def)
qed auto

lemma new_conforming: "conforming C F Map.empty new_delivery"
  by (simp add: conforming_def sound_def open_live_def new_delivery_def)

text \<open>C9: whatever is written through a delivery and whenever resets interrupt it, the calls it makes conform to the stream rules: every
  stream is opened once and carries its header first and then objects, each encoded against the one before it (also when a write
  the transport did not take at once is repeated, and when encodings are shared); after the FIN or the reset of a stream nothing is written on it.\<close>

theorem delivery_conforms:
  assumes "fast_path C E" "list_all (event_ok C E F) es" "distinct (opens es)"
  shows "conform C (sd_log (fold (sd_step C E F) es new_delivery)) Map.empty \<noteq> None"
  using sd_run [OF new_conforming assms] by (auto simp: conforming_def sound_def)

section \<open>The bytes of a stream\<close>



















section \<open>Concrete runs\<close>

text \<open>An encoder that writes what \<^verbatim>\<open>next_object\<close> does, for any codec.\<close>

definition slow_encoder :: "vcodec \<Rightarrow> object_encoder" where
  "slow_encoder C = (\<lambda>vi delta exts status payload ep kd.
     oh_serialize C ep None vi kd \<lparr>oh_object_id = delta, oh_extensions = exts, oh_status = status, oh_payload = payload\<rparr>)"

lemma slow_fast_path: "fast_path C (slow_encoder C)"
  by (auto simp: fast_path_def slow_encoder_def sh_next_object_bytes_def sh_next_object_def oh_serialize_def Let_def split: option.split)

definition ex_config :: sd_config where
  "ex_config = \<lparr>dc_track_alias = 5, dc_priority = 128, dc_stream_priority = Some 7, dc_mapping = PER_GROUP, dc_prof = Some PROFILE_D18, dc_nowait = True\<rparr>"

definition ex_item :: "int \<Rightarrow> byte \<Rightarrow> bool \<Rightarrow> object_item" where
  "ex_item ob b start = \<lparr>it_group = 9, it_object_id = ob, it_payload = [b], it_extensions = None, it_group_start = start\<rparr>"

definition ex_none :: "object_item \<Rightarrow> encodings option" where
  "ex_none = (\<lambda>_. Some [])"

definition ex_writes :: "sd_event list" where
  "ex_writes = [Ev_Write 0 ex_none (ex_item 0 0xAA True), Ev_Answer ex_none (Opened 2), Ev_Answer ex_none Drained, Ev_Answer ex_none Drained,
     Ev_Nowait ex_none Not_Taken (ex_item 3 0xBB False), Ev_Nowait ex_none Taken (ex_item 3 0xBB False), Ev_End_Group]"

lemma ex_writes_ok: "list_all (event_ok std_codec (slow_encoder std_codec) ex_config) ex_writes" "distinct (opens ex_writes)"
proof -
  have "header_fits std_codec ex_config (ex_item 0 0xAA True)" by code_simp
  then show "list_all (event_ok std_codec (slow_encoder std_codec) ex_config) ex_writes"
    by (simp add: ex_writes_def event_ok_def exact_for_def ex_none_def encodings_exact_def)
  show "distinct (opens ex_writes)" by code_simp
qed

theorem delivery_conforms_witness:
  "conform std_codec (sd_log (fold (sd_step std_codec (slow_encoder std_codec) ex_config) ex_writes new_delivery)) Map.empty \<noteq> None"
  by (rule delivery_conforms [OF slow_fast_path ex_writes_ok])


theorem shared_encodings_exact_witness:
  "let rs = [On_Stream (group_header ex_config 9 0 True) None, On_Stream (group_header ex_config 4 0 False) None, As_Datagram ex_config True None, As_Datagram ex_config True None]
   in copies std_codec (slow_encoder std_codec) 9 0 [0xAA] [] rs = map (alone std_codec (slow_encoder std_codec) 9 0 [0xAA]) rs"
  unfolding Let_def by (rule shared_encodings_exact) (simp add: copy_ok_def dict_exts_ok_def)

end
