(* ===== verification/Fanout_Delivery.thy ===== *)
theory Fanout_Delivery
  imports Send_Lane Subgroup_Delivery Object_History
begin

text \<open>
  The \<^verbatim>\<open>FanoutDelivery\<close> of \<^verbatim>\<open>delivery.py\<close>: the source numbers its objects once and offers each to the \<^verbatim>\<open>SendLane\<close> of every peer. A
  lane has an identity, since events of its task and of its peer reach it alone. What the peers' writers answer to an offer is an
  argument of the write; \<open>fn_written\<close> records the calls of \<^verbatim>\<open>on_write\<close>.
\<close>

section \<open>State\<close>

text \<open>The rest of a lane's item: \<open>fr_encoded\<close> tells whether the lanes share a list of encodings.\<close>

record 's fan_rest =
  fr_object_id :: int
  fr_payload :: bytes
  fr_extensions :: "'s exts"
  fr_group_start :: bool
  fr_encoded :: bool

record 's peer =
  pe_id :: nat
  pe_session :: int
  pe_mapping :: StreamMapping
  pe_key :: cache_key
  pe_shared :: bool
  pe_joined :: nat
  pe_lane :: "'s fan_rest lane"

record 's fan =
  fn_max_bytes :: int
  fn_lanes :: "'s peer list"
  fn_error :: bool
  fn_group :: "int option"
  fn_timed :: bool
  fn_written :: "'s fan_rest lane_obj list"

definition PUBLISHER_LANE_BYTES :: int where "PUBLISHER_LANE_BYTES = 16 * 1024 * 1024"


section \<open>Operations\<close>

definition retime :: "'s fan \<Rightarrow> 's fan" where
  "retime F = F\<lparr>fn_timed := list_ex (\<lambda>p. ln_deadline (pe_lane p) \<noteq> None) (fn_lanes F)\<rparr>"

definition fan_fail :: "'s fan \<Rightarrow> 's fan" where
  "fan_fail F = F\<lparr>fn_error := True\<rparr>"

definition mark_shared_datagrams :: "'s fan \<Rightarrow> 's fan" where
  "mark_shared_datagrams F =
    (let keys = map pe_key (filter (\<lambda>p. pe_mapping p = DATAGRAM) (fn_lanes F))
     in F\<lparr>fn_lanes := map (\<lambda>p. if pe_mapping p = DATAGRAM then p\<lparr>pe_shared := 1 < count_list keys (pe_key p)\<rparr> else p) (fn_lanes F)\<rparr>)"

text \<open>\<^verbatim>\<open>add\<close>; \<open>now\<close> is the clock, \<open>i\<close> the identity of the lane.\<close>

definition joined_lane :: "int \<Rightarrow> int \<Rightarrow> bool \<Rightarrow> int option \<Rightarrow> int option \<Rightarrow> 's fan_rest lane" where
  "joined_lane max_bytes now gate fl deadline =
    (new_lane max_bytes now)\<lparr>ln_gate := gate, ln_floor := fl, ln_deadline := (if deadline = Some 0 then None else deadline)\<rparr>"

definition fan_add :: "int \<Rightarrow> nat \<Rightarrow> int \<Rightarrow> StreamMapping \<Rightarrow> cache_key \<Rightarrow> bool \<Rightarrow> bool \<Rightarrow> int option \<Rightarrow> 's fan \<Rightarrow> 's fan" where
  "fan_add now i session mapping key gate joining deadline F =
    (let fl = (if joining then map_option (\<lambda>g. g + 1) (fn_group F) else None);
         p = \<lparr>pe_id = i, pe_session = session, pe_mapping = mapping, pe_key = key, pe_shared = True, pe_joined = length (fn_written F),
              pe_lane = joined_lane (fn_max_bytes F) now gate fl deadline\<rparr>
     in mark_shared_datagrams (retime (F\<lparr>fn_lanes := fn_lanes F @ [p]\<rparr>)))"

definition on_lane :: "('s peer \<Rightarrow> 's fan_rest lane \<Rightarrow> 's fan_rest lane) \<Rightarrow> 's peer \<Rightarrow> 's peer" where
  "on_lane f p = p\<lparr>pe_lane := f p (pe_lane p)\<rparr>"

text \<open>\<^verbatim>\<open>lane.stop()\<close> and the reset of the writer's open group\<close>

definition give_up :: "'s fan_rest lane \<Rightarrow> 's fan_rest lane" where
  "give_up L = call W_Reset_Group (lane_step Stop L)"

definition drop_session :: "int \<Rightarrow> 's fan \<Rightarrow> 's peer list \<times> 's fan" where
  "drop_session session F =
    (let mine = filter (\<lambda>p. pe_session p = session) (fn_lanes F) in
     if mine = [] then ([], F)
     else (map (on_lane (\<lambda>_. give_up)) mine,
           retime (mark_shared_datagrams (F\<lparr>fn_lanes := filter (\<lambda>p. pe_session p \<noteq> session) (fn_lanes F)\<rparr>))))"

text \<open>The charge of an object, inlined for a plain dictionary of properties.\<close>

definition inline_charge :: "pval \<Rightarrow> int" where
  "inline_charge v = (case v of PInt _ \<Rightarrow> 16 | PBytes bs \<Rightarrow> 16 + int (length bs) | PStr s \<Rightarrow> 16 + int (length s) | _ \<Rightarrow> 16 + 0)"

definition write_cost :: "bytes \<Rightarrow> 's exts \<Rightarrow> int" where
  "write_cost payload x =
    (let base = OBJECT_RECORD_BYTES + (if payload \<noteq> [] then int (length payload) else 0) in
     case x of
       Exts (Some (d, dups)) \<Rightarrow> if dups = [] then base + sum_list (map (\<lambda>(k, v). inline_charge v) d) else retained_object_bytes payload x
     | _ \<Rightarrow> base)"

text \<open>\<^verbatim>\<open>write\<close>; \<open>replies\<close> gives the backlog and the answer of each lane's writer. The result tells whether some lane queued the object.\<close>

definition fan_object :: "int \<Rightarrow> int \<Rightarrow> int \<Rightarrow> bytes \<Rightarrow> 's exts \<Rightarrow> bool \<Rightarrow> 's fan \<Rightarrow> 's fan_rest lane_obj" where
  "fan_object now g ob payload x start F =
    \<lparr>lo_group = g, lo_cost = write_cost payload x, lo_live = True, lo_born = (if fn_timed F then Some now else None),
     lo_rest = \<lparr>fr_object_id = ob, fr_payload = payload, fr_extensions = x, fr_group_start = start, fr_encoded = 1 < length (fn_lanes F)\<rparr>\<rparr>"

definition fan_write :: "(nat \<Rightarrow> (int option \<Rightarrow> int) \<times> nowait) \<Rightarrow> int \<Rightarrow> int \<Rightarrow> int \<Rightarrow> bytes \<Rightarrow> 's exts \<Rightarrow> bool \<Rightarrow> 's fan \<Rightarrow> bool option \<times> 's fan" where
  "fan_write replies now g ob payload x start F =
    (if fn_error F then (None, F)
     else let item = fan_object now g ob payload x start F;
              taken_by = map (\<lambda>p. offer (fst (replies (pe_id p))) (snd (replies (pe_id p))) item (pe_lane p)) (fn_lanes F)
          in (Some (list_ex fst taken_by),
              F\<lparr>fn_written := fn_written F @ [item], fn_group := Some g,
                fn_lanes := map2 (\<lambda>p r. p\<lparr>pe_lane := snd r\<rparr>) (fn_lanes F) taken_by\<rparr>))"

definition each_lane :: "('s peer \<Rightarrow> 's fan_rest lane \<Rightarrow> 's fan_rest lane) \<Rightarrow> 's fan \<Rightarrow> 's fan" where
  "each_lane f F = F\<lparr>fn_lanes := map (on_lane f) (fn_lanes F)\<rparr>"

definition fan_end_group :: "'s fan \<Rightarrow> 's fan" where
  "fan_end_group = each_lane (\<lambda>_. lane_step (Put End_Group))"

definition fan_end_track :: "(int \<times> int) option \<Rightarrow> 's fan \<Rightarrow> 's fan" where
  "fan_end_track largest = each_lane (\<lambda>_. lane_step (Put (End_Track largest)))"

definition fan_reset_group :: "'s fan \<Rightarrow> 's fan" where
  "fan_reset_group F = each_lane (\<lambda>_. lane_step (Put (Reset_Group (fn_group F)))) F"

definition fan_abort :: "'s fan \<Rightarrow> 's fan" where
  "fan_abort = each_lane (\<lambda>_. give_up)"

text \<open>\<^verbatim>\<open>close\<close> before its wait, and after it: the lanes whose task is not done are stopped.\<close>

definition fan_close :: "'s fan \<Rightarrow> 's fan" where
  "fan_close = each_lane (\<lambda>_ L. lane_step Finish (lane_step (Put End_Group) L))"

definition fan_closed :: "'s fan \<Rightarrow> 's fan" where
  "fan_closed = each_lane (\<lambda>_ L. if ln_over L then L else lane_step Stop L)"

section \<open>Runs\<close>

datatype 's fan_event =
    F_Add int nat int StreamMapping cache_key bool bool "int option"
  | F_Drop int
  | F_Write "nat \<Rightarrow> (int option \<Rightarrow> int) \<times> nowait" int int int bytes "'s exts" bool
  | F_End_Group
  | F_End_Track "(int \<times> int) option"
  | F_Reset_Group
  | F_Abort
  | F_Close
  | F_Closed
  | F_Fail
  | F_Lane nat "'s fan_rest lane_event"

text \<open>An event of one lane: its task, its writer or its owner. The setter of the deadline calls \<^verbatim>\<open>_retime\<close>.\<close>

definition fan_lane_event :: "nat \<Rightarrow> 's fan_rest lane_event \<Rightarrow> 's fan \<Rightarrow> 's fan" where
  "fan_lane_event i e F =
    (let F1 = each_lane (\<lambda>p L. if pe_id p = i then lane_step e L else L) F
     in case e of lane_event.Offer _ _ _ \<Rightarrow> F | Set_Deadline _ \<Rightarrow> retime F1 | _ \<Rightarrow> F1)"

definition fan_step :: "'s fan_event \<Rightarrow> 's fan \<Rightarrow> 's fan" where
  "fan_step e F = (case e of
     F_Add now i session mapping key gate joining deadline \<Rightarrow> fan_add now i session mapping key gate joining deadline F
   | F_Drop session \<Rightarrow> snd (drop_session session F)
   | F_Write replies now g ob payload x start \<Rightarrow> snd (fan_write replies now g ob payload x start F)
   | F_End_Group \<Rightarrow> fan_end_group F
   | F_End_Track largest \<Rightarrow> fan_end_track largest F
   | F_Reset_Group \<Rightarrow> fan_reset_group F
   | F_Abort \<Rightarrow> fan_abort F
   | F_Close \<Rightarrow> fan_close F
   | F_Closed \<Rightarrow> fan_closed F
   | F_Fail \<Rightarrow> fan_fail F
   | F_Lane i e \<Rightarrow> fan_lane_event i e F)"

section \<open>Charges\<close>



section \<open>Every peer\<close>

text \<open>
  The lane of a peer against the objects written since it joined; with \<open>b\<close>, also within its bound.
\<close>

definition peer_ok :: "bool \<Rightarrow> int \<Rightarrow> 's fan_rest lane_obj list \<Rightarrow> 's peer \<Rightarrow> bool" where
  "peer_ok b m w p \<longleftrightarrow> lane_ok (drop (pe_joined p) w) (pe_lane p) \<and> pe_joined p \<le> length w
    \<and> (b \<longrightarrow> bounded (pe_lane p) \<and> ln_max_bytes (pe_lane p) = m)"

definition fan_ok :: "bool \<Rightarrow> 's fan \<Rightarrow> bool" where
  "fan_ok b F \<longleftrightarrow> list_all (peer_ok b (fn_max_bytes F) (fn_written F)) (fn_lanes F) \<and> list_all (\<lambda>ob. 0 \<le> lo_cost ob) (fn_written F)"

text \<open>A lane event with at most the object just written.\<close>

lemma peer_step:
  assumes "peer_ok b m w p" "b \<longrightarrow> steady e \<and> sorted (map lo_group (filter lo_live (w @ offered e))) \<and> 0 \<le> m" "list_all (\<lambda>ob. 0 \<le> lo_cost ob) w"
  shows "peer_ok b m (w @ offered e) (p\<lparr>pe_lane := lane_step e (pe_lane p)\<rparr>)"
proof -
  have j: "pe_joined p \<le> length w" and ok: "lane_ok (drop (pe_joined p) w) (pe_lane p)" using assms(1) by (simp_all add: peer_ok_def)
  have "bounded (lane_step e (pe_lane p)) \<and> ln_max_bytes (lane_step e (pe_lane p)) = m" if b
  proof -
    have "sorted (map lo_group (filter lo_live (take (pe_joined p) w @ drop (pe_joined p) w @ offered e)))"
      using assms(2) that by (simp only: append_assoc [symmetric] append_take_drop_id)
    then have s: "sorted (map lo_group (filter lo_live (drop (pe_joined p) w @ offered e)))" by (simp add: sorted_append)
    show ?thesis using step_bounded [OF ok, of e] assms that s by (auto simp: peer_ok_def list_all_iff dest: in_set_dropD)
  qed
  then show ?thesis using lane_step_ok [OF ok, of e] j by (simp add: peer_ok_def)
qed

lemma peers_step:
  assumes "fan_ok b F" "b \<longrightarrow> 0 \<le> fn_max_bytes F \<and> sorted (map lo_group (filter lo_live (fn_written F)))" "offered e = []"
  shows "list_all (peer_ok b (fn_max_bytes F) (fn_written F)) (map (on_lane (\<lambda>p L. if Q p L then lane_step e L else L)) (fn_lanes F))"
proof -
  have "steady e" using assms(3) by (auto simp: steady_def offered_def split: lane_event.splits)
  then have "peer_ok b (fn_max_bytes F) (fn_written F) (p\<lparr>pe_lane := lane_step e (pe_lane p)\<rparr>)" if "p \<in> set (fn_lanes F)" for p
    using peer_step [of b "fn_max_bytes F" "fn_written F" p e] assms that by (simp add: fan_ok_def list_all_iff)
  then show ?thesis using assms(1) by (auto simp: fan_ok_def list_all_iff on_lane_def)
qed

lemma each_step:
  assumes "fan_ok b F" "b \<longrightarrow> 0 \<le> fn_max_bytes F \<and> sorted (map lo_group (filter lo_live (fn_written F)))" "offered e = []"
  shows "fan_ok b (each_lane (\<lambda>p L. if Q p L then lane_step e L else L) F)"
  using peers_step [OF assms, of Q] assms(1) by (simp add: fan_ok_def each_lane_def)







lemma fan_max [simp]: "fn_max_bytes (fan_step e F) = fn_max_bytes F"
  by (cases e) (simp_all add: fan_step_def fan_add_def drop_session_def fan_write_def fan_end_group_def fan_end_track_def fan_reset_group_def fan_abort_def
      fan_close_def fan_closed_def fan_fail_def fan_lane_event_def each_lane_def mark_shared_datagrams_def retime_def Let_def split: lane_event.split)







section \<open>A concrete run\<close>




end
