(* ===== verification/Spec2Isabelle.thy ===== *)
theory Spec2Isabelle
  imports Base_Errors Fetch_Stream Request_Admission Object_History Drain_Return Track_Ends Stream_Tables Fanout_Delivery
begin

text \<open>
  A verification development for aiomoqt, a Python implementation of Media over QUIC Transport (MoQT) for the
  drafts 14, 16, 18, 20 and 22.

  \<^bold>\<open>The program.\<close> A session (\<^verbatim>\<open>protocol.py\<close>) runs over a QUIC connection or a WebTransport session of the
  third-party stack \<^verbatim>\<open>aiopquic\<close>. It exchanges control messages, each a type, a 16-bit length and a body
  (\<^verbatim>\<open>messages/\<close>), on a control stream and from draft 18 on one stream per request, and carries the objects of
  tracks on subgroup streams, fetch streams and datagrams (\<^verbatim>\<open>messages/data.py\<close>). What differs between drafts is a
  row of \<^verbatim>\<open>context.PROFILES\<close> and of the tables of \<^verbatim>\<open>types.py\<close> and \<^verbatim>\<open>messages/params.py\<close>. Tracks, delivery, media
  containers and the command line tools are built on top of sessions.

  \<^bold>\<open>The theories.\<close>

  \<^item> \<open>Prelude\<close>: results with Python's exceptions as values, dictionaries in insertion order, shared lemmas.
  \<^item> \<open>Py_Str\<close>: \<^verbatim>\<open>str\<close> as code points, UTF-8 encoding and decoding, integer parsing.
  \<^item> \<open>Moqt_Types\<close>: \<^verbatim>\<open>types.py\<close>. Enumerations and code point tables, draft parsing and normalisation, ALPN,
    wire control types, stream priority bands.
  \<^item> \<open>Draft_Context\<close>: \<^verbatim>\<open>context.py\<close>. The profile of every draft, request error and stream reset codes between
    their canonical form and the wire.
  \<^item> \<open>Buffer_Model\<close>: the buffers the codecs are written against: a reader is a function from a buffer to a value
    and the advanced buffer or an error, a writer gives bytes or an error. The integer encodings are those of
    \<^verbatim>\<open>aiopquic\<close> and hence a parameter \<open>vcodec\<close>; the locale \<open>vcodec_laws\<close> names what the code relies on (a pushed integer
    is read back, values out of range are refused, one byte for small values). RFC 9000 integers and a tagged
    64-bit encoding instantiate it, so no theorem is vacuous.
  \<^item> \<open>Filters\<close>: \<^verbatim>\<open>messages/params.py\<close>. Location Filters with their older forms, Range Filters and their compiled
    form, parameter kinds and scopes.
  \<^item> \<open>Message_Base\<close>, \<open>Base_Errors\<close>: \<^verbatim>\<open>messages/base.py\<close>. Parameter blocks, extension blocks, Setup Options, track
    names, tokens; and that parsing raises nothing but wire faults.
  \<^item> \<open>Data_Plane\<close>, \<open>Fetch_Stream\<close>: \<^verbatim>\<open>messages/data.py\<close> with the per-object steps of \<^verbatim>\<open>protocol.py\<close> that receive and
    serve objects. Both object parsers, every draft's fetch objects, datagrams.
  \<^item> \<open>Control_Codec\<close>, \<open>Control_Track\<close>: the control message classes, a record, \<open>X_serialize\<close> and \<open>X_deserialize\<close> each.
  \<^item> \<open>Control_Laws\<close>, \<open>Track_Laws\<close>: what each class reads back of what it wrote (\<open>X_received\<close>) and for which messages
    (\<open>X_ok\<close>), under the framing of \<^verbatim>\<open>_moqt_handle_control_message\<close>; the locale \<open>message_codec\<close> lifts this from bodies
    to frames.
  \<^item> \<open>Control_Dispatch\<close>: the dispatch tables built at class definition time, the lookup, the send guard; all classes
    as one codec, the interpretation of \<open>message_codec\<close>.
  \<^item> \<open>Request_Ids\<close>: \<^verbatim>\<open>_allocate_request_id\<close>, the peer's limit, the window of peer ids with its bounded memory and the
    MAX_REQUEST_ID credit, as operations on a record, with the reachable states as an inductive predicate.
  \<^item> \<open>Control_Session\<close>: \<^verbatim>\<open>_moqt_handle_control_message\<close> and \<^verbatim>\<open>_on_control_data\<close> for the control stream. What a message
    does after its checks is a parameter \<open>route\<close> on the rest of the session's state.
  \<^item> \<open>Object_History\<close>: the \<^verbatim>\<open>ObjectHistory\<close> of \<^verbatim>\<open>delivery.py\<close>, the objects a publisher keeps for fetches. Records are
    charged by their retained bytes, groups are indexed and compacted, the oldest records go first, and a fetch
    says which part of its range was lost.
  \<^item> \<open>Step_Systems\<close>: locales for components that run as a sequence of events: what every step keeps, a run keeps.
  \<^item> \<open>Request_Admission\<close>: what \<^verbatim>\<open>protocol.py\<close> does with a request before the application sees it: the token cache
    (\<^verbatim>\<open>_resolve_auth_token\<close>), the refusals (\<^verbatim>\<open>_refuse_request\<close>, \<^verbatim>\<open>_check_d20_update\<close>, \<^verbatim>\<open>_refuse_prefix_update\<close>), the
    record of admitted requests and the operations that end one. It is a \<open>route\<close> of \<open>Control_Session\<close>.
  \<^item> \<open>Early_Objects\<close>: the hold for objects whose alias no control message has bound yet.
  \<^item> \<open>Data_Session\<close>: the receiving side of the data plane in \<^verbatim>\<open>protocol.py\<close>, a record \<open>rx\<close> of the session's tables and a
    definition per operation: \<^verbatim>\<open>_on_stream_data\<close>, \<^verbatim>\<open>_drain_stream\<close>, \<^verbatim>\<open>_moqt_handle_data_stream\<close>, stream admission,
    \<^verbatim>\<open>_cleanup_stream\<close>, ends of groups and tracks, \<^verbatim>\<open>_malformed_track\<close>, the reaper, datagrams. Callbacks and calls into the
    transport are entries of a log. \<open>rx_step\<close> is one event of a session, \<open>rx_run\<close> a sequence of them.
  \<^item> \<open>Data_Laws\<close>, \<open>Drain_Return\<close>, \<open>Track_Ends\<close>, \<open>Stream_Tables\<close>: laws of every such run.
  \<^item> \<open>Send_Lane\<close>: the \<^verbatim>\<open>SendLane\<close> of \<^verbatim>\<open>delivery.py\<close>, a record \<open>lane\<close> and a definition per operation: \<^verbatim>\<open>offer\<close> with its write-through,
    \<^verbatim>\<open>_shed\<close>, the control items, \<^verbatim>\<open>resume\<close>, \<^verbatim>\<open>stop\<close>, \<^verbatim>\<open>_failed\<close>, \<^verbatim>\<open>check\<close>, and the task's loop \<^verbatim>\<open>_run\<close> cut at its waits. \<open>lane_step\<close> is one event:
    a call or a turn of the task, in any interleaving. What the peer's writer answers is part of the event, what it is asked a log.
  \<^item> \<open>Subgroup_Delivery\<close>: the \<^verbatim>\<open>SubgroupDelivery\<close> of \<^verbatim>\<open>delivery.py\<close>, that writer: \<^verbatim>\<open>write\<close> and \<^verbatim>\<open>end_track\<close> cut at their waits with the epochs that tell a
    reset in between, \<^verbatim>\<open>send_nowait\<close>, \<^verbatim>\<open>end_group\<close>, the resets, \<^verbatim>\<open>expire\<close>, \<^verbatim>\<open>tx_queued\<close>, and the encodings several deliveries share. The session's calls are a
    log, which \<open>conform\<close> checks against what a stream may carry.
  \<^item> \<open>Fanout_Delivery\<close>: the \<^verbatim>\<open>FanoutDelivery\<close> of \<^verbatim>\<open>delivery.py\<close>: the source's objects offered to the lane of every peer, peers that join and leave, and
    the laws of a lane for every peer of every run.

  \<^bold>\<open>What is shown.\<close> Round trips: every control message at every draft that defines it, parameter and extension
  blocks, filters, tokens, subgroup streams, fetch streams, datagrams, error codes. Refinement: the control stream
  reassembles any chunking into the delivery of whole messages; the bounded window of Request IDs against the
  full history; compiled filters against their meaning; a fetch from the object history against the list of what
  was published; the replay of early objects against the list of arrivals; what a send lane hands over against what it was
  offered; the bytes on a stream against the objects written through it. Equivalence: shared encodings against each delivery's own.
  Bounds: the history, the hold for early objects, the token cache, the unparsed bytes of data streams and the queue of a send lane
  keep within their limits and are counted exactly. Invariants: the Request ID state on every reachable session, with the credit messages it sends; admitted
  requests exclude each other; the stream tables agree with the streams. Safety: nothing past the end of a track
  is delivered, a malformed track is cut off, a group a send lane has lost is not sent again and its streams are reset before anything else
  happens to them, nothing is written on a stream after its end. Termination: every event of the receiving side returns. Errors: which faults parsing raises, what a control message can end
  in, that a FIN of the control stream closes the session. Tables: the dispatch table of a draft has exactly the
  types of the draft, and a message passes the send guard exactly when the peer can dispatch it.

  \<^bold>\<open>Bounds and termination.\<close> No fuel is used. The loop of \<^verbatim>\<open>_drain_stream\<close> is a partial function into \<open>option\<close>, shown to
  return because each turn that goes on consumed bytes; the fused object parser of the transport is a parameter of
  which this is asked as a hypothesis. Loops over a buffer are functions whose measure is the number of bytes
  left, because every iteration reads an integer; the control loop drops a frame in every iteration; the low-water
  mark of Request IDs advances over a finite set.

  \<^bold>\<open>Not modelled.\<close> Request streams (the \<^verbatim>\<open>is_request_bidi\<close> branches), the handler coroutines and the public request
  API of \<^verbatim>\<open>protocol.py\<close>, the routing of replies; \<^verbatim>\<open>track.py\<close>. They are the next
  steps, in this order. Log output and the rendering of messages have no effect on the state. The QUIC stack and its
  buffers are third party. \<^verbatim>\<open>media\<close>, \<^verbatim>\<open>agent\<close>, \<^verbatim>\<open>tools\<close>, \<^verbatim>\<open>utils\<close> and the examples are applications on top of the library.
\<close>

end
